(* ===== verification/RGI_Prelude.thy ===== *)
theory RGI_Prelude
  imports Main "HOL-Library.Word" "HOL-Library.Monad_Syntax"
begin

unbundle bit_operations_syntax

text \<open>
  Shared vocabulary of the development: the machine integers of the C sources, byte buffers
  and checked reads, the big-endian helpers of native/framework/common.h, C strings, 64-bit
  presence masks, the decimal output of printf, and the named collections of rules that the
  component theories extend.

  Reads are checked: a read past the end of its buffer is the value None, so that
  memory safety of a parser is the statement that it never evaluates to None.
\<close>

type_synonym u8 = "8 word"
type_synonym u16 = "16 word"
type_synonym u32 = "32 word"
type_synonym u64 = "64 word"
type_synonym bytes = "8 word list"

named_theorems read_simps \<open>checked reads inside the buffer\<close>
named_theorems flag_simps \<open>membership in presence masks\<close>
named_theorems frame_simps \<open>fields an operation leaves alone\<close>

section \<open>Result codes\<close>

datatype hook_result =
    HOOK_OK | HOOK_ERR_INIT | HOOK_ERR_PARAM | HOOK_ERR_MEMORY
  | HOOK_ERR_IO | HOOK_ERR_NOT_FOUND | HOOK_ERR_BUSY

section \<open>Checked reads\<close>

definition rd8 :: "bytes \<Rightarrow> nat \<Rightarrow> u8 option" where
  "rd8 b i = (if i < length b then Some (b ! i) else None)"

definition be16 :: "u8 \<Rightarrow> u8 \<Rightarrow> u16" where
  "be16 h l = push_bit 8 (ucast h) OR ucast l"

definition read_be16 :: "bytes \<Rightarrow> nat \<Rightarrow> u16 option" where
  "read_be16 p i = do { h \<leftarrow> rd8 p i; l \<leftarrow> rd8 p (i + 1); Some (be16 h l) }"

definition be32 :: "u8 \<Rightarrow> u8 \<Rightarrow> u8 \<Rightarrow> u8 \<Rightarrow> u32" where
  "be32 a b c d = push_bit 24 (ucast a) OR push_bit 16 (ucast b) OR push_bit 8 (ucast c) OR ucast d"

definition be64 :: "u32 \<Rightarrow> u32 \<Rightarrow> u64" where
  "be64 hi lo = push_bit 32 (ucast hi) OR ucast lo"

definition read_be32 :: "bytes \<Rightarrow> nat \<Rightarrow> u32 option" where
  "read_be32 p i = do {
     a \<leftarrow> rd8 p i; b \<leftarrow> rd8 p (i + 1); c \<leftarrow> rd8 p (i + 2); d \<leftarrow> rd8 p (i + 3);
     Some (be32 a b c d) }"

definition read_be64 :: "bytes \<Rightarrow> nat \<Rightarrow> u64 option" where
  "read_be64 p i = do {
     hi \<leftarrow> read_be32 p i; lo \<leftarrow> read_be32 p (i + 4);
     Some (be64 hi lo) }"

lemma rd8_in [read_simps]: "i < length b \<Longrightarrow> rd8 b i = Some (b ! i)"
  by (simp add: rd8_def)

lemma read_be16_in [read_simps]:
  "i + 1 < length b \<Longrightarrow> read_be16 b i = Some (be16 (b ! i) (b ! Suc i))"
  by (simp add: read_be16_def rd8_def)

lemma read_be16_Some_iff: "(\<exists>w. read_be16 b i = Some w) \<longleftrightarrow> i + 1 < length b"
  by (auto simp: read_be16_def rd8_def)

lemma read_be32_in [read_simps]:
  "i + 3 < length b \<Longrightarrow> read_be32 b i = Some (be32 (b ! i) (b ! (i + 1)) (b ! (i + 2)) (b ! (i + 3)))"
  by (simp add: read_be32_def rd8_def)

lemma read_be64_in [read_simps]:
  "i + 7 < length b \<Longrightarrow> read_be64 b i =
     Some (be64 (be32 (b ! i) (b ! (i + 1)) (b ! (i + 2)) (b ! (i + 3)))
                (be32 (b ! (i + 4)) (b ! (i + 5)) (b ! (i + 6)) (b ! (i + 7))))"
  by (simp add: read_be64_def read_be32_def rd8_def add.commute)

lemma read_be16_append1: "i + 1 < length xs \<Longrightarrow> read_be16 (xs @ ys) i = read_be16 xs i"
  by (simp add: read_be16_def rd8_def nth_append)

lemma read_be16_append2: "read_be16 (xs @ ys) (length xs + i) = read_be16 ys i"
  by (simp add: read_be16_def rd8_def nth_append)

section \<open>Big-endian writes\<close>

text \<open>The bytes that the write helpers store, in the order of their addresses.\<close>

definition write_be16 :: "u16 \<Rightarrow> bytes" where
  "write_be16 v = [ucast (drop_bit 8 v AND 0xFF), ucast (v AND 0xFF)]"

definition write_be32 :: "u32 \<Rightarrow> bytes" where
  "write_be32 v = [ucast (drop_bit 24 v AND 0xFF), ucast (drop_bit 16 v AND 0xFF),
                   ucast (drop_bit 8 v AND 0xFF), ucast (v AND 0xFF)]"

definition write_be64 :: "u64 \<Rightarrow> bytes" where
  "write_be64 v = write_be32 (ucast (drop_bit 32 v)) @ write_be32 (ucast (v AND 0xFFFFFFFF))"

lemma length_write_be16 [simp]: "length (write_be16 v) = 2"
  by (simp add: write_be16_def)

lemma length_write_be32 [simp]: "length (write_be32 v) = 4"
  by (simp add: write_be32_def)

lemma length_write_be64 [simp]: "length (write_be64 v) = 8"
  by (simp add: write_be64_def)

lemma and_FF_u16: "w AND 0xFF = take_bit 8 w" for w :: u16
  by (simp add: take_bit_eq_mask mask_eq_exp_minus_1)

lemma and_FF_u32: "w AND 0xFF = take_bit 8 w" for w :: u32
  by (simp add: take_bit_eq_mask mask_eq_exp_minus_1)

lemma and_FFFFFFFF_u64: "w AND 0xFFFFFFFF = take_bit 32 w" for w :: u64
  by (simp add: take_bit_eq_mask mask_eq_exp_minus_1)

lemmas and_low_bits = and_FF_u16 and_FF_u32 and_FFFFFFFF_u64

lemmas bit_word_simps =
  bit_or_iff bit_push_bit_iff bit_drop_bit_eq bit_unsigned_iff bit_take_bit_iff

lemma be16_write [simp]: "be16 (ucast (drop_bit 8 v AND 0xFF)) (ucast (v AND 0xFF)) = v"
  unfolding and_low_bits by (rule bit_word_eqI) (auto simp: be16_def bit_word_simps)

lemma write_be16_be16 [simp]: "write_be16 (be16 a b) = [a, b]"
proof -
  have "(ucast (drop_bit 8 (be16 a b) AND 0xFF) :: u8) = a"
    unfolding and_low_bits
    by (rule bit_word_eqI) (auto simp: be16_def bit_word_simps dest: bit_imp_le_length)
  moreover have "(ucast (be16 a b AND 0xFF) :: u8) = b"
    unfolding and_low_bits
    by (rule bit_word_eqI) (auto simp: be16_def bit_word_simps)
  ultimately show ?thesis by (simp add: write_be16_def)
qed

lemma read_write_be16: "read_be16 (xs @ write_be16 v @ ys) (length xs) = Some v"
  by (simp add: read_be16_def rd8_def nth_append write_be16_def)

lemma be32_write:
  "push_bit 24 (ucast (ucast (drop_bit 24 v AND 0xFF) :: u8)) OR
   push_bit 16 (ucast (ucast (drop_bit 16 v AND 0xFF) :: u8)) OR
   push_bit 8 (ucast (ucast (drop_bit 8 v AND 0xFF) :: u8)) OR
   ucast (ucast (v AND 0xFF) :: u8) = (v :: u32)" (is "?l = v")
proof (rule bit_word_eqI)
  fix n assume "n < LENGTH(32)"
  then consider "n < 8" | "8 \<le> n" "n < 16" | "16 \<le> n" "n < 24" | "24 \<le> n" "n < 32"
    by fastforce
  then show "bit ?l n = bit v n"
    unfolding and_low_bits by cases (auto simp: bit_word_simps)
qed

lemma read_write_be32: "read_be32 (xs @ write_be32 v @ ys) (length xs) = Some v"
  by (simp add: read_be32_def rd8_def nth_append write_be32_def be32_def be32_write)

lemma be64_write:
  "push_bit 32 (ucast (ucast (drop_bit 32 v) :: u32)) OR
   ucast (ucast (v AND 0xFFFFFFFF) :: u32) = (v :: u64)"
  unfolding and_low_bits by (rule bit_word_eqI) (auto simp: bit_word_simps)

lemma read_write_be64: "read_be64 (xs @ write_be64 v @ ys) (length xs) = Some v"
proof -
  have hi: "read_be32 (xs @ write_be64 v @ ys) (length xs) = Some (ucast (drop_bit 32 v))"
    unfolding write_be64_def append_assoc by (rule read_write_be32)
  have lo: "read_be32 (xs @ write_be64 v @ ys) (length xs + 4) = Some (ucast (v AND 0xFFFFFFFF))"
    using read_write_be32 [of "xs @ write_be32 (ucast (drop_bit 32 v))"
        "ucast (v AND 0xFFFFFFFF)" ys] by (simp add: write_be64_def)
  show ?thesis by (simp only: read_be64_def hi lo bind.bind_lunit be64_def be64_write)
qed

lemma unat_be16: "unat (be16 a b) = 256 * unat a + unat b"
proof -
  have *: "be16 a b = push_bit 8 (ucast a) + ucast b"
    unfolding be16_def
    by (rule disjunctive_add [symmetric])
       (auto simp: bit_word_simps dest: bit_imp_le_length)
  have a: "unat a < 256" and b: "unat b < 256"
    using unsigned_less [of a] unsigned_less [of b] by auto
  show ?thesis
    using a b unfolding *
    by (simp add: unat_word_ariths unsigned_push_bit_eq unsigned_ucast_eq
        take_bit_eq_mod push_bit_eq_mult)
qed

lemma be16_inject: "be16 a b = be16 c d \<longleftrightarrow> a = c \<and> b = d"
  by (metis write_be16_be16 list.inject)

section \<open>Memory writes\<close>

text \<open>memcpy of bs to address off of the buffer m; the caller has checked the room.\<close>

definition mem_put :: "bytes \<Rightarrow> nat \<Rightarrow> bytes \<Rightarrow> bytes" where
  "mem_put m off bs = take off m @ bs @ drop (off + length bs) m"

lemma length_mem_put: "off + length bs \<le> length m \<Longrightarrow> length (mem_put m off bs) = length m"
  by (simp add: mem_put_def)

lemma take_mem_put_0: "length bs \<le> length m \<Longrightarrow> take (length bs) (mem_put m 0 bs) = bs"
  by (simp add: mem_put_def)

lemma mem_put_append:
  "length bs + length cs \<le> length m \<Longrightarrow>
   mem_put (mem_put m 0 bs) (length bs) cs = mem_put m 0 (bs @ cs)"
  by (simp add: mem_put_def add.commute)

section \<open>C strings\<close>

text \<open>
  A char array is represented by its contents up to the first NUL. c_str n v is the string
  held by a buffer of n + 1 bytes after memcpy of at most n bytes of v and the final NUL.
\<close>

definition c_str :: "nat \<Rightarrow> bytes \<Rightarrow> bytes" where
  "c_str n v = takeWhile (\<lambda>c. c \<noteq> 0) (take n v)"

definition ascii :: "string \<Rightarrow> bytes" where
  "ascii s = map of_char s"

lemma ascii_Nil [simp]: "ascii [] = []"
  by (simp add: ascii_def)

lemma ascii_Cons [simp]: "ascii (c # s) = of_char c # ascii s"
  by (simp add: ascii_def)

lemma ascii_append [simp]: "ascii (s @ t) = ascii s @ ascii t"
  by (simp add: ascii_def)

lemma length_ascii [simp]: "length (ascii s) = length s"
  by (simp add: ascii_def)

lemma length_c_str: "length (c_str n v) \<le> n"
  unfolding c_str_def by (metis length_take length_takeWhile_le min.bounded_iff nle_le)

lemma c_str_no_NUL: "0 \<notin> set (c_str n v)"
  unfolding c_str_def by (auto dest: set_takeWhileD)

lemma c_str_id: "0 \<notin> set v \<Longrightarrow> length v \<le> n \<Longrightarrow> c_str n v = v"
  by (auto simp: c_str_def takeWhile_eq_all_conv)

section \<open>Presence masks\<close>

text \<open>The header writes a presence bit as (1ULL << n).\<close>

definition flag :: "nat \<Rightarrow> u64" where
  "flag n = push_bit n 1"

definition has :: "u64 \<Rightarrow> u64 \<Rightarrow> bool" where
  "has p m \<longleftrightarrow> p AND m \<noteq> 0"

lemma bit_flag: "bit (flag n) i \<longleftrightarrow> i = n \<and> n < 64"
  by (auto simp: flag_def bit_simps)

lemma bit_u64_less: "bit p n \<Longrightarrow> n < 64" for p :: u64
  using bit_imp_le_length [of p n] by simp

lemma has_iff_bit: "has p m \<longleftrightarrow> (\<exists>n. bit p n \<and> bit m n)"
  unfolding has_def bit_eq_iff by (auto simp: bit_simps intro: bit_u64_less)

lemma has_flag [flag_simps]: "n < 64 \<Longrightarrow> has p (flag n) \<longleftrightarrow> bit p n"
  by (auto simp: has_iff_bit bit_flag)

lemma has_0 [flag_simps]: "\<not> has 0 m"
  by (simp add: has_def)

lemma has_or_left [flag_simps]: "has (p OR q) m \<longleftrightarrow> has p m \<or> has q m"
  by (auto simp: has_iff_bit bit_or_iff)

lemma has_or_right [flag_simps]: "has p (m OR k) \<longleftrightarrow> has p m \<or> has p k"
  by (auto simp: has_iff_bit bit_or_iff)

declare bit_flag [flag_simps] bit_or_iff [flag_simps]

section \<open>Decimal output\<close>

fun dec_nat :: "nat \<Rightarrow> bytes" where
  "dec_nat n = (if n < 10 then [of_nat (48 + n)] else dec_nat (n div 10) @ [of_nat (48 + n mod 10)])"

declare dec_nat.simps [simp del]

definition dec_int :: "int \<Rightarrow> bytes" where
  "dec_int i = (if i < 0 then 45 # dec_nat (nat (- i)) else dec_nat (nat i))"

definition is_digit :: "u8 \<Rightarrow> bool" where
  "is_digit c \<longleftrightarrow> 48 \<le> c \<and> c \<le> 57"

lemma is_digit_48: "n < 10 \<Longrightarrow> is_digit (of_nat (48 + n))"
  by (auto simp: is_digit_def word_le_nat_alt unat_word_ariths unat_of_nat)

lemma dec_nat_digits: "c \<in> set (dec_nat n) \<Longrightarrow> is_digit c"
proof (induction n rule: dec_nat.induct)
  case (1 n)
  show ?case
  proof (cases "n < 10")
    case True
    with "1.prems" is_digit_48 [of n] show ?thesis by (simp add: dec_nat.simps [of n])
  next
    case False
    with "1.prems" "1.IH" is_digit_48 [of "n mod 10"] show ?thesis
      by (auto simp: dec_nat.simps [of n])
  qed
qed

lemma dec_nat_nonempty [simp]: "dec_nat n \<noteq> []"
  by (subst dec_nat.simps) simp

lemma length_dec_nat: "0 < k \<Longrightarrow> n < 10 ^ k \<Longrightarrow> length (dec_nat n) \<le> k"
proof (induction n arbitrary: k rule: dec_nat.induct)
  case (1 n)
  show ?case
  proof (cases "n < 10")
    case True
    then show ?thesis using "1.prems" by (simp add: dec_nat.simps [of n])
  next
    case False
    with "1.prems" obtain j where j: "k = Suc j" "0 < j"
      by (cases k; cases "k = 1") auto
    with "1.prems" have "n div 10 < 10 ^ j" by (auto simp: less_mult_imp_div_less mult.commute)
    with False j "1.IH" [of j] show ?thesis by (simp add: dec_nat.simps [of n])
  qed
qed

lemma length_dec_int: "0 < k \<Longrightarrow> \<bar>i\<bar> < 10 ^ k \<Longrightarrow> length (dec_int i) \<le> Suc k"
proof -
  assume k: "0 < k" "\<bar>i\<bar> < 10 ^ k"
  then have "nat \<bar>i\<bar> < 10 ^ k" by (simp add: nat_less_iff)
  with k have *: "length (dec_nat (nat \<bar>i\<bar>)) \<le> k" by (intro length_dec_nat) auto
  show ?thesis
  proof (cases "i < 0")
    case True
    with * show ?thesis by (simp add: dec_int_def)
  next
    case False
    with * show ?thesis by (simp add: dec_int_def)
  qed
qed

lemma dec_int_chars: "c \<in> set (dec_int i) \<Longrightarrow> is_digit c \<or> c = 45"
  by (auto simp: dec_int_def dest: dec_nat_digits split: if_splits)

end
