(* ===== verification/Tlv_Walk.thy ===== *)
theory Tlv_Walk
  imports RGI_Prelude
begin

text \<open>
  Type-length-value lists as iAP2 writes them: a big-endian length that counts the four header
  bytes, a big-endian identifier and the value. tlv_split is the reference reading of a byte
  string, tlv_encode its inverse, tlv_walk the loop that the C parsers of
  native/routeguidance/rgd_tlv.c share, and the locale tlv_handler the contract that a parser's
  switch statement has to meet.
\<close>

section \<open>Reference reading and encoding\<close>

definition slice :: "bytes \<Rightarrow> nat \<Rightarrow> nat \<Rightarrow> bytes" where
  "slice b i n = take n (drop i b)"

lemma length_slice: "i + n \<le> length b \<Longrightarrow> length (slice b i n) = n"
  by (simp add: slice_def)

fun tlv_split :: "bytes \<Rightarrow> (u16 \<times> bytes) list" where
  "tlv_split bs =
     (if length bs < 4 then []
      else let l = unat (be16 (bs ! 0) (bs ! 1)) in
        if l < 4 \<or> length bs < l then []
        else (be16 (bs ! 2) (bs ! 3), slice bs 4 (l - 4)) # tlv_split (drop l bs))"

declare tlv_split.simps [simp del]

definition tlv_encode :: "u16 \<times> bytes \<Rightarrow> bytes" where
  "tlv_encode t = write_be16 (of_nat (4 + length (snd t))) @ write_be16 (fst t) @ snd t"

definition tlv_ok :: "u16 \<times> bytes \<Rightarrow> bool" where
  "tlv_ok t \<longleftrightarrow> length (snd t) \<le> 65531"

lemma length_tlv_encode [simp]: "length (tlv_encode t) = 4 + length (snd t)"
  by (simp add: tlv_encode_def)

lemma unat_of_nat_u16: "n < 65536 \<Longrightarrow> unat (of_nat n :: u16) = n"
  by (simp add: unat_of_nat)

lemma nth_write_be16: "be16 (write_be16 v ! 0) (write_be16 v ! Suc 0) = v"
  by (simp add: write_be16_def)

lemma tlv_encode_header:
  "tlv_ok t \<Longrightarrow> unat (be16 ((tlv_encode t @ r) ! 0) ((tlv_encode t @ r) ! 1)) = 4 + length (snd t)"
  "be16 ((tlv_encode t @ r) ! 2) ((tlv_encode t @ r) ! 3) = fst t"
  "slice (tlv_encode t @ r) 4 (length (snd t)) = snd t"
  by (simp_all add: tlv_encode_def tlv_ok_def write_be16_def slice_def unat_of_nat_u16
      del: of_nat_add)

lemma tlv_split_encode_Cons:
  assumes "tlv_ok t"
  shows "tlv_split (tlv_encode t @ r) = t # tlv_split r"
  by (subst tlv_split.simps) (simp add: Let_def tlv_encode_header assms del: One_nat_def)

lemma tlv_split_Nil [simp]: "tlv_split [] = []"
  by (subst tlv_split.simps) simp

lemma tlv_split_encode:
  "list_all tlv_ok ts \<Longrightarrow> tlv_split (concat (map tlv_encode ts)) = ts"
  by (induction ts) (simp_all add: tlv_split_encode_Cons)

lemma tlv_split_ok: "list_all tlv_ok (tlv_split bs)"
proof (induction bs rule: tlv_split.induct)
  case (1 bs)
  have "unat (be16 (bs ! 0) (bs ! 1)) < 65536"
    using unsigned_less [of "be16 (bs ! 0) (bs ! 1)"] by simp
  then have "tlv_ok (i, slice bs 4 (unat (be16 (bs ! 0) (bs ! 1)) - 4))" for i
    by (simp add: tlv_ok_def slice_def)
  with "1.IH" [OF _ refl] show ?case
    by (subst tlv_split.simps) (auto simp: Let_def)
qed

section \<open>The loop over a TLV list\<close>

datatype 's flow = Continue 's | Break 's

primrec flow_state :: "'s flow \<Rightarrow> 's" where
  "flow_state (Continue s) = s"
| "flow_state (Break s) = s"

function tlv_walk ::
  "(u16 \<Rightarrow> bytes \<Rightarrow> 's \<Rightarrow> 's flow option) \<Rightarrow> bytes \<Rightarrow> nat \<Rightarrow> 's \<Rightarrow> 's option" where
  "tlv_walk f buf off s =
     (if off + 4 \<le> length buf then do {
        tlv_len \<leftarrow> read_be16 buf off;
        tlv_id \<leftarrow> read_be16 buf (off + 2);
        if unat tlv_len < 4 \<or> off + unat tlv_len > length buf then Some s
        else do {
          r \<leftarrow> f tlv_id (slice buf (off + 4) (unat tlv_len - 4)) s;
          case r of Break s' \<Rightarrow> Some s'
          | Continue s' \<Rightarrow> tlv_walk f buf (off + unat tlv_len) s' } }
      else Some s)"
  by pat_completeness auto
termination
  by (relation "measure (\<lambda>(f, buf, off, s). length buf - off)") auto

declare tlv_walk.simps [simp del]

fun tlv_fold ::
  "(u16 \<Rightarrow> bytes \<Rightarrow> 's \<Rightarrow> 's flow option) \<Rightarrow> (u16 \<times> bytes) list \<Rightarrow> 's \<Rightarrow> 's option" where
  "tlv_fold f [] s = Some s"
| "tlv_fold f ((i, v) # ts) s = do {
     r \<leftarrow> f i v s;
     case r of Break s' \<Rightarrow> Some s' | Continue s' \<Rightarrow> tlv_fold f ts s' }"

lemma tlv_walk_fold: "tlv_walk f buf off s = tlv_fold f (tlv_split (drop off buf)) s"
proof (induction f buf off s rule: tlv_walk.induct)
  case (1 f buf off s)
  show ?case
  proof (cases "off + 4 \<le> length buf")
    case False
    then have "tlv_split (drop off buf) = []"
      by (subst tlv_split.simps) auto
    with False show ?thesis by (simp add: tlv_walk.simps [of f buf off s])
  next
    case True
    define l where "l = be16 (buf ! off) (buf ! Suc off)"
    define i where "i = be16 (buf ! (off + 2)) (buf ! Suc (off + 2))"
    have rl: "read_be16 buf off = Some l" and ri: "read_be16 buf (off + 2) = Some i"
      using True by (simp_all add: read_simps l_def i_def)
    show ?thesis
    proof (cases "unat l < 4 \<or> length buf < off + unat l")
      case bad: True
      then have "tlv_split (drop off buf) = []"
        using True by (subst tlv_split.simps) (auto simp: Let_def l_def)
      with True bad rl ri show ?thesis
        by (simp add: tlv_walk.simps [of f buf off s])
    next
      case ok: False
      have sp: "tlv_split (drop off buf) =
          (i, slice buf (off + 4) (unat l - 4)) # tlv_split (drop (off + unat l) buf)"
        using True ok
        by (subst tlv_split.simps)
           (auto simp: Let_def l_def i_def slice_def add.commute numeral_3_eq_3)
      show ?thesis
        using True ok rl ri "1.IH" [OF True rl ri ok]
        by (auto simp: tlv_walk.simps [of f buf off s] sp split: flow.splits bind_splits)
    qed
  qed
qed

lemma tlv_walk_encode:
  assumes "list_all tlv_ok ts"
  shows "tlv_walk f (hdr @ concat (map tlv_encode ts)) (length hdr) s = tlv_fold f ts s"
  using assms by (simp add: tlv_walk_fold tlv_split_encode)

section \<open>The contract of a parser's switch\<close>

text \<open>
  I is what the parser keeps of its result; a handler answers every identifier and every value
  without a read outside the value and keeps I.
\<close>

locale tlv_handler =
  fixes f :: "u16 \<Rightarrow> bytes \<Rightarrow> 's \<Rightarrow> 's flow option"
    and I :: "'s \<Rightarrow> bool"
  assumes handles: "I s \<Longrightarrow> \<exists>r. f i v s = Some r \<and> I (flow_state r)"
begin

lemma fold_total: "I s \<Longrightarrow> \<exists>s'. tlv_fold f ts s = Some s' \<and> I s'"
proof (induction ts arbitrary: s)
  case Nil
  then show ?case by simp
next
  case (Cons t ts)
  obtain i v where t: "t = (i, v)" by fastforce
  from handles [OF Cons.prems, of i v] obtain r where r: "f i v s = Some r" "I (flow_state r)"
    by blast
  show ?case
  proof (cases r)
    case (Continue s1)
    with r Cons.IH [of s1] t show ?thesis by simp
  next
    case (Break s1)
    with r t show ?thesis by simp
  qed
qed

lemma walk_total: "I s \<Longrightarrow> \<exists>s'. tlv_walk f buf off s = Some s' \<and> I s'"
  by (simp add: tlv_walk_fold fold_total)

end

end
