(* ===== verification/Iap2_Protocol.thy ===== *)
theory Iap2_Protocol
  imports Tlv_Walk
begin

text \<open>
  native/framework/iap2_protocol.c: finding, checking and building iAP2 control frames and
  TLVs, the link checksum and the link header. A buffer argument is Some of its bytes or None
  for a NULL pointer; the length argument is the number of bytes of the buffer. Pointers into
  a buffer are offsets. The outer option of a result is None exactly when the code would read
  outside its buffer.
\<close>

abbreviation IAP2_SYNC1 :: u8 where "IAP2_SYNC1 \<equiv> 0x40"
abbreviation IAP2_SYNC2 :: u8 where "IAP2_SYNC2 \<equiv> 0x40"
abbreviation IAP2_MIN_FRAME :: nat where "IAP2_MIN_FRAME \<equiv> 6"
abbreviation IAP2_MSG_ROUTE_GUIDANCE_START :: u16 where "IAP2_MSG_ROUTE_GUIDANCE_START \<equiv> 0x5200"
abbreviation IAP2_MSG_ROUTE_GUIDANCE_UPDATE :: u16 where "IAP2_MSG_ROUTE_GUIDANCE_UPDATE \<equiv> 0x5201"
abbreviation IAP2_MSG_ROUTE_GUIDANCE_MANEUVER :: u16 where "IAP2_MSG_ROUTE_GUIDANCE_MANEUVER \<equiv> 0x5202"
abbreviation IAP2_MSG_ROUTE_GUIDANCE_STOP :: u16 where "IAP2_MSG_ROUTE_GUIDANCE_STOP \<equiv> 0x5203"
abbreviation IAP2_MSG_ROUTE_GUIDANCE_LANE :: u16 where "IAP2_MSG_ROUTE_GUIDANCE_LANE \<equiv> 0x5204"
abbreviation IAP2_MSG_LOCATION_INFO :: u16 where "IAP2_MSG_LOCATION_INFO \<equiv> 0xFFFB"

section \<open>Frames\<close>

record iap2_frame =
  fr_msgid :: u16
  fr_frame_len :: u16
  fr_offset :: nat
  fr_payload :: "nat option"
  fr_payload_len :: nat

definition mk_frame :: "nat \<Rightarrow> u16 \<Rightarrow> u16 \<Rightarrow> iap2_frame" where
  "mk_frame i flen msgid =
     \<lparr>fr_msgid = msgid, fr_frame_len = flen, fr_offset = i,
      fr_payload = (if unat flen > 6 then Some (i + 6) else None),
      fr_payload_len = (if unat flen > 6 then unat flen - 6 else 0)\<rparr>"

function find_frame_loop :: "bytes \<Rightarrow> nat \<Rightarrow> iap2_frame option option" where
  "find_frame_loop buf i =
     (if i < length buf - 5 then do {
        b0 \<leftarrow> rd8 buf i;
        if b0 \<noteq> IAP2_SYNC1 then find_frame_loop buf (i + 1)
        else do {
          b1 \<leftarrow> rd8 buf (i + 1);
          if b1 \<noteq> IAP2_SYNC2 then find_frame_loop buf (i + 1)
          else do {
            flen \<leftarrow> read_be16 buf (i + 2);
            if unat flen < IAP2_MIN_FRAME then find_frame_loop buf (i + 1)
            else if i + unat flen > length buf then find_frame_loop buf (i + 1)
            else do {
              msgid \<leftarrow> read_be16 buf (i + 4);
              Some (Some (mk_frame i flen msgid)) } } } }
      else Some None)"
  by pat_completeness auto
termination
  by (relation "measure (\<lambda>(buf, i). length buf - i)") auto

declare find_frame_loop.simps [simp del]

definition iap2_find_frame_at :: "bytes option \<Rightarrow> nat \<Rightarrow> iap2_frame option option" where
  "iap2_find_frame_at pbuf start_off = (case pbuf of
     None \<Rightarrow> Some None
   | Some buf \<Rightarrow> if length buf < IAP2_MIN_FRAME then Some None
                 else find_frame_loop buf start_off)"

definition iap2_find_frame :: "bytes option \<Rightarrow> iap2_frame option option" where
  "iap2_find_frame pbuf = iap2_find_frame_at pbuf 0"

definition iap2_validate_frame :: "bytes option \<Rightarrow> bool option" where
  "iap2_validate_frame pbuf = (case pbuf of
     None \<Rightarrow> Some False
   | Some buf \<Rightarrow> if length buf < IAP2_MIN_FRAME then Some False
       else do {
         b0 \<leftarrow> rd8 buf 0;
         if b0 \<noteq> IAP2_SYNC1 then Some False
         else do {
           b1 \<leftarrow> rd8 buf 1;
           if b1 \<noteq> IAP2_SYNC2 then Some False
           else do {
             flen \<leftarrow> read_be16 buf 2;
             if unat flen < IAP2_MIN_FRAME \<or> unat flen > length buf then Some False
             else Some True } } })"

definition iap2_parse_msgid :: "bytes option \<Rightarrow> int option" where
  "iap2_parse_msgid pbuf = (case pbuf of
     None \<Rightarrow> Some (-1)
   | Some buf \<Rightarrow> if length buf < IAP2_MIN_FRAME then Some (-1)
       else do {
         b0 \<leftarrow> rd8 buf 0;
         if b0 \<noteq> IAP2_SYNC1 then Some (-1)
         else do {
           b1 \<leftarrow> rd8 buf 1;
           if b1 \<noteq> IAP2_SYNC2 then Some (-1)
           else map_option uint (read_be16 buf 4) } })"

text \<open>The reference: a complete frame starts at position i.\<close>

definition frame_at :: "bytes \<Rightarrow> nat \<Rightarrow> bool" where
  "frame_at buf i \<longleftrightarrow>
     i + 6 \<le> length buf \<and> buf ! i = IAP2_SYNC1 \<and> buf ! Suc i = IAP2_SYNC2 \<and>
     6 \<le> unat (be16 (buf ! (i + 2)) (buf ! Suc (i + 2))) \<and>
     i + unat (be16 (buf ! (i + 2)) (buf ! Suc (i + 2))) \<le> length buf"

definition frame_of :: "bytes \<Rightarrow> nat \<Rightarrow> iap2_frame" where
  "frame_of buf i = mk_frame i (be16 (buf ! (i + 2)) (buf ! Suc (i + 2)))
     (be16 (buf ! (i + 4)) (buf ! Suc (i + 4)))"

lemma find_frame_loop_step:
  assumes "6 \<le> length buf"
  shows "find_frame_loop buf i =
    (if i < length buf - 5 then
       if frame_at buf i then Some (Some (frame_of buf i)) else find_frame_loop buf (Suc i)
     else Some None)"
  using assms
  by (subst find_frame_loop.simps) (auto simp: read_simps frame_at_def frame_of_def)

lemma find_frame_loop_find:
  assumes "6 \<le> length buf"
  shows "find_frame_loop buf i = Some (map_option (frame_of buf) (find (frame_at buf) [i..<length buf - 5]))"
proof (induction "length buf - i" arbitrary: i rule: less_induct)
  case less
  show ?case
  proof (cases "i < length buf - 5")
    case True
    then have "[i..<length buf - 5] = i # [Suc i..<length buf - 5]"
      by (simp add: upt_conv_Cons)
    with True less [of "Suc i"] show ?thesis
      by (simp add: find_frame_loop_step [OF assms, of i])
  next
    case False
    then show ?thesis by (simp add: find_frame_loop_step [OF assms, of i])
  qed
qed

lemma iap2_find_frame_at_eq:
  "iap2_find_frame_at (Some buf) off =
     Some (if length buf < 6 then None
           else map_option (frame_of buf) (find (frame_at buf) [off..<length buf - 5]))"
  by (simp add: iap2_find_frame_at_def find_frame_loop_find)

lemma find_upt_Some:
  "find P [a..<b] = Some i \<longleftrightarrow> a \<le> i \<and> i < b \<and> P i \<and> (\<forall>j. a \<le> j \<longrightarrow> j < i \<longrightarrow> \<not> P j)"
proof (induction "b - a" arbitrary: a)
  case 0
  then show ?case by simp
next
  case (Suc n)
  then have ab: "a < b" by simp
  then have *: "[a..<b] = a # [Suc a..<b]" by (simp add: upt_conv_Cons)
  have IH: "find P [Suc a..<b] = Some i \<longleftrightarrow>
      Suc a \<le> i \<and> i < b \<and> P i \<and> (\<forall>j. Suc a \<le> j \<longrightarrow> j < i \<longrightarrow> \<not> P j)"
    using Suc.hyps(2) by (intro Suc.hyps(1)) simp
  show ?case
  proof (cases "P a")
    case True
    with ab show ?thesis unfolding * by auto
  next
    case False
    with ab IH show ?thesis unfolding *
      by auto (metis Suc_leI le_neq_implies_less)+
  qed
qed

section \<open>TLVs\<close>

text \<open>The value pointer is represented by the bytes it points to.\<close>

record iap2_tlv =
  tl_id :: u16
  tl_len :: u16
  tl_value :: "bytes option"
  tl_value_len :: nat

definition set_value :: "bytes \<Rightarrow> u16 \<Rightarrow> iap2_tlv \<Rightarrow> iap2_tlv" where
  "set_value v len tlv =
     tlv\<lparr>tl_value := (if unat len > 4 then Some v else None),
         tl_value_len := (if unat len > 4 then unat len - 4 else 0)\<rparr>"

definition iap2_parse_tlv :: "bytes option \<Rightarrow> iap2_tlv \<Rightarrow> (bool \<times> iap2_tlv) option" where
  "iap2_parse_tlv pbuf tlv = (case pbuf of
     None \<Rightarrow> Some (False, tlv)
   | Some buf \<Rightarrow> if length buf < 4 then Some (False, tlv)
       else do {
         len \<leftarrow> read_be16 buf 0;
         i \<leftarrow> read_be16 buf 2;
         let tlv = tlv\<lparr>tl_len := len, tl_id := i\<rparr>;
         if unat len < 4 \<or> unat len > length buf then Some (False, tlv)
         else Some (True, set_value (slice buf 4 (unat len - 4)) len tlv) })"

record iap2_tlv_iter =
  it_data :: "bytes option"
  it_offset :: nat

definition iap2_tlv_iter_init :: "bytes option \<Rightarrow> iap2_tlv_iter" where
  "iap2_tlv_iter_init frame =
     \<lparr>it_data = (case frame of None \<Rightarrow> None
                 | Some f \<Rightarrow> if length f > 6 then Some (drop 6 f) else None),
      it_offset = 0\<rparr>"

definition iap2_tlv_iter_next ::
  "iap2_tlv_iter \<Rightarrow> iap2_tlv \<Rightarrow> (bool \<times> iap2_tlv_iter \<times> iap2_tlv) option" where
  "iap2_tlv_iter_next iter tlv = (case it_data iter of
     None \<Rightarrow> Some (False, iter, tlv)
   | Some d \<Rightarrow> if it_offset iter + 4 > length d then Some (False, iter, tlv)
       else do {
         (ok, tlv') \<leftarrow> iap2_parse_tlv (Some (drop (it_offset iter) d)) tlv;
         if \<not> ok then Some (False, iter, tlv')
         else Some (True, iter\<lparr>it_offset := it_offset iter + unat (tl_len tlv')\<rparr>, tlv') })"

function find_tlv_loop :: "bytes \<Rightarrow> nat \<Rightarrow> u16 \<Rightarrow> (nat \<times> u16) option option" where
  "find_tlv_loop payload off tlv_id =
     (if off + 4 \<le> length payload then do {
        tlen \<leftarrow> read_be16 payload off;
        tid \<leftarrow> read_be16 payload (off + 2);
        if unat tlen < 4 \<or> off + unat tlen > length payload then Some None
        else if tid = tlv_id then Some (Some (off, tlen))
        else find_tlv_loop payload (off + unat tlen) tlv_id }
      else Some None)"
  by pat_completeness auto
termination
  by (relation "measure (\<lambda>(p, off, i). length p - off)") auto

declare find_tlv_loop.simps [simp del]

definition iap2_find_tlv :: "bytes option \<Rightarrow> u16 \<Rightarrow> iap2_tlv \<Rightarrow> (bool \<times> iap2_tlv) option" where
  "iap2_find_tlv ppayload tlv_id tlv = (case ppayload of
     None \<Rightarrow> Some (False, tlv)
   | Some payload \<Rightarrow> if length payload < 4 then Some (False, tlv)
       else do {
         r \<leftarrow> find_tlv_loop payload 0 tlv_id;
         case r of None \<Rightarrow> Some (False, tlv)
         | Some (off, tlen) \<Rightarrow>
             Some (True, set_value (slice payload (off + 4) (unat tlen - 4)) tlen
                           (tlv\<lparr>tl_len := tlen, tl_id := tlv_id\<rparr>)) })"

text \<open>The result is the offset and what the call leaves in *out_len.\<close>

definition iap2_find_tlv_offset :: "bytes option \<Rightarrow> u16 \<Rightarrow> u16 \<Rightarrow> (nat \<times> u16) option" where
  "iap2_find_tlv_offset ppayload tlv_id out_len = (case ppayload of
     None \<Rightarrow> Some (0, out_len)
   | Some payload \<Rightarrow> if length payload < 4 then Some (0, out_len)
       else do {
         r \<leftarrow> find_tlv_loop payload 0 tlv_id;
         case r of None \<Rightarrow> Some (0, out_len) | Some (off, tlen) \<Rightarrow> Some (off, tlen) })"

text \<open>The reference: the first TLV with the identifier, with its offset.\<close>

fun tlv_find :: "u16 \<Rightarrow> (u16 \<times> bytes) list \<Rightarrow> nat \<Rightarrow> (nat \<times> bytes) option" where
  "tlv_find i [] off = None"
| "tlv_find i ((j, v) # ts) off =
     (if j = i then Some (off, v) else tlv_find i ts (off + 4 + length v))"

lemma tlv_split_unfold:
  assumes "off + 4 \<le> length p"
  shows "tlv_split (drop off p) =
    (let l = be16 (p ! off) (p ! Suc off) in
     if unat l < 4 \<or> length p < off + unat l then []
     else (be16 (p ! (off + 2)) (p ! Suc (off + 2)), slice p (off + 4) (unat l - 4))
          # tlv_split (drop (off + unat l) p))"
  using assms
  by (subst tlv_split.simps) (auto simp: Let_def slice_def add.commute numeral_3_eq_3)

lemma tlv_split_short: "\<not> off + 4 \<le> length p \<Longrightarrow> tlv_split (drop off p) = []"
  by (subst tlv_split.simps) auto

lemma find_tlv_loop_eq:
  "find_tlv_loop p off i =
     Some (map_option (\<lambda>(k, v). (k, of_nat (4 + length v))) (tlv_find i (tlv_split (drop off p)) off))"
proof (induction "length p - off" arbitrary: off rule: less_induct)
  case less
  show ?case
  proof (cases "off + 4 \<le> length p")
    case False
    then show ?thesis by (subst find_tlv_loop.simps) (simp add: tlv_split_short)
  next
    case True
    define l where "l = be16 (p ! off) (p ! Suc off)"
    show ?thesis
    proof (cases "unat l < 4 \<or> length p < off + unat l")
      case bad: True
      then have "tlv_split (drop off p) = []"
        unfolding tlv_split_unfold [OF True] by (simp add: Let_def l_def)
      with True bad show ?thesis by (subst find_tlv_loop.simps) (auto simp: read_simps l_def)
    next
      case ok: False
      then have len: "length (slice p (off + 4) (unat l - 4)) = unat l - 4"
        by (simp add: length_slice)
      have four: "(4 :: u16) + of_nat (unat l - 4) = l"
        using ok by (simp add: of_nat_diff)
      show ?thesis
        using True ok less [of "off + unat l"] len four
        unfolding tlv_split_unfold [OF True]
        by (subst find_tlv_loop.simps) (auto simp: Let_def read_simps l_def [symmetric])
    qed
  qed
qed

text \<open>Iterating with iap2_tlv_iter_next enumerates the reference list.\<close>

definition tlv_view :: "u16 \<times> bytes \<Rightarrow> iap2_tlv \<Rightarrow> bool" where
  "tlv_view t tlv \<longleftrightarrow>
     tl_id tlv = fst t \<and> unat (tl_len tlv) = 4 + length (snd t) \<and>
     tl_value tlv = (if snd t = [] then None else Some (snd t)) \<and>
     tl_value_len tlv = length (snd t)"

lemma iap2_tlv_iter_next_eq:
  assumes "it_data it = Some d"
  shows "tlv_split (drop (it_offset it) d) = [] \<Longrightarrow>
           \<exists>tlv'. iap2_tlv_iter_next it tlv = Some (False, it, tlv')"
    and "tlv_split (drop (it_offset it) d) = t # ts \<Longrightarrow>
           \<exists>tlv' o'. iap2_tlv_iter_next it tlv = Some (True, it\<lparr>it_offset := o'\<rparr>, tlv') \<and>
             tlv_view t tlv' \<and> tlv_split (drop o' d) = ts"
proof -
  let ?o = "it_offset it"
  assume nil: "tlv_split (drop ?o d) = []"
  show "\<exists>tlv'. iap2_tlv_iter_next it tlv = Some (False, it, tlv')"
  proof (cases "?o + 4 \<le> length d")
    case False
    then show ?thesis by (simp add: iap2_tlv_iter_next_def assms)
  next
    case True
    with nil show ?thesis unfolding tlv_split_unfold [OF True]
      by (auto simp: iap2_tlv_iter_next_def iap2_parse_tlv_def assms Let_def read_simps
          split: if_splits)
  qed
next
  let ?o = "it_offset it"
  assume cons: "tlv_split (drop ?o d) = t # ts"
  have True: "?o + 4 \<le> length d"
  proof (rule ccontr)
    assume "\<not> ?thesis"
    with cons show False by (simp add: tlv_split_short)
  qed
  define l where "l = be16 (d ! ?o) (d ! Suc ?o)"
  have l: "4 \<le> unat l" "?o + unat l \<le> length d"
    using cons unfolding tlv_split_unfold [OF True] by (auto simp: Let_def l_def split: if_splits)
  have t: "t = (be16 (d ! (?o + 2)) (d ! Suc (?o + 2)), slice d (?o + 4) (unat l - 4))"
      "tlv_split (drop (?o + unat l) d) = ts"
    using cons l unfolding tlv_split_unfold [OF True] by (auto simp: Let_def l_def)
  have len: "length (slice d (?o + 4) (unat l - 4)) = unat l - 4"
    using l by (simp add: length_slice)
  have sl: "slice (drop ?o d) 4 n = slice d (?o + 4) n" for n
    by (simp add: slice_def add.commute)
  have "iap2_parse_tlv (Some (drop ?o d)) tlv =
      Some (True, set_value (slice d (?o + 4) (unat l - 4)) l (tlv\<lparr>tl_len := l, tl_id := fst t\<rparr>))"
    using True l by (auto simp: iap2_parse_tlv_def read_simps t sl l_def Let_def numeral_3_eq_3)
  moreover have "tlv_view t (set_value (slice d (?o + 4) (unat l - 4)) l (tlv\<lparr>tl_len := l, tl_id := fst t\<rparr>))"
    using l len by (auto simp: tlv_view_def set_value_def t)
  ultimately show "\<exists>tlv' o'. iap2_tlv_iter_next it tlv = Some (True, it\<lparr>it_offset := o'\<rparr>, tlv') \<and>
             tlv_view t tlv' \<and> tlv_split (drop o' d) = ts"
    using True t l
    by (auto simp: iap2_tlv_iter_next_def assms set_value_def intro!: exI [of _ "?o + unat l"])
qed

section \<open>Building frames and TLVs\<close>

text \<open>
  The out argument is the memory it points to. A result is the returned size and the memory
  afterwards.
\<close>

definition mem_copy :: "bytes \<Rightarrow> nat \<Rightarrow> bytes option \<Rightarrow> nat \<Rightarrow> bytes option" where
  "mem_copy m off src n = (case src of
     None \<Rightarrow> Some m
   | Some p \<Rightarrow> if n > 0 then if n \<le> length p then Some (mem_put m off (take n p)) else None
               else Some m)"

definition iap2_build_frame ::
  "bytes option \<Rightarrow> u16 \<Rightarrow> bytes option \<Rightarrow> nat \<Rightarrow> (nat \<times> bytes option) option" where
  "iap2_build_frame out msgid payload payload_len =
     (let frame_len = 6 + payload_len in
      case out of None \<Rightarrow> Some (0, out)
      | Some m \<Rightarrow> if length m < frame_len then Some (0, out)
          else do {
            let m = mem_put m 0 [IAP2_SYNC1];
            let m = mem_put m 1 [IAP2_SYNC2];
            let m = mem_put m 2 (write_be16 (of_nat frame_len));
            let m = mem_put m 4 (write_be16 msgid);
            m \<leftarrow> mem_copy m 6 payload payload_len;
            Some (frame_len, Some m) })"

definition iap2_build_tlv ::
  "bytes option \<Rightarrow> u16 \<Rightarrow> bytes option \<Rightarrow> nat \<Rightarrow> (nat \<times> bytes option) option" where
  "iap2_build_tlv out tlv_id val value_len =
     (let tlv_len = 4 + value_len in
      case out of None \<Rightarrow> Some (0, out)
      | Some m \<Rightarrow> if length m < tlv_len then Some (0, out)
          else do {
            let m = mem_put m 0 (write_be16 (of_nat tlv_len));
            let m = mem_put m 2 (write_be16 tlv_id);
            m \<leftarrow> mem_copy m 4 val value_len;
            Some (tlv_len, Some m) })"

definition iap2_build_tlv_u16 :: "bytes option \<Rightarrow> u16 \<Rightarrow> u16 \<Rightarrow> nat \<times> bytes option" where
  "iap2_build_tlv_u16 out tlv_id val = (case out of None \<Rightarrow> (0, out)
     | Some m \<Rightarrow> if length m < 6 then (0, out)
         else (6, Some (mem_put (mem_put (mem_put m 0 (write_be16 6)) 2 (write_be16 tlv_id))
                          4 (write_be16 val))))"

definition iap2_build_tlv_u8 :: "bytes option \<Rightarrow> u16 \<Rightarrow> u8 \<Rightarrow> nat \<times> bytes option" where
  "iap2_build_tlv_u8 out tlv_id val = (case out of None \<Rightarrow> (0, out)
     | Some m \<Rightarrow> if length m < 5 then (0, out)
         else (5, Some (mem_put (mem_put (mem_put m 0 (write_be16 5)) 2 (write_be16 tlv_id))
                          4 [val])))"

text \<open>The string argument is None for NULL, otherwise the bytes before its NUL.\<close>

definition iap2_build_tlv_str :: "bytes option \<Rightarrow> u16 \<Rightarrow> bytes option \<Rightarrow> nat \<times> bytes option" where
  "iap2_build_tlv_str out tlv_id str =
     (let str = (case str of None \<Rightarrow> [] | Some s \<Rightarrow> s);
          str_len = length str + 1;
          tlv_len = 4 + str_len
      in case out of None \<Rightarrow> (0, out)
         | Some m \<Rightarrow> if length m < tlv_len then (0, out)
             else (tlv_len, Some (mem_put (mem_put (mem_put m 0 (write_be16 (of_nat tlv_len)))
                                     2 (write_be16 tlv_id)) 4 (str @ [0]))))"

lemma mem_put_seq:
  "off + length bs + length cs \<le> length m \<Longrightarrow> k = off + length bs \<Longrightarrow>
   mem_put (mem_put m off bs) k cs = mem_put m off (bs @ cs)"
  by (simp add: mem_put_def ac_simps)

definition frame_bytes :: "u16 \<Rightarrow> bytes \<Rightarrow> bytes" where
  "frame_bytes msgid p =
     [IAP2_SYNC1, IAP2_SYNC2] @ write_be16 (of_nat (6 + length p)) @ write_be16 msgid @ p"

lemma length_frame_bytes [simp]: "length (frame_bytes msgid p) = 6 + length p"
  by (simp add: frame_bytes_def)

lemma iap2_build_frame_eq:
  assumes "6 + length p \<le> length m"
  shows "iap2_build_frame (Some m) msgid (Some p) (length p) =
           Some (6 + length p, Some (mem_put m 0 (frame_bytes msgid p)))"
  using assms
  by (cases "p = []")
     (simp_all add: iap2_build_frame_def mem_copy_def frame_bytes_def mem_put_seq Let_def
       del: of_nat_add)

lemma iap2_build_tlv_eq:
  assumes "4 + length v \<le> length m"
  shows "iap2_build_tlv (Some m) i (Some v) (length v) =
           Some (4 + length v, Some (mem_put m 0 (tlv_encode (i, v))))"
  using assms
  by (cases "v = []")
     (simp_all add: iap2_build_tlv_def mem_copy_def tlv_encode_def mem_put_seq Let_def
       del: of_nat_add)

lemma iap2_build_tlv_u16_eq:
  assumes "6 \<le> length m"
  shows "iap2_build_tlv_u16 (Some m) i v = (6, Some (mem_put m 0 (tlv_encode (i, write_be16 v))))"
  using assms by (simp add: iap2_build_tlv_u16_def tlv_encode_def mem_put_seq)

lemma iap2_build_tlv_u8_eq:
  assumes "5 \<le> length m"
  shows "iap2_build_tlv_u8 (Some m) i v = (5, Some (mem_put m 0 (tlv_encode (i, [v]))))"
  using assms by (simp add: iap2_build_tlv_u8_def tlv_encode_def mem_put_seq)

lemma iap2_build_tlv_str_eq:
  assumes "5 + length s \<le> length m"
  shows "iap2_build_tlv_str (Some m) i (Some s) =
           (5 + length s, Some (mem_put m 0 (tlv_encode (i, s @ [0]))))"
  using assms
  by (simp add: iap2_build_tlv_str_def tlv_encode_def mem_put_seq Let_def add.commute del: of_nat_add)

lemma frame_at_frame_bytes:
  assumes "length p \<le> 65529"
  shows "frame_at (frame_bytes msgid p @ r) 0"
    and "frame_of (frame_bytes msgid p @ r) 0 = mk_frame 0 (of_nat (6 + length p)) msgid"
  using assms
  by (simp_all add: frame_at_def frame_of_def frame_bytes_def write_be16_def unat_of_nat_u16
      del: of_nat_add)

lemma iap2_find_frame_bytes:
  assumes "length p \<le> 65529"
  shows "iap2_find_frame (Some (frame_bytes msgid p @ r)) =
           Some (Some (mk_frame 0 (of_nat (6 + length p)) msgid))"
proof -
  let ?b = "frame_bytes msgid p @ r"
  have "find (frame_at ?b) [0..<length ?b - 5] = Some 0"
    using frame_at_frame_bytes(1) [OF assms] by (subst find_upt_Some) simp
  with frame_at_frame_bytes(2) [OF assms] show ?thesis
    by (simp add: iap2_find_frame_def iap2_find_frame_at_eq)
qed

section \<open>Link layer\<close>

fun cksum_sum :: "bytes \<Rightarrow> u8 \<Rightarrow> u8" where
  "cksum_sum [] s = s"
| "cksum_sum (b # bs) s = cksum_sum bs (s + b)"

definition iap2_cksum_neg :: "bytes option \<Rightarrow> u8" where
  "iap2_cksum_neg buf = (case buf of None \<Rightarrow> 0 | Some b \<Rightarrow> ucast (0 - ucast (cksum_sum b 0) :: u32))"

record iap2_link_header =
  lh_length :: u16
  lh_ctrl :: u8
  lh_seq :: u8
  lh_ack :: u8
  lh_session :: u8
  lh_checksum :: u8

definition iap2_parse_link_header :: "bytes option \<Rightarrow> iap2_link_header option option" where
  "iap2_parse_link_header pbuf = (case pbuf of
     None \<Rightarrow> Some None
   | Some buf \<Rightarrow> if length buf < 9 then Some None
       else do {
         s1 \<leftarrow> rd8 buf 0;
         if s1 \<noteq> 0xFF then Some None
         else do {
           s2 \<leftarrow> rd8 buf 1;
           if s2 \<noteq> 0x5A then Some None
           else do {
             len \<leftarrow> read_be16 buf 2;
             c \<leftarrow> rd8 buf 4; q \<leftarrow> rd8 buf 5; a \<leftarrow> rd8 buf 6; n \<leftarrow> rd8 buf 7; k \<leftarrow> rd8 buf 8;
             Some (Some \<lparr>lh_length = len, lh_ctrl = c, lh_seq = q, lh_ack = a,
                         lh_session = n, lh_checksum = k\<rparr>) } } })"

lemma cksum_sum_eq: "cksum_sum bs s = s + sum_list bs"
  by (induction bs arbitrary: s) (simp_all add: add.assoc)

lemma ucast_uminus_u32_u8: "ucast (- ucast w :: u32) = - (w :: u8)"
  by transfer (simp add: take_bit_minus)

lemma iap2_cksum_neg_sum: "iap2_cksum_neg (Some bs) + sum_list bs = 0"
  by (simp add: iap2_cksum_neg_def cksum_sum_eq ucast_uminus_u32_u8)

end
