(* ===== verification/Receive_Probe.thy ===== *)
theory Receive_Probe
  imports Iap2_Protocol
begin

text \<open>
  native/receive_probe.c: recognising a route-guidance control frame behind the nine bytes of
  the link header of a received packet.
\<close>

abbreviation K2161_LINK_HEADER_LEN :: nat where "K2161_LINK_HEADER_LEN \<equiv> 9"
abbreviation K2161_CONTROL_HEADER_LEN :: nat where "K2161_CONTROL_HEADER_LEN \<equiv> 6"

record rgi_frame =
  pf_msgid :: u16
  pf_frame_len :: u16
  pf_frame_offset :: nat
  pf_available_len :: nat
  pf_complete :: bool

definition k2161_is_expected_rgi_rx :: "u16 \<Rightarrow> bool" where
  "k2161_is_expected_rgi_rx msgid \<longleftrightarrow> msgid = 0x5201 \<or> msgid = 0x5202 \<or> msgid = 0x5204"

text \<open>The inner None is the result 0; *out is written only with the result 1.\<close>

definition k2161_probe_rgi_start :: "bytes option \<Rightarrow> rgi_frame option option" where
  "k2161_probe_rgi_start transport = (case transport of
     None \<Rightarrow> Some None
   | Some t \<Rightarrow>
       let off = K2161_LINK_HEADER_LEN in
       if length t < off + K2161_CONTROL_HEADER_LEN then Some None
       else do {
         b0 \<leftarrow> rd8 t off;
         if b0 \<noteq> 0x40 then Some None
         else do {
           b1 \<leftarrow> rd8 t (off + 1);
           if b1 \<noteq> 0x40 then Some None
           else do {
             frame_len \<leftarrow> read_be16 t (off + 2);
             if unat frame_len < K2161_CONTROL_HEADER_LEN then Some None
             else do {
               msgid \<leftarrow> read_be16 t (off + 4);
               if msgid < 0x5200 \<or> msgid > 0x5204 then Some None
               else
                 let available = length t - off
                 in Some (Some \<lparr>pf_msgid = msgid, pf_frame_len = frame_len, pf_frame_offset = off,
                      pf_available_len = available, pf_complete = unat frame_len \<le> available\<rparr>) } } } })"

text \<open>The frame that a probe points at.\<close>

definition probe_bytes :: "bytes \<Rightarrow> rgi_frame \<Rightarrow> bytes" where
  "probe_bytes t p = take (unat (pf_frame_len p)) (drop (pf_frame_offset p) t)"

lemma probe_total: "\<exists>r. k2161_probe_rgi_start transport = Some r"
  by (cases transport) (auto simp: k2161_probe_rgi_start_def read_simps Let_def)

lemma probe_fields:
  assumes "k2161_probe_rgi_start (Some t) = Some (Some p)"
  shows "15 \<le> length t" "t ! 9 = 0x40" "t ! 10 = 0x40" "pf_frame_len p = be16 (t ! 11) (t ! 12)"
    "6 \<le> unat (pf_frame_len p)" "pf_msgid p = be16 (t ! 13) (t ! 14)" "pf_frame_offset p = 9"
    "pf_complete p \<longleftrightarrow> unat (pf_frame_len p) \<le> length t - 9" "0x5200 \<le> pf_msgid p" "pf_msgid p \<le> 0x5204"
  using assms
  by (auto simp: k2161_probe_rgi_start_def read_simps Let_def split: if_splits)

text \<open>A complete probe is a whole control frame for the frame finder.\<close>

lemma probe_frame:
  assumes "k2161_probe_rgi_start (Some t) = Some (Some p)" "pf_complete p"
  shows "length (probe_bytes t p) = unat (pf_frame_len p)"
    and "iap2_find_frame (Some (probe_bytes t p)) = Some (Some (mk_frame 0 (pf_frame_len p) (pf_msgid p)))"
proof -
  note f = probe_fields [OF assms(1)]
  let ?b = "probe_bytes t p" and ?n = "unat (pf_frame_len p)"
  have n: "?n \<le> length t - 9" using f(8) assms(2) by simp
  show len: "length ?b = ?n" using f(7) n by (simp add: probe_bytes_def)
  have nth: "?b ! i = t ! (9 + i)" if "i < 6" for i
    using that f(1,5,7) by (simp add: probe_bytes_def)
  have at: "frame_at ?b 0"
    using f n nth [of 0] nth [of 1] nth [of 2] nth [of 3] len by (simp add: frame_at_def numeral_2_eq_2 numeral_3_eq_3)
  then have "find (frame_at ?b) [0..<length ?b - 5] = Some 0"
    using len f(5) by (subst find_upt_Some) simp
  moreover have "frame_of ?b 0 = mk_frame 0 (pf_frame_len p) (pf_msgid p)"
    using f nth [of 2] nth [of 3] nth [of 4] nth [of 5] by (simp add: frame_of_def eval_nat_numeral)
  ultimately show "iap2_find_frame (Some ?b) = Some (Some (mk_frame 0 (pf_frame_len p) (pf_msgid p)))"
    using len f(5) by (simp add: iap2_find_frame_def iap2_find_frame_at_eq)
qed

text \<open>A frame that was sent whole behind a link header is found.\<close>

lemma probe_sent:
  assumes "length h = 9" "length payload \<le> 65529" "0x5200 \<le> msgid" "msgid \<le> 0x5204"
  shows "k2161_probe_rgi_start (Some (h @ frame_bytes msgid payload @ rest)) =
    Some (Some \<lparr>pf_msgid = msgid, pf_frame_len = of_nat (6 + length payload), pf_frame_offset = 9,
      pf_available_len = 6 + length payload + length rest, pf_complete = True\<rparr>)"
proof -
  let ?t = "h @ frame_bytes msgid payload @ rest"
  have nth: "?t ! (9 + i) = (frame_bytes msgid payload @ rest) ! i" for i
    using assms(1) by (simp add: nth_append)
  have b: "?t ! 9 = 0x40" "?t ! 10 = 0x40" "be16 (?t ! 11) (?t ! 12) = of_nat (6 + length payload)"
    "be16 (?t ! 13) (?t ! 14) = msgid"
    using nth [of 0] nth [of 1] nth [of 2] nth [of 3] nth [of 4] nth [of 5]
    by (simp_all add: frame_bytes_def write_be16_def)
  have u: "unat (of_nat (6 + length payload) :: u16) = 6 + length payload"
    using assms(2) by (simp add: unat_of_nat_u16 del: of_nat_add)
  have l: "length ?t = 15 + length payload + length rest" using assms(1) by simp
  show ?thesis
    using b u l assms(3,4)
    by (simp add: k2161_probe_rgi_start_def read_simps Let_def not_less del: of_nat_add)
qed

end
