(* ===== verification/Capture.thy ===== *)
theory Capture
  imports Receive_Probe
begin

text \<open>
  The capture file of native/observer.c: every copied packet is appended as a record of a header
  of sixteen bytes and the packet, up to a limit; the text log takes single lines, whose newline is left out. A writev is
  its result: a negative number, or the number of bytes that it appended.
\<close>

abbreviation K2161_RAW_HEADER_LEN :: nat where "K2161_RAW_HEADER_LEN \<equiv> 16"
abbreviation K2161_MAX_TRANSPORT_LEN :: nat where "K2161_MAX_TRANSPORT_LEN \<equiv> 65535"
abbreviation K2161_RAW_CAPTURE_LIMIT :: nat where "K2161_RAW_CAPTURE_LIMIT \<equiv> 16 * 1024 * 1024"

section \<open>The writer\<close>

record capture =
  cp_raw_fd :: bool
  cp_text_fd :: bool
  cp_file :: bytes
  cp_text :: "string list"
  cp_raw_bytes_written :: nat
  cp_raw_record_sequence :: u32
  cp_capture_limit_reported :: bool
  cp_capture_error_reported :: bool

definition zero_capture :: capture where
  "zero_capture = \<lparr>cp_raw_fd = False, cp_text_fd = False, cp_file = [], cp_text = [],
     cp_raw_bytes_written = 0, cp_raw_record_sequence = 0, cp_capture_limit_reported = False,
     cp_capture_error_reported = False\<rparr>"

definition write_marker :: "string \<Rightarrow> capture \<Rightarrow> capture" where
  "write_marker t c = (if cp_text_fd c then c\<lparr>cp_text := cp_text c @ [t]\<rparr> else c)"

definition hex_digit :: "nat \<Rightarrow> char" where
  "hex_digit v = ''0123456789abcdef'' ! (v mod 16)"

definition write_text_event :: "rgi_frame \<Rightarrow> capture \<Rightarrow> capture" where
  "write_text_event fr c =
     (let line = ''K2161_RGI_RX msg=0000 len=0000 complete=0'';
          line = foldl (\<lambda>line i. let shift = (3 - i) * 4
             in line[17 + i := hex_digit (unat (drop_bit shift (pf_msgid fr))),
                     26 + i := hex_digit (unat (drop_bit shift (pf_frame_len fr)))]) line [0..<4];
          line = line[40 := (if pf_complete fr then CHR ''1'' else CHR ''0'')]
      in write_marker line c)"

definition raw_flags :: "bytes \<Rightarrow> rgi_frame option \<Rightarrow> u8" where
  "raw_flags packet frame =
     (let flags = (if length packet \<ge> 9 \<and> packet ! 0 = 0xff \<and> packet ! 1 = 0x5a then 1 else 0)
      in case frame of None \<Rightarrow> flags
         | Some fr \<Rightarrow>
             let flags = flags OR 2;
                 flags = (if pf_complete fr then flags OR 4 else flags)
             in if k2161_is_expected_rgi_rx (pf_msgid fr) then flags OR 8 else flags)"

definition raw_header :: "bytes \<Rightarrow> u8 \<Rightarrow> u32 \<Rightarrow> bytes" where
  "raw_header packet flags seq =
     [0x4B, 0x32, 0x52, 0x58, 2, flags, (if flags AND 1 \<noteq> 0 then packet ! 7 else 0xff),
      (if flags AND 1 \<noteq> 0 then packet ! 4 else 0)] @ write_be32 (of_nat (length packet)) @ write_be32 seq"

definition write_raw_packet :: "int \<Rightarrow> bytes option \<Rightarrow> rgi_frame option \<Rightarrow> capture \<Rightarrow> capture" where
  "write_raw_packet written packet frame c = (case packet of None \<Rightarrow> c
   | Some packet \<Rightarrow>
       let n = length packet
       in if \<not> cp_raw_fd c \<or> n = 0 then c
       else if n > K2161_MAX_TRANSPORT_LEN then
         (if \<not> cp_capture_error_reported c
          then write_marker ''K2161_RGI_RX invalid_transport_length'' (c\<lparr>cp_capture_error_reported := True\<rparr>) else c)
       else
         let record_len = K2161_RAW_HEADER_LEN + n
         in if cp_raw_bytes_written c > K2161_RAW_CAPTURE_LIMIT - record_len then
           (if \<not> cp_capture_limit_reported c
            then write_marker ''K2161_RGI_RX capture_limit_reached'' (c\<lparr>cp_capture_limit_reported := True\<rparr>) else c)
         else
           let header = raw_header packet (raw_flags packet frame) (cp_raw_record_sequence c);
               c = c\<lparr>cp_raw_record_sequence := cp_raw_record_sequence c + 1,
                     cp_file := cp_file c @ take (nat written) (header @ packet)\<rparr>
           in if written = int record_len then c\<lparr>cp_raw_bytes_written := cp_raw_bytes_written c + record_len\<rparr>
              else if \<not> cp_capture_error_reported c
              then write_marker ''K2161_RGI_RX raw_write_failed'' (c\<lparr>cp_capture_error_reported := True\<rparr>) else c)"


section \<open>A reader of the file\<close>

text \<open>The records of a file: the flags, the two copied bytes, the sequence number and the packet.\<close>

type_synonym capture_record = "u8 \<times> u8 \<times> u8 \<times> u32 \<times> bytes"

function read_capture :: "bytes \<Rightarrow> capture_record list option" where
  "read_capture file =
     (if file = [] then Some []
      else if length file < 16 \<or> take 5 file \<noteq> [0x4B, 0x32, 0x52, 0x58, 2] then None
      else do {
        n \<leftarrow> read_be32 file 8;
        seq \<leftarrow> read_be32 file 12;
        if length file < 16 + unat n then None
        else do {
          rest \<leftarrow> read_capture (drop (16 + unat n) file);
          Some ((file ! 5, file ! 6, file ! 7, seq, take (unat n) (drop 16 file)) # rest) } })"
  by pat_completeness auto
termination by (relation "measure length") auto

declare read_capture.simps [simp del]

definition record_bytes :: "bytes \<times> rgi_frame option \<Rightarrow> u32 \<Rightarrow> bytes" where
  "record_bytes pf seq = raw_header (fst pf) (raw_flags (fst pf) (snd pf)) seq @ fst pf"

definition record_of :: "bytes \<times> rgi_frame option \<Rightarrow> u32 \<Rightarrow> capture_record" where
  "record_of pf seq = (let p = fst pf; fl = raw_flags p (snd pf)
     in (fl, if fl AND 1 \<noteq> 0 then p ! 7 else 0xff, if fl AND 1 \<noteq> 0 then p ! 4 else 0, seq, p))"

lemma read_capture_Nil: "read_capture [] = Some []"
  by (simp add: read_capture.simps)

lemma length_record: "length (record_bytes pf seq) = 16 + length (fst pf)"
  by (simp add: record_bytes_def raw_header_def write_be32_def)

lemma read_capture_Cons:
  assumes "length (fst pf) \<le> 65535"
  shows "read_capture (record_bytes pf seq @ file) = map_option (\<lambda>rs. record_of pf seq # rs) (read_capture file)"
proof -
  obtain p f where pf: "pf = (p, f)" by (cases pf)
  define fl where "fl = raw_flags p f"
  define h where "h = [0x4B, 0x32, 0x52, 0x58, 2, fl, (if fl AND 1 \<noteq> 0 then p ! 7 else 0xff), (if fl AND 1 \<noteq> 0 then p ! 4 else 0)]"
  have lh: "length h = 8" by (simp add: h_def)
  have len: "unat (of_nat (length p) :: u32) = length p"
    using assms pf by (simp add: unat_of_nat take_bit_nat_eq_self_iff)
  have b: "record_bytes pf seq @ file = h @ write_be32 (of_nat (length p)) @ write_be32 seq @ p @ file"
    by (simp add: record_bytes_def raw_header_def pf fl_def h_def)
  have n: "read_be32 (record_bytes pf seq @ file) 8 = Some (of_nat (length p))"
    using read_write_be32 [of h "of_nat (length p)" "write_be32 seq @ p @ file"] by (simp add: b lh)
  have q: "read_be32 (record_bytes pf seq @ file) 12 = Some seq"
    using read_write_be32 [of "h @ write_be32 (of_nat (length p))" seq "p @ file"] by (simp add: b lh)
  let ?X = "record_bytes pf seq @ file" and ?w = "write_be32 (of_nat (length p)) @ write_be32 seq"
  have X: "?X = (h @ ?w) @ p @ file" and lw: "length (h @ ?w) = 16" by (simp_all add: b lh)
  have "?X \<noteq> []" "length ?X = 16 + length p + length file" using lw lh by (auto simp: X)
  moreover have "take 5 ?X = [0x4B, 0x32, 0x52, 0x58, 2]" "?X ! 5 = fl" "?X ! 6 = (if fl AND 1 \<noteq> 0 then p ! 7 else 0xff)"
    "?X ! 7 = (if fl AND 1 \<noteq> 0 then p ! 4 else 0)" by (simp_all add: b h_def)
  moreover have D: "drop 16 ?X = p @ file" unfolding X using lw by (metis append_eq_conv_conj)
  moreover have "drop (16 + length p) ?X = drop (length p) (drop 16 ?X)" by (simp add: add.commute del: drop_append)
  then have "drop (16 + length p) ?X = file" unfolding D by simp
  ultimately show ?thesis
    unfolding read_capture.simps [of ?X] n q D
    by (simp add: len record_of_def pf fl_def map_option_case split: option.split del: drop_append)
qed

fun records :: "u32 \<Rightarrow> (bytes \<times> rgi_frame option) list \<Rightarrow> capture_record list" where
  "records seq [] = []"
| "records seq (pf # pfs) = record_of pf seq # records (seq + 1) pfs"

fun file_of :: "u32 \<Rightarrow> (bytes \<times> rgi_frame option) list \<Rightarrow> bytes" where
  "file_of seq [] = []"
| "file_of seq (pf # pfs) = record_bytes pf seq @ file_of (seq + 1) pfs"

lemma read_file_of: "list_all (\<lambda>pf. length (fst pf) \<le> 65535) pfs \<Longrightarrow> read_capture (file_of seq pfs) = Some (records seq pfs)"
  by (induction pfs arbitrary: seq) (auto simp: read_capture_Nil read_capture_Cons)

lemma file_of_append: "file_of seq (ps @ qs) = file_of seq ps @ file_of (seq + of_nat (length ps)) qs"
  by (induction ps arbitrary: seq) (auto simp: ac_simps)

section \<open>What is recorded\<close>

text \<open>The packets that are recorded when every write is complete: those that are not empty, not too
  long, and still fit under the limit.\<close>

fun recorded :: "nat \<Rightarrow> (bytes \<times> rgi_frame option) list \<Rightarrow> (bytes \<times> rgi_frame option) list" where
  "recorded used [] = []"
| "recorded used (pf # pfs) =
     (let n = length (fst pf)
      in if n = 0 \<or> n > 65535 \<or> used + 16 + n > 16 * 1024 * 1024 then recorded used pfs
         else pf # recorded (used + 16 + n) pfs)"

definition capture_all :: "(bytes \<times> rgi_frame option) list \<Rightarrow> capture \<Rightarrow> capture" where
  "capture_all pfs c = fold (\<lambda>pf. write_raw_packet (int (16 + length (fst pf))) (Some (fst pf)) (snd pf)) pfs c"

lemma marker_fields [simp]:
  "cp_file (write_marker t c) = cp_file c" "cp_raw_bytes_written (write_marker t c) = cp_raw_bytes_written c"
  "cp_raw_record_sequence (write_marker t c) = cp_raw_record_sequence c" "cp_raw_fd (write_marker t c) = cp_raw_fd c"
  by (simp_all add: write_marker_def)

lemma write_raw_whole:
  assumes "cp_raw_fd c" "length p \<noteq> 0" "length p \<le> 65535" "cp_raw_bytes_written c + 16 + length p \<le> K2161_RAW_CAPTURE_LIMIT"
  shows "write_raw_packet (int (16 + length p)) (Some p) f c =
    c\<lparr>cp_raw_record_sequence := cp_raw_record_sequence c + 1, cp_file := cp_file c @ record_bytes (p, f) (cp_raw_record_sequence c),
      cp_raw_bytes_written := cp_raw_bytes_written c + (16 + length p)\<rparr>"
proof -
  have "nat (int (16 + length p)) = length (raw_header p (raw_flags p f) (cp_raw_record_sequence c) @ p)"
    by (simp add: raw_header_def write_be32_def)
  then have "take (nat (int (16 + length p))) (raw_header p (raw_flags p f) (cp_raw_record_sequence c) @ p) =
      raw_header p (raw_flags p f) (cp_raw_record_sequence c) @ p" by (metis order_refl take_all)
  with assms show ?thesis
    by (simp add: write_raw_packet_def Let_def record_bytes_def not_less del: of_nat_add)
qed

lemma write_raw_skipped:
  assumes "\<not> cp_raw_fd c \<or> length p = 0 \<or> length p > 65535 \<or> cp_raw_bytes_written c + 16 + length p > K2161_RAW_CAPTURE_LIMIT"
    "c' = write_raw_packet w (Some p) f c"
  shows "cp_file c' = cp_file c" "cp_raw_bytes_written c' = cp_raw_bytes_written c"
    "cp_raw_record_sequence c' = cp_raw_record_sequence c" "cp_raw_fd c' = cp_raw_fd c"
  using assms(1) by (auto simp: assms(2) write_raw_packet_def Let_def)

lemma capture_all_file:
  assumes "cp_raw_fd c"
  shows "cp_file (capture_all pfs c) =
    cp_file c @ file_of (cp_raw_record_sequence c) (recorded (cp_raw_bytes_written c) pfs)"
  using assms
proof (induction pfs arbitrary: c)
  case (Cons pf pfs)
  obtain p f where pf: "pf = (p, f)" by (cases pf)
  let ?c = "write_raw_packet (int (16 + length p)) (Some p) f c"
  have step: "capture_all (pf # pfs) c = capture_all pfs ?c" by (simp add: capture_all_def pf)
  show ?case
  proof (cases "length p \<noteq> 0 \<and> length p \<le> 65535 \<and> cp_raw_bytes_written c + 16 + length p \<le> K2161_RAW_CAPTURE_LIMIT")
    case True
    with write_raw_whole [OF Cons.prems, of p f] Cons.IH [of ?c] Cons.prems pf step show ?thesis
      by (simp add: Let_def ac_simps)
  next
    case False
    then have "\<not> cp_raw_fd c \<or> length p = 0 \<or> length p > 65535 \<or> cp_raw_bytes_written c + 16 + length p > K2161_RAW_CAPTURE_LIMIT"
      by auto
    from write_raw_skipped [OF this refl, of "int (16 + length p)" f] Cons.IH [of ?c] Cons.prems pf step False show ?thesis
      by (auto simp: Let_def)
  qed
qed (simp add: capture_all_def)

lemma recorded_short: "list_all (\<lambda>pf. length (fst pf) \<le> 65535) (recorded used pfs)"
  by (induction used pfs rule: recorded.induct) (auto simp: Let_def)

lemma recorded_size: "used \<le> 16 * 1024 * 1024 \<Longrightarrow> used + length (file_of seq (recorded used pfs)) \<le> 16 * 1024 * 1024"
proof (induction used pfs arbitrary: seq rule: recorded.induct)
  case (2 used pf pfs)
  then show ?case by (auto simp: Let_def length_record algebra_simps)
qed simp


section \<open>A short write\<close>

lemma read_file_append:
  "list_all (\<lambda>pf. length (fst pf) \<le> 65535) pfs \<Longrightarrow>
    read_capture (file_of seq pfs @ x) = map_option (\<lambda>rs. records seq pfs @ rs) (read_capture x)"
  by (cases "read_capture x") (induction pfs arbitrary: seq, auto simp: read_capture_Cons)+

text \<open>A record that is cut short does not read.\<close>

lemma read_cut_record:
  assumes "length p \<le> 65535" "0 < k" "k < 16 + length p"
  shows "read_capture (take k (record_bytes (p, f) seq)) = None"
proof (cases "k < 16")
  case True
  moreover have "record_bytes (p, f) seq \<noteq> []" by (simp add: record_bytes_def raw_header_def)
  ultimately show ?thesis using assms by (subst read_capture.simps) (auto simp: length_record)
next
  case False
  let ?R = "record_bytes (p, f) seq" and ?n = "of_nat (length p) :: u32"
  have len: "unat ?n = length p" using assms by (simp add: unat_of_nat take_bit_nat_eq_self_iff)
  have lR: "length (take k ?R) = k" using assms by (simp add: length_record)
  define h where "h = take 8 ?R"
  have "?R = h @ write_be32 ?n @ write_be32 seq @ p" "length h = 8"
    by (simp_all add: h_def record_bytes_def raw_header_def)
  then have "take k ?R = h @ write_be32 ?n @ write_be32 seq @ take (k - 16) p" using False by simp
  then have n: "read_be32 (take k ?R) 8 = Some ?n" "read_be32 (take k ?R) 12 = Some seq"
    using read_write_be32 [of h ?n "write_be32 seq @ take (k - 16) p"]
      read_write_be32 [of "h @ write_be32 ?n" seq "take (k - 16) p"] \<open>length h = 8\<close> by simp_all
  show ?thesis unfolding read_capture.simps [of "take k ?R"] n using assms lR by (auto simp: len)
qed

lemma short_write_tears:
  assumes "cp_raw_fd c" "p \<noteq> []" "length p \<le> 65535" "cp_raw_bytes_written c + 16 + length p \<le> K2161_RAW_CAPTURE_LIMIT"
    "list_all (\<lambda>pf. length (fst pf) \<le> 65535) pfs" "cp_file c = file_of seq pfs" "0 < written" "written < 16 + int (length p)"
  shows "read_capture (cp_file (write_raw_packet written (Some p) f c)) = None"
proof -
  have "cp_file (write_raw_packet written (Some p) f c) =
      file_of seq pfs @ take (nat written) (record_bytes (p, f) (cp_raw_record_sequence c))"
    using assms by (simp add: write_raw_packet_def Let_def record_bytes_def)
  with assms read_cut_record [of p "nat written" f "cp_raw_record_sequence c"] show ?thesis
    by (simp add: read_file_append)
qed

end
