(* ===== verification/Status.thy ===== *)
theory Status
  imports RGI_Prelude
begin

text \<open>
  The counters of native/status.c. The lines that the functions also write to the log of the
  stock driver are left out.
\<close>

type_synonym ptr = nat

abbreviation (input) NULL :: ptr where "NULL \<equiv> 0"

record status =
  st_base_resolved :: u32
  st_ident_hook_installed :: u32
  st_ident_attempted :: u32
  st_ident_succeeded :: u32
  st_msg_hook_installed :: u32
  st_close_hook_installed :: u32
  st_cmd2700_observed :: u32
  st_cmd2700_tracked :: u32
  st_msgreply_matched :: u32
  st_send_attempted :: u32
  st_send_succeeded :: u32
  st_send_failed :: u32
  st_connection_reset :: u32

definition zero_status :: status where
  "zero_status = \<lparr>st_base_resolved = 0, st_ident_hook_installed = 0, st_ident_attempted = 0,
     st_ident_succeeded = 0, st_msg_hook_installed = 0, st_close_hook_installed = 0,
     st_cmd2700_observed = 0, st_cmd2700_tracked = 0, st_msgreply_matched = 0,
     st_send_attempted = 0, st_send_succeeded = 0, st_send_failed = 0, st_connection_reset = 0\<rparr>"

definition k2161_status_base_ready :: "status \<Rightarrow> status" where
  "k2161_status_base_ready st = st\<lparr>st_base_resolved := 1\<rparr>"

definition k2161_status_ident_hook_ready :: "status \<Rightarrow> status" where
  "k2161_status_ident_hook_ready st = st\<lparr>st_ident_hook_installed := 1\<rparr>"

definition k2161_status_ident_attempt :: "status \<Rightarrow> status" where
  "k2161_status_ident_attempt st = st\<lparr>st_ident_attempted := st_ident_attempted st + 1\<rparr>"

definition k2161_status_ident_success :: "status \<Rightarrow> status" where
  "k2161_status_ident_success st = st\<lparr>st_ident_succeeded := st_ident_succeeded st + 1\<rparr>"

definition k2161_status_send_hooks_ready :: "bool \<Rightarrow> bool \<Rightarrow> status \<Rightarrow> status" where
  "k2161_status_send_hooks_ready msg_ready close_ready st =
     (let st = (if msg_ready then st\<lparr>st_msg_hook_installed := 1\<rparr> else st)
      in if close_ready then st\<lparr>st_close_hook_installed := 1\<rparr> else st)"

definition k2161_status_cmd2700 :: "bool \<Rightarrow> status \<Rightarrow> status" where
  "k2161_status_cmd2700 tracked st =
     (let st = st\<lparr>st_cmd2700_observed := st_cmd2700_observed st + 1\<rparr>
      in if tracked then st\<lparr>st_cmd2700_tracked := st_cmd2700_tracked st + 1\<rparr> else st)"

definition k2161_status_ffff_success :: "status \<Rightarrow> status" where
  "k2161_status_ffff_success st = st\<lparr>st_msgreply_matched := st_msgreply_matched st + 1\<rparr>"

definition k2161_status_send_attempt :: "status \<Rightarrow> status" where
  "k2161_status_send_attempt st = st\<lparr>st_send_attempted := st_send_attempted st + 1\<rparr>"

definition k2161_status_send_result :: "bool \<Rightarrow> status \<Rightarrow> status" where
  "k2161_status_send_result success st =
     (if success then st\<lparr>st_send_succeeded := st_send_succeeded st + 1\<rparr>
      else st\<lparr>st_send_failed := st_send_failed st + 1\<rparr>)"

definition k2161_status_reset :: "status \<Rightarrow> status" where
  "k2161_status_reset st = st\<lparr>st_connection_reset := st_connection_reset st + 1\<rparr>"

end
