(* ===== verification/Diagnostics.thy ===== *)
theory Diagnostics
  imports RGI_Prelude
begin

text \<open>
  The counters of native/diagnostics.c: the session number and the sequence number of the
  message being handled, which every published snapshot carries. The log file is left out.
\<close>

record diag =
  dg_session :: u32
  dg_rx_seq :: u32
  dg_current_rx_seq :: u32
  dg_current_msgid :: u16

definition zero_diag :: diag where
  "zero_diag = \<lparr>dg_session = 1, dg_rx_seq = 0, dg_current_rx_seq = 0, dg_current_msgid = 0\<rparr>"

definition rgi_diag_reset_file :: "diag \<Rightarrow> diag" where
  "rgi_diag_reset_file d =
     d\<lparr>dg_session := 1, dg_rx_seq := 0, dg_current_rx_seq := 0, dg_current_msgid := 0\<rparr>"

definition rgi_diag_session_get :: "diag \<Rightarrow> u32" where
  "rgi_diag_session_get d = dg_session d"

definition rgi_diag_session_bump :: "diag \<Rightarrow> u32 \<times> diag" where
  "rgi_diag_session_bump d =
     (let d = d\<lparr>dg_session := dg_session d + 1, dg_rx_seq := 0, dg_current_rx_seq := 0,
                dg_current_msgid := 0\<rparr> in (dg_session d, d))"

definition rgi_diag_rx_begin :: "u16 \<Rightarrow> diag \<Rightarrow> u32 \<times> diag" where
  "rgi_diag_rx_begin msgid d =
     (let seq = dg_rx_seq d + 1
      in (seq, d\<lparr>dg_rx_seq := seq, dg_current_rx_seq := seq, dg_current_msgid := msgid\<rparr>))"

definition rgi_diag_rx_end :: "u32 \<Rightarrow> diag \<Rightarrow> diag" where
  "rgi_diag_rx_end seq d =
     (if dg_current_rx_seq d = seq then d\<lparr>dg_current_rx_seq := 0, dg_current_msgid := 0\<rparr> else d)"

definition rgi_diag_current_rx_seq :: "diag \<Rightarrow> u32" where
  "rgi_diag_current_rx_seq d = dg_current_rx_seq d"

definition rgi_diag_current_msgid :: "diag \<Rightarrow> u16" where
  "rgi_diag_current_msgid d = dg_current_msgid d"

text \<open>
  Between begin and end the current numbers are those of the message; a matching end clears
  them; a begin after a bump starts again at 1.
\<close>

lemma rx_begin_current:
  "rgi_diag_rx_begin m d = (seq, d') \<Longrightarrow>
     rgi_diag_current_rx_seq d' = seq \<and> rgi_diag_current_msgid d' = m \<and>
     rgi_diag_current_rx_seq (rgi_diag_rx_end seq d') = 0 \<and>
     rgi_diag_session_get d' = rgi_diag_session_get d"
  by (auto simp: rgi_diag_rx_begin_def rgi_diag_current_rx_seq_def rgi_diag_current_msgid_def
      rgi_diag_rx_end_def rgi_diag_session_get_def Let_def)

lemma bump_then_begin:
  "rgi_diag_session_bump d = (v, d') \<Longrightarrow>
     v = rgi_diag_session_get d + 1 \<and> fst (rgi_diag_rx_begin m d') = 1"
  by (auto simp: rgi_diag_session_bump_def rgi_diag_rx_begin_def rgi_diag_session_get_def Let_def)

end
