(* ===== verification/Send_Hook.thy ===== *)
theory Send_Hook
  imports Status Diagnostics
begin

text \<open>
  native/send_hook.c: the request 0x5200 that starts route guidance, sent after the stock driver
  has answered a GPS request, and retried until the phone sends a route-guidance message. A
  pointer is a number, NULL is 0. The calls into the stock driver are parameters: their results
  are the record stock and the function argument orig.
\<close>

abbreviation RGI_START_FAST_RETRY_MS :: u64 where "RGI_START_FAST_RETRY_MS \<equiv> 2000"
abbreviation RGI_START_SLOW_RETRY_MS :: u64 where "RGI_START_SLOW_RETRY_MS \<equiv> 30000"
abbreviation RGI_START_FAST_ATTEMPTS :: u32 where "RGI_START_FAST_ATTEMPTS \<equiv> 5"
abbreviation RGI_STALE_REARM_MS :: u64 where "RGI_STALE_REARM_MS \<equiv> 10000"

section \<open>The retry state\<close>

record retry =
  rt_attempts :: u32
  rt_last_5200 :: u64
  rt_last_rx :: u64
  rt_got :: bool
  rt_ctx :: ptr
  rt_need :: bool
  rt_enabled :: bool
  rt_running :: bool
  rt_generation :: u32
  rt_soft :: u32

definition zero_retry :: retry where
  "zero_retry = \<lparr>rt_attempts = 0, rt_last_5200 = 0, rt_last_rx = 0, rt_got = False, rt_ctx = NULL,
     rt_need = False, rt_enabled = False, rt_running = False, rt_generation = 1, rt_soft = 0\<rparr>"

definition next_generation :: "u32 \<Rightarrow> u32" where
  "next_generation g = (let g = g + 1 in if g = 0 then 1 else g)"

definition rt_retry_ms :: "u32 \<Rightarrow> u64" where
  "rt_retry_ms attempts =
     (if attempts < RGI_START_FAST_ATTEMPTS then RGI_START_FAST_RETRY_MS else RGI_START_SLOW_RETRY_MS)"

text \<open>One pass of the loop of retry_worker; False is a worker that returns.\<close>

definition retry_worker :: "u32 \<Rightarrow> u64 \<Rightarrow> retry \<Rightarrow> bool \<times> retry" where
  "retry_worker my_generation now r =
     (if my_generation \<noteq> rt_generation r then (False, r)
      else if \<not> rt_enabled r \<or> rt_ctx r = NULL then (False, r\<lparr>rt_running := False\<rparr>)
      else if rt_got r then
        (False, r\<lparr>rt_enabled := False, rt_need := False, rt_ctx := NULL, rt_running := False\<rparr>)
      else if \<not> rt_need r \<and> now \<noteq> 0 \<and> rt_last_5200 r \<noteq> 0 \<and> now \<ge> rt_last_5200 r \<and>
              now - rt_last_5200 r \<ge> rt_retry_ms (rt_attempts r)
      then (True, r\<lparr>rt_need := True\<rparr>) else (True, r))"

definition retry_needs_trigger :: "retry \<Rightarrow> bool \<times> u32" where
  "retry_needs_trigger r = (\<not> rt_got r \<and> \<not> rt_enabled r \<and> rt_attempts r = 0, rt_generation r)"

text \<open>The state of a new generation.\<close>

definition rearmed :: "u32 \<Rightarrow> retry \<Rightarrow> retry" where
  "rearmed soft r = r\<lparr>rt_generation := next_generation (rt_generation r), rt_attempts := 0,
     rt_last_5200 := 0, rt_last_rx := 0, rt_got := False, rt_need := False, rt_ctx := NULL,
     rt_enabled := False, rt_running := False, rt_soft := soft\<rparr>"

definition retry_soft_rearm_if_stale :: "u64 \<Rightarrow> retry \<Rightarrow> (u64 \<times> u32) option \<times> retry" where
  "retry_soft_rearm_if_stale now r =
     (if rt_got r \<and> \<not> rt_enabled r \<and> rt_last_rx r \<noteq> 0 \<and> now \<noteq> 0 \<and> now \<ge> rt_last_rx r \<and>
         now - rt_last_rx r \<ge> RGI_STALE_REARM_MS
      then let g = next_generation (rt_generation r)
           in (Some (now - rt_last_rx r, g), rearmed g r)
      else (None, r))"

definition retry_is_soft_rearm_generation :: "retry \<Rightarrow> bool" where
  "retry_is_soft_rearm_generation r \<longleftrightarrow> rt_soft r \<noteq> 0 \<and> rt_soft r = rt_generation r"

text \<open>
  The locked part of retry_begin: the answer, and the generation of a worker to create.
\<close>

definition retry_begin_locked :: "ptr \<Rightarrow> u32 \<Rightarrow> u64 \<Rightarrow> retry \<Rightarrow> bool \<times> u32 option \<times> retry" where
  "retry_begin_locked ctx expected_generation now r =
     (if expected_generation \<noteq> rt_generation r then (False, None, r)
      else if rt_got r \<or> rt_enabled r \<or> rt_attempts r \<noteq> 0 then (False, None, r)
      else
        let r = r\<lparr>rt_ctx := ctx, rt_enabled := True, rt_need := False, rt_attempts := 1, rt_last_5200 := now\<rparr>
        in if \<not> rt_running r then (True, Some (rt_generation r), r\<lparr>rt_running := True\<rparr>)
           else (True, None, r))"

text \<open>After pthread_create for a worker of the generation.\<close>

definition worker_created :: "bool \<Rightarrow> u32 \<Rightarrow> retry \<Rightarrow> retry" where
  "worker_created ok worker_generation r =
     (if \<not> ok \<and> rt_generation r = worker_generation then r\<lparr>rt_running := False\<rparr> else r)"

definition retry_claim_pending :: "ptr \<Rightarrow> u64 \<Rightarrow> retry \<Rightarrow> u32 option \<times> retry" where
  "retry_claim_pending ctx now r =
     (if rt_enabled r \<and> \<not> rt_got r \<and> rt_need r \<and> rt_ctx r = ctx
      then (Some (rt_attempts r + 1),
            r\<lparr>rt_need := False, rt_attempts := rt_attempts r + 1, rt_last_5200 := now\<rparr>)
      else (None, r))"

definition k2161_send_note_rgi_rx :: "u16 \<Rightarrow> u64 \<Rightarrow> retry \<Rightarrow> retry" where
  "k2161_send_note_rgi_rx msgid now r =
     (if msgid \<noteq> 0x5201 \<and> msgid \<noteq> 0x5202 \<and> msgid \<noteq> 0x5204 then r
      else
        let r = (if now \<noteq> 0 then r\<lparr>rt_last_rx := now\<rparr> else r)
        in if rt_got r then r
           else
             let r = r\<lparr>rt_got := True, rt_need := False, rt_enabled := False, rt_ctx := NULL, rt_last_5200 := now\<rparr>
             in if retry_is_soft_rearm_generation r then r\<lparr>rt_soft := 0\<rparr> else r)"

definition retry_reset :: "retry \<Rightarrow> u32 \<times> retry" where
  "retry_reset r = (let r = rearmed 0 r in (rt_generation r, r))"

section \<open>The replies that are waited for\<close>

record pending_gps_reply =
  pr_active :: bool
  pr_rcvid :: int
  pr_ctx :: ptr
  pr_generation :: u32

definition zero_pending :: pending_gps_reply where
  "zero_pending = \<lparr>pr_active = False, pr_rcvid = 0, pr_ctx = NULL, pr_generation = 0\<rparr>"

definition pending_clear :: "pending_gps_reply list \<Rightarrow> pending_gps_reply list" where
  "pending_clear ps = map (\<lambda>p. \<lparr>pr_active = False, pr_rcvid = -1, pr_ctx = NULL, pr_generation = 0\<rparr>) ps"

fun pending_track :: "ptr \<Rightarrow> int \<Rightarrow> u32 \<Rightarrow> pending_gps_reply list \<Rightarrow> bool \<times> pending_gps_reply list" where
  "pending_track ctx rcvid gen [] = (False, [])"
| "pending_track ctx rcvid gen (p # ps) =
     (if \<not> pr_active p \<or> pr_rcvid p = rcvid
      then (True, \<lparr>pr_active = True, pr_rcvid = rcvid, pr_ctx = ctx, pr_generation = gen\<rparr> # ps)
      else let (t, qs) = pending_track ctx rcvid gen ps in (t, p # qs))"

fun pending_match :: "int \<Rightarrow> pending_gps_reply list \<Rightarrow> (ptr \<times> u32) option \<times> pending_gps_reply list" where
  "pending_match rcvid [] = (None, [])"
| "pending_match rcvid (p # ps) =
     (if pr_active p \<and> pr_rcvid p = rcvid
      then (Some (pr_ctx p, pr_generation p), p\<lparr>pr_active := False, pr_generation := 0\<rparr> # ps)
      else let (r, qs) = pending_match rcvid ps in (r, p # qs))"

definition pending_forget :: "int \<Rightarrow> pending_gps_reply list \<Rightarrow> pending_gps_reply list" where
  "pending_forget rcvid ps =
     map (\<lambda>p. if pr_active p \<and> pr_rcvid p = rcvid then p\<lparr>pr_active := False, pr_generation := 0\<rparr> else p) ps"

section \<open>Sending\<close>

text \<open>
  The messages that were handed to the link are recorded with their parameters: a number, or no
  data. ss_workers are the generations of the retry threads that run.
\<close>

record send_state =
  ss_retry :: retry
  ss_pending :: "pending_gps_reply list"
  ss_status :: status
  ss_start_sent :: bool
  ss_sent :: "(ptr \<times> u16 \<times> (u16 \<times> u16 option) list) list"
  ss_workers :: "u32 list"

definition zero_send :: send_state where
  "zero_send = \<lparr>ss_retry = zero_retry, ss_pending = replicate 8 zero_pending, ss_status = zero_status,
     ss_start_sent = False, ss_sent = [], ss_workers = []\<rparr>"

definition on_retry :: "(retry \<Rightarrow> retry) \<Rightarrow> send_state \<Rightarrow> send_state" where
  "on_retry f s = s\<lparr>ss_retry := f (ss_retry s)\<rparr>"

definition on_status :: "(status \<Rightarrow> status) \<Rightarrow> send_state \<Rightarrow> send_state" where
  "on_status f s = s\<lparr>ss_status := f (ss_status s)\<rparr>"

text \<open>The answers of the packet functions of the stock driver: the packet, and the return codes.\<close>

record stock =
  sk_pkt :: ptr
  sk_p0 :: int
  sk_p1 :: int
  sk_p2 :: int
  sk_p3 :: int
  sk_send :: int

definition start_message_params :: "(u16 \<times> u16 option) list" where
  "start_message_params = [(0x0000, Some 0x0010), (0x0001, None), (0x0002, None), (0x0003, None)]"

text \<open>The part of k2161_send_start_route_guidance after the check of the retry state.\<close>

definition send_packet :: "stock \<Rightarrow> ptr \<Rightarrow> send_state \<Rightarrow> int \<times> send_state" where
  "send_packet sk ctx s =
     (let s = on_status k2161_status_send_attempt s
      in if sk_pkt sk = NULL then (-1, on_status (k2161_status_send_result False) s)
      else
        let ok = (sk_p0 sk = 0 \<and> sk_p1 sk = 0 \<and> sk_p2 sk = 0 \<and> sk_p3 sk = 0);
            send_rc = (if ok then sk_send sk else -1);
            s = (if ok then s\<lparr>ss_sent := ss_sent s @ [(ctx, 0x5200, start_message_params)]\<rparr> else s);
            s = (if send_rc = 0 then s\<lparr>ss_start_sent := True\<rparr> else s)
        in (send_rc, on_status (k2161_status_send_result (send_rc = 0)) s))"

definition send_allowed :: "ptr \<Rightarrow> retry \<Rightarrow> bool" where
  "send_allowed ctx r \<longleftrightarrow> rt_enabled r \<and> rt_ctx r = ctx"

text \<open>
  What a call finds outside: is the message table patched, are the addresses of the driver
  resolved, the time, the outcome of pthread_create, the packet functions, and the answer of the
  real MsgReply (None when it cannot be resolved).
\<close>

record call_env =
  ce_ready :: bool
  ce_installed :: bool
  ce_now :: u64
  ce_created :: bool
  ce_stock :: stock
  ce_reply :: "int option"

definition k2161_send_start_route_guidance :: "call_env \<Rightarrow> ptr \<Rightarrow> send_state \<Rightarrow> int \<times> send_state" where
  "k2161_send_start_route_guidance ce ctx s =
     (if \<not> ce_ready ce then (-1, s)
      else if ctx = NULL \<or> \<not> ce_installed ce then (-1, s)
      else if \<not> send_allowed ctx (ss_retry s) then (-1, s)
      else send_packet (ce_stock ce) ctx s)"

definition retry_begin :: "call_env \<Rightarrow> ptr \<Rightarrow> u32 \<Rightarrow> send_state \<Rightarrow> bool \<times> send_state" where
  "retry_begin ce ctx expected_generation s =
     (if ctx = NULL then (False, s)
      else if \<not> ce_ready ce then (False, s)
      else case retry_begin_locked ctx expected_generation (ce_now ce) (ss_retry s) of
          (b, None, r) \<Rightarrow> (b, s\<lparr>ss_retry := r\<rparr>)
        | (b, Some g, r) \<Rightarrow>
            (b, s\<lparr>ss_retry := worker_created (ce_created ce) g r,
                  ss_workers := (if ce_created ce then ss_workers s @ [g] else ss_workers s)\<rparr>))"

definition MsgReply :: "call_env \<Rightarrow> int \<Rightarrow> send_state \<Rightarrow> int \<times> send_state" where
  "MsgReply ce rcvid s = (case ce_reply ce of None \<Rightarrow> (-1, s)
     | Some rc \<Rightarrow>
         (case pending_match rcvid (ss_pending s) of
            (None, ps) \<Rightarrow> (rc, s\<lparr>ss_pending := ps\<rparr>)
          | (Some (ctx, generation), ps) \<Rightarrow>
              let s = s\<lparr>ss_pending := ps\<rparr>
              in if ctx = NULL then (rc, s)
              else
                let s = on_status k2161_status_ffff_success s;
                    (begun, s) = retry_begin ce ctx generation s
                in (rc, if begun then snd (k2161_send_start_route_guidance ce ctx s) else s)))"

section \<open>The wrapped calls of the stock driver\<close>

definition reset_rgi_for_identification :: "send_state \<times> diag \<Rightarrow> send_state \<times> diag" where
  "reset_rgi_for_identification sd = (case sd of (s, d) \<Rightarrow>
     let s = on_retry (\<lambda>r. snd (retry_reset r)) s;
         s = s\<lparr>ss_pending := pending_clear (ss_pending s)\<rparr>
     in (on_status k2161_status_reset s, snd (rgi_diag_session_bump d)))"

text \<open>ctp is None for NULL, otherwise the receive id it points to; msg is the message id.\<close>

definition msg_rcvid :: "int option \<Rightarrow> int" where
  "msg_rcvid ctp = (case ctp of None \<Rightarrow> -1 | Some r \<Rightarrow> r)"

definition wrapped_msg_before ::
  "call_env \<Rightarrow> ptr \<Rightarrow> int option \<Rightarrow> u16 option \<Rightarrow> send_state \<times> diag \<Rightarrow> send_state \<times> diag" where
  "wrapped_msg_before ce ctx ctp msg sd =
     (let rcvid = msg_rcvid ctp; gps = (msg = Some 0x2700);
          (s, d) = (if msg = Some 0x1D00 then reset_rgi_for_identification sd else sd);
          s = (if gps \<and> ctp \<noteq> None then on_retry (\<lambda>r. snd (retry_soft_rearm_if_stale (ce_now ce) r)) s else s)
      in if gps \<and> ctp \<noteq> None \<and> fst (retry_needs_trigger (ss_retry s)) then
           let (tracked, ps) = pending_track ctx rcvid (snd (retry_needs_trigger (ss_retry s))) (ss_pending s)
           in (on_status (k2161_status_cmd2700 tracked) (s\<lparr>ss_pending := ps\<rparr>), d)
         else if gps then (on_status (k2161_status_cmd2700 False) s, d)
         else (s, d))"

definition wrapped_msg_after :: "call_env \<Rightarrow> ptr \<Rightarrow> int option \<Rightarrow> u16 option \<Rightarrow> send_state \<Rightarrow> send_state" where
  "wrapped_msg_after ce ctx ctp msg s =
     (if msg = Some 0x2700 then
        let s = s\<lparr>ss_pending := pending_forget (msg_rcvid ctp) (ss_pending s)\<rparr>;
            (claimed, r) = retry_claim_pending ctx (ce_now ce) (ss_retry s);
            s = s\<lparr>ss_retry := r\<rparr>
        in if claimed \<noteq> None then snd (k2161_send_start_route_guidance ce ctx s) else s
      else s)"

text \<open>orig is the stock function, which may call MsgReply.\<close>

definition wrapped_iap2_msg ::
  "call_env \<Rightarrow> call_env \<Rightarrow> (send_state \<times> diag \<Rightarrow> int \<times> send_state \<times> diag) \<Rightarrow>
   ptr \<Rightarrow> int option \<Rightarrow> u16 option \<Rightarrow> send_state \<times> diag \<Rightarrow> int \<times> send_state \<times> diag" where
  "wrapped_iap2_msg ce1 ce2 orig ctx ctp msg sd =
     (let (rc, s, d) = orig (wrapped_msg_before ce1 ctx ctp msg sd)
      in (rc, wrapped_msg_after ce2 ctx ctp msg s, d))"

definition wrapped_iap2_close ::
  "(send_state \<times> diag \<Rightarrow> int \<times> send_state \<times> diag) \<Rightarrow> send_state \<times> diag \<Rightarrow> int \<times> send_state \<times> diag" where
  "wrapped_iap2_close orig sd = orig sd"

end
