(* ===== verification/Rgd_Types.thy ===== *)
theory Rgd_Types
  imports Iap2_Protocol
begin

text \<open>
  native/routeguidance/rgd_tlv.h: the identifiers, presence bits and parsed forms of the
  messages 0x5201 (RouteGuidanceUpdate), 0x5202 (RouteGuidanceManeuverUpdate) and 0x5204
  (RouteGuidanceLaneGuidanceInformation).

  Arrays with a count are lists; char arrays are their contents up to the NUL; s16 fields are
  kept as 16-bit words and read with sint where the code prints them. The build is the default
  one (RGD_TRACE_RAW_FULL = 0).
\<close>

section \<open>Limits and identifiers\<close>

abbreviation MAX_MANEUVER_LIST :: nat where "MAX_MANEUVER_LIST \<equiv> 16"
abbreviation MAX_COMPONENT_LIST :: nat where "MAX_COMPONENT_LIST \<equiv> 8"
abbreviation MAX_LANE_GUIDANCE :: nat where "MAX_LANE_GUIDANCE \<equiv> 8"
abbreviation MAX_LANE_ANGLES :: nat where "MAX_LANE_ANGLES \<equiv> 16"
abbreviation MANEUVER_CACHE_SIZE :: nat where "MANEUVER_CACHE_SIZE \<equiv> 32"
abbreviation RGD_EXIT_INFO_MAX :: nat where "RGD_EXIT_INFO_MAX \<equiv> 256"

abbreviation IDENT_TLV_ROUTE_GUIDANCE_COMPONENT :: u16 where
  "IDENT_TLV_ROUTE_GUIDANCE_COMPONENT \<equiv> 0x001E"

abbreviation RGD_TLV_COMPONENT_ID :: u16 where "RGD_TLV_COMPONENT_ID \<equiv> 0x0000"
abbreviation RGD_TLV_ROUTE_GUIDANCE_STATE :: u16 where "RGD_TLV_ROUTE_GUIDANCE_STATE \<equiv> 0x0001"
abbreviation RGD_TLV_MANEUVER_STATE :: u16 where "RGD_TLV_MANEUVER_STATE \<equiv> 0x0002"
abbreviation RGD_TLV_CURRENT_ROAD_NAME :: u16 where "RGD_TLV_CURRENT_ROAD_NAME \<equiv> 0x0003"
abbreviation RGD_TLV_DESTINATION_NAME :: u16 where "RGD_TLV_DESTINATION_NAME \<equiv> 0x0004"
abbreviation RGD_TLV_ETA :: u16 where "RGD_TLV_ETA \<equiv> 0x0005"
abbreviation RGD_TLV_TIME_REMAINING :: u16 where "RGD_TLV_TIME_REMAINING \<equiv> 0x0006"
abbreviation RGD_TLV_DISTANCE_REMAINING :: u16 where "RGD_TLV_DISTANCE_REMAINING \<equiv> 0x0007"
abbreviation RGD_TLV_DISTANCE_STRING :: u16 where "RGD_TLV_DISTANCE_STRING \<equiv> 0x0008"
abbreviation RGD_TLV_DISTANCE_UNITS :: u16 where "RGD_TLV_DISTANCE_UNITS \<equiv> 0x0009"
abbreviation RGD_TLV_DIST_TO_MANEUVER :: u16 where "RGD_TLV_DIST_TO_MANEUVER \<equiv> 0x000A"
abbreviation RGD_TLV_DIST_TO_MANEUVER_STRING :: u16 where "RGD_TLV_DIST_TO_MANEUVER_STRING \<equiv> 0x000B"
abbreviation RGD_TLV_DIST_TO_MANEUVER_UNITS :: u16 where "RGD_TLV_DIST_TO_MANEUVER_UNITS \<equiv> 0x000C"
abbreviation RGD_TLV_MANEUVER_LIST :: u16 where "RGD_TLV_MANEUVER_LIST \<equiv> 0x000D"
abbreviation RGD_TLV_MANEUVER_COUNT :: u16 where "RGD_TLV_MANEUVER_COUNT \<equiv> 0x000E"
abbreviation RGD_TLV_VISIBLE_IN_APP :: u16 where "RGD_TLV_VISIBLE_IN_APP \<equiv> 0x000F"
abbreviation RGD_TLV_LANE_GUIDANCE_INDEX :: u16 where "RGD_TLV_LANE_GUIDANCE_INDEX \<equiv> 0x0010"
abbreviation RGD_TLV_LANE_GUIDANCE_TOTAL :: u16 where "RGD_TLV_LANE_GUIDANCE_TOTAL \<equiv> 0x0011"
abbreviation RGD_TLV_LANE_GUIDANCE_SHOWING :: u16 where "RGD_TLV_LANE_GUIDANCE_SHOWING \<equiv> 0x0012"
abbreviation RGD_TLV_SOURCE_NAME :: u16 where "RGD_TLV_SOURCE_NAME \<equiv> 0x0013"
abbreviation RGD_TLV_SOURCE_SUPPORTS_RG :: u16 where "RGD_TLV_SOURCE_SUPPORTS_RG \<equiv> 0x0014"

abbreviation MAN_TLV_COMPONENT_ID :: u16 where "MAN_TLV_COMPONENT_ID \<equiv> 0x0000"
abbreviation MAN_TLV_INDEX :: u16 where "MAN_TLV_INDEX \<equiv> 0x0001"
abbreviation MAN_TLV_DESCRIPTION :: u16 where "MAN_TLV_DESCRIPTION \<equiv> 0x0002"
abbreviation MAN_TLV_TYPE :: u16 where "MAN_TLV_TYPE \<equiv> 0x0003"
abbreviation MAN_TLV_AFTER_ROAD_NAME :: u16 where "MAN_TLV_AFTER_ROAD_NAME \<equiv> 0x0004"
abbreviation MAN_TLV_DISTANCE_BETWEEN :: u16 where "MAN_TLV_DISTANCE_BETWEEN \<equiv> 0x0005"
abbreviation MAN_TLV_DISTANCE_STRING :: u16 where "MAN_TLV_DISTANCE_STRING \<equiv> 0x0006"
abbreviation MAN_TLV_DISTANCE_UNITS :: u16 where "MAN_TLV_DISTANCE_UNITS \<equiv> 0x0007"
abbreviation MAN_TLV_DRIVING_SIDE :: u16 where "MAN_TLV_DRIVING_SIDE \<equiv> 0x0008"
abbreviation MAN_TLV_JUNCTION_TYPE :: u16 where "MAN_TLV_JUNCTION_TYPE \<equiv> 0x0009"
abbreviation MAN_TLV_JUNCTION_ANGLES :: u16 where "MAN_TLV_JUNCTION_ANGLES \<equiv> 0x000A"
abbreviation MAN_TLV_EXIT_ANGLE :: u16 where "MAN_TLV_EXIT_ANGLE \<equiv> 0x000B"
abbreviation MAN_TLV_LINKED_LANE_GUIDANCE :: u16 where "MAN_TLV_LINKED_LANE_GUIDANCE \<equiv> 0x000C"
abbreviation MAN_TLV_EXIT_INFO :: u16 where "MAN_TLV_EXIT_INFO \<equiv> 0x000D"

abbreviation LANE_MSG_TLV_COMPONENT_ID :: u16 where "LANE_MSG_TLV_COMPONENT_ID \<equiv> 0x0000"
abbreviation LANE_MSG_TLV_LANE_GUIDANCE_INDEX :: u16 where "LANE_MSG_TLV_LANE_GUIDANCE_INDEX \<equiv> 0x0001"
abbreviation LANE_MSG_TLV_LANE_INFORMATIONS :: u16 where "LANE_MSG_TLV_LANE_INFORMATIONS \<equiv> 0x0002"
abbreviation LANE_MSG_TLV_LANE_GUIDANCE_DESC :: u16 where "LANE_MSG_TLV_LANE_GUIDANCE_DESC \<equiv> 0x0003"

abbreviation LANE_INFO_TLV_INDEX :: u16 where "LANE_INFO_TLV_INDEX \<equiv> 0x0000"
abbreviation LANE_INFO_TLV_STATUS :: u16 where "LANE_INFO_TLV_STATUS \<equiv> 0x0001"
abbreviation LANE_INFO_TLV_ANGLES :: u16 where "LANE_INFO_TLV_ANGLES \<equiv> 0x0002"
abbreviation LANE_INFO_TLV_ANGLE_HIGHLIGHT :: u16 where "LANE_INFO_TLV_ANGLE_HIGHLIGHT \<equiv> 0x0003"

section \<open>Presence bits\<close>

abbreviation "RGD_UPD_COMPONENT_IDS \<equiv> flag 0"
abbreviation "RGD_UPD_ROUTE_STATE \<equiv> flag 1"
abbreviation "RGD_UPD_MANEUVER_STATE \<equiv> flag 2"
abbreviation "RGD_UPD_CURRENT_ROAD \<equiv> flag 3"
abbreviation "RGD_UPD_DESTINATION \<equiv> flag 4"
abbreviation "RGD_UPD_ETA \<equiv> flag 5"
abbreviation "RGD_UPD_TIME_REMAINING \<equiv> flag 6"
abbreviation "RGD_UPD_DISTANCE_REMAINING \<equiv> flag 7"
abbreviation "RGD_UPD_DISTANCE_STRING \<equiv> flag 8"
abbreviation "RGD_UPD_DISTANCE_UNITS \<equiv> flag 9"
abbreviation "RGD_UPD_DIST_TO_MANEUVER \<equiv> flag 10"
abbreviation "RGD_UPD_DIST_TO_MANEUVER_STR \<equiv> flag 11"
abbreviation "RGD_UPD_DIST_TO_MANEUVER_UNI \<equiv> flag 12"
abbreviation "RGD_UPD_MANEUVER_COUNT \<equiv> flag 13"
abbreviation "RGD_UPD_MANEUVER_LIST \<equiv> flag 14"
abbreviation "RGD_UPD_VISIBLE_IN_APP \<equiv> flag 15"
abbreviation "RGD_UPD_LANE_INDEX \<equiv> flag 16"
abbreviation "RGD_UPD_LANE_TOTAL \<equiv> flag 17"
abbreviation "RGD_UPD_LANE_SHOWING \<equiv> flag 18"
abbreviation "RGD_UPD_SOURCE_NAME \<equiv> flag 19"
abbreviation "RGD_UPD_SOURCE_SUPPORTS_RG \<equiv> flag 20"
abbreviation "RGD_UPD_LANE_SLOT \<equiv> flag 21"

abbreviation "RGD_LANE_COMPONENT_IDS \<equiv> flag 0"
abbreviation "RGD_LANE_GUIDANCE_INDEX \<equiv> flag 1"
abbreviation "RGD_LANE_INFORMATIONS \<equiv> flag 2"
abbreviation "RGD_LANE_GUIDANCE_DESC \<equiv> flag 3"

abbreviation "RGD_MAN_COMPONENT_IDS \<equiv> flag 0"
abbreviation "RGD_MAN_INDEX \<equiv> flag 1"
abbreviation "RGD_MAN_DESCRIPTION \<equiv> flag 2"
abbreviation "RGD_MAN_TYPE \<equiv> flag 3"
abbreviation "RGD_MAN_AFTER_ROAD \<equiv> flag 4"
abbreviation "RGD_MAN_DISTANCE_BETWEEN \<equiv> flag 5"
abbreviation "RGD_MAN_DISTANCE_STRING \<equiv> flag 6"
abbreviation "RGD_MAN_DISTANCE_UNITS \<equiv> flag 7"
abbreviation "RGD_MAN_DRIVING_SIDE \<equiv> flag 8"
abbreviation "RGD_MAN_JUNCTION_TYPE \<equiv> flag 9"
abbreviation "RGD_MAN_JUNCTION_ANGLES \<equiv> flag 10"
abbreviation "RGD_MAN_EXIT_ANGLE \<equiv> flag 11"
abbreviation "RGD_MAN_LANE_GUIDANCE_RAW \<equiv> flag 12"
abbreviation "RGD_MAN_EXIT_INFO_RAW \<equiv> flag 13"
abbreviation "RGD_MAN_EXIT_INFO_STR \<equiv> flag 14"
abbreviation "RGD_MAN_LANE_GUIDANCE \<equiv> flag 15"
abbreviation "RGD_MAN_LINKED_LANE_INDEX \<equiv> flag 16"

section \<open>Parsed messages\<close>

record rgd_lane =
  ln_position :: u16
  ln_direction :: u16
  ln_status :: u8
  ln_angles :: "u16 list"
  ln_description :: bytes

record rgd_lane_guidance =
  lg_present :: u64
  lg_component_ids :: "u16 list"
  lg_index :: u16
  lg_lanes :: "rgd_lane list"
  lg_description :: bytes

record rgd_update =
  up_present :: u64
  up_component_ids :: "u16 list"
  up_route_state :: u8
  up_maneuver_state :: u8
  up_distance_units :: u8
  up_dist_to_maneuver_units :: u8
  up_visible_in_app :: u8
  up_lane_guidance_showing :: u8
  up_source_supports_rg :: u8
  up_maneuver_count :: u16
  up_lane_guidance_index :: u16
  up_lane_guidance_slot :: u16
  up_lane_guidance_total :: u16
  up_distance_remaining :: u32
  up_dist_to_maneuver :: u32
  up_eta :: u64
  up_time_remaining :: u64
  up_current_road :: bytes
  up_destination :: bytes
  up_distance_string :: bytes
  up_dist_to_maneuver_string :: bytes
  up_source_name :: bytes
  up_maneuver_list :: "u16 list"

record rgd_maneuver =
  mn_present :: u64
  mn_component_ids :: "u16 list"
  mn_index :: u16
  mn_type :: u8
  mn_distance_units :: u8
  mn_driving_side :: u8
  mn_junction_type :: u8
  mn_exit_angle :: u16
  mn_junction_angles :: "u16 list"
  mn_distance_between :: u32
  mn_description :: bytes
  mn_after_road_name :: bytes
  mn_distance_string :: bytes
  mn_lanes :: "rgd_lane list"
  mn_lane_guidance_raw_len :: u16
  mn_linked_lane_guidance_index :: u16
  mn_exit_info_raw_len :: u16
  mn_exit_info_str :: bytes

text \<open>The structures after memset to zero.\<close>

definition zero_lane :: rgd_lane where
  "zero_lane = \<lparr>ln_position = 0, ln_direction = 0, ln_status = 0, ln_angles = [], ln_description = []\<rparr>"

definition zero_lane_guidance :: rgd_lane_guidance where
  "zero_lane_guidance = \<lparr>lg_present = 0, lg_component_ids = [], lg_index = 0, lg_lanes = [],
     lg_description = []\<rparr>"

definition zero_update :: rgd_update where
  "zero_update = \<lparr>up_present = 0, up_component_ids = [], up_route_state = 0, up_maneuver_state = 0,
     up_distance_units = 0, up_dist_to_maneuver_units = 0, up_visible_in_app = 0,
     up_lane_guidance_showing = 0, up_source_supports_rg = 0, up_maneuver_count = 0,
     up_lane_guidance_index = 0, up_lane_guidance_slot = 0, up_lane_guidance_total = 0,
     up_distance_remaining = 0, up_dist_to_maneuver = 0, up_eta = 0, up_time_remaining = 0,
     up_current_road = [], up_destination = [], up_distance_string = [],
     up_dist_to_maneuver_string = [], up_source_name = [], up_maneuver_list = []\<rparr>"

definition zero_maneuver :: rgd_maneuver where
  "zero_maneuver = \<lparr>mn_present = 0, mn_component_ids = [], mn_index = 0, mn_type = 0,
     mn_distance_units = 0, mn_driving_side = 0, mn_junction_type = 0, mn_exit_angle = 0,
     mn_junction_angles = [], mn_distance_between = 0, mn_description = [], mn_after_road_name = [],
     mn_distance_string = [], mn_lanes = [], mn_lane_guidance_raw_len = 0,
     mn_linked_lane_guidance_index = 0, mn_exit_info_raw_len = 0, mn_exit_info_str = []\<rparr>"

end
