(* ===== verification/Rgd_Component.thy ===== *)
theory Rgd_Component
  imports Rgd_Types
begin

text \<open>
  The RouteGuidanceDisplayComponent of the identification message: the builder and the
  extraction of its identifier in native/routeguidance/rgd_tlv.c, and the constant payload
  that native/ident_hook.c hands to the stock parameter helper.
\<close>

text \<open>One write_be16 (out + off, v) followed by off += 2.\<close>

definition put16 :: "u16 \<Rightarrow> bytes \<times> nat \<Rightarrow> bytes \<times> nat" where
  "put16 v s = (mem_put (fst s) (snd s) (write_be16 v), snd s + 2)"

definition put16s :: "u16 list \<Rightarrow> bytes \<times> nat \<Rightarrow> bytes \<times> nat" where
  "put16s vs s = fold put16 vs s"

definition component_name :: bytes where
  "component_name = ascii ''RouteGuidanceDisplayComponent''"

definition rgd_build_component_tlv :: "bytes option \<Rightarrow> u16 \<Rightarrow> nat \<times> bytes option" where
  "rgd_build_component_tlv out component_id = (case out of
     None \<Rightarrow> (0, None)
   | Some m \<Rightarrow>
       (let name_len = length component_name + 1;
            tlv1_len = 4 + name_len;
            inner_len = 6 + tlv1_len + 6 + 6 + 6 + 6 + 6 + 6 + 6;
            outer_len = 4 + inner_len
        in if length m < outer_len then (0, Some m)
           else
             (let s = put16s [of_nat outer_len, IDENT_TLV_ROUTE_GUIDANCE_COMPONENT] (m, 0);
                  s = put16s [6, 0x0000, component_id] s;
                  s = put16s [of_nat tlv1_len, 0x0001] s;
                  s = (mem_put (fst s) (snd s) (component_name @ [0]), snd s + name_len);
                  s = put16s [6, 0x0002, 0x0100] s;
                  s = put16s [6, 0x0003, 0x0100] s;
                  s = put16s [6, 0x0004, 0x0100] s;
                  s = put16s [6, 0x0005, 0x0100] s;
                  s = put16s [6, 0x0006, 0x0006] s;
                  s = put16s [6, 0x0007, 0x0100] s;
                  s = put16s [6, 0x0008, 0x0006] s
              in (snd s, Some (fst s)))))"

function extract_loop :: "bytes \<Rightarrow> nat \<Rightarrow> u16 option" where
  "extract_loop b inner_off =
     (if inner_off + 4 \<le> length b then do {
        inner_len \<leftarrow> read_be16 b inner_off;
        inner_id \<leftarrow> read_be16 b (inner_off + 2);
        if unat inner_len < 4 \<or> inner_off + unat inner_len > length b then Some 0
        else if inner_id = 0x0000 \<and> unat inner_len \<ge> 6 then read_be16 b (inner_off + 4)
        else extract_loop b (inner_off + unat inner_len) }
      else Some 0)"
  by pat_completeness auto
termination
  by (relation "measure (\<lambda>(b, off). length b - off)") auto

declare extract_loop.simps [simp del]

definition rgd_extract_component_id :: "bytes option \<Rightarrow> u16 option" where
  "rgd_extract_component_id ptlv = (case ptlv of
     None \<Rightarrow> Some 0
   | Some b \<Rightarrow> if length b < 10 then Some 0 else extract_loop b 4)"

definition rgi_component_payload :: bytes where
  "rgi_component_payload =
     [0x00,0x06,0x00,0x00,0x00,0x10,
      0x00,0x22,0x00,0x01,
      0x52,0x6f,0x75,0x74,0x65,0x47,0x75,0x69,0x64,0x61,0x6e,0x63,
      0x65,0x44,0x69,0x73,0x70,0x6c,0x61,0x79,0x43,0x6f,0x6d,0x70,
      0x6f,0x6e,0x65,0x6e,0x74,0x00,
      0x00,0x06,0x00,0x02,0x01,0x00, 0x00,0x06,0x00,0x03,0x01,0x00,
      0x00,0x06,0x00,0x04,0x01,0x00, 0x00,0x06,0x00,0x05,0x01,0x00,
      0x00,0x06,0x00,0x06,0x00,0x06, 0x00,0x06,0x00,0x07,0x01,0x00,
      0x00,0x06,0x00,0x08,0x00,0x06]"

section \<open>What is built\<close>

text \<open>The parameters of the component and their encoding.\<close>

definition component_params :: "u16 \<Rightarrow> (u16 \<times> bytes) list" where
  "component_params cid =
     [(0, write_be16 cid), (1, component_name @ [0]), (2, [1, 0]), (3, [1, 0]), (4, [1, 0]),
      (5, [1, 0]), (6, [0, 6]), (7, [1, 0]), (8, [0, 6])]"

definition component_tlv :: "u16 \<Rightarrow> u16 \<times> bytes" where
  "component_tlv cid =
     (IDENT_TLV_ROUTE_GUIDANCE_COMPONENT, concat (map tlv_encode (component_params cid)))"

text \<open>The memory and the offset after the bytes bs have been written from the start.\<close>

definition written :: "bytes \<Rightarrow> bytes \<Rightarrow> bytes \<times> nat" where
  "written m bs = (mem_put m 0 bs, length bs)"

lemma written_Nil: "(m, 0) = written m []"
  by (simp add: written_def mem_put_def)

lemma put16s_written:
  "length bs + 2 * length vs \<le> length m \<Longrightarrow>
   put16s vs (written m bs) = written m (bs @ concat (map write_be16 vs))"
proof (induction vs arbitrary: bs)
  case Nil
  then show ?case by (simp add: put16s_def)
next
  case (Cons v vs)
  from Cons.prems have "put16 v (written m bs) = written m (bs @ write_be16 v)"
    by (simp add: put16_def written_def mem_put_append)
  with Cons.IH [of "bs @ write_be16 v"] Cons.prems show ?case
    by (simp add: put16s_def)
qed

lemma copy_written:
  "length bs + length cs \<le> length m \<Longrightarrow>
   (mem_put (fst (written m bs)) (snd (written m bs)) cs, snd (written m bs) + length cs) =
     written m (bs @ cs)"
  by (simp add: written_def mem_put_append)

lemma length_component_name: "length component_name = 29"
  by (simp add: component_name_def)

lemma length_component_tlv: "length (snd (component_tlv cid)) = 82"
  by (simp add: component_tlv_def component_params_def length_component_name)

lemma rgd_build_component_tlv_eq:
  assumes "86 \<le> length m"
  shows "rgd_build_component_tlv (Some m) cid =
           (86, Some (mem_put m 0 (tlv_encode (component_tlv cid))))"
proof -
  have nm: "(mem_put (fst (written m bs)) (snd (written m bs)) (component_name @ [0]),
         snd (written m bs) + 30) = written m (bs @ component_name @ [0])"
    if "length bs + 30 \<le> length m" for bs
    using copy_written [of bs "component_name @ [0]" m] that by (simp add: length_component_name)
  have bytes: "tlv_encode (component_tlv cid) =
     concat (map write_be16 [86, 0x1E, 6, 0, cid, 34, 1]) @ (component_name @ [0]) @
     concat (map write_be16 [6, 2, 0x100, 6, 3, 0x100, 6, 4, 0x100, 6, 5, 0x100, 6, 6, 6,
                             6, 7, 0x100, 6, 8, 6])"
    unfolding tlv_encode_def length_component_tlv
    by (simp add: component_tlv_def component_params_def tlv_encode_def
        length_component_name write_be16_def)
  show ?thesis
    using assms
    by (simp add: rgd_build_component_tlv_def Let_def length_component_name written_Nil
        put16s_written nm bytes)
       (simp add: written_def length_component_name)
qed

lemma rgd_build_component_tlv_small:
  "length m < 86 \<Longrightarrow> rgd_build_component_tlv (Some m) cid = (0, Some m)"
  by (simp add: rgd_build_component_tlv_def Let_def length_component_name)

text \<open>The constant payload of the identification hook is the built one for component 16.\<close>

lemma rgi_component_payload_eq: "rgi_component_payload = snd (component_tlv 0x0010)"
  by (simp add: rgi_component_payload_def component_tlv_def component_params_def tlv_encode_def
      component_name_def ascii_def write_be16_def)

section \<open>What is extracted\<close>

text \<open>The first inner TLV with identifier 0 and at least two bytes of value.\<close>

fun component_id_of :: "(u16 \<times> bytes) list \<Rightarrow> u16" where
  "component_id_of [] = 0"
| "component_id_of ((i, v) # ts) =
     (if i = 0 \<and> 2 \<le> length v then be16 (v ! 0) (v ! 1) else component_id_of ts)"

lemma extract_loop_eq: "extract_loop b off = Some (component_id_of (tlv_split (drop off b)))"
proof (induction "length b - off" arbitrary: off rule: less_induct)
  case less
  show ?case
  proof (cases "off + 4 \<le> length b")
    case False
    then show ?thesis by (subst extract_loop.simps) (simp add: tlv_split_short)
  next
    case True
    define l where "l = be16 (b ! off) (b ! Suc off)"
    show ?thesis
    proof (cases "unat l < 4 \<or> length b < off + unat l")
      case bad: True
      with True show ?thesis unfolding tlv_split_unfold [OF True]
        by (subst extract_loop.simps) (auto simp: read_simps l_def Let_def)
    next
      case ok: False
      with True less [of "off + unat l"] show ?thesis unfolding tlv_split_unfold [OF True]
        by (subst extract_loop.simps)
           (auto simp: read_simps l_def Let_def slice_def)
    qed
  qed
qed

lemma rgd_extract_component_id_eq:
  "rgd_extract_component_id (Some b) =
     Some (if length b < 10 then 0 else component_id_of (tlv_split (drop 4 b)))"
  by (simp add: rgd_extract_component_id_def extract_loop_eq)

lemma component_params_ok: "list_all tlv_ok (component_params cid)"
  by (simp add: component_params_def tlv_ok_def length_component_name)

lemma extract_component_tlv:
  "rgd_extract_component_id (Some (tlv_encode (component_tlv cid))) = Some cid"
proof -
  have "drop 4 (tlv_encode (component_tlv cid)) = concat (map tlv_encode (component_params cid))"
    by (simp add: tlv_encode_def [of "component_tlv cid"]) (simp add: component_tlv_def)
  moreover have "component_id_of (component_params cid) = cid"
    by (simp add: component_params_def write_be16_def)
  ultimately show ?thesis
    by (simp add: rgd_extract_component_id_eq length_component_tlv
        tlv_split_encode component_params_ok)
qed

end
