(* ===== verification/Driver_Hooks.thy ===== *)
theory Driver_Hooks
  imports Send_Hook Rgd_Component
begin

text \<open>
  The patches of the loaded stock driver: native/ident_hook.c (the builder of the identification
  message), native/message_table.c (the group 0x52 of the table of control messages) and the
  installation of native/send_hook.c. The words of the driver image are a map from addresses to
  numbers; a store into memory that does not take it is lost, which the code checks by reading
  back. The addresses of the library's own functions and tables are a parameter.
\<close>

section \<open>The memory\<close>

record image =
  im_word :: "nat \<Rightarrow> nat"
  im_takes :: "nat \<Rightarrow> bool"

definition put_word :: "nat \<Rightarrow> nat \<Rightarrow> image \<Rightarrow> image" where
  "put_word a v im = (if im_takes im a then im\<lparr>im_word := (im_word im)(a := v)\<rparr> else im)"

record own =
  ow_gps_builder :: ptr
  ow_iap2_msg :: ptr
  ow_iap2_close :: ptr
  ow_group_name :: ptr
  ow_messages :: ptr

abbreviation K2161_IDENT_ID_OFFSET :: nat where "K2161_IDENT_ID_OFFSET \<equiv> 0x000a7d80"
abbreviation K2161_IDENT_BUILDER_OFFSET :: nat where "K2161_IDENT_BUILDER_OFFSET \<equiv> 0x000a7d84"
abbreviation K2161_GPS_BUILDER_OFFSET :: nat where "K2161_GPS_BUILDER_OFFSET \<equiv> 0x0000a11c"
abbreviation K2161_ADDPARAM_BLOB_OFFSET :: nat where "K2161_ADDPARAM_BLOB_OFFSET \<equiv> 0x0001d0d8"

abbreviation K2161_CTRL_MSG_TABLE_OFFSET :: nat where "K2161_CTRL_MSG_TABLE_OFFSET \<equiv> 0x000ab050"
abbreviation K2161_RGI_GROUP :: nat where "K2161_RGI_GROUP \<equiv> 0x52"
abbreviation K2161_RGI_GROUP_COUNT :: nat where "K2161_RGI_GROUP_COUNT \<equiv> 5"
abbreviation K2161_GROUP50_NAME_OFFSET :: nat where "K2161_GROUP50_NAME_OFFSET \<equiv> 0x000237dc"
abbreviation K2161_GROUP50_MESSAGES_OFFSET :: nat where "K2161_GROUP50_MESSAGES_OFFSET \<equiv> 0x000ac4dc"
abbreviation K2161_GROUP68_NAME_OFFSET :: nat where "K2161_GROUP68_NAME_OFFSET \<equiv> 0x000237e8"
abbreviation K2161_GROUP68_MESSAGES_OFFSET :: nat where "K2161_GROUP68_MESSAGES_OFFSET \<equiv> 0x000ac50c"
abbreviation K2161_NP_START_NAME_OFFSET :: nat where "K2161_NP_START_NAME_OFFSET \<equiv> 0x00023b80"
abbreviation K2161_NP_START_PARAMS_OFFSET :: nat where "K2161_NP_START_PARAMS_OFFSET \<equiv> 0x00026bd8"
abbreviation K2161_NP_UPDATE_NAME_OFFSET :: nat where "K2161_NP_UPDATE_NAME_OFFSET \<equiv> 0x00023b98"
abbreviation K2161_NP_UPDATE_PARAMS_OFFSET :: nat where "K2161_NP_UPDATE_PARAMS_OFFSET \<equiv> 0x00026bf8"

abbreviation IAP2_MSG_SLOT_OFFSET :: nat where "IAP2_MSG_SLOT_OFFSET \<equiv> 0x000a7dac"
abbreviation IAP2_CLOSE_SLOT_OFFSET :: nat where "IAP2_CLOSE_SLOT_OFFSET \<equiv> 0x000a7dc0"
abbreviation IAP2_MSG_OFFSET :: nat where "IAP2_MSG_OFFSET \<equiv> 0x0000e484"
abbreviation IAP2_CLOSE_OFFSET :: nat where "IAP2_CLOSE_OFFSET \<equiv> 0x0000f760"
abbreviation ADDPARAM_NODATA_OFFSET :: nat where "ADDPARAM_NODATA_OFFSET \<equiv> 0x0001cf50"
abbreviation ADDPARAM_NUM_OFFSET :: nat where "ADDPARAM_NUM_OFFSET \<equiv> 0x0001d210"
abbreviation SENDLIST_POP_OFFSET :: nat where "SENDLIST_POP_OFFSET \<equiv> 0x0001dfac"
abbreviation SENDLIST_PUSH_OFFSET :: nat where "SENDLIST_PUSH_OFFSET \<equiv> 0x0001dc14"
abbreviation LINK_SEND_MESSAGE_OFFSET :: nat where "LINK_SEND_MESSAGE_OFFSET \<equiv> 0x00010530"

section \<open>The identification hook\<close>

record ident_hook =
  ih_original_gps_builder :: ptr
  ih_gps_builder_slot :: ptr
  ih_packet_addparam_blob :: ptr
  ih_installed_driver_base :: ptr
  ih_hook_installed :: bool

definition zero_ident_hook :: ident_hook where
  "zero_ident_hook = \<lparr>ih_original_gps_builder = NULL, ih_gps_builder_slot = NULL,
     ih_packet_addparam_blob = NULL, ih_installed_driver_base = NULL, ih_hook_installed = False\<rparr>"

definition k2161_ident_try_install_base ::
  "own \<Rightarrow> ptr \<Rightarrow> ident_hook \<Rightarrow> status \<Rightarrow> image \<Rightarrow> int \<times> ident_hook \<times> status \<times> image" where
  "k2161_ident_try_install_base ow base h st im =
     (if base = NULL then (0, h, st, im)
      else if ih_hook_installed h \<and> ih_installed_driver_base h = base then (1, h, st, im)
      else if im_word im (base + K2161_IDENT_ID_OFFSET) \<noteq> 0x0016 then (-1, h, st, im)
      else
        let slot = base + K2161_IDENT_BUILDER_OFFSET;
            h = h\<lparr>ih_gps_builder_slot := slot\<rparr>;
            expected = base + K2161_GPS_BUILDER_OFFSET;
            current = im_word im slot
        in if current = ow_gps_builder ow then
             (1, h\<lparr>ih_hook_installed := True, ih_installed_driver_base := base\<rparr>, st, im)
        else if current \<noteq> expected then (-1, h, st, im)
        else
          let h = h\<lparr>ih_packet_addparam_blob := base + K2161_ADDPARAM_BLOB_OFFSET,
                    ih_original_gps_builder := expected, ih_installed_driver_base := base\<rparr>
          in if im_word im slot \<noteq> expected then (-1, h, st, im)
          else
            let im = put_word slot (ow_gps_builder ow) im
            in if im_word im slot \<noteq> ow_gps_builder ow then
                 (-1, h\<lparr>ih_original_gps_builder := NULL, ih_packet_addparam_blob := NULL,
                        ih_installed_driver_base := NULL, ih_gps_builder_slot := NULL\<rparr>, st, im)
               else (1, h\<lparr>ih_hook_installed := True\<rparr>, k2161_status_ident_hook_ready st, im))"

definition k2161_ident_restore :: "own \<Rightarrow> ident_hook \<Rightarrow> image \<Rightarrow> int \<times> ident_hook \<times> image" where
  "k2161_ident_restore ow h im =
     (if \<not> ih_hook_installed h \<or> ih_gps_builder_slot h = NULL \<or> ih_original_gps_builder h = NULL then (0, h, im)
      else if im_word im (ih_gps_builder_slot h) \<noteq> ow_gps_builder ow then (-1, h, im)
      else (1, h\<lparr>ih_hook_installed := False\<rparr>, put_word (ih_gps_builder_slot h) (ih_original_gps_builder h) im))"

text \<open>
  The stock functions answer rc and blob_rc; a packet is the list of the parameters that were
  added to it.
\<close>

definition append_rgi_component ::
  "int \<Rightarrow> ident_hook \<Rightarrow> status \<times> (u16 \<times> bytes) list \<Rightarrow> int \<times> status \<times> (u16 \<times> bytes) list" where
  "append_rgi_component blob_rc h sp = (case sp of (st, pkt) \<Rightarrow>
     let st = k2161_status_ident_attempt st
     in if ih_packet_addparam_blob h = NULL then (-1, st, pkt)
        else if blob_rc = 0 then (blob_rc, k2161_status_ident_success st, pkt @ [(0x001e, rgi_component_payload)])
        else (blob_rc, st, pkt))"

definition k2161_wrapped_gps_builder ::
  "int \<Rightarrow> int \<Rightarrow> ident_hook \<Rightarrow> status \<times> (u16 \<times> bytes) list \<Rightarrow> int \<times> status \<times> (u16 \<times> bytes) list" where
  "k2161_wrapped_gps_builder rc blob_rc h sp =
     (if ih_original_gps_builder h = NULL then (-1, sp)
      else if rc = -1 then (-1, sp)
      else
        let (a, sp) = append_rgi_component blob_rc h sp
        in if a \<noteq> 0 then (-1, sp) else (1, sp))"


section \<open>The table of control messages\<close>

text \<open>A group is three words: name, messages, count; a message is three words: name, flags, params.\<close>

abbreviation group_at :: "nat \<Rightarrow> nat \<Rightarrow> nat" where "group_at table i \<equiv> table + 12 * i"

record msg_table =
  mt_installed_slot :: ptr
  mt_installed_driver_base :: ptr
  mt_installed :: bool

definition zero_msg_table :: msg_table where
  "zero_msg_table = \<lparr>mt_installed_slot = NULL, mt_installed_driver_base = NULL, mt_installed = False\<rparr>"

definition slot_is :: "nat \<Rightarrow> nat \<Rightarrow> nat \<Rightarrow> nat \<Rightarrow> image \<Rightarrow> bool" where
  "slot_is slot name messages count im \<longleftrightarrow>
     im_word im slot = name \<and> im_word im (slot + 4) = messages \<and> im_word im (slot + 8) = count"

definition k2161_msgtable_ready :: "own \<Rightarrow> msg_table \<Rightarrow> image \<Rightarrow> bool" where
  "k2161_msgtable_ready ow t im \<longleftrightarrow> mt_installed t \<and> mt_installed_driver_base t \<noteq> NULL \<and>
     mt_installed_slot t \<noteq> NULL \<and>
     slot_is (mt_installed_slot t) (ow_group_name ow) (ow_messages ow) K2161_RGI_GROUP_COUNT im"

definition msgtable_verify :: "ptr \<Rightarrow> image \<Rightarrow> bool" where
  "msgtable_verify base im \<longleftrightarrow>
     (let table = base + K2161_CTRL_MSG_TABLE_OFFSET; slot50 = group_at table 0x50;
          slot52 = group_at table K2161_RGI_GROUP; slot68 = group_at table 0x68
      in if \<not> slot_is slot50 (base + K2161_GROUP50_NAME_OFFSET) (base + K2161_GROUP50_MESSAGES_OFFSET) 4 im then False
      else if \<not> slot_is slot68 (base + K2161_GROUP68_NAME_OFFSET) (base + K2161_GROUP68_MESSAGES_OFFSET) 4 im then False
      else
        let np = im_word im (slot50 + 4)
        in if \<not> slot_is np (base + K2161_NP_START_NAME_OFFSET) 1 (base + K2161_NP_START_PARAMS_OFFSET) im then False
        else if \<not> slot_is (np + 12) (base + K2161_NP_UPDATE_NAME_OFFSET) 2 (base + K2161_NP_UPDATE_PARAMS_OFFSET) im then False
        else slot_is slot52 NULL NULL 0 im)"

definition k2161_msgtable_try_install_base ::
  "own \<Rightarrow> ptr \<Rightarrow> msg_table \<Rightarrow> image \<Rightarrow> int \<times> msg_table \<times> image" where
  "k2161_msgtable_try_install_base ow base t im =
     (if base = NULL then (0, t, im)
      else if mt_installed t then
        (if mt_installed_driver_base t = base \<and> k2161_msgtable_ready ow t im then (1, t, im) else (-1, t, im))
      else if \<not> msgtable_verify base im then (-1, t, im)
      else
        let slot52 = group_at (base + K2161_CTRL_MSG_TABLE_OFFSET) K2161_RGI_GROUP;
            im = put_word slot52 (ow_group_name ow) im;
            im = put_word (slot52 + 4) (ow_messages ow) im;
            im = put_word (slot52 + 8) K2161_RGI_GROUP_COUNT im;
            t = t\<lparr>mt_installed_slot := slot52, mt_installed_driver_base := base\<rparr>
        in if \<not> slot_is slot52 (ow_group_name ow) (ow_messages ow) K2161_RGI_GROUP_COUNT im then
             let im = put_word (slot52 + 8) 0 im;
                 im = put_word (slot52 + 4) NULL im;
                 im = put_word slot52 NULL im
             in (-1, t\<lparr>mt_installed_slot := NULL, mt_installed_driver_base := NULL\<rparr>, im)
           else (1, t\<lparr>mt_installed := True\<rparr>, im))"

section \<open>The installation of the send hook\<close>

record send_fns =
  sf_original_iap2_msg :: ptr
  sf_original_iap2_close :: ptr
  sf_addparam_nodata :: ptr
  sf_addparam_num :: ptr
  sf_sendlist_pop :: ptr
  sf_sendlist_push :: ptr
  sf_send_message :: ptr

definition no_send_fns :: send_fns where
  "no_send_fns = \<lparr>sf_original_iap2_msg = NULL, sf_original_iap2_close = NULL, sf_addparam_nodata = NULL,
     sf_addparam_num = NULL, sf_sendlist_pop = NULL, sf_sendlist_push = NULL, sf_send_message = NULL\<rparr>"

definition driver_send_fns :: "ptr \<Rightarrow> send_fns" where
  "driver_send_fns base = \<lparr>sf_original_iap2_msg = base + IAP2_MSG_OFFSET,
     sf_original_iap2_close = base + IAP2_CLOSE_OFFSET, sf_addparam_nodata = base + ADDPARAM_NODATA_OFFSET,
     sf_addparam_num = base + ADDPARAM_NUM_OFFSET, sf_sendlist_pop = base + SENDLIST_POP_OFFSET,
     sf_sendlist_push = base + SENDLIST_PUSH_OFFSET, sf_send_message = base + LINK_SEND_MESSAGE_OFFSET\<rparr>"

record send_install =
  si_fns :: send_fns
  si_installed_driver_base :: ptr
  si_send_hook_installed :: bool

definition zero_send_install :: send_install where
  "zero_send_install = \<lparr>si_fns = no_send_fns, si_installed_driver_base = NULL, si_send_hook_installed = False\<rparr>"

definition k2161_send_hook_try_install_base ::
  "own \<Rightarrow> bool \<Rightarrow> ptr \<Rightarrow> send_install \<Rightarrow> status \<Rightarrow> image \<Rightarrow> int \<times> send_install \<times> status \<times> image" where
  "k2161_send_hook_try_install_base ow msgtable_ready base h st im =
     (if base = NULL then (0, h, st, im)
      else if \<not> msgtable_ready then (-1, h, st, im)
      else if si_send_hook_installed h then
        (if si_installed_driver_base h = base then 1 else -1, h, st, im)
      else
        let msg_slot = base + IAP2_MSG_SLOT_OFFSET; close_slot = base + IAP2_CLOSE_SLOT_OFFSET;
            expected_msg = base + IAP2_MSG_OFFSET; expected_close = base + IAP2_CLOSE_OFFSET;
            current_msg = im_word im msg_slot; current_close = im_word im close_slot
        in if current_msg = ow_iap2_msg ow \<and> current_close = ow_iap2_close ow then
             (1, h\<lparr>si_fns := driver_send_fns base, si_installed_driver_base := base,
                    si_send_hook_installed := True\<rparr>, st, im)
        else if current_msg \<noteq> expected_msg \<or> current_close \<noteq> expected_close then (-1, h, st, im)
        else
          let im = put_word msg_slot (ow_iap2_msg ow) im;
              im = put_word close_slot (ow_iap2_close ow) im
          in if im_word im msg_slot \<noteq> ow_iap2_msg ow \<or> im_word im close_slot \<noteq> ow_iap2_close ow then
               let im = (if im_word im msg_slot = ow_iap2_msg ow then put_word msg_slot expected_msg im else im);
                   im = (if im_word im close_slot = ow_iap2_close ow then put_word close_slot expected_close im else im)
               in (-1, h\<lparr>si_fns := no_send_fns\<rparr>, st, im)
             else (1, h\<lparr>si_fns := driver_send_fns base, si_installed_driver_base := base,
                         si_send_hook_installed := True\<rparr>, k2161_status_send_hooks_ready True True st, im))"

section \<open>A failed patch leaves the driver as it was\<close>

lemma put_word_takes: "im_takes (put_word a v im) = im_takes im"
  by (simp add: put_word_def)

lemma put_word_back: "im_word im a = w \<Longrightarrow> put_word a w (put_word a v im) = im"
  by (auto simp: put_word_def fun_upd_idem)

lemma put_word_twist: "a \<noteq> b \<Longrightarrow> put_word a v (put_word b w im) = put_word b w (put_word a v im)"
  by (auto simp: put_word_def fun_upd_twist)

lemma put_word_lost: "im_word (put_word a v im) a \<noteq> v \<Longrightarrow> put_word a v im = im"
  by (auto simp: put_word_def split: if_splits)

lemma put_word_other: "a \<noteq> b \<Longrightarrow> im_word (put_word b v im) a = im_word im a"
  by (simp add: put_word_def)

lemma msgtable_result:
  assumes "k2161_msgtable_try_install_base ow base t im = (rc, t', im')"
  shows "(rc \<noteq> 1 \<longrightarrow> im' = im \<and> mt_installed t' = mt_installed t) \<and>
    (rc = 1 \<longrightarrow> k2161_msgtable_ready ow t' im' \<and> mt_installed_driver_base t' = base \<and> mt_installed t')"
proof (cases "base = NULL \<or> mt_installed t \<or> \<not> msgtable_verify base im")
  case True
  with assms show ?thesis
    by (auto simp: k2161_msgtable_try_install_base_def k2161_msgtable_ready_def split: if_splits)
next
  case False
  define s52 where "s52 = group_at (base + K2161_CTRL_MSG_TABLE_OFFSET) K2161_RGI_GROUP"
  define im1 where "im1 = put_word (s52 + 8) K2161_RGI_GROUP_COUNT (put_word (s52 + 4) (ow_messages ow) (put_word s52 (ow_group_name ow) im))"
  have z: "im_word im s52 = 0" "im_word im (s52 + 4) = 0" "im_word im (s52 + 8) = 0"
    using False by (simp_all add: msgtable_verify_def slot_is_def Let_def s52_def split: if_splits)
  have undone: "put_word s52 NULL (put_word (s52 + 4) NULL (put_word (s52 + 8) 0 im1)) = im"
    by (simp add: im1_def put_word_back put_word_other z)
  show ?thesis
  proof (cases "slot_is s52 (ow_group_name ow) (ow_messages ow) K2161_RGI_GROUP_COUNT im1")
    case True
    then have "rc = 1" "t' = t\<lparr>mt_installed_slot := s52, mt_installed_driver_base := base, mt_installed := True\<rparr>" "im' = im1"
      using False assms by (simp_all add: k2161_msgtable_try_install_base_def Let_def s52_def im1_def)
    with True False show ?thesis by (simp add: k2161_msgtable_ready_def s52_def)
  next
    case f: False
    then have "rc = -1" "mt_installed t' = mt_installed t"
      "im' = put_word s52 NULL (put_word (s52 + 4) NULL (put_word (s52 + 8) 0 im1))"
      using False assms by (auto simp: k2161_msgtable_try_install_base_def Let_def s52_def im1_def)
    with undone show ?thesis by simp
  qed
qed

lemma send_install_result:
  assumes "k2161_send_hook_try_install_base ow ready base h st im = (rc, h', st', im')"
  shows "(rc \<noteq> 1 \<longrightarrow> im' = im \<and> st' = st) \<and>
    (rc = 1 \<longrightarrow> ready \<and> si_send_hook_installed h' \<and> si_installed_driver_base h' = base \<and>
       (\<not> si_send_hook_installed h \<longrightarrow> si_fns h' = driver_send_fns base \<and>
          im_word im' (base + IAP2_MSG_SLOT_OFFSET) = ow_iap2_msg ow \<and>
          im_word im' (base + IAP2_CLOSE_SLOT_OFFSET) = ow_iap2_close ow))"
proof -
  let ?m = "base + IAP2_MSG_SLOT_OFFSET" and ?c = "base + IAP2_CLOSE_SLOT_OFFSET"
  define early where "early \<longleftrightarrow> base = NULL \<or> \<not> ready \<or> si_send_hook_installed h \<or>
    im_word im ?m = ow_iap2_msg ow \<and> im_word im ?c = ow_iap2_close ow \<or>
    im_word im ?m \<noteq> base + IAP2_MSG_OFFSET \<or> im_word im ?c \<noteq> base + IAP2_CLOSE_OFFSET"
  show ?thesis
  proof (cases early)
    case True
    with assms show ?thesis
      unfolding early_def k2161_send_hook_try_install_base_def by (auto simp: Let_def split: if_splits)
  next
    case False
    then have e: "im_word im ?m = base + IAP2_MSG_OFFSET" "im_word im ?c = base + IAP2_CLOSE_OFFSET"
      "base \<noteq> NULL" "ready" "\<not> si_send_hook_installed h"
      "\<not> (im_word im ?m = ow_iap2_msg ow \<and> im_word im ?c = ow_iap2_close ow)"
      by (auto simp: early_def)
    show ?thesis
      using assms e
      by (cases im; cases "im_takes im ?m"; cases "im_takes im ?c")
        (auto simp: k2161_send_hook_try_install_base_def Let_def put_word_def fun_upd_idem fun_upd_twist split: if_splits)
  qed
qed

lemma send_install_failed:
  assumes "k2161_send_hook_try_install_base ow ready base h st im = (rc, h', st', im')" "rc \<noteq> 1"
  shows "si_send_hook_installed h' = si_send_hook_installed h \<and> (si_fns h' = si_fns h \<or> si_fns h' = no_send_fns)"
proof -
  let ?r = "k2161_send_hook_try_install_base ow ready base h st im"
  have "fst ?r = 1 \<or> fst (snd ?r) = h \<or> fst (snd ?r) = h\<lparr>si_fns := no_send_fns\<rparr>"
    by (simp add: k2161_send_hook_try_install_base_def Let_def)
  with assms show ?thesis by auto
qed

lemma ident_result:
  assumes "k2161_ident_try_install_base ow base h st im = (rc, h', st', im')"
  shows "(rc \<noteq> 1 \<longrightarrow> im' = im \<and> st' = st) \<and>
    (rc = 1 \<longrightarrow> ih_hook_installed h' \<and> ih_installed_driver_base h' = base \<and>
       (im' \<noteq> im \<or> \<not> ih_hook_installed h \<and> im_word im (base + K2161_IDENT_BUILDER_OFFSET) \<noteq> ow_gps_builder ow \<longrightarrow>
          ih_original_gps_builder h' = base + K2161_GPS_BUILDER_OFFSET \<and>
          ih_packet_addparam_blob h' = base + K2161_ADDPARAM_BLOB_OFFSET \<and>
          im_word im' (base + K2161_IDENT_BUILDER_OFFSET) = ow_gps_builder ow))"
  using assms
  by (cases "im_takes im (base + K2161_IDENT_BUILDER_OFFSET)")
    (auto simp: k2161_ident_try_install_base_def Let_def put_word_def split: if_splits)


text \<open>The builder with the patch: the stock parameters, then the component.\<close>

lemma wrapped_builder_eq:
  assumes "ih_original_gps_builder h \<noteq> NULL" "ih_packet_addparam_blob h \<noteq> NULL"
  shows "k2161_wrapped_gps_builder rc blob_rc h (st, pkt) =
    (if rc = -1 then (-1, st, pkt)
     else if blob_rc \<noteq> 0 then (-1, k2161_status_ident_attempt st, pkt)
     else (1, k2161_status_ident_success (k2161_status_ident_attempt st), pkt @ [(0x001e, rgi_component_payload)]))"
  using assms by (simp add: k2161_wrapped_gps_builder_def append_rgi_component_def Let_def)

lemma restore_undoes:
  assumes "k2161_ident_try_install_base ow base zero_ident_hook st im = (1, h, st', im')"
    "im_word im (base + K2161_IDENT_BUILDER_OFFSET) \<noteq> ow_gps_builder ow"
  shows "k2161_ident_restore ow h im' = (1, h\<lparr>ih_hook_installed := False\<rparr>, im)"
proof -
  let ?s = "base + K2161_IDENT_BUILDER_OFFSET"
  have "base \<noteq> 0" "im_word im ?s = base + K2161_GPS_BUILDER_OFFSET" "im' = put_word ?s (ow_gps_builder ow) im"
    "im_word im' ?s = ow_gps_builder ow" "ih_hook_installed h" "ih_gps_builder_slot h = ?s"
    "ih_original_gps_builder h = base + K2161_GPS_BUILDER_OFFSET"
    using assms by (auto simp: k2161_ident_try_install_base_def zero_ident_hook_def Let_def split: if_splits)
  then show ?thesis by (simp add: k2161_ident_restore_def put_word_back)
qed

end
