(* ===== verification/Send_Session.thy ===== *)
theory Send_Session
  imports Send_Hook
begin

text \<open>
  The threads around native/send_hook.c: the stock threads that run the wrapped calls, the retry
  workers, and the thread that receives messages. A step is a region under one lock; what a
  thread carries from one region to the next is in the session: the replies to track, the matched
  replies, the workers to create, the calls of k2161_send_start_route_guidance that have not
  checked the retry state yet, and the one that holds send_lock after its check. The counters of
  native/status.c are increased in the step of the region before them. The clock is the latest
  time that was read under the retry lock; a failed clock_gettime reads 0 at any moment.
  se_claims is the history of the attempts: the generation, the number of the attempt in it and
  the time.
\<close>

record session =
  se_state :: send_state
  se_clock :: u64
  se_tracks :: "(ptr \<times> int \<times> u32) list"
  se_replies :: "(ptr \<times> u32) list"
  se_spawns :: "u32 list"
  se_calls :: "ptr list"
  se_lock :: "ptr option"
  se_claims :: "(u32 \<times> u32 \<times> u64) list"

definition session_init :: session where
  "session_init = \<lparr>se_state = zero_send, se_clock = 0, se_tracks = [], se_replies = [], se_spawns = [],
     se_calls = [], se_lock = None, se_claims = []\<rparr>"

datatype send_op =
    O_reset | O_clear | O_rearm u64 | O_unseen | O_trigger ptr int | O_track nat | O_forget int | O_claim ptr u64
  | O_match int | O_begin nat bool u64 | O_created nat bool | O_check nat | O_drop nat | O_packet stock
  | O_worker nat u64 | O_rx u16 u64

definition pick :: "nat \<Rightarrow> 'a list \<Rightarrow> ('a \<times> 'a list) option" where
  "pick i xs = (if i < length xs then Some (xs ! i, take i xs @ drop (Suc i) xs) else None)"

definition in_state :: "(send_state \<Rightarrow> send_state) \<Rightarrow> session \<Rightarrow> session" where
  "in_state f s = s\<lparr>se_state := f (se_state s)\<rparr>"

definition on_pending :: "(pending_gps_reply list \<Rightarrow> pending_gps_reply list) \<Rightarrow> send_state \<Rightarrow> send_state" where
  "on_pending f s = s\<lparr>ss_pending := f (ss_pending s)\<rparr>"

definition clock_ok :: "u64 \<Rightarrow> session \<Rightarrow> bool" where
  "clock_ok now s \<longleftrightarrow> now = 0 \<or> se_clock s \<le> now"

definition clock_at :: "u64 \<Rightarrow> session \<Rightarrow> u64" where
  "clock_at now s = (if now = 0 then se_clock s else now)"

abbreviation the_retry :: "session \<Rightarrow> retry" where "the_retry s \<equiv> ss_retry (se_state s)"

definition reset_acts :: "send_op \<Rightarrow> session \<Rightarrow> session option" where
  "reset_acts a s = (case a of
     O_reset \<Rightarrow> Some (in_state (on_retry (\<lambda>r. snd (retry_reset r))) s)
   | O_clear \<Rightarrow> Some (in_state (on_status k2161_status_reset \<circ> on_pending pending_clear) s)
   | O_rearm now \<Rightarrow> Some (in_state (on_retry (\<lambda>r. snd (retry_soft_rearm_if_stale now r))) s)
   | O_unseen \<Rightarrow> Some (in_state (on_status (k2161_status_cmd2700 False)) s)
   | O_rx msgid now \<Rightarrow> Some (in_state (on_retry (k2161_send_note_rgi_rx msgid now)) s)
   | _ \<Rightarrow> None)"

definition reply_acts :: "send_op \<Rightarrow> session \<Rightarrow> session option" where
  "reply_acts a s = (case a of
     O_trigger ctx rcvid \<Rightarrow>
       if fst (retry_needs_trigger (the_retry s))
       then Some (s\<lparr>se_tracks := se_tracks s @ [(ctx, rcvid, snd (retry_needs_trigger (the_retry s)))]\<rparr>)
       else None
   | O_track i \<Rightarrow> do {
       ((ctx, rcvid, g), ts) \<leftarrow> pick i (se_tracks s);
       let (tracked, ps) = pending_track ctx rcvid g (ss_pending (se_state s));
       Some (in_state (on_status (k2161_status_cmd2700 tracked) \<circ> on_pending (\<lambda>_. ps)) (s\<lparr>se_tracks := ts\<rparr>)) }
   | O_forget rcvid \<Rightarrow> Some (in_state (on_pending (pending_forget rcvid)) s)
   | O_match rcvid \<Rightarrow> (case pending_match rcvid (ss_pending (se_state s)) of
       (Some (ctx, g), ps) \<Rightarrow>
         if ctx = NULL then Some (in_state (on_pending (\<lambda>_. ps)) s)
         else Some (in_state (on_status k2161_status_ffff_success \<circ> on_pending (\<lambda>_. ps)) (s\<lparr>se_replies := se_replies s @ [(ctx, g)]\<rparr>))
     | _ \<Rightarrow> None)
   | _ \<Rightarrow> None)"

definition attempt_acts :: "send_op \<Rightarrow> session \<Rightarrow> session option" where
  "attempt_acts a s = (case a of
     O_begin i ready now \<Rightarrow> do {
       ((ctx, g), rs) \<leftarrow> pick i (se_replies s);
       let s = s\<lparr>se_replies := rs\<rparr>;
       if \<not> ready then Some s
       else if \<not> clock_ok now s then None
       else (case retry_begin_locked ctx g now (the_retry s) of
           (False, _, r) \<Rightarrow> Some s
         | (True, w, r) \<Rightarrow>
             Some ((in_state (on_retry (\<lambda>_. r)) s)\<lparr>se_clock := clock_at now s, se_calls := se_calls s @ [ctx],
               se_spawns := se_spawns s @ (case w of None \<Rightarrow> [] | Some g \<Rightarrow> [g]),
               se_claims := se_claims s @ [(rt_generation r, rt_attempts r, now)]\<rparr>)) }
   | O_claim ctx now \<Rightarrow>
       if \<not> clock_ok now s then None
       else (case retry_claim_pending ctx now (the_retry s) of
           (None, _) \<Rightarrow> None
         | (Some _, r) \<Rightarrow>
             Some ((in_state (on_retry (\<lambda>_. r)) s)\<lparr>se_clock := clock_at now s, se_calls := se_calls s @ [ctx],
               se_claims := se_claims s @ [(rt_generation r, rt_attempts r, now)]\<rparr>))
   | O_check i \<Rightarrow> do {
       (ctx, cs) \<leftarrow> pick i (se_calls s);
       if se_lock s \<noteq> None then None
       else Some (s\<lparr>se_calls := cs, se_lock := (if send_allowed ctx (the_retry s) then Some ctx else None)\<rparr>) }
   | O_drop i \<Rightarrow> do { (ctx, cs) \<leftarrow> pick i (se_calls s); Some (s\<lparr>se_calls := cs\<rparr>) }
   | O_packet sk \<Rightarrow> do {
       ctx \<leftarrow> se_lock s;
       Some (in_state (\<lambda>st. snd (send_packet sk ctx st)) (s\<lparr>se_lock := None\<rparr>)) }
   | _ \<Rightarrow> None)"

definition worker_acts :: "send_op \<Rightarrow> session \<Rightarrow> session option" where
  "worker_acts a s = (case a of
     O_created i ok \<Rightarrow> do {
       (g, gs) \<leftarrow> pick i (se_spawns s);
       Some (in_state (\<lambda>st. (on_retry (worker_created ok g) st)
                            \<lparr>ss_workers := (if ok then ss_workers st @ [g] else ss_workers st)\<rparr>)
               (s\<lparr>se_spawns := gs\<rparr>)) }
   | O_worker i now \<Rightarrow> do {
       (g, gs) \<leftarrow> pick i (ss_workers (se_state s));
       if \<not> clock_ok now s then None
       else (let (alive, r) = retry_worker g now (the_retry s)
             in Some (in_state (\<lambda>st. (on_retry (\<lambda>_. r) st)\<lparr>ss_workers := (if alive then ss_workers st else gs)\<rparr>)
                       (s\<lparr>se_clock := clock_at now s\<rparr>))) }
   | _ \<Rightarrow> None)"

text \<open>Each operation belongs to one of the four groups.\<close>

definition send_act :: "send_op \<Rightarrow> session \<Rightarrow> session option" where
  "send_act a s = (case a of
     O_reset \<Rightarrow> reset_acts a s | O_clear \<Rightarrow> reset_acts a s | O_rearm _ \<Rightarrow> reset_acts a s | O_unseen \<Rightarrow> reset_acts a s
   | O_rx _ _ \<Rightarrow> reset_acts a s
   | O_trigger _ _ \<Rightarrow> reply_acts a s | O_track _ \<Rightarrow> reply_acts a s | O_forget _ \<Rightarrow> reply_acts a s
   | O_match _ \<Rightarrow> reply_acts a s
   | O_created _ _ \<Rightarrow> worker_acts a s | O_worker _ _ \<Rightarrow> worker_acts a s
   | _ \<Rightarrow> attempt_acts a s)"

fun session_run :: "send_op list \<Rightarrow> session \<Rightarrow> session option" where
  "session_run [] s = Some s"
| "session_run (a # as) s = do { s \<leftarrow> send_act a s; session_run as s }"

inductive session_reach :: "nat \<Rightarrow> session \<Rightarrow> bool" where
  start: "session_reach 0 session_init"
| step: "session_reach n s \<Longrightarrow> send_act a s = Some s' \<Longrightarrow> session_reach (Suc n) s'"

lemma session_run_reach: "session_reach n s \<Longrightarrow> session_run as s = Some s' \<Longrightarrow> session_reach (n + length as) s'"
proof (induction "as" arbitrary: n s)
  case (Cons a "as")
  then obtain s1 where "send_act a s = Some s1" "session_run as s1 = Some s'"
    by (auto simp: bind_eq_Some_conv)
  with Cons.IH [of "Suc n" s1] Cons.prems(1) show ?case by (auto intro: session_reach.step)
qed simp

end
