(* ===== verification/Send_Props.thy ===== *)
theory Send_Props
  imports Send_Session
begin

text \<open>
  The invariant of the threads around the request 0x5200: the generations, the one worker, the
  retry state against the history of the attempts, and the messages against that history.
\<close>

section \<open>The invariant\<close>

text \<open>Two attempts that follow each other: in one generation the next number, after the retry time.\<close>

fun claim_step :: "u32 \<times> u32 \<times> u64 \<Rightarrow> u32 \<times> u32 \<times> u64 \<Rightarrow> bool" where
  "claim_step (g, a, t) (g', a', t') \<longleftrightarrow>
     (if g' = g then a' = a + 1 \<and> t \<noteq> 0 \<and> (t' = 0 \<or> t \<le> t' \<and> rt_retry_ms a \<le> t' - t)
      else g < g' \<and> a' = 1)"

fun claims_ok :: "(u32 \<times> u32 \<times> u64) list \<Rightarrow> bool" where
  "claims_ok [] \<longleftrightarrow> True"
| "claims_ok [c] \<longleftrightarrow> fst (snd c) = 1"
| "claims_ok (c # d # cs) \<longleftrightarrow> claim_step d c \<and> claims_ok (d # cs)"

definition workers :: "session \<Rightarrow> u32 list" where
  "workers s = se_spawns s @ ss_workers (se_state s)"

definition worker_inv :: "nat \<Rightarrow> session \<Rightarrow> bool" where
  "worker_inv n s \<longleftrightarrow> (let r = the_retry s in
     rt_generation r \<noteq> 0 \<and> unat (rt_generation r) \<le> Suc n \<and>
     (\<forall>g\<in>set (workers s). g \<le> rt_generation r) \<and>
     count_list (workers s) (rt_generation r) = of_bool (rt_running r))"

definition retry_inv :: "nat \<Rightarrow> session \<Rightarrow> bool" where
  "retry_inv n s \<longleftrightarrow> (let r = the_retry s in
     unat (rt_attempts r) \<le> n \<and>
     (rt_need r \<longrightarrow> rt_enabled r \<and> rt_last_5200 r \<noteq> 0 \<and> rt_last_5200 r \<le> se_clock s \<and>
        rt_retry_ms (rt_attempts r) \<le> se_clock s - rt_last_5200 r) \<and>
     (rt_enabled r \<longrightarrow> \<not> rt_got r \<and> rt_ctx r \<noteq> NULL \<and> se_claims s \<noteq> [] \<and>
        last (se_claims s) = (rt_generation r, rt_attempts r, rt_last_5200 r)) \<and>
     (\<forall>c\<in>set (se_claims s). fst c \<le> rt_generation r) \<and>
     (rt_attempts r = 0 \<longrightarrow> (\<forall>c\<in>set (se_claims s). fst c < rt_generation r)) \<and>
     claims_ok (rev (se_claims s)))"

definition sent_inv :: "session \<Rightarrow> bool" where
  "sent_inv s \<longleftrightarrow> (let st = se_state s in
     length (ss_sent st) + length (se_calls s) + (if se_lock s = None then 0 else 1) \<le> length (se_claims s) \<and>
     NULL \<notin> set (se_calls s) \<and> se_lock s \<noteq> Some NULL \<and> NULL \<notin> fst ` set (se_replies s) \<and>
     (\<forall>m\<in>set (ss_sent st). \<exists>ctx. ctx \<noteq> NULL \<and> m = (ctx, 0x5200, start_message_params)) \<and>
     length (ss_pending st) = 8 \<and>
     st_send_attempted (ss_status st) = st_send_succeeded (ss_status st) + st_send_failed (ss_status st))"

section \<open>Helpers\<close>

lemma next_generation_bound:
  "unat g \<le> n \<Longrightarrow> n < 0xFFFFFFFF \<Longrightarrow> unat (next_generation g) = Suc (unat g)"
  unfolding next_generation_def Let_def by (auto simp: unat_word_ariths unat_eq_0 [symmetric])

lemma pick_Some: "pick i xs = Some (x, ys) \<longleftrightarrow> i < length xs \<and> x = xs ! i \<and> ys = take i xs @ drop (Suc i) xs"
  by (auto simp: pick_def)

lemma pick_split:
  assumes "pick i xs = Some (x, ys)"
  obtains as bs where "xs = as @ x # bs" "ys = as @ bs"
proof
  show "xs = take i xs @ x # drop (Suc i) xs"
    using assms by (simp only: pick_Some id_take_nth_drop [symmetric])
  show "ys = take i xs @ drop (Suc i) xs" using assms by (simp add: pick_Some)
qed

lemma pick_mem: "pick i xs = Some (x, ys) \<Longrightarrow> x \<in> set xs"
  by (auto simp: pick_Some)

lemma pick_sub: "pick i xs = Some (x, ys) \<Longrightarrow> set ys \<subseteq> set xs \<and> length xs = Suc (length ys)"
  by (erule pick_split) auto

lemma count_list_none: "\<forall>g\<in>set gs. g < (G :: u32) \<Longrightarrow> count_list gs G = 0"
  by (auto simp: count_list_0_iff)

lemma Suc_of_bool: "Suc k = of_bool b \<longleftrightarrow> b \<and> k = 0"
  by (cases b) auto

lemma clock_replies [simp]: "clock_ok now (s\<lparr>se_replies := rs\<rparr>) = clock_ok now s"
    "clock_at now (s\<lparr>se_replies := rs\<rparr>) = clock_at now s"
  by (simp_all add: clock_ok_def clock_at_def)

lemmas act_defs = send_act_def reset_acts_def reply_acts_def attempt_acts_def worker_acts_def

text \<open>The operations, one rule each: what the step does to the session.\<close>

lemma send_act_cases [consumes 1, case_names reset clear rearm unseen rx trigger track forget match first refuse claim
    check drop packet created worker]:
  assumes "send_act a s = Some s'"
    "a = O_reset \<Longrightarrow> s' = in_state (on_retry (\<lambda>r. snd (retry_reset r))) s \<Longrightarrow> P"
    "a = O_clear \<Longrightarrow> s' = in_state (on_status k2161_status_reset \<circ> on_pending pending_clear) s \<Longrightarrow> P"
    "\<And>now. a = O_rearm now \<Longrightarrow> s' = in_state (on_retry (\<lambda>r. snd (retry_soft_rearm_if_stale now r))) s \<Longrightarrow> P"
    "a = O_unseen \<Longrightarrow> s' = in_state (on_status (k2161_status_cmd2700 False)) s \<Longrightarrow> P"
    "\<And>msgid now. a = O_rx msgid now \<Longrightarrow> s' = in_state (on_retry (k2161_send_note_rgi_rx msgid now)) s \<Longrightarrow> P"
    "\<And>ctx rcvid g. a = O_trigger ctx rcvid \<Longrightarrow> retry_needs_trigger (the_retry s) = (True, g) \<Longrightarrow>
       s' = s\<lparr>se_tracks := se_tracks s @ [(ctx, rcvid, g)]\<rparr> \<Longrightarrow> P"
    "\<And>i ctx rcvid g ts tracked ps. a = O_track i \<Longrightarrow> pick i (se_tracks s) = Some ((ctx, rcvid, g), ts) \<Longrightarrow>
       pending_track ctx rcvid g (ss_pending (se_state s)) = (tracked, ps) \<Longrightarrow>
       s' = in_state (on_status (k2161_status_cmd2700 tracked) \<circ> on_pending (\<lambda>_. ps)) (s\<lparr>se_tracks := ts\<rparr>) \<Longrightarrow> P"
    "\<And>rcvid. a = O_forget rcvid \<Longrightarrow> s' = in_state (on_pending (pending_forget rcvid)) s \<Longrightarrow> P"
    "\<And>rcvid ctx g ps. a = O_match rcvid \<Longrightarrow> pending_match rcvid (ss_pending (se_state s)) = (Some (ctx, g), ps) \<Longrightarrow>
       s' = (if ctx = NULL then in_state (on_pending (\<lambda>_. ps)) s
             else in_state (on_status k2161_status_ffff_success \<circ> on_pending (\<lambda>_. ps))
               (s\<lparr>se_replies := se_replies s @ [(ctx, g)]\<rparr>)) \<Longrightarrow> P"
    "\<And>i ready now ctx g rs b w r. a = O_begin i ready now \<Longrightarrow> pick i (se_replies s) = Some ((ctx, g), rs) \<Longrightarrow>
       ready \<Longrightarrow> clock_ok now s \<Longrightarrow> retry_begin_locked ctx g now (the_retry s) = (b, w, r) \<Longrightarrow>
       s' = (if b then (in_state (on_retry (\<lambda>_. r)) (s\<lparr>se_replies := rs\<rparr>))\<lparr>se_clock := clock_at now s,
               se_calls := se_calls s @ [ctx], se_spawns := se_spawns s @ (case w of None \<Rightarrow> [] | Some g \<Rightarrow> [g]),
               se_claims := se_claims s @ [(rt_generation r, rt_attempts r, now)]\<rparr>
             else s\<lparr>se_replies := rs\<rparr>) \<Longrightarrow> P"
    "\<And>i now ctx g rs. a = O_begin i False now \<Longrightarrow> pick i (se_replies s) = Some ((ctx, g), rs) \<Longrightarrow>
       s' = s\<lparr>se_replies := rs\<rparr> \<Longrightarrow> P"
    "\<And>ctx now k r. a = O_claim ctx now \<Longrightarrow> clock_ok now s \<Longrightarrow>
       retry_claim_pending ctx now (the_retry s) = (Some k, r) \<Longrightarrow>
       s' = (in_state (on_retry (\<lambda>_. r)) s)\<lparr>se_clock := clock_at now s, se_calls := se_calls s @ [ctx],
               se_claims := se_claims s @ [(rt_generation r, rt_attempts r, now)]\<rparr> \<Longrightarrow> P"
    "\<And>i ctx cs. a = O_check i \<Longrightarrow> pick i (se_calls s) = Some (ctx, cs) \<Longrightarrow> se_lock s = None \<Longrightarrow>
       s' = s\<lparr>se_calls := cs, se_lock := (if send_allowed ctx (the_retry s) then Some ctx else None)\<rparr> \<Longrightarrow> P"
    "\<And>i ctx cs. a = O_drop i \<Longrightarrow> pick i (se_calls s) = Some (ctx, cs) \<Longrightarrow> s' = s\<lparr>se_calls := cs\<rparr> \<Longrightarrow> P"
    "\<And>sk ctx. a = O_packet sk \<Longrightarrow> se_lock s = Some ctx \<Longrightarrow>
       s' = in_state (\<lambda>st. snd (send_packet sk ctx st)) (s\<lparr>se_lock := None\<rparr>) \<Longrightarrow> P"
    "\<And>i ok g gs. a = O_created i ok \<Longrightarrow> pick i (se_spawns s) = Some (g, gs) \<Longrightarrow>
       s' = in_state (\<lambda>st. (on_retry (worker_created ok g) st)
              \<lparr>ss_workers := (if ok then ss_workers st @ [g] else ss_workers st)\<rparr>) (s\<lparr>se_spawns := gs\<rparr>) \<Longrightarrow> P"
    "\<And>i now g gs alive r. a = O_worker i now \<Longrightarrow> pick i (ss_workers (se_state s)) = Some (g, gs) \<Longrightarrow>
       clock_ok now s \<Longrightarrow> retry_worker g now (the_retry s) = (alive, r) \<Longrightarrow>
       s' = in_state (\<lambda>st. (on_retry (\<lambda>_. r) st)\<lparr>ss_workers := (if alive then ss_workers st else gs)\<rparr>)
              (s\<lparr>se_clock := clock_at now s\<rparr>) \<Longrightarrow> P"
  shows P
proof (cases a)
  case O_reset with assms show ?thesis by (simp add: act_defs)
next
  case O_clear with assms show ?thesis by (simp add: act_defs)
next
  case (O_rearm now) with assms show ?thesis by (simp add: act_defs)
next
  case O_unseen with assms show ?thesis by (simp add: act_defs)
next
  case (O_rx m now) with assms show ?thesis by (simp add: act_defs)
next
  case (O_trigger ctx rcvid) with assms(1,7) show ?thesis
    by (cases "retry_needs_trigger (the_retry s)") (simp add: act_defs split: if_splits)
next
  case (O_track i) with assms(1) obtain ctx rcvid g ts
    where p: "pick i (se_tracks s) = Some ((ctx, rcvid, g), ts)"
    by (auto simp: act_defs bind_eq_Some_conv)
  with O_track assms(1) have "s' = in_state (on_status (k2161_status_cmd2700 (fst (pending_track ctx rcvid g
      (ss_pending (se_state s))))) \<circ> on_pending (\<lambda>_. snd (pending_track ctx rcvid g (ss_pending (se_state s)))))
      (s\<lparr>se_tracks := ts\<rparr>)"
    by (simp add: act_defs case_prod_unfold Let_def)
  with assms(8) [OF O_track p prod.collapse [symmetric]] show ?thesis by blast
next
  case (O_forget rcvid) with assms show ?thesis by (simp add: act_defs)
next
  case (O_match rcvid) with assms(1,10) show ?thesis
    by (auto simp: act_defs split: prod.splits option.splits if_splits)
next
  case (O_begin i ready now)
  with assms(1) obtain ctx g rs where p: "pick i (se_replies s) = Some ((ctx, g), rs)"
    by (auto simp: act_defs bind_eq_Some_conv)
  obtain b w r where q: "retry_begin_locked ctx g now (the_retry s) = (b, w, r)" by (metis prod_cases3)
  show ?thesis
  proof (cases ready)
    case True
    with O_begin assms(1) p q have "clock_ok now s"
      by (cases "clock_ok now s") (simp_all add: act_defs Let_def)
    with True O_begin assms(1) p q show ?thesis
      by (intro assms(11) [OF O_begin p True _ q]) (auto simp: act_defs Let_def split: bool.splits)
  next
    case False
    with O_begin assms(1) p show ?thesis by (intro assms(12) [of i now ctx g rs]) (simp_all add: act_defs Let_def)
  qed
next
  case (O_claim ctx now) with assms(1,13) show ?thesis
    by (auto simp: act_defs split: prod.splits if_splits option.splits)
next
  case (O_check i) with assms(1,14) show ?thesis
    by (auto simp: act_defs bind_eq_Some_conv split: if_splits)
next
  case (O_drop i) with assms(1,15) show ?thesis by (auto simp: act_defs bind_eq_Some_conv)
next
  case (O_packet sk) with assms(1,16) show ?thesis by (auto simp: act_defs bind_eq_Some_conv)
next
  case (O_created i ok) with assms(1,17) show ?thesis by (auto simp: act_defs bind_eq_Some_conv)
next
  case (O_worker i now) with assms(1,18) show ?thesis
    by (auto simp: act_defs bind_eq_Some_conv split: prod.splits if_splits)
qed

text \<open>What the retry operations do to the fields that the invariant speaks of.\<close>

lemma retry_worker_cases:
  assumes "retry_worker g now r = (alive, r')"
  shows "g \<noteq> rt_generation r \<and> \<not> alive \<and> r' = r \<or>
    g = rt_generation r \<and> \<not> alive \<and> (\<not> rt_enabled r \<or> rt_ctx r = NULL) \<and> r' = r\<lparr>rt_running := False\<rparr> \<or>
    g = rt_generation r \<and> \<not> alive \<and> rt_got r \<and> rt_enabled r \<and>
      r' = r\<lparr>rt_enabled := False, rt_need := False, rt_ctx := NULL, rt_running := False\<rparr> \<or>
    g = rt_generation r \<and> alive \<and> rt_enabled r \<and> rt_ctx r \<noteq> NULL \<and> \<not> rt_got r \<and> \<not> rt_need r \<and>
      now \<noteq> 0 \<and> rt_last_5200 r \<noteq> 0 \<and> rt_last_5200 r \<le> now \<and> rt_retry_ms (rt_attempts r) \<le> now - rt_last_5200 r \<and>
      r' = r\<lparr>rt_need := True\<rparr> \<or>
    g = rt_generation r \<and> alive \<and> rt_enabled r \<and> rt_ctx r \<noteq> NULL \<and> \<not> rt_got r \<and> r' = r"
  using assms unfolding retry_worker_def by (simp split: if_split_asm)

lemma retry_worker_keeps:
  assumes "retry_worker g now r = (alive, r')"
  shows "rt_generation r' = rt_generation r" "rt_running r' = (rt_running r \<and> (alive \<or> g \<noteq> rt_generation r))"
  using retry_worker_cases [OF assms] by auto

lemma retry_begin_cases:
  assumes "retry_begin_locked ctx g now r = (b, w, r')"
  shows "\<not> b \<and> w = None \<and> r' = r \<or>
    b \<and> g = rt_generation r \<and> \<not> rt_got r \<and> \<not> rt_enabled r \<and> rt_attempts r = 0 \<and>
    w = (if rt_running r then None else Some g) \<and>
    r' = r\<lparr>rt_ctx := ctx, rt_enabled := True, rt_need := False, rt_attempts := 1, rt_last_5200 := now,
            rt_running := True\<rparr>"
  using assms by (cases r) (auto simp: retry_begin_locked_def Let_def split: if_split_asm)

lemma retry_claim_cases:
  "retry_claim_pending ctx now r = (Some k, r') \<longleftrightarrow>
    rt_enabled r \<and> \<not> rt_got r \<and> rt_need r \<and> rt_ctx r = ctx \<and> k = rt_attempts r + 1 \<and>
    r' = r\<lparr>rt_need := False, rt_attempts := rt_attempts r + 1, rt_last_5200 := now\<rparr>"
  by (auto simp: retry_claim_pending_def)

lemma retry_rx_cases:
  "k2161_send_note_rgi_rx msgid now r = r \<or>
   k2161_send_note_rgi_rx msgid now r = r\<lparr>rt_last_rx := now\<rparr> \<and> rt_got r \<or>
   (\<exists>rx soft. k2161_send_note_rgi_rx msgid now r = r\<lparr>rt_last_rx := rx, rt_got := True, rt_need := False,
      rt_enabled := False, rt_ctx := NULL, rt_last_5200 := now, rt_soft := soft\<rparr>)"
proof (cases r)
  case (fields a b c d e f g h i j)
  show ?thesis
    by (cases "msgid \<noteq> 0x5201 \<and> msgid \<noteq> 0x5202 \<and> msgid \<noteq> 0x5204"; cases d; cases "now = 0")
      (auto simp: fields k2161_send_note_rgi_rx_def Let_def retry_is_soft_rearm_generation_def)
qed

lemma retry_rearm_cases:
  "snd (retry_soft_rearm_if_stale now r) = r \<or> (\<exists>soft. snd (retry_soft_rearm_if_stale now r) = rearmed soft r)"
  by (auto simp: retry_soft_rearm_if_stale_def Let_def)

lemma retry_reset_is: "snd (retry_reset r) = rearmed 0 r"
  by (simp add: retry_reset_def Let_def)


section \<open>The workers\<close>

definition same_workers :: "session \<Rightarrow> session \<Rightarrow> bool" where
  "same_workers s s' \<longleftrightarrow> rt_generation (the_retry s') = rt_generation (the_retry s) \<and>
     rt_running (the_retry s') = rt_running (the_retry s) \<and> workers s' = workers s"

lemma worker_inv_same: "worker_inv n s \<Longrightarrow> same_workers s s' \<Longrightarrow> worker_inv (Suc n) s'"
  by (auto simp: worker_inv_def same_workers_def Let_def)

lemma worker_inv_gone:
  assumes "worker_inv n s" "workers s = as @ g # bs" "workers s' = as @ bs"
    "rt_generation (the_retry s') = rt_generation (the_retry s)"
    "rt_running (the_retry s') = (rt_running (the_retry s) \<and> g \<noteq> rt_generation (the_retry s))"
  shows "worker_inv (Suc n) s'"
  using assms by (auto simp: worker_inv_def Let_def Suc_of_bool split: if_splits)

lemma worker_inv_moved:
  assumes "worker_inv n s" "workers s = as @ g # bs" "workers s' = as @ bs @ [g]"
    "rt_generation (the_retry s') = rt_generation (the_retry s)" "rt_running (the_retry s') = rt_running (the_retry s)"
  shows "worker_inv (Suc n) s'"
  using assms by (auto simp: worker_inv_def Let_def)

lemma worker_inv_rearmed:
  assumes "worker_inv n s" "n < 0xFFFFFFFE" "the_retry s' = rearmed soft (the_retry s)" "workers s' = workers s"
  shows "worker_inv (Suc n) s'"
proof -
  define G where "G = next_generation (rt_generation (the_retry s))"
  have G: "unat G = Suc (unat (rt_generation (the_retry s)))" "rt_generation (the_retry s) < G"
    using assms(1,2) next_generation_bound [of "rt_generation (the_retry s)" "Suc n"]
    by (auto simp: worker_inv_def Let_def G_def word_less_nat_alt)
  moreover have "\<forall>g\<in>set (workers s). g < G"
    using assms(1) G(2) by (auto simp: worker_inv_def Let_def)
  ultimately show ?thesis
    using assms by (auto simp: worker_inv_def Let_def rearmed_def G_def [symmetric] count_list_none)
qed

lemma worker_inv_step:
  assumes "send_act a s = Some s'" "worker_inv n s" "n < 0xFFFFFFFE"
  shows "worker_inv (Suc n) s'"
  using assms(1)
proof (cases rule: send_act_cases)
  case reset
  then show ?thesis
    by (intro worker_inv_rearmed [OF assms(2,3)]) (simp_all add: in_state_def on_retry_def retry_reset_is workers_def)
next
  case (rearm now)
  then consider "the_retry s' = the_retry s" | soft where "the_retry s' = rearmed soft (the_retry s)"
    using retry_rearm_cases [of now "the_retry s"] by (auto simp: in_state_def on_retry_def)
  moreover have "workers s' = workers s" using rearm by (simp add: in_state_def on_retry_def workers_def)
  ultimately show ?thesis
    by cases (auto intro: worker_inv_rearmed [OF assms(2,3)] worker_inv_same [OF assms(2)] simp: same_workers_def)
next
  case (rx msgid now)
  then show ?thesis using retry_rx_cases [of msgid now "the_retry s"]
    by (intro worker_inv_same [OF assms(2)]) (auto simp: same_workers_def in_state_def on_retry_def workers_def)
next
  case (first i ready now ctx g rs b w r)
  from retry_begin_cases [OF first(5)] show ?thesis
  proof
    assume "b \<and> g = rt_generation (the_retry s) \<and> \<not> rt_got (the_retry s) \<and> \<not> rt_enabled (the_retry s) \<and>
      rt_attempts (the_retry s) = 0 \<and> w = (if rt_running (the_retry s) then None else Some g) \<and>
      r = (the_retry s)\<lparr>rt_ctx := ctx, rt_enabled := True, rt_need := False, rt_attempts := 1,
        rt_last_5200 := now, rt_running := True\<rparr>"
    with first assms(2) show ?thesis
      by (auto simp: worker_inv_def Let_def workers_def in_state_def on_retry_def)
  qed (use first assms(2) in \<open>auto simp: worker_inv_def Let_def workers_def\<close>)
next
  case (claim ctx now k r)
  then show ?thesis
    by (intro worker_inv_same [OF assms(2)]) (auto simp: same_workers_def in_state_def on_retry_def workers_def retry_claim_cases)
next
  case (created i ok g gs)
  from pick_split [OF created(2)] show ?thesis
  proof cases
    case (1 as bs)
    show ?thesis
    proof (cases ok)
      case True
      with 1 created show ?thesis
        by (intro worker_inv_moved [OF assms(2), of as g "bs @ ss_workers (se_state s)"])
          (simp_all add: workers_def in_state_def on_retry_def worker_created_def)
    next
      case False
      with 1 created show ?thesis
        by (intro worker_inv_gone [OF assms(2), of as g "bs @ ss_workers (se_state s)"])
          (simp_all add: workers_def in_state_def on_retry_def worker_created_def)
    qed
  qed
next
  case (worker i now g gs alive r)
  have gone: "workers s' = se_spawns s @ gs" if "\<not> alive"
    using worker that by (simp add: workers_def in_state_def on_retry_def)
  from pick_split [OF worker(2)] show ?thesis
  proof cases
    case (1 as bs)
    note leave = worker_inv_gone [OF assms(2), of "se_spawns s @ as" g bs]
    have W: "workers s = (se_spawns s @ as) @ g # bs" using 1 by (simp add: workers_def)
    show ?thesis
    proof (cases alive)
      case True
      with worker retry_worker_keeps [OF worker(4)] show ?thesis
        by (intro worker_inv_same [OF assms(2)]) (simp add: same_workers_def in_state_def on_retry_def workers_def)
    next
      case False
      with worker gone 1 W retry_worker_keeps [OF worker(4)] show ?thesis
        by (intro leave) (simp_all add: in_state_def on_retry_def)
    qed
  qed
qed (rule worker_inv_same [OF assms(2)], simp add: same_workers_def in_state_def on_retry_def on_pending_def
  on_status_def workers_def send_packet_def Let_def)+


section \<open>The retry state and the history\<close>

lemma clock_grows: "clock_ok now s \<Longrightarrow> se_clock s \<le> clock_at now s"
  by (auto simp: clock_ok_def clock_at_def)

lemma retry_inv_same:
  "retry_inv n s \<Longrightarrow> the_retry s' = the_retry s \<Longrightarrow> se_claims s' = se_claims s \<Longrightarrow> se_clock s' = se_clock s \<Longrightarrow>
    retry_inv (Suc n) s'"
  by (auto simp: retry_inv_def Let_def)

lemma later: "(x :: u64) \<le> c \<Longrightarrow> k \<le> c - x \<Longrightarrow> c \<le> d \<Longrightarrow> x \<le> d \<and> k \<le> d - x"
  by (auto simp: word_le_nat_alt unat_sub)

lemma retry_inv_later:
  assumes "retry_inv n s" "the_retry s' = the_retry s" "se_claims s' = se_claims s" "se_clock s \<le> se_clock s'"
  shows "retry_inv (Suc n) s'"
proof -
  let ?r = "the_retry s"
  have "rt_need ?r \<Longrightarrow> rt_last_5200 ?r \<le> se_clock s' \<and> rt_retry_ms (rt_attempts ?r) \<le> se_clock s' - rt_last_5200 ?r"
    using assms(1) later [OF _ _ assms(4), of "rt_last_5200 ?r" "rt_retry_ms (rt_attempts ?r)"] by (simp add: retry_inv_def Let_def)
  with assms(1-3) show ?thesis by (auto simp: retry_inv_def Let_def)
qed

lemma retry_inv_rearmed:
  assumes "retry_inv n s" "worker_inv n s" "n < 0xFFFFFFFE" "the_retry s' = rearmed soft (the_retry s)"
    "se_claims s' = se_claims s"
  shows "retry_inv (Suc n) s'"
proof -
  have "rt_generation (the_retry s) < next_generation (rt_generation (the_retry s))"
    using assms(2,3) next_generation_bound [of "rt_generation (the_retry s)" "Suc n"]
    by (auto simp: worker_inv_def Let_def word_less_nat_alt)
  with assms show ?thesis by (auto simp: retry_inv_def Let_def rearmed_def)
qed

lemma claims_ok_begin:
  assumes "claims_ok (rev cs)" "\<forall>c\<in>set cs. fst c < g"
  shows "claims_ok (rev (cs @ [(g, 1, now)]))"
  using assms by (cases "rev cs") (auto simp: claims_ok.simps dest: arg_cong [of _ _ set])

lemma claims_ok_next:
  assumes "claims_ok (rev cs)" "cs \<noteq> []" "last cs = (g, a, t)" "t \<noteq> 0" "now = 0 \<or> t \<le> now \<and> rt_retry_ms a \<le> now - t"
  shows "claims_ok (rev (cs @ [(g, a + 1, now)]))"
proof -
  obtain ds where "cs = ds @ [(g, a, t)]" using assms(2,3) by (metis append_butlast_last_id)
  with assms show ?thesis by auto
qed

lemma retry_inv_step:
  assumes "send_act a s = Some s'" "retry_inv n s" "worker_inv n s" "n < 0xFFFFFFFE" "sent_inv s"
  shows "retry_inv (Suc n) s'"
  using assms(1)
proof (cases rule: send_act_cases)
  case reset
  then show ?thesis
    by (intro retry_inv_rearmed [OF assms(2,3,4)]) (simp_all add: in_state_def on_retry_def retry_reset_is)
next
  case (rearm now)
  then consider "the_retry s' = the_retry s" | soft where "the_retry s' = rearmed soft (the_retry s)"
    using retry_rearm_cases [of now "the_retry s"] by (auto simp: in_state_def on_retry_def)
  moreover have "se_claims s' = se_claims s" "se_clock s' = se_clock s" using rearm by (simp_all add: in_state_def)
  ultimately show ?thesis
    by cases (auto intro: retry_inv_rearmed [OF assms(2,3,4)] retry_inv_same [OF assms(2)])
next
  case (rx msgid now)
  then show ?thesis using assms(2) retry_rx_cases [of msgid now "the_retry s"]
    by (auto simp: retry_inv_def Let_def in_state_def on_retry_def)
next
  case (first i ready now ctx g rs b w r)
  show ?thesis
  proof (cases b)
    case True
    let ?r = "the_retry s"
    have r: "rt_attempts ?r = 0" "r = ?r\<lparr>rt_ctx := ctx, rt_enabled := True, rt_need := False, rt_attempts := 1,
        rt_last_5200 := now, rt_running := True\<rparr>" "\<not> rt_got ?r"
      using True retry_begin_cases [OF first(5)] by auto
    have ctx: "ctx \<noteq> NULL" using assms(5) pick_mem [OF first(2)] by (force simp: sent_inv_def Let_def)
    have old: "\<forall>c\<in>set (se_claims s). fst c < rt_generation ?r" "claims_ok (rev (se_claims s))"
      using assms(2) r(1) by (simp_all add: retry_inv_def Let_def)
    have new: "the_retry s' = r" "se_claims s' = se_claims s @ [(rt_generation ?r, 1, now)]"
      using first(6) True r(2) by (simp_all add: in_state_def on_retry_def)
    show ?thesis
      using old claims_ok_begin [OF old(2,1), of now] ctx r(3)
      unfolding retry_inv_def Let_def new by (auto simp: r(2) less_imp_le)
  next
    case False
    with first show ?thesis by (intro retry_inv_same [OF assms(2)]) simp_all
  qed
next
  case (claim ctx now k r)
  let ?r = "the_retry s"
  from claim(3) have r: "rt_enabled ?r" "\<not> rt_got ?r" "rt_need ?r"
    "r = ?r\<lparr>rt_need := False, rt_attempts := rt_attempts ?r + 1, rt_last_5200 := now\<rparr>"
    by (simp_all add: retry_claim_cases)
  have old: "unat (rt_attempts ?r) \<le> n" "rt_ctx ?r \<noteq> NULL" "se_claims s \<noteq> []"
    "last (se_claims s) = (rt_generation ?r, rt_attempts ?r, rt_last_5200 ?r)" "rt_last_5200 ?r \<noteq> 0"
    "\<forall>c\<in>set (se_claims s). fst c \<le> rt_generation ?r" "claims_ok (rev (se_claims s))"
    and due: "rt_last_5200 ?r \<le> se_clock s" "rt_retry_ms (rt_attempts ?r) \<le> se_clock s - rt_last_5200 ?r"
    using assms(2) r(1,3) by (simp_all add: retry_inv_def Let_def)
  have "now = 0 \<or> rt_last_5200 ?r \<le> now \<and> rt_retry_ms (rt_attempts ?r) \<le> now - rt_last_5200 ?r"
    using claim(2) later [OF due] by (auto simp: clock_ok_def)
  note ok = claims_ok_next [OF old(7,3,4,5) this]
  have a: "unat (rt_attempts ?r + 1) = Suc (unat (rt_attempts ?r))"
    using old(1) assms(4) by (simp add: unat_word_ariths)
  then have a0: "rt_attempts ?r + 1 \<noteq> 0" by (metis nat.distinct(1) unat_0)
  have new: "the_retry s' = r" "se_claims s' = se_claims s @ [(rt_generation ?r, rt_attempts ?r + 1, now)]"
    using claim(4) r(4) by (simp_all add: in_state_def on_retry_def)
  show ?thesis
    using old(1,2,6) ok r(1,2) a a0 unfolding retry_inv_def Let_def new by (simp add: r(4))
next
  case (created i ok g gs)
  then show ?thesis using assms(2)
    by (auto simp: retry_inv_def Let_def in_state_def on_retry_def worker_created_def)
next
  case (worker i now g gs alive r)
  let ?r = "the_retry s"
  have new: "the_retry s' = r" "se_claims s' = se_claims s" "se_clock s' = clock_at now s"
    using worker(5) by (simp_all add: in_state_def on_retry_def)
  show ?thesis
  proof (cases "r = ?r")
    case True
    with new clock_grows [OF worker(3)] show ?thesis by (intro retry_inv_later [OF assms(2)]) simp_all
  next
    case False
    define s0 where "s0 = s\<lparr>se_clock := clock_at now s\<rparr>"
    have s0: "retry_inv (Suc n) s0" "the_retry s0 = ?r" "se_claims s0 = se_claims s" "se_clock s0 = clock_at now s"
      using retry_inv_later [OF assms(2), of s0] clock_grows [OF worker(3)] by (simp_all add: s0_def)
    from retry_worker_cases [OF worker(4)] False s0 show ?thesis
      unfolding retry_inv_def Let_def new by (elim disjE conjE) (simp_all add: clock_at_def)
  qed
qed (rule retry_inv_same [OF assms(2)]; simp add: in_state_def on_retry_def on_pending_def
  on_status_def send_packet_def Let_def)+


section \<open>The messages against the history\<close>

lemma length_pending_track: "length (snd (pending_track ctx rcvid g ps)) = length ps"
  by (induction ps) (auto split: prod.splits)

lemma length_pending_match: "length (snd (pending_match rcvid ps)) = length ps"
  by (induction ps) (auto split: prod.splits)

lemma length_pending [simp]: "length (pending_clear ps) = length ps" "length (pending_forget rcvid ps) = length ps"
  by (simp_all add: pending_clear_def pending_forget_def)

lemma send_packet_cases:
  obtains rc where "send_packet sk ctx st = (rc, on_status (k2161_status_send_result False \<circ> k2161_status_send_attempt) st)"
  | rc ok sent where "send_packet sk ctx st = (rc, on_status (k2161_status_send_result ok \<circ> k2161_status_send_attempt)
      (st\<lparr>ss_start_sent := sent\<rparr>))"
  | rc ok sent where "send_packet sk ctx st = (rc, on_status (k2161_status_send_result ok \<circ> k2161_status_send_attempt)
      (st\<lparr>ss_start_sent := sent, ss_sent := ss_sent st @ [(ctx, 0x5200, start_message_params)]\<rparr>))"
proof -
  define ok where "ok \<longleftrightarrow> sk_p0 sk = 0 \<and> sk_p1 sk = 0 \<and> sk_p2 sk = 0 \<and> sk_p3 sk = 0"
  note packet = send_packet_def [of sk ctx st, unfolded Let_def, folded ok_def]
  show ?thesis
  proof (cases "sk_pkt sk = NULL")
    case True
    then show ?thesis by (intro that(1) [of "-1"]) (simp add: send_packet_def on_status_def)
  next
    case pkt: False
    show ?thesis
    proof (cases ok)
      case True
      with pkt show ?thesis
        by (intro that(3) [of "sk_send sk" "sk_send sk = 0" "ss_start_sent st \<or> sk_send sk = 0"])
          (simp add: packet on_status_def)
    next
      case False
      with pkt show ?thesis
        by (intro that(2) [of "-1" False "ss_start_sent st"]) (simp add: packet on_status_def)
    qed
  qed
qed

lemma status_counts [simp]:
  "st_send_attempted (k2161_status_reset st) = st_send_attempted st"
  "st_send_succeeded (k2161_status_reset st) = st_send_succeeded st"
  "st_send_failed (k2161_status_reset st) = st_send_failed st"
  "st_send_attempted (k2161_status_cmd2700 t st) = st_send_attempted st"
  "st_send_succeeded (k2161_status_cmd2700 t st) = st_send_succeeded st"
  "st_send_failed (k2161_status_cmd2700 t st) = st_send_failed st"
  "st_send_attempted (k2161_status_ffff_success st) = st_send_attempted st"
  "st_send_succeeded (k2161_status_ffff_success st) = st_send_succeeded st"
  "st_send_failed (k2161_status_ffff_success st) = st_send_failed st"
  by (simp_all add: k2161_status_reset_def k2161_status_cmd2700_def k2161_status_ffff_success_def Let_def)

lemma status_balance:
  assumes "st_send_attempted st = st_send_succeeded st + st_send_failed st"
    "st' = k2161_status_send_result ok (k2161_status_send_attempt st)"
  shows "st_send_attempted st' = st_send_succeeded st' + st_send_failed st'"
  using assms by (auto simp: k2161_status_send_result_def k2161_status_send_attempt_def)

lemma sent_inv_step:
  assumes "send_act a s = Some s'" "sent_inv s" "retry_inv n s"
  shows "sent_inv s'"
  using assms(1)
proof (cases rule: send_act_cases)
  case (track i ctx rcvid g ts tracked ps)
  then show ?thesis using assms(2) length_pending_track [of ctx rcvid g "ss_pending (se_state s)"]
    by (auto simp: sent_inv_def Let_def in_state_def on_status_def on_pending_def)
next
  case (match rcvid ctx g ps)
  then show ?thesis using assms(2) length_pending_match [of rcvid "ss_pending (se_state s)"]
    by (auto simp: sent_inv_def Let_def in_state_def on_status_def on_pending_def)
next
  case (first i ready now ctx g rs b w r)
  have "ctx \<noteq> NULL" using assms(2) pick_mem [OF first(2)] by (force simp: sent_inv_def Let_def)
  then show ?thesis using first assms(2) pick_sub [OF first(2)]
    by (auto simp: sent_inv_def Let_def in_state_def on_retry_def)
next
  case (refuse i now ctx g rs)
  then show ?thesis using assms(2) pick_sub [OF refuse(2)] by (auto simp: sent_inv_def Let_def)
next
  case (claim ctx now k r)
  then show ?thesis using assms(2,3)
    by (auto simp: sent_inv_def retry_inv_def Let_def in_state_def on_retry_def retry_claim_cases)
next
  case (check i ctx cs)
  then show ?thesis using assms(2) pick_sub [OF check(2)] pick_mem [OF check(2)]
    by (auto simp: sent_inv_def Let_def)
next
  case (drop i ctx cs)
  then show ?thesis using assms(2) pick_sub [OF drop(2)] by (auto simp: sent_inv_def Let_def)
next
  case (packet sk ctx)
  have "ctx \<noteq> NULL" using assms(2) packet(2) by (auto simp: sent_inv_def Let_def)
  with packet assms(2) show ?thesis
    by (cases rule: send_packet_cases [of sk ctx "se_state s"])
      (auto simp: sent_inv_def Let_def in_state_def on_status_def intro: status_balance [OF _ refl])
qed (use assms(2) in \<open>auto simp: sent_inv_def Let_def in_state_def on_retry_def on_status_def on_pending_def\<close>)

section \<open>All reachable states\<close>

lemma session_init_inv: "worker_inv 0 session_init \<and> retry_inv 0 session_init \<and> sent_inv session_init"
  by (simp add: worker_inv_def retry_inv_def sent_inv_def session_init_def zero_send_def zero_retry_def workers_def
    Let_def zero_status_def)

lemma session_reach_inv:
  assumes "session_reach n s" "n < 0xFFFFFFFE"
  shows "worker_inv n s \<and> retry_inv n s \<and> sent_inv s"
  using assms
proof (induction rule: session_reach.induct)
  case start
  show ?case by (rule session_init_inv)
next
  case (step n s a s')
  then have inv: "worker_inv n s" "retry_inv n s" "sent_inv s" and n: "n < 0xFFFFFFFE" by auto
  show ?case
    using worker_inv_step [OF step.hyps(2) inv(1) n] retry_inv_step [OF step.hyps(2) inv(2,1) n inv(3)]
      sent_inv_step [OF step.hyps(2) inv(3,2)] by blast
qed


end
