(* ===== verification/Send_Limits.thy ===== *)
theory Send_Limits
  imports Send_Props
begin

text \<open>
  What the invariant of the threads gives: the cadence of the attempts, the silence after the first
  message of the phone, and the attempts that a failed thread creation loses.
\<close>

section \<open>The cadence\<close>

text \<open>The milliseconds that lie at least between the first attempt of a generation and its a-th.\<close>

definition earliest :: "nat \<Rightarrow> nat" where
  "earliest a = (if a \<le> 5 then 2000 * (a - 1) else 8000 + 30000 * (a - 5))"

lemma earliest_Suc:
  "0 < unat a \<Longrightarrow> earliest (Suc (unat a)) = earliest (unat a) + unat (rt_retry_ms a)"
  by (auto simp: earliest_def rt_retry_ms_def word_less_nat_alt)

lemma claims_ok_nth:
  "claims_ok (rev cs) \<Longrightarrow> Suc i < length cs \<Longrightarrow> claim_step (cs ! i) (cs ! Suc i)"
proof (induction cs rule: rev_induct)
  case (snoc c cs)
  show ?case
  proof (cases "Suc i < length cs")
    case True
    moreover have "claims_ok (rev cs)" using snoc.prems(1) by (cases "rev cs") auto
    ultimately show ?thesis using snoc.IH by (simp add: nth_append)
  next
    case False
    then have i: "Suc i = length cs" using snoc.prems(2) by simp
    then obtain ds d where cs: "cs = ds @ [d]" by (cases cs rule: rev_cases) auto
    with i snoc.prems(1) show ?thesis by (simp add: nth_append)
  qed
qed simp

lemma claims_ok_first: "claims_ok (rev cs) \<Longrightarrow> cs \<noteq> [] \<Longrightarrow> fst (snd (cs ! 0)) = 1"
proof (induction cs rule: rev_induct)
  case (snoc c cs)
  then show ?case by (cases cs rule: rev_cases) (auto simp: nth_append)
qed simp

lemma later_nat:
  assumes "(t :: u64) \<le> t'" "k \<le> t' - t"
  shows "unat t + unat k \<le> unat t'"
  using assms by (simp add: word_le_nat_alt unat_sub)

lemma claims_earliest:
  assumes "claims_ok (rev cs)" "length cs < 2 ^ 32" "i < length cs" "cs ! i = (g, a, t)"
  shows "0 < unat a \<and> unat a \<le> Suc i \<and> (t \<noteq> 0 \<longrightarrow> (\<exists>t1. (g, 1, t1) \<in> set cs \<and> unat t1 + earliest (unat a) \<le> unat t))"
  using assms(3,4)
proof (induction i arbitrary: g a t)
  case 0
  have "a = 1" using claims_ok_first [OF assms(1)] 0 by auto
  moreover have "(g, a, t) \<in> set cs" using 0 by (metis nth_mem)
  ultimately show ?case by (auto simp: earliest_def intro!: exI [of _ t])
next
  case (Suc i)
  obtain g0 a0 t0 where c: "cs ! i = (g0, a0, t0)" by (metis prod_cases3)
  from Suc.IH [OF _ c] Suc.prems have IH: "0 < unat a0" "unat a0 \<le> Suc i"
    "t0 \<noteq> 0 \<Longrightarrow> \<exists>t1. (g0, 1, t1) \<in> set cs \<and> unat t1 + earliest (unat a0) \<le> unat t0" by auto
  have step: "claim_step (g0, a0, t0) (g, a, t)"
    using claims_ok_nth [OF assms(1) Suc.prems(1)] c Suc.prems(2) by simp
  show ?case
  proof (cases "g = g0")
    case True
    have a: "unat a = Suc (unat a0)" using step True IH(2) Suc.prems(1) assms(2) by (simp add: unat_word_ariths)
    have "\<exists>t1. (g, 1, t1) \<in> set cs \<and> unat t1 + earliest (unat a) \<le> unat t" if "t \<noteq> 0"
    proof -
      from step True that have gap: "t0 \<noteq> 0" "t0 \<le> t" "rt_retry_ms a0 \<le> t - t0" by auto
      from IH(3) [OF gap(1)] obtain t1 where "(g0, 1, t1) \<in> set cs" "unat t1 + earliest (unat a0) \<le> unat t0" by auto
      with later_nat [OF gap(2,3)] True show ?thesis by (auto simp: a earliest_Suc [OF IH(1)] intro!: exI [of _ t1])
    qed
    with a IH(2) show ?thesis by simp
  next
    case False
    with step have "a = 1" by simp
    moreover have "(g, a, t) \<in> set cs" using Suc.prems by (metis nth_mem)
    ultimately show ?thesis by (auto simp: earliest_def intro!: exI [of _ t])
  qed
qed


lemma claims_count: "session_reach n s \<Longrightarrow> length (se_claims s) \<le> n"
proof (induction rule: session_reach.induct)
  case (step n s a s')
  from step.hyps(2) have "length (se_claims s') \<le> Suc (length (se_claims s))"
    by (cases rule: send_act_cases) (auto simp: in_state_def)
  with step.IH show ?case by simp
qed (simp add: session_init_def)

section \<open>After the first message\<close>

lemma session_run_Cons:
  "session_run (a # as) s = Some s' \<longleftrightarrow> (\<exists>s1. send_act a s = Some s1 \<and> session_run as s1 = Some s')"
  by (auto simp: bind_eq_Some_conv)

definition quiet :: "nat \<Rightarrow> session \<Rightarrow> bool" where
  "quiet k s \<longleftrightarrow> rt_got (the_retry s) \<and> \<not> rt_enabled (the_retry s) \<and>
     length (ss_sent (se_state s)) + (if se_lock s = None then 0 else 1) \<le> k"

lemma quiet_step:
  assumes "send_act a s = Some s'" "a \<noteq> O_reset" "\<And>now. a \<noteq> O_rearm now" "quiet k s"
  shows "quiet k s'"
  using assms(1)
proof (cases rule: send_act_cases)
  case (rx msgid now)
  then show ?thesis using assms(4) retry_rx_cases [of msgid now "the_retry s"]
    by (auto simp: quiet_def in_state_def on_retry_def)
next
  case (first i ready now ctx g rs b w r)
  then show ?thesis using assms(4) retry_begin_cases [OF first(5)] by (auto simp: quiet_def)
next
  case (packet sk ctx)
  then show ?thesis using assms(4)
    by (cases rule: send_packet_cases [of sk ctx "se_state s"]) (auto simp: quiet_def in_state_def on_status_def)
next
  case (worker i now g gs alive r)
  then show ?thesis using assms(4) retry_worker_cases [OF worker(4)]
    by (auto simp: quiet_def in_state_def on_retry_def)
qed (use assms(2-4) in \<open>auto simp: quiet_def in_state_def on_retry_def on_status_def on_pending_def
  worker_created_def retry_claim_cases send_allowed_def\<close>)

lemma quiet_run:
  "session_run as s = Some s' \<Longrightarrow> quiet k s \<Longrightarrow> O_reset \<notin> set as \<Longrightarrow> \<forall>now. O_rearm now \<notin> set as \<Longrightarrow> quiet k s'"
proof (induction "as" arbitrary: s)
  case (Cons a "as")
  from Cons.prems(1) obtain s1 where one: "send_act a s = Some s1" and run: "session_run as s1 = Some s'"
    unfolding session_run_Cons by (elim exE conjE)
  have "quiet k s1" using Cons.prems(2-4) by (intro quiet_step [OF one]) auto
  with run show ?case by (rule Cons.IH) (use Cons.prems(3,4) in auto)
qed simp

lemma rx_quiet:
  assumes "worker_inv n s" "retry_inv n s" "msgid \<in> {0x5201, 0x5202, 0x5204}" "send_act (O_rx msgid now) s = Some s'"
  shows "quiet (length (ss_sent (se_state s)) + (if se_lock s = None then 0 else 1)) s'"
proof -
  have "rt_enabled (the_retry s) \<longrightarrow> \<not> rt_got (the_retry s)" using assms(2) by (simp add: retry_inv_def Let_def)
  moreover have "s' = in_state (on_retry (k2161_send_note_rgi_rx msgid now)) s"
    using assms(4) by (simp add: send_act_def reset_acts_def)
  moreover have "\<not> (msgid \<noteq> 0x5201 \<and> msgid \<noteq> 0x5202 \<and> msgid \<noteq> 0x5204)" using assms(3) by auto
  ultimately show ?thesis
    by (auto simp: quiet_def in_state_def on_retry_def k2161_send_note_rgi_rx_def Let_def)
qed


section \<open>A failed thread creation\<close>

text \<open>While the creation of the worker of the current generation is open, nothing is due.\<close>

definition spawn_inv :: "session \<Rightarrow> bool" where
  "spawn_inv s \<longleftrightarrow> (rt_generation (the_retry s) \<in> set (se_spawns s) \<longrightarrow> \<not> rt_need (the_retry s))"

lemma spawn_inv_step:
  assumes "send_act a s = Some s'" "spawn_inv s" "worker_inv n s"
  shows "spawn_inv s'"
  using assms(1)
proof (cases rule: send_act_cases)
  case reset
  then show ?thesis by (simp add: spawn_inv_def in_state_def on_retry_def retry_reset_is rearmed_def)
next
  case (rearm now)
  then show ?thesis using assms(2) retry_rearm_cases [of now "the_retry s"]
    by (auto simp: spawn_inv_def in_state_def on_retry_def rearmed_def)
next
  case (rx msgid now)
  then show ?thesis using assms(2) retry_rx_cases [of msgid now "the_retry s"]
    by (auto simp: spawn_inv_def in_state_def on_retry_def)
next
  case (first i ready now ctx g rs b w r)
  then show ?thesis using assms(2) retry_begin_cases [OF first(5)]
    by (auto simp: spawn_inv_def in_state_def on_retry_def)
next
  case (created i ok g gs)
  then show ?thesis using assms(2) pick_sub [OF created(2)]
    by (auto simp: spawn_inv_def in_state_def on_retry_def worker_created_def)
next
  case (worker i now g gs alive r)
  have none: "rt_generation (the_retry s) \<notin> set (se_spawns s)" if "g = rt_generation (the_retry s)"
  proof -
    have "count_list (ss_workers (se_state s)) (rt_generation (the_retry s)) \<noteq> 0"
      using that pick_mem [OF worker(2)] by (simp add: count_list_0_iff)
    moreover have "count_list (workers s) (rt_generation (the_retry s)) \<le> 1"
      using assms(3) by (simp add: worker_inv_def Let_def)
    ultimately show ?thesis by (simp add: workers_def count_list_0_iff [symmetric] del: count_list_0_iff)
  qed
  from retry_worker_cases [OF worker(4)] show ?thesis
    by (elim disjE conjE) (use worker none assms(2) in \<open>auto simp: spawn_inv_def in_state_def on_retry_def\<close>)
qed (use assms(2) in \<open>auto simp: spawn_inv_def in_state_def on_retry_def on_status_def on_pending_def
  retry_claim_cases send_packet_def Let_def\<close>)

text \<open>An attempt was made in this generation, and nobody is left to make the next one due.\<close>

definition stuck :: "(u32 \<times> u32 \<times> u64) list \<Rightarrow> session \<Rightarrow> bool" where
  "stuck cs s \<longleftrightarrow> rt_generation (the_retry s) \<notin> set (workers s) \<and> rt_attempts (the_retry s) \<noteq> 0 \<and>
     \<not> rt_need (the_retry s) \<and> \<not> rt_got (the_retry s) \<and> se_claims s = cs"

lemma stuck_step:
  assumes "send_act a s = Some s'" "a \<noteq> O_reset" "\<And>msgid now. a \<noteq> O_rx msgid now" "stuck cs s"
  shows "stuck cs s'"
  using assms(1)
proof (cases rule: send_act_cases)
  case (rearm now)
  then show ?thesis using assms(4)
    by (simp add: stuck_def in_state_def on_retry_def workers_def retry_soft_rearm_if_stale_def)
next
  case (first i ready now ctx g rs b w r)
  then show ?thesis using assms(4) retry_begin_cases [OF first(5)] by (auto simp: stuck_def workers_def)
next
  case (created i ok g gs)
  then show ?thesis using assms(4) pick_sub [OF created(2)] pick_mem [OF created(2)]
    by (auto simp: stuck_def workers_def in_state_def on_retry_def worker_created_def)
next
  case (worker i now g gs alive r)
  then have "g \<noteq> rt_generation (the_retry s)"
    using assms(4) pick_mem [OF worker(2)] by (auto simp: stuck_def workers_def)
  with worker assms(4) retry_worker_cases [OF worker(4)] pick_sub [OF worker(2)] show ?thesis
    by (auto simp: stuck_def workers_def in_state_def on_retry_def)
qed (use assms(2-4) in \<open>auto simp: stuck_def in_state_def on_retry_def on_status_def on_pending_def workers_def
  retry_claim_cases send_packet_def Let_def\<close>)

lemma stuck_run:
  "session_run as s = Some s' \<Longrightarrow> stuck cs s \<Longrightarrow> O_reset \<notin> set as \<Longrightarrow> \<forall>msgid now. O_rx msgid now \<notin> set as \<Longrightarrow> stuck cs s'"
proof (induction "as" arbitrary: s)
  case (Cons a "as")
  from Cons.prems(1) obtain s1 where one: "send_act a s = Some s1" and run: "session_run as s1 = Some s'"
    unfolding session_run_Cons by (elim exE conjE)
  have "stuck cs s1" using Cons.prems(2-4) by (intro stuck_step [OF one]) auto
  with run show ?case by (rule Cons.IH) (use Cons.prems(3,4) in auto)
qed simp


lemma session_reach_spawn:
  assumes "session_reach n s" "n < 0xFFFFFFFE"
  shows "spawn_inv s"
  using assms
proof (induction rule: session_reach.induct)
  case start
  show ?case by (simp add: spawn_inv_def session_init_def)
next
  case (step n s a s')
  then have "spawn_inv s" "worker_inv n s" using session_reach_inv [OF step.hyps(1)] by auto
  then show ?case by (rule spawn_inv_step [OF step.hyps(2)])
qed

lemma created_stuck:
  assumes "worker_inv n s" "retry_inv n s" "spawn_inv s" "rt_enabled (the_retry s)"
    "pick i (se_spawns s) = Some (rt_generation (the_retry s), gs)" "send_act (O_created i False) s = Some s'"
  shows "stuck (se_claims s) s'"
proof -
  let ?g = "rt_generation (the_retry s)"
  from pick_split [OF assms(5)] obtain as bs where sp: "se_spawns s = as @ ?g # bs" "gs = as @ bs" by blast
  have "count_list (workers s) ?g \<le> 1" using assms(1) by (simp add: worker_inv_def Let_def)
  then have "?g \<notin> set (gs @ ss_workers (se_state s))"
    by (auto simp: workers_def sp count_list_0_iff)
  moreover have "rt_attempts (the_retry s) \<noteq> 0" "\<not> rt_got (the_retry s)"
    using assms(2,4) last_in_set [of "se_claims s"] by (auto simp: retry_inv_def Let_def)
  moreover have "\<not> rt_need (the_retry s)" using assms(3) sp by (simp add: spawn_inv_def)
  moreover have "s' = in_state (on_retry (worker_created False ?g)) (s\<lparr>se_spawns := gs\<rparr>)"
    using assms(5,6) by (simp add: send_act_def worker_acts_def in_state_def on_retry_def)
  ultimately show ?thesis by (simp add: stuck_def workers_def in_state_def on_retry_def worker_created_def)
qed

section \<open>An attempt goes out\<close>

text \<open>The packet functions of the stock driver take the message.\<close>

definition good_stock :: "stock \<Rightarrow> bool" where
  "good_stock sk \<longleftrightarrow> sk_pkt sk \<noteq> NULL \<and> sk_p0 sk = 0 \<and> sk_p1 sk = 0 \<and> sk_p2 sk = 0 \<and> sk_p3 sk = 0 \<and> sk_send sk = 0"

lemma send_packet_good:
  "good_stock sk \<Longrightarrow> ss_sent (snd (send_packet sk ctx st)) = ss_sent st @ [(ctx, 0x5200, start_message_params)]"
  by (simp add: send_packet_def good_stock_def on_status_def)

lemma worker_due:
  assumes "rt_enabled r" "\<not> rt_got r" "rt_ctx r \<noteq> NULL" "rt_last_5200 r \<noteq> 0" "now \<noteq> 0"
    "rt_last_5200 r \<le> now" "rt_retry_ms (rt_attempts r) \<le> now - rt_last_5200 r"
  shows "retry_worker (rt_generation r) now r = (True, r\<lparr>rt_need := True\<rparr>)"
  using assms by (cases r) (auto simp: retry_worker_def)

lemma pick_last: "pick (length xs) (xs @ [x]) = Some (x, xs)"
  by (simp add: pick_def)

lemma due_goes_out:
  assumes "rt_enabled (the_retry s)" "\<not> rt_got (the_retry s)" "rt_ctx (the_retry s) \<noteq> NULL" "se_lock s = None"
    "rt_last_5200 (the_retry s) \<noteq> 0" "now \<noteq> 0" "se_clock s \<le> now"
    "rt_last_5200 (the_retry s) \<le> now" "rt_retry_ms (rt_attempts (the_retry s)) \<le> now - rt_last_5200 (the_retry s)"
    "pick i (ss_workers (se_state s)) = Some (rt_generation (the_retry s), gs)" "good_stock sk"
  shows "\<exists>s'. session_run [O_worker i now, O_claim (rt_ctx (the_retry s)) now, O_check (length (se_calls s)), O_packet sk] s =
      Some s' \<and> ss_sent (se_state s') = ss_sent (se_state s) @ [(rt_ctx (the_retry s), 0x5200, start_message_params)] \<and>
    rt_attempts (the_retry s') = rt_attempts (the_retry s) + 1"
proof -
  let ?r = "the_retry s"
  define s1 where "s1 = in_state (on_retry (\<lambda>_. ?r\<lparr>rt_need := True\<rparr>)) (s\<lparr>se_clock := now\<rparr>)"
  have one: "send_act (O_worker i now) s = Some s1"
    using assms worker_due [OF assms(1-3,5,6,8,9)]
    by (simp add: send_act_def worker_acts_def clock_ok_def clock_at_def s1_def in_state_def on_retry_def)
  define r2 where "r2 = ?r\<lparr>rt_need := False, rt_attempts := rt_attempts ?r + 1, rt_last_5200 := now\<rparr>"
  define s2 where "s2 = (in_state (on_retry (\<lambda>_. r2)) s1)\<lparr>se_clock := now, se_calls := se_calls s @ [rt_ctx ?r],
    se_claims := se_claims s @ [(rt_generation ?r, rt_attempts ?r + 1, now)]\<rparr>"
  have "retry_claim_pending (rt_ctx ?r) now (the_retry s1) = (Some (rt_attempts ?r + 1), r2)"
    using assms(1,2) by (simp add: retry_claim_cases s1_def in_state_def on_retry_def r2_def)
  then have two: "send_act (O_claim (rt_ctx ?r) now) s1 = Some s2"
    using assms(6) by (simp add: send_act_def attempt_acts_def clock_ok_def clock_at_def s2_def)
      (simp add: s1_def r2_def in_state_def)
  define s3 where "s3 = s2\<lparr>se_calls := se_calls s, se_lock := Some (rt_ctx ?r)\<rparr>"
  have three: "send_act (O_check (length (se_calls s))) s2 = Some s3"
    using assms(1,4) by (simp add: send_act_def attempt_acts_def s2_def s1_def s3_def pick_last send_allowed_def
        in_state_def on_retry_def r2_def)
  define s4 where "s4 = in_state (\<lambda>st. snd (send_packet sk (rt_ctx ?r) st)) (s3\<lparr>se_lock := None\<rparr>)"
  have four: "send_act (O_packet sk) s3 = Some s4"
    by (simp add: send_act_def attempt_acts_def s3_def s4_def)
  have "ss_sent (se_state s4) = ss_sent (se_state s) @ [(rt_ctx ?r, 0x5200, start_message_params)]"
    using assms(11) by (simp add: s4_def s3_def s2_def s1_def in_state_def send_packet_good on_retry_def)
  moreover have "rt_attempts (the_retry s4) = rt_attempts ?r + 1"
    by (simp add: s4_def s3_def s2_def s1_def in_state_def send_packet_def Let_def on_retry_def on_status_def r2_def)
  ultimately show ?thesis by (simp add: one two three four)
qed


section \<open>The calls as runs\<close>

text \<open>
  The function is what a run of the operations does, that starts with a clock of at most a and ends
  with one of at most b.
\<close>

definition runs :: "u64 \<Rightarrow> u64 \<Rightarrow> (send_state \<Rightarrow> send_state) \<Rightarrow> bool" where
  "runs a b f \<longleftrightarrow> (\<forall>s. se_lock s = None \<and> se_clock s \<le> a \<longrightarrow>
     (\<exists>ops s'. session_run ops s = Some s' \<and> se_state s' = f (se_state s) \<and> se_lock s' = None \<and> se_clock s' \<le> b))"

lemma runsI:
  "(\<And>s. se_lock s = None \<Longrightarrow> se_clock s \<le> a \<Longrightarrow>
     \<exists>ops s'. session_run ops s = Some s' \<and> se_state s' = f (se_state s) \<and> se_lock s' = None \<and> se_clock s' \<le> b) \<Longrightarrow> runs a b f"
  by (simp add: runs_def)

lemma runsE:
  assumes "runs a b f" "se_lock s = None" "se_clock s \<le> a"
  obtains ops s' where "session_run ops s = Some s'" "se_state s' = f (se_state s)" "se_lock s' = None" "se_clock s' \<le> b"
  using assms by (auto simp: runs_def)

lemma session_run_append: "session_run (as @ bs) s = session_run as s \<bind> session_run bs"
  by (induction "as" arbitrary: s) (auto split: bind_split)

lemma runs_comp: "runs a b f \<Longrightarrow> runs b c g \<Longrightarrow> runs a c (\<lambda>s. g (f s))"
proof (rule runsI)
  fix s :: session
  assume fg: "runs a b f" "runs b c g" and s: "se_lock s = None" "se_clock s \<le> a"
  from runsE [OF fg(1) s] obtain ops1 s1 where 1: "session_run ops1 s = Some s1" "se_state s1 = f (se_state s)"
    "se_lock s1 = None" "se_clock s1 \<le> b" .
  from runsE [OF fg(2) 1(3,4)] obtain ops2 s2 where 2: "session_run ops2 s1 = Some s2" "se_state s2 = g (se_state s1)"
    "se_lock s2 = None" "se_clock s2 \<le> c" .
  from 1 2 show "\<exists>ops s'. session_run ops s = Some s' \<and> se_state s' = g (f (se_state s)) \<and> se_lock s' = None \<and> se_clock s' \<le> c"
    by (intro exI [of _ "ops1 @ ops2"] exI [of _ s2]) (simp add: session_run_append)
qed

lemma runs_later: "runs a b f \<Longrightarrow> a' \<le> a \<Longrightarrow> b \<le> b' \<Longrightarrow> runs a' b' f"
  unfolding runs_def by (meson order_trans)

text \<open>A call of k2161_send_start_route_guidance by the thread that has just put it in the session.\<close>

lemma start_call_run:
  assumes "se_calls s = cs @ [ctx]" "se_lock s = None"
  shows "\<exists>ops. session_run ops s =
    Some (s\<lparr>se_calls := cs, se_state := snd (k2161_send_start_route_guidance ce ctx (se_state s))\<rparr>)"
proof (cases "ce_ready ce \<and> ctx \<noteq> NULL \<and> ce_installed ce")
  case True
  show ?thesis
  proof (cases "send_allowed ctx (the_retry s)")
    case allowed: True
    show ?thesis
      by (rule exI [of _ "[O_check (length cs), O_packet (ce_stock ce)]"])
        (use True allowed assms in \<open>simp add: send_act_def attempt_acts_def pick_last k2161_send_start_route_guidance_def
          in_state_def\<close>)
  next
    case False
    show ?thesis
      by (rule exI [of _ "[O_check (length cs)]"])
        (use True False assms in \<open>simp add: send_act_def attempt_acts_def pick_last k2161_send_start_route_guidance_def\<close>)
  qed
next
  case False
  show ?thesis
    by (rule exI [of _ "[O_drop (length cs)]"])
      (use False assms in \<open>auto simp: send_act_def attempt_acts_def pick_last k2161_send_start_route_guidance_def\<close>)
qed

lemma pending_match_none: "pending_match rcvid ps = (None, qs) \<Longrightarrow> qs = ps"
  by (induction ps arbitrary: qs) (auto split: if_splits prod.splits)

text \<open>A call of retry_begin for the last matched reply.\<close>

lemma begin_run:
  assumes "se_replies s = rs @ [(ctx, g)]" "ctx \<noteq> NULL" "se_clock s \<le> t" "ce_now ce \<in> {0, t}"
    "retry_begin ce ctx g (se_state s) = (b, st)"
  shows "\<exists>ops s'. session_run ops s = Some s' \<and> se_state s' = st \<and> se_replies s' = rs \<and> se_lock s' = se_lock s \<and>
    se_clock s' \<le> t \<and> se_calls s' = se_calls s @ (if b then [ctx] else [])"
proof (cases "ce_ready ce")
  case False
  show ?thesis
    by (rule exI [of _ "[O_begin (length rs) False 0]"])
      (use False assms in \<open>simp add: send_act_def attempt_acts_def pick_last retry_begin_def\<close>)
next
  case True
  have clock: "clock_ok (ce_now ce) s" "clock_at (ce_now ce) s \<le> t" using assms(3,4) by (auto simp: clock_ok_def clock_at_def)
  obtain b' w r where l: "retry_begin_locked ctx g (ce_now ce) (the_retry s) = (b', w, r)" by (metis prod_cases3)
  from retry_begin_cases [OF l] consider "\<not> b'" "w = None" "r = the_retry s" | "b'" by blast
  then show ?thesis
  proof cases
    case 1
    show ?thesis
      by (rule exI [of _ "[O_begin (length rs) True (ce_now ce)]"])
        (use 1 True assms clock l in \<open>auto simp: send_act_def attempt_acts_def pick_last retry_begin_def\<close>)
  next
    case 2
    define s1 where "s1 = (in_state (on_retry (\<lambda>_. r)) (s\<lparr>se_replies := rs\<rparr>))\<lparr>se_clock := clock_at (ce_now ce) s,
      se_calls := se_calls s @ [ctx], se_spawns := se_spawns s @ (case w of None \<Rightarrow> [] | Some g \<Rightarrow> [g]),
      se_claims := se_claims s @ [(rt_generation r, rt_attempts r, ce_now ce)]\<rparr>"
    have one: "send_act (O_begin (length rs) True (ce_now ce)) s = Some s1"
      using 2 assms(1) clock l by (simp add: send_act_def attempt_acts_def pick_last s1_def)
    show ?thesis
    proof (cases w)
      case None
      then have "b = b'" "st = (se_state s)\<lparr>ss_retry := r\<rparr>"
        using True assms(2,5) l by (auto simp: retry_begin_def)
      with one 2 clock None show ?thesis
        by (intro exI [of _ "[O_begin (length rs) True (ce_now ce)]"] exI [of _ s1])
          (simp add: s1_def in_state_def on_retry_def)
    next
      case (Some w)
      then have st: "b = b'" "st = (se_state s)\<lparr>ss_retry := worker_created (ce_created ce) w r,
          ss_workers := (if ce_created ce then ss_workers (se_state s) @ [w] else ss_workers (se_state s))\<rparr>"
        using True assms(2,5) l by (auto simp: retry_begin_def)
      have "send_act (O_created (length (se_spawns s)) (ce_created ce)) s1 = Some (s1\<lparr>se_spawns := se_spawns s, se_state := st\<rparr>)"
        using Some by (simp add: send_act_def worker_acts_def s1_def pick_last in_state_def on_retry_def st)
      with one 2 clock st(1) show ?thesis
        by (intro exI [of _ "[O_begin (length rs) True (ce_now ce), O_created (length (se_spawns s)) (ce_created ce)]"]
              exI [of _ "s1\<lparr>se_spawns := se_spawns s, se_state := st\<rparr>"])
          (simp add: s1_def in_state_def)
    qed
  qed
qed


lemma MsgReply_runs:
  assumes "ce_now ce \<in> {0, t}"
  shows "runs t t (\<lambda>st. snd (MsgReply ce rcvid st))"
proof (rule runsI)
  fix s :: session
  assume s: "se_lock s = None" "se_clock s \<le> t"
  let ?st = "se_state s"
  obtain m ps where match: "pending_match rcvid (ss_pending ?st) = (m, ps)" by (cases "pending_match rcvid (ss_pending ?st)")
  show "\<exists>ops s'. session_run ops s = Some s' \<and> se_state s' = snd (MsgReply ce rcvid ?st) \<and> se_lock s' = None \<and> se_clock s' \<le> t"
  proof (cases "ce_reply ce")
    case None
    then have "snd (MsgReply ce rcvid ?st) = ?st" by (simp add: MsgReply_def)
    with s show ?thesis by (intro exI [of _ "[]"] exI [of _ s]) simp
  next
    case (Some rc)
    show ?thesis
    proof (cases m)
      case None
      with match pending_match_none have "ps = ss_pending ?st" by blast
      with None match Some have "snd (MsgReply ce rcvid ?st) = ?st" by (simp add: MsgReply_def)
      with s show ?thesis by (intro exI [of _ "[]"] exI [of _ s]) simp
    next
      case (Some m)
      obtain ctx g where m: "m = (ctx, g)" by (cases m)
      show ?thesis
      proof (cases "ctx = NULL")
        case True
        then show ?thesis
          by (intro exI [of _ "[O_match rcvid]"] exI [of _ "in_state (on_pending (\<lambda>_. ps)) s"])
            (use s Some m match \<open>ce_reply ce = Some rc\<close> in
              \<open>simp add: send_act_def reply_acts_def MsgReply_def in_state_def on_pending_def\<close>)
      next
        case False
        define s1 where "s1 = in_state (on_status k2161_status_ffff_success \<circ> on_pending (\<lambda>_. ps))
          (s\<lparr>se_replies := se_replies s @ [(ctx, g)]\<rparr>)"
        have one: "send_act (O_match rcvid) s = Some s1"
          using False match Some m by (simp add: send_act_def reply_acts_def s1_def)
        obtain b st where b: "retry_begin ce ctx g (se_state s1) = (b, st)" by (cases "retry_begin ce ctx g (se_state s1)")
        have "se_clock s1 \<le> t" "se_replies s1 = se_replies s @ [(ctx, g)]" using s by (simp_all add: s1_def in_state_def)
        from begin_run [OF this(2) False this(1) assms b] obtain ops2 s2 where two: "session_run ops2 s1 = Some s2"
          "se_state s2 = st" "se_lock s2 = None" "se_clock s2 \<le> t" "se_calls s2 = se_calls s1 @ (if b then [ctx] else [])"
          using s by (auto simp: s1_def in_state_def)
        have reply: "snd (MsgReply ce rcvid ?st) = (if b then snd (k2161_send_start_route_guidance ce ctx st) else st)"
          using b False match Some m \<open>ce_reply ce = Some rc\<close>
          by (simp add: MsgReply_def s1_def in_state_def on_pending_def on_status_def Let_def)
        show ?thesis
        proof (cases b)
          case True
          with start_call_run [of s2 "se_calls s1" ctx ce] two obtain ops3 where "session_run ops3 s2 =
            Some (s2\<lparr>se_calls := se_calls s1, se_state := snd (k2161_send_start_route_guidance ce ctx st)\<rparr>)" by auto
          with one two True reply show ?thesis
            by (intro exI [of _ "O_match rcvid # ops2 @ ops3"]
                exI [of _ "s2\<lparr>se_calls := se_calls s1, se_state := snd (k2161_send_start_route_guidance ce ctx st)\<rparr>"])
              (simp add: session_run_append)
        next
          case False
          with one two reply show ?thesis
            by (intro exI [of _ "O_match rcvid # ops2"] exI [of _ s2]) simp
        qed
      qed
    qed
  qed
qed


lemma runs_id: "runs t t (\<lambda>st. st)"
  by (rule runsI) (metis session_run.simps(1))

lemma runs_op:
  assumes "\<And>s. send_act a s = Some (in_state f s)"
  shows "runs t t f"
  by (rule runsI) (use assms in \<open>auto simp: in_state_def intro!: exI [of _ "[a]"]\<close>)

lemma reset_runs: "runs t t (\<lambda>st. fst (reset_rgi_for_identification (st, d)))"
proof -
  have "runs t t (on_retry (\<lambda>r. snd (retry_reset r)))"
    by (rule runs_op [of O_reset]) (simp add: send_act_def reset_acts_def)
  moreover have "runs t t (on_status k2161_status_reset \<circ> on_pending pending_clear)"
    by (rule runs_op [of O_clear]) (simp add: send_act_def reset_acts_def)
  ultimately show ?thesis
    by (rule back_subst [where P = "runs t t", OF runs_comp])
      (simp add: fun_eq_iff reset_rgi_for_identification_def on_retry_def on_status_def on_pending_def Let_def)
qed

lemma rearm_runs: "runs t t (on_retry (\<lambda>r. snd (retry_soft_rearm_if_stale now r)))"
  by (rule runs_op [of "O_rearm now"]) (simp add: send_act_def reset_acts_def)

text \<open>The handling of a GPS request before the stock function.\<close>

definition gps_before :: "ptr \<Rightarrow> int option \<Rightarrow> send_state \<Rightarrow> send_state" where
  "gps_before ctx ctp s =
     (if ctp \<noteq> None \<and> fst (retry_needs_trigger (ss_retry s)) then
        let (tracked, ps) = pending_track ctx (msg_rcvid ctp) (snd (retry_needs_trigger (ss_retry s))) (ss_pending s)
        in on_status (k2161_status_cmd2700 tracked) (s\<lparr>ss_pending := ps\<rparr>)
      else on_status (k2161_status_cmd2700 False) s)"

lemma gps_runs: "runs t t (gps_before ctx ctp)"
proof (rule runsI)
  fix s :: session
  assume s: "se_lock s = None" "se_clock s \<le> t"
  let ?g = "snd (retry_needs_trigger (the_retry s))"
  show "\<exists>ops s'. session_run ops s = Some s' \<and> se_state s' = gps_before ctx ctp (se_state s) \<and> se_lock s' = None \<and> se_clock s' \<le> t"
  proof (cases "ctp \<noteq> None \<and> fst (retry_needs_trigger (the_retry s))")
    case True
    define s1 where "s1 = s\<lparr>se_tracks := se_tracks s @ [(ctx, msg_rcvid ctp, ?g)]\<rparr>"
    define p where "p = pending_track ctx (msg_rcvid ctp) ?g (ss_pending (se_state s))"
    define s2 where "s2 = in_state (on_status (k2161_status_cmd2700 (fst p)) \<circ> on_pending (\<lambda>_. snd p)) s"
    have "send_act (O_trigger ctx (msg_rcvid ctp)) s = Some s1"
      using True by (simp add: send_act_def reply_acts_def s1_def)
    moreover have "send_act (O_track (length (se_tracks s))) s1 = Some s2"
      by (simp add: send_act_def reply_acts_def s1_def s2_def pick_last p_def case_prod_unfold in_state_def Let_def)
    moreover have "se_state s2 = gps_before ctx ctp (se_state s)"
      using True by (simp add: s2_def gps_before_def in_state_def p_def case_prod_unfold on_status_def on_pending_def Let_def)
    ultimately show ?thesis using s
      by (intro exI [of _ "[O_trigger ctx (msg_rcvid ctp), O_track (length (se_tracks s))]"] exI [of _ s2])
        (simp add: s2_def in_state_def)
  next
    case False
    then have "gps_before ctx ctp (se_state s) = on_status (k2161_status_cmd2700 False) (se_state s)"
      by (simp only: gps_before_def if_False)
    with s show ?thesis
      by (intro exI [of _ "[O_unseen]"] exI [of _ "in_state (on_status (k2161_status_cmd2700 False)) s"])
        (simp add: send_act_def reset_acts_def in_state_def)
  qed
qed

lemma before_runs: "runs t t (\<lambda>st. fst (wrapped_msg_before ce ctx ctp msg (st, d)))"
proof -
  consider "msg = Some 0x1D00" | "msg = Some 0x2700" | "msg \<noteq> Some 0x1D00" "msg \<noteq> Some 0x2700" by blast
  then show ?thesis
  proof cases
    case 1
    then have "(\<lambda>st. fst (wrapped_msg_before ce ctx ctp msg (st, d))) = (\<lambda>st. fst (reset_rgi_for_identification (st, d)))"
      by (simp add: wrapped_msg_before_def case_prod_unfold Let_def)
    then show ?thesis using reset_runs by simp
  next
    case 2
    have "(\<lambda>st. fst (wrapped_msg_before ce ctx ctp msg (st, d))) = (\<lambda>st. gps_before ctx ctp
        (if ctp \<noteq> None then on_retry (\<lambda>r. snd (retry_soft_rearm_if_stale (ce_now ce) r)) st else st))"
      using 2 by (simp add: fun_eq_iff wrapped_msg_before_def gps_before_def case_prod_unfold Let_def)
    moreover have "runs t t (\<lambda>st. if ctp \<noteq> None then on_retry (\<lambda>r. snd (retry_soft_rearm_if_stale (ce_now ce) r)) st else st)"
      using rearm_runs runs_id by (cases "ctp = None") auto
    ultimately show ?thesis using runs_comp [OF _ gps_runs] by simp
  next
    case 3
    then have "(\<lambda>st. fst (wrapped_msg_before ce ctx ctp msg (st, d))) = (\<lambda>st. st)"
      by (simp add: wrapped_msg_before_def)
    then show ?thesis using runs_id by simp
  qed
qed

lemma before_diag: "snd (wrapped_msg_before ce ctx ctp msg (st, d)) = snd (wrapped_msg_before ce ctx ctp msg (st', d))"
  by (simp add: wrapped_msg_before_def reset_rgi_for_identification_def case_prod_unfold Let_def)

lemma after_runs:
  assumes "ce_now ce \<in> {0, t}"
  shows "runs t t (wrapped_msg_after ce ctx ctp msg)"
proof (cases "msg = Some 0x2700")
  case False
  then show ?thesis using runs_id by (simp add: wrapped_msg_after_def [abs_def])
next
  case True
  show ?thesis
  proof (rule runsI)
    fix s :: session
    assume s: "se_lock s = None" "se_clock s \<le> t"
    define s1 where "s1 = in_state (on_pending (pending_forget (msg_rcvid ctp))) s"
    have one: "send_act (O_forget (msg_rcvid ctp)) s = Some s1" by (simp add: send_act_def reply_acts_def s1_def)
    obtain k r where c: "retry_claim_pending ctx (ce_now ce) (the_retry s) = (k, r)" by (metis prod.exhaust)
    show "\<exists>ops s'. session_run ops s = Some s' \<and> se_state s' = wrapped_msg_after ce ctx ctp msg (se_state s) \<and>
      se_lock s' = None \<and> se_clock s' \<le> t"
    proof (cases k)
      case None
      with c have "r = the_retry s" by (auto simp: retry_claim_pending_def split: if_splits)
      with True None c one s show ?thesis
        by (intro exI [of _ "[O_forget (msg_rcvid ctp)]"] exI [of _ s1])
          (simp add: wrapped_msg_after_def s1_def in_state_def on_pending_def)
    next
      case (Some a)
      define s2 where "s2 = (in_state (on_retry (\<lambda>_. r)) s1)\<lparr>se_clock := clock_at (ce_now ce) s1,
        se_calls := se_calls s1 @ [ctx], se_claims := se_claims s1 @ [(rt_generation r, rt_attempts r, ce_now ce)]\<rparr>"
      have clock: "clock_ok (ce_now ce) s1" "clock_at (ce_now ce) s1 \<le> t" using assms s
        by (auto simp: s1_def in_state_def clock_ok_def clock_at_def)
      have two: "send_act (O_claim ctx (ce_now ce)) s1 = Some s2"
        using clock c Some by (simp add: send_act_def attempt_acts_def s2_def) (simp add: s1_def in_state_def on_pending_def)
      define s3 where "s3 = s2\<lparr>se_calls := se_calls s1, se_state := snd (k2161_send_start_route_guidance ce ctx (se_state s2))\<rparr>"
      from start_call_run [of s2 "se_calls s1" ctx ce] s obtain ops where "session_run ops s2 = Some s3"
        by (auto simp: s2_def s1_def in_state_def s3_def)
      moreover have "se_state s3 = wrapped_msg_after ce ctx ctp msg (se_state s)"
        using True c Some by (simp add: s3_def s2_def s1_def wrapped_msg_after_def in_state_def on_pending_def on_retry_def)
      ultimately show ?thesis using one two clock(2) s
        by (intro exI [of _ "O_forget (msg_rcvid ctp) # O_claim ctx (ce_now ce) # ops"] exI [of _ s3])
          (simp add: s3_def s2_def s1_def in_state_def)
    qed
  qed
qed

lemma wrapped_runs:
  assumes "\<And>d. runs t1 t2 (\<lambda>st. fst (snd (orig (st, d))))" "ce_now ce2 \<in> {0, t2}"
  shows "runs t1 t2 (\<lambda>st. fst (snd (wrapped_iap2_msg ce1 ce2 orig ctx ctp msg (st, d))))"
proof -
  define d1 where "d1 = snd (wrapped_msg_before ce1 ctx ctp msg (zero_send, d))"
  have "wrapped_msg_before ce1 ctx ctp msg (st, d) = (fst (wrapped_msg_before ce1 ctx ctp msg (st, d)), d1)" for st
    using before_diag [of ce1 ctx ctp msg st d zero_send] by (simp add: d1_def prod_eq_iff)
  then have "(\<lambda>st. fst (snd (wrapped_iap2_msg ce1 ce2 orig ctx ctp msg (st, d)))) =
      (\<lambda>st. wrapped_msg_after ce2 ctx ctp msg (fst (snd (orig (fst (wrapped_msg_before ce1 ctx ctp msg (st, d)), d1)))))"
    by (simp add: fun_eq_iff wrapped_iap2_msg_def case_prod_unfold Let_def)
  then show ?thesis
    using runs_comp [OF runs_comp [OF before_runs [of t1 ce1 ctx ctp msg d] assms(1) [of d1]]
        after_runs [OF assms(2), of ctx ctp msg]] by simp
qed

end
