(* ===== verification/Rgd_Tlv.thy ===== *)
theory Rgd_Tlv
  imports Rgd_Types
begin

text \<open>
  native/routeguidance/rgd_tlv.c: the three message parsers, their string and array helpers,
  and the RouteGuidanceDisplayComponent of the identification message. A parser is the shared
  TLV loop applied to its switch statement; a switch answers None where the code would read
  outside the value of the TLV. Log output is left out.
\<close>

section \<open>Strings\<close>

text \<open>
  The loop of replace_newlines. The first argument is the rest of the string, the second the
  number of bytes already in tmp; the bound is sizeof(tmp) - sep_len - 1 = 252.
\<close>

fun repl_nl_loop :: "bytes \<Rightarrow> nat \<Rightarrow> bytes" where
  "repl_nl_loop [] si = []"
| "repl_nl_loop (c # cs) si =
     (if si < 252 then
        if c = 13 \<and> cs \<noteq> [] \<and> hd cs = 10 then [32, 47, 32] @ repl_nl_loop (tl cs) (si + 3)
        else if c = 10 \<or> c = 13 then [32, 47, 32] @ repl_nl_loop cs (si + 3)
        else c # repl_nl_loop cs (si + 1)
      else [])"

definition replace_newlines :: "bytes \<Rightarrow> nat \<Rightarrow> bytes" where
  "replace_newlines s buf_sz =
     (if buf_sz = 0 then s
      else let tmp = repl_nl_loop s 0; si = length tmp;
               copy = (if si < buf_sz - 1 then si else buf_sz - 1)
           in take copy tmp)"

fun printable_loop :: "bytes \<Rightarrow> bytes" where
  "printable_loop [] = []"
| "printable_loop (c # cs) =
     (if c = 0 then []
      else (if c \<ge> 0x80 then c else if c \<ge> 0x20 \<and> c \<le> 0x7E then c else 63) # printable_loop cs)"

definition copy_printable_string_preview :: "bytes \<Rightarrow> nat \<Rightarrow> bytes" where
  "copy_printable_string_preview data out_sz =
     (if out_sz = 0 \<or> length data = 0 then []
      else let max_bytes = (if length data > out_sz - 1 then out_sz - 1 else length data)
           in printable_loop (take max_bytes data))"

section \<open>Arrays of 16-bit values\<close>

function read_u16_list :: "bytes \<Rightarrow> nat \<Rightarrow> nat \<Rightarrow> u16 list \<Rightarrow> u16 list option" where
  "read_u16_list v lim i acc =
     (if i + 1 < length v \<and> length acc < lim
      then do { w \<leftarrow> read_be16 v i; read_u16_list v lim (i + 2) (acc @ [w]) }
      else Some acc)"
  by pat_completeness auto
termination
  by (relation "measure (\<lambda>(v, lim, i, acc). length v - i)") auto

declare read_u16_list.simps [simp del]

fun u16_chunks :: "bytes \<Rightarrow> u16 list" where
  "u16_chunks (a # b # r) = be16 a b # u16_chunks r"
| "u16_chunks _ = []"

lemma u16_chunks_drop:
  "Suc i < length v \<Longrightarrow> u16_chunks (drop i v) = be16 (v ! i) (v ! Suc i) # u16_chunks (drop (i + 2) v)"
  by (metis Cons_nth_drop_Suc Suc_lessD add_2_eq_Suc' u16_chunks.simps(1))

lemma u16_chunks_short: "\<not> Suc i < length v \<Longrightarrow> u16_chunks (drop i v) = []"
  by (cases "drop i v" rule: u16_chunks.cases) (auto dest: arg_cong [where f = length])

lemma read_u16_list_eq:
  "read_u16_list v lim i acc = Some (acc @ take (lim - length acc) (u16_chunks (drop i v)))"
proof (induction v lim i acc rule: read_u16_list.induct)
  case (1 v lim i acc)
  show ?case
  proof (cases "i + 1 < length v \<and> length acc < lim")
    case True
    then have r: "read_be16 v i = Some (be16 (v ! i) (v ! Suc i))" by (simp add: read_simps)
    obtain k where k: "lim - length acc = Suc k" "lim - Suc (length acc) = k"
      using True by (cases "lim - length acc") auto
    show ?thesis
      using "1.IH" [OF True r] True k
      by (subst read_u16_list.simps) (simp add: r u16_chunks_drop)
  next
    case False
    then show ?thesis
      by (subst read_u16_list.simps) (auto simp: u16_chunks_short)
  qed
qed

section \<open>0x5201 RouteGuidanceUpdate\<close>

definition upd_set :: "u64 \<Rightarrow> rgd_update \<Rightarrow> rgd_update" where
  "upd_set m u = u\<lparr>up_present := up_present u OR m\<rparr>"

text \<open>The switch of rgd_parse_update; val is the value of the TLV.\<close>

definition upd_tlv :: "u16 \<Rightarrow> bytes \<Rightarrow> rgd_update \<Rightarrow> rgd_update option" where
  "upd_tlv tlv_id val out = (let val_len = length val in
     if tlv_id = RGD_TLV_COMPONENT_ID then do {
       ids \<leftarrow> read_u16_list val MAX_COMPONENT_LIST 0 [];
       Some (upd_set RGD_UPD_COMPONENT_IDS (out\<lparr>up_component_ids := ids\<rparr>)) }
     else if tlv_id = RGD_TLV_ROUTE_GUIDANCE_STATE then
       if val_len \<ge> 1 then do { x \<leftarrow> rd8 val 0;
         Some (upd_set RGD_UPD_ROUTE_STATE (out\<lparr>up_route_state := x\<rparr>)) } else Some out
     else if tlv_id = RGD_TLV_MANEUVER_STATE then
       if val_len \<ge> 1 then do { x \<leftarrow> rd8 val 0;
         Some (upd_set RGD_UPD_MANEUVER_STATE (out\<lparr>up_maneuver_state := x\<rparr>)) } else Some out
     else if tlv_id = RGD_TLV_CURRENT_ROAD_NAME then
       Some (upd_set RGD_UPD_CURRENT_ROAD
               (out\<lparr>up_current_road := replace_newlines (c_str 255 val) 256\<rparr>))
     else if tlv_id = RGD_TLV_DESTINATION_NAME then
       Some (upd_set RGD_UPD_DESTINATION
               (out\<lparr>up_destination := replace_newlines (c_str 255 val) 256\<rparr>))
     else if tlv_id = RGD_TLV_ETA then
       if val_len \<ge> 8 then do { x \<leftarrow> read_be64 val 0;
         Some (upd_set RGD_UPD_ETA (out\<lparr>up_eta := x\<rparr>)) } else Some out
     else if tlv_id = RGD_TLV_TIME_REMAINING then
       if val_len \<ge> 8 then do { x \<leftarrow> read_be64 val 0;
         Some (upd_set RGD_UPD_TIME_REMAINING (out\<lparr>up_time_remaining := x\<rparr>)) } else Some out
     else if tlv_id = RGD_TLV_DISTANCE_REMAINING then
       if val_len \<ge> 4 then do { x \<leftarrow> read_be32 val 0;
         Some (upd_set RGD_UPD_DISTANCE_REMAINING (out\<lparr>up_distance_remaining := x\<rparr>)) } else Some out
     else if tlv_id = RGD_TLV_DISTANCE_STRING then
       Some (upd_set RGD_UPD_DISTANCE_STRING (out\<lparr>up_distance_string := c_str 63 val\<rparr>))
     else if tlv_id = RGD_TLV_DISTANCE_UNITS then
       if val_len \<ge> 1 then do { x \<leftarrow> rd8 val 0;
         Some (upd_set RGD_UPD_DISTANCE_UNITS (out\<lparr>up_distance_units := x\<rparr>)) } else Some out
     else if tlv_id = RGD_TLV_DIST_TO_MANEUVER then
       if val_len \<ge> 4 then do { x \<leftarrow> read_be32 val 0;
         Some (upd_set RGD_UPD_DIST_TO_MANEUVER (out\<lparr>up_dist_to_maneuver := x\<rparr>)) } else Some out
     else if tlv_id = RGD_TLV_DIST_TO_MANEUVER_STRING then
       Some (upd_set RGD_UPD_DIST_TO_MANEUVER_STR (out\<lparr>up_dist_to_maneuver_string := c_str 63 val\<rparr>))
     else if tlv_id = RGD_TLV_DIST_TO_MANEUVER_UNITS then
       if val_len \<ge> 1 then do { x \<leftarrow> rd8 val 0;
         Some (upd_set RGD_UPD_DIST_TO_MANEUVER_UNI (out\<lparr>up_dist_to_maneuver_units := x\<rparr>)) } else Some out
     else if tlv_id = RGD_TLV_MANEUVER_COUNT then
       if val_len \<ge> 2 then do { x \<leftarrow> read_be16 val 0;
         Some (upd_set RGD_UPD_MANEUVER_COUNT (out\<lparr>up_maneuver_count := x\<rparr>)) } else Some out
     else if tlv_id = RGD_TLV_MANEUVER_LIST then do {
       l \<leftarrow> read_u16_list val MAX_MANEUVER_LIST 0 [];
       Some (upd_set RGD_UPD_MANEUVER_LIST (out\<lparr>up_maneuver_list := l\<rparr>)) }
     else if tlv_id = RGD_TLV_VISIBLE_IN_APP then
       if val_len \<ge> 1 then do { x \<leftarrow> rd8 val 0;
         Some (upd_set RGD_UPD_VISIBLE_IN_APP (out\<lparr>up_visible_in_app := x\<rparr>)) } else Some out
     else if tlv_id = RGD_TLV_LANE_GUIDANCE_INDEX then
       if val_len \<ge> 2 then do { x \<leftarrow> read_be16 val 0;
         Some (upd_set RGD_UPD_LANE_INDEX (out\<lparr>up_lane_guidance_index := x\<rparr>)) } else Some out
     else if tlv_id = RGD_TLV_LANE_GUIDANCE_TOTAL then
       if val_len \<ge> 2 then do { x \<leftarrow> read_be16 val 0;
         Some (upd_set RGD_UPD_LANE_TOTAL (out\<lparr>up_lane_guidance_total := x\<rparr>)) } else Some out
     else if tlv_id = RGD_TLV_LANE_GUIDANCE_SHOWING then
       if val_len \<ge> 1 then do { x \<leftarrow> rd8 val 0;
         Some (upd_set RGD_UPD_LANE_SHOWING (out\<lparr>up_lane_guidance_showing := x\<rparr>)) } else Some out
     else if tlv_id = RGD_TLV_SOURCE_NAME then
       Some (upd_set RGD_UPD_SOURCE_NAME
               (out\<lparr>up_source_name := replace_newlines (c_str 63 val) 64\<rparr>))
     else if tlv_id = RGD_TLV_SOURCE_SUPPORTS_RG then
       if val_len \<ge> 1 then do { x \<leftarrow> rd8 val 0;
         Some (upd_set RGD_UPD_SOURCE_SUPPORTS_RG (out\<lparr>up_source_supports_rg := x\<rparr>)) } else Some out
     else Some out)"

definition rgd_parse_update :: "bytes option \<Rightarrow> rgd_update option" where
  "rgd_parse_update pbuf = (case pbuf of
     None \<Rightarrow> Some zero_update
   | Some buf \<Rightarrow> if length buf < 6 then Some zero_update
       else tlv_walk (\<lambda>i v s. map_option Continue (upd_tlv i v s)) buf 6 zero_update)"

section \<open>0x5202 RouteGuidanceManeuverUpdate\<close>

definition man_set :: "u64 \<Rightarrow> rgd_maneuver \<Rightarrow> rgd_maneuver" where
  "man_set m x = x\<lparr>mn_present := mn_present x OR m\<rparr>"

definition decode_linked_lane_index :: "bytes \<Rightarrow> u16 option option" where
  "decode_linked_lane_index val =
     (if length val < 2 then Some None else map_option Some (read_be16 val 0))"

text \<open>The switch of rgd_parse_maneuver.\<close>

definition man_tlv :: "u16 \<Rightarrow> bytes \<Rightarrow> rgd_maneuver \<Rightarrow> rgd_maneuver option" where
  "man_tlv tlv_id val out = (let val_len = length val in
     if tlv_id = MAN_TLV_COMPONENT_ID then do {
       ids \<leftarrow> read_u16_list val MAX_COMPONENT_LIST 0 [];
       Some (man_set RGD_MAN_COMPONENT_IDS (out\<lparr>mn_component_ids := ids\<rparr>)) }
     else if tlv_id = MAN_TLV_INDEX then
       if val_len \<ge> 2 then do { x \<leftarrow> read_be16 val 0;
         Some (man_set RGD_MAN_INDEX (out\<lparr>mn_index := x\<rparr>)) } else Some out
     else if tlv_id = MAN_TLV_DESCRIPTION then
       Some (man_set RGD_MAN_DESCRIPTION
               (out\<lparr>mn_description := replace_newlines (c_str 255 val) 256\<rparr>))
     else if tlv_id = MAN_TLV_TYPE then
       if val_len \<ge> 1 then do { x \<leftarrow> rd8 val 0;
         Some (man_set RGD_MAN_TYPE (out\<lparr>mn_type := x\<rparr>)) } else Some out
     else if tlv_id = MAN_TLV_AFTER_ROAD_NAME then
       Some (man_set RGD_MAN_AFTER_ROAD
               (out\<lparr>mn_after_road_name := replace_newlines (c_str 255 val) 256\<rparr>))
     else if tlv_id = MAN_TLV_DISTANCE_BETWEEN then
       if val_len \<ge> 4 then do { x \<leftarrow> read_be32 val 0;
         Some (man_set RGD_MAN_DISTANCE_BETWEEN (out\<lparr>mn_distance_between := x\<rparr>)) } else Some out
     else if tlv_id = MAN_TLV_DISTANCE_STRING then
       Some (man_set RGD_MAN_DISTANCE_STRING (out\<lparr>mn_distance_string := c_str 63 val\<rparr>))
     else if tlv_id = MAN_TLV_DISTANCE_UNITS then
       if val_len \<ge> 1 then do { x \<leftarrow> rd8 val 0;
         Some (man_set RGD_MAN_DISTANCE_UNITS (out\<lparr>mn_distance_units := x\<rparr>)) } else Some out
     else if tlv_id = MAN_TLV_DRIVING_SIDE then
       if val_len \<ge> 1 then do { x \<leftarrow> rd8 val 0;
         Some (man_set RGD_MAN_DRIVING_SIDE (out\<lparr>mn_driving_side := x\<rparr>)) } else Some out
     else if tlv_id = MAN_TLV_JUNCTION_TYPE then
       if val_len \<ge> 1 then do { x \<leftarrow> rd8 val 0;
         Some (man_set RGD_MAN_JUNCTION_TYPE (out\<lparr>mn_junction_type := x\<rparr>)) } else Some out
     else if tlv_id = MAN_TLV_JUNCTION_ANGLES then do {
       a \<leftarrow> read_u16_list val MAX_MANEUVER_LIST 0 (mn_junction_angles out);
       Some (man_set RGD_MAN_JUNCTION_ANGLES (out\<lparr>mn_junction_angles := a\<rparr>)) }
     else if tlv_id = MAN_TLV_EXIT_ANGLE then
       if val_len \<ge> 2 then do { x \<leftarrow> read_be16 val 0;
         Some (man_set RGD_MAN_EXIT_ANGLE (out\<lparr>mn_exit_angle := x\<rparr>)) } else Some out
     else if tlv_id = MAN_TLV_LINKED_LANE_GUIDANCE then do {
       let out = man_set RGD_MAN_LANE_GUIDANCE_RAW (out\<lparr>mn_lane_guidance_raw_len := of_nat val_len\<rparr>);
       linked \<leftarrow> decode_linked_lane_index val;
       case linked of None \<Rightarrow> Some out
       | Some linked_idx \<Rightarrow>
           Some (man_set RGD_MAN_LINKED_LANE_INDEX (out\<lparr>mn_linked_lane_guidance_index := linked_idx\<rparr>)) }
     else if tlv_id = MAN_TLV_EXIT_INFO then
       Some (man_set RGD_MAN_EXIT_INFO_STR (man_set RGD_MAN_EXIT_INFO_RAW
               (out\<lparr>mn_exit_info_raw_len := of_nat val_len,
                    mn_exit_info_str := copy_printable_string_preview val (RGD_EXIT_INFO_MAX + 1)\<rparr>)))
     else Some out)"

definition rgd_parse_maneuver :: "bytes option \<Rightarrow> rgd_maneuver option" where
  "rgd_parse_maneuver pbuf = (let out = zero_maneuver\<lparr>mn_linked_lane_guidance_index := 0xFFFF\<rparr> in
     case pbuf of None \<Rightarrow> Some out
     | Some buf \<Rightarrow> if length buf < 6 then Some out
         else do {
           out \<leftarrow> tlv_walk (\<lambda>i v s. map_option Continue (man_tlv i v s)) buf 6 out;
           if has (mn_present out) RGD_MAN_INDEX \<and> \<not> has (mn_present out) RGD_MAN_EXIT_ANGLE
           then Some (man_set RGD_MAN_EXIT_ANGLE (out\<lparr>mn_exit_angle := 1000\<rparr>))
           else Some out })"

section \<open>0x5204 RouteGuidanceLaneGuidanceInformation\<close>

definition rgd_lane_reset :: "u16 \<Rightarrow> rgd_lane" where
  "rgd_lane_reset fallback_position =
     zero_lane\<lparr>ln_position := fallback_position, ln_direction := 1000\<rparr>"

text \<open>The locals of rgd_parse_lane_information_value; lp_lanes holds out_lanes[0..lane_count-1].\<close>

record lane_st =
  lp_lanes :: "rgd_lane list"
  lp_idx :: int
  lp_highlight :: bool
  lp_saw :: bool

text \<open>The loop over the angles of one laneAngles sub-TLV.\<close>

function lane_angles_loop :: "bytes \<Rightarrow> nat \<Rightarrow> bool \<Rightarrow> rgd_lane \<Rightarrow> rgd_lane option" where
  "lane_angles_loop sv p hl lane =
     (if p < length sv \<and> length (ln_angles lane) < MAX_LANE_ANGLES then do {
        (angle, p') \<leftarrow> (if p + 1 < length sv
                         then do { a \<leftarrow> read_be16 sv p; Some (a, p + 2) }
                         else do { a \<leftarrow> rd8 sv p; Some (ucast a, p + 1) });
        let lane = lane\<lparr>ln_angles := ln_angles lane @ [angle]\<rparr>;
        let lane = (if \<not> hl \<and> ln_direction lane = 1000 then lane\<lparr>ln_direction := angle\<rparr> else lane);
        lane_angles_loop sv p' hl lane }
      else Some lane)"
  by pat_completeness auto
termination
  by (relation "measure (\<lambda>(sv, p, hl, lane). length sv - p)")
     (auto split: if_splits simp: bind_eq_Some_conv)

declare lane_angles_loop.simps [simp del]

definition upd_lane :: "int \<Rightarrow> (rgd_lane \<Rightarrow> rgd_lane option) \<Rightarrow> lane_st \<Rightarrow> lane_st option" where
  "upd_lane i g st = (if 0 \<le> i \<and> nat i < length (lp_lanes st)
     then do { l \<leftarrow> g (lp_lanes st ! nat i); Some (st\<lparr>lp_lanes := (lp_lanes st)[nat i := l]\<rparr>) }
     else None)"

text \<open>Starting a lane without an index sub-TLV: None is the break on a full array.\<close>

definition lane_open :: "nat \<Rightarrow> lane_st \<Rightarrow> lane_st option" where
  "lane_open out_max st =
     (if lp_idx st < 0 then
        if length (lp_lanes st) \<ge> out_max then None
        else Some (st\<lparr>lp_idx := int (length (lp_lanes st)),
                      lp_lanes := lp_lanes st @ [rgd_lane_reset (of_nat (length (lp_lanes st)))],
                      lp_highlight := False, lp_saw := True\<rparr>)
      else Some (st\<lparr>lp_saw := True\<rparr>))"

definition lane_sub :: "nat \<Rightarrow> u16 \<Rightarrow> bytes \<Rightarrow> lane_st \<Rightarrow> lane_st flow option" where
  "lane_sub out_max sub_id sv st =
     (if sub_id = LANE_INFO_TLV_INDEX then
        if length (lp_lanes st) \<ge> out_max then Some (Break st)
        else do {
          let lane_idx = length (lp_lanes st);
          let lane = rgd_lane_reset (of_nat lane_idx);
          lane \<leftarrow> (if length sv \<ge> 2 then do { p \<leftarrow> read_be16 sv 0; Some (lane\<lparr>ln_position := p\<rparr>) }
                   else if length sv \<ge> 1 then do { p \<leftarrow> rd8 sv 0; Some (lane\<lparr>ln_position := ucast p\<rparr>) }
                   else Some lane);
          Some (Continue (st\<lparr>lp_lanes := lp_lanes st @ [lane], lp_idx := int lane_idx,
                             lp_highlight := False, lp_saw := True\<rparr>)) }
      else if sub_id = LANE_INFO_TLV_STATUS \<or> sub_id = LANE_INFO_TLV_ANGLES
              \<or> sub_id = LANE_INFO_TLV_ANGLE_HIGHLIGHT then
        (case lane_open out_max st of None \<Rightarrow> Some (Break st)
         | Some st \<Rightarrow>
             if sub_id = LANE_INFO_TLV_STATUS then
               if lp_idx st \<ge> 0 \<and> length sv \<ge> 1 then do {
                 x \<leftarrow> rd8 sv 0;
                 st \<leftarrow> upd_lane (lp_idx st) (\<lambda>l. Some (l\<lparr>ln_status := x\<rparr>)) st;
                 Some (Continue st) }
               else Some (Continue st)
             else if sub_id = LANE_INFO_TLV_ANGLES then
               if lp_idx st \<ge> 0 \<and> length sv \<ge> 1 then do {
                 st \<leftarrow> upd_lane (lp_idx st) (lane_angles_loop sv 0 (lp_highlight st)) st;
                 Some (Continue st) }
               else Some (Continue st)
             else
               if lp_idx st \<ge> 0 \<and> length sv \<ge> 1 then do {
                 d \<leftarrow> (if length sv \<ge> 2 then read_be16 sv 0 else map_option ucast (rd8 sv 0));
                 st \<leftarrow> upd_lane (lp_idx st) (\<lambda>l. Some (l\<lparr>ln_direction := d\<rparr>)) st;
                 Some (Continue (st\<lparr>lp_highlight := True\<rparr>)) }
               else Some (Continue st))
      else Some (Continue st))"

definition rgd_parse_lane_information_value :: "bytes \<Rightarrow> nat \<Rightarrow> rgd_lane list option" where
  "rgd_parse_lane_information_value val out_max =
     (if out_max = 0 \<or> length val < 4 then Some []
      else do {
        st \<leftarrow> tlv_walk (lane_sub out_max) val 0
               \<lparr>lp_lanes = [], lp_idx = -1, lp_highlight = False, lp_saw = False\<rparr>;
        Some (if lp_saw st then lp_lanes st else []) })"

definition lane_set :: "u64 \<Rightarrow> rgd_lane_guidance \<Rightarrow> rgd_lane_guidance" where
  "lane_set m x = x\<lparr>lg_present := lg_present x OR m\<rparr>"

text \<open>The switch of rgd_parse_lane_guidance.\<close>

definition lane_tlv :: "u16 \<Rightarrow> bytes \<Rightarrow> rgd_lane_guidance \<Rightarrow> rgd_lane_guidance option" where
  "lane_tlv tlv_id val out = (let val_len = length val in
     if tlv_id = LANE_MSG_TLV_COMPONENT_ID then do {
       out \<leftarrow> (if val_len > 0 then do {
                  ids \<leftarrow> read_u16_list val MAX_COMPONENT_LIST 0 (lg_component_ids out);
                  if odd val_len \<and> length ids < MAX_COMPONENT_LIST then do {
                    x \<leftarrow> rd8 val (val_len - 1);
                    Some (out\<lparr>lg_component_ids := ids @ [ucast x]\<rparr>) }
                  else Some (out\<lparr>lg_component_ids := ids\<rparr>) }
               else Some out);
       Some (lane_set RGD_LANE_COMPONENT_IDS out) }
     else if tlv_id = LANE_MSG_TLV_LANE_GUIDANCE_INDEX then
       if val_len \<ge> 2 then do { x \<leftarrow> read_be16 val 0;
         Some (lane_set RGD_LANE_GUIDANCE_INDEX (out\<lparr>lg_index := x\<rparr>)) }
       else if val_len \<ge> 1 then do { x \<leftarrow> rd8 val 0;
         Some (lane_set RGD_LANE_GUIDANCE_INDEX (out\<lparr>lg_index := ucast x\<rparr>)) }
       else Some out
     else if tlv_id = LANE_MSG_TLV_LANE_INFORMATIONS then do {
       let out = lane_set RGD_LANE_INFORMATIONS out;
       if val_len > 0 \<and> length (lg_lanes out) < MAX_LANE_GUIDANCE then do {
         let free_slots = MAX_LANE_GUIDANCE - length (lg_lanes out);
         parsed \<leftarrow> rgd_parse_lane_information_value val free_slots;
         Some (out\<lparr>lg_lanes := lg_lanes out @ take (MAX_LANE_GUIDANCE - length (lg_lanes out)) parsed\<rparr>) }
       else Some out }
     else if tlv_id = LANE_MSG_TLV_LANE_GUIDANCE_DESC then
       Some (lane_set RGD_LANE_GUIDANCE_DESC (out\<lparr>lg_description := c_str 63 val\<rparr>))
     else Some out)"

definition rgd_parse_lane_guidance :: "bytes option \<Rightarrow> rgd_lane_guidance option" where
  "rgd_parse_lane_guidance pbuf = (case pbuf of
     None \<Rightarrow> Some zero_lane_guidance
   | Some buf \<Rightarrow> if length buf < 6 then Some zero_lane_guidance
       else tlv_walk (\<lambda>i v s. map_option Continue (lane_tlv i v s)) buf 6 zero_lane_guidance)"

end
