(* ===== verification/Rgd_Tlv_Props.thy ===== *)
theory Rgd_Tlv_Props
  imports Rgd_Tlv
begin

text \<open>
  Correctness of the parsers of Rgd_Tlv: strings and arrays are bounded and clean, no parser
  reads outside its buffer, and what a parser returns is a function of the list of TLVs of the
  message (update_spec, maneuver_spec), whatever the bytes are.
\<close>

section \<open>Strings\<close>

lemma set_repl_nl_loop:
  "c \<in> set (repl_nl_loop s k) \<Longrightarrow> (c \<in> set s \<or> c = 32 \<or> c = 47) \<and> c \<noteq> 10 \<and> c \<noteq> 13"
  by (induction s k rule: repl_nl_loop.induct) (auto dest: list.set_sel(2) split: if_splits)

lemma length_repl_nl_loop: "si + length (repl_nl_loop s si) \<le> max si 254"
proof (induction s si rule: repl_nl_loop.induct)
  case (1 si)
  then show ?case by simp
next
  case (2 c cs si)
  then show ?case by (auto simp: max_def split: if_splits)
qed

definition clean :: "bytes \<Rightarrow> bool" where
  "clean s \<longleftrightarrow> 0 \<notin> set s \<and> 10 \<notin> set s \<and> 13 \<notin> set s"

lemma clean_replace_newlines:
  "0 < n \<Longrightarrow> 0 \<notin> set s \<Longrightarrow> clean (replace_newlines s n)"
  using set_repl_nl_loop [of 0 s 0] set_repl_nl_loop [of 10 s 0] set_repl_nl_loop [of 13 s 0]
  by (auto simp: clean_def replace_newlines_def Let_def dest!: in_set_takeD)

lemma length_replace_newlines:
  "0 < n \<Longrightarrow> length (replace_newlines s n) \<le> n - 1 \<and> length (replace_newlines s n) \<le> 254"
  using length_repl_nl_loop [of 0 s]
  by (auto simp: replace_newlines_def Let_def)

lemma repl_nl_loop_id:
  "10 \<notin> set s \<Longrightarrow> 13 \<notin> set s \<Longrightarrow> repl_nl_loop s si = take (252 - si) s"
proof (induction s si rule: repl_nl_loop.induct)
  case (1 si)
  then show ?case by simp
next
  case (2 c cs si)
  show ?case
  proof (cases "si < 252")
    case True
    then have "252 - si = Suc (252 - (si + 1))" by simp
    with True "2.prems" "2.IH"(3) show ?thesis by auto
  next
    case False
    then show ?thesis by simp
  qed
qed

lemma replace_newlines_id:
  assumes "10 \<notin> set s" "13 \<notin> set s" "length s < n" "length s \<le> 252"
  shows "replace_newlines s n = s"
  using assms by (auto simp: replace_newlines_def repl_nl_loop_id Let_def)

lemma length_printable_loop: "length (printable_loop s) \<le> length s"
  by (induction s) auto

lemma set_printable_loop: "c \<in> set (printable_loop s) \<Longrightarrow> 0x20 \<le> c \<and> c \<noteq> 0x7F"
  by (induction s) (auto simp: word_le_nat_alt word_less_nat_alt split: if_splits)

lemma copy_printable_ok:
  "length (copy_printable_string_preview v (n + 1)) \<le> n \<and>
   (\<forall>c \<in> set (copy_printable_string_preview v (n + 1)). 0x20 \<le> c \<and> c \<noteq> 0x7F)"
proof -
  let ?m = "if length v > n then n else length v"
  have "length (printable_loop (take ?m v)) \<le> n"
    using length_printable_loop [of "take ?m v"] by (auto split: if_splits)
  moreover have "copy_printable_string_preview v (n + 1) \<in> {[], printable_loop (take ?m v)}"
    by (auto simp: copy_printable_string_preview_def Let_def)
  moreover have "\<forall>c \<in> set (printable_loop (take ?m v)). 0x20 \<le> c \<and> c \<noteq> 0x7F"
    by (auto dest: set_printable_loop)
  ultimately show ?thesis by auto
qed

section \<open>0x5201\<close>

definition wf_update :: "rgd_update \<Rightarrow> bool" where
  "wf_update u \<longleftrightarrow>
     length (up_component_ids u) \<le> 8 \<and> length (up_maneuver_list u) \<le> 16 \<and>
     clean (up_current_road u) \<and> length (up_current_road u) \<le> 254 \<and>
     clean (up_destination u) \<and> length (up_destination u) \<le> 254 \<and>
     clean (up_source_name u) \<and> length (up_source_name u) \<le> 63 \<and>
     0 \<notin> set (up_distance_string u) \<and> length (up_distance_string u) \<le> 63 \<and>
     0 \<notin> set (up_dist_to_maneuver_string u) \<and> length (up_dist_to_maneuver_string u) \<le> 63"

lemma wf_zero_update: "wf_update zero_update"
  by (simp add: wf_update_def zero_update_def clean_def)

text \<open>The last TLV with identifier i whose value has at least n bytes.\<close>

definition last_val :: "(u16 \<times> bytes) list \<Rightarrow> u16 \<Rightarrow> nat \<Rightarrow> bytes option" where
  "last_val ts i n = fold (\<lambda>(j, v) r. if j = i \<and> n \<le> length v then Some v else r) ts None"

lemma last_val_Nil [simp]: "last_val [] i n = None"
  by (simp add: last_val_def)

lemma last_val_snoc [simp]:
  "last_val (ts @ [(j, v)]) i n = (if j = i \<and> n \<le> length v then Some v else last_val ts i n)"
  by (simp add: last_val_def)

lemma last_val_Some:
  "last_val ts i n = Some v \<Longrightarrow> (i, v) \<in> set ts \<and> n \<le> length v"
  by (induction ts rule: rev_induct) (auto split: if_splits)

definition field :: "'a \<Rightarrow> (bytes \<Rightarrow> 'a) \<Rightarrow> bytes option \<Rightarrow> 'a" where
  "field d g r = (case r of None \<Rightarrow> d | Some v \<Rightarrow> g v)"

lemma field_None [simp]: "field d g None = d" and field_Some [simp]: "field d g (Some v) = g v"
  by (simp_all add: field_def)

definition w8 :: "bytes \<Rightarrow> u8" where "w8 v = v ! 0"
definition w16 :: "bytes \<Rightarrow> u16" where "w16 v = be16 (v ! 0) (v ! 1)"
definition w32 :: "bytes \<Rightarrow> u32" where "w32 v = be32 (v ! 0) (v ! 1) (v ! 2) (v ! 3)"
definition w64 :: "bytes \<Rightarrow> u64" where
  "w64 v = be64 (be32 (v ! 0) (v ! 1) (v ! 2) (v ! 3)) (be32 (v ! 4) (v ! 5) (v ! 6) (v ! 7))"

lemma read_w:
  "1 \<le> length v \<Longrightarrow> rd8 v 0 = Some (w8 v)"
  "2 \<le> length v \<Longrightarrow> read_be16 v 0 = Some (w16 v)"
  "4 \<le> length v \<Longrightarrow> read_be32 v 0 = Some (w32 v)"
  "8 \<le> length v \<Longrightarrow> read_be64 v 0 = Some (w64 v)"
  by (auto simp: rd8_def read_be16_in read_be32_in read_be64_in w8_def w16_def w32_def w64_def
      numeral_2_eq_2)

text \<open>The least value length of each identifier of 0x5201; None for the ones that are skipped.\<close>

definition upd_min :: "u16 \<Rightarrow> nat option" where
  "upd_min i =
     (if i \<in> {0, 3, 4, 8, 0xB, 0xD, 0x13} then Some 0
      else if i \<in> {1, 2, 9, 0xC, 0xF, 0x12, 0x14} then Some 1
      else if i \<in> {0xE, 0x10, 0x11} then Some 2
      else if i \<in> {7, 0xA} then Some 4
      else if i \<in> {5, 6} then Some 8 else None)"

text \<open>The presence bit of each identifier: the bits of ManeuverList and ManeuverCount are swapped.\<close>

definition upd_bit :: "u16 \<Rightarrow> nat" where
  "upd_bit i = (if i = 0xD then 14 else if i = 0xE then 13 else unat i)"

definition upd_flag :: "u16 \<times> bytes \<Rightarrow> u64" where
  "upd_flag t = (case upd_min (fst t) of None \<Rightarrow> 0
     | Some n \<Rightarrow> if n \<le> length (snd t) then flag (upd_bit (fst t)) else 0)"

definition update_spec :: "(u16 \<times> bytes) list \<Rightarrow> rgd_update" where
  "update_spec ts =
     (let f8 = (\<lambda>i. field 0 w8 (last_val ts i 1)); f16 = (\<lambda>i. field 0 w16 (last_val ts i 2));
          f32 = (\<lambda>i. field 0 w32 (last_val ts i 4)); f64 = (\<lambda>i. field 0 w64 (last_val ts i 8));
          arr = (\<lambda>n i. field [] (\<lambda>v. take n (u16_chunks v)) (last_val ts i 0));
          str = (\<lambda>n i. field [] (c_str n) (last_val ts i 0));
          line = (\<lambda>n i. field [] (\<lambda>v. replace_newlines (c_str n v) (n + 1)) (last_val ts i 0))
      in \<lparr>up_present = fold (\<lambda>t p. p OR upd_flag t) ts 0,
          up_component_ids = arr 8 0, up_route_state = f8 1, up_maneuver_state = f8 2,
          up_distance_units = f8 9, up_dist_to_maneuver_units = f8 0xC, up_visible_in_app = f8 0xF,
          up_lane_guidance_showing = f8 0x12, up_source_supports_rg = f8 0x14,
          up_maneuver_count = f16 0xE, up_lane_guidance_index = f16 0x10,
          up_lane_guidance_slot = 0, up_lane_guidance_total = f16 0x11,
          up_distance_remaining = f32 7, up_dist_to_maneuver = f32 0xA,
          up_eta = f64 5, up_time_remaining = f64 6,
          up_current_road = line 255 3, up_destination = line 255 4,
          up_distance_string = str 63 8, up_dist_to_maneuver_string = str 63 0xB,
          up_source_name = line 63 0x13, up_maneuver_list = arr 16 0xD\<rparr>)"

lemma update_spec_Nil: "update_spec [] = zero_update"
  by (simp add: update_spec_def zero_update_def Let_def)

lemmas upd_cases =
  upd_tlv_def update_spec_def upd_set_def upd_flag_def upd_min_def upd_bit_def Let_def
  read_u16_list_eq read_w

lemma update_spec_snoc: "upd_tlv i v (update_spec ts) = Some (update_spec (ts @ [(i, v)]))"
proof -
  consider "i = 0" | "i = 1" | "i = 2" | "i = 3" | "i = 4" | "i = 5" | "i = 6" | "i = 7" | "i = 8"
    | "i = 9" | "i = 0xA" | "i = 0xB" | "i = 0xC" | "i = 0xD" | "i = 0xE" | "i = 0xF"
    | "i = 0x10" | "i = 0x11" | "i = 0x12" | "i = 0x13" | "i = 0x14"
    | "i \<notin> {0, 1, 2, 3, 4, 5, 6, 7, 8, 9, 0xA, 0xB, 0xC, 0xD, 0xE, 0xF, 0x10, 0x11, 0x12, 0x13, 0x14}"
    by blast
  then show ?thesis
    by cases (simp_all add: upd_cases)
qed

lemma tlv_fold_snoc:
  "tlv_fold (\<lambda>i v s. map_option Continue (g i v s)) (ts @ [(i, v)]) s =
     Option.bind (tlv_fold (\<lambda>i v s. map_option Continue (g i v s)) ts s) (g i v)"
proof (induction ts arbitrary: s)
  case Nil
  then show ?case by (cases "g i v s") simp_all
next
  case (Cons t ts)
  obtain j w where "t = (j, w)" by fastforce
  with Cons show ?case by (cases "g j w s") simp_all
qed

lemma tlv_fold_spec:
  assumes "spec [] = s0"
    and "\<And>i v ts. g i v (spec ts) = Some (spec (ts @ [(i, v)]))"
  shows "tlv_fold (\<lambda>i v s. map_option Continue (g i v s)) ts s0 = Some (spec ts)"
proof (induction ts rule: rev_induct)
  case Nil
  then show ?case by (simp add: assms(1))
next
  case (snoc t ts)
  obtain j w where "t = (j, w)" by fastforce
  with snoc show ?case by (simp add: tlv_fold_snoc assms(2))
qed

lemma rgd_parse_update_spec:
  assumes "6 \<le> length buf"
  shows "rgd_parse_update (Some buf) = Some (update_spec (tlv_split (drop 6 buf)))"
  using assms
  by (simp add: rgd_parse_update_def tlv_walk_fold
      tlv_fold_spec [where spec = update_spec, OF update_spec_Nil update_spec_snoc])

lemmas str_bounds =
  clean_replace_newlines [OF _ c_str_no_NUL] length_replace_newlines c_str_no_NUL length_c_str

lemma upd_tlv_wf: "wf_update s \<Longrightarrow> \<exists>r. upd_tlv i v s = Some r \<and> wf_update r"
proof -
  assume s: "wf_update s"
  have line: "clean (replace_newlines (c_str 255 v) 256)" "length (replace_newlines (c_str 255 v) 256) \<le> 254"
    "clean (replace_newlines (c_str 63 v) 64)" "length (replace_newlines (c_str 63 v) 64) \<le> 63"
    using length_replace_newlines [of 256 "c_str 255 v"] length_replace_newlines [of 64 "c_str 63 v"]
    by (simp_all add: clean_replace_newlines c_str_no_NUL)
  consider "i = 0" | "i = 1" | "i = 2" | "i = 3" | "i = 4" | "i = 5" | "i = 6" | "i = 7" | "i = 8"
    | "i = 9" | "i = 0xA" | "i = 0xB" | "i = 0xC" | "i = 0xD" | "i = 0xE" | "i = 0xF"
    | "i = 0x10" | "i = 0x11" | "i = 0x12" | "i = 0x13" | "i = 0x14"
    | "i \<notin> {0, 1, 2, 3, 4, 5, 6, 7, 8, 9, 0xA, 0xB, 0xC, 0xD, 0xE, 0xF, 0x10, 0x11, 0x12, 0x13, 0x14}"
    by blast
  then show ?thesis
    using s line
    by cases (simp_all add: upd_tlv_def upd_set_def Let_def read_u16_list_eq read_w wf_update_def
        c_str_no_NUL length_c_str)
qed

interpretation upd_switch: tlv_handler "\<lambda>i v s. map_option Continue (upd_tlv i v s)" wf_update
proof
  fix s i v
  assume "wf_update s"
  then obtain r where "upd_tlv i v s = Some r" "wf_update r" using upd_tlv_wf by blast
  then show "\<exists>r. map_option Continue (upd_tlv i v s) = Some r \<and> wf_update (flow_state r)" by simp
qed

lemma rgd_parse_update_wf: "\<exists>u. rgd_parse_update pbuf = Some u \<and> wf_update u"
  by (cases pbuf) (auto simp: rgd_parse_update_def wf_zero_update intro: upd_switch.walk_total)

section \<open>0x5202\<close>

definition wf_maneuver :: "rgd_maneuver \<Rightarrow> bool" where
  "wf_maneuver m \<longleftrightarrow>
     length (mn_component_ids m) \<le> 8 \<and> length (mn_junction_angles m) \<le> 16 \<and>
     clean (mn_description m) \<and> length (mn_description m) \<le> 254 \<and>
     clean (mn_after_road_name m) \<and> length (mn_after_road_name m) \<le> 254 \<and>
     0 \<notin> set (mn_distance_string m) \<and> length (mn_distance_string m) \<le> 63 \<and>
     0 \<notin> set (mn_exit_info_str m) \<and> length (mn_exit_info_str m) \<le> 256 \<and>
     mn_lanes m = [] \<and> \<not> has (mn_present m) RGD_MAN_LANE_GUIDANCE"

lemma fill_le: "a \<le> n \<Longrightarrow> a + min b (n - a) \<le> n" for a b n :: nat
  by simp

lemma man_tlv_wf: "wf_maneuver s \<Longrightarrow> \<exists>r. man_tlv i v s = Some r \<and> wf_maneuver r"
proof -
  assume s: "wf_maneuver s"
  have line: "clean (replace_newlines (c_str 255 v) 256)" "length (replace_newlines (c_str 255 v) 256) \<le> 254"
    using length_replace_newlines [of 256 "c_str 255 v"]
    by (simp_all add: clean_replace_newlines c_str_no_NUL)
  have exit: "0 \<notin> set (copy_printable_string_preview v 257)"
    "length (copy_printable_string_preview v 257) \<le> 256"
    using copy_printable_ok [of v 256] by auto
  consider "i = 0" | "i = 1" | "i = 2" | "i = 3" | "i = 4" | "i = 5" | "i = 6" | "i = 7" | "i = 8"
    | "i = 9" | "i = 0xA" | "i = 0xB" | "i = 0xC" | "i = 0xD"
    | "i \<notin> {0, 1, 2, 3, 4, 5, 6, 7, 8, 9, 0xA, 0xB, 0xC, 0xD}"
    by blast
  then show ?thesis
    using s line exit
    by cases (simp_all add: man_tlv_def man_set_def Let_def read_u16_list_eq read_w wf_maneuver_def
        decode_linked_lane_index_def c_str_no_NUL length_c_str flag_simps fill_le)
qed

interpretation man_switch: tlv_handler "\<lambda>i v s. map_option Continue (man_tlv i v s)" wf_maneuver
proof
  fix s i v
  assume "wf_maneuver s"
  then obtain r where "man_tlv i v s = Some r" "wf_maneuver r" using man_tlv_wf by blast
  then show "\<exists>r. map_option Continue (man_tlv i v s) = Some r \<and> wf_maneuver (flow_state r)" by simp
qed

text \<open>What 0x5202 sets for each identifier: the presence bits of a TLV.\<close>

definition man_flag :: "u16 \<times> bytes \<Rightarrow> u64" where
  "man_flag t = (let n = length (snd t) in case t of (i, _) \<Rightarrow>
     if i = 0xC then flag 12 OR (if 2 \<le> n then flag 16 else 0)
     else if i = 0xD then flag 13 OR flag 14
     else if i \<in> {0, 2, 4, 6, 0xA} \<or> i \<in> {3, 7, 8, 9} \<and> 1 \<le> n \<or> i \<in> {1, 0xB} \<and> 2 \<le> n
             \<or> i = 5 \<and> 4 \<le> n
     then flag (unat i) else 0)"

definition maneuver_spec :: "(u16 \<times> bytes) list \<Rightarrow> rgd_maneuver" where
  "maneuver_spec ts =
     (let f8 = (\<lambda>i. field 0 w8 (last_val ts i 1)); f16 = (\<lambda>d i. field d w16 (last_val ts i 2));
          line = (\<lambda>i. field [] (\<lambda>v. replace_newlines (c_str 255 v) 256) (last_val ts i 0))
      in \<lparr>mn_present = fold (\<lambda>t p. p OR man_flag t) ts 0,
          mn_component_ids = field [] (\<lambda>v. take 8 (u16_chunks v)) (last_val ts 0 0),
          mn_index = f16 0 1, mn_type = f8 3, mn_distance_units = f8 7, mn_driving_side = f8 8,
          mn_junction_type = f8 9, mn_exit_angle = f16 0 0xB,
          mn_junction_angles = take 16 (concat (map (u16_chunks \<circ> snd) (filter (\<lambda>t. fst t = 0xA) ts))),
          mn_distance_between = field 0 w32 (last_val ts 5 4),
          mn_description = line 2, mn_after_road_name = line 4,
          mn_distance_string = field [] (c_str 63) (last_val ts 6 0), mn_lanes = [],
          mn_lane_guidance_raw_len = field 0 (\<lambda>v. of_nat (length v)) (last_val ts 0xC 0),
          mn_linked_lane_guidance_index = f16 0xFFFF 0xC,
          mn_exit_info_raw_len = field 0 (\<lambda>v. of_nat (length v)) (last_val ts 0xD 0),
          mn_exit_info_str = field [] (\<lambda>v. copy_printable_string_preview v 257) (last_val ts 0xD 0)\<rparr>)"

lemma maneuver_spec_Nil: "maneuver_spec [] = zero_maneuver\<lparr>mn_linked_lane_guidance_index := 0xFFFF\<rparr>"
  by (simp add: maneuver_spec_def zero_maneuver_def Let_def)

lemma take_append_take: "take n X @ take (n - length (take n X)) Y = take n (X @ Y)"
  by (simp add: min_def)

lemmas man_cases =
  man_tlv_def maneuver_spec_def man_set_def man_flag_def Let_def read_u16_list_eq read_w
  decode_linked_lane_index_def or.assoc

lemma maneuver_spec_snoc: "man_tlv i v (maneuver_spec ts) = Some (maneuver_spec (ts @ [(i, v)]))"
proof -
  consider "i = 0" | "i = 1" | "i = 2" | "i = 3" | "i = 4" | "i = 5" | "i = 6" | "i = 7" | "i = 8"
    | "i = 9" | "i = 0xA" | "i = 0xB" | "i = 0xC" | "i = 0xD"
    | "i \<notin> {0, 1, 2, 3, 4, 5, 6, 7, 8, 9, 0xA, 0xB, 0xC, 0xD}"
    by blast
  then show ?thesis
    by cases (simp_all add: man_cases min_def)
qed

definition default_exit_angle :: "rgd_maneuver \<Rightarrow> rgd_maneuver" where
  "default_exit_angle m =
     (if has (mn_present m) RGD_MAN_INDEX \<and> \<not> has (mn_present m) RGD_MAN_EXIT_ANGLE
      then man_set RGD_MAN_EXIT_ANGLE (m\<lparr>mn_exit_angle := 1000\<rparr>) else m)"

lemma rgd_parse_maneuver_spec:
  assumes "6 \<le> length buf"
  shows "rgd_parse_maneuver (Some buf) =
           Some (default_exit_angle (maneuver_spec (tlv_split (drop 6 buf))))"
  using assms
  by (simp add: rgd_parse_maneuver_def tlv_walk_fold Let_def default_exit_angle_def
      tlv_fold_spec [where spec = maneuver_spec, OF maneuver_spec_Nil maneuver_spec_snoc])

lemma wf_default_exit_angle: "wf_maneuver m \<Longrightarrow> wf_maneuver (default_exit_angle m)"
  by (simp add: wf_maneuver_def default_exit_angle_def man_set_def flag_simps)

lemma rgd_parse_maneuver_wf: "\<exists>m. rgd_parse_maneuver pbuf = Some m \<and> wf_maneuver m"
proof -
  let ?z = "zero_maneuver\<lparr>mn_linked_lane_guidance_index := 0xFFFF\<rparr>"
  have z: "wf_maneuver ?z" by (simp add: wf_maneuver_def zero_maneuver_def clean_def flag_simps)
  from man_switch.walk_total [OF z] obtain m where
    "tlv_walk (\<lambda>i v s. map_option Continue (man_tlv i v s)) (the pbuf) 6 ?z = Some m" "wf_maneuver m"
    by blast
  with z wf_default_exit_angle [of m] show ?thesis
    by (cases pbuf) (auto simp: rgd_parse_maneuver_def Let_def default_exit_angle_def)
qed

section \<open>0x5204\<close>

text \<open>The angles of one laneAngles value: pairs of bytes, and a last odd byte on its own.\<close>

fun angle_vals :: "bytes \<Rightarrow> u16 list" where
  "angle_vals (a # b # r) = be16 a b # angle_vals r"
| "angle_vals [a] = [ucast a]"
| "angle_vals [] = []"

definition fallback_direction :: "u16 \<Rightarrow> u16 list \<Rightarrow> u16" where
  "fallback_direction d as =
     (if d = 1000 then case dropWhile (\<lambda>a. a = 1000) as of [] \<Rightarrow> 1000 | a # _ \<Rightarrow> a else d)"

definition add_angles :: "bool \<Rightarrow> u16 list \<Rightarrow> rgd_lane \<Rightarrow> rgd_lane" where
  "add_angles hl vals lane =
     (let as = take (16 - length (ln_angles lane)) vals in
      lane\<lparr>ln_angles := ln_angles lane @ as,
           ln_direction := (if hl then ln_direction lane else fallback_direction (ln_direction lane) as)\<rparr>)"

lemma angle_vals_drop2:
  "Suc p < length sv \<Longrightarrow> angle_vals (drop p sv) = be16 (sv ! p) (sv ! Suc p) # angle_vals (drop (p + 2) sv)"
  by (metis Cons_nth_drop_Suc Suc_lessD add_2_eq_Suc' angle_vals.simps(1))

lemma angle_vals_drop1:
  "p < length sv \<Longrightarrow> \<not> Suc p < length sv \<Longrightarrow> angle_vals (drop p sv) = [ucast (sv ! p)]"
  by (metis Cons_nth_drop_Suc angle_vals.simps(2) drop_all linorder_not_less)

lemma add_angles_Nil: "add_angles hl [] lane = lane"
  by (cases lane) (simp add: add_angles_def fallback_direction_def)

lemma add_angles_full: "\<not> length (ln_angles lane) < 16 \<Longrightarrow> add_angles hl vals lane = lane"
  by (cases lane) (simp add: add_angles_def fallback_direction_def)

lemma add_angles_Cons:
  assumes "length (ln_angles lane) < 16"
  shows "add_angles hl (a # vals) lane =
    add_angles hl vals
      (let lane = lane\<lparr>ln_angles := ln_angles lane @ [a]\<rparr>
       in if \<not> hl \<and> ln_direction lane = 1000 then lane\<lparr>ln_direction := a\<rparr> else lane)"
proof -
  have k: "16 - length (ln_angles lane) = Suc (15 - length (ln_angles lane))"
    using assms by simp
  show ?thesis
    by (simp add: add_angles_def Let_def k fallback_direction_def)
qed

lemma lane_angles_loop_eq:
  "lane_angles_loop sv p hl lane = Some (add_angles hl (angle_vals (drop p sv)) lane)"
proof (induction "length sv - p" arbitrary: p lane rule: less_induct)
  case less
  show ?case
  proof (cases "p < length sv \<and> length (ln_angles lane) < 16")
    case False
    then show ?thesis
      by (subst lane_angles_loop.simps) (auto simp: add_angles_full add_angles_Nil)
  next
    case True
    show ?thesis
    proof (cases "Suc p < length sv")
      case two: True
      with True less [of "p + 2"] show ?thesis
        by (subst lane_angles_loop.simps)
           (simp add: read_simps angle_vals_drop2 add_angles_Cons Let_def)
    next
      case one: False
      with True less [of "p + 1"] show ?thesis
        by (subst lane_angles_loop.simps)
           (simp add: read_simps angle_vals_drop1 add_angles_Cons Let_def add_angles_Nil)
    qed
  qed
qed

definition wf_lane :: "rgd_lane \<Rightarrow> bool" where
  "wf_lane l \<longleftrightarrow> length (ln_angles l) \<le> 16 \<and> 0 \<notin> set (ln_description l) \<and> length (ln_description l) \<le> 63"

definition wf_lane_st :: "nat \<Rightarrow> lane_st \<Rightarrow> bool" where
  "wf_lane_st out_max st \<longleftrightarrow>
     length (lp_lanes st) \<le> out_max \<and> lp_idx st < int (length (lp_lanes st)) \<and>
     (\<forall>l \<in> set (lp_lanes st). wf_lane l)"

lemma wf_lane_reset: "wf_lane (rgd_lane_reset p)"
  by (simp add: wf_lane_def rgd_lane_reset_def zero_lane_def)

lemma wf_add_angles: "wf_lane l \<Longrightarrow> wf_lane (add_angles hl vals l)"
  by (simp add: wf_lane_def add_angles_def Let_def fill_le)

lemma wf_lane_fields [simp]:
  "wf_lane (l\<lparr>ln_position := p\<rparr>) = wf_lane l" "wf_lane (l\<lparr>ln_direction := d\<rparr>) = wf_lane l"
  "wf_lane (l\<lparr>ln_status := x\<rparr>) = wf_lane l"
  by (simp_all add: wf_lane_def)

lemma upd_lane_wf:
  assumes "wf_lane_st n st" "0 \<le> lp_idx st" "\<And>l. wf_lane l \<Longrightarrow> \<exists>r. g l = Some r \<and> wf_lane r"
  shows "\<exists>st'. upd_lane (lp_idx st) g st = Some st' \<and> wf_lane_st n st' \<and> wf_lane_st n (st'\<lparr>lp_highlight := h\<rparr>)"
proof -
  have i: "nat (lp_idx st) < length (lp_lanes st)"
    using assms(1,2) by (auto simp: wf_lane_st_def)
  then have "wf_lane (lp_lanes st ! nat (lp_idx st))"
    using assms(1) by (auto simp: wf_lane_st_def)
  then obtain r where "g (lp_lanes st ! nat (lp_idx st)) = Some r" "wf_lane r"
    using assms(3) by blast
  with i assms(1,2) show ?thesis
    by (auto simp: upd_lane_def wf_lane_st_def dest!: set_update_subset_insert [THEN subsetD])
qed

lemma lane_open_wf:
  "wf_lane_st n st \<Longrightarrow> lane_open n st = Some st' \<Longrightarrow> wf_lane_st n st' \<and> 0 \<le> lp_idx st'"
  by (auto simp: lane_open_def wf_lane_st_def wf_lane_reset split: if_splits)

lemma lane_sub_wf:
  assumes "wf_lane_st n st"
  shows "\<exists>r. lane_sub n i v st = Some r \<and> wf_lane_st n (flow_state r)"
proof -
  consider (idx) "i = 0" | (sub) "i = 1 \<or> i = 2 \<or> i = 3" "i \<noteq> 0" | (other) "i \<notin> {0, 1, 2, 3}" by auto
  then show ?thesis
  proof cases
    case idx
    with assms show ?thesis
      by (auto simp: lane_sub_def read_w Let_def wf_lane_st_def wf_lane_reset)
  next
    case sub
    show ?thesis
    proof (cases "lane_open n st")
      case None
      with sub assms show ?thesis by (auto simp: lane_sub_def)
    next
      case (Some st1)
      with assms have w: "wf_lane_st n st1" "0 \<le> lp_idx st1" using lane_open_wf by blast+
      let ?d = "if 2 \<le> length v then w16 v else ucast (w8 v)"
      obtain a where a: "upd_lane (lp_idx st1) (\<lambda>l. Some (l\<lparr>ln_status := w8 v\<rparr>)) st1 = Some a" "wf_lane_st n a"
        using upd_lane_wf [OF w, of "\<lambda>l. Some (l\<lparr>ln_status := w8 v\<rparr>)"] by auto
      obtain b where b: "upd_lane (lp_idx st1) (lane_angles_loop v 0 (lp_highlight st1)) st1 = Some b" "wf_lane_st n b"
        using upd_lane_wf [OF w, of "lane_angles_loop v 0 (lp_highlight st1)"]
        by (auto simp: lane_angles_loop_eq wf_add_angles)
      obtain c where c: "upd_lane (lp_idx st1) (\<lambda>l. Some (l\<lparr>ln_direction := ?d\<rparr>)) st1 = Some c"
          "wf_lane_st n (c\<lparr>lp_highlight := True\<rparr>)"
        using upd_lane_wf [OF w, of "\<lambda>l. Some (l\<lparr>ln_direction := ?d\<rparr>)" True] by auto
      have d: "1 \<le> length v \<Longrightarrow>
          (if 2 \<le> length v then read_be16 v 0 else map_option ucast (rd8 v 0)) = Some ?d"
        by (simp add: read_w)
      show ?thesis
        using sub Some w a b c d by (auto simp: lane_sub_def read_w)
    qed
  next
    case other
    with assms show ?thesis by (simp add: lane_sub_def)
  qed
qed

interpretation lane_switch: tlv_handler "lane_sub n" "wf_lane_st n" for n
  by unfold_locales (rule lane_sub_wf)

lemma rgd_parse_lane_information_value_wf:
  "\<exists>ls. rgd_parse_lane_information_value v n = Some ls \<and> length ls \<le> n \<and> (\<forall>l \<in> set ls. wf_lane l)"
proof -
  let ?s = "\<lparr>lp_lanes = [], lp_idx = -1, lp_highlight = False, lp_saw = False\<rparr>"
  have "wf_lane_st n ?s" by (simp add: wf_lane_st_def)
  from lane_switch.walk_total [OF this, of v 0] show ?thesis
    by (auto simp: rgd_parse_lane_information_value_def wf_lane_st_def)
qed

definition wf_lane_guidance :: "rgd_lane_guidance \<Rightarrow> bool" where
  "wf_lane_guidance g \<longleftrightarrow>
     length (lg_component_ids g) \<le> 8 \<and> length (lg_lanes g) \<le> 8 \<and> (\<forall>l \<in> set (lg_lanes g). wf_lane l) \<and>
     0 \<notin> set (lg_description g) \<and> length (lg_description g) \<le> 63"

lemma lane_tlv_wf: "wf_lane_guidance s \<Longrightarrow> \<exists>r. lane_tlv i v s = Some r \<and> wf_lane_guidance r"
proof -
  assume s: "wf_lane_guidance s"
  consider "i = 0" | "i = 1" | (info) "i = 2" | "i = 3" | "i \<notin> {0, 1, 2, 3}" by auto
  then show ?thesis
  proof cases
    case info
    obtain ls where ls: "rgd_parse_lane_information_value v (8 - length (lg_lanes s)) = Some ls"
        "\<forall>l \<in> set ls. wf_lane l"
      using rgd_parse_lane_information_value_wf by blast
    have "length (lg_lanes s) + min (length ls) (8 - length (lg_lanes s)) \<le> 8"
      using s by (intro fill_le) (simp add: wf_lane_guidance_def)
    with info s ls show ?thesis
      by (auto simp: lane_tlv_def Let_def lane_set_def wf_lane_guidance_def dest: in_set_takeD)
  next
    assume "i = 0"
    moreover have "length (lg_component_ids s) + min (length (u16_chunks v)) (8 - length (lg_component_ids s)) \<le> 8"
      using s by (intro fill_le) (simp add: wf_lane_guidance_def)
    ultimately show ?thesis
      using s by (auto simp: lane_tlv_def Let_def lane_set_def wf_lane_guidance_def read_u16_list_eq read_simps)
  qed (use s in \<open>auto simp: lane_tlv_def Let_def lane_set_def wf_lane_guidance_def read_w
      c_str_no_NUL length_c_str\<close>)
qed

interpretation lane_msg_switch: tlv_handler "\<lambda>i v s. map_option Continue (lane_tlv i v s)" wf_lane_guidance
proof
  fix s i v
  assume "wf_lane_guidance s"
  then obtain r where "lane_tlv i v s = Some r" "wf_lane_guidance r" using lane_tlv_wf by blast
  then show "\<exists>r. map_option Continue (lane_tlv i v s) = Some r \<and> wf_lane_guidance (flow_state r)" by simp
qed

lemma wf_zero_lane_guidance: "wf_lane_guidance zero_lane_guidance"
  by (simp add: wf_lane_guidance_def zero_lane_guidance_def)

lemma rgd_parse_lane_guidance_wf: "\<exists>g. rgd_parse_lane_guidance pbuf = Some g \<and> wf_lane_guidance g"
  by (cases pbuf)
     (auto simp: rgd_parse_lane_guidance_def wf_zero_lane_guidance intro: lane_msg_switch.walk_total)

end
