(* ===== verification/Rgd_State.thy ===== *)
theory Rgd_State
  imports Rgd_Tlv_Props
begin

text \<open>
  The state g_rgd of native/routeguidance/rgd_hook.c and its two slot tables: iOS numbers
  maneuvers and lane events without bound, the hook keeps the last ones in 32 slots each and
  publishes slot numbers. Arrays of 32 entries are lists; current_list is the used part of its
  array. A result None is an access outside an array.
\<close>

abbreviation RGD_STATE_REROUTING :: u8 where "RGD_STATE_REROUTING \<equiv> 5"
abbreviation NO_INDEX :: u16 where "NO_INDEX \<equiv> 0xFFFF"
abbreviation UINT32_MAX :: u32 where "UINT32_MAX \<equiv> 0xFFFFFFFF"

record rgd_state =
  g_active :: bool
  g_sent_5200 :: bool
  g_sent_5203 :: bool
  g_got_520x :: bool
  g_component_id :: u16
  g_component_valid :: bool
  g_last_5200_ms :: u64
  g_start_5200_attempts :: u32
  g_have_update :: bool
  g_last_route_state :: u8
  g_state_zero_started_ms :: u64
  g_state_zero_deadline_ms :: u64
  g_state_zero_from_reroute :: bool
  g_emitted_route_state :: u8
  g_current_list :: "u16 list"
  g_current_list_present :: bool
  g_slot_to_iap_idx :: "u16 list"
  g_slot_seq :: "u32 list"
  g_slot_ver :: "u32 list"
  g_seq_counter :: u32
  g_ver_counter :: u32
  g_highest_list_index :: u16
  g_lane_slot_to_iap_idx :: "u16 list"
  g_lane_slot_seq :: "u32 list"
  g_lane_seq_counter :: u32
  g_lane_cache :: "rgd_lane_guidance list"
  g_slot_cache :: "rgd_maneuver list"
  g_update_cache :: rgd_update

definition zero_rgd :: rgd_state where
  "zero_rgd = \<lparr>g_active = False, g_sent_5200 = False, g_sent_5203 = False, g_got_520x = False,
     g_component_id = 0x0010, g_component_valid = False, g_last_5200_ms = 0,
     g_start_5200_attempts = 0, g_have_update = False, g_last_route_state = 0,
     g_state_zero_started_ms = 0, g_state_zero_deadline_ms = 0, g_state_zero_from_reroute = False,
     g_emitted_route_state = 0, g_current_list = [], g_current_list_present = False,
     g_slot_to_iap_idx = replicate MANEUVER_CACHE_SIZE 0,
     g_slot_seq = replicate MANEUVER_CACHE_SIZE 0, g_slot_ver = replicate MANEUVER_CACHE_SIZE 0,
     g_seq_counter = 0, g_ver_counter = 0, g_highest_list_index = 0,
     g_lane_slot_to_iap_idx = replicate MANEUVER_CACHE_SIZE 0,
     g_lane_slot_seq = replicate MANEUVER_CACHE_SIZE 0, g_lane_seq_counter = 0,
     g_lane_cache = replicate MANEUVER_CACHE_SIZE zero_lane_guidance,
     g_slot_cache = replicate MANEUVER_CACHE_SIZE zero_maneuver, g_update_cache = zero_update\<rparr>"

section \<open>The merged update\<close>

definition rgd_update_cache_reset :: "rgd_state \<Rightarrow> rgd_state" where
  "rgd_update_cache_reset g = g\<lparr>g_update_cache := zero_update\<rparr>"

definition rgd_update_has_active_evidence :: "rgd_update \<Rightarrow> bool" where
  "rgd_update_has_active_evidence upd \<longleftrightarrow>
     (has (up_present upd) RGD_UPD_ROUTE_STATE \<and> up_route_state upd > 0) \<or>
     (has (up_present upd) RGD_UPD_MANEUVER_COUNT \<and> up_maneuver_count upd > 0) \<or>
     (has (up_present upd) RGD_UPD_MANEUVER_LIST \<and> length (up_maneuver_list upd) > 0) \<or>
     (has (up_present upd) RGD_UPD_DIST_TO_MANEUVER \<and> up_dist_to_maneuver upd > 0) \<or>
     (has (up_present upd) RGD_UPD_DISTANCE_REMAINING \<and> up_distance_remaining upd > 0) \<or>
     (has (up_present upd) RGD_UPD_DESTINATION \<and> up_destination upd \<noteq> []) \<or>
     (has (up_present upd) RGD_UPD_CURRENT_ROAD \<and> up_current_road upd \<noteq> [])"

definition merge_update :: "rgd_update \<Rightarrow> rgd_update \<Rightarrow> rgd_update" where
  "merge_update upd c = (let p = (\<lambda>m. has (up_present upd) m) in
     \<lparr>up_present = up_present c OR up_present upd,
      up_component_ids = (if p RGD_UPD_COMPONENT_IDS then take MAX_COMPONENT_LIST (up_component_ids upd)
                          else up_component_ids c),
      up_route_state = (if p RGD_UPD_ROUTE_STATE then up_route_state upd else up_route_state c),
      up_maneuver_state = (if p RGD_UPD_MANEUVER_STATE then up_maneuver_state upd else up_maneuver_state c),
      up_distance_units = (if p RGD_UPD_DISTANCE_UNITS then up_distance_units upd else up_distance_units c),
      up_dist_to_maneuver_units = (if p RGD_UPD_DIST_TO_MANEUVER_UNI then up_dist_to_maneuver_units upd
                                   else up_dist_to_maneuver_units c),
      up_visible_in_app = (if p RGD_UPD_VISIBLE_IN_APP then up_visible_in_app upd else up_visible_in_app c),
      up_lane_guidance_showing = (if p RGD_UPD_LANE_SHOWING then up_lane_guidance_showing upd
                                  else up_lane_guidance_showing c),
      up_source_supports_rg = (if p RGD_UPD_SOURCE_SUPPORTS_RG then up_source_supports_rg upd
                               else up_source_supports_rg c),
      up_maneuver_count = (if p RGD_UPD_MANEUVER_COUNT then up_maneuver_count upd else up_maneuver_count c),
      up_lane_guidance_index = (if p RGD_UPD_LANE_INDEX then up_lane_guidance_index upd
                                else up_lane_guidance_index c),
      up_lane_guidance_slot = (if p RGD_UPD_LANE_SLOT then up_lane_guidance_slot upd
                               else up_lane_guidance_slot c),
      up_lane_guidance_total = (if p RGD_UPD_LANE_TOTAL then up_lane_guidance_total upd
                                else up_lane_guidance_total c),
      up_distance_remaining = (if p RGD_UPD_DISTANCE_REMAINING then up_distance_remaining upd
                               else up_distance_remaining c),
      up_dist_to_maneuver = (if p RGD_UPD_DIST_TO_MANEUVER then up_dist_to_maneuver upd
                             else up_dist_to_maneuver c),
      up_eta = (if p RGD_UPD_ETA then up_eta upd else up_eta c),
      up_time_remaining = (if p RGD_UPD_TIME_REMAINING then up_time_remaining upd else up_time_remaining c),
      up_current_road = (if p RGD_UPD_CURRENT_ROAD then up_current_road upd else up_current_road c),
      up_destination = (if p RGD_UPD_DESTINATION then up_destination upd else up_destination c),
      up_distance_string = (if p RGD_UPD_DISTANCE_STRING then up_distance_string upd
                            else up_distance_string c),
      up_dist_to_maneuver_string = (if p RGD_UPD_DIST_TO_MANEUVER_STR then up_dist_to_maneuver_string upd
                                    else up_dist_to_maneuver_string c),
      up_source_name = (if p RGD_UPD_SOURCE_NAME then up_source_name upd else up_source_name c),
      up_maneuver_list = (if p RGD_UPD_MANEUVER_LIST then take MAX_MANEUVER_LIST (up_maneuver_list upd)
                          else up_maneuver_list c)\<rparr>)"

definition rgd_update_cache_merge :: "rgd_update \<Rightarrow> rgd_state \<Rightarrow> rgd_state" where
  "rgd_update_cache_merge upd g = g\<lparr>g_update_cache := merge_update upd (g_update_cache g)\<rparr>"

section \<open>The slot tables\<close>

definition slot_ids :: "nat list" where
  "slot_ids = [0..<MANEUVER_CACHE_SIZE]"

lemma set_slot_ids: "k \<in> set slot_ids \<longleftrightarrow> k < 32"
  by (simp only: slot_ids_def set_upt atLeastLessThan_iff) simp

text \<open>The first slot of an index array with a given value.\<close>

definition find_idx :: "u16 \<Rightarrow> u16 list \<Rightarrow> nat option" where
  "find_idx idx arr = find (\<lambda>s. arr ! s = idx) slot_ids"

text \<open>The loop for the oldest slot: the running minimum of seq over the slots not skipped.\<close>

definition oldest_slot :: "(nat \<Rightarrow> bool) \<Rightarrow> u32 list \<Rightarrow> nat option" where
  "oldest_slot skip seq =
     snd (fold (\<lambda>s (best, victim). if skip s then (best, victim)
                  else if seq ! s < best then (seq ! s, Some s) else (best, victim))
           slot_ids (UINT32_MAX, None))"

definition rgd_maneuver_map_reset :: "rgd_state \<Rightarrow> rgd_state" where
  "rgd_maneuver_map_reset g = g\<lparr>
     g_current_list_present := False, g_current_list := [],
     g_seq_counter := 0, g_ver_counter := 0, g_lane_seq_counter := 0, g_highest_list_index := 0,
     g_slot_to_iap_idx := replicate MANEUVER_CACHE_SIZE NO_INDEX,
     g_slot_seq := replicate MANEUVER_CACHE_SIZE 0,
     g_slot_ver := replicate MANEUVER_CACHE_SIZE 0,
     g_slot_cache := map (\<lambda>m. m\<lparr>mn_present := 0\<rparr>) (g_slot_cache g),
     g_lane_slot_to_iap_idx := replicate MANEUVER_CACHE_SIZE NO_INDEX,
     g_lane_slot_seq := replicate MANEUVER_CACHE_SIZE 0,
     g_lane_cache := map (\<lambda>l. l\<lparr>lg_present := 0\<rparr>) (g_lane_cache g)\<rparr>"

text \<open>None is the -1 of an empty list.\<close>

definition rgd_min_current_index :: "rgd_state \<Rightarrow> u16 option" where
  "rgd_min_current_index g = (case g_current_list g of [] \<Rightarrow> None
     | x # xs \<Rightarrow> Some (fold (\<lambda>i m. if i < m then i else m) xs x))"

definition rgd_can_process_maneuver_index :: "u16 \<Rightarrow> rgd_state \<Rightarrow> bool" where
  "rgd_can_process_maneuver_index idx g =
     (if \<not> g_have_update g then False
      else if \<not> g_current_list_present g then True
      else if length (g_current_list g) = 0 then True
      else if g_last_route_state g = RGD_STATE_REROUTING then True
      else case rgd_min_current_index g of None \<Rightarrow> False | Some m \<Rightarrow> idx \<ge> m)"

definition rgd_is_active_index :: "u16 \<Rightarrow> rgd_state \<Rightarrow> bool" where
  "rgd_is_active_index iap_idx g =
     (if \<not> g_current_list_present g then False else list_ex (\<lambda>i. i = iap_idx) (g_current_list g))"

definition rgd_find_slot_for_iap_index_no_touch :: "u16 \<Rightarrow> rgd_state \<Rightarrow> nat option" where
  "rgd_find_slot_for_iap_index_no_touch idx g = find_idx idx (g_slot_to_iap_idx g)"

definition rgd_is_active_lane_index :: "u16 \<Rightarrow> rgd_state \<Rightarrow> bool" where
  "rgd_is_active_lane_index lane_idx g =
     (if has (up_present (g_update_cache g)) RGD_UPD_LANE_INDEX \<and>
         up_lane_guidance_index (g_update_cache g) = lane_idx then True
      else if \<not> g_current_list_present g then False
      else list_ex (\<lambda>i. i = lane_idx \<or>
             (case rgd_find_slot_for_iap_index_no_touch i g of None \<Rightarrow> False
              | Some slot \<Rightarrow> has (mn_present (g_slot_cache g ! slot)) RGD_MAN_LINKED_LANE_INDEX \<and>
                  mn_linked_lane_guidance_index (g_slot_cache g ! slot) = lane_idx))
           (g_current_list g))"

definition rgd_slot_for_iap_index :: "u16 \<Rightarrow> bool \<Rightarrow> rgd_state \<Rightarrow> (nat option \<times> rgd_state) option" where
  "rgd_slot_for_iap_index idx create g = (case find_idx idx (g_slot_to_iap_idx g) of
     Some s \<Rightarrow>
       let c = g_seq_counter g + 1
       in Some (Some s, g\<lparr>g_seq_counter := c, g_slot_seq := (g_slot_seq g)[s := c]\<rparr>)
   | None \<Rightarrow>
       if \<not> create then Some (None, g)
       else
         let c = g_seq_counter g + 1; v = g_ver_counter g + 1;
             assign = (\<lambda>s. g\<lparr>g_slot_to_iap_idx := (g_slot_to_iap_idx g)[s := idx],
                             g_seq_counter := c, g_slot_seq := (g_slot_seq g)[s := c],
                             g_ver_counter := v, g_slot_ver := (g_slot_ver g)[s := v]\<rparr>)
         in (case find_idx NO_INDEX (g_slot_to_iap_idx g) of
           Some s \<Rightarrow> Some (Some s, assign s)
         | None \<Rightarrow>
             let victim = (case oldest_slot (\<lambda>s. rgd_is_active_index (g_slot_to_iap_idx g ! s) g) (g_slot_seq g) of
                   Some s \<Rightarrow> Some s
                 | None \<Rightarrow> oldest_slot (\<lambda>_. False) (g_slot_seq g))
             in (case victim of None \<Rightarrow> None
               | Some s \<Rightarrow> Some (Some s, (assign s)\<lparr>g_slot_cache := (g_slot_cache g)[s := zero_maneuver]\<rparr>))))"

definition rgd_lane_slot_for_iap_index :: "u16 \<Rightarrow> bool \<Rightarrow> rgd_state \<Rightarrow> nat option \<times> rgd_state" where
  "rgd_lane_slot_for_iap_index idx create g = (case find_idx idx (g_lane_slot_to_iap_idx g) of
     Some s \<Rightarrow>
       let c = g_lane_seq_counter g + 1
       in (Some s, g\<lparr>g_lane_seq_counter := c, g_lane_slot_seq := (g_lane_slot_seq g)[s := c]\<rparr>)
   | None \<Rightarrow>
       if \<not> create then (None, g)
       else
         let c = g_lane_seq_counter g + 1;
             assign = (\<lambda>s. g\<lparr>g_lane_slot_to_iap_idx := (g_lane_slot_to_iap_idx g)[s := idx],
                             g_lane_seq_counter := c, g_lane_slot_seq := (g_lane_slot_seq g)[s := c]\<rparr>)
         in (case find_idx NO_INDEX (g_lane_slot_to_iap_idx g) of
           Some s \<Rightarrow> (Some s, assign s)
         | None \<Rightarrow>
             let victim = (case oldest_slot (\<lambda>s. rgd_is_active_lane_index (g_lane_slot_to_iap_idx g ! s) g)
                                            (g_lane_slot_seq g) of
                   Some s \<Rightarrow> s
                 | None \<Rightarrow> (case oldest_slot (\<lambda>_. False) (g_lane_slot_seq g) of Some s \<Rightarrow> s | None \<Rightarrow> 0))
             in (Some victim, (assign victim)\<lparr>g_lane_cache := (g_lane_cache g)[victim := zero_lane_guidance]\<rparr>)))"

end
