(* ===== verification/Rgd_Slots.thy ===== *)
theory Rgd_Slots
  imports Rgd_State
begin

text \<open>
  The contract of a bounded slot table as a locale, and the two tables of the hook as its
  instances: looking an index up finds the slot that was assigned to it, an assignment moves no
  other index, a free slot is taken before an occupied one, and a protected index is evicted only
  when every slot is protected. The instances hold as long as the 32-bit use counter has not
  wrapped; the invariant carries a bound for it.
\<close>

section \<open>Searching\<close>

lemma find_idx_Some:
  assumes "find_idx i arr = Some k"
  shows "k < 32 \<and> arr ! k = i"
proof -
  from assms have "k \<in> set slot_ids \<and> arr ! k = i"
    by (auto simp: find_idx_def find_Some_iff)
  then show ?thesis by (simp add: set_slot_ids)
qed

lemma find_idx_None: "find_idx i arr = None \<longleftrightarrow> (\<forall>k<32. arr ! k \<noteq> i)"
  by (auto simp: find_idx_def find_None_iff set_slot_ids)

lemma find_idx_mem: "length arr = 32 \<Longrightarrow> find_idx i arr = None \<longleftrightarrow> i \<notin> set arr"
  by (auto simp: find_idx_None in_set_conv_nth)

lemma le_UINT32_MAX: "(x :: u32) \<le> UINT32_MAX"
proof -
  have "unat x < 4294967296" using unsigned_less [of x] by simp
  then show ?thesis by (simp add: word_le_nat_alt)
qed

lemma fold_oldest:
  fixes ss :: "nat list"
  shows "case fold (\<lambda>s (best, victim). if skip s then (best, victim)
        else if seq ! s < best then (seq ! s, Some s) else (best, victim)) ss (UINT32_MAX, None) of
     (best, None) \<Rightarrow> best = UINT32_MAX \<and> (\<forall>t \<in> set ss. skip t \<or> seq ! t = UINT32_MAX)
   | (best, Some v) \<Rightarrow> v \<in> set ss \<and> \<not> skip v \<and> best = seq ! v \<and> (\<forall>t \<in> set ss. skip t \<or> seq ! v \<le> seq ! t)"
proof (induction ss rule: rev_induct)
  case Nil
  show ?case by simp
next
  case (snoc s ss)
  from snoc le_UINT32_MAX [of "seq ! s"] show ?case
    by (auto simp: not_less split: prod.splits option.splits if_splits intro: antisym order.trans)
qed

lemma oldest_slot_Some:
  assumes "oldest_slot skip seq = Some v"
  shows "v < 32 \<and> \<not> skip v \<and> (\<forall>t<32. skip t \<or> seq ! v \<le> seq ! t)"
  using assms fold_oldest [of slot_ids skip seq]
  by (auto simp: oldest_slot_def set_slot_ids split: prod.splits)

lemma oldest_slot_None:
  assumes "oldest_slot skip seq = None"
  shows "\<forall>t<32. skip t \<or> seq ! t = UINT32_MAX"
  using assms fold_oldest [of slot_ids skip seq]
  by (auto simp: oldest_slot_def set_slot_ids split: prod.splits)

section \<open>The contract\<close>

locale slot_table =
  fixes idx_of :: "'s \<Rightarrow> u16 list"
    and look :: "u16 \<Rightarrow> bool \<Rightarrow> 's \<Rightarrow> (nat option \<times> 's) option"
    and keep :: "'s \<Rightarrow> u16 \<Rightarrow> bool"
    and inv :: "nat \<Rightarrow> 's \<Rightarrow> bool"
  assumes len: "inv n s \<Longrightarrow> length (idx_of s) = 32"
    and unique: "inv n s \<Longrightarrow> a < 32 \<Longrightarrow> b < 32 \<Longrightarrow> idx_of s ! a = idx_of s ! b \<Longrightarrow>
      idx_of s ! a \<noteq> NO_INDEX \<Longrightarrow> a = b"
    and hit: "inv n s \<Longrightarrow> n < 0xFFFFFFFE \<Longrightarrow> i \<in> set (idx_of s) \<Longrightarrow>
      \<exists>k s'. look i c s = Some (Some k, s') \<and> k < 32 \<and> idx_of s ! k = i \<and> idx_of s' = idx_of s \<and>
        inv (Suc n) s' \<and> keep s' = keep s"
    and miss: "inv n s \<Longrightarrow> i \<notin> set (idx_of s) \<Longrightarrow> look i False s = Some (None, s)"
    and create: "inv n s \<Longrightarrow> n < 0xFFFFFFFE \<Longrightarrow> i \<notin> set (idx_of s) \<Longrightarrow>
      \<exists>k s'. look i True s = Some (Some k, s') \<and> k < 32 \<and> idx_of s' = (idx_of s)[k := i] \<and>
        inv (Suc n) s' \<and> (NO_INDEX \<in> set (idx_of s) \<longrightarrow> idx_of s ! k = NO_INDEX) \<and>
        (NO_INDEX \<notin> set (idx_of s) \<longrightarrow> keep s (idx_of s ! k) \<longrightarrow> (\<forall>j \<in> set (idx_of s). keep s j))"
begin

text \<open>A lookup never fails, and what it returns is the slot of the index.\<close>

lemma look_cases:
  assumes "inv n s" "n < 0xFFFFFFFE"
  obtains (none) "look i c s = Some (None, s)" "\<not> c" "i \<notin> set (idx_of s)"
  | (some) k s' where "look i c s = Some (Some k, s')" "k < 32" "idx_of s' = (idx_of s)[k := i]"
      "inv (Suc n) s'"
proof (cases "i \<in> set (idx_of s)")
  case True
  from hit [OF assms True, of c] obtain k s' where
    k: "look i c s = Some (Some k, s')" "k < 32" "idx_of s ! k = i" "idx_of s' = idx_of s" "inv (Suc n) s'"
    by blast
  then have "idx_of s' = (idx_of s)[k := i]" by (metis list_update_id)
  with k some show ?thesis by blast
next
  case False
  show ?thesis
  proof (cases c)
    case True
    from create [OF assms False] obtain k s' where
      "look i True s = Some (Some k, s')" "k < 32" "idx_of s' = (idx_of s)[k := i]" "inv (Suc n) s'"
      by blast
    with True show ?thesis by (intro some) simp_all
  next
    case c: False
    with miss [OF assms(1) False] False none show ?thesis by simp
  qed
qed

text \<open>After an assignment the same index is found, in the same slot.\<close>

lemma look_again:
  assumes "inv n s" "n < 0xFFFFFFFD" "look i c s = Some (Some k, s')" "i \<noteq> NO_INDEX"
  shows "\<exists>s''. look i False s' = Some (Some k, s'') \<and> idx_of s'' = idx_of s'"
proof -
  have n: "n < 0xFFFFFFFE" "Suc n < 0xFFFFFFFE" using assms(2) by simp_all
  have *: "inv (Suc n) s'" "k < 32" "idx_of s' ! k = i"
    using assms(3) len [OF assms(1)] by (cases rule: look_cases [OF assms(1) n(1), of i c]; simp)+
  then have "i \<in> set (idx_of s')" using len [OF *(1)] by (metis nth_mem)
  from hit [OF *(1) n(2) this, of False] obtain j s'' where
    j: "look i False s' = Some (Some j, s'')" "j < 32" "idx_of s' ! j = i" "idx_of s'' = idx_of s'"
    by blast
  moreover have "j = k" using unique [OF *(1) j(2) *(2)] j *(3) assms(4) by simp
  ultimately show ?thesis by blast
qed

text \<open>The indices in use before an assignment stay where they are, one evicted index apart.\<close>

lemma others_stay:
  assumes "inv n s" "n < 0xFFFFFFFE" "look i c s = Some (Some k, s')" "j < 32" "j \<noteq> k"
  shows "idx_of s' ! j = idx_of s ! j"
  using assms(3,5) by (cases rule: look_cases [OF assms(1,2), of i c]) simp_all

text \<open>While some index is unprotected, protected indices survive every lookup and assignment.\<close>

lemma protected_stay:
  assumes "inv n s" "n < 0xFFFFFFFE" "look i c s = Some (r, s')"
    and p: "j \<in> set (idx_of s)" "j \<noteq> NO_INDEX" "keep s j"
    and u: "\<exists>x \<in> set (idx_of s). \<not> keep s x"
  shows "j \<in> set (idx_of s')"
proof (cases "i \<in> set (idx_of s)")
  case True
  from hit [OF assms(1,2) True, of c] assms(3) p(1) show ?thesis by auto
next
  case False
  show ?thesis
  proof (cases c)
    case True
    from create [OF assms(1,2) False] assms(3) True obtain k where
      k: "k < 32" "idx_of s' = (idx_of s)[k := i]"
        "NO_INDEX \<in> set (idx_of s) \<longrightarrow> idx_of s ! k = NO_INDEX"
        "NO_INDEX \<notin> set (idx_of s) \<longrightarrow> keep s (idx_of s ! k) \<longrightarrow> (\<forall>j \<in> set (idx_of s). keep s j)"
      by auto
    from p(1) len [OF assms(1)] obtain m where m: "m < 32" "idx_of s ! m = j"
      by (auto simp: in_set_conv_nth)
    have "m \<noteq> k" using k(3,4) m(2) p(2,3) u by auto
    with k m len [OF assms(1)] show ?thesis
      by (metis length_list_update nth_list_update_neq nth_mem)
  next
    case c: False
    with miss [OF assms(1) False] assms(3) p(1) show ?thesis by simp
  qed
qed

end

section \<open>The invariant of the cache\<close>

definition idx_ok :: "u16 list \<Rightarrow> bool" where
  "idx_ok arr \<longleftrightarrow> length arr = 32 \<and>
     (\<forall>a<32. \<forall>b<32. arr ! a = arr ! b \<longrightarrow> arr ! a \<noteq> NO_INDEX \<longrightarrow> a = b)"

definition seq_ok :: "nat \<Rightarrow> u32 \<Rightarrow> u32 list \<Rightarrow> bool" where
  "seq_ok n c seq \<longleftrightarrow> length seq = 32 \<and> unat c \<le> n \<and> (\<forall>x \<in> set seq. unat x \<le> n)"

text \<open>n bounds the use counters of both tables.\<close>

definition rgd_ok :: "nat \<Rightarrow> rgd_state \<Rightarrow> bool" where
  "rgd_ok n g \<longleftrightarrow>
     idx_ok (g_slot_to_iap_idx g) \<and> idx_ok (g_lane_slot_to_iap_idx g) \<and>
     seq_ok n (g_seq_counter g) (g_slot_seq g) \<and> seq_ok n (g_lane_seq_counter g) (g_lane_slot_seq g) \<and>
     length (g_slot_ver g) = 32 \<and> length (g_slot_cache g) = 32 \<and> length (g_lane_cache g) = 32 \<and>
     (\<forall>m \<in> set (g_slot_cache g). wf_maneuver m) \<and> (\<forall>l \<in> set (g_lane_cache g). wf_lane_guidance l) \<and>
     length (g_current_list g) \<le> 16 \<and> wf_update (g_update_cache g)"

lemma idx_ok_update: "idx_ok arr \<Longrightarrow> i \<notin> set arr \<Longrightarrow> k < 32 \<Longrightarrow> idx_ok (arr[k := i])"
  by (auto simp: idx_ok_def nth_list_update in_set_conv_nth)

lemma idx_ok_free: "idx_ok (replicate 32 NO_INDEX)"
  by (simp add: idx_ok_def)

lemma seq_ok_mono: "seq_ok n c seq \<Longrightarrow> n \<le> m \<Longrightarrow> seq_ok m c seq"
  by (fastforce simp: seq_ok_def)

lemma unat_Suc_u32: "unat (c :: u32) < 0xFFFFFFFF \<Longrightarrow> unat (c + 1) = Suc (unat c)"
  by (simp add: unat_word_ariths)

lemma seq_ok_step:
  assumes "seq_ok n c seq" "n < 0xFFFFFFFE"
  shows "seq_ok (Suc n) (c + 1) (seq[k := c + 1])"
proof -
  have "unat (c + 1) \<le> Suc n" using assms by (subst unat_Suc_u32) (auto simp: seq_ok_def)
  with assms(1) show ?thesis
    by (auto simp: seq_ok_def dest!: set_update_subset_insert [THEN subsetD])
qed

lemma seq_ok_zero: "seq_ok 0 0 (replicate 32 0)"
  by (simp add: seq_ok_def)

lemma oldest_slot_exists:
  assumes "seq_ok n c seq" "n < 0xFFFFFFFE" "\<exists>t<32. \<not> skip t"
  shows "\<exists>v. oldest_slot skip seq = Some v \<and> v < 32 \<and> \<not> skip v"
proof (cases "oldest_slot skip seq")
  case None
  from assms(3) obtain t where t: "t < 32" "\<not> skip t" by blast
  with oldest_slot_None [OF None] have "seq ! t = UINT32_MAX" by blast
  moreover have "unat (seq ! t) \<le> n" using assms(1) t by (simp add: seq_ok_def)
  ultimately show ?thesis using assms(2) by simp
next
  case (Some v)
  with oldest_slot_Some show ?thesis by blast
qed

lemma rgd_ok_mono: "rgd_ok n g \<Longrightarrow> n \<le> m \<Longrightarrow> rgd_ok m g"
  by (auto simp: rgd_ok_def intro: seq_ok_mono)

lemma wf_zero_maneuver: "wf_maneuver zero_maneuver"
  by (simp add: wf_maneuver_def zero_maneuver_def clean_def has_0)

lemma ball_list_update: "\<forall>x \<in> set xs. P x \<Longrightarrow> P y \<Longrightarrow> \<forall>x \<in> set (xs[k := y]). P x"
  by (auto dest!: set_update_subset_insert [THEN subsetD])

subsection \<open>Maneuvers\<close>

lemma man_hit:
  assumes "rgd_ok n g" "n < 0xFFFFFFFE" "i \<in> set (g_slot_to_iap_idx g)"
  shows "\<exists>k g'. rgd_slot_for_iap_index i c g = Some (Some k, g') \<and> k < 32 \<and> g_slot_to_iap_idx g ! k = i \<and>
    g' = g\<lparr>g_seq_counter := g_seq_counter g + 1, g_slot_seq := (g_slot_seq g)[k := g_seq_counter g + 1]\<rparr> \<and>
    rgd_ok (Suc n) g'"
proof -
  have "length (g_slot_to_iap_idx g) = 32" using assms(1) by (simp add: rgd_ok_def idx_ok_def)
  with assms(3) obtain k where k: "find_idx i (g_slot_to_iap_idx g) = Some k"
    using find_idx_mem by (metis not_None_eq)
  let ?g = "g\<lparr>g_seq_counter := g_seq_counter g + 1, g_slot_seq := (g_slot_seq g)[k := g_seq_counter g + 1]\<rparr>"
  have "rgd_ok (Suc n) ?g"
    using assms(1,2) seq_ok_mono [of n "g_lane_seq_counter g" "g_lane_slot_seq g" "Suc n"]
    by (simp add: rgd_ok_def seq_ok_step)
  with k find_idx_Some [OF k] show ?thesis by (auto simp: rgd_slot_for_iap_index_def Let_def)
qed

lemma man_miss:
  assumes "rgd_ok n g" "i \<notin> set (g_slot_to_iap_idx g)"
  shows "rgd_slot_for_iap_index i False g = Some (None, g)"
proof -
  have "length (g_slot_to_iap_idx g) = 32" using assms(1) by (simp add: rgd_ok_def idx_ok_def)
  with assms(2) have "find_idx i (g_slot_to_iap_idx g) = None" by (simp add: find_idx_mem)
  then show ?thesis by (simp add: rgd_slot_for_iap_index_def)
qed

lemma man_assign_ok:
  assumes "rgd_ok n g" "n < 0xFFFFFFFE" "i \<notin> set (g_slot_to_iap_idx g)" "k < 32"
    "g_slot_cache g' = g_slot_cache g \<or> g_slot_cache g' = (g_slot_cache g)[k := zero_maneuver]"
    "g' = g\<lparr>g_slot_to_iap_idx := (g_slot_to_iap_idx g)[k := i], g_seq_counter := g_seq_counter g + 1,
       g_slot_seq := (g_slot_seq g)[k := g_seq_counter g + 1], g_ver_counter := g_ver_counter g + 1,
       g_slot_ver := (g_slot_ver g)[k := g_ver_counter g + 1], g_slot_cache := g_slot_cache g'\<rparr>"
  shows "rgd_ok (Suc n) g'"
proof -
  have c: "\<forall>m \<in> set (g_slot_cache g'). wf_maneuver m" "length (g_slot_cache g') = 32"
    using assms(1,5) ball_list_update [of "g_slot_cache g" wf_maneuver zero_maneuver k] wf_zero_maneuver
    by (auto simp: rgd_ok_def)
  show ?thesis
    using assms(1-4) c seq_ok_mono [of n "g_lane_seq_counter g" "g_lane_slot_seq g" "Suc n"]
    by (subst assms(6)) (simp add: rgd_ok_def seq_ok_step idx_ok_update)
qed

lemma man_create:
  assumes g: "rgd_ok n g" and n: "n < 0xFFFFFFFE" and i: "i \<notin> set (g_slot_to_iap_idx g)"
  shows "\<exists>k g'. rgd_slot_for_iap_index i True g = Some (Some k, g') \<and> k < 32 \<and>
    g_slot_to_iap_idx g' = (g_slot_to_iap_idx g)[k := i] \<and> rgd_ok (Suc n) g' \<and>
    g_update_cache g' = g_update_cache g \<and> g_current_list g' = g_current_list g \<and>
    (NO_INDEX \<in> set (g_slot_to_iap_idx g) \<longrightarrow> g_slot_to_iap_idx g ! k = NO_INDEX) \<and>
    (NO_INDEX \<notin> set (g_slot_to_iap_idx g) \<longrightarrow> rgd_is_active_index (g_slot_to_iap_idx g ! k) g \<longrightarrow>
       (\<forall>j \<in> set (g_slot_to_iap_idx g). rgd_is_active_index j g))"
proof -
  let ?idx = "g_slot_to_iap_idx g"
  have l: "length ?idx = 32" and s: "seq_ok n (g_seq_counter g) (g_slot_seq g)"
    using g by (simp_all add: rgd_ok_def idx_ok_def)
  have f: "find_idx i ?idx = None" using i l by (simp add: find_idx_mem)
  define asg where "asg k = g\<lparr>g_slot_to_iap_idx := ?idx[k := i], g_seq_counter := g_seq_counter g + 1,
       g_slot_seq := (g_slot_seq g)[k := g_seq_counter g + 1], g_ver_counter := g_ver_counter g + 1,
       g_slot_ver := (g_slot_ver g)[k := g_ver_counter g + 1]\<rparr>" for k
  show ?thesis
  proof (cases "find_idx NO_INDEX ?idx")
    case (Some k)
    from find_idx_Some [OF Some] have k: "k < 32" "?idx ! k = NO_INDEX" by auto
    have "rgd_ok (Suc n) (asg k)"
      by (rule man_assign_ok [OF g n i k(1)]) (simp_all add: asg_def)
    moreover have "rgd_slot_for_iap_index i True g = Some (Some k, asg k)"
      using f Some by (simp add: rgd_slot_for_iap_index_def asg_def Let_def)
    moreover have "NO_INDEX \<in> set ?idx" using k l by (metis nth_mem)
    ultimately show ?thesis using k by (intro exI [of _ k] exI [of _ "asg k"]) (simp add: asg_def)
  next
    case None
    let ?act = "\<lambda>t. rgd_is_active_index (?idx ! t) g"
    have "\<exists>v. (case oldest_slot ?act (g_slot_seq g) of Some s \<Rightarrow> Some s
          | None \<Rightarrow> oldest_slot (\<lambda>_. False) (g_slot_seq g)) = Some v \<and> v < 32 \<and>
          (?act v \<longrightarrow> (\<forall>t<32. ?act t))"
    proof (cases "\<exists>t<32. \<not> ?act t")
      case True
      from oldest_slot_exists [OF s n this] show ?thesis by auto
    next
      case False
      have "oldest_slot ?act (g_slot_seq g) = None"
        using False oldest_slot_Some [of ?act "g_slot_seq g"] by (cases "oldest_slot ?act (g_slot_seq g)") auto
      moreover have "\<exists>t<32. \<not> (\<lambda>_ :: nat. False) t" by (intro exI [of _ 0]) simp
      then obtain v where "oldest_slot (\<lambda>_. False) (g_slot_seq g) = Some v" "v < 32"
        using oldest_slot_exists [OF s n, of "\<lambda>_. False"] by blast
      ultimately show ?thesis using False by auto
    qed
    then obtain v where v: "(case oldest_slot ?act (g_slot_seq g) of Some s \<Rightarrow> Some s
          | None \<Rightarrow> oldest_slot (\<lambda>_. False) (g_slot_seq g)) = Some v" "v < 32"
          "?act v \<longrightarrow> (\<forall>t<32. ?act t)" by blast
    let ?g = "(asg v)\<lparr>g_slot_cache := (g_slot_cache g)[v := zero_maneuver]\<rparr>"
    have "rgd_ok (Suc n) ?g"
      by (rule man_assign_ok [OF g n i v(2)]) (simp_all add: asg_def)
    moreover have "rgd_slot_for_iap_index i True g = Some (Some v, ?g)"
      using f None v(1) by (simp add: rgd_slot_for_iap_index_def asg_def Let_def)
    moreover have "NO_INDEX \<notin> set ?idx" using None l by (simp add: find_idx_mem)
    moreover have "?act v \<longrightarrow> (\<forall>j \<in> set ?idx. rgd_is_active_index j g)"
      using v(3) l by (auto simp: in_set_conv_nth)
    ultimately show ?thesis using v(2) by (intro exI [of _ v] exI [of _ ?g]) (simp add: asg_def)
  qed
qed

interpretation man_slots: slot_table g_slot_to_iap_idx rgd_slot_for_iap_index
  "\<lambda>g i. rgd_is_active_index i g" rgd_ok
proof
  fix n g
  assume "rgd_ok n g"
  then show "length (g_slot_to_iap_idx g) = 32" by (simp add: rgd_ok_def idx_ok_def)
next
  fix n g a b
  assume "rgd_ok n g" "a < MANEUVER_CACHE_SIZE" "b < MANEUVER_CACHE_SIZE"
    "g_slot_to_iap_idx g ! a = g_slot_to_iap_idx g ! b" "g_slot_to_iap_idx g ! a \<noteq> NO_INDEX"
  then show "a = b" by (auto simp: rgd_ok_def idx_ok_def)
next
  fix n g i c
  assume "rgd_ok n g" "n < 4294967294" "i \<in> set (g_slot_to_iap_idx g)"
  from man_hit [OF this, of c] show "\<exists>k g'. rgd_slot_for_iap_index i c g = Some (Some k, g') \<and>
      k < MANEUVER_CACHE_SIZE \<and> g_slot_to_iap_idx g ! k = i \<and> g_slot_to_iap_idx g' = g_slot_to_iap_idx g \<and>
      rgd_ok (Suc n) g' \<and> (\<lambda>i. rgd_is_active_index i g') = (\<lambda>i. rgd_is_active_index i g)"
    by (auto simp: rgd_is_active_index_def fun_eq_iff)
next
  fix n g i
  assume "rgd_ok n g" "i \<notin> set (g_slot_to_iap_idx g)"
  then show "rgd_slot_for_iap_index i False g = Some (None, g)" by (rule man_miss)
next
  fix n g i
  assume "rgd_ok n g" "n < 4294967294" "i \<notin> set (g_slot_to_iap_idx g)"
  from man_create [OF this] show "\<exists>k g'. rgd_slot_for_iap_index i True g = Some (Some k, g') \<and>
      k < MANEUVER_CACHE_SIZE \<and> g_slot_to_iap_idx g' = (g_slot_to_iap_idx g)[k := i] \<and> rgd_ok (Suc n) g' \<and>
      (NO_INDEX \<in> set (g_slot_to_iap_idx g) \<longrightarrow> g_slot_to_iap_idx g ! k = NO_INDEX) \<and>
      (NO_INDEX \<notin> set (g_slot_to_iap_idx g) \<longrightarrow> rgd_is_active_index (g_slot_to_iap_idx g ! k) g \<longrightarrow>
        (\<forall>j \<in> set (g_slot_to_iap_idx g). rgd_is_active_index j g))"
    by blast
qed

subsection \<open>Lane events\<close>

text \<open>A lookup of a lane event changes at most the two use fields of the lane table.\<close>

definition lane_touch :: "rgd_state \<Rightarrow> rgd_state \<Rightarrow> bool" where
  "lane_touch g g' \<longleftrightarrow> g' = g\<lparr>g_lane_seq_counter := g_lane_seq_counter g', g_lane_slot_seq := g_lane_slot_seq g'\<rparr>"

lemma lane_touch_refl: "lane_touch g g"
  by (simp add: lane_touch_def)

lemma lane_touch_trans: "lane_touch g h \<Longrightarrow> lane_touch h k \<Longrightarrow> lane_touch g k"
  unfolding lane_touch_def by (cases g; cases h; cases k) simp

lemma lane_touch_fields:
  assumes "lane_touch g g'"
  shows "g_current_list g' = g_current_list g" "g_current_list_present g' = g_current_list_present g"
    "g_slot_to_iap_idx g' = g_slot_to_iap_idx g" "g_slot_cache g' = g_slot_cache g"
    "g_slot_ver g' = g_slot_ver g" "g_lane_slot_to_iap_idx g' = g_lane_slot_to_iap_idx g"
    "g_lane_cache g' = g_lane_cache g" "g_update_cache g' = g_update_cache g"
    "g_seq_counter g' = g_seq_counter g" "g_slot_seq g' = g_slot_seq g"
  using assms unfolding lane_touch_def by (cases g; cases g'; simp)+

lemma lane_look_False:
  assumes "rgd_ok n g" "n < 0xFFFFFFFE"
  shows "\<exists>r g'. rgd_lane_slot_for_iap_index i False g = (r, g') \<and> lane_touch g g' \<and> rgd_ok (Suc n) g' \<and>
    r = find_idx i (g_lane_slot_to_iap_idx g)"
proof (cases "find_idx i (g_lane_slot_to_iap_idx g)")
  case None
  then show ?thesis
    using assms by (simp add: rgd_lane_slot_for_iap_index_def lane_touch_refl rgd_ok_mono [of n g "Suc n"])
next
  case (Some k)
  let ?g = "g\<lparr>g_lane_seq_counter := g_lane_seq_counter g + 1,
              g_lane_slot_seq := (g_lane_slot_seq g)[k := g_lane_seq_counter g + 1]\<rparr>"
  have "rgd_ok (Suc n) ?g"
    using assms seq_ok_mono [of n "g_seq_counter g" "g_slot_seq g" "Suc n"]
    by (simp add: rgd_ok_def seq_ok_step)
  with Some show ?thesis
    by (simp add: rgd_lane_slot_for_iap_index_def Let_def lane_touch_def)
qed

lemma lane_look_hit:
  assumes "i \<in> set (g_lane_slot_to_iap_idx g)" "length (g_lane_slot_to_iap_idx g) = 32"
  shows "rgd_lane_slot_for_iap_index i c g = rgd_lane_slot_for_iap_index i False g"
proof -
  from assms obtain k where "find_idx i (g_lane_slot_to_iap_idx g) = Some k"
    using find_idx_mem by (metis not_None_eq)
  then show ?thesis by (simp add: rgd_lane_slot_for_iap_index_def)
qed

lemma wf_zero_lane: "wf_lane_guidance zero_lane_guidance"
  by (rule wf_zero_lane_guidance)

lemma lane_assign_ok:
  assumes "rgd_ok n g" "n < 0xFFFFFFFE" "i \<notin> set (g_lane_slot_to_iap_idx g)" "k < 32"
    "g_lane_cache g' = g_lane_cache g \<or> g_lane_cache g' = (g_lane_cache g)[k := zero_lane_guidance]"
    "g' = g\<lparr>g_lane_slot_to_iap_idx := (g_lane_slot_to_iap_idx g)[k := i],
       g_lane_seq_counter := g_lane_seq_counter g + 1,
       g_lane_slot_seq := (g_lane_slot_seq g)[k := g_lane_seq_counter g + 1],
       g_lane_cache := g_lane_cache g'\<rparr>"
  shows "rgd_ok (Suc n) g'"
proof -
  have c: "\<forall>m \<in> set (g_lane_cache g'). wf_lane_guidance m" "length (g_lane_cache g') = 32"
    using assms(1,5) ball_list_update [of "g_lane_cache g" wf_lane_guidance zero_lane_guidance k]
      wf_zero_lane_guidance
    by (auto simp: rgd_ok_def)
  show ?thesis
    using assms(1-4) c seq_ok_mono [of n "g_seq_counter g" "g_slot_seq g" "Suc n"]
    by (subst assms(6)) (simp add: rgd_ok_def seq_ok_step idx_ok_update)
qed

lemma lane_create:
  assumes g: "rgd_ok n g" and n: "n < 0xFFFFFFFE" and i: "i \<notin> set (g_lane_slot_to_iap_idx g)"
  shows "\<exists>k g'. rgd_lane_slot_for_iap_index i True g = (Some k, g') \<and> k < 32 \<and>
    g_lane_slot_to_iap_idx g' = (g_lane_slot_to_iap_idx g)[k := i] \<and> rgd_ok (Suc n) g' \<and>
    g_update_cache g' = g_update_cache g \<and> g_slot_cache g' = g_slot_cache g \<and>
    (NO_INDEX \<in> set (g_lane_slot_to_iap_idx g) \<longrightarrow> g_lane_slot_to_iap_idx g ! k = NO_INDEX) \<and>
    (NO_INDEX \<notin> set (g_lane_slot_to_iap_idx g) \<longrightarrow> rgd_is_active_lane_index (g_lane_slot_to_iap_idx g ! k) g \<longrightarrow>
       (\<forall>j \<in> set (g_lane_slot_to_iap_idx g). rgd_is_active_lane_index j g))"
proof -
  let ?idx = "g_lane_slot_to_iap_idx g"
  have l: "length ?idx = 32" and s: "seq_ok n (g_lane_seq_counter g) (g_lane_slot_seq g)"
    using g by (simp_all add: rgd_ok_def idx_ok_def)
  have f: "find_idx i ?idx = None" using i l by (simp add: find_idx_mem)
  define asg where "asg k = g\<lparr>g_lane_slot_to_iap_idx := ?idx[k := i],
       g_lane_seq_counter := g_lane_seq_counter g + 1,
       g_lane_slot_seq := (g_lane_slot_seq g)[k := g_lane_seq_counter g + 1]\<rparr>" for k
  show ?thesis
  proof (cases "find_idx NO_INDEX ?idx")
    case (Some k)
    from find_idx_Some [OF Some] have k: "k < 32" "?idx ! k = NO_INDEX" by auto
    have "rgd_ok (Suc n) (asg k)"
      by (rule lane_assign_ok [OF g n i k(1)]) (simp_all add: asg_def)
    moreover have "rgd_lane_slot_for_iap_index i True g = (Some k, asg k)"
      using f Some by (simp add: rgd_lane_slot_for_iap_index_def asg_def Let_def)
    moreover have "NO_INDEX \<in> set ?idx" using k l by (metis nth_mem)
    ultimately show ?thesis using k by (intro exI [of _ k] exI [of _ "asg k"]) (simp add: asg_def)
  next
    case None
    let ?act = "\<lambda>t. rgd_is_active_lane_index (?idx ! t) g"
    have "\<exists>v. (case oldest_slot ?act (g_lane_slot_seq g) of Some s \<Rightarrow> s
          | None \<Rightarrow> (case oldest_slot (\<lambda>_. False) (g_lane_slot_seq g) of Some s \<Rightarrow> s | None \<Rightarrow> 0)) = v \<and> v < 32 \<and>
          (?act v \<longrightarrow> (\<forall>t<32. ?act t))"
    proof (cases "\<exists>t<32. \<not> ?act t")
      case True
      from oldest_slot_exists [OF s n this] show ?thesis by auto
    next
      case False
      have "oldest_slot ?act (g_lane_slot_seq g) = None"
        using False oldest_slot_Some [of ?act "g_lane_slot_seq g"] by (cases "oldest_slot ?act (g_lane_slot_seq g)") auto
      moreover have "\<exists>t<32. \<not> (\<lambda>_ :: nat. False) t" by (intro exI [of _ 0]) simp
      then obtain v where "oldest_slot (\<lambda>_. False) (g_lane_slot_seq g) = Some v" "v < 32"
        using oldest_slot_exists [OF s n, of "\<lambda>_. False"] by blast
      ultimately show ?thesis using False by auto
    qed
    then obtain v where v: "(case oldest_slot ?act (g_lane_slot_seq g) of Some s \<Rightarrow> s
          | None \<Rightarrow> (case oldest_slot (\<lambda>_. False) (g_lane_slot_seq g) of Some s \<Rightarrow> s | None \<Rightarrow> 0)) = v" "v < 32"
          "?act v \<longrightarrow> (\<forall>t<32. ?act t)" by blast
    let ?g = "(asg v)\<lparr>g_lane_cache := (g_lane_cache g)[v := zero_lane_guidance]\<rparr>"
    have "rgd_ok (Suc n) ?g"
      by (rule lane_assign_ok [OF g n i v(2)]) (simp_all add: asg_def)
    moreover have "rgd_lane_slot_for_iap_index i True g = (Some v, ?g)"
      using f None v(1) by (simp add: rgd_lane_slot_for_iap_index_def asg_def Let_def)
    moreover have "NO_INDEX \<notin> set ?idx" using None l by (simp add: find_idx_mem)
    moreover have "?act v \<longrightarrow> (\<forall>j \<in> set ?idx. rgd_is_active_lane_index j g)"
      using v(3) l by (auto simp: in_set_conv_nth)
    ultimately show ?thesis using v(2) by (intro exI [of _ v] exI [of _ ?g]) (simp add: asg_def)
  qed
qed

definition lane_look :: "u16 \<Rightarrow> bool \<Rightarrow> rgd_state \<Rightarrow> (nat option \<times> rgd_state) option" where
  "lane_look i c g = Some (rgd_lane_slot_for_iap_index i c g)"

lemma lane_hit:
  assumes a: "rgd_ok n g" "n < 0xFFFFFFFE" "i \<in> set (g_lane_slot_to_iap_idx g)"
  shows "\<exists>k g'. lane_look i c g = Some (Some k, g') \<and> k < 32 \<and> g_lane_slot_to_iap_idx g ! k = i \<and>
    g_lane_slot_to_iap_idx g' = g_lane_slot_to_iap_idx g \<and> rgd_ok (Suc n) g' \<and>
    (\<lambda>i. rgd_is_active_lane_index i g') = (\<lambda>i. rgd_is_active_lane_index i g)"
proof -
  have l: "length (g_lane_slot_to_iap_idx g) = 32" using a(1) by (simp add: rgd_ok_def idx_ok_def)
  obtain r g' where e: "rgd_lane_slot_for_iap_index i False g = (r, g')" by (rule prod.exhaust)
  from lane_look_False [OF a(1,2), of i] e have
    g': "lane_touch g g'" "rgd_ok (Suc n) g'" "r = find_idx i (g_lane_slot_to_iap_idx g)" by simp_all
  have "r \<noteq> None" using a(3) g'(3) find_idx_mem [OF l, of i] by simp
  then obtain k where k: "r = Some k" by auto
  have kk: "k < 32 \<and> g_lane_slot_to_iap_idx g ! k = i"
    using g'(3) k by (intro find_idx_Some) simp
  have look: "lane_look i c g = Some (Some k, g')"
    unfolding lane_look_def using lane_look_hit [OF a(3) l, of c] e k by simp
  have act: "(\<lambda>i. rgd_is_active_lane_index i g') = (\<lambda>i. rgd_is_active_lane_index i g)"
    by (simp only: rgd_is_active_lane_index_def rgd_find_slot_for_iap_index_no_touch_def
        lane_touch_fields [OF g'(1)])
  show ?thesis using look kk act g'(2) lane_touch_fields(6) [OF g'(1)] by blast
qed

lemma lane_miss:
  assumes "rgd_ok n g" "i \<notin> set (g_lane_slot_to_iap_idx g)"
  shows "lane_look i False g = Some (None, g)"
proof -
  have "find_idx i (g_lane_slot_to_iap_idx g) = None"
    using assms by (simp add: find_idx_mem rgd_ok_def idx_ok_def)
  then show ?thesis by (simp add: lane_look_def rgd_lane_slot_for_iap_index_def)
qed

lemma lane_create_look:
  assumes "rgd_ok n g" "n < 0xFFFFFFFE" "i \<notin> set (g_lane_slot_to_iap_idx g)"
  shows "\<exists>k g'. lane_look i True g = Some (Some k, g') \<and>
      k < 32 \<and> g_lane_slot_to_iap_idx g' = (g_lane_slot_to_iap_idx g)[k := i] \<and>
      rgd_ok (Suc n) g' \<and>
      (NO_INDEX \<in> set (g_lane_slot_to_iap_idx g) \<longrightarrow> g_lane_slot_to_iap_idx g ! k = NO_INDEX) \<and>
      (NO_INDEX \<notin> set (g_lane_slot_to_iap_idx g) \<longrightarrow> rgd_is_active_lane_index (g_lane_slot_to_iap_idx g ! k) g \<longrightarrow>
        (\<forall>j \<in> set (g_lane_slot_to_iap_idx g). rgd_is_active_lane_index j g))"
  unfolding lane_look_def option.inject using lane_create [OF assms] by blast

interpretation lane_slots: slot_table g_lane_slot_to_iap_idx lane_look
  "\<lambda>g i. rgd_is_active_lane_index i g" rgd_ok
proof
  fix n g
  assume "rgd_ok n g"
  then show "length (g_lane_slot_to_iap_idx g) = 32" by (simp add: rgd_ok_def idx_ok_def)
next
  fix n g a b
  assume "rgd_ok n g" "a < MANEUVER_CACHE_SIZE" "b < MANEUVER_CACHE_SIZE"
    "g_lane_slot_to_iap_idx g ! a = g_lane_slot_to_iap_idx g ! b" "g_lane_slot_to_iap_idx g ! a \<noteq> NO_INDEX"
  then show "a = b" by (auto simp: rgd_ok_def idx_ok_def)
qed (fact lane_hit lane_miss lane_create_look)+

section \<open>The active list protects its maneuvers\<close>

text \<open>At most 16 of the 32 slots can be in the list, so a victim outside it exists.\<close>

lemma some_inactive:
  assumes "rgd_ok n g" "NO_INDEX \<notin> set (g_slot_to_iap_idx g)"
  shows "\<exists>x \<in> set (g_slot_to_iap_idx g). \<not> rgd_is_active_index x g"
proof (rule ccontr)
  assume "\<not> ?thesis"
  then have sub: "set (g_slot_to_iap_idx g) \<subseteq> set (g_current_list g)"
    by (auto simp: rgd_is_active_index_def list_ex_iff split: if_splits)
  have len: "length (g_slot_to_iap_idx g) = 32" using assms(1) by (simp add: rgd_ok_def idx_ok_def)
  have "distinct (g_slot_to_iap_idx g)"
    unfolding distinct_conv_nth
  proof (intro allI impI)
    fix a b assume ab: "a < length (g_slot_to_iap_idx g)" "b < length (g_slot_to_iap_idx g)" "a \<noteq> b"
    have "g_slot_to_iap_idx g ! a \<noteq> NO_INDEX" using ab(1) assms(2) nth_mem by metis
    then show "g_slot_to_iap_idx g ! a \<noteq> g_slot_to_iap_idx g ! b"
      using man_slots.unique [OF assms(1), of a b] ab len by auto
  qed
  then have "card (set (g_slot_to_iap_idx g)) = 32" using len by (simp add: distinct_card)
  moreover have "card (set (g_slot_to_iap_idx g)) \<le> card (set (g_current_list g))"
    using sub by (intro card_mono) auto
  moreover have "card (set (g_current_list g)) \<le> 16"
    using card_length [of "g_current_list g"] assms(1) by (simp add: rgd_ok_def)
  ultimately show False by simp
qed

lemma active_never_evicted:
  assumes "rgd_ok n g" "n < 0xFFFFFFFE" "rgd_slot_for_iap_index i c g = Some (r, g')"
    "j \<in> set (g_slot_to_iap_idx g)" "j \<noteq> NO_INDEX" "rgd_is_active_index j g"
  shows "j \<in> set (g_slot_to_iap_idx g')"
proof (cases "NO_INDEX \<in> set (g_slot_to_iap_idx g) \<and> rgd_is_active_index NO_INDEX g")
  case False
  then have "\<exists>x \<in> set (g_slot_to_iap_idx g). \<not> rgd_is_active_index x g"
    using some_inactive [OF assms(1)] by auto
  then show ?thesis using man_slots.protected_stay [OF assms(1-6)] by blast
next
  case True
  show ?thesis
  proof (cases "i \<in> set (g_slot_to_iap_idx g)")
    case True
    from man_slots.hit [OF assms(1,2) True, of c] assms(3,4) show ?thesis by auto
  next
    case out: False
    show ?thesis
    proof (cases c)
      case c: True
      from man_create [OF assms(1,2) out] assms(3) c True obtain k where
        k: "k < 32" "g_slot_to_iap_idx g' = (g_slot_to_iap_idx g)[k := i]" "g_slot_to_iap_idx g ! k = NO_INDEX"
        by auto
      from assms(1,4) obtain m where m: "m < length (g_slot_to_iap_idx g)" "g_slot_to_iap_idx g ! m = j"
        by (auto simp: in_set_conv_nth)
      with k assms(5) have "m \<noteq> k" by auto
      with k m show ?thesis by (metis length_list_update nth_list_update_neq nth_mem)
    next
      case c: False
      with man_miss [OF assms(1) out] assms(3,4) show ?thesis by simp
    qed
  qed
qed

section \<open>A state with one listed maneuver\<close>

definition one_slot :: rgd_state where
  "one_slot = zero_rgd\<lparr>g_slot_to_iap_idx := (replicate 32 NO_INDEX)[0 := 7],
     g_lane_slot_to_iap_idx := replicate 32 NO_INDEX,
     g_current_list := [7], g_current_list_present := True\<rparr>"

lemma zero_rgd_arrays: "g_slot_seq zero_rgd = replicate 32 0" "g_lane_slot_seq zero_rgd = replicate 32 0"
  "g_slot_cache zero_rgd = replicate 32 zero_maneuver" "g_lane_cache zero_rgd = replicate 32 zero_lane_guidance"
  "length (g_slot_ver zero_rgd) = 32" "g_seq_counter zero_rgd = 0" "g_lane_seq_counter zero_rgd = 0" "g_update_cache zero_rgd = zero_update"
  by (simp_all add: zero_rgd_def)

lemma one_slot_ok: "rgd_ok 0 one_slot"
  by (simp add: rgd_ok_def one_slot_def zero_rgd_arrays idx_ok_free idx_ok_update seq_ok_zero wf_zero_maneuver
      wf_zero_lane wf_zero_update)

end
