(* ===== verification/Text_Builder.thy ===== *)
theory Text_Builder
  imports RGI_Prelude
begin

text \<open>
  The text payload builder of native/framework/bus.c (bus_text_*): records key:type:value, one
  per line, in a bounded buffer with a sticky overflow bit. A result None is a write outside
  the buffer. The second half states what a receiver reads from the finished text:
  CarplayBus.parseText of java/src/framework/CarplayBus.java.
\<close>

section \<open>The builder\<close>

record text_builder =
  tb_buf :: "bytes option"
  tb_cap :: nat
  tb_len :: nat
  tb_own :: bool
  tb_overflow :: bool

text \<open>memcpy of s to offset off of the buffer; None for a NULL buffer or a write past its end.\<close>

definition buf_put :: "bytes option \<Rightarrow> nat \<Rightarrow> bytes \<Rightarrow> bytes option option" where
  "buf_put pb off s = (case pb of
     None \<Rightarrow> if s = [] then Some None else None
   | Some m \<Rightarrow> if off + length s \<le> length m then Some (Some (mem_put m off s)) else None)"

definition bt_append :: "bytes \<Rightarrow> text_builder \<Rightarrow> text_builder option" where
  "bt_append s b =
     (if tb_overflow b then Some b
      else if tb_len b + length s > tb_cap b then Some (b\<lparr>tb_overflow := True\<rparr>)
      else do { m \<leftarrow> buf_put (tb_buf b) (tb_len b) s;
                Some (b\<lparr>tb_buf := m, tb_len := tb_len b + length s\<rparr>) })"

fun bt_append_sanitized :: "bytes \<Rightarrow> text_builder \<Rightarrow> text_builder option" where
  "bt_append_sanitized [] b = Some b"
| "bt_append_sanitized (c # s) b = do {
     b \<leftarrow> bt_append (if c < 0x20 then [32] else [c]) b;
     bt_append_sanitized s b }"

definition bt_kv_begin :: "bytes \<Rightarrow> u8 \<Rightarrow> text_builder \<Rightarrow> text_builder option" where
  "bt_kv_begin key type_ch b = do { b \<leftarrow> bt_append key b; bt_append [58, type_ch, 58] b }"

definition bt_nl :: "text_builder \<Rightarrow> text_builder option" where
  "bt_nl b = bt_append [10] b"

text \<open>Strings are their bytes before the NUL; None is a NULL pointer.\<close>

definition bus_text_str :: "bytes \<Rightarrow> bytes option \<Rightarrow> text_builder \<Rightarrow> text_builder option" where
  "bus_text_str key val b = do {
     let val = (case val of None \<Rightarrow> [] | Some v \<Rightarrow> v);
     b \<leftarrow> bt_kv_begin key 115 b;
     b \<leftarrow> bt_append_sanitized val b;
     bt_nl b }"

definition bus_text_int :: "bytes \<Rightarrow> 64 word \<Rightarrow> text_builder \<Rightarrow> text_builder option" where
  "bus_text_int key val b = do {
     b \<leftarrow> bt_kv_begin key 110 b;
     b \<leftarrow> bt_append (dec_int (sint val)) b;
     bt_nl b }"

definition bus_text_uint :: "bytes \<Rightarrow> 64 word \<Rightarrow> text_builder \<Rightarrow> text_builder option" where
  "bus_text_uint key val b = do {
     b \<leftarrow> bt_kv_begin key 110 b;
     b \<leftarrow> bt_append (dec_nat (unat val)) b;
     bt_nl b }"

definition bus_text_bool :: "bytes \<Rightarrow> bool \<Rightarrow> text_builder \<Rightarrow> text_builder option" where
  "bus_text_bool key val b = do {
     b \<leftarrow> bt_kv_begin key 98 b;
     b \<leftarrow> bt_append (if val then ascii ''true'' else ascii ''false'') b;
     bt_nl b }"

text \<open>The last argument is what vsnprintf makes of the format; scratch holds 511 bytes of it.\<close>

definition bus_text_fmt :: "bytes \<Rightarrow> u8 \<Rightarrow> bytes \<Rightarrow> text_builder \<Rightarrow> text_builder option" where
  "bus_text_fmt key type_ch formatted b =
     (if formatted = [] then Some b
      else do {
        b \<leftarrow> bt_kv_begin key type_ch b;
        b \<leftarrow> bt_append_sanitized (take 511 formatted) b;
        bt_nl b })"

definition bus_text_raw :: "bytes \<Rightarrow> text_builder \<Rightarrow> text_builder option" where
  "bus_text_raw line b = bt_append line b"

definition bus_text_begin_with :: "bytes option \<Rightarrow> bytes option \<Rightarrow> nat \<Rightarrow> text_builder option" where
  "bus_text_begin_with object_name buf cap =
     (let b = \<lparr>tb_buf = buf, tb_cap = cap, tb_len = 0, tb_own = False, tb_overflow = False\<rparr> in
      case object_name of
        None \<Rightarrow> Some b
      | Some nm \<Rightarrow>
          if nm = [] then Some b
          else do { b \<leftarrow> bus_text_raw [64] b; b \<leftarrow> bus_text_raw nm b; bus_text_raw [10] b })"

text \<open>The first argument is what malloc (cap) returns.\<close>

definition bus_text_begin_heap ::
  "bytes option \<Rightarrow> bytes option \<Rightarrow> nat \<Rightarrow> (hook_result \<times> text_builder option) option" where
  "bus_text_begin_heap mallocd object_name cap = (case mallocd of
     None \<Rightarrow> Some (HOOK_ERR_MEMORY, None)
   | Some m \<Rightarrow> do {
       b \<leftarrow> bus_text_begin_with object_name (Some m) cap;
       Some (HOOK_OK, Some (b\<lparr>tb_own := True\<rparr>)) })"

definition bus_text_free :: "text_builder \<Rightarrow> text_builder" where
  "bus_text_free b =
     (if tb_own b \<and> tb_buf b \<noteq> None then b\<lparr>tb_buf := None, tb_own := False\<rparr> else b)"

section \<open>Sequences of calls\<close>

text \<open>A routine that fills a builder is the list of the calls it makes.\<close>

datatype text_call =
    T_str bytes "bytes option"
  | T_int bytes "64 word"
  | T_uint bytes "64 word"
  | T_bool bytes bool
  | T_fmt bytes u8 bytes

primrec text_call_run :: "text_call \<Rightarrow> text_builder \<Rightarrow> text_builder option" where
  "text_call_run (T_str k v) = bus_text_str k v"
| "text_call_run (T_int k v) = bus_text_int k v"
| "text_call_run (T_uint k v) = bus_text_uint k v"
| "text_call_run (T_bool k v) = bus_text_bool k v"
| "text_call_run (T_fmt k t s) = bus_text_fmt k t s"

primrec text_run :: "text_call list \<Rightarrow> text_builder \<Rightarrow> text_builder option" where
  "text_run [] b = Some b"
| "text_run (c # cs) b = do { b \<leftarrow> text_call_run c b; text_run cs b }"

section \<open>The contents of a builder\<close>

text \<open>The text a builder holds, None once it has overflowed.\<close>

definition bt_ok :: "text_builder \<Rightarrow> bool" where
  "bt_ok b \<longleftrightarrow> tb_len b \<le> tb_cap b \<and> (\<exists>m. tb_buf b = Some m \<and> length m = tb_cap b)"

definition bt_text :: "text_builder \<Rightarrow> bytes option" where
  "bt_text b = (if tb_overflow b then None else Some (take (tb_len b) (the (tb_buf b))))"

text \<open>The abstract operation: a bounded string that is lost on overflow.\<close>

definition ab_append :: "nat \<Rightarrow> bytes \<Rightarrow> bytes option \<Rightarrow> bytes option" where
  "ab_append cap s t = (case t of None \<Rightarrow> None
     | Some x \<Rightarrow> if length x + length s \<le> cap then Some (x @ s) else None)"

text \<open>An operation is the append of a text when it always succeeds and keeps the invariant.\<close>

definition appends :: "(text_builder \<Rightarrow> text_builder option) \<Rightarrow> bytes \<Rightarrow> bool" where
  "appends f s \<longleftrightarrow> (\<forall>b. bt_ok b \<longrightarrow> (\<exists>b'. f b = Some b' \<and> bt_ok b' \<and> tb_cap b' = tb_cap b \<and>
     tb_own b' = tb_own b \<and> bt_text b' = ab_append (tb_cap b) s (bt_text b)))"

lemma bt_append_appends: "appends (bt_append s) s"
  unfolding appends_def
proof (intro allI impI)
  fix b assume b: "bt_ok b"
  then obtain m where m: "tb_buf b = Some m" "length m = tb_cap b" and le: "tb_len b \<le> tb_cap b"
    by (auto simp: bt_ok_def)
  consider "tb_overflow b" | "\<not> tb_overflow b" "tb_len b + length s > tb_cap b"
    | (put) "\<not> tb_overflow b" "tb_len b + length s \<le> tb_cap b" by linarith
  then show "\<exists>b'. bt_append s b = Some b' \<and> bt_ok b' \<and> tb_cap b' = tb_cap b \<and>
     tb_own b' = tb_own b \<and> bt_text b' = ab_append (tb_cap b) s (bt_text b)"
  proof cases
    case put
    let ?b = "b\<lparr>tb_buf := Some (mem_put m (tb_len b) s), tb_len := tb_len b + length s\<rparr>"
    have "bt_append s b = Some ?b" using put m by (simp add: bt_append_def buf_put_def)
    moreover have "bt_ok ?b" using put m by (simp add: bt_ok_def length_mem_put)
    moreover have "bt_text ?b = ab_append (tb_cap b) s (bt_text b)"
      using put m le by (simp add: bt_text_def ab_append_def mem_put_def)
    ultimately show ?thesis by auto
  qed (use b m le in \<open>auto simp: bt_append_def bt_ok_def bt_text_def ab_append_def\<close>)
qed

lemma ab_append_ab_append: "ab_append n s2 (ab_append n s1 t) = ab_append n (s1 @ s2) t"
  by (auto simp: ab_append_def split: option.splits)

lemma ab_append_Nil: "bt_ok b \<Longrightarrow> ab_append (tb_cap b) [] (bt_text b) = bt_text b"
  by (auto simp: ab_append_def bt_text_def bt_ok_def)

lemma appends_Nil: "appends Some []"
  by (simp add: appends_def ab_append_Nil)

lemma appends_bind:
  assumes "appends f s" "appends g t"
  shows "appends (\<lambda>b. Option.bind (f b) g) (s @ t)"
  unfolding appends_def
proof (intro allI impI)
  fix b assume "bt_ok b"
  with assms(1) obtain b1 where 1: "f b = Some b1" "bt_ok b1" "tb_cap b1 = tb_cap b"
      "tb_own b1 = tb_own b" "bt_text b1 = ab_append (tb_cap b) s (bt_text b)"
    unfolding appends_def by blast
  with assms(2) obtain b2 where "g b1 = Some b2" "bt_ok b2" "tb_cap b2 = tb_cap b1"
      "tb_own b2 = tb_own b1" "bt_text b2 = ab_append (tb_cap b1) t (bt_text b1)"
    unfolding appends_def by blast
  with 1 show "\<exists>b'. Option.bind (f b) g = Some b' \<and> bt_ok b' \<and> tb_cap b' = tb_cap b \<and>
     tb_own b' = tb_own b \<and> bt_text b' = ab_append (tb_cap b) (s @ t) (bt_text b)"
    by (simp add: ab_append_ab_append)
qed

definition sanitize :: "bytes \<Rightarrow> bytes" where
  "sanitize s = map (\<lambda>c. if c < 0x20 then 32 else c) s"

lemma sanitize_no_control: "c \<in> set (sanitize s) \<Longrightarrow> 0x20 \<le> c"
  by (auto simp: sanitize_def not_less split: if_splits)

lemma bt_append_sanitized_appends: "appends (bt_append_sanitized s) (sanitize s)"
proof (induction s)
  case Nil
  show ?case using appends_Nil by (simp add: sanitize_def fun_eq_iff [symmetric])
next
  case (Cons c s)
  have "bt_append_sanitized (c # s) =
      (\<lambda>b. Option.bind (bt_append (if c < 0x20 then [32] else [c]) b) (bt_append_sanitized s))"
    by (simp add: fun_eq_iff)
  moreover have "sanitize (c # s) = (if c < 0x20 then [32] else [c]) @ sanitize s"
    by (simp add: sanitize_def)
  ultimately show ?case
    using appends_bind [OF bt_append_appends Cons] by metis
qed

definition record_text :: "bytes \<Rightarrow> u8 \<Rightarrow> bytes \<Rightarrow> bytes" where
  "record_text key t val = key @ [58, t, 58] @ val @ [10]"

text \<open>The value that a call writes after the second colon; None when it writes no record.\<close>

primrec call_key :: "text_call \<Rightarrow> bytes" where
  "call_key (T_str k v) = k"
| "call_key (T_int k i) = k"
| "call_key (T_uint k n) = k"
| "call_key (T_bool k x) = k"
| "call_key (T_fmt k t s) = k"

primrec call_type :: "text_call \<Rightarrow> u8" where
  "call_type (T_str k v) = 115"
| "call_type (T_int k i) = 110"
| "call_type (T_uint k n) = 110"
| "call_type (T_bool k x) = 98"
| "call_type (T_fmt k t s) = t"

primrec call_value :: "text_call \<Rightarrow> bytes option" where
  "call_value (T_str k v) = Some (sanitize (case v of None \<Rightarrow> [] | Some x \<Rightarrow> x))"
| "call_value (T_int k i) = Some (dec_int (sint i))"
| "call_value (T_uint k n) = Some (dec_nat (unat n))"
| "call_value (T_bool k x) = Some (if x then ascii ''true'' else ascii ''false'')"
| "call_value (T_fmt k t s) = (if s = [] then None else Some (sanitize (take 511 s)))"

definition call_text :: "text_call \<Rightarrow> bytes" where
  "call_text c = (case call_value c of None \<Rightarrow> [] | Some v \<Rightarrow> record_text (call_key c) (call_type c) v)"

lemma kv_appends:
  assumes "appends f v"
  shows "appends (\<lambda>b. do { b \<leftarrow> bt_kv_begin key t b; b \<leftarrow> f b; bt_nl b }) (record_text key t v)"
proof -
  have kv: "appends (bt_kv_begin key t) (key @ [58, t, 58])"
    using appends_bind [OF bt_append_appends bt_append_appends, of key "[58, t, 58]"]
    by (simp add: bt_kv_begin_def [abs_def])
  have nl: "appends bt_nl [10]"
    using bt_append_appends by (simp add: bt_nl_def [abs_def])
  show ?thesis
    using appends_bind [OF kv appends_bind [OF assms nl]] by (simp add: record_text_def)
qed

lemma text_call_appends: "appends (text_call_run c) (call_text c)"
proof (cases c)
  case (T_str k v)
  have "appends (bus_text_str k v) (record_text k 115 (sanitize (case v of None \<Rightarrow> [] | Some x \<Rightarrow> x)))"
    unfolding bus_text_str_def [abs_def] Let_def
    by (rule kv_appends) (rule bt_append_sanitized_appends)
  with T_str show ?thesis by (simp add: call_text_def)
next
  case (T_int k i)
  have "appends (bus_text_int k i) (record_text k 110 (dec_int (sint i)))"
    unfolding bus_text_int_def [abs_def] by (rule kv_appends) (rule bt_append_appends)
  with T_int show ?thesis by (simp add: call_text_def)
next
  case (T_uint k n)
  have "appends (bus_text_uint k n) (record_text k 110 (dec_nat (unat n)))"
    unfolding bus_text_uint_def [abs_def] by (rule kv_appends) (rule bt_append_appends)
  with T_uint show ?thesis by (simp add: call_text_def)
next
  case (T_bool k x)
  have "appends (bus_text_bool k x) (record_text k 98 (if x then ascii ''true'' else ascii ''false''))"
    unfolding bus_text_bool_def [abs_def] by (rule kv_appends) (rule bt_append_appends)
  with T_bool show ?thesis by (simp add: call_text_def)
next
  case (T_fmt k t s)
  show ?thesis
  proof (cases "s = []")
    case True
    with T_fmt show ?thesis
      using appends_Nil by (simp add: call_text_def bus_text_fmt_def [abs_def])
  next
    case False
    have "appends (\<lambda>b. do { b \<leftarrow> bt_kv_begin k t b; b \<leftarrow> bt_append_sanitized (take 511 s) b; bt_nl b })
        (record_text k t (sanitize (take 511 s)))"
      by (rule kv_appends) (rule bt_append_sanitized_appends)
    with T_fmt False show ?thesis by (simp add: call_text_def bus_text_fmt_def [abs_def])
  qed
qed

definition calls_text :: "text_call list \<Rightarrow> bytes" where
  "calls_text cs = concat (map call_text cs)"

lemma calls_text_simps [simp]:
  "calls_text [] = []" "calls_text (c # cs) = call_text c @ calls_text cs"
  "calls_text (cs @ ds) = calls_text cs @ calls_text ds"
  by (simp_all add: calls_text_def)

lemma text_run_appends: "appends (text_run cs) (calls_text cs)"
proof (induction cs)
  case Nil
  show ?case using appends_Nil by simp
next
  case (Cons c cs)
  show ?case using appends_bind [OF text_call_appends Cons, of c] by simp
qed

text \<open>A whole message: begin, the calls, and the text that is sent.\<close>

definition header_text :: "bytes option \<Rightarrow> bytes" where
  "header_text nm = (case nm of None \<Rightarrow> [] | Some n \<Rightarrow> if n = [] then [] else [64] @ n @ [10])"

lemma bus_text_begin_with_ok:
  assumes "length m = cap"
  shows "\<exists>b. bus_text_begin_with nm (Some m) cap = Some b \<and> bt_ok b \<and> tb_cap b = cap \<and>
    \<not> tb_own b \<and> bt_text b = ab_append cap (header_text nm) (Some [])"
proof -
  let ?b = "\<lparr>tb_buf = Some m, tb_cap = cap, tb_len = 0, tb_own = False, tb_overflow = False\<rparr>"
  have b: "bt_ok ?b" "bt_text ?b = Some []" using assms by (simp_all add: bt_ok_def bt_text_def)
  show ?thesis
  proof (cases "nm = None \<or> nm = Some []")
    case True
    with b show ?thesis
      by (auto simp: bus_text_begin_with_def header_text_def ab_append_def)
  next
    case False
    then obtain n where n: "nm = Some n" "n \<noteq> []" by auto
    have "appends (\<lambda>b. do { b \<leftarrow> bus_text_raw [64] b; b \<leftarrow> bus_text_raw n b; bus_text_raw [10] b })
        ([64] @ n @ [10])"
      unfolding bus_text_raw_def [abs_def]
      by (intro appends_bind bt_append_appends)
    from this [unfolded appends_def, rule_format, OF b(1)] b n show ?thesis
      by (simp add: bus_text_begin_with_def header_text_def)
  qed
qed

lemma text_message:
  assumes "length m = cap"
  shows "\<exists>b. Option.bind (bus_text_begin_with nm (Some m) cap) (text_run cs) = Some b \<and>
    bt_ok b \<and> tb_cap b = cap \<and> \<not> tb_own b \<and>
    bt_text b = (if length (header_text nm @ calls_text cs) \<le> cap
                 then Some (header_text nm @ calls_text cs) else None)"
proof -
  from bus_text_begin_with_ok [OF assms] obtain b where b:
    "bus_text_begin_with nm (Some m) cap = Some b" "bt_ok b" "tb_cap b = cap" "\<not> tb_own b"
    "bt_text b = ab_append cap (header_text nm) (Some [])" by blast
  from text_run_appends [unfolded appends_def, rule_format, OF b(2)] b obtain b' where
    "text_run cs b = Some b'" "bt_ok b'" "tb_cap b' = cap" "\<not> tb_own b'"
    "bt_text b' = ab_append cap (calls_text cs) (bt_text b)" by metis
  with b show ?thesis by (auto simp: ab_append_ab_append) (auto simp: ab_append_def)
qed

section \<open>What the receiver reads\<close>

text \<open>One line of CarplayBus.parseText; None is a line that it skips.\<close>

definition parse_line :: "bytes \<Rightarrow> (bytes \<times> bytes) option" where
  "parse_line line =
     (if line = [] \<or> hd line = 64 \<or> 58 \<notin> set line then None
      else let key = takeWhile (\<lambda>c. c \<noteq> 58) line;
               rest = tl (dropWhile (\<lambda>c. c \<noteq> 58) line)
           in Some (key, if 58 \<in> set rest then tl (dropWhile (\<lambda>c. c \<noteq> 58) rest) else []))"

function parse_text :: "bytes \<Rightarrow> (bytes \<times> bytes) list" where
  "parse_text [] = []"
| "parse_text (c # cs) =
     (let content = c # cs; line = takeWhile (\<lambda>c. c \<noteq> 10) content;
          rest = drop (length line + 1) content
      in (case parse_line line of None \<Rightarrow> [] | Some kv \<Rightarrow> [kv]) @ parse_text rest)"
  by pat_completeness auto
termination
  by (relation "measure length") (auto simp: Let_def)

declare parse_text.simps(2) [simp del]

lemma parse_text_line:
  assumes "10 \<notin> set line"
  shows "parse_text (line @ 10 # rest) =
    (case parse_line line of None \<Rightarrow> [] | Some kv \<Rightarrow> [kv]) @ parse_text rest"
proof -
  obtain c cs where c: "line @ 10 # rest = c # cs" by (cases line) auto
  have t: "takeWhile (\<lambda>c. c \<noteq> 10) (c # cs) = line"
    unfolding c [symmetric] using assms by (subst takeWhile_append2) auto
  have d: "drop (length line + 1) (c # cs) = rest" unfolding c [symmetric] by simp
  show ?thesis unfolding c using t d by (subst parse_text.simps(2)) (simp add: Let_def)
qed

definition key_ok :: "bytes \<Rightarrow> bool" where
  "key_ok k \<longleftrightarrow> k \<noteq> [] \<and> hd k \<noteq> 64 \<and> 58 \<notin> set k \<and> 10 \<notin> set k"

definition call_ok :: "text_call \<Rightarrow> bool" where
  "call_ok c \<longleftrightarrow> key_ok (call_key c) \<and> call_type c \<noteq> 58 \<and> call_type c \<noteq> 10"

lemma parse_line_record:
  assumes "key_ok k" "t \<noteq> 58"
  shows "parse_line (k @ [58, t, 58] @ v) = Some (k, v)"
proof -
  have k: "\<forall>c \<in> set k. c \<noteq> 58" "k \<noteq> []" "hd k \<noteq> 64" using assms(1) by (auto simp: key_ok_def)
  have "takeWhile (\<lambda>c. c \<noteq> 58) (k @ [58, t, 58] @ v) = k"
    using k by (subst takeWhile_append2) auto
  moreover have "dropWhile (\<lambda>c. c \<noteq> 58) (k @ [58, t, 58] @ v) = [58, t, 58] @ v"
    using k by (subst dropWhile_append2) auto
  ultimately show ?thesis using k assms(2) by (simp add: parse_line_def Let_def)
qed

lemma dec_no_newline: "10 \<notin> set (dec_nat n)" "10 \<notin> set (dec_int i)"
  by (auto dest!: dec_nat_digits dec_int_chars simp: is_digit_def word_le_nat_alt)

lemma sanitize_no_newline: "10 \<notin> set (sanitize s)"
  by (auto dest!: sanitize_no_control simp: word_le_nat_alt)

lemma call_value_no_newline: "call_value c = Some v \<Longrightarrow> 10 \<notin> set v"
  by (cases c) (auto simp: dec_no_newline sanitize_no_newline ascii_def split: if_splits)

definition call_record :: "text_call \<Rightarrow> (bytes \<times> bytes) list" where
  "call_record c = (case call_value c of None \<Rightarrow> [] | Some v \<Rightarrow> [(call_key c, v)])"

lemma parse_text_call:
  assumes "call_ok c"
  shows "parse_text (call_text c @ rest) = call_record c @ parse_text rest"
proof (cases "call_value c")
  case None
  then show ?thesis by (simp add: call_text_def call_record_def)
next
  case (Some v)
  let ?l = "call_key c @ [58, call_type c, 58] @ v"
  have "10 \<notin> set ?l"
    using assms call_value_no_newline [OF Some] by (auto simp: call_ok_def key_ok_def)
  moreover have "parse_line ?l = Some (call_key c, v)"
    using assms by (intro parse_line_record) (simp_all add: call_ok_def)
  ultimately show ?thesis
    using parse_text_line [of ?l rest] Some by (simp add: call_text_def record_text_def call_record_def)
qed

lemma parse_calls_text:
  "list_all call_ok cs \<Longrightarrow> parse_text (calls_text cs) = concat (map call_record cs)"
proof (induction cs)
  case Nil
  then show ?case by simp
next
  case (Cons c cs)
  then show ?case by (simp add: parse_text_call)
qed

lemma parse_header:
  assumes "10 \<notin> set (case nm of None \<Rightarrow> [] | Some n \<Rightarrow> n)"
  shows "parse_text (header_text nm @ rest) = parse_text rest"
proof (cases "nm = None \<or> nm = Some []")
  case True
  then show ?thesis by (auto simp: header_text_def)
next
  case False
  then obtain n where n: "nm = Some n" "n \<noteq> []" by auto
  with assms have "10 \<notin> set (64 # n)" by auto
  moreover have "parse_line (64 # n) = None" by (simp add: parse_line_def)
  ultimately show ?thesis
    using parse_text_line [of "64 # n" rest] n by (simp add: header_text_def)
qed

end
