(* ===== verification/Bounded_Queue.thy ===== *)
theory Bounded_Queue
  imports RGI_Prelude
begin

text \<open>
  The contract of a bounded first-in first-out queue, over the list of its contents, and what a
  client may conclude from it about any interleaving of producers and consumers. The send
  queue of the bus provides it.
\<close>

datatype 'a queue_op = Enq 'a | Deq

locale bounded_queue =
  fixes enq :: "'a \<Rightarrow> 'q \<Rightarrow> 'q option"
    and deq :: "'q \<Rightarrow> ('a \<times> 'q) option"
    and items :: "'q \<Rightarrow> 'a list"
    and good :: "'a \<Rightarrow> bool"
    and inv :: "'q \<Rightarrow> bool"
    and cap :: nat
  assumes enq_ok: "inv q \<Longrightarrow> good x \<Longrightarrow> length (items q) < cap \<Longrightarrow>
      \<exists>q'. enq x q = Some q' \<and> inv q' \<and> items q' = items q @ [x]"
    and enq_full: "inv q \<Longrightarrow> length (items q) = cap \<Longrightarrow> enq x q = None"
    and deq_ok: "inv q \<Longrightarrow> items q = x # xs \<Longrightarrow>
      \<exists>q'. deq q = Some (x, q') \<and> inv q' \<and> items q' = xs"
    and deq_empty: "inv q \<Longrightarrow> items q = [] \<Longrightarrow> deq q = None"
    and bounded: "inv q \<Longrightarrow> length (items q) \<le> cap"
begin

text \<open>Runs return the accepted items, the items taken out, and the final queue.\<close>

fun run :: "'a queue_op list \<Rightarrow> 'q \<Rightarrow> 'a list \<times> 'a list \<times> 'q" where
  "run [] q = ([], [], q)"
| "run (Enq x # ops) q = (case enq x q of
     None \<Rightarrow> run ops q
   | Some q' \<Rightarrow> (case run ops q' of (a, t, r) \<Rightarrow> (x # a, t, r)))"
| "run (Deq # ops) q = (case deq q of
     None \<Rightarrow> run ops q
   | Some (x, q') \<Rightarrow> (case run ops q' of (a, t, r) \<Rightarrow> (a, x # t, r)))"

lemma fifo:
  assumes "inv q" "\<forall>x. Enq x \<in> set ops \<longrightarrow> good x"
  shows "case run ops q of (a, t, r) \<Rightarrow> inv r \<and> items q @ a = t @ items r"
  using assms
proof (induction ops arbitrary: q)
  case Nil
  then show ?case by simp
next
  case (Cons op ops)
  show ?case
  proof (cases op)
    case (Enq x)
    show ?thesis
    proof (cases "length (items q) < cap")
      case True
      then obtain q' where "enq x q = Some q'" "inv q'" "items q' = items q @ [x]"
        using enq_ok [OF Cons.prems(1), of x] Cons.prems(2) Enq by auto
      with Cons.IH [of q'] Cons.prems(2) Enq show ?thesis by (auto split: prod.splits)
    next
      case False
      then have "enq x q = None"
        using bounded [OF Cons.prems(1)] enq_full [OF Cons.prems(1)] by auto
      with Cons Enq show ?thesis by simp
    qed
  next
    case Deq
    show ?thesis
    proof (cases "items q")
      case Nil
      then have "deq q = None" using deq_empty [OF Cons.prems(1)] by simp
      moreover have "case run ops q of (a, t, r) \<Rightarrow> inv r \<and> items q @ a = t @ items r"
        using Cons.prems by (intro Cons.IH) auto
      ultimately show ?thesis using Deq by simp
    next
      case items: (Cons x xs)
      then obtain q' where q': "deq q = Some (x, q')" "inv q'" "items q' = xs"
        using deq_ok [OF Cons.prems(1)] by blast
      have "case run ops q' of (a, t, r) \<Rightarrow> inv r \<and> items q' @ a = t @ items r"
        using Cons.prems(2) q'(2) by (intro Cons.IH) auto
      with Deq items q' show ?thesis by (auto split: prod.splits)
    qed
  qed
qed

end

end
