(* ===== verification/Bus.thy ===== *)
theory Bus
  imports Bounded_Queue
begin

text \<open>
  native/framework/bus.c: frames, the per-type table with its sticky cache, the send ring and
  the operations under g_lock. Every operation is a function on the state record; where the
  code allocates, an argument says whether malloc succeeds. A result None is a read outside the
  caller's payload.
\<close>

abbreviation SEND_QUEUE_CAPACITY :: nat where "SEND_QUEUE_CAPACITY \<equiv> 256"
abbreviation MAX_TYPES :: nat where "MAX_TYPES \<equiv> 0x120"
abbreviation BUS_MAX_PAYLOAD :: u32 where "BUS_MAX_PAYLOAD \<equiv> 0x20000"
abbreviation BUS_MAGIC :: u32 where "BUS_MAGIC \<equiv> 0x43504842"
abbreviation BUS_FLAG_STICKY :: u8 where "BUS_FLAG_STICKY \<equiv> 0x01"
abbreviation BUS_FLAG_BINARY :: u8 where "BUS_FLAG_BINARY \<equiv> 0x02"
abbreviation BUS_FLAG_REPLAY :: u8 where "BUS_FLAG_REPLAY \<equiv> 0x04"
abbreviation EVT_HELLO :: u16 where "EVT_HELLO \<equiv> 0x0001"
abbreviation EVT_SYNC_BEGIN :: u16 where "EVT_SYNC_BEGIN \<equiv> 0x0002"
abbreviation EVT_SYNC_END :: u16 where "EVT_SYNC_END \<equiv> 0x0003"
abbreviation EVT_RGD_UPDATE :: u16 where "EVT_RGD_UPDATE \<equiv> 0x0020"
abbreviation CMD_SYNC_REQ :: u16 where "CMD_SYNC_REQ \<equiv> 0x0100"

section \<open>Frames\<close>

record frame =
  fm_type :: u16
  fm_flags :: u8
  fm_seq :: u32
  fm_len :: u32
  fm_payload :: "bytes option"

definition zero_frame :: frame where
  "zero_frame = \<lparr>fm_type = 0, fm_flags = 0, fm_seq = 0, fm_len = 0, fm_payload = None\<rparr>"

definition frame_dispose :: "frame \<Rightarrow> frame" where
  "frame_dispose f = f\<lparr>fm_payload := None, fm_type := 0, fm_flags := 0, fm_len := 0, fm_seq := 0\<rparr>"

text \<open>The copy of a frame, with the result code.\<close>

definition frame_dup :: "bool \<Rightarrow> frame \<Rightarrow> (hook_result \<times> frame) option" where
  "frame_dup mallocd src =
     (if fm_len src > 0 then
        if \<not> mallocd then Some (HOOK_ERR_MEMORY, src\<lparr>fm_payload := None\<rparr>)
        else (case fm_payload src of
            None \<Rightarrow> None
          | Some p \<Rightarrow> if unat (fm_len src) \<le> length p
                      then Some (HOOK_OK, src\<lparr>fm_payload := Some (take (unat (fm_len src)) p)\<rparr>)
                      else None)
      else Some (HOOK_OK, src\<lparr>fm_payload := None\<rparr>))"

definition frame_ok :: "frame \<Rightarrow> bool" where
  "frame_ok f \<longleftrightarrow> fm_len f \<le> BUS_MAX_PAYLOAD \<and>
     (if fm_len f = 0 then fm_payload f = None
      else \<exists>p. fm_payload f = Some p \<and> length p = unat (fm_len f))"

lemma frame_dup_ok: "frame_ok f \<Longrightarrow> frame_dup True f = Some (HOOK_OK, f)"
  by (cases f) (auto simp: frame_ok_def frame_dup_def word_gt_0 split: if_splits)

section \<open>The send ring\<close>

record ring =
  rq_ring :: "frame list"
  rq_head :: nat
  rq_tail :: nat
  rq_count :: nat

definition q_is_full :: "ring \<Rightarrow> bool" where
  "q_is_full q \<longleftrightarrow> rq_count q = SEND_QUEUE_CAPACITY"

definition q_is_empty :: "ring \<Rightarrow> bool" where
  "q_is_empty q \<longleftrightarrow> rq_count q = 0"

definition q_enqueue_nolock :: "bool \<Rightarrow> frame \<Rightarrow> ring \<Rightarrow> (hook_result \<times> ring) option" where
  "q_enqueue_nolock mallocd f q =
     (if q_is_full q then Some (HOOK_ERR_BUSY, q)
      else do {
        (r, g) \<leftarrow> frame_dup mallocd f;
        let q = q\<lparr>rq_ring := (rq_ring q)[rq_tail q := g]\<rparr>;
        if r \<noteq> HOOK_OK then Some (r, q)
        else Some (HOOK_OK, q\<lparr>rq_tail := (rq_tail q + 1) mod SEND_QUEUE_CAPACITY,
                              rq_count := rq_count q + 1\<rparr>) })"

definition q_dequeue_nolock :: "ring \<Rightarrow> (frame \<times> ring) option" where
  "q_dequeue_nolock q =
     (if q_is_empty q then None
      else let out = rq_ring q ! rq_head q in
        Some (out, q\<lparr>rq_ring := (rq_ring q)[rq_head q := out\<lparr>fm_payload := None\<rparr>],
                     rq_head := (rq_head q + 1) mod SEND_QUEUE_CAPACITY,
                     rq_count := rq_count q - 1\<rparr>))"

definition ring_items :: "ring \<Rightarrow> frame list" where
  "ring_items q = map (\<lambda>i. rq_ring q ! ((rq_head q + i) mod SEND_QUEUE_CAPACITY)) [0..<rq_count q]"

text \<open>Slots outside the window own no payload.\<close>

definition ring_ok :: "ring \<Rightarrow> bool" where
  "ring_ok q \<longleftrightarrow> length (rq_ring q) = SEND_QUEUE_CAPACITY \<and> rq_head q < SEND_QUEUE_CAPACITY \<and>
     rq_count q \<le> SEND_QUEUE_CAPACITY \<and>
     rq_tail q = (rq_head q + rq_count q) mod SEND_QUEUE_CAPACITY \<and>
     (\<forall>i<rq_count q. frame_ok (rq_ring q ! ((rq_head q + i) mod SEND_QUEUE_CAPACITY))) \<and>
     (\<forall>i<SEND_QUEUE_CAPACITY. rq_count q \<le> i \<longrightarrow>
        fm_payload (rq_ring q ! ((rq_head q + i) mod SEND_QUEUE_CAPACITY)) = None)"

lemma length_ring_items [simp]: "length (ring_items q) = rq_count q"
  by (simp add: ring_items_def)

lemma mod_slot_inject:
  "h < 256 \<Longrightarrow> i < 256 \<Longrightarrow> j < 256 \<Longrightarrow> (h + i) mod 256 = (h + j) mod 256 \<longleftrightarrow> i = j"
  for h i j :: nat
  by (auto simp: mod_if)

lemma ring_enqueue:
  assumes q: "ring_ok q" and f: "frame_ok f" and n: "rq_count q < SEND_QUEUE_CAPACITY"
  shows "\<exists>q'. q_enqueue_nolock True f q = Some (HOOK_OK, q') \<and> ring_ok q' \<and>
           ring_items q' = ring_items q @ [f]"
proof -
  let ?q = "q\<lparr>rq_ring := (rq_ring q)[rq_tail q := f],
              rq_tail := (rq_tail q + 1) mod SEND_QUEUE_CAPACITY, rq_count := rq_count q + 1\<rparr>"
  have t: "rq_tail q = (rq_head q + rq_count q) mod 256" "rq_head q < 256" "length (rq_ring q) = 256"
    using q by (auto simp: ring_ok_def)
  have look: "(rq_ring ?q) ! ((rq_head q + i) mod 256) =
      (if i = rq_count q then f else rq_ring q ! ((rq_head q + i) mod 256))" if "i < 256" for i
    using that n t mod_slot_inject [of "rq_head q" i "rq_count q"] by (auto simp: nth_list_update)
  have "ring_ok ?q"
    using q f n look by (auto simp: ring_ok_def less_Suc_eq mod_Suc_eq)
  moreover have "ring_items ?q = ring_items q @ [f]"
    using n look by (auto simp: ring_items_def)
  moreover have "q_enqueue_nolock True f q = Some (HOOK_OK, ?q)"
    using n by (simp add: q_enqueue_nolock_def q_is_full_def frame_dup_ok [OF f])
  ultimately show ?thesis by blast
qed

lemma ring_full: "ring_ok q \<Longrightarrow> rq_count q = SEND_QUEUE_CAPACITY \<Longrightarrow>
    q_enqueue_nolock a f q = Some (HOOK_ERR_BUSY, q)"
  by (simp add: q_enqueue_nolock_def q_is_full_def)

lemma ring_dequeue:
  assumes q: "ring_ok q" and i: "ring_items q = x # xs"
  shows "\<exists>q'. q_dequeue_nolock q = Some (x, q') \<and> ring_ok q' \<and> ring_items q' = xs"
proof -
  let ?h = "rq_head q"
  let ?q = "q\<lparr>rq_ring := (rq_ring q)[?h := (rq_ring q ! ?h)\<lparr>fm_payload := None\<rparr>],
              rq_head := (?h + 1) mod SEND_QUEUE_CAPACITY, rq_count := rq_count q - 1\<rparr>"
  have n: "rq_count q = Suc (length xs)" using i by (metis length_Cons length_ring_items)
  have h: "?h < 256" "length (rq_ring q) = 256" "rq_count q \<le> 256" using q by (auto simp: ring_ok_def)
  have items: "ring_items q = rq_ring q ! ?h #
      map (\<lambda>i. rq_ring q ! ((?h + Suc i) mod 256)) [0..<length xs]"
    using h by (simp add: ring_items_def n upt_rec [of 0] map_Suc_upt [symmetric] del: upt_Suc)
  have shift: "(Suc ?h mod 256 + i) mod 256 = Suc (?h + i) mod 256" for i
    by (metis add_Suc mod_add_left_eq)
  have look: "rq_ring ?q ! ((?h + Suc i) mod 256) =
      (if Suc i = 256 then (rq_ring q ! ?h)\<lparr>fm_payload := None\<rparr> else rq_ring q ! ((?h + Suc i) mod 256))"
    if "i < 256" for i
    using that h mod_slot_inject [of ?h "Suc i" 0] by (auto simp: nth_list_update)
  have free: "fm_payload (rq_ring q ! ((?h + Suc i) mod 256)) = None" if "i \<noteq> 255" "i < 256" "length xs \<le> i" for i
    using q n that unfolding ring_ok_def by (auto dest!: spec [of _ "Suc i"])
  have "ring_ok ?q"
    using q n h look free unfolding ring_ok_def
    by (auto simp: shift mod_Suc_eq)
  moreover have "ring_items ?q = xs"
  proof -
    have "ring_items ?q = map (\<lambda>i. rq_ring ?q ! ((?h + Suc i) mod 256)) [0..<length xs]"
      by (simp add: ring_items_def n shift)
    also have "\<dots> = map (\<lambda>i. rq_ring q ! ((?h + Suc i) mod 256)) [0..<length xs]"
      using look n h by (intro map_cong) auto
    also have "\<dots> = xs" using items i by simp
    finally show ?thesis .
  qed
  moreover have "q_dequeue_nolock q = Some (x, ?q)"
    using items i n by (simp add: q_dequeue_nolock_def q_is_empty_def Let_def)
  ultimately show ?thesis by blast
qed

lemma ring_empty: "ring_items q = [] \<Longrightarrow> q_dequeue_nolock q = None"
  by (simp add: ring_items_def q_dequeue_nolock_def q_is_empty_def)

definition enq_frame :: "frame \<Rightarrow> ring \<Rightarrow> ring option" where
  "enq_frame f q = (case q_enqueue_nolock True f q of Some (HOOK_OK, q') \<Rightarrow> Some q' | _ \<Rightarrow> None)"

interpretation send_queue:
  bounded_queue enq_frame q_dequeue_nolock ring_items frame_ok ring_ok SEND_QUEUE_CAPACITY
proof
  fix q x
  assume "ring_ok q" "frame_ok x" "length (ring_items q) < SEND_QUEUE_CAPACITY"
  then show "\<exists>q'. enq_frame x q = Some q' \<and> ring_ok q' \<and> ring_items q' = ring_items q @ [x]"
    using ring_enqueue [of q x] by (auto simp: enq_frame_def)
next
  fix q x
  assume "ring_ok q" "length (ring_items q) = SEND_QUEUE_CAPACITY"
  then show "enq_frame x q = None" by (simp add: enq_frame_def ring_full)
next
  fix q x xs
  assume "ring_ok q" "ring_items q = x # xs"
  then show "\<exists>q'. q_dequeue_nolock q = Some (x, q') \<and> ring_ok q' \<and> ring_items q' = xs"
    by (rule ring_dequeue)
qed (simp_all add: ring_empty, simp add: ring_ok_def)

text \<open>A failed copy leaves the contents alone.\<close>

lemma ring_enqueue_nomem:
  assumes q: "ring_ok q" and n: "rq_count q < SEND_QUEUE_CAPACITY" and l: "fm_len f > 0"
  shows "\<exists>q'. q_enqueue_nolock False f q = Some (HOOK_ERR_MEMORY, q') \<and> ring_ok q' \<and>
           ring_items q' = ring_items q"
proof -
  let ?g = "f\<lparr>fm_payload := None\<rparr>"
  let ?q = "q\<lparr>rq_ring := (rq_ring q)[rq_tail q := ?g]\<rparr>"
  have t: "rq_tail q = (rq_head q + rq_count q) mod 256" "rq_head q < 256" "length (rq_ring q) = 256"
    using q by (auto simp: ring_ok_def)
  have look: "rq_ring ?q ! ((rq_head q + i) mod 256) =
      (if i = rq_count q then ?g else rq_ring q ! ((rq_head q + i) mod 256))" if "i < 256" for i
    using that n t mod_slot_inject [of "rq_head q" i "rq_count q"] by (auto simp: nth_list_update)
  have "ring_ok ?q" using q n look by (auto simp: ring_ok_def)
  moreover have "ring_items ?q = ring_items q" using n look by (auto simp: ring_items_def)
  moreover have "q_enqueue_nolock False f q = Some (HOOK_ERR_MEMORY, ?q)"
    using n l by (simp add: q_enqueue_nolock_def q_is_full_def frame_dup_def Let_def)
  ultimately show ?thesis by blast
qed

section \<open>The state of the bus\<close>

datatype bus_policy = BUS_POLICY_RELIABLE | BUS_POLICY_LOSSY | BUS_POLICY_DROP_OLD

text \<open>Handlers, their contexts and callbacks are opaque numbers; None is NULL.\<close>

record type_slot =
  ts_configured :: bool
  ts_sticky :: bool
  ts_policy :: bus_policy
  ts_last :: frame
  ts_has_last :: bool
  ts_handler :: "nat option"
  ts_ctx :: "nat option"

record bus =
  b_types :: "nat \<Rightarrow> type_slot"
  b_q :: ring
  b_client_fd :: "nat option"
  b_client_gen :: u32
  b_tx_seq :: u32
  b_shutdown :: bool
  b_owner_pid :: int
  b_connector_up :: bool
  b_writer_up :: bool
  b_timer_up :: bool
  b_connector_created :: bool
  b_writer_created :: bool
  b_timer_created :: bool
  b_tick_cb :: "nat option"

definition slot_for :: "u16 \<Rightarrow> nat option" where
  "slot_for type = (if unat type \<ge> MAX_TYPES then None else Some (unat type))"

definition upd_slot :: "nat \<Rightarrow> (type_slot \<Rightarrow> type_slot) \<Rightarrow> bus \<Rightarrow> bus" where
  "upd_slot i g b = b\<lparr>b_types := (b_types b)(i := g (b_types b i))\<rparr>"

definition bus_set_sticky :: "u16 \<Rightarrow> bool \<Rightarrow> bus \<Rightarrow> bus" where
  "bus_set_sticky type sticky b = (case slot_for type of None \<Rightarrow> b
     | Some i \<Rightarrow> upd_slot i (\<lambda>s. s\<lparr>ts_configured := True, ts_sticky := sticky\<rparr>) b)"

definition bus_set_policy :: "u16 \<Rightarrow> bus_policy \<Rightarrow> bus \<Rightarrow> bus" where
  "bus_set_policy type policy b = (case slot_for type of None \<Rightarrow> b
     | Some i \<Rightarrow> upd_slot i (\<lambda>s. s\<lparr>ts_configured := True, ts_policy := policy\<rparr>) b)"

definition bus_on :: "u16 \<Rightarrow> nat option \<Rightarrow> nat option \<Rightarrow> bus \<Rightarrow> hook_result \<times> bus" where
  "bus_on type handler ctx b = (case slot_for type of None \<Rightarrow> (HOOK_ERR_PARAM, b)
     | Some i \<Rightarrow> (HOOK_OK, upd_slot i (\<lambda>s. s\<lparr>ts_handler := handler, ts_ctx := ctx\<rparr>) b))"

definition bus_off :: "u16 \<Rightarrow> bus \<Rightarrow> bus" where
  "bus_off type b = (case slot_for type of None \<Rightarrow> b
     | Some i \<Rightarrow> upd_slot i (\<lambda>s. s\<lparr>ts_handler := None, ts_ctx := None\<rparr>) b)"

definition bus_is_connected :: "bus \<Rightarrow> bool" where
  "bus_is_connected b \<longleftrightarrow> b_client_fd b \<noteq> None"

definition bus_set_periodic_tick :: "nat option \<Rightarrow> bus \<Rightarrow> bus" where
  "bus_set_periodic_tick cb b = b\<lparr>b_tick_cb := cb\<rparr>"

section \<open>bus_send\<close>

text \<open>Which of the three allocations of one bus_send succeed.\<close>

record send_alloc =
  al_payload :: bool
  al_sticky :: bool
  al_queue :: bool

abbreviation alloc_ok :: send_alloc where
  "alloc_ok \<equiv> \<lparr>al_payload = True, al_sticky = True, al_queue = True\<rparr>"

text \<open>The update of the sticky cache of one slot.\<close>

definition cache_frame :: "bool \<Rightarrow> frame \<Rightarrow> type_slot \<Rightarrow> type_slot option" where
  "cache_frame mallocd f s = do {
     let s = (if ts_has_last s then s\<lparr>ts_last := frame_dispose (ts_last s)\<rparr> else s);
     (r, g) \<leftarrow> frame_dup mallocd f;
     let s = s\<lparr>ts_last := g\<rparr>;
     Some (if r = HOOK_OK then s\<lparr>ts_has_last := True\<rparr> else s) }"

definition bus_send ::
  "send_alloc \<Rightarrow> u16 \<Rightarrow> u8 \<Rightarrow> bytes option \<Rightarrow> u32 \<Rightarrow> bus \<Rightarrow> (hook_result \<times> bus) option" where
  "bus_send al type flags payload len b =
     (if len > BUS_MAX_PAYLOAD then Some (HOOK_ERR_PARAM, b)
      else if len \<noteq> 0 \<and> payload = None then Some (HOOK_ERR_PARAM, b)
      else case slot_for type of None \<Rightarrow> Some (HOOK_ERR_PARAM, b)
      | Some i \<Rightarrow>
          if len > 0 \<and> \<not> al_payload al then Some (HOOK_ERR_MEMORY, b)
          else do {
            pl \<leftarrow> (if len > 0 then
                      (case payload of None \<Rightarrow> None
                       | Some p \<Rightarrow> if unat len \<le> length p then Some (Some (take (unat len) p)) else None)
                    else Some None);
            if b_shutdown b then Some (HOOK_ERR_BUSY, b)
            else do {
              let my_seq = b_tx_seq b;
              let b = b\<lparr>b_tx_seq := my_seq + 1\<rparr>;
              let f = \<lparr>fm_type = type, fm_flags = flags, fm_seq = my_seq, fm_len = len,
                       fm_payload = pl\<rparr>;
              b \<leftarrow> (if flags AND BUS_FLAG_STICKY \<noteq> 0 \<or> ts_sticky (b_types b i) then do {
                       s \<leftarrow> cache_frame (al_sticky al) f (b_types b i);
                       Some (upd_slot i (\<lambda>_. s) b) }
                     else Some b);
              (enq, q) \<leftarrow> q_enqueue_nolock (al_queue al) f (b_q b);
              let b = b\<lparr>b_q := q\<rparr>;
              if enq = HOOK_OK then Some (HOOK_OK, b)
              else Some (enq, if b_tx_seq b = my_seq + 1 then b\<lparr>b_tx_seq := b_tx_seq b - 1\<rparr> else b) } })"

section \<open>The sticky snapshot\<close>

definition type_ids :: "nat list" where
  "type_ids = [0..<MAX_TYPES]"

lemma set_type_ids: "i \<in> set type_ids \<longleftrightarrow> i < MAX_TYPES"
  by (simp only: type_ids_def set_upt atLeastLessThan_iff) simp

text \<open>
  The part of send_sync_snapshot under the lock: the frames it will send and the sequence
  counter afterwards. al_i says whether the copy of slot i finds memory.
\<close>

fun snap_loop :: "(nat \<Rightarrow> bool) \<Rightarrow> (nat \<Rightarrow> type_slot) \<Rightarrow> nat list \<Rightarrow> u32 \<Rightarrow> (frame list \<times> u32) option" where
  "snap_loop al T [] seq = Some ([], seq)"
| "snap_loop al T (i # is) seq =
     (if \<not> ts_has_last (T i) then snap_loop al T is seq
      else do {
        (r, g) \<leftarrow> frame_dup (al i) (ts_last (T i));
        if r = HOOK_OK then do {
          (fs, seq') \<leftarrow> snap_loop al T is (seq + 1);
          Some (g\<lparr>fm_flags := fm_flags g OR BUS_FLAG_REPLAY, fm_seq := seq\<rparr> # fs, seq') }
        else snap_loop al T is seq })"

definition control_frame :: "u16 \<Rightarrow> u32 \<Rightarrow> frame" where
  "control_frame t seq = \<lparr>fm_type = t, fm_flags = 0, fm_seq = seq, fm_len = 0, fm_payload = None\<rparr>"

definition sync_snapshot :: "bool \<Rightarrow> (nat \<Rightarrow> bool) \<Rightarrow> bus \<Rightarrow> (frame list \<times> bus) option" where
  "sync_snapshot callocd al b = do {
     let begin = control_frame EVT_SYNC_BEGIN (b_tx_seq b);
     (fs, seq) \<leftarrow> (if list_ex (\<lambda>i. ts_has_last (b_types b i)) type_ids \<and> callocd
                   then snap_loop al (b_types b) type_ids (b_tx_seq b + 1)
                   else Some ([], b_tx_seq b + 1));
     let fin = control_frame EVT_SYNC_END seq;
     Some (begin # fs @ [fin], b\<lparr>b_tx_seq := seq + 1\<rparr>) }"

section \<open>Lifecycle\<close>

text \<open>
  The arguments of bus_init are the process id and the outcomes of the three pthread_create
  calls. After the join of the unwinding path the connector thread has left its main function.
\<close>

definition bus_init :: "int \<Rightarrow> bool \<Rightarrow> bool \<Rightarrow> bool \<Rightarrow> bus \<Rightarrow> hook_result \<times> bus" where
  "bus_init pid connector_ok writer_ok timer_ok b =
     (if b_connector_up b \<or> b_writer_up b \<or> b_timer_up b then (HOOK_ERR_BUSY, b)
      else
        let b = b\<lparr>b_q := (b_q b)\<lparr>rq_head := 0, rq_tail := 0, rq_count := 0\<rparr>\<rparr>;
            b = b\<lparr>b_tx_seq := 1, b_shutdown := False, b_owner_pid := pid, b_connector_up := True\<rparr>
        in if \<not> connector_ok then (HOOK_ERR_INIT, b\<lparr>b_connector_up := False\<rparr>)
        else
          let b = b\<lparr>b_connector_created := True, b_writer_up := True\<rparr>
          in if \<not> writer_ok then
            (HOOK_ERR_INIT, b\<lparr>b_writer_up := False, b_shutdown := True, b_client_fd := None,
                              b_connector_up := False, b_connector_created := False\<rparr>)
          else
            let b = b\<lparr>b_writer_created := True, b_timer_up := True\<rparr>
            in if \<not> timer_ok then (HOOK_OK, b\<lparr>b_timer_up := False\<rparr>)
            else (HOOK_OK, b\<lparr>b_timer_created := True\<rparr>))"

text \<open>The wait for the threads: obs t holds the three up flags at poll time t.\<close>

definition shutdown_busy :: "bus \<Rightarrow> bool \<times> bool \<times> bool \<Rightarrow> bool" where
  "shutdown_busy b up = (case up of (c, w, t) \<Rightarrow>
     (b_connector_created b \<and> c) \<or> (b_writer_created b \<and> w) \<or> (b_timer_created b \<and> t))"

function shutdown_wait :: "(nat \<Rightarrow> bool \<times> bool \<times> bool) \<Rightarrow> bus \<Rightarrow> nat \<Rightarrow> nat" where
  "shutdown_wait obs b waited_ms =
     (if waited_ms < 2500 \<and> shutdown_busy b (obs waited_ms)
      then shutdown_wait obs b (waited_ms + 10) else waited_ms)"
  by pat_completeness auto
termination
  by (relation "measure (\<lambda>(obs, b, w). 2500 - w)") auto

declare shutdown_wait.simps [simp del]

function drain :: "ring \<Rightarrow> ring" where
  "drain q = (if q_is_empty q then q
     else case q_dequeue_nolock q of None \<Rightarrow> q | Some (f, q') \<Rightarrow> drain q')"
  by pat_completeness auto
termination
  by (relation "measure rq_count") (auto simp: q_dequeue_nolock_def q_is_empty_def Let_def split: if_splits)

declare drain.simps [simp del]

definition clear_slot :: "type_slot \<Rightarrow> type_slot" where
  "clear_slot s = (let s = (if ts_has_last s then s\<lparr>ts_last := frame_dispose (ts_last s)\<rparr> else s)
                   in s\<lparr>ts_has_last := False\<rparr>)"

definition clear_types :: "(nat \<Rightarrow> type_slot) \<Rightarrow> nat \<Rightarrow> type_slot" where
  "clear_types T = (\<lambda>i. if i < MAX_TYPES then clear_slot (T i) else T i)"

text \<open>The result is the time waited and the state.\<close>

definition bus_shutdown :: "int \<Rightarrow> (nat \<Rightarrow> bool \<times> bool \<times> bool) \<Rightarrow> bus \<Rightarrow> nat \<times> bus" where
  "bus_shutdown pid obs b =
     (if b_owner_pid b \<noteq> 0 \<and> pid \<noteq> b_owner_pid b then (0, b)
      else
        let b = b\<lparr>b_shutdown := True, b_client_fd := None\<rparr>;
            w = shutdown_wait obs b 0;
            (c_up, w_up, t_up) = obs w;
            b = b\<lparr>b_connector_up := c_up, b_writer_up := w_up, b_timer_up := t_up\<rparr>;
            b = (if b_connector_created b \<and> \<not> b_connector_up b then b\<lparr>b_connector_created := False\<rparr> else b);
            b = (if b_writer_created b \<and> \<not> b_writer_up b then b\<lparr>b_writer_created := False\<rparr> else b);
            b = (if b_timer_created b \<and> \<not> b_timer_up b then b\<lparr>b_timer_created := False\<rparr> else b)
        in if b_connector_created b \<or> b_writer_created b \<or> b_timer_created b then (w, b)
        else (w, b\<lparr>b_q := drain (b_q b),
                   b_types := clear_types (b_types b)\<rparr>))"

text \<open>The state at load time.\<close>

definition zero_slot :: type_slot where
  "zero_slot = \<lparr>ts_configured = False, ts_sticky = False, ts_policy = BUS_POLICY_RELIABLE,
     ts_last = zero_frame, ts_has_last = False, ts_handler = None, ts_ctx = None\<rparr>"

definition zero_bus :: bus where
  "zero_bus = \<lparr>b_types = (\<lambda>_. zero_slot),
     b_q = \<lparr>rq_ring = replicate SEND_QUEUE_CAPACITY zero_frame, rq_head = 0, rq_tail = 0, rq_count = 0\<rparr>,
     b_client_fd = None, b_client_gen = 0, b_tx_seq = 1, b_shutdown = False, b_owner_pid = 0,
     b_connector_up = False, b_writer_up = False, b_timer_up = False,
     b_connector_created = False, b_writer_created = False, b_timer_created = False,
     b_tick_cb = None\<rparr>"

end
