(* ===== verification/Bus_Props.thy ===== *)
theory Bus_Props
  imports Bus
begin

text \<open>
  What the operations of Bus guarantee: every operation keeps the invariant, bus_send is an
  enqueue plus an update of the sticky cache on every branch, the snapshot replays exactly the
  cached state in type order with consecutive sequence numbers, and shutdown frees nothing
  while a thread may still run.
\<close>

definition slots_ok :: "(nat \<Rightarrow> type_slot) \<Rightarrow> bool" where
  "slots_ok T \<longleftrightarrow> (\<forall>i<MAX_TYPES. ts_has_last (T i) \<longrightarrow>
     frame_ok (ts_last (T i)) \<and> unat (fm_type (ts_last (T i))) = i)"

definition bus_ok :: "bus \<Rightarrow> bool" where
  "bus_ok b \<longleftrightarrow> ring_ok (b_q b) \<and> slots_ok (b_types b)"

lemma ring_ok_zero:
  assumes "length r = 256" "\<forall>f \<in> set r. fm_payload f = None"
  shows "ring_ok \<lparr>rq_ring = r, rq_head = 0, rq_tail = 0, rq_count = 0\<rparr>"
  using assms by (auto simp: ring_ok_def)

lemma zero_bus_ok: "bus_ok zero_bus"
  by (simp add: bus_ok_def zero_bus_def slots_ok_def zero_slot_def zero_frame_def ring_ok_zero)

definition full_bus :: bus where
  "full_bus = zero_bus\<lparr>b_q := \<lparr>rq_ring = replicate 256 zero_frame, rq_head = 0, rq_tail = 0, rq_count = 256\<rparr>\<rparr>"

lemma full_bus_ok: "bus_ok full_bus"
  by (auto simp: full_bus_def bus_ok_def zero_bus_def slots_ok_def zero_slot_def zero_frame_def ring_ok_def frame_ok_def)

text \<open>A bus that remembers one frame.\<close>

definition sticky_bus :: bus where
  "sticky_bus = upd_slot 0x20 (\<lambda>s. s\<lparr>ts_last := \<lparr>fm_type = EVT_RGD_UPDATE, fm_flags = 1, fm_seq = 0, fm_len = 1,
     fm_payload = Some [65]\<rparr>, ts_has_last := True\<rparr>) zero_bus"

lemma sticky_bus_ok: "bus_ok sticky_bus"
  using zero_bus_ok
  by (simp add: sticky_bus_def bus_ok_def slots_ok_def upd_slot_def zero_bus_def zero_slot_def frame_ok_def)

lemma slot_for_Some: "slot_for t = Some i \<longleftrightarrow> i = unat t \<and> unat t < MAX_TYPES"
  by (auto simp: slot_for_def)

section \<open>bus_send\<close>

definition send_frame_of :: "u16 \<Rightarrow> u8 \<Rightarrow> bytes option \<Rightarrow> u32 \<Rightarrow> u32 \<Rightarrow> frame" where
  "send_frame_of type flags payload len seq =
     \<lparr>fm_type = type, fm_flags = flags, fm_seq = seq, fm_len = len,
      fm_payload = (if len = 0 then None else map_option (take (unat len)) payload)\<rparr>"

text \<open>Arguments that bus_send accepts: a registered type and a payload that is there.\<close>

definition send_args_ok :: "u16 \<Rightarrow> bytes option \<Rightarrow> u32 \<Rightarrow> bool" where
  "send_args_ok type payload len \<longleftrightarrow> unat type < MAX_TYPES \<and> len \<le> BUS_MAX_PAYLOAD \<and>
     (len = 0 \<or> (case payload of None \<Rightarrow> False | Some p \<Rightarrow> unat len \<le> length p))"

lemma send_frame_of_ok: "send_args_ok type payload len \<Longrightarrow> frame_ok (send_frame_of type flags payload len seq)"
  by (auto simp: send_args_ok_def send_frame_of_def frame_ok_def split: option.splits)

definition is_sticky :: "u8 \<Rightarrow> type_slot \<Rightarrow> bool" where
  "is_sticky flags s \<longleftrightarrow> flags AND BUS_FLAG_STICKY \<noteq> 0 \<or> ts_sticky s"

definition cached :: "u16 \<Rightarrow> u8 \<Rightarrow> frame \<Rightarrow> bus \<Rightarrow> bus" where
  "cached type flags f b =
     (if is_sticky flags (b_types b (unat type))
      then upd_slot (unat type) (\<lambda>s. s\<lparr>ts_last := f, ts_has_last := True\<rparr>) b else b)"

lemma cache_frame_ok:
  "frame_ok f \<Longrightarrow> cache_frame True f s = Some (s\<lparr>ts_last := f, ts_has_last := True\<rparr>)"
  by (cases s) (simp add: cache_frame_def frame_dup_ok Let_def)

lemma bus_send_core:
  assumes a: "send_args_ok type payload len" and s: "\<not> b_shutdown b" and al: "al_payload al"
  shows "bus_send al type flags payload len b =
    (let f = send_frame_of type flags payload len (b_tx_seq b)
     in do {
       c \<leftarrow> (if is_sticky flags (b_types b (unat type))
            then do { s \<leftarrow> cache_frame (al_sticky al) f (b_types b (unat type));
                      Some (upd_slot (unat type) (\<lambda>_. s) b) }
            else Some b);
       (r, q) \<leftarrow> q_enqueue_nolock (al_queue al) f (b_q b);
       Some (r, c\<lparr>b_q := q, b_tx_seq := (if r = HOOK_OK then b_tx_seq b + 1 else b_tx_seq b)\<rparr>) })"
proof -
  let ?f = "send_frame_of type flags payload len (b_tx_seq b)"
  have i: "slot_for type = Some (unat type)" using a by (simp add: slot_for_Some send_args_ok_def)
  have pl: "(if len > 0 then (case payload of None \<Rightarrow> None
        | Some p \<Rightarrow> if unat len \<le> length p then Some (Some (take (unat len) p)) else None) else Some None)
      = Some (fm_payload ?f)"
    using a by (auto simp: send_args_ok_def send_frame_of_def word_gt_0 split: option.splits)
  have frame: "\<lparr>fm_type = type, fm_flags = flags, fm_seq = b_tx_seq b, fm_len = len,
      fm_payload = fm_payload ?f\<rparr> = ?f" by (simp add: send_frame_of_def)
  have cond: "\<not> len > BUS_MAX_PAYLOAD" "\<not> (len \<noteq> 0 \<and> payload = None)" "\<not> (len > 0 \<and> \<not> al_payload al)"
    using a al by (auto simp: send_args_ok_def split: option.splits)
  show ?thesis
    unfolding bus_send_def if_not_P [OF cond(1)] if_not_P [OF cond(2)] i option.case
      if_not_P [OF cond(3)] pl bind.bind_lunit Let_def frame is_sticky_def
    using s
    by (cases "cache_frame (al_sticky al) ?f (b_types b (unat type))")
       (auto simp: upd_slot_def split: bind_splits prod.splits)
qed

lemma bus_send_eq:
  assumes a: "send_args_ok type payload len" and s: "\<not> b_shutdown b" and al: "al_payload al" "al_sticky al"
  shows "bus_send al type flags payload len b =
    (let f = send_frame_of type flags payload len (b_tx_seq b)
     in map_option (\<lambda>(r, q). (r, (cached type flags f b)\<lparr>b_q := q,
            b_tx_seq := (if r = HOOK_OK then b_tx_seq b + 1 else b_tx_seq b)\<rparr>))
          (q_enqueue_nolock (al_queue al) f (b_q b)))"
proof -
  have "frame_ok (send_frame_of type flags payload len (b_tx_seq b))"
    using a by (rule send_frame_of_ok)
  with al show ?thesis
    unfolding bus_send_core [OF a s al(1)]
    by (auto simp: cached_def cache_frame_ok upd_slot_def Let_def split: bind_splits option.splits)
qed

lemma cached_fields [simp]:
  "b_q (cached t fl f b) = b_q b" "b_tx_seq (cached t fl f b) = b_tx_seq b"
  "b_shutdown (cached t fl f b) = b_shutdown b" "b_client_fd (cached t fl f b) = b_client_fd b"
  "b_client_gen (cached t fl f b) = b_client_gen b" "b_owner_pid (cached t fl f b) = b_owner_pid b"
  by (simp_all add: cached_def upd_slot_def)

lemma slots_ok_cached:
  assumes "slots_ok (b_types b)" "frame_ok f" "fm_type f = t"
  shows "slots_ok (b_types (cached t fl f b))"
  using assms by (auto simp: slots_ok_def cached_def upd_slot_def)

lemma bus_send_room:
  assumes a: "send_args_ok type payload len" and s: "\<not> b_shutdown b"
    and b: "bus_ok b" and n: "rq_count (b_q b) < SEND_QUEUE_CAPACITY"
  shows "\<exists>q. let f = send_frame_of type flags payload len (b_tx_seq b);
               b' = (cached type flags f b)\<lparr>b_q := q, b_tx_seq := b_tx_seq b + 1\<rparr>
           in bus_send alloc_ok type flags payload len b = Some (HOOK_OK, b') \<and>
              bus_ok b' \<and> ring_items q = ring_items (b_q b) @ [f]"
proof -
  let ?f = "send_frame_of type flags payload len (b_tx_seq b)"
  have f: "frame_ok ?f" using a by (rule send_frame_of_ok)
  from b have ok: "ring_ok (b_q b)" "slots_ok (b_types b)" by (auto simp: bus_ok_def)
  obtain q where q: "q_enqueue_nolock True ?f (b_q b) = Some (HOOK_OK, q)" "ring_ok q"
      "ring_items q = ring_items (b_q b) @ [?f]"
    using ring_enqueue [OF ok(1) f n] by blast
  have "slots_ok (b_types (cached type flags ?f b))"
    using ok(2) f by (intro slots_ok_cached) (auto simp: send_frame_of_def)
  then show ?thesis
    using q bus_send_eq [OF a s, of alloc_ok flags] by (auto simp: Let_def bus_ok_def)
qed

lemma bus_same: "b\<lparr>b_q := b_q b, b_tx_seq := b_tx_seq b\<rparr> = b"
  by (cases b) simp

text \<open>On a full queue the frame is dropped, its number is reused, and the cache is kept up to date.\<close>

lemma bus_send_full:
  assumes a: "send_args_ok type payload len" and s: "\<not> b_shutdown b"
    and b: "bus_ok b" and n: "rq_count (b_q b) = SEND_QUEUE_CAPACITY"
  shows "let b' = cached type flags (send_frame_of type flags payload len (b_tx_seq b)) b
         in bus_send alloc_ok type flags payload len b = Some (HOOK_ERR_BUSY, b') \<and> bus_ok b'"
proof -
  let ?f = "send_frame_of type flags payload len (b_tx_seq b)"
  have f: "frame_ok ?f" using a by (rule send_frame_of_ok)
  from b have ok: "ring_ok (b_q b)" "slots_ok (b_types b)" by (auto simp: bus_ok_def)
  have "slots_ok (b_types (cached type flags ?f b))"
    using ok(2) f by (intro slots_ok_cached) (auto simp: send_frame_of_def)
  moreover have "(cached type flags ?f b)\<lparr>b_q := b_q b, b_tx_seq := b_tx_seq b\<rparr> = cached type flags ?f b"
    using bus_same [of "cached type flags ?f b"] by simp
  ultimately show ?thesis
    using ok bus_send_eq [OF a s, of alloc_ok flags] ring_full [OF ok(1) n, of True ?f]
    by (simp add: Let_def bus_ok_def)
qed

lemma bus_send_rejected:
  "len > BUS_MAX_PAYLOAD \<or> (len \<noteq> 0 \<and> payload = None) \<or> unat type \<ge> MAX_TYPES \<Longrightarrow>
   bus_send al type flags payload len b = Some (HOOK_ERR_PARAM, b)"
  by (auto simp: bus_send_def slot_for_def)

lemma bus_send_shutdown:
  assumes "send_args_ok type payload len" "b_shutdown b" "al_payload al"
  shows "bus_send al type flags payload len b = Some (HOOK_ERR_BUSY, b)"
  using assms by (auto simp: bus_send_def send_args_ok_def slot_for_def word_gt_0 split: option.splits)

lemma bus_send_total:
  assumes "send_args_ok type payload len" "bus_ok b"
  shows "\<exists>r b'. bus_send alloc_ok type flags payload len b = Some (r, b') \<and> bus_ok b' \<and>
           r \<in> {HOOK_OK, HOOK_ERR_BUSY}"
proof (cases "b_shutdown b")
  case True
  with assms bus_send_shutdown [of type payload len b alloc_ok flags] show ?thesis by simp
next
  case False
  from assms(2) have "rq_count (b_q b) \<le> SEND_QUEUE_CAPACITY" by (simp add: bus_ok_def ring_ok_def)
  then consider "rq_count (b_q b) < SEND_QUEUE_CAPACITY" | "rq_count (b_q b) = SEND_QUEUE_CAPACITY"
    by linarith
  then show ?thesis
  proof cases
    case 1
    from bus_send_room [OF assms(1) False assms(2) 1, of flags] show ?thesis by (auto simp: Let_def)
  next
    case 2
    from bus_send_full [OF assms(1) False assms(2) 2, of flags] show ?thesis by (auto simp: Let_def)
  qed
qed

section \<open>The snapshot\<close>

text \<open>The frames that a snapshot must contain: the cached ones, marked and renumbered.\<close>

definition replay_of :: "frame \<Rightarrow> u32 \<Rightarrow> frame" where
  "replay_of f seq = f\<lparr>fm_flags := fm_flags f OR BUS_FLAG_REPLAY, fm_seq := seq\<rparr>"

definition cached_frames :: "(nat \<Rightarrow> type_slot) \<Rightarrow> nat list \<Rightarrow> frame list" where
  "cached_frames T is = map (\<lambda>i. ts_last (T i)) (filter (\<lambda>i. ts_has_last (T i)) is)"

fun renumber :: "frame list \<Rightarrow> u32 \<Rightarrow> frame list" where
  "renumber [] seq = []"
| "renumber (f # fs) seq = replay_of f seq # renumber fs (seq + 1)"

lemma length_renumber [simp]: "length (renumber fs seq) = length fs"
  by (induction fs arbitrary: seq) simp_all

lemma nth_renumber: "k < length fs \<Longrightarrow> renumber fs seq ! k = replay_of (fs ! k) (seq + of_nat k)"
proof (induction fs arbitrary: seq k)
  case Nil
  then show ?case by simp
next
  case (Cons f fs)
  then show ?case by (cases k) (simp_all add: ac_simps)
qed

lemma snap_loop_eq:
  assumes "\<forall>i \<in> set is. ts_has_last (T i) \<longrightarrow> frame_ok (ts_last (T i))"
  shows "snap_loop (\<lambda>_. True) T is seq =
    Some (renumber (cached_frames T is) seq, seq + of_nat (length (cached_frames T is)))"
  using assms
proof (induction "is" arbitrary: seq)
  case Nil
  then show ?case by (simp add: cached_frames_def)
next
  case (Cons i "is")
  then show ?case
    by (auto simp: cached_frames_def frame_dup_ok replay_of_def ac_simps)
qed

definition snapshot_of :: "bus \<Rightarrow> frame list" where
  "snapshot_of b = (let fs = cached_frames (b_types b) type_ids; s = b_tx_seq b in
     control_frame EVT_SYNC_BEGIN s # renumber fs (s + 1) @
     [control_frame EVT_SYNC_END (s + 1 + of_nat (length fs))])"

lemma sync_snapshot_eq:
  assumes "bus_ok b"
  shows "sync_snapshot True (\<lambda>_. True) b =
    Some (snapshot_of b, b\<lparr>b_tx_seq := b_tx_seq b + of_nat (length (snapshot_of b))\<rparr>)"
proof -
  have s: "\<forall>i \<in> set type_ids. ts_has_last (b_types b i) \<longrightarrow> frame_ok (ts_last (b_types b i))"
    using assms by (auto simp: bus_ok_def slots_ok_def set_type_ids)
  have "cached_frames (b_types b) type_ids = []"
    if "\<not> list_ex (\<lambda>i. ts_has_last (b_types b i)) type_ids"
    using that by (auto simp: cached_frames_def list_ex_iff filter_empty_conv)
  then show ?thesis
    by (cases "list_ex (\<lambda>i. ts_has_last (b_types b i)) type_ids")
       (simp_all add: sync_snapshot_def snap_loop_eq [OF s] snapshot_of_def Let_def add.assoc)
qed

lemma snapshot_bus_ok: "bus_ok b \<Longrightarrow> bus_ok (b\<lparr>b_tx_seq := s\<rparr>)"
  by (simp add: bus_ok_def)

lemma frame_ok_replay: "frame_ok (replay_of f s) = frame_ok f"
  by (simp add: frame_ok_def replay_of_def)

lemma frame_ok_control: "frame_ok (control_frame t s)"
  by (simp add: control_frame_def frame_ok_def)

lemma list_all_renumber: "list_all frame_ok (renumber fs s) = list_all frame_ok fs"
  by (induction fs arbitrary: s) (simp_all add: frame_ok_replay)

lemma cached_frames_ok:
  assumes "slots_ok T"
  shows "list_all frame_ok (cached_frames T type_ids)"
proof -
  have "frame_ok (ts_last (T i))" if "i \<in> set type_ids" "ts_has_last (T i)" for i
    using assms that by (simp add: slots_ok_def set_type_ids)
  then show ?thesis by (auto simp: cached_frames_def list_all_iff)
qed

lemma snapshot_frames_ok: "bus_ok b \<Longrightarrow> list_all frame_ok (snapshot_of b)"
  by (simp add: snapshot_of_def Let_def bus_ok_def list_all_renumber cached_frames_ok frame_ok_control)

text \<open>
  When the copy into the cache of an occupied slot runs out of memory, the slot still claims a
  cached frame of the full length but has no payload, and the next snapshot reads through it.
\<close>

lemma sticky_nomem:
  assumes a: "send_args_ok type payload len" and l: "len > 0" and s: "\<not> b_shutdown b"
    and st: "is_sticky flags (b_types b (unat type))" and h: "ts_has_last (b_types b (unat type))"
    and n: "ring_ok (b_q b)" "rq_count (b_q b) < SEND_QUEUE_CAPACITY"
  shows "\<exists>b'. bus_send \<lparr>al_payload = True, al_sticky = False, al_queue = True\<rparr> type flags payload len b
      = Some (HOOK_OK, b') \<and> ts_has_last (b_types b' (unat type)) \<and>
      fm_payload (ts_last (b_types b' (unat type))) = None \<and> fm_len (ts_last (b_types b' (unat type))) = len"
proof -
  let ?f = "send_frame_of type flags payload len (b_tx_seq b)"
  let ?s = "(b_types b (unat type))\<lparr>ts_last := ?f\<lparr>fm_payload := None\<rparr>\<rparr>"
  have f: "frame_ok ?f" using a by (rule send_frame_of_ok)
  obtain q where q: "q_enqueue_nolock True ?f (b_q b) = Some (HOOK_OK, q)"
    using ring_enqueue [OF n(1) f n(2)] by blast
  have len: "fm_len ?f = len" by (simp add: send_frame_of_def)
  then have c: "cache_frame False ?f (b_types b (unat type)) = Some ?s"
    using l h by (simp add: cache_frame_def frame_dup_def Let_def)
  have "bus_send \<lparr>al_payload = True, al_sticky = False, al_queue = True\<rparr> type flags payload len b =
      Some (HOOK_OK, (upd_slot (unat type) (\<lambda>_. ?s) b)\<lparr>b_q := q, b_tx_seq := b_tx_seq b + 1\<rparr>)"
    using st c q by (simp add: bus_send_core [OF a s, of "\<lparr>al_payload = True, al_sticky = False, al_queue = True\<rparr>" flags] Let_def)
  moreover have "ts_last (b_types ((upd_slot (unat type) (\<lambda>_. ?s) b)\<lparr>b_q := q, b_tx_seq := b_tx_seq b + 1\<rparr>) (unat type))
      = ?f\<lparr>fm_payload := None\<rparr>"
    by (simp add: upd_slot_def)
  moreover have "ts_has_last (b_types ((upd_slot (unat type) (\<lambda>_. ?s) b)\<lparr>b_q := q, b_tx_seq := b_tx_seq b + 1\<rparr>) (unat type))"
    using h by (simp add: upd_slot_def)
  ultimately show ?thesis using len by simp
qed

lemma snap_loop_NULL:
  assumes "i \<in> set is" "ts_has_last (T i)" "fm_len (ts_last (T i)) > 0" "fm_payload (ts_last (T i)) = None"
  shows "snap_loop (\<lambda>_. True) T is seq = None"
  using assms(1)
proof (induction "is" arbitrary: seq)
  case (Cons j "is")
  show ?case
  proof (cases "j = i")
    case True
    with assms show ?thesis by (simp add: frame_dup_def)
  next
    case False
    with Cons have "snap_loop (\<lambda>_. True) T is s = None" for s by simp
    then show ?thesis by (auto split: bind_splits)
  qed
qed simp

lemma sync_snapshot_NULL:
  assumes "i < MAX_TYPES" "ts_has_last (b_types b i)" "fm_len (ts_last (b_types b i)) > 0"
    "fm_payload (ts_last (b_types b i)) = None"
  shows "sync_snapshot True (\<lambda>_. True) b = None"
proof -
  have "list_ex (\<lambda>i. ts_has_last (b_types b i)) type_ids"
    using assms by (auto simp: list_ex_iff set_type_ids)
  then show ?thesis
    using snap_loop_NULL [of i type_ids "b_types b"] assms by (simp add: sync_snapshot_def set_type_ids Let_def)
qed

text \<open>The frames of a snapshot carry consecutive numbers.\<close>

lemma snapshot_seq:
  assumes "k < length (snapshot_of b)"
  shows "fm_seq (snapshot_of b ! k) = b_tx_seq b + of_nat k"
proof (cases k)
  case 0
  then show ?thesis by (simp add: snapshot_of_def Let_def control_frame_def)
next
  case (Suc j)
  let ?fs = "cached_frames (b_types b) type_ids"
  from assms Suc consider "j < length ?fs" | "j = length ?fs"
    by (fastforce simp: snapshot_of_def Let_def)
  then show ?thesis
    using Suc by cases (simp_all add: snapshot_of_def Let_def nth_append nth_renumber replay_of_def control_frame_def)
qed

section \<open>Configuration\<close>

lemma upd_slot_other [simp]: "b_q (upd_slot i g b) = b_q b" "b_tx_seq (upd_slot i g b) = b_tx_seq b"
  "b_shutdown (upd_slot i g b) = b_shutdown b"
  by (simp_all add: upd_slot_def)

lemma upd_slot_ok:
  assumes "bus_ok b" "\<And>s. ts_last (g s) = ts_last s" "\<And>s. ts_has_last (g s) = ts_has_last s"
  shows "bus_ok (upd_slot i g b)"
  using assms by (simp add: bus_ok_def slots_ok_def upd_slot_def)

lemma config_ok:
  assumes "bus_ok b"
  shows "bus_ok (bus_set_sticky t x b)" "bus_ok (bus_set_policy t p b)" "bus_ok (snd (bus_on t h c b))"
    "bus_ok (bus_off t b)"
  using assms
  by (auto simp: bus_set_sticky_def bus_set_policy_def bus_on_def bus_off_def split: option.split
      intro: upd_slot_ok)

text \<open>No send looks at the policy of a type.\<close>

lemma q_enqueue_policy_free:
  assumes "send_args_ok type payload len" "\<not> b_shutdown b" "bus_ok b"
  shows "map_option (\<lambda>(r, b'). (r, b_q b'))
           (bus_send alloc_ok type flags payload len (bus_set_policy t p b)) =
         map_option (\<lambda>(r, b'). (r, b_q b')) (bus_send alloc_ok type flags payload len b)"
proof -
  have "\<not> b_shutdown (bus_set_policy t p b)" "b_q (bus_set_policy t p b) = b_q b"
    "b_tx_seq (bus_set_policy t p b) = b_tx_seq b"
    using assms(2) by (simp_all add: bus_set_policy_def split: option.split)
  with assms(1,2) show ?thesis
    by (simp add: bus_send_eq option.map_comp Let_def comp_def split_def)
qed

section \<open>Shutdown\<close>

lemma shutdown_wait_bound: "w \<le> 2500 \<Longrightarrow> 10 dvd w \<Longrightarrow> shutdown_wait obs b w \<le> 2500"
proof (induction obs b w rule: shutdown_wait.induct)
  case (1 obs b w)
  show ?case
  proof (cases "w < 2500 \<and> shutdown_busy b (obs w)")
    case True
    then have "w + 10 \<le> 2500" using "1.prems" by (auto elim!: dvdE)
    with True "1.IH" "1.prems" show ?thesis by (subst shutdown_wait.simps) simp
  next
    case False
    with "1.prems" show ?thesis by (subst shutdown_wait.simps) auto
  qed
qed

lemma drain_ok: "ring_ok q \<Longrightarrow> ring_ok (drain q) \<and> ring_items (drain q) = [] \<and>
    (\<forall>f \<in> set (rq_ring (drain q)). fm_payload f = None)"
proof (induction q rule: drain.induct)
  case (1 q)
  show ?case
  proof (cases "ring_items q")
    case Nil
    then have z: "rq_count q = 0" by (metis length_0_conv length_ring_items)
    have "fm_payload (rq_ring q ! k) = None" if "k < 256" for k
    proof -
      have "(rq_head q + (k + 256 - rq_head q) mod 256) mod 256 = k"
        using that "1.prems" by (simp add: ring_ok_def mod_add_right_eq)
      moreover have "(k + 256 - rq_head q) mod 256 < 256" by simp
      ultimately show ?thesis using "1.prems" z unfolding ring_ok_def by (metis zero_le)
    qed
    moreover have "drain q = q" using z by (subst drain.simps) (simp add: q_is_empty_def)
    ultimately show ?thesis using Nil "1.prems" by (auto simp: ring_ok_def in_set_conv_nth)
  next
    case (Cons x xs)
    then obtain q' where q': "q_dequeue_nolock q = Some (x, q')" "ring_ok q'"
      using ring_dequeue [OF "1.prems"] by blast
    have "rq_count q = Suc (length xs)" using Cons by (metis length_Cons length_ring_items)
    then have "\<not> q_is_empty q" by (simp add: q_is_empty_def)
    with q' "1.IH" [OF this q'(1)] show ?thesis by (subst (1 2 3) drain.simps) simp
  qed
qed

lemma bus_shutdown_foreign:
  "b_owner_pid b \<noteq> 0 \<Longrightarrow> pid \<noteq> b_owner_pid b \<Longrightarrow> bus_shutdown pid obs b = (0, b)"
  by (simp add: bus_shutdown_def)

lemma shutdown_wait_busy: "shutdown_busy (b\<lparr>b_shutdown := x, b_client_fd := y\<rparr>) = shutdown_busy b"
  by (simp add: shutdown_busy_def fun_eq_iff)

lemma shutdown_wait_cong: "shutdown_busy b = shutdown_busy c \<Longrightarrow> shutdown_wait obs b w = shutdown_wait obs c w"
proof (induction obs b w rule: shutdown_wait.induct)
  case (1 obs b w)
  then show ?case by (subst (1 2) shutdown_wait.simps) auto
qed

lemma bus_shutdown_owner:
  assumes "b_owner_pid b = 0 \<or> pid = b_owner_pid b"
  shows "case bus_shutdown pid obs b of (w, b') \<Rightarrow>
    w = shutdown_wait obs b 0 \<and> b_shutdown b' \<and> b_client_fd b' = None \<and>
    (if shutdown_busy b (obs w) then b_q b' = b_q b \<and> b_types b' = b_types b
     else b_q b' = drain (b_q b) \<and>
          b_types b' = clear_types (b_types b) \<and>
          \<not> b_connector_created b' \<and> \<not> b_writer_created b' \<and> \<not> b_timer_created b')"
proof -
  have w: "shutdown_wait obs (b\<lparr>b_shutdown := True, b_client_fd := None\<rparr>) 0 = shutdown_wait obs b 0"
    by (rule shutdown_wait_cong) (rule shutdown_wait_busy)
  obtain c wr t where o: "obs (shutdown_wait obs b 0) = (c, wr, t)" by (metis prod_cases3)
  have own: "\<not> (b_owner_pid b \<noteq> 0 \<and> pid \<noteq> b_owner_pid b)" using assms by auto
  show ?thesis
    unfolding bus_shutdown_def if_not_P [OF own] Let_def w o prod.case
    by (cases "b_connector_created b \<and> c"; cases "b_writer_created b \<and> wr"; cases "b_timer_created b \<and> t")
       (simp_all add: o shutdown_busy_def)
qed

lemma slots_ok_clear: "slots_ok (clear_types T)"
  by (simp add: slots_ok_def clear_types_def clear_slot_def Let_def)

lemma bus_shutdown_ok: "bus_ok b \<Longrightarrow> bus_ok (snd (bus_shutdown pid obs b))"
proof -
  assume b: "bus_ok b"
  show ?thesis
  proof (cases "b_owner_pid b = 0 \<or> pid = b_owner_pid b")
    case True
    from bus_shutdown_owner [OF this, of obs] b drain_ok [of "b_q b"] slots_ok_clear [of "b_types b"]
    show ?thesis by (auto simp: bus_ok_def split: prod.splits if_splits)
  next
    case False
    with b show ?thesis by (simp add: bus_shutdown_foreign)
  qed
qed

lemma bus_init_ok:
  assumes "bus_ok b" "\<forall>f \<in> set (rq_ring (b_q b)). fm_payload f = None"
  shows "bus_ok (snd (bus_init pid c w t b))"
proof -
  have "ring_ok ((b_q b)\<lparr>rq_head := 0, rq_tail := 0, rq_count := 0\<rparr>)"
    using assms ring_ok_zero [of "rq_ring (b_q b)"]
    by (cases "b_q b") (simp add: bus_ok_def ring_ok_def)
  with assms(1) show ?thesis by (auto simp: bus_init_def bus_ok_def Let_def)
qed

end
