(* ===== verification/Bus_Text.thy ===== *)
theory Bus_Text
  imports Text_Builder Bus_Props
begin

text \<open>
  bus_send_text of native/framework/bus.c: the finished text becomes the payload of one frame,
  or nothing is sent at all.
\<close>

definition bus_send_text ::
  "send_alloc \<Rightarrow> u16 \<Rightarrow> u8 \<Rightarrow> text_builder \<Rightarrow> bus \<Rightarrow> (hook_result \<times> text_builder \<times> bus) option" where
  "bus_send_text al type flags tb b =
     (if tb_buf tb = None then Some (HOOK_ERR_PARAM, tb, b)
      else if tb_overflow tb then Some (HOOK_ERR_MEMORY, bus_text_free tb, b)
      else do {
        let flags = flags AND NOT BUS_FLAG_BINARY;
        (r, b) \<leftarrow> bus_send al type flags (tb_buf tb) (of_nat (tb_len tb)) b;
        Some (r, bus_text_free tb, b) })"

text \<open>
  A whole message: begin with a buffer m (heap says who frees it), the calls, and the send. The
  result is the code of bus_send_text and the bus.
\<close>

definition send_calls ::
  "send_alloc \<Rightarrow> u16 \<Rightarrow> u8 \<Rightarrow> bytes option \<Rightarrow> bytes \<Rightarrow> nat \<Rightarrow> text_call list \<Rightarrow> bus \<Rightarrow> (hook_result \<times> bus) option" where
  "send_calls al type flags name m cap cs b = do {
     tb \<leftarrow> bus_text_begin_with name (Some m) cap;
     tb \<leftarrow> text_run cs tb;
     (r, tb, b) \<leftarrow> bus_send_text al type flags tb b;
     Some (r, b) }"

definition send_calls_heap ::
  "send_alloc \<Rightarrow> u16 \<Rightarrow> u8 \<Rightarrow> bytes option \<Rightarrow> bytes option \<Rightarrow> nat \<Rightarrow> text_call list \<Rightarrow> bus \<Rightarrow> (hook_result \<times> bus) option" where
  "send_calls_heap al type flags name mallocd cap cs b = do {
     (r, tb) \<leftarrow> bus_text_begin_heap mallocd name cap;
     case tb of None \<Rightarrow> Some (r, b)
     | Some tb \<Rightarrow> do {
         tb \<leftarrow> text_run cs tb;
         (r, tb, b) \<leftarrow> bus_send_text al type flags tb b;
         Some (r, b) } }"

lemma bt_text_buf: "bt_ok tb \<Longrightarrow> bt_text tb = Some t \<Longrightarrow>
    \<not> tb_overflow tb \<and> (\<exists>m. tb_buf tb = Some m \<and> t = take (tb_len tb) m \<and> tb_len tb \<le> length m)"
  by (auto simp: bt_ok_def bt_text_def split: if_splits)

lemma bus_send_text_eq:
  assumes "bt_ok tb" "tb_cap tb \<le> 0x20000" "unat type < MAX_TYPES" "al_payload al" "al_sticky al"
  shows "bus_send_text al type flags tb b =
    (case bt_text tb of None \<Rightarrow> Some (HOOK_ERR_MEMORY, bus_text_free tb, b)
     | Some t \<Rightarrow> map_option (\<lambda>(r, b). (r, bus_text_free tb, b))
         (bus_send al type (flags AND NOT BUS_FLAG_BINARY) (Some t) (of_nat (length t)) b))"
proof (cases "bt_text tb")
  case None
  with assms(1) show ?thesis by (auto simp: bus_send_text_def bt_text_def bt_ok_def split: if_splits)
next
  case (Some t)
  from bt_text_buf [OF assms(1) Some] obtain m where
    m: "\<not> tb_overflow tb" "tb_buf tb = Some m" "t = take (tb_len tb) m" "tb_len tb \<le> length m" by blast
  have len: "length t = tb_len tb" "tb_len tb \<le> 0x20000" using m assms(1,2) by (auto simp: bt_ok_def)
  have u: "unat (of_nat (tb_len tb) :: u32) = tb_len tb" using len(2) by (simp add: unat_of_nat)
  let ?l = "of_nat (tb_len tb) :: u32"
  have le: "?l \<le> BUS_MAX_PAYLOAD" using len(2) u by (simp add: word_le_nat_alt)
  have a: "send_args_ok type (Some m) ?l" "send_args_ok type (Some t) ?l"
    using assms(3) le u m len by (auto simp: send_args_ok_def)
  have "bus_send al type fl (Some m) ?l b = bus_send al type fl (Some t) ?l b" for fl
  proof (cases "b_shutdown b")
    case True
    with a assms(4) show ?thesis by (simp add: bus_send_shutdown)
  next
    case False
    have "send_frame_of type fl (Some m) ?l q = send_frame_of type fl (Some t) ?l q" for q
      using m u len by (simp add: send_frame_of_def)
    with False a assms(4,5) show ?thesis by (simp add: bus_send_eq)
  qed
  with m len Some show ?thesis
    by (auto simp: bus_send_text_def Let_def map_option_case split: option.split prod.split)
qed

text \<open>The text of a message, and what sending it amounts to.\<close>

definition message_text :: "bytes option \<Rightarrow> text_call list \<Rightarrow> bytes" where
  "message_text name cs = header_text name @ calls_text cs"

definition send_message ::
  "send_alloc \<Rightarrow> u16 \<Rightarrow> u8 \<Rightarrow> bytes option \<Rightarrow> nat \<Rightarrow> text_call list \<Rightarrow> bus \<Rightarrow> (hook_result \<times> bus) option" where
  "send_message al type flags name cap cs b =
     (let t = message_text name cs in
      if length t \<le> cap
      then bus_send al type (flags AND NOT BUS_FLAG_BINARY) (Some t) (of_nat (length t)) b
      else Some (HOOK_ERR_MEMORY, b))"

lemma map_option_fst_snd:
  "Option.bind (map_option (\<lambda>(r, b). (r, x, b)) z) (\<lambda>(r, tb, b). Some (r, b)) = z"
  by (cases z) auto

lemma send_calls_eq:
  assumes "length m = cap" "cap \<le> 0x20000" "unat type < MAX_TYPES" "al_payload al" "al_sticky al"
  shows "send_calls al type flags name m cap cs b = send_message al type flags name cap cs b"
proof -
  from text_message [OF assms(1), of name cs] obtain tb where tb:
    "Option.bind (bus_text_begin_with name (Some m) cap) (text_run cs) = Some tb"
    "bt_ok tb" "tb_cap tb = cap"
    "bt_text tb = (if length (header_text name @ calls_text cs) \<le> cap
                   then Some (header_text name @ calls_text cs) else None)"
    by blast
  have "send_calls al type flags name m cap cs b =
      Option.bind (Option.bind (bus_text_begin_with name (Some m) cap) (text_run cs))
        (\<lambda>tb. Option.bind (bus_send_text al type flags tb b) (\<lambda>(r, tb, b). Some (r, b)))"
    by (simp add: send_calls_def)
  also have "\<dots> = Option.bind (bus_send_text al type flags tb b) (\<lambda>(r, tb, b). Some (r, b))"
    by (simp add: tb(1))
  also have "\<dots> = send_message al type flags name cap cs b"
    using tb assms by (simp add: bus_send_text_eq send_message_def message_text_def map_option_fst_snd Let_def)
  finally show ?thesis .
qed

lemma tb_own_update:
  "bt_ok (tb\<lparr>tb_own := x\<rparr>) = bt_ok tb" "bt_text (tb\<lparr>tb_own := x\<rparr>) = bt_text tb"
  by (simp_all add: bt_ok_def bt_text_def)

lemma send_calls_heap_eq:
  assumes "cap \<le> 0x20000" "unat type < MAX_TYPES" "al_payload al" "al_sticky al"
    "\<And>m. mallocd = Some m \<Longrightarrow> length m = cap"
  shows "send_calls_heap al type flags name mallocd cap cs b =
    (if mallocd = None then Some (HOOK_ERR_MEMORY, b) else send_message al type flags name cap cs b)"
proof (cases mallocd)
  case None
  then show ?thesis by (simp add: send_calls_heap_def bus_text_begin_heap_def)
next
  case (Some m)
  from bus_text_begin_with_ok [OF assms(5) [OF Some], of name] obtain t0 where t0:
    "bus_text_begin_with name (Some m) cap = Some t0" "bt_ok t0" "tb_cap t0 = cap"
    "bt_text t0 = ab_append cap (header_text name) (Some [])" by blast
  let ?t0 = "t0\<lparr>tb_own := True\<rparr>"
  from text_run_appends [unfolded appends_def, rule_format, of ?t0 cs] t0 obtain tb where tb:
    "text_run cs ?t0 = Some tb" "bt_ok tb" "tb_cap tb = cap"
    "bt_text tb = ab_append cap (calls_text cs) (ab_append cap (header_text name) (Some []))"
    by (auto simp: tb_own_update)
  have "send_calls_heap al type flags name mallocd cap cs b =
      Option.bind (bus_send_text al type flags tb b) (\<lambda>(r, tb, b). Some (r, b))"
    using Some t0 tb by (simp add: send_calls_heap_def bus_text_begin_heap_def)
  also have "\<dots> = send_message al type flags name cap cs b"
    using tb assms unfolding ab_append_ab_append
    by (simp add: bus_send_text_eq send_message_def message_text_def map_option_fst_snd Let_def ab_append_def)
  finally show ?thesis using Some by simp
qed

text \<open>With memory at hand a message is accepted, dropped for its size, or refused by the queue.\<close>

lemma send_message_total:
  assumes "bus_ok b" "cap \<le> 0x20000" "unat type < MAX_TYPES"
  shows "\<exists>r b'. send_message alloc_ok type flags name cap cs b = Some (r, b') \<and> bus_ok b'"
proof (cases "length (message_text name cs) \<le> cap")
  case False
  with assms show ?thesis by (simp add: send_message_def Let_def)
next
  case True
  let ?t = "message_text name cs"
  have "unat (of_nat (length ?t) :: u32) = length ?t" using True assms(2) by (simp add: unat_of_nat)
  then have "send_args_ok type (Some ?t) (of_nat (length ?t))"
    using True assms(2,3) by (simp add: send_args_ok_def word_le_nat_alt)
  from bus_send_total [OF this assms(1)] True show ?thesis
    by (fastforce simp: send_message_def Let_def)
qed

end
