(* ===== verification/Rgd_Snapshot.thy ===== *)
theory Rgd_Snapshot
  imports Rgd_Slots Bus_Text Diagnostics
begin

text \<open>
  native/routeguidance/rgd_hook.c: the text snapshot of the cached route. A function that writes
  to the text builder returns the list of its calls; lookups of lane events touch the use order
  of the lane table, so the state is passed along. The strings that the code assembles with
  snprintf are bounded: None is a piece that does not fit in its buffer. stack stands for what a
  local buffer holds before the code writes to it.
\<close>

text \<open>snprintf (buf + off, sizeof (buf) - off, ...) of one piece.\<close>

definition snp :: "nat \<Rightarrow> bytes \<Rightarrow> bytes \<Rightarrow> bytes option" where
  "snp cap buf piece = (if length buf + length piece < cap then Some (buf @ piece) else None)"

fun snp_list :: "nat \<Rightarrow> bytes \<Rightarrow> bytes list \<Rightarrow> bytes option" where
  "snp_list cap buf [] = Some buf"
| "snp_list cap buf (p # ps) = do { buf \<leftarrow> snp cap buf p; snp_list cap buf ps }"

text \<open>The pieces of a list with a separator before every item but the first.\<close>

fun sep_pieces :: "bytes \<Rightarrow> bytes list \<Rightarrow> bytes list" where
  "sep_pieces sep [] = []"
| "sep_pieces sep (x # xs) = x # map (\<lambda>y. sep @ y) xs"

abbreviation COMMA :: bytes where "COMMA \<equiv> [44]"
abbreviation BAR :: bytes where "BAR \<equiv> [124]"

definition dec_u16 :: "u16 \<Rightarrow> bytes" where "dec_u16 w = dec_nat (unat w)"
definition dec_s16 :: "u16 \<Rightarrow> bytes" where "dec_s16 w = dec_int (sint w)"
definition dec_u8 :: "u8 \<Rightarrow> bytes" where "dec_u8 w = dec_nat (unat w)"

text \<open>The keys of the route itself, and m<slot>_... and lg<slot>_...\<close>

definition tkey :: "string \<Rightarrow> bytes" where
  "tkey s = ascii s"

definition mkey :: "nat \<Rightarrow> string \<Rightarrow> bytes" where
  "mkey idx s = ascii ''m'' @ dec_nat idx @ ascii s"

definition lgkey :: "nat \<Rightarrow> string \<Rightarrow> bytes" where
  "lgkey idx s = ascii ''lg'' @ dec_nat idx @ ascii s"

definition at :: "'a list \<Rightarrow> nat \<Rightarrow> 'a option" where
  "at xs i = (if i < length xs then Some (xs ! i) else None)"

abbreviation int64_of_int32 :: "32 word \<Rightarrow> 64 word" where "int64_of_int32 x \<equiv> scast x"

section \<open>Lanes\<close>

definition angle_pieces :: "rgd_lane \<Rightarrow> bytes list" where
  "angle_pieces l = sep_pieces COMMA (map dec_s16 (take MAX_LANE_ANGLES (ln_angles l)))"

fun lane_angle_pieces :: "rgd_lane list \<Rightarrow> bytes list" where
  "lane_angle_pieces [] = []"
| "lane_angle_pieces (l # ls) = angle_pieces l @ concat (map (\<lambda>l. BAR # angle_pieces l) ls)"

text \<open>The five lists of a set of lanes, under keys made by k.\<close>

definition lane_list_calls :: "(string \<Rightarrow> bytes) \<Rightarrow> rgd_lane list \<Rightarrow> text_call list option" where
  "lane_list_calls k lanes = (let ls = take MAX_LANE_GUIDANCE lanes in do {
     pos \<leftarrow> snp_list 128 [] (sep_pieces COMMA (map (dec_u16 \<circ> ln_position) ls));
     dir \<leftarrow> snp_list 128 [] (sep_pieces COMMA (map (dec_s16 \<circ> ln_direction) ls));
     st \<leftarrow> snp_list 128 [] (sep_pieces COMMA (map (dec_u8 \<circ> ln_status) ls));
     desc \<leftarrow> snp_list 600 [] (sep_pieces BAR (map ln_description ls));
     ang \<leftarrow> snp_list 1200 [] (lane_angle_pieces ls);
     Some [T_str (k ''_lane_positions'') (Some pos), T_str (k ''_lane_directions'') (Some dir),
           T_str (k ''_lane_status'') (Some st), T_str (k ''_lane_desc'') (Some desc),
           T_str (k ''_lane_angles'') (Some ang)] })"

definition write_lane_data_keys :: "nat \<Rightarrow> rgd_lane_guidance \<Rightarrow> text_call list option" where
  "write_lane_data_keys idx lane =
     (if \<not> has (lg_present lane) RGD_LANE_GUIDANCE_INDEX then Some []
      else if \<not> has (lg_present lane) RGD_LANE_INFORMATIONS then Some []
      else do {
        lists \<leftarrow> lane_list_calls (lgkey idx) (lg_lanes lane);
        Some ([T_int (lgkey idx ''_index'') (ucast (lg_index lane)),
               T_int (lgkey idx ''_lane_count'') (of_nat (length (lg_lanes lane)))] @ lists) })"

definition write_lane_clear_keys :: "nat \<Rightarrow> text_call list" where
  "write_lane_clear_keys idx =
     [T_int (lgkey idx ''_index'') (-1), T_int (lgkey idx ''_lane_count'') (-1),
      T_str (lgkey idx ''_lane_positions'') (Some []), T_str (lgkey idx ''_lane_directions'') (Some []),
      T_str (lgkey idx ''_lane_status'') (Some []), T_str (lgkey idx ''_lane_desc'') (Some []),
      T_str (lgkey idx ''_lane_angles'') (Some [])]"

section \<open>Maneuvers\<close>

definition junction_angle_calls :: "bytes \<Rightarrow> nat \<Rightarrow> rgd_maneuver \<Rightarrow> text_call list option" where
  "junction_angle_calls stack idx man =
     (if has (mn_present man) RGD_MAN_JUNCTION_ANGLES then do {
        buf \<leftarrow> (if mn_junction_angles man = [] then Some stack
                else snp_list 128 [] (sep_pieces COMMA (map dec_s16 (mn_junction_angles man))));
        Some [T_str (mkey idx ''_junction_angles'') (Some buf)] }
      else Some [])"

definition linked_lane_calls :: "nat \<Rightarrow> rgd_maneuver \<Rightarrow> rgd_state \<Rightarrow> text_call list \<times> rgd_state" where
  "linked_lane_calls idx man g =
     (if has (mn_present man) RGD_MAN_LINKED_LANE_INDEX then
        let (linked_slot, g) = rgd_lane_slot_for_iap_index (mn_linked_lane_guidance_index man) False g
        in (T_int (mkey idx ''_linked_lane_guidance_index'') (ucast (mn_linked_lane_guidance_index man)) #
            (case linked_slot of None \<Rightarrow> []
             | Some s \<Rightarrow> [T_int (mkey idx ''_linked_lane_guidance_slot'') (of_nat s)]), g)
      else ([], g))"

definition maneuver_lane_calls :: "nat \<Rightarrow> rgd_maneuver \<Rightarrow> text_call list option" where
  "maneuver_lane_calls idx man =
     (if has (mn_present man) RGD_MAN_LANE_GUIDANCE then do {
        lists \<leftarrow> lane_list_calls (mkey idx) (mn_lanes man);
        Some (T_int (mkey idx ''_lane_count'') (of_nat (length (mn_lanes man))) # lists) }
      else if has (mn_present man) RGD_MAN_LANE_GUIDANCE_RAW then
        Some [T_int (mkey idx ''_lane_count'') 0, T_str (mkey idx ''_lane_positions'') (Some []),
              T_str (mkey idx ''_lane_directions'') (Some []), T_str (mkey idx ''_lane_status'') (Some []),
              T_str (mkey idx ''_lane_desc'') (Some []), T_str (mkey idx ''_lane_angles'') (Some [])]
      else Some [])"

definition write_slot_data_keys ::
  "bytes \<Rightarrow> nat \<Rightarrow> rgd_maneuver \<Rightarrow> rgd_state \<Rightarrow> (text_call list \<times> rgd_state) option" where
  "write_slot_data_keys stack idx man g = (let p = has (mn_present man); k = mkey idx in do {
     let c1 =
       (if p RGD_MAN_TYPE then [T_int (k ''_type'') (ucast (mn_type man))] else []) @
       (if p RGD_MAN_EXIT_ANGLE then [T_int (k ''_turn_angle'') (scast (mn_exit_angle man)),
                                      T_int (k ''_exit_angle'') (scast (mn_exit_angle man))] else []) @
       (if p RGD_MAN_JUNCTION_TYPE then [T_int (k ''_junction_type'') (ucast (mn_junction_type man))] else []) @
       (if p RGD_MAN_DRIVING_SIDE then [T_int (k ''_driving_side'') (ucast (mn_driving_side man))] else []) @
       (if p RGD_MAN_DISTANCE_BETWEEN then [T_uint (k ''_distance'') (ucast (mn_distance_between man))] else []) @
       (if p RGD_MAN_DISTANCE_STRING then [T_str (k ''_distance_str'') (Some (mn_distance_string man))] else []) @
       (if p RGD_MAN_DISTANCE_UNITS then [T_int (k ''_distance_units'') (ucast (mn_distance_units man))] else []) @
       (if p RGD_MAN_DESCRIPTION then [T_str (k ''_name'') (Some (mn_description man))] else []) @
       (if p RGD_MAN_AFTER_ROAD then [T_str (k ''_after_road'') (Some (mn_after_road_name man))] else []);
     c2 \<leftarrow> junction_angle_calls stack idx man;
     ver \<leftarrow> at (g_slot_ver g) idx;
     let c3 = [T_uint (k ''_ver'') (ucast (ver mod 65535 + 1))];
     let c4 = (if p RGD_MAN_LANE_GUIDANCE_RAW
               then [T_int (k ''_lane_guidance_len'') (ucast (mn_lane_guidance_raw_len man))] else []);
     let (c5, g) = linked_lane_calls idx man g;
     c6 \<leftarrow> maneuver_lane_calls idx man;
     let c7 =
       (if p RGD_MAN_EXIT_INFO_RAW then [T_int (k ''_exit_info_len'') (ucast (mn_exit_info_raw_len man))] else []) @
       (if p RGD_MAN_EXIT_INFO_STR then [T_str (k ''_exit_info'') (Some (mn_exit_info_str man))] else []);
     Some (c1 @ c2 @ c3 @ c4 @ c5 @ c6 @ c7, g) })"

section \<open>The lane cache\<close>

definition rgd_lane_slot_has_data :: "nat \<Rightarrow> rgd_state \<Rightarrow> bool" where
  "rgd_lane_slot_has_data slot g =
     (if slot \<ge> MANEUVER_CACHE_SIZE then False
      else lg_present (g_lane_cache g ! slot) AND (RGD_LANE_GUIDANCE_INDEX OR RGD_LANE_INFORMATIONS)
           = (RGD_LANE_GUIDANCE_INDEX OR RGD_LANE_INFORMATIONS))"

definition prune_slot :: "u16 \<Rightarrow> nat \<Rightarrow> bool \<times> rgd_state \<Rightarrow> bool \<times> rgd_state" where
  "prune_slot min_idx i s = (case s of (pruned, g) \<Rightarrow>
     let lane_idx = g_lane_slot_to_iap_idx g ! i in
     if lane_idx = NO_INDEX then (pruned, g)
     else if lane_idx \<ge> min_idx then (pruned, g)
     else if has (up_present (g_update_cache g)) RGD_UPD_LANE_INDEX \<and>
             up_lane_guidance_index (g_update_cache g) = lane_idx then (pruned, g)
     else (True, g\<lparr>g_lane_slot_to_iap_idx := (g_lane_slot_to_iap_idx g)[i := NO_INDEX],
                   g_lane_slot_seq := (g_lane_slot_seq g)[i := 0],
                   g_lane_cache := (g_lane_cache g)[i := (g_lane_cache g ! i)\<lparr>lg_present := 0\<rparr>]\<rparr>))"

definition rgd_prune_stale_lane_cache :: "rgd_state \<Rightarrow> bool \<times> rgd_state" where
  "rgd_prune_stale_lane_cache g =
     (if \<not> g_current_list_present g then (False, g)
      else if length (g_current_list g) = 0 then (False, g)
      else if g_last_route_state g = RGD_STATE_REROUTING then (False, g)
      else case rgd_min_current_index g of None \<Rightarrow> (False, g)
      | Some min_idx \<Rightarrow> fold (prune_slot min_idx) slot_ids (False, g))"

section \<open>The snapshot\<close>

text \<open>
  What one call of the hook finds in its environment: the monotonic clock (at the start and
  later), the bytes in a fresh local buffer, in the scratch buffer of a short message and in the
  block that malloc returns for the text buffer, the allocations of bus_send for the snapshot
  and for the short message, and the answers of hook_is_ready and hook_inject_message.
\<close>

record env =
  ev_start :: u64
  ev_now :: u64
  ev_stack :: bytes
  ev_scratch :: bytes
  ev_heap :: "bytes option"
  ev_alloc :: send_alloc
  ev_clear_alloc :: send_alloc
  ev_ready :: bool
  ev_inject :: hook_result

definition RGD_UPD_WRITE_MASK :: u64 where
  "RGD_UPD_WRITE_MASK = RGD_UPD_ROUTE_STATE OR RGD_UPD_MANEUVER_STATE OR
     RGD_UPD_DISTANCE_REMAINING OR RGD_UPD_DIST_TO_MANEUVER OR RGD_UPD_ETA OR
     RGD_UPD_TIME_REMAINING OR RGD_UPD_CURRENT_ROAD OR RGD_UPD_DESTINATION OR
     RGD_UPD_DISTANCE_UNITS OR RGD_UPD_DIST_TO_MANEUVER_UNI OR RGD_UPD_DISTANCE_STRING OR
     RGD_UPD_DIST_TO_MANEUVER_STR OR RGD_UPD_LANE_INDEX OR RGD_UPD_LANE_SLOT OR
     RGD_UPD_LANE_TOTAL OR RGD_UPD_LANE_SHOWING OR RGD_UPD_SOURCE_NAME OR
     RGD_UPD_SOURCE_SUPPORTS_RG OR RGD_UPD_VISIBLE_IN_APP OR RGD_UPD_COMPONENT_IDS OR
     RGD_UPD_MANEUVER_COUNT OR RGD_UPD_MANEUVER_LIST"

text \<open>The list loop of component_ids: it stops when fewer than four bytes are left.\<close>

fun snp_until :: "nat \<Rightarrow> nat \<Rightarrow> bytes \<Rightarrow> bytes list \<Rightarrow> bytes option" where
  "snp_until cap lim buf [] = Some buf"
| "snp_until cap lim buf (p # ps) = do {
     buf \<leftarrow> snp cap buf p;
     if length buf \<ge> lim then Some buf else snp_until cap lim buf ps }"

definition component_calls :: "rgd_update \<Rightarrow> text_call list option" where
  "component_calls upd =
     (let n = length (up_component_ids upd) in do {
        ids \<leftarrow> (if n > 0 then snp_until 128 124 [] (sep_pieces COMMA (map dec_u16 (up_component_ids upd)))
               else Some []);
        Some [T_int (tkey ''component_count'') (of_nat n), T_str (tkey ''component_ids'') (Some ids)] })"

definition lane_slot_calls :: "u64 \<Rightarrow> rgd_update \<Rightarrow> rgd_state \<Rightarrow> text_call list \<times> rgd_state" where
  "lane_slot_calls present upd g =
     (if has present RGD_UPD_LANE_INDEX then
        let (lane_slot, g) = rgd_lane_slot_for_iap_index (up_lane_guidance_index upd) False g
        in ([T_int (tkey ''lane_guidance_slot'')
               (case lane_slot of Some s \<Rightarrow> of_nat s | None \<Rightarrow> -1)], g)
      else if has present RGD_UPD_LANE_SLOT then
        ([T_int (tkey ''lane_guidance_slot'') (scast (up_lane_guidance_slot upd))], g)
      else ([], g))"

definition update_calls :: "u64 \<Rightarrow> rgd_update \<Rightarrow> rgd_state \<Rightarrow> (text_call list \<times> rgd_state) option" where
  "update_calls present upd g = (let p = has present in do {
     let c1 =
       (if p RGD_UPD_ROUTE_STATE then [T_int (tkey ''route_state'') (ucast (up_route_state upd))] else []) @
       (if p RGD_UPD_MANEUVER_STATE then [T_int (tkey ''maneuver_state'') (ucast (up_maneuver_state upd))] else []) @
       (if p RGD_UPD_DISTANCE_REMAINING then [T_uint (tkey ''dist_dest_m'') (ucast (up_distance_remaining upd))] else []) @
       (if p RGD_UPD_DIST_TO_MANEUVER then [T_uint (tkey ''dist_maneuver_m'') (ucast (up_dist_to_maneuver upd))] else []) @
       (if p RGD_UPD_ETA then [T_uint (tkey ''eta_seconds'') (up_eta upd)] else []) @
       (if p RGD_UPD_TIME_REMAINING then [T_uint (tkey ''time_remaining_seconds'') (up_time_remaining upd)] else []) @
       (if p RGD_UPD_CURRENT_ROAD then [T_str (tkey ''current_road'') (Some (up_current_road upd))] else []) @
       (if p RGD_UPD_DESTINATION then [T_str (tkey ''destination'') (Some (up_destination upd))] else []) @
       (if p RGD_UPD_DISTANCE_UNITS then [T_int (tkey ''dist_dest_units'') (ucast (up_distance_units upd))] else []) @
       (if p RGD_UPD_DIST_TO_MANEUVER_UNI
        then [T_int (tkey ''dist_maneuver_units'') (ucast (up_dist_to_maneuver_units upd))] else []) @
       (if p RGD_UPD_DISTANCE_STRING then [T_str (tkey ''dist_dest_str'') (Some (up_distance_string upd))] else []) @
       (if p RGD_UPD_DIST_TO_MANEUVER_STR
        then [T_str (tkey ''dist_maneuver_str'') (Some (up_dist_to_maneuver_string upd))] else []) @
       (if p RGD_UPD_LANE_INDEX
        then [T_int (tkey ''lane_guidance_index'') (ucast (up_lane_guidance_index upd))] else []);
     let (c2, g) = lane_slot_calls present upd g;
     let c3 =
       (if p RGD_UPD_LANE_TOTAL
        then [T_int (tkey ''lane_guidance_total'') (ucast (up_lane_guidance_total upd))] else []) @
       (if p RGD_UPD_LANE_SHOWING
        then [T_int (tkey ''lane_guidance_showing'') (ucast (up_lane_guidance_showing upd))] else []) @
       (if p RGD_UPD_SOURCE_NAME then [T_str (tkey ''source_name'') (Some (up_source_name upd))] else []) @
       (if p RGD_UPD_SOURCE_SUPPORTS_RG
        then [T_int (tkey ''source_supports_rg'') (ucast (up_source_supports_rg upd))] else []) @
       (if p RGD_UPD_VISIBLE_IN_APP
        then [T_int (tkey ''visible_in_app'') (ucast (up_visible_in_app upd))] else []);
     c4 \<leftarrow> (if p RGD_UPD_COMPONENT_IDS then component_calls upd else Some []);
     let c5 = (if p RGD_UPD_MANEUVER_COUNT
               then [T_int (tkey ''maneuver_count'') (ucast (up_maneuver_count upd))] else []);
     Some (c1 @ c2 @ c3 @ c4 @ c5, g) })"

text \<open>A maneuver list in the update replaces the current one.\<close>

definition take_current_list :: "rgd_update option \<Rightarrow> rgd_state \<Rightarrow> rgd_state" where
  "take_current_list current_upd g = (case current_upd of None \<Rightarrow> g
     | Some u \<Rightarrow>
         if \<not> has (up_present u) RGD_UPD_MANEUVER_LIST then g
         else
           let l = take MAX_MANEUVER_LIST (up_maneuver_list u);
               g = g\<lparr>g_current_list_present := True, g_current_list := l\<rparr>
           in (case l of [] \<Rightarrow> g
               | x # xs \<Rightarrow>
                   let new_max = fold (\<lambda>i m. if i > m then i else m) xs x
                   in if new_max > g_highest_list_index g then g\<lparr>g_highest_list_index := new_max\<rparr> else g))"

text \<open>The loop over the current list: the text of maneuver_list and the slots in it.\<close>

fun list_slots :: "rgd_state \<Rightarrow> u16 list \<Rightarrow> bytes \<Rightarrow> nat \<Rightarrow> nat list \<Rightarrow> (bytes \<times> nat \<times> nat list) option" where
  "list_slots g [] buf outc listed = Some (buf, outc, listed)"
| "list_slots g (i # is) buf outc listed =
     (case rgd_find_slot_for_iap_index_no_touch i g of
        None \<Rightarrow> list_slots g is buf outc listed
      | Some slot \<Rightarrow> do {
          man \<leftarrow> at (g_slot_cache g) slot;
          if \<not> has (mn_present man) RGD_MAN_TYPE then list_slots g is buf outc listed
          else do {
            let listed = (if length listed < MAX_MANEUVER_LIST then listed @ [slot] else listed);
            buf \<leftarrow> snp 128 buf ((if outc > 0 then COMMA else []) @ dec_nat slot);
            if length buf \<ge> 124 then Some (buf, outc + 1, listed)
            else list_slots g is buf (outc + 1) listed } })"

definition maneuver_list_calls :: "rgd_state \<Rightarrow> (text_call list \<times> nat list) option" where
  "maneuver_list_calls g =
     (if \<not> g_current_list_present g then Some ([], [])
      else if length (g_current_list g) > 0 then do {
        (buf, outc, listed) \<leftarrow> list_slots g (g_current_list g) [] 0 [];
        Some ([T_str (tkey ''maneuver_list'') (Some (if outc > 0 then buf else []))], listed) }
      else Some ([T_str (tkey ''maneuver_list'') (Some [])], []))"

fun listed_slot_calls :: "bytes \<Rightarrow> nat list \<Rightarrow> rgd_state \<Rightarrow> (text_call list \<times> rgd_state) option" where
  "listed_slot_calls stack [] g = Some ([], g)"
| "listed_slot_calls stack (s # ss) g = do {
     (cs, g) \<leftarrow> (if s < MANEUVER_CACHE_SIZE \<and> mn_present (g_slot_cache g ! s) \<noteq> 0
                then write_slot_data_keys stack s (g_slot_cache g ! s) g else Some ([], g));
     (ds, g) \<leftarrow> listed_slot_calls stack ss g;
     Some (cs @ ds, g) }"

fun lane_slot_data_calls :: "nat list \<Rightarrow> rgd_state \<Rightarrow> text_call list option" where
  "lane_slot_data_calls [] g = Some []"
| "lane_slot_data_calls (i # is) g = do {
     cs \<leftarrow> (if rgd_lane_slot_has_data i g then write_lane_data_keys i (g_lane_cache g ! i)
           else Some (write_lane_clear_keys i));
     ds \<leftarrow> lane_slot_data_calls is g;
     Some (cs @ ds) }"

text \<open>The extra slot of a 0x5202 or 0x5204, with the maneuver its pointer refers to.\<close>

definition extra_slot_calls ::
  "bytes \<Rightarrow> (nat \<times> rgd_maneuver) option \<Rightarrow> nat list \<Rightarrow> rgd_state \<Rightarrow> (text_call list \<times> rgd_state) option" where
  "extra_slot_calls stack extra listed g = (case extra of None \<Rightarrow> Some ([], g)
     | Some (slot, man) \<Rightarrow>
         if slot \<in> set listed then Some ([], g)
         else do {
           (cs, g) \<leftarrow> write_slot_data_keys stack slot man g;
           Some (cs @ [T_int (tkey ''cached_extra_slot'') (of_nat slot)], g) })"

definition snapshot_calls ::
  "bytes \<Rightarrow> diag \<Rightarrow> u64 \<Rightarrow> (nat \<times> rgd_maneuver) option \<Rightarrow> rgd_update option \<Rightarrow> rgd_state \<Rightarrow>
   (text_call list \<times> rgd_state) option" where
  "snapshot_calls stack d present extra current_upd g = do {
     let c0 = [T_uint (tkey ''diag_session'') (ucast (rgi_diag_session_get d)),
               T_uint (tkey ''diag_rx_seq'') (ucast (rgi_diag_current_rx_seq d))];
     (c1, g) \<leftarrow> update_calls present (g_update_cache g) g;
     let g = take_current_list current_upd g;
     let (pruned, g) = rgd_prune_stale_lane_cache g;
     (c2, listed) \<leftarrow> maneuver_list_calls g;
     (c3, g) \<leftarrow> listed_slot_calls stack listed g;
     c4 \<leftarrow> lane_slot_data_calls slot_ids g;
     (c5, g) \<leftarrow> extra_slot_calls stack extra listed g;
     Some (c0 @ c1 @ c2 @ c3 @ c4 @ c5, g) }"

definition write_bus_snapshot_from_cache ::
  "env \<Rightarrow> diag \<Rightarrow> (nat \<times> rgd_maneuver) option \<Rightarrow> rgd_update option \<Rightarrow> rgd_state \<Rightarrow> bus \<Rightarrow>
   (rgd_state \<times> bus) option" where
  "write_bus_snapshot_from_cache ev d extra current_upd g b =
     (let present = up_present (g_update_cache g) AND RGD_UPD_WRITE_MASK;
          extra = (case extra of None \<Rightarrow> None
                   | Some (slot, man) \<Rightarrow>
                       if mn_present man \<noteq> 0 \<and> slot < MANEUVER_CACHE_SIZE then extra else None);
          (pruned_lane_slots, g) = rgd_prune_stale_lane_cache g;
          have_lane_cache = list_ex (\<lambda>i. rgd_lane_slot_has_data i g) slot_ids
      in if present = 0 \<and> extra = None \<and> \<not> have_lane_cache \<and> \<not> pruned_lane_slots then Some (g, b)
         else if ev_heap ev = None then Some (g, b)
         else do {
           (cs, g) \<leftarrow> snapshot_calls (ev_stack ev) d present extra current_upd g;
           (r, b) \<leftarrow> send_calls_heap (ev_alloc ev) EVT_RGD_UPDATE BUS_FLAG_STICKY
                      (Some (ascii ''routeguidance'')) (ev_heap ev) (64 * 1024) cs b;
           Some (g, b) })"

end
