(* ===== verification/Rgd_Hook.thy ===== *)
theory Rgd_Hook
  imports Rgd_Snapshot Rgd_Component
begin

text \<open>
  native/routeguidance/rgd_hook.c: the three publishers, the start and stop requests, the
  message handler with the debounce of route_state 0, the state handler, the periodic tick and
  the module life cycle. A step takes the world (the module, the bus, the diagnostics, the
  context and the messages it injected) to the world after it; None is an access outside a
  buffer or an array. The locks make each of the steps below atomic.
\<close>

abbreviation ROUTE_ZERO_NORMAL_GRACE_MS :: u64 where "ROUTE_ZERO_NORMAL_GRACE_MS \<equiv> 800"
abbreviation RGD_START_FAST_RETRY_MS :: u64 where "RGD_START_FAST_RETRY_MS \<equiv> 2000"
abbreviation RGD_START_SLOW_RETRY_MS :: u64 where "RGD_START_SLOW_RETRY_MS \<equiv> 30000"
abbreviation RGD_START_FAST_ATTEMPTS :: u32 where "RGD_START_FAST_ATTEMPTS \<equiv> 5"

record world =
  w_rgd :: rgd_state
  w_bus :: bus
  w_diag :: diag
  w_session_active :: bool
  w_initialized :: bool
  w_injected :: "(u16 \<times> bytes) list"

definition in_bus :: "(rgd_state \<Rightarrow> bus \<Rightarrow> (rgd_state \<times> bus) option) \<Rightarrow> world \<Rightarrow> world option" where
  "in_bus f w = do { (g, b) \<leftarrow> f (w_rgd w) (w_bus w); Some (w\<lparr>w_rgd := g, w_bus := b\<rparr>) }"

definition on_rgd :: "(rgd_state \<Rightarrow> rgd_state) \<Rightarrow> world \<Rightarrow> world" where
  "on_rgd f w = w\<lparr>w_rgd := f (w_rgd w)\<rparr>"

definition rgd_update_session_active :: "world \<Rightarrow> world" where
  "rgd_update_session_active w = w\<lparr>w_session_active := g_active (w_rgd w) \<or> g_got_520x (w_rgd w)\<rparr>"

definition rgd_cancel_pending_zero :: "rgd_state \<Rightarrow> rgd_state" where
  "rgd_cancel_pending_zero g =
     (if g_state_zero_started_ms g = 0 then g
      else g\<lparr>g_state_zero_started_ms := 0, g_state_zero_deadline_ms := 0,
             g_state_zero_from_reroute := False\<rparr>)"

section \<open>The publishers\<close>

definition write_bus_update_partial ::
  "env \<Rightarrow> diag \<Rightarrow> rgd_update \<Rightarrow> rgd_state \<Rightarrow> bus \<Rightarrow> (rgd_state \<times> bus) option" where
  "write_bus_update_partial ev d upd g b =
     (if up_present upd = 0 then Some (g, b)
      else if up_present upd AND RGD_UPD_WRITE_MASK = 0 then Some (g, b)
      else
        let (enriched, g) =
          (if has (up_present upd) RGD_UPD_LANE_INDEX then
             let (slot, g) = rgd_lane_slot_for_iap_index (up_lane_guidance_index upd) False g
             in (upd\<lparr>up_present := up_present upd OR RGD_UPD_LANE_SLOT,
                     up_lane_guidance_slot := (case slot of Some s \<Rightarrow> of_nat s | None \<Rightarrow> -1)\<rparr>, g)
           else (upd, g));
          g = rgd_update_cache_merge enriched g
        in write_bus_snapshot_from_cache ev d None (Some enriched) g b)"

definition rgd_resolve_linked_lanes :: "nat \<Rightarrow> rgd_state \<Rightarrow> rgd_state option" where
  "rgd_resolve_linked_lanes slot g = do {
     man \<leftarrow> at (g_slot_cache g) slot;
     if \<not> has (mn_present man) RGD_MAN_LINKED_LANE_INDEX then Some g
     else if has (mn_present man) RGD_MAN_LANE_GUIDANCE then Some g
     else do {
       (linked_slot, g) \<leftarrow> rgd_slot_for_iap_index (mn_linked_lane_guidance_index man) False g;
       case linked_slot of None \<Rightarrow> Some g
       | Some ls \<Rightarrow> do {
           src \<leftarrow> at (g_slot_cache g) ls;
           if \<not> has (mn_present src) RGD_MAN_LANE_GUIDANCE \<or> length (mn_lanes src) = 0 then Some g
           else Some (g\<lparr>g_slot_cache := (g_slot_cache g)[slot :=
             man\<lparr>mn_lanes := mn_lanes src, mn_present := mn_present man OR RGD_MAN_LANE_GUIDANCE\<rparr>]\<rparr>) } } }"

definition backpropagate_slot :: "rgd_maneuver \<Rightarrow> u16 \<Rightarrow> nat \<Rightarrow> nat \<Rightarrow> rgd_maneuver list \<Rightarrow> rgd_maneuver list" where
  "backpropagate_slot src src_iap_idx source_slot s cache =
     (let man = cache ! s in
      if s = source_slot then cache
      else if \<not> has (mn_present man) RGD_MAN_LINKED_LANE_INDEX then cache
      else if has (mn_present man) RGD_MAN_LANE_GUIDANCE then cache
      else if mn_linked_lane_guidance_index man \<noteq> src_iap_idx then cache
      else cache[s := man\<lparr>mn_lanes := mn_lanes src, mn_present := mn_present man OR RGD_MAN_LANE_GUIDANCE\<rparr>])"

definition rgd_backpropagate_linked_lanes :: "nat \<Rightarrow> rgd_state \<Rightarrow> rgd_state option" where
  "rgd_backpropagate_linked_lanes source_slot g = do {
     src \<leftarrow> at (g_slot_cache g) source_slot;
     if \<not> has (mn_present src) RGD_MAN_LANE_GUIDANCE \<or> length (mn_lanes src) = 0 then Some g
     else do {
       src_iap_idx \<leftarrow> at (g_slot_to_iap_idx g) source_slot;
       if src_iap_idx = NO_INDEX then Some g
       else Some (g\<lparr>g_slot_cache := fold (backpropagate_slot src src_iap_idx source_slot) slot_ids (g_slot_cache g)\<rparr>) } }"

definition MAN_WRITE_MASK :: u64 where
  "MAN_WRITE_MASK = RGD_MAN_TYPE OR RGD_MAN_EXIT_ANGLE OR RGD_MAN_JUNCTION_TYPE OR
     RGD_MAN_DRIVING_SIDE OR RGD_MAN_DISTANCE_BETWEEN OR RGD_MAN_DISTANCE_STRING OR
     RGD_MAN_DISTANCE_UNITS OR RGD_MAN_DESCRIPTION OR RGD_MAN_AFTER_ROAD OR
     RGD_MAN_JUNCTION_ANGLES OR RGD_MAN_LANE_GUIDANCE_RAW OR RGD_MAN_LINKED_LANE_INDEX OR
     RGD_MAN_LANE_GUIDANCE OR RGD_MAN_EXIT_INFO_RAW OR RGD_MAN_EXIT_INFO_STR"

definition write_bus_maneuver_partial ::
  "env \<Rightarrow> diag \<Rightarrow> rgd_maneuver \<Rightarrow> rgd_state \<Rightarrow> bus \<Rightarrow> (rgd_state \<times> bus) option" where
  "write_bus_maneuver_partial ev d man g b =
     (if mn_present man = 0 then Some (g, b)
      else if \<not> has (mn_present man) RGD_MAN_INDEX then Some (g, b)
      else if mn_present man AND MAN_WRITE_MASK = 0 then Some (g, b)
      else if \<not> rgd_can_process_maneuver_index (mn_index man) g then Some (g, b)
      else do {
        (slot, g) \<leftarrow> rgd_slot_for_iap_index (mn_index man) True g;
        case slot of None \<Rightarrow> Some (g, b)
        | Some s \<Rightarrow> do {
            _ \<leftarrow> at (g_slot_cache g) s;
            let g = g\<lparr>g_slot_cache := (g_slot_cache g)[s := man]\<rparr>;
            g \<leftarrow> rgd_resolve_linked_lanes s g;
            m \<leftarrow> at (g_slot_cache g) s;
            g \<leftarrow> (if has (mn_present m) RGD_MAN_LANE_GUIDANCE
                 then rgd_backpropagate_linked_lanes s g else Some g);
            m \<leftarrow> at (g_slot_cache g) s;
            write_bus_snapshot_from_cache ev d (Some (s, m)) None g b } })"

text \<open>Lanes without a description get the one of the message.\<close>

definition describe_lanes :: "rgd_lane_guidance \<Rightarrow> rgd_lane_guidance" where
  "describe_lanes dst =
     (if has (lg_present dst) RGD_LANE_GUIDANCE_DESC \<and> lg_description dst \<noteq> [] then
        dst\<lparr>lg_lanes := map (\<lambda>l. if ln_description l = [] then l\<lparr>ln_description := take 63 (lg_description dst)\<rparr> else l)
                           (take MAX_LANE_GUIDANCE (lg_lanes dst)) @ drop MAX_LANE_GUIDANCE (lg_lanes dst)\<rparr>
      else dst)"

text \<open>Storing the lanes of a message under its index; the result is the slot.\<close>

definition store_lanes :: "rgd_lane_guidance \<Rightarrow> u16 \<Rightarrow> rgd_state \<Rightarrow> nat option \<times> rgd_state" where
  "store_lanes lane iap_idx g =
     (if \<not> has (lg_present lane) RGD_LANE_INFORMATIONS then (None, g)
      else if iap_idx = NO_INDEX then (None, g)
      else case rgd_lane_slot_for_iap_index iap_idx True g of
        (None, g) \<Rightarrow> (None, g)
      | (Some s, g) \<Rightarrow>
          (Some s, g\<lparr>g_lane_cache := (g_lane_cache g)[s := describe_lanes (lane\<lparr>lg_index := iap_idx,
             lg_present := lg_present lane OR (RGD_LANE_GUIDANCE_INDEX OR RGD_LANE_INFORMATIONS)\<rparr>)]\<rparr>))"

definition write_bus_lane_guidance_partial ::
  "env \<Rightarrow> diag \<Rightarrow> rgd_lane_guidance \<Rightarrow> rgd_state \<Rightarrow> bus \<Rightarrow> (rgd_state \<times> bus) option" where
  "write_bus_lane_guidance_partial ev d lane g b =
     (if lg_present lane AND (RGD_LANE_GUIDANCE_INDEX OR RGD_LANE_INFORMATIONS) = 0 then Some (g, b)
      else do {
        let iap_idx = (if has (lg_present lane) RGD_LANE_GUIDANCE_INDEX then lg_index lane
                       else if g_current_list_present g \<and> length (g_current_list g) > 0
                            then g_current_list g ! 0 else NO_INDEX);
        let (slot, g) = store_lanes lane iap_idx g;
        let (upd, g) =
          (if iap_idx \<noteq> NO_INDEX then
             let (publish_slot, g) = (case slot of Some s \<Rightarrow> (Some s, g)
                                      | None \<Rightarrow> rgd_lane_slot_for_iap_index iap_idx False g)
             in (if has (up_present (g_update_cache g)) RGD_UPD_LANE_INDEX \<and>
                    up_lane_guidance_index (g_update_cache g) = iap_idx
                 then Some (zero_update\<lparr>up_present := RGD_UPD_LANE_SLOT,
                        up_lane_guidance_slot := (case publish_slot of Some s \<Rightarrow> of_nat s | None \<Rightarrow> -1)\<rparr>)
                 else None, g)
           else (None, g));
        if upd = None \<and> slot = None then Some (g, b)
        else do {
          let g = (case upd of Some u \<Rightarrow> rgd_update_cache_merge u g | None \<Rightarrow> g);
          case slot of
            Some s \<Rightarrow> do {
              man \<leftarrow> at (g_slot_cache g) s;
              write_bus_snapshot_from_cache ev d (Some (s, man)) upd g b }
          | None \<Rightarrow> write_bus_snapshot_from_cache ev d None upd g b } })"

section \<open>Clearing, starting and stopping\<close>

text \<open>A short message in a local buffer.\<close>

definition short_message :: "send_alloc \<Rightarrow> bytes \<Rightarrow> text_call list \<Rightarrow> world \<Rightarrow> world option" where
  "short_message al scratch cs w = do {
     (r, b) \<leftarrow> send_calls al EVT_RGD_UPDATE BUS_FLAG_STICKY (Some (ascii ''routeguidance'')) scratch
                (length scratch) cs (w_bus w);
     Some (w\<lparr>w_bus := b\<rparr>) }"

definition route_end_calls :: "text_call list" where
  "route_end_calls = [T_int (tkey ''route_state'') 0, T_int (tkey ''maneuver_count'') 0]"

definition clear_fields :: "rgd_state \<Rightarrow> rgd_state" where
  "clear_fields g = g\<lparr>g_active := False, g_sent_5203 := False, g_sent_5200 := False,
     g_got_520x := False, g_component_valid := False, g_last_5200_ms := 0,
     g_start_5200_attempts := 0, g_have_update := False, g_last_route_state := 0,
     g_state_zero_started_ms := 0, g_state_zero_deadline_ms := 0,
     g_state_zero_from_reroute := False, g_emitted_route_state := 0\<rparr>"

definition rgd_clear_state :: "env \<Rightarrow> bytes option \<Rightarrow> world \<Rightarrow> world option" where
  "rgd_clear_state ev reason w = do {
     let w = on_rgd (rgd_update_cache_reset \<circ> rgd_maneuver_map_reset \<circ> clear_fields) w;
     w \<leftarrow> short_message (ev_clear_alloc ev) (ev_scratch ev)
            (route_end_calls @ (case reason of None \<Rightarrow> []
               | Some r \<Rightarrow> [T_str (tkey ''disconnect_reason'') (Some r)])) w;
     Some (rgd_update_session_active w) }"

text \<open>
  One builder call at an offset of the local array tlv. The inner None is a builder that returned
  0, for which the code gives up.
\<close>

definition add_tlv ::
  "(bytes option \<Rightarrow> (nat \<times> bytes option) option) \<Rightarrow> bytes \<times> nat \<Rightarrow> (bytes \<times> nat) option option" where
  "add_tlv f s = (case s of (m, off) \<Rightarrow> do {
     (n, p) \<leftarrow> f (Some (drop off m));
     q \<leftarrow> p;
     Some (if n = 0 then None else Some (take off m @ q, off + n)) })"

fun add_tlvs ::
  "(bytes option \<Rightarrow> (nat \<times> bytes option) option) list \<Rightarrow> bytes \<times> nat \<Rightarrow> (bytes \<times> nat) option option" where
  "add_tlvs [] s = Some (Some s)"
| "add_tlvs (f # fs) s = do {
     r \<leftarrow> add_tlv f s;
     case r of None \<Rightarrow> Some None | Some s \<Rightarrow> add_tlvs fs s }"

abbreviation RGD_START_TLV_COMPONENT_ID :: u16 where "RGD_START_TLV_COMPONENT_ID \<equiv> 0x0000"
abbreviation RGD_START_TLV_SOURCE_NAME :: u16 where "RGD_START_TLV_SOURCE_NAME \<equiv> 0x0001"
abbreviation RGD_START_TLV_SOURCE_SUPPORTS_RG :: u16 where "RGD_START_TLV_SOURCE_SUPPORTS_RG \<equiv> 0x0002"
abbreviation RGD_START_TLV_SUPPORTS_EXIT_INFO :: u16 where "RGD_START_TLV_SUPPORTS_EXIT_INFO \<equiv> 0x0003"

definition start_payload :: "u16 \<Rightarrow> bytes \<Rightarrow> bytes option option" where
  "start_payload component_id tlv = do {
     r \<leftarrow> add_tlvs
       [\<lambda>p. Some (iap2_build_tlv_u16 p RGD_START_TLV_COMPONENT_ID component_id),
        \<lambda>p. iap2_build_tlv p RGD_START_TLV_SOURCE_NAME None 0,
        \<lambda>p. iap2_build_tlv p RGD_START_TLV_SOURCE_SUPPORTS_RG None 0,
        \<lambda>p. iap2_build_tlv p RGD_START_TLV_SUPPORTS_EXIT_INFO None 0] (tlv, 0);
     Some (case r of None \<Rightarrow> None | Some (m, off) \<Rightarrow> Some (take off m)) }"

text \<open>hook_inject_message: the call is recorded, its answer comes from the framework.\<close>

definition hook_inject_message :: "env \<Rightarrow> u16 \<Rightarrow> bytes \<Rightarrow> world \<Rightarrow> hook_result \<times> world" where
  "hook_inject_message ev msgid payload w =
     (ev_inject ev, w\<lparr>w_injected := w_injected w @ [(msgid, payload)]\<rparr>)"

definition rgd_request_updates :: "env \<Rightarrow> world \<Rightarrow> (hook_result \<times> world) option" where
  "rgd_request_updates ev w = (let g = w_rgd w; now = ev_start ev in
     if \<not> g_component_valid g \<or> \<not> ev_ready ev then Some (HOOK_ERR_INIT, w)
     else if g_got_520x g then Some (HOOK_OK, w)
     else
       let retry_ms = (if g_start_5200_attempts g < RGD_START_FAST_ATTEMPTS
                       then RGD_START_FAST_RETRY_MS else RGD_START_SLOW_RETRY_MS)
       in if g_last_5200_ms g \<noteq> 0 \<and> now - g_last_5200_ms g < retry_ms then Some (HOOK_OK, w)
       else do {
         let w = on_rgd (\<lambda>g. g\<lparr>g_last_5200_ms := now, g_start_5200_attempts := g_start_5200_attempts g + 1\<rparr>) w;
         r \<leftarrow> start_payload (g_component_id g) (take 24 (ev_scratch ev));
         case r of None \<Rightarrow> Some (HOOK_ERR_PARAM, w)
         | Some payload \<Rightarrow>
             let (res, w) = hook_inject_message ev IAP2_MSG_ROUTE_GUIDANCE_START payload w
             in Some (res,
               if res = HOOK_OK
               then rgd_update_session_active (on_rgd (\<lambda>g. g\<lparr>g_sent_5200 := True, g_active := True\<rparr>) w)
               else on_rgd (\<lambda>g. g\<lparr>g_start_5200_attempts := (if g_start_5200_attempts g > 0
                                    then g_start_5200_attempts g - 1 else g_start_5200_attempts g),
                                  g_last_5200_ms := 0\<rparr>) w) })"

definition rgd_stop_updates :: "env \<Rightarrow> world \<Rightarrow> (hook_result \<times> world) option" where
  "rgd_stop_updates ev w = (let g = w_rgd w in
     if g_sent_5203 g \<or> \<not> g_active g then Some (HOOK_OK, w)
     else do {
       tlv \<leftarrow> snd (iap2_build_tlv_u16 (Some (take 6 (ev_scratch ev))) RGD_START_TLV_COMPONENT_ID (g_component_id g));
       let (res, w) = hook_inject_message ev IAP2_MSG_ROUTE_GUIDANCE_STOP tlv w;
       Some (res,
         if res = HOOK_OK
         then rgd_update_session_active (on_rgd (\<lambda>g. g\<lparr>g_sent_5203 := True, g_active := False\<rparr>) w)
         else w) })"

section \<open>The message handler\<close>

definition rgd_mark_first_response :: "world \<Rightarrow> world" where
  "rgd_mark_first_response w =
     (if g_got_520x (w_rgd w) then w
      else rgd_update_session_active (on_rgd (\<lambda>g. g\<lparr>g_got_520x := True\<rparr>) w))"

definition hard_clear :: "rgd_update \<Rightarrow> bool" where
  "hard_clear upd \<longleftrightarrow> has (up_present upd) RGD_UPD_SOURCE_SUPPORTS_RG \<and> up_source_supports_rg upd = 0"

text \<open>The 0x5201 branch up to the decision whether the update is suppressed.\<close>

definition route_state_zero :: "u64 \<Rightarrow> rgd_update \<Rightarrow> u8 \<Rightarrow> rgd_state \<Rightarrow> bool \<times> rgd_state" where
  "route_state_zero now upd prev_state g =
     (if hard_clear upd then
        (False, (rgd_cancel_pending_zero (rgd_maneuver_map_reset (rgd_update_cache_reset g)))
                  \<lparr>g_emitted_route_state := 0\<rparr>)
      else if g_emitted_route_state g = 0 then (False, g)
      else
        let from_reroute = (prev_state = RGD_STATE_REROUTING \<or> g_emitted_route_state g = RGD_STATE_REROUTING);
            g = rgd_update_cache_reset g;
            g = (if prev_state > 0 then rgd_maneuver_map_reset g else g);
            g = (if g_state_zero_started_ms g = 0 then
                   g\<lparr>g_state_zero_started_ms := now, g_state_zero_from_reroute := from_reroute,
                     g_state_zero_deadline_ms := (if from_reroute then 0 else now + ROUTE_ZERO_NORMAL_GRACE_MS)\<rparr>
                 else g)
        in (True, g))"

definition update_received :: "u64 \<Rightarrow> rgd_update \<Rightarrow> rgd_state \<Rightarrow> bool \<times> rgd_state" where
  "update_received now upd g = (let g = g\<lparr>g_have_update := True\<rparr> in
     if has (up_present upd) RGD_UPD_ROUTE_STATE then
       let prev_state = g_last_route_state g;
           g = g\<lparr>g_last_route_state := up_route_state upd\<rparr>
       in if up_route_state upd = 0 then route_state_zero now upd prev_state g
          else (False, (rgd_cancel_pending_zero g)\<lparr>g_emitted_route_state := up_route_state upd\<rparr>)
     else if rgd_update_has_active_evidence upd then (False, rgd_cancel_pending_zero g)
     else if \<not> hard_clear upd then (g_state_zero_started_ms g \<noteq> 0, g)
     else (False, g))"

definition RGD_TICK :: nat where "RGD_TICK = 1"

definition rgd_lazy_init :: "env \<Rightarrow> world \<Rightarrow> world option" where
  "rgd_lazy_init ev w =
     (if w_initialized w then Some w
      else do {
        w \<leftarrow> rgd_clear_state ev (Some (ascii ''init'')) (w\<lparr>w_initialized := True\<rparr>);
        Some (w\<lparr>w_bus := bus_set_periodic_tick (Some RGD_TICK) (w_bus w)\<rparr>) })"

text \<open>The bytes that the parsers are given: the frame at the start of the context buffer.\<close>

definition ctx_bytes :: "bytes \<Rightarrow> iap2_frame \<Rightarrow> bytes option" where
  "ctx_bytes raw_buf fr =
     (if unat (fr_frame_len fr) \<le> length raw_buf then Some (take (unat (fr_frame_len fr)) raw_buf) else None)"

definition rgd_message_handler :: "env \<Rightarrow> bytes \<Rightarrow> iap2_frame \<Rightarrow> world \<Rightarrow> world option" where
  "rgd_message_handler ev raw_buf fr w = do {
     w \<leftarrow> rgd_lazy_init ev w;
     if fr_msgid fr = IAP2_MSG_ROUTE_GUIDANCE_UPDATE then do {
       let w = rgd_mark_first_response w;
       buf \<leftarrow> ctx_bytes raw_buf fr;
       upd \<leftarrow> rgd_parse_update (Some buf);
       let (suppress, g) = update_received (ev_now ev) upd (w_rgd w);
       let w = w\<lparr>w_rgd := g\<rparr>;
       if suppress then Some w else in_bus (write_bus_update_partial ev (w_diag w) upd) w }
     else if fr_msgid fr = IAP2_MSG_ROUTE_GUIDANCE_MANEUVER then do {
       let w = rgd_mark_first_response w;
       buf \<leftarrow> ctx_bytes raw_buf fr;
       man \<leftarrow> rgd_parse_maneuver (Some buf);
       in_bus (write_bus_maneuver_partial ev (w_diag w) man) (on_rgd rgd_cancel_pending_zero w) }
     else if fr_msgid fr = IAP2_MSG_ROUTE_GUIDANCE_LANE then do {
       let w = rgd_mark_first_response w;
       buf \<leftarrow> ctx_bytes raw_buf fr;
       lane \<leftarrow> rgd_parse_lane_guidance (Some buf);
       in_bus (write_bus_lane_guidance_partial ev (w_diag w) lane) (on_rgd rgd_cancel_pending_zero w) }
     else Some w }"

section \<open>Transport, state, tick and shutdown\<close>

definition rgd_transport_handler :: "env \<Rightarrow> u16 \<Rightarrow> world \<Rightarrow> world option" where
  "rgd_transport_handler ev msgid w =
     (if msgid = IAP2_MSG_LOCATION_INFO \<and> ev_ready ev
      then map_option snd (rgd_request_updates ev w) else Some w)"

datatype hook_event = HOOK_EVENT_INIT | HOOK_EVENT_SHUTDOWN | HOOK_EVENT_DISCONNECT
  | HOOK_EVENT_IDENTIFY_START | HOOK_EVENT_IDENTIFY_OK | HOOK_EVENT_IDENTIFY_END | HOOK_EVENT_AUTH_DONE

definition rgd_state_handler :: "env \<Rightarrow> hook_event \<Rightarrow> world \<Rightarrow> world option" where
  "rgd_state_handler ev event w = (case event of
       HOOK_EVENT_IDENTIFY_START \<Rightarrow> rgd_clear_state ev (Some (ascii ''new_identify'')) w
     | HOOK_EVENT_SHUTDOWN \<Rightarrow> rgd_clear_state ev (Some (ascii ''shutdown'')) w
     | HOOK_EVENT_DISCONNECT \<Rightarrow> do {
         (r, w) \<leftarrow> rgd_stop_updates ev w;
         rgd_clear_state ev (Some (ascii ''disconnect'')) w }
     | _ \<Rightarrow> Some w)"

text \<open>Does the tick publish the deferred end of the route at time now?\<close>

definition tick_due :: "u64 \<Rightarrow> rgd_state \<Rightarrow> bool" where
  "tick_due now g \<longleftrightarrow>
     \<not> (g_state_zero_started_ms g = 0 \<or> g_emitted_route_state g = 0) \<and>
     \<not> (g_state_zero_from_reroute g \<or> g_state_zero_deadline_ms g = 0) \<and>
     \<not> now < g_state_zero_deadline_ms g"

definition rgd_periodic_tick :: "env \<Rightarrow> world \<Rightarrow> world option" where
  "rgd_periodic_tick ev w = do {
     (r, w) \<leftarrow> rgd_request_updates ev w;
     if \<not> tick_due (ev_now ev) (w_rgd w) then Some w
     else do {
       let w = on_rgd (\<lambda>g. g\<lparr>g_emitted_route_state := 0, g_state_zero_started_ms := 0,
                 g_state_zero_deadline_ms := 0, g_state_zero_from_reroute := False\<rparr>) w;
       short_message (ev_clear_alloc ev) (take 128 (ev_scratch ev)) route_end_calls w } }"

definition rgd_shutdown :: "env \<Rightarrow> world \<Rightarrow> world option" where
  "rgd_shutdown ev w =
     rgd_clear_state ev (Some (ascii ''module_shutdown'')) (w\<lparr>w_bus := bus_set_periodic_tick None (w_bus w)\<rparr>)"

section \<open>Everything that can happen to the hook\<close>

datatype hook_op =
    Op_message bytes iap2_frame
  | Op_transport u16
  | Op_state hook_event
  | Op_tick
  | Op_shutdown

fun hook_step :: "env \<Rightarrow> hook_op \<Rightarrow> world \<Rightarrow> world option" where
  "hook_step ev (Op_message raw fr) w = rgd_message_handler ev raw fr w"
| "hook_step ev (Op_transport msgid) w = rgd_transport_handler ev msgid w"
| "hook_step ev (Op_state e) w = rgd_state_handler ev e w"
| "hook_step ev Op_tick w = rgd_periodic_tick ev w"
| "hook_step ev Op_shutdown w = rgd_shutdown ev w"

fun hook_run :: "(env \<times> hook_op) list \<Rightarrow> world \<Rightarrow> world option" where
  "hook_run [] w = Some w"
| "hook_run ((ev, op) # ops) w = do { w \<leftarrow> hook_step ev op w; hook_run ops w }"

text \<open>The hook in a process that has just started, on a bus b.\<close>

definition fresh_world :: "bus \<Rightarrow> world" where
  "fresh_world b = \<lparr>w_rgd = zero_rgd, w_bus = b, w_diag = zero_diag, w_session_active = False,
     w_initialized = False, w_injected = []\<rparr>"

end
