(* ===== verification/Rgd_Snapshot_Props.thy ===== *)
theory Rgd_Snapshot_Props
  imports Rgd_Snapshot
begin

text \<open>
  The snapshot writer never overruns its local buffers and always completes on a state that
  satisfies the cache invariant; every call it makes writes one well-formed record; and the
  slots that maneuver_list names are exactly the cached current maneuvers, with their data in
  the same frame.
\<close>

section \<open>Bounded strings\<close>

lemma snp_list_eq:
  "length buf + length (concat ps) < cap \<Longrightarrow> snp_list cap buf ps = Some (buf @ concat ps)"
  by (induction ps arbitrary: buf) (simp_all add: snp_def)

lemma snp_until_eq:
  "length buf + length (concat ps) < lim \<Longrightarrow> lim \<le> cap \<Longrightarrow> snp_until cap lim buf ps = Some (buf @ concat ps)"
  by (induction ps arbitrary: buf) (simp_all add: snp_def)

lemma length_concat_le: "\<forall>x \<in> set xs. length x \<le> m \<Longrightarrow> length (concat xs) \<le> length xs * m"
  by (induction xs) auto

lemma length_sep_pieces [simp]: "length (sep_pieces sep xs) = length xs"
  by (cases xs) auto

lemma sep_pieces_le:
  assumes "\<forall>x \<in> set xs. length x \<le> m"
  shows "length (concat (sep_pieces sep xs)) \<le> length xs * (m + length sep)"
proof -
  have "\<forall>x \<in> set (sep_pieces sep xs). length x \<le> m + length sep"
    using assms by (cases xs) auto
  from length_concat_le [OF this] show ?thesis by simp
qed

lemma length_dec_u16: "length (dec_u16 w) \<le> 5"
  using unsigned_less [of w, where ?'a = nat] by (simp add: dec_u16_def length_dec_nat)

lemma length_dec_u8: "length (dec_u8 w) \<le> 3"
  using unsigned_less [of w, where ?'a = nat] by (simp add: dec_u8_def length_dec_nat)

lemma length_dec_s16: "length (dec_s16 w) \<le> 6"
proof -
  have "\<bar>sint w\<bar> \<le> 32768"
    using sint_greater_eq [of w] sint_less [of w] by auto
  then have "\<bar>sint w\<bar> < 10 ^ 5" by simp
  from length_dec_int [OF _ this] show ?thesis by (simp add: dec_s16_def)
qed

lemma sep_pieces_bound:
  assumes "\<forall>x \<in> set xs. length x \<le> m" "length xs \<le> n" "n * (m + length sep) < cap"
  shows "snp_list cap [] (sep_pieces sep xs) = Some (concat (sep_pieces sep xs))"
proof -
  have "length xs * (m + length sep) \<le> n * (m + length sep)" using assms(2) by (rule mult_le_mono1)
  with sep_pieces_le [OF assms(1), of sep] assms(3) have "length (concat (sep_pieces sep xs)) < cap"
    by (meson le_less_trans)
  then show ?thesis using snp_list_eq [of "[]" "sep_pieces sep xs" cap] by simp
qed

lemma angle_pieces_le: "length (concat (angle_pieces l)) \<le> 112"
proof -
  let ?xs = "map dec_s16 (take 16 (ln_angles l))"
  have "length (concat (sep_pieces COMMA ?xs)) \<le> length ?xs * (6 + length COMMA)"
    by (rule sep_pieces_le) (auto simp: length_dec_s16)
  also have "\<dots> \<le> 112" by simp
  finally show ?thesis by (simp add: angle_pieces_def)
qed

lemma lane_angle_pieces_le: "length (concat (lane_angle_pieces ls)) \<le> length ls * 113"
proof (cases ls)
  case (Cons l r)
  have "length (concat (concat (map (\<lambda>l. BAR # angle_pieces l) r))) \<le> length r * 113"
    by (induction r) (auto intro: order.trans [OF angle_pieces_le] add_mono [OF angle_pieces_le])
  with angle_pieces_le [of l] Cons show ?thesis by simp
qed simp

section \<open>Lanes\<close>

definition join :: "bytes \<Rightarrow> bytes list \<Rightarrow> bytes" where
  "join sep xs = concat (sep_pieces sep xs)"

definition lane_texts :: "rgd_lane list \<Rightarrow> bytes list" where
  "lane_texts ls =
     [join COMMA (map (dec_u16 \<circ> ln_position) ls), join COMMA (map (dec_s16 \<circ> ln_direction) ls),
      join COMMA (map (dec_u8 \<circ> ln_status) ls), join BAR (map ln_description ls),
      concat (lane_angle_pieces ls)]"

lemma lane_list_calls_eq:
  assumes "\<forall>l \<in> set lanes. wf_lane l"
  shows "lane_list_calls k lanes = (let ls = take 8 lanes in
     Some (map2 (\<lambda>s v. T_str (k s) (Some v))
       [''_lane_positions'', ''_lane_directions'', ''_lane_status'', ''_lane_desc'', ''_lane_angles'']
       (lane_texts ls)))"
proof -
  let ?ls = "take 8 lanes"
  have n: "length ?ls \<le> 8" by simp
  have w: "\<forall>l \<in> set ?ls. wf_lane l" using assms by (auto dest: in_set_takeD)
  have "snp_list 128 [] (sep_pieces COMMA (map (dec_u16 \<circ> ln_position) ?ls)) =
      Some (join COMMA (map (dec_u16 \<circ> ln_position) ?ls))"
    unfolding join_def by (rule sep_pieces_bound [where m = 5 and n = 8]) (auto simp: length_dec_u16)
  moreover have "snp_list 128 [] (sep_pieces COMMA (map (dec_s16 \<circ> ln_direction) ?ls)) =
      Some (join COMMA (map (dec_s16 \<circ> ln_direction) ?ls))"
    unfolding join_def by (rule sep_pieces_bound [where m = 6 and n = 8]) (auto simp: length_dec_s16)
  moreover have "snp_list 128 [] (sep_pieces COMMA (map (dec_u8 \<circ> ln_status) ?ls)) =
      Some (join COMMA (map (dec_u8 \<circ> ln_status) ?ls))"
    unfolding join_def by (rule sep_pieces_bound [where m = 3 and n = 8]) (auto simp: length_dec_u8)
  moreover have "snp_list 600 [] (sep_pieces BAR (map ln_description ?ls)) =
      Some (join BAR (map ln_description ?ls))"
    unfolding join_def using w by (intro sep_pieces_bound [where m = 63 and n = 8]) (auto simp: wf_lane_def)
  moreover have "snp_list 1200 [] (lane_angle_pieces ?ls) = Some (concat (lane_angle_pieces ?ls))"
  proof -
    have "length ?ls * 113 \<le> 8 * 113" using n by (rule mult_le_mono1)
    then show ?thesis using lane_angle_pieces_le [of ?ls] by (simp add: snp_list_eq)
  qed
  ultimately show ?thesis by (simp add: lane_list_calls_def Let_def lane_texts_def)
qed

section \<open>Well-formed records\<close>

definition plain :: "string \<Rightarrow> bool" where
  "plain s \<longleftrightarrow> 58 \<notin> set (ascii s) \<and> 10 \<notin> set (ascii s)"

lemma dec_nat_plain: "58 \<notin> set (dec_nat n)" "10 \<notin> set (dec_nat n)"
  by (auto dest!: dec_nat_digits simp: is_digit_def word_le_nat_alt)

lemma key_ok_mkey: "plain s \<Longrightarrow> key_ok (mkey idx s)"
  by (simp add: key_ok_def mkey_def plain_def dec_nat_plain)

lemma key_ok_lgkey: "plain s \<Longrightarrow> key_ok (lgkey idx s)"
  by (simp add: key_ok_def lgkey_def plain_def dec_nat_plain)

lemma plain_keys [simp]:
  "plain ''_type''" "plain ''_turn_angle''" "plain ''_exit_angle''" "plain ''_junction_type''"
  "plain ''_driving_side''" "plain ''_distance''" "plain ''_distance_str''" "plain ''_distance_units''"
  "plain ''_name''" "plain ''_after_road''" "plain ''_junction_angles''" "plain ''_ver''"
  "plain ''_lane_guidance_len''" "plain ''_linked_lane_guidance_index''"
  "plain ''_linked_lane_guidance_slot''" "plain ''_lane_count''" "plain ''_lane_positions''"
  "plain ''_lane_directions''" "plain ''_lane_status''" "plain ''_lane_desc''" "plain ''_lane_angles''"
  "plain ''_exit_info_len''" "plain ''_exit_info''" "plain ''_index''"
  by (simp_all add: plain_def)

lemma call_ok_simps [simp]:
  "call_ok (T_str k v) = key_ok k" "call_ok (T_int k i) = key_ok k"
  "call_ok (T_uint k i) = key_ok k" "call_ok (T_bool k x) = key_ok k"
  by (simp_all add: call_ok_def)

lemma lane_list_calls_ok:
  assumes "\<forall>l \<in> set lanes. wf_lane l" "\<And>s. plain s \<Longrightarrow> key_ok (k s)"
  shows "\<exists>cs. lane_list_calls k lanes = Some cs \<and> list_all call_ok cs"
  using assms by (simp add: lane_list_calls_eq lane_texts_def Let_def)

lemma write_lane_data_keys_ok:
  assumes "wf_lane_guidance lane"
  shows "\<exists>cs. write_lane_data_keys idx lane = Some cs \<and> list_all call_ok cs"
proof -
  have "\<forall>l \<in> set (lg_lanes lane). wf_lane l" using assms by (simp add: wf_lane_guidance_def)
  from lane_list_calls_ok [OF this, of "lgkey idx"] show ?thesis
    by (auto simp: write_lane_data_keys_def key_ok_lgkey)
qed

lemma write_lane_clear_keys_ok: "list_all call_ok (write_lane_clear_keys idx)"
  by (simp add: write_lane_clear_keys_def key_ok_lgkey)

lemma junction_angle_calls_ok:
  assumes "wf_maneuver man"
  shows "\<exists>cs. junction_angle_calls stack idx man = Some cs \<and> list_all call_ok cs"
proof -
  have "snp_list 128 [] (sep_pieces COMMA (map dec_s16 (mn_junction_angles man))) =
      Some (concat (sep_pieces COMMA (map dec_s16 (mn_junction_angles man))))"
    using assms by (intro sep_pieces_bound [where m = 6 and n = 16]) (auto simp: length_dec_s16 wf_maneuver_def)
  then show ?thesis by (auto simp: junction_angle_calls_def key_ok_mkey)
qed

lemma linked_lane_calls_ok:
  assumes "rgd_ok n g" "n < 0xFFFFFFFE"
  shows "\<exists>cs g'. linked_lane_calls idx man g = (cs, g') \<and> list_all call_ok cs \<and> lane_touch g g' \<and>
    rgd_ok (Suc n) g'"
proof -
  from lane_look_False [OF assms, of "mn_linked_lane_guidance_index man"] obtain r g' where
    "rgd_lane_slot_for_iap_index (mn_linked_lane_guidance_index man) False g = (r, g')"
    "lane_touch g g'" "rgd_ok (Suc n) g'" by blast
  moreover have "rgd_ok (Suc n) g" using rgd_ok_mono [OF assms(1), of "Suc n"] by simp
  ultimately show ?thesis
    by (auto simp: linked_lane_calls_def key_ok_mkey lane_touch_refl split: option.split)
qed

lemma maneuver_lane_calls_ok:
  assumes "wf_maneuver man"
  shows "\<exists>cs. maneuver_lane_calls idx man = Some cs \<and> list_all call_ok cs"
  using assms by (auto simp: maneuver_lane_calls_def wf_maneuver_def key_ok_mkey)

lemma write_slot_data_keys_ok:
  assumes "rgd_ok n g" "n < 0xFFFFFFFE" "wf_maneuver man" "idx < 32"
  shows "\<exists>cs g'. write_slot_data_keys stack idx man g = Some (cs, g') \<and> list_all call_ok cs \<and>
    lane_touch g g' \<and> rgd_ok (Suc n) g' \<and>
    (has (mn_present man) RGD_MAN_TYPE \<longrightarrow> T_int (mkey idx ''_type'') (ucast (mn_type man)) \<in> set cs)"
proof -
  obtain c2 where 2: "junction_angle_calls stack idx man = Some c2" "list_all call_ok c2"
    using junction_angle_calls_ok [OF assms(3)] by blast
  obtain c5 g' where 5: "linked_lane_calls idx man g = (c5, g')" "list_all call_ok c5" "lane_touch g g'"
      "rgd_ok (Suc n) g'"
    using linked_lane_calls_ok [OF assms(1,2)] by blast
  obtain c6 where 6: "maneuver_lane_calls idx man = Some c6" "list_all call_ok c6"
    using maneuver_lane_calls_ok [OF assms(3)] by blast
  have ver: "at (g_slot_ver g) idx = Some (g_slot_ver g ! idx)"
    using assms(1,4) by (simp add: at_def rgd_ok_def)
  show ?thesis
    using 2 5 6 ver by (simp add: write_slot_data_keys_def Let_def key_ok_mkey)
qed

section \<open>The update keys\<close>

lemma plain_top_keys [simp]:
  "key_ok (tkey ''route_state'')" "key_ok (tkey ''maneuver_state'')" "key_ok (tkey ''dist_dest_m'')"
  "key_ok (tkey ''dist_maneuver_m'')" "key_ok (tkey ''eta_seconds'')"
  "key_ok (tkey ''time_remaining_seconds'')" "key_ok (tkey ''current_road'')"
  "key_ok (tkey ''destination'')" "key_ok (tkey ''dist_dest_units'')"
  "key_ok (tkey ''dist_maneuver_units'')" "key_ok (tkey ''dist_dest_str'')"
  "key_ok (tkey ''dist_maneuver_str'')" "key_ok (tkey ''lane_guidance_index'')"
  "key_ok (tkey ''lane_guidance_slot'')" "key_ok (tkey ''lane_guidance_total'')"
  "key_ok (tkey ''lane_guidance_showing'')" "key_ok (tkey ''source_name'')"
  "key_ok (tkey ''source_supports_rg'')" "key_ok (tkey ''visible_in_app'')"
  "key_ok (tkey ''component_count'')" "key_ok (tkey ''component_ids'')"
  "key_ok (tkey ''maneuver_count'')" "key_ok (tkey ''maneuver_list'')"
  "key_ok (tkey ''cached_extra_slot'')" "key_ok (tkey ''diag_session'')"
  "key_ok (tkey ''diag_rx_seq'')" "key_ok (tkey ''disconnect_reason'')"
  by (simp_all add: key_ok_def tkey_def)

lemma component_calls_ok:
  assumes "wf_update upd"
  shows "\<exists>cs. component_calls upd = Some cs \<and> list_all call_ok cs"
proof -
  have n: "length (up_component_ids upd) \<le> 8" using assms by (simp add: wf_update_def)
  have "length (concat (sep_pieces COMMA (map dec_u16 (up_component_ids upd)))) \<le>
      length (up_component_ids upd) * 6"
    using sep_pieces_le [of "map dec_u16 (up_component_ids upd)" 5 COMMA] by (auto simp: length_dec_u16)
  also have "\<dots> \<le> 48" using n by simp
  finally have "snp_until 128 124 [] (sep_pieces COMMA (map dec_u16 (up_component_ids upd))) =
      Some (concat (sep_pieces COMMA (map dec_u16 (up_component_ids upd))))"
    using snp_until_eq [of "[]" _ 124 128] by simp
  then show ?thesis by (simp add: component_calls_def Let_def)
qed

lemma lane_slot_calls_ok:
  assumes "rgd_ok n g" "n < 0xFFFFFFFE"
  shows "\<exists>cs g'. lane_slot_calls p upd g = (cs, g') \<and> list_all call_ok cs \<and> lane_touch g g' \<and> rgd_ok (Suc n) g'"
proof -
  from lane_look_False [OF assms, of "up_lane_guidance_index upd"] obtain r g' where
    "rgd_lane_slot_for_iap_index (up_lane_guidance_index upd) False g = (r, g')"
    "lane_touch g g'" "rgd_ok (Suc n) g'" by blast
  moreover have "rgd_ok (Suc n) g" using rgd_ok_mono [OF assms(1), of "Suc n"] by simp
  ultimately show ?thesis by (auto simp: lane_slot_calls_def lane_touch_refl)
qed

lemma update_calls_ok:
  assumes "rgd_ok n g" "n < 0xFFFFFFFE" "wf_update upd"
  shows "\<exists>cs g'. update_calls p upd g = Some (cs, g') \<and> list_all call_ok cs \<and> lane_touch g g' \<and> rgd_ok (Suc n) g'"
proof -
  obtain c2 g' where 2: "lane_slot_calls p upd g = (c2, g')" "list_all call_ok c2" "lane_touch g g'" "rgd_ok (Suc n) g'"
    using lane_slot_calls_ok [OF assms(1,2)] by blast
  obtain c4 where 4: "component_calls upd = Some c4" "list_all call_ok c4"
    using component_calls_ok [OF assms(3)] by blast
  show ?thesis using 2 4 by (simp add: update_calls_def Let_def)
qed

section \<open>The maneuver list\<close>

text \<open>The slots of the current maneuvers whose type is cached, in route order.\<close>

definition shown :: "rgd_state \<Rightarrow> u16 \<Rightarrow> nat list" where
  "shown g i = (case find_idx i (g_slot_to_iap_idx g) of None \<Rightarrow> []
     | Some s \<Rightarrow> if has (mn_present (g_slot_cache g ! s)) RGD_MAN_TYPE then [s] else [])"

definition shown_slots :: "rgd_state \<Rightarrow> nat list" where
  "shown_slots g = concat (map (shown g) (g_current_list g))"

lemma join_snoc: "join sep (xs @ [x]) = (if xs = [] then x else join sep xs @ sep @ x)"
  by (cases xs) (simp_all add: join_def)

lemma join_Nil: "join sep [] = []"
  by (simp add: join_def)

lemma length_dec_slot: "s < 32 \<Longrightarrow> length (dec_nat s) \<le> 2"
  by (rule length_dec_nat) auto

lemma length_join_slots: "\<forall>s \<in> set ss. s < 32 \<Longrightarrow> length (join COMMA (map dec_nat ss)) \<le> length ss * 3"
  using sep_pieces_le [of "map dec_nat ss" 2 COMMA] by (auto simp: join_def length_dec_slot)

lemma shown_lt: "s \<in> set (shown g i) \<Longrightarrow> s < 32"
  using find_idx_Some by (auto simp: shown_def split: option.splits if_splits)

lemma shown_slots_lt: "s \<in> set (shown_slots g) \<Longrightarrow> s < 32"
  by (auto simp: shown_slots_def dest: shown_lt)

lemma length_shown: "length (shown g i) \<le> 1"
  by (auto simp: shown_def split: option.split)

lemma length_shown_slots: "length (shown_slots g) \<le> length (g_current_list g)"
proof -
  have "length (concat (map (shown g) is)) \<le> length is" for "is"
    by (induction "is") (auto intro: add_mono [OF length_shown, simplified] le_trans)
  then show ?thesis by (simp add: shown_slots_def)
qed

lemma snp_eq: "buf @ p = t \<Longrightarrow> length t < cap \<Longrightarrow> snp cap buf p = Some t"
  by (auto simp: snp_def)

lemma list_slots_eq:
  assumes "length (g_slot_cache g) = 32" "length listed + length is \<le> 16" "\<forall>s \<in> set listed. s < 32"
  shows "list_slots g is (join COMMA (map dec_nat listed)) (length listed) listed =
    (let r = listed @ concat (map (shown g) is) in Some (join COMMA (map dec_nat r), length r, r))"
  using assms(2,3)
proof (induction "is" arbitrary: listed)
  case Nil
  then show ?case by (simp add: Let_def)
next
  case (Cons i "is")
  show ?case
  proof (cases "find_idx i (g_slot_to_iap_idx g)")
    case None
    with Cons.IH [of listed] Cons.prems show ?thesis
      by (simp add: rgd_find_slot_for_iap_index_no_touch_def shown_def)
  next
    case (Some s)
    from find_idx_Some [OF Some] have s: "s < 32" by simp
    show ?thesis
    proof (cases "has (mn_present (g_slot_cache g ! s)) RGD_MAN_TYPE")
      case False
      with Cons.IH [of listed] Cons.prems Some s assms(1) show ?thesis
        by (simp add: rgd_find_slot_for_iap_index_no_touch_def shown_def at_def)
    next
      case True
      let ?l = "listed @ [s]"
      have l: "\<forall>t \<in> set ?l. t < 32" "length ?l + length is \<le> 16" using Cons.prems s by auto
      have j: "join COMMA (map dec_nat listed) @ (if length listed > 0 then COMMA else []) @ dec_nat s =
          join COMMA (map dec_nat ?l)"
        by (simp add: join_snoc join_Nil)
      have len: "length (join COMMA (map dec_nat ?l)) < 124"
        using length_join_slots [OF l(1)] l(2) by simp
      then have p: "snp 128 (join COMMA (map dec_nat listed)) ((if length listed > 0 then COMMA else []) @ dec_nat s)
          = Some (join COMMA (map dec_nat ?l))"
        by (intro snp_eq [OF j]) simp
      have "list_slots g (i # is) (join COMMA (map dec_nat listed)) (length listed) listed =
          list_slots g is (join COMMA (map dec_nat ?l)) (length ?l) ?l"
        using Some True s assms(1) p len Cons.prems
        by (simp add: rgd_find_slot_for_iap_index_no_touch_def at_def Let_def)
      with Cons.IH [OF l(2,1)] Some True show ?thesis by (simp add: shown_def Let_def)
    qed
  qed
qed

lemma maneuver_list_calls_eq:
  assumes "rgd_ok n g"
  shows "maneuver_list_calls g =
    Some (if g_current_list_present g
          then ([T_str (tkey ''maneuver_list'') (Some (join COMMA (map dec_nat (shown_slots g))))], shown_slots g)
          else ([], []))"
proof -
  have g: "length (g_slot_cache g) = 32" "length (g_current_list g) \<le> 16"
    using assms by (simp_all add: rgd_ok_def)
  from list_slots_eq [of g "[]" "g_current_list g"] g
  have l: "list_slots g (g_current_list g) [] 0 [] =
      Some (join COMMA (map dec_nat (shown_slots g)), length (shown_slots g), shown_slots g)"
    by (simp add: join_Nil shown_slots_def Let_def)
  have "g_current_list g = [] \<Longrightarrow> shown_slots g = []" by (simp add: shown_slots_def)
  with l show ?thesis by (auto simp: maneuver_list_calls_def join_Nil)
qed

section \<open>The lane table in a snapshot\<close>

text \<open>Pruning changes only the lane table.\<close>

definition lane_frame :: "rgd_state \<Rightarrow> rgd_state \<Rightarrow> bool" where
  "lane_frame g g' \<longleftrightarrow> g' = g\<lparr>g_lane_slot_to_iap_idx := g_lane_slot_to_iap_idx g',
     g_lane_seq_counter := g_lane_seq_counter g', g_lane_slot_seq := g_lane_slot_seq g',
     g_lane_cache := g_lane_cache g'\<rparr>"

lemma lane_frame_trans: "lane_frame g h \<Longrightarrow> lane_frame h k \<Longrightarrow> lane_frame g k"
  unfolding lane_frame_def by (cases g; cases h; cases k) simp

lemma lane_frame_refl: "lane_frame g g"
  by (simp add: lane_frame_def)

lemma lane_touch_frame: "lane_touch g h \<Longrightarrow> lane_frame g h"
  unfolding lane_touch_def lane_frame_def by (cases g; cases h) simp

lemma lane_frame_fields:
  assumes "lane_frame g g'"
  shows "g_current_list g' = g_current_list g" "g_current_list_present g' = g_current_list_present g"
    "g_slot_to_iap_idx g' = g_slot_to_iap_idx g" "g_slot_cache g' = g_slot_cache g"
    "g_slot_ver g' = g_slot_ver g" "g_update_cache g' = g_update_cache g"
    "g_last_route_state g' = g_last_route_state g" "g_have_update g' = g_have_update g"
    "g_emitted_route_state g' = g_emitted_route_state g"
    "g_state_zero_started_ms g' = g_state_zero_started_ms g"
  using assms unfolding lane_frame_def by (cases g; cases g'; simp)+

lemma idx_ok_clear: "idx_ok arr \<Longrightarrow> idx_ok (arr[i := NO_INDEX])"
  unfolding idx_ok_def length_list_update
  by (metis nth_list_update_eq nth_list_update_neq)

lemma seq_ok_clear: "seq_ok n c seq \<Longrightarrow> seq_ok n c (seq[i := 0])"
  by (auto simp: seq_ok_def dest!: set_update_subset_insert [THEN subsetD])

lemma clear_lane_ok:
  assumes "rgd_ok n g" "i < 32"
  shows "rgd_ok n (g\<lparr>g_lane_slot_to_iap_idx := (g_lane_slot_to_iap_idx g)[i := NO_INDEX],
                   g_lane_slot_seq := (g_lane_slot_seq g)[i := 0],
                   g_lane_cache := (g_lane_cache g)[i := (g_lane_cache g ! i)\<lparr>lg_present := 0\<rparr>]\<rparr>)"
proof -
  have "wf_lane_guidance (g_lane_cache g ! i)" using assms by (simp add: rgd_ok_def)
  then have "wf_lane_guidance ((g_lane_cache g ! i)\<lparr>lg_present := 0\<rparr>)"
    by (simp add: wf_lane_guidance_def has_0)
  then have "\<forall>l \<in> set ((g_lane_cache g)[i := (g_lane_cache g ! i)\<lparr>lg_present := 0\<rparr>]). wf_lane_guidance l"
    using assms(1) by (intro ball_list_update) (auto simp: rgd_ok_def)
  moreover have "idx_ok ((g_lane_slot_to_iap_idx g)[i := NO_INDEX])"
    using assms(1) by (intro idx_ok_clear) (simp add: rgd_ok_def)
  moreover have "seq_ok n (g_lane_seq_counter g) ((g_lane_slot_seq g)[i := 0])"
    using assms(1) by (intro seq_ok_clear) (simp add: rgd_ok_def)
  ultimately show ?thesis using assms(1) unfolding rgd_ok_def by simp
qed

lemma prune_slot_ok:
  assumes "rgd_ok n (snd s)" "i < 32"
  shows "rgd_ok n (snd (prune_slot m i s)) \<and> lane_frame (snd s) (snd (prune_slot m i s))"
proof -
  obtain p g where s: "s = (p, g)" by (rule prod.exhaust)
  with assms have g: "rgd_ok n g" by simp
  show ?thesis
    using clear_lane_ok [OF g assms(2)] g lane_frame_refl [of g]
    unfolding s prune_slot_def Let_def split_conv snd_conv if_distrib [of snd]
    by (simp add: lane_frame_def)
qed

lemma prune_fold_ok:
  "rgd_ok n (snd s) \<Longrightarrow> \<forall>i \<in> set is. i < 32 \<Longrightarrow>
   rgd_ok n (snd (fold (prune_slot m) is s)) \<and> lane_frame (snd s) (snd (fold (prune_slot m) is s))"
proof (induction "is" arbitrary: s)
  case Nil
  then show ?case by (simp add: lane_frame_refl)
next
  case (Cons i "is")
  then have "rgd_ok n (snd (prune_slot m i s)) \<and> lane_frame (snd s) (snd (prune_slot m i s))"
    by (intro prune_slot_ok) auto
  with Cons.IH [of "prune_slot m i s"] Cons.prems show ?case
    by (auto intro: lane_frame_trans)
qed

lemma prune_ok:
  assumes "rgd_ok n g" "rgd_prune_stale_lane_cache g = (p, g')"
  shows "rgd_ok n g' \<and> lane_frame g g'"
proof -
  have "rgd_ok n (snd (fold (prune_slot m) slot_ids (False, g))) \<and>
      lane_frame g (snd (fold (prune_slot m) slot_ids (False, g)))" for m
    using prune_fold_ok [of n "(False, g)" slot_ids m] assms(1) by (simp add: set_slot_ids)
  with assms show ?thesis
    by (auto simp: rgd_prune_stale_lane_cache_def lane_frame_refl split: if_splits option.splits
      dest: arg_cong [where f = snd]) (metis snd_conv)+
qed

lemma lane_touch_zero_frame: "lane_touch g h \<Longrightarrow> lane_frame h k \<Longrightarrow> lane_frame g k"
  by (rule lane_frame_trans [OF lane_touch_frame])

section \<open>The whole snapshot\<close>

lemma wf_cached_maneuver: "rgd_ok n g \<Longrightarrow> s < 32 \<Longrightarrow> wf_maneuver (g_slot_cache g ! s)"
  by (simp add: rgd_ok_def)

lemma wf_cached_lane: "rgd_ok n g \<Longrightarrow> s < 32 \<Longrightarrow> wf_lane_guidance (g_lane_cache g ! s)"
  by (simp add: rgd_ok_def)

text \<open>Each listed slot that holds a type has its type record among the calls.\<close>

definition typed :: "rgd_state \<Rightarrow> nat \<Rightarrow> text_call \<Rightarrow> bool" where
  "typed g s c \<longleftrightarrow> c = T_int (mkey s ''_type'') (ucast (mn_type (g_slot_cache g ! s)))"

lemma listed_slot_calls_ok:
  assumes "rgd_ok n g" "n + length ss < 0xFFFFFFFE" "\<forall>s \<in> set ss. s < 32"
  shows "\<exists>cs g'. listed_slot_calls stack ss g = Some (cs, g') \<and> list_all call_ok cs \<and> lane_touch g g' \<and>
    rgd_ok (n + length ss) g' \<and>
    (\<forall>s \<in> set ss. has (mn_present (g_slot_cache g ! s)) RGD_MAN_TYPE \<longrightarrow> (\<exists>c \<in> set cs. typed g s c))"
  using assms
proof (induction ss arbitrary: n g)
  case Nil
  then show ?case by (simp add: lane_touch_refl)
next
  case (Cons s ss)
  let ?m = "g_slot_cache g ! s"
  have s: "s < 32" and n: "n < 0xFFFFFFFE" using Cons.prems(2,3) by simp_all
  obtain c1 g1 where 1:
    "(if s < MANEUVER_CACHE_SIZE \<and> mn_present ?m \<noteq> 0 then write_slot_data_keys stack s ?m g
      else Some ([], g)) = Some (c1, g1)" "list_all call_ok c1" "lane_touch g g1" "rgd_ok (Suc n) g1"
    "has (mn_present ?m) RGD_MAN_TYPE \<Longrightarrow> \<exists>c \<in> set c1. typed g s c"
  proof (cases "mn_present ?m = 0")
    case True
    then show ?thesis
      using that [of "[]" g] Cons.prems(1) rgd_ok_mono [OF Cons.prems(1), of "Suc n"]
      by (simp add: lane_touch_refl has_0)
  next
    case False
    from write_slot_data_keys_ok [OF Cons.prems(1) n wf_cached_maneuver [OF Cons.prems(1) s] s, of stack]
    show ?thesis using that s False by (auto simp: typed_def)
  qed
  have n1: "Suc n + length ss < 0xFFFFFFFE" "\<forall>s \<in> set ss. s < 32" using Cons.prems(2,3) by simp_all
  obtain c2 g2 where 2: "listed_slot_calls stack ss g1 = Some (c2, g2)" "list_all call_ok c2"
    "lane_touch g1 g2" "rgd_ok (Suc n + length ss) g2"
    "\<forall>s \<in> set ss. has (mn_present (g_slot_cache g1 ! s)) RGD_MAN_TYPE \<longrightarrow> (\<exists>c \<in> set c2. typed g1 s c)"
    using Cons.IH [OF 1(4) n1] by blast
  have same: "typed g1 = typed g" "g_slot_cache g1 = g_slot_cache g"
    using lane_touch_fields [OF 1(3)] by (simp_all add: typed_def fun_eq_iff)
  show ?case
    using 1 2 lane_touch_trans [OF 1(3) 2(3)] unfolding same by (auto simp: same)
qed

lemma lane_slot_data_calls_ok:
  assumes "rgd_ok n g" "\<forall>i \<in> set is. i < 32"
  shows "\<exists>cs. lane_slot_data_calls is g = Some cs \<and> list_all call_ok cs"
  using assms(2)
proof (induction "is")
  case (Cons i "is")
  then obtain ds where "lane_slot_data_calls is g = Some ds" "list_all call_ok ds" by auto
  moreover obtain cs where "write_lane_data_keys i (g_lane_cache g ! i) = Some cs" "list_all call_ok cs"
    using write_lane_data_keys_ok [OF wf_cached_lane [OF assms(1)], of i i] Cons.prems by auto
  ultimately show ?case by (simp add: write_lane_clear_keys_ok)
qed simp

lemma extra_slot_calls_ok:
  assumes "rgd_ok n g" "n < 0xFFFFFFFE" "\<And>s m. extra = Some (s, m) \<Longrightarrow> s < 32 \<and> wf_maneuver m"
  shows "\<exists>cs g'. extra_slot_calls stack extra listed g = Some (cs, g') \<and> list_all call_ok cs \<and>
    lane_touch g g' \<and> rgd_ok (Suc n) g'"
proof (cases extra)
  case None
  then show ?thesis
    using rgd_ok_mono [OF assms(1), of "Suc n"] by (simp add: extra_slot_calls_def lane_touch_refl)
next
  case (Some sm)
  obtain s m where sm: "sm = (s, m)" by (rule prod.exhaust)
  from write_slot_data_keys_ok [OF assms(1,2), of m s stack] assms(3) Some sm show ?thesis
    using rgd_ok_mono [OF assms(1), of "Suc n"]
    by (auto simp: extra_slot_calls_def lane_touch_refl)
qed

lemma take_current_list_ok:
  assumes "rgd_ok n g"
  shows "rgd_ok n (take_current_list u g)"
proof (cases u)
  case (Some x)
  let ?l = "take 16 (up_maneuver_list x)"
  have "length ?l \<le> 16" by simp
  with assms have "rgd_ok n (g\<lparr>g_current_list_present := True, g_current_list := ?l\<rparr>)"
    "\<And>v. rgd_ok n (g\<lparr>g_current_list_present := True, g_current_list := ?l, g_highest_list_index := v\<rparr>)"
    unfolding rgd_ok_def by simp_all
  with assms Some show ?thesis
    by (cases ?l) (simp_all add: take_current_list_def Let_def)
qed (simp add: assms take_current_list_def)

lemma take_current_list_fields:
  "g_slot_cache (take_current_list u g) = g_slot_cache g"
  "g_slot_to_iap_idx (take_current_list u g) = g_slot_to_iap_idx g"
  by (auto simp: take_current_list_def Let_def split: option.split list.split)

lemma take_current_list_frame:
  "lane_frame g h \<Longrightarrow> lane_frame (take_current_list u g) (take_current_list u h)"
  unfolding lane_frame_def
  by (cases g; cases h) (simp add: take_current_list_def Let_def split: option.split list.split)

definition extra_ok :: "(nat \<times> rgd_maneuver) option \<Rightarrow> bool" where
  "extra_ok extra \<longleftrightarrow> (case extra of None \<Rightarrow> True | Some (s, m) \<Rightarrow> s < 32 \<and> wf_maneuver m)"

text \<open>
  The snapshot always completes, and a listed maneuver has its list entry and its type record in
  one and the same message.
\<close>

definition shows_list :: "text_call list \<Rightarrow> rgd_state \<Rightarrow> bool" where
  "shows_list cs g \<longleftrightarrow> (g_current_list_present g \<longrightarrow>
     T_str (tkey ''maneuver_list'') (Some (join COMMA (map dec_nat (shown_slots g)))) \<in> set cs \<and>
     (\<forall>s \<in> set (shown_slots g). \<exists>c \<in> set cs. typed g s c))"

lemma shown_slots_typed: "s \<in> set (shown_slots g) \<Longrightarrow> has (mn_present (g_slot_cache g ! s)) RGD_MAN_TYPE"
  by (auto simp: shown_slots_def shown_def split: option.splits if_splits)

lemma shown_slots_cong:
  assumes "g_current_list g' = g_current_list g" "g_slot_to_iap_idx g' = g_slot_to_iap_idx g"
    "g_slot_cache g' = g_slot_cache g"
  shows "shown_slots g' = shown_slots g"
  unfolding shown_slots_def shown_def assms ..

lemma snapshot_calls_ok:
  assumes "rgd_ok n g" "n < 0xFFFFFF00" "extra_ok extra"
  shows "\<exists>cs g'. snapshot_calls stack d p extra u g = Some (cs, g') \<and> list_all call_ok cs \<and>
    rgd_ok (n + 18) g' \<and> lane_frame (take_current_list u g) g' \<and> shows_list cs g'"
proof -
  obtain c1 g1 where 1: "update_calls p (g_update_cache g) g = Some (c1, g1)" "list_all call_ok c1"
    "lane_touch g g1" "rgd_ok (Suc n) g1"
    using update_calls_ok [OF assms(1), of "g_update_cache g" p] assms(1,2) by (auto simp: rgd_ok_def)
  let ?g2 = "take_current_list u g1"
  have 2: "rgd_ok (Suc n) ?g2" by (rule take_current_list_ok [OF 1(4)])
  obtain pr g3 where 3: "rgd_prune_stale_lane_cache ?g2 = (pr, g3)" by (rule prod.exhaust)
  from prune_ok [OF 2 3] have g3: "rgd_ok (Suc n) g3" "lane_frame ?g2 g3" by simp_all
  obtain c2 listed where 4: "maneuver_list_calls g3 = Some (c2, listed)" "list_all call_ok c2"
    "listed = (if g_current_list_present g3 then shown_slots g3 else [])"
    "g_current_list_present g3 \<Longrightarrow>
      T_str (tkey ''maneuver_list'') (Some (join COMMA (map dec_nat (shown_slots g3)))) \<in> set c2"
    using maneuver_list_calls_eq [OF g3(1)] by (auto split: if_splits)
  have l: "length listed \<le> 16" "\<forall>s \<in> set listed. s < 32"
    using 4(3) length_shown_slots [of g3] g3(1) shown_slots_lt [of _ g3] by (auto simp: rgd_ok_def)
  have "Suc n + length listed < 0xFFFFFFFE" using l(1) assms(2) by simp
  from listed_slot_calls_ok [OF g3(1) this l(2), of stack] obtain c3 g4 where
    5: "listed_slot_calls stack listed g3 = Some (c3, g4)" "list_all call_ok c3" "lane_touch g3 g4"
      "rgd_ok (Suc n + length listed) g4"
      "\<forall>s \<in> set listed. has (mn_present (g_slot_cache g3 ! s)) RGD_MAN_TYPE \<longrightarrow> (\<exists>c \<in> set c3. typed g3 s c)"
    by blast
  have g4: "rgd_ok (n + 17) g4" by (rule rgd_ok_mono [OF 5(4)]) (use l(1) in simp)
  obtain c4 where 6: "lane_slot_data_calls slot_ids g4 = Some c4" "list_all call_ok c4"
    using lane_slot_data_calls_ok [OF g4, of slot_ids] by (auto simp: set_slot_ids)
  obtain c5 g5 where 7: "extra_slot_calls stack extra listed g4 = Some (c5, g5)" "list_all call_ok c5"
    "lane_touch g4 g5" "rgd_ok (n + 18) g5"
  proof -
    have "n + 17 < 0xFFFFFFFE" using assms(2) by simp
    moreover have "s < 32 \<and> wf_maneuver m" if "extra = Some (s, m)" for s m
      using assms(3) that by (simp add: extra_ok_def)
    ultimately have "\<exists>cs g'. extra_slot_calls stack extra listed g4 = Some (cs, g') \<and>
        list_all call_ok cs \<and> lane_touch g4 g' \<and> rgd_ok (Suc (n + 17)) g'"
      by (intro extra_slot_calls_ok [OF g4])
    moreover have "Suc (n + 17) = n + 18" by simp
    ultimately show ?thesis using that by metis
  qed
  have t: "lane_touch g3 g5" by (rule lane_touch_trans [OF 5(3) 7(3)])
  have same: "shown_slots g5 = shown_slots g3" "typed g5 = typed g3"
      "g_current_list_present g5 = g_current_list_present g3"
    using lane_touch_fields [OF t] by (simp_all add: typed_def fun_eq_iff cong: shown_slots_cong)
  have "lane_frame (take_current_list u g) g5"
    using lane_frame_trans [OF take_current_list_frame [OF lane_touch_frame [OF 1(3)], of u]
      lane_frame_trans [OF g3(2) lane_touch_frame [OF t]]] .
  moreover have "snapshot_calls stack d p extra u g =
      Some ([T_uint (tkey ''diag_session'') (ucast (rgi_diag_session_get d)),
             T_uint (tkey ''diag_rx_seq'') (ucast (rgi_diag_current_rx_seq d))] @ c1 @ c2 @ c3 @ c4 @ c5, g5)"
    using 1(1) 3 4(1) 5(1) 6(1) 7(1) by (simp add: snapshot_calls_def Let_def)
  moreover have "shows_list ([T_uint (tkey ''diag_session'') (ucast (rgi_diag_session_get d)),
             T_uint (tkey ''diag_rx_seq'') (ucast (rgi_diag_current_rx_seq d))] @ c1 @ c2 @ c3 @ c4 @ c5) g5"
    unfolding shows_list_def same
    using 4(3,4) 5(5) shown_slots_typed by fastforce
  ultimately show ?thesis using 1(2) 4(2) 5(2) 6(2) 7(2,4) by fastforce
qed

section \<open>Publishing\<close>

text \<open>A run in which the allocations of the bus succeed, and malloc of the text buffer may fail.\<close>

definition env_ok :: "env \<Rightarrow> bool" where
  "env_ok ev \<longleftrightarrow> ev_alloc ev = alloc_ok \<and> ev_clear_alloc ev = alloc_ok \<and>
     length (ev_scratch ev) = 256 \<and>
     (case ev_heap ev of None \<Rightarrow> True | Some m \<Rightarrow> length m = 64 * 1024)"

abbreviation RG_NAME :: "bytes option" where "RG_NAME \<equiv> Some (ascii ''routeguidance'')"

definition send_snapshot :: "text_call list \<Rightarrow> bus \<Rightarrow> (hook_result \<times> bus) option" where
  "send_snapshot cs b = send_message alloc_ok EVT_RGD_UPDATE BUS_FLAG_STICKY RG_NAME (64 * 1024) cs b"

lemma send_snapshot_heap:
  assumes "env_ok ev"
  shows "send_calls_heap (ev_alloc ev) EVT_RGD_UPDATE BUS_FLAG_STICKY RG_NAME (ev_heap ev) (64 * 1024) cs b =
    (if ev_heap ev = None then Some (HOOK_ERR_MEMORY, b) else send_snapshot cs b)"
  unfolding send_snapshot_def
  using assms by (subst send_calls_heap_eq) (auto simp: env_ok_def)

lemma send_snapshot_ok:
  assumes "bus_ok b"
  shows "\<exists>r b'. send_snapshot cs b = Some (r, b') \<and> bus_ok b'"
  unfolding send_snapshot_def using assms by (intro send_message_total) simp_all

text \<open>What the car side reads back from the message.\<close>

lemma parse_snapshot:
  "list_all call_ok cs \<Longrightarrow> parse_text (message_text RG_NAME cs) = concat (map call_record cs)"
  by (simp add: message_text_def parse_header parse_calls_text)

text \<open>
  A snapshot step from (g, b): either the bus is untouched, or one message goes out whose
  calls are well-formed and whose list agrees with its maneuver records.
\<close>

definition published :: "bus \<Rightarrow> rgd_state \<Rightarrow> bus \<Rightarrow> bool" where
  "published b g' b' \<longleftrightarrow> b' = b \<or>
     (\<exists>cs r. send_snapshot cs b = Some (r, b') \<and> list_all call_ok cs \<and> shows_list cs g')"

text \<open>The fields of the session and of the debounce, which no publisher touches.\<close>

definition ctl :: "rgd_state \<Rightarrow> bool \<times> bool \<times> bool \<times> bool \<times> u16 \<times> bool \<times> u64 \<times> u32 \<times> bool \<times> u8 \<times>
    u64 \<times> u64 \<times> bool \<times> u8" where
  "ctl g = (g_active g, g_sent_5200 g, g_sent_5203 g, g_got_520x g, g_component_id g,
     g_component_valid g, g_last_5200_ms g, g_start_5200_attempts g, g_have_update g,
     g_last_route_state g, g_state_zero_started_ms g, g_state_zero_deadline_ms g,
     g_state_zero_from_reroute g, g_emitted_route_state g)"

lemma lane_frame_ctl: "lane_frame g g' \<Longrightarrow> ctl g' = ctl g"
  unfolding lane_frame_def by (cases g; cases g') (simp add: ctl_def)

lemma take_current_list_ctl: "ctl (take_current_list u g) = ctl g"
  by (auto simp: take_current_list_def ctl_def Let_def split: option.split list.split)

lemma write_bus_snapshot_ok:
  assumes g: "rgd_ok n g" "n < 0xFFFFFF00" and b: "bus_ok b" and e: "extra_ok extra" and ev: "env_ok ev"
  shows "\<exists>g' b'. write_bus_snapshot_from_cache ev d extra u g b = Some (g', b') \<and>
    rgd_ok (n + 18) g' \<and> bus_ok b' \<and> published b g' b' \<and> ctl g' = ctl g"
proof -
  obtain pr g1 where 1: "rgd_prune_stale_lane_cache g = (pr, g1)" by (rule prod.exhaust)
  from prune_ok [OF g(1) 1] have g1: "rgd_ok n g1" "ctl g1 = ctl g" by (simp_all add: lane_frame_ctl)
  let ?ex = "case extra of None \<Rightarrow> None | Some (slot, man) \<Rightarrow>
      if mn_present man \<noteq> 0 \<and> slot < MANEUVER_CACHE_SIZE then extra else None"
  let ?p = "up_present (g_update_cache g) AND RGD_UPD_WRITE_MASK"
  have ex: "extra_ok ?ex" using e by (auto simp: extra_ok_def split: option.split)
  from snapshot_calls_ok [OF g1(1) g(2) ex] obtain cs g' where
    2: "snapshot_calls (ev_stack ev) d ?p ?ex u g1 = Some (cs, g')" "list_all call_ok cs"
      "rgd_ok (n + 18) g'" "shows_list cs g'" "lane_frame (take_current_list u g1) g'" by blast
  have c: "ctl g' = ctl g" using lane_frame_ctl [OF 2(5)] g1(2) by (simp add: take_current_list_ctl)
  obtain r b' where 3: "send_snapshot cs b = Some (r, b')" "bus_ok b'"
    using send_snapshot_ok [OF b] by blast
  have g1': "rgd_ok (n + 18) g1" by (rule rgd_ok_mono [OF g1(1)]) simp
  show ?thesis
  proof (cases "ev_heap ev = None \<or> (?p = 0 \<and> ?ex = None \<and>
      \<not> list_ex (\<lambda>i. rgd_lane_slot_has_data i g1) slot_ids \<and> \<not> pr)")
    case True
    then have "write_bus_snapshot_from_cache ev d extra u g b = Some (g1, b)"
      unfolding write_bus_snapshot_from_cache_def Let_def 1 by auto
    with g1' b g1(2) show ?thesis by (auto simp: published_def)
  next
    case False
    then have "write_bus_snapshot_from_cache ev d extra u g b = Some (g', b')"
      unfolding write_bus_snapshot_from_cache_def Let_def 1 split_conv send_snapshot_heap [OF ev]
      using 2(1) 3(1) by auto
    with 2 3 b c show ?thesis by (auto simp: published_def)
  qed
qed

end
