(* ===== verification/Rgd_Hook_Props.thy ===== *)
theory Rgd_Hook_Props
  imports Rgd_Hook Rgd_Snapshot_Props
begin

text \<open>
  The hook keeps its caches well-formed and never leaves a buffer, whatever bytes arrive and in
  whatever order messages, ticks and state events come; the debounce of route_state 0 refines a
  small state machine; and the start request is sent with its retry gate.
\<close>

section \<open>The invariant\<close>

text \<open>Before the first reset the slot tables are zero; the caches are already well-formed.\<close>

definition caches_ok :: "rgd_state \<Rightarrow> bool" where
  "caches_ok g \<longleftrightarrow> length (g_slot_cache g) = 32 \<and> length (g_lane_cache g) = 32 \<and>
     (\<forall>m \<in> set (g_slot_cache g). wf_maneuver m) \<and> (\<forall>l \<in> set (g_lane_cache g). wf_lane_guidance l)"

lemma rgd_ok_caches: "rgd_ok n g \<Longrightarrow> caches_ok g"
  by (simp add: rgd_ok_def caches_ok_def)

lemma zero_rgd_caches: "caches_ok zero_rgd"
  by (simp add: caches_ok_def zero_rgd_def wf_zero_maneuver wf_zero_lane)

lemma wf_maneuver_clear: "wf_maneuver m \<Longrightarrow> wf_maneuver (m\<lparr>mn_present := 0\<rparr>)"
  by (simp add: wf_maneuver_def has_0)

lemma wf_lane_clear: "wf_lane_guidance l \<Longrightarrow> wf_lane_guidance (l\<lparr>lg_present := 0\<rparr>)"
  by (simp add: wf_lane_guidance_def)

lemma reset_ok:
  assumes "caches_ok g" "wf_update (g_update_cache g)"
  shows "rgd_ok 0 (rgd_maneuver_map_reset g)"
  using assms idx_ok_free seq_ok_zero
  unfolding rgd_ok_def rgd_maneuver_map_reset_def
  by (auto simp: caches_ok_def wf_maneuver_clear wf_lane_clear)

lemma cache_reset_ok: "rgd_ok n g \<Longrightarrow> rgd_ok n (rgd_update_cache_reset g)"
  unfolding rgd_ok_def rgd_update_cache_reset_def by (simp add: wf_zero_update)

text \<open>Fields that the cache invariant does not look at.\<close>

lemma rgd_ok_fields [simp]:
  "rgd_ok n (g\<lparr>g_active := x\<rparr>) = rgd_ok n g" "rgd_ok n (g\<lparr>g_sent_5200 := x\<rparr>) = rgd_ok n g"
  "rgd_ok n (g\<lparr>g_sent_5203 := x\<rparr>) = rgd_ok n g" "rgd_ok n (g\<lparr>g_got_520x := x\<rparr>) = rgd_ok n g"
  "rgd_ok n (g\<lparr>g_component_id := c\<rparr>) = rgd_ok n g" "rgd_ok n (g\<lparr>g_component_valid := x\<rparr>) = rgd_ok n g"
  "rgd_ok n (g\<lparr>g_last_5200_ms := t\<rparr>) = rgd_ok n g" "rgd_ok n (g\<lparr>g_start_5200_attempts := a\<rparr>) = rgd_ok n g"
  "rgd_ok n (g\<lparr>g_have_update := x\<rparr>) = rgd_ok n g" "rgd_ok n (g\<lparr>g_last_route_state := s\<rparr>) = rgd_ok n g"
  "rgd_ok n (g\<lparr>g_state_zero_started_ms := t\<rparr>) = rgd_ok n g"
  "rgd_ok n (g\<lparr>g_state_zero_deadline_ms := t\<rparr>) = rgd_ok n g"
  "rgd_ok n (g\<lparr>g_state_zero_from_reroute := x\<rparr>) = rgd_ok n g"
  "rgd_ok n (g\<lparr>g_emitted_route_state := s\<rparr>) = rgd_ok n g"
  by (simp_all add: rgd_ok_def)

lemma caches_ok_fields [simp]:
  "caches_ok (g\<lparr>g_active := x\<rparr>) = caches_ok g" "caches_ok (g\<lparr>g_sent_5200 := x\<rparr>) = caches_ok g"
  "caches_ok (g\<lparr>g_sent_5203 := x\<rparr>) = caches_ok g"
  "caches_ok (g\<lparr>g_last_5200_ms := t\<rparr>) = caches_ok g" "caches_ok (g\<lparr>g_start_5200_attempts := a\<rparr>) = caches_ok g"
  by (simp_all add: caches_ok_def)

lemma cancel_ok: "rgd_ok n g \<Longrightarrow> rgd_ok n (rgd_cancel_pending_zero g)"
  by (simp add: rgd_cancel_pending_zero_def)

lemma clear_ok:
  assumes "caches_ok g"
  shows "rgd_ok 0 (rgd_update_cache_reset (rgd_maneuver_map_reset (clear_fields g)))"
  using assms idx_ok_free seq_ok_zero
  unfolding rgd_ok_def rgd_maneuver_map_reset_def rgd_update_cache_reset_def clear_fields_def
  by (auto simp: caches_ok_def wf_maneuver_clear wf_lane_clear wf_zero_update)

lemma wf_merge:
  assumes "wf_update u" "wf_update c"
  shows "wf_update (merge_update u c)"
  using assms by (simp add: wf_update_def merge_update_def Let_def)

lemma merge_ok: "rgd_ok n g \<Longrightarrow> wf_update u \<Longrightarrow> rgd_ok n (rgd_update_cache_merge u g)"
  unfolding rgd_ok_def rgd_update_cache_merge_def by (simp add: wf_merge)

section \<open>The publishers\<close>

lemma wf_update_slot: "wf_update u \<Longrightarrow> wf_update (u\<lparr>up_present := p, up_lane_guidance_slot := s\<rparr>)"
  by (simp add: wf_update_def)

text \<open>What a publisher does: the caches stay well-formed, and at most one snapshot goes out.\<close>

definition publishes :: "nat \<Rightarrow> rgd_state \<Rightarrow> bus \<Rightarrow> (rgd_state \<times> bus) option \<Rightarrow> bool" where
  "publishes n g b r \<longleftrightarrow> (\<exists>g' b'. r = Some (g', b') \<and> rgd_ok n g' \<and> bus_ok b' \<and> published b g' b' \<and>
     ctl g' = ctl g)"

lemma publishes_same: "rgd_ok m g' \<Longrightarrow> m \<le> n \<Longrightarrow> bus_ok b \<Longrightarrow> ctl g' = ctl g \<Longrightarrow> publishes n g b (Some (g', b))"
  by (simp add: publishes_def published_def rgd_ok_mono)

lemma lane_touch_ctl: "lane_touch g g' \<Longrightarrow> ctl g' = ctl g"
  by (rule lane_frame_ctl [OF lane_touch_frame])

lemma merge_ctl: "ctl (rgd_update_cache_merge u g) = ctl g"
  by (simp add: ctl_def rgd_update_cache_merge_def)

lemma lane_slot_ctl: "rgd_lane_slot_for_iap_index i c g = (r, g') \<Longrightarrow> ctl g' = ctl g"
  by (auto simp: rgd_lane_slot_for_iap_index_def Let_def ctl_def split: option.splits if_splits)

lemma man_slot_ctl: "rgd_slot_for_iap_index i c g = Some (r, g') \<Longrightarrow> ctl g' = ctl g"
  by (auto simp: rgd_slot_for_iap_index_def Let_def ctl_def split: option.splits if_splits)

lemma publishes_snapshot:
  assumes "rgd_ok m g" "m < 0xFFFFFF00" "m + 18 \<le> n" "bus_ok b" "extra_ok extra" "env_ok ev"
  shows "publishes n g b (write_bus_snapshot_from_cache ev d extra u g b)"
  using write_bus_snapshot_ok [OF assms(1,2,4-6), of d u] assms(3)
  unfolding publishes_def using rgd_ok_mono by blast

lemma publishes_ctl: "ctl g = ctl h \<Longrightarrow> publishes n g b r = publishes n h b r"
  by (simp add: publishes_def)

lemma write_bus_update_partial_ok:
  assumes g: "rgd_ok n g" "n < 0xFFFFFE00" and b: "bus_ok b" and u: "wf_update u" and ev: "env_ok ev"
  shows "publishes (n + 20) g b (write_bus_update_partial ev d u g b)"
proof -
  from lane_look_False [OF g(1), of "up_lane_guidance_index u"] g(2) obtain r g1 where
    1: "rgd_lane_slot_for_iap_index (up_lane_guidance_index u) False g = (r, g1)" "rgd_ok (Suc n) g1"
    by auto
  have 2: "rgd_ok (Suc n) g" by (rule rgd_ok_mono [OF g(1)]) simp
  have "publishes (n + 20) g b (write_bus_snapshot_from_cache ev d None (Some v) (rgd_update_cache_merge v h) b)"
    if "wf_update v" "rgd_ok (Suc n) h" "ctl h = ctl g" for v h
    using publishes_snapshot [OF merge_ok [OF that(2,1)] _ _ b _ ev, of "n + 20" None d "Some v"] g(2) that(3)
      publishes_ctl [of "rgd_update_cache_merge v h" g] by (simp add: extra_ok_def merge_ctl)
  then show ?thesis
    using publishes_same [OF 2 _ b] 1 2 u lane_slot_ctl [OF 1(1)]
    by (simp add: write_bus_update_partial_def Let_def wf_update_slot)
qed

lemma cache_store_ok:
  assumes "rgd_ok n g" "wf_maneuver m"
  shows "rgd_ok n (g\<lparr>g_slot_cache := (g_slot_cache g)[s := m]\<rparr>)"
proof -
  have "\<forall>x \<in> set ((g_slot_cache g)[s := m]). wf_maneuver x"
    using assms by (intro ball_list_update) (simp_all add: rgd_ok_def)
  with assms(1) show ?thesis unfolding rgd_ok_def by simp
qed

lemma lane_store_ok:
  assumes "rgd_ok n g" "wf_lane_guidance l"
  shows "rgd_ok n (g\<lparr>g_lane_cache := (g_lane_cache g)[s := l]\<rparr>)"
proof -
  have "\<forall>x \<in> set ((g_lane_cache g)[s := l]). wf_lane_guidance x"
    using assms by (intro ball_list_update) (simp_all add: rgd_ok_def)
  with assms(1) show ?thesis unfolding rgd_ok_def by simp
qed

text \<open>No parser sets the lane bit of a maneuver, so linked lanes are never resolved from it.\<close>

lemma rgd_resolve_linked_lanes_ok:
  assumes "rgd_ok n g" "n < 0xFFFFFFFE" "s < 32"
  shows "\<exists>g'. rgd_resolve_linked_lanes s g = Some g' \<and> rgd_ok (Suc n) g' \<and> g_slot_cache g' = g_slot_cache g \<and> ctl g' = ctl g"
proof -
  have len: "length (g_slot_cache g) = 32" using assms(1) by (simp add: rgd_ok_def)
  have g1: "rgd_ok (Suc n) g" by (rule rgd_ok_mono [OF assms(1)]) simp
  let ?i = "mn_linked_lane_guidance_index (g_slot_cache g ! s)"
  obtain r g' where r: "rgd_slot_for_iap_index ?i False g = Some (r, g')" "rgd_ok (Suc n) g'"
      "g_slot_cache g' = g_slot_cache g" "\<And>k. r = Some k \<Longrightarrow> k < 32"
  proof (cases "find_idx ?i (g_slot_to_iap_idx g)")
    case None
    then show ?thesis using that [of None g] g1 by (simp add: rgd_slot_for_iap_index_def)
  next
    case (Some k)
    from find_idx_Some [OF Some] have k: "k < 32" "?i \<in> set (g_slot_to_iap_idx g)"
      using man_slots.len [OF assms(1)] by (auto simp: in_set_conv_nth)
    from man_slots.hit [OF assms(1,2) k(2), of False] obtain k' g' where
      "rgd_slot_for_iap_index ?i False g = Some (Some k', g')" "k' < 32" "rgd_ok (Suc n) g'" by blast
    moreover from this(1) Some have "g_slot_cache g' = g_slot_cache g"
      by (auto simp: rgd_slot_for_iap_index_def Let_def)
    ultimately show ?thesis using that by blast
  qed
  have "\<not> has (mn_present (g_slot_cache g ! k)) RGD_MAN_LANE_GUIDANCE" if "k < 32" for k
    using wf_cached_maneuver [OF assms(1) that] by (simp add: wf_maneuver_def)
  with r g1 len assms(3) man_slot_ctl [OF r(1)] show ?thesis
    by (auto simp: rgd_resolve_linked_lanes_def at_def split: option.split)
qed

lemma write_bus_maneuver_partial_ok:
  assumes g: "rgd_ok n g" "n < 0xFFFFFE00" and b: "bus_ok b" and m: "wf_maneuver m" and ev: "env_ok ev"
  shows "publishes (n + 20) g b (write_bus_maneuver_partial ev d m g b)"
proof -
  note same = publishes_same [OF g(1) _ b, of "n + 20" g]
  have n: "n < 0xFFFFFFFE" "Suc n < 0xFFFFFFFE" using g(2) by simp_all
  obtain s g1 where 1: "rgd_slot_for_iap_index (mn_index m) True g = Some (Some s, g1)" "s < 32"
      "rgd_ok (Suc n) g1"
    by (cases rule: man_slots.look_cases [OF g(1) n(1), of "mn_index m" True]) auto
  have len: "length (g_slot_cache g1) = 32" using 1(3) by (simp add: rgd_ok_def)
  let ?g2 = "g1\<lparr>g_slot_cache := (g_slot_cache g1)[s := m]\<rparr>"
  from rgd_resolve_linked_lanes_ok [OF cache_store_ok [OF 1(3) m] n(2) 1(2)] obtain g3 where
    3: "rgd_resolve_linked_lanes s ?g2 = Some g3" "rgd_ok (n + 2) g3" "g_slot_cache g3 = g_slot_cache ?g2" "ctl g3 = ctl ?g2"
    by auto
  have c: "ctl g3 = ctl g" using 3(4) man_slot_ctl [OF 1(1)] by (simp add: ctl_def)
  have m3: "at (g_slot_cache g3) s = Some m" "at (g_slot_cache g1) s = Some (g_slot_cache g1 ! s)"
    using 3(3) len 1(2) by (simp_all add: at_def)
  have nolanes: "\<not> has (mn_present m) RGD_MAN_LANE_GUIDANCE" using m by (simp add: wf_maneuver_def)
  have "publishes (n + 20) g3 b (write_bus_snapshot_from_cache ev d (Some (s, m)) None g3 b)"
    using g(2) 1(2) m by (intro publishes_snapshot [OF 3(2) _ _ b _ ev]) (simp_all add: extra_ok_def)
  then have "publishes (n + 20) g b (write_bus_snapshot_from_cache ev d (Some (s, m)) None g3 b)"
    using publishes_ctl [OF c] by simp
  with same 1(1) 3(1) m3 nolanes show ?thesis
    by (simp add: write_bus_maneuver_partial_def Let_def)
qed

lemma wf_describe_lanes:
  assumes "wf_lane_guidance l"
  shows "wf_lane_guidance (describe_lanes l)"
proof -
  have "length (lg_lanes l) \<le> 8" using assms by (simp add: wf_lane_guidance_def)
  then have "take 8 (lg_lanes l) = lg_lanes l" "drop 8 (lg_lanes l) = []" by simp_all
  with assms show ?thesis
    by (auto simp: describe_lanes_def wf_lane_guidance_def wf_lane_def dest: in_set_takeD)
qed

lemma wf_lane_index: "wf_lane_guidance l \<Longrightarrow> wf_lane_guidance (l\<lparr>lg_index := i, lg_present := p\<rparr>)"
  by (simp add: wf_lane_guidance_def)

lemma store_lanes_ok:
  assumes "rgd_ok n g" "n < 0xFFFFFFFE" "wf_lane_guidance l"
  shows "\<exists>r g'. store_lanes l i g = (r, g') \<and> rgd_ok (Suc n) g' \<and> (\<forall>s. r = Some s \<longrightarrow> s < 32) \<and> ctl g' = ctl g"
proof -
  have g1: "rgd_ok (Suc n) g" by (rule rgd_ok_mono [OF assms(1)]) simp
  obtain r g' where r: "rgd_lane_slot_for_iap_index i True g = (r, g')" "rgd_ok (Suc n) g'"
      "\<And>s. r = Some s \<Longrightarrow> s < 32"
    by (cases rule: lane_slots.look_cases [OF assms(1,2), of i True]) (auto simp: lane_look_def)
  show ?thesis
    using r g1 lane_store_ok [OF r(2) wf_describe_lanes [OF wf_lane_index [OF assms(3)]]] lane_slot_ctl [OF r(1)]
    by (auto simp: store_lanes_def ctl_def split: option.split)
qed

lemma wf_lane_slot_update: "wf_update (zero_update\<lparr>up_present := p, up_lane_guidance_slot := s\<rparr>)"
  by (rule wf_update_slot [OF wf_zero_update])

lemma write_bus_lane_guidance_partial_ok:
  assumes g: "rgd_ok n g" "n < 0xFFFFFE00" and b: "bus_ok b" and l: "wf_lane_guidance l" and ev: "env_ok ev"
  shows "publishes (n + 20) g b (write_bus_lane_guidance_partial ev d l g b)"
proof -
  define i where "i = (if has (lg_present l) RGD_LANE_GUIDANCE_INDEX then lg_index l
     else if g_current_list_present g \<and> length (g_current_list g) > 0 then g_current_list g ! 0 else NO_INDEX)"
  have n: "n < 0xFFFFFFFE" "Suc n < 0xFFFFFFFE" using g(2) by simp_all
  from store_lanes_ok [OF g(1) n(1) l] obtain r g1 where
    1: "store_lanes l i g = (r, g1)" "rgd_ok (Suc n) g1" "\<And>s. r = Some s \<Longrightarrow> s < 32" "ctl g1 = ctl g"
    by blast
  from lane_look_False [OF 1(2) n(2), of i] obtain q g2 where
    2: "rgd_lane_slot_for_iap_index i False g1 = (q, g2)" "rgd_ok (n + 2) g2" by auto
  have g1: "rgd_ok (n + 2) g1" by (rule rgd_ok_mono [OF 1(2)]) simp
  have c2: "ctl g2 = ctl g" using lane_slot_ctl [OF 2(1)] 1(4) by simp
  have snap: "publishes (n + 20) g b (write_bus_snapshot_from_cache ev d ex u h b)"
    if "rgd_ok (n + 2) h" "extra_ok ex" "ctl h = ctl g" for ex u h
    using publishes_snapshot [OF that(1) _ _ b that(2) ev, of "n + 20" d u] g(2) publishes_ctl [OF that(3)] by simp
  have slot: "\<exists>m. at (g_slot_cache h) s = Some m \<and> extra_ok (Some (s, m))"
    if "rgd_ok (n + 2) h" "s < 32" for h s
    using that wf_cached_maneuver [OF that] by (simp add: rgd_ok_def at_def extra_ok_def)
  define tail where "tail u h = (if u = None \<and> r = None then Some (h, b)
      else do {
        let h = (case u of Some v \<Rightarrow> rgd_update_cache_merge v h | None \<Rightarrow> h);
        case r of
          Some s \<Rightarrow> do {
            man \<leftarrow> at (g_slot_cache h) s;
            write_bus_snapshot_from_cache ev d (Some (s, man)) u h b }
        | None \<Rightarrow> write_bus_snapshot_from_cache ev d None u h b })" for u h
  have tail: "publishes (n + 20) g b (tail u h)"
    if h: "rgd_ok (n + 2) h" "ctl h = ctl g" and u: "\<And>v. u = Some v \<Longrightarrow> wf_update v" for u h
  proof -
    let ?h = "case u of Some v \<Rightarrow> rgd_update_cache_merge v h | None \<Rightarrow> h"
    have h': "rgd_ok (n + 2) ?h" using h(1) u merge_ok by (auto split: option.split)
    have c': "ctl ?h = ctl g" using h(2) by (auto simp: merge_ctl split: option.split)
    have none: "publishes (n + 20) g b (Some (h, b))" using publishes_same [OF h(1) _ b h(2)] by simp
    show ?thesis
    proof (cases r)
      case None
      with none snap [OF h' _ c', of None u] show ?thesis by (simp add: tail_def Let_def extra_ok_def)
    next
      case (Some s)
      from slot [OF h' 1(3) [OF Some]] obtain m where "at (g_slot_cache ?h) s = Some m" "extra_ok (Some (s, m))"
        by blast
      with Some snap [OF h' _ c', of "Some (s, m)" u] show ?thesis by (simp add: tail_def Let_def)
    qed
  qed
  define upd where "upd ps h = (if has (up_present (g_update_cache h)) RGD_UPD_LANE_INDEX \<and>
      up_lane_guidance_index (g_update_cache h) = i
    then Some (zero_update\<lparr>up_present := RGD_UPD_LANE_SLOT,
           up_lane_guidance_slot := (case ps of Some s \<Rightarrow> of_nat s | None \<Rightarrow> -1)\<rparr>) else None)"
    for ps :: "nat option" and h :: rgd_state
  have upd: "upd ps h = Some v \<Longrightarrow> wf_update v" for ps h v
    by (auto simp: upd_def wf_lane_slot_update split: if_splits)
  have eq: "write_bus_lane_guidance_partial ev d l g b =
    (if lg_present l AND (RGD_LANE_GUIDANCE_INDEX OR RGD_LANE_INFORMATIONS) = 0 then Some (g, b)
     else if i = NO_INDEX then tail None g1
     else case r of Some s \<Rightarrow> tail (upd r g1) g1 | None \<Rightarrow> tail (upd q g2) g2)"
    unfolding write_bus_lane_guidance_partial_def i_def [symmetric] Let_def 1(1) 2(1) split_conv
    by (cases r) (simp_all add: tail_def upd_def 2(1) Let_def)
  have "publishes (n + 20) g b (Some (g, b))" using publishes_same [OF g(1) _ b, of "n + 20" g] by simp
  moreover have "publishes (n + 20) g b (tail None g1)" using tail [OF g1 1(4), of None] by simp
  moreover have "publishes (n + 20) g b (tail (upd r g1) g1)" by (rule tail [OF g1 1(4) upd])
  moreover have "publishes (n + 20) g b (tail (upd q g2) g2)" by (rule tail [OF 2(2) c2 upd])
  ultimately show ?thesis unfolding eq by (cases r) simp_all
qed

section \<open>The handler on arbitrary bytes\<close>

lemma route_state_zero_ok:
  assumes "rgd_ok n g"
  shows "rgd_ok n (snd (route_state_zero now u p g))"
proof -
  have r: "rgd_ok n (rgd_maneuver_map_reset h)" if "rgd_ok n h" for h
  proof (rule rgd_ok_mono [OF reset_ok])
    show "caches_ok h" by (rule rgd_ok_caches [OF that])
    show "wf_update (g_update_cache h)" using that by (simp add: rgd_ok_def)
  qed simp
  note c = cache_reset_ok [OF assms]
  show ?thesis
    using assms c r [OF c] cancel_ok [OF r [OF c]] by (simp add: route_state_zero_def Let_def)
qed

lemma update_received_ok:
  assumes "rgd_ok n g"
  shows "rgd_ok n (snd (update_received now u g))"
  using assms cancel_ok route_state_zero_ok
  by (simp add: update_received_def Let_def)

definition hook_ok :: "nat \<Rightarrow> world \<Rightarrow> bool" where
  "hook_ok n w \<longleftrightarrow> bus_ok (w_bus w) \<and> (w_initialized w \<longrightarrow> rgd_ok n (w_rgd w)) \<and>
     caches_ok (w_rgd w)"

lemma hook_ok_mono: "hook_ok n w \<Longrightarrow> n \<le> m \<Longrightarrow> hook_ok m w"
  by (auto simp: hook_ok_def intro: rgd_ok_mono)

lemma world_fields [simp]:
  "w_bus (on_rgd f w) = w_bus w" "w_rgd (on_rgd f w) = f (w_rgd w)" "w_diag (on_rgd f w) = w_diag w"
  "w_initialized (on_rgd f w) = w_initialized w" "w_injected (on_rgd f w) = w_injected w"
  "w_session_active (on_rgd f w) = w_session_active w"
  "w_bus (rgd_update_session_active w) = w_bus w" "w_rgd (rgd_update_session_active w) = w_rgd w"
  "w_diag (rgd_update_session_active w) = w_diag w"
  "w_initialized (rgd_update_session_active w) = w_initialized w"
  "w_injected (rgd_update_session_active w) = w_injected w"
  by (simp_all add: on_rgd_def rgd_update_session_active_def)

lemma mark_first_fields [simp]:
  "w_bus (rgd_mark_first_response w) = w_bus w"
  "w_rgd (rgd_mark_first_response w) = (w_rgd w)\<lparr>g_got_520x := True\<rparr>"
  "w_diag (rgd_mark_first_response w) = w_diag w"
  "w_initialized (rgd_mark_first_response w) = w_initialized w"
  "w_injected (rgd_mark_first_response w) = w_injected w"
  by (simp_all add: rgd_mark_first_response_def)

text \<open>What the short messages amount to.\<close>

definition short_text :: "text_call list \<Rightarrow> nat \<Rightarrow> bus \<Rightarrow> (hook_result \<times> bus) option" where
  "short_text cs cap b = send_message alloc_ok EVT_RGD_UPDATE BUS_FLAG_STICKY RG_NAME cap cs b"

lemma short_message_eq:
  assumes "length scratch \<le> 0x20000"
  shows "short_message alloc_ok scratch cs w =
    map_option (\<lambda>(r, b). w\<lparr>w_bus := b\<rparr>) (short_text cs (length scratch) (w_bus w))"
  unfolding short_message_def short_text_def
  using assms by (subst send_calls_eq) (simp_all add: bind_eq_Some_conv map_option_case split: option.split)

lemma short_text_ok:
  "bus_ok b \<Longrightarrow> cap \<le> 0x20000 \<Longrightarrow> \<exists>r b'. short_text cs cap b = Some (r, b') \<and> bus_ok b'"
  unfolding short_text_def by (intro send_message_total) simp_all

definition clear_calls :: "bytes option \<Rightarrow> text_call list" where
  "clear_calls reason = route_end_calls @ (case reason of None \<Rightarrow> []
     | Some r \<Rightarrow> [T_str (tkey ''disconnect_reason'') (Some r)])"

lemma rgd_clear_state_ok:
  assumes "bus_ok (w_bus w)" "caches_ok (w_rgd w)" "env_ok ev"
  shows "\<exists>w' r. rgd_clear_state ev reason w = Some w' \<and> hook_ok 0 w' \<and>
    short_text (clear_calls reason) 256 (w_bus w) = Some (r, w_bus w') \<and>
    w_rgd w' = rgd_update_cache_reset (rgd_maneuver_map_reset (clear_fields (w_rgd w))) \<and>
    w_initialized w' = w_initialized w \<and> w_injected w' = w_injected w \<and> \<not> w_session_active w' \<and>
    w_diag w' = w_diag w"
proof -
  from short_text_ok [OF assms(1), of 256 "clear_calls reason"] obtain r b where
    b: "short_text (clear_calls reason) 256 (w_bus w) = Some (r, b)" "bus_ok b" by auto
  have e: "ev_clear_alloc ev = alloc_ok" "length (ev_scratch ev) = 256" using assms(3) by (simp_all add: env_ok_def)
  let ?g = "rgd_update_cache_reset (rgd_maneuver_map_reset (clear_fields (w_rgd w)))"
  have g: "rgd_ok 0 ?g" by (rule clear_ok [OF assms(2)])
  have na: "\<not> g_active ?g" "\<not> g_got_520x ?g"
    by (simp_all add: rgd_update_cache_reset_def rgd_maneuver_map_reset_def clear_fields_def)
  show ?thesis
    using b g e na rgd_ok_caches [OF g]
    by (simp add: rgd_clear_state_def clear_calls_def [symmetric] short_message_eq hook_ok_def
        rgd_update_session_active_def)
qed

lemma bus_ok_tick [simp]: "bus_ok (bus_set_periodic_tick c b) = bus_ok b"
  by (simp add: bus_ok_def bus_set_periodic_tick_def)

lemma hook_ok_initialized:
  "w_initialized w \<Longrightarrow> hook_ok n w \<longleftrightarrow> bus_ok (w_bus w) \<and> rgd_ok n (w_rgd w)"
  by (auto simp: hook_ok_def rgd_ok_caches)

lemma rgd_lazy_init_ok:
  assumes "hook_ok n w" "env_ok ev"
  shows "\<exists>w'. rgd_lazy_init ev w = Some w' \<and> hook_ok n w' \<and> w_initialized w' \<and> w_diag w' = w_diag w \<and>
    w_injected w' = w_injected w \<and> (w_initialized w \<longrightarrow> w' = w)"
proof (cases "w_initialized w")
  case True
  with assms show ?thesis by (simp add: rgd_lazy_init_def)
next
  case False
  let ?w = "w\<lparr>w_initialized := True\<rparr>"
  from rgd_clear_state_ok [of ?w ev "Some (ascii ''init'')"] assms obtain w' where
    w': "rgd_clear_state ev (Some (ascii ''init'')) ?w = Some w'" "hook_ok 0 w'" "w_initialized w'"
      "w_injected w' = w_injected w" "w_diag w' = w_diag w"
    by (auto simp: hook_ok_def)
  have "hook_ok n (w'\<lparr>w_bus := bus_set_periodic_tick (Some RGD_TICK) (w_bus w')\<rparr>)"
    using hook_ok_mono [OF w'(2), of n] by (simp add: hook_ok_def)
  with False w' show ?thesis by (simp add: rgd_lazy_init_def)
qed

lemma in_bus_publishes:
  assumes "publishes n (w_rgd w) (w_bus w) (f (w_rgd w) (w_bus w))" "w_initialized w"
  shows "\<exists>w'. in_bus f w = Some w' \<and> hook_ok n w' \<and> w_initialized w' \<and>
    published (w_bus w) (w_rgd w') (w_bus w') \<and> w_injected w' = w_injected w \<and> w_diag w' = w_diag w \<and>
    ctl (w_rgd w') = ctl (w_rgd w)"
  using assms by (auto simp: publishes_def in_bus_def hook_ok_initialized)

lemma ctx_bytes_ok:
  "unat (fr_frame_len fr) \<le> length raw \<Longrightarrow>
   ctx_bytes raw fr = Some (take (unat (fr_frame_len fr)) raw)"
  by (simp add: ctx_bytes_def)

text \<open>
  One message on an initialized hook: at most one snapshot is published, at most 20 uses are
  counted, and nothing is injected.
\<close>

lemma handler_initialized:
  assumes w: "w_initialized w" "hook_ok n w" "n < 0xFFFFFE00" and ev: "env_ok ev"
    and fr: "unat (fr_frame_len fr) \<le> length raw"
  shows "\<exists>w'. rgd_message_handler ev raw fr w = Some w' \<and> hook_ok (n + 20) w' \<and> w_initialized w' \<and>
    published (w_bus w) (w_rgd w') (w_bus w') \<and> w_injected w' = w_injected w \<and> w_diag w' = w_diag w"
proof -
  define w1 where "w1 = rgd_mark_first_response w"
  have g: "rgd_ok n (w_rgd w1)" "bus_ok (w_bus w)" "w_initialized w1" "w_bus w1 = w_bus w" "w_diag w1 = w_diag w"
      "w_injected w1 = w_injected w"
    using w(1,2) by (simp_all add: hook_ok_initialized w1_def)
  have same: "hook_ok (n + 20) w" "published (w_bus w) (w_rgd w) (w_bus w)"
    using hook_ok_mono [OF w(2)] by (simp_all add: published_def)
  have init: "rgd_lazy_init ev w = Some w" using w(1) by (simp add: rgd_lazy_init_def)
  note buf = ctx_bytes_ok [OF fr]
  let ?buf = "take (unat (fr_frame_len fr)) raw"
  consider "fr_msgid fr = 0x5201" | "fr_msgid fr = 0x5202" | "fr_msgid fr = 0x5204"
    | "fr_msgid fr \<noteq> 0x5201" "fr_msgid fr \<noteq> 0x5202" "fr_msgid fr \<noteq> 0x5204" by blast
  then show ?thesis
  proof cases
    case 1
    from rgd_parse_update_wf obtain u where u: "rgd_parse_update (Some ?buf) = Some u" "wf_update u" by blast
    obtain sup g' where s: "update_received (ev_now ev) u (w_rgd w1) = (sup, g')" by (rule prod.exhaust)
    with update_received_ok [OF g(1), of "ev_now ev" u] have g': "rgd_ok n g'" by simp
    let ?w = "w1\<lparr>w_rgd := g'\<rparr>"
    from in_bus_publishes [of "n + 20" ?w "write_bus_update_partial ev (w_diag w) u"]
      write_bus_update_partial_ok [OF g' w(3) g(2) u(2) ev, of "w_diag w"] g
    obtain w' where "in_bus (write_bus_update_partial ev (w_diag w) u) ?w = Some w'" "hook_ok (n + 20) w'"
      "w_initialized w'" "published (w_bus w) (w_rgd w') (w_bus w')" "w_injected w' = w_injected w" "w_diag w' = w_diag w"
      by auto
    moreover have "hook_ok (n + 20) ?w"
      using g g' rgd_ok_mono [OF g'] by (simp add: hook_ok_initialized)
    ultimately show ?thesis
      using 1 init buf u(1) s g by (simp add: rgd_message_handler_def Let_def w1_def published_def)
  next
    case 2
    from rgd_parse_maneuver_wf obtain m where m: "rgd_parse_maneuver (Some ?buf) = Some m" "wf_maneuver m" by blast
    from in_bus_publishes [of "n + 20" "on_rgd rgd_cancel_pending_zero w1" "write_bus_maneuver_partial ev (w_diag w) m"]
      write_bus_maneuver_partial_ok [OF cancel_ok [OF g(1)] w(3) g(2) m(2) ev, of "w_diag w"] g
    show ?thesis
      using 2 init buf m(1) by (auto simp: rgd_message_handler_def Let_def w1_def)
  next
    case 3
    from rgd_parse_lane_guidance_wf obtain l where
      l: "rgd_parse_lane_guidance (Some ?buf) = Some l" "wf_lane_guidance l" by blast
    from in_bus_publishes [of "n + 20" "on_rgd rgd_cancel_pending_zero w1" "write_bus_lane_guidance_partial ev (w_diag w) l"]
      write_bus_lane_guidance_partial_ok [OF cancel_ok [OF g(1)] w(3) g(2) l(2) ev, of "w_diag w"] g
    show ?thesis
      using 3 init buf l(1) by (auto simp: rgd_message_handler_def Let_def w1_def)
  next
    case 4
    with init same w(1) show ?thesis by (simp add: rgd_message_handler_def)
  qed
qed

lemma handler_lazy:
  assumes "rgd_lazy_init ev w = Some w1" "w_initialized w1"
  shows "rgd_message_handler ev raw fr w = rgd_message_handler ev raw fr w1"
proof -
  have "rgd_lazy_init ev w1 = Some w1" using assms(2) by (simp add: rgd_lazy_init_def)
  with assms(1) show ?thesis by (simp add: rgd_message_handler_def)
qed

lemma handler_ok:
  assumes "hook_ok n w" "n < 0xFFFFFE00" "env_ok ev" "unat (fr_frame_len fr) \<le> length raw"
  shows "\<exists>w'. rgd_message_handler ev raw fr w = Some w' \<and> hook_ok (n + 20) w' \<and> w_initialized w' \<and>
    w_injected w' = w_injected w"
proof -
  from rgd_lazy_init_ok [OF assms(1,3)] obtain w1 where
    1: "rgd_lazy_init ev w = Some w1" "hook_ok n w1" "w_initialized w1" "w_injected w1 = w_injected w" by blast
  from handler_initialized [OF 1(3,2) assms(2-4)] handler_lazy [OF 1(1,3)] 1(4) show ?thesis by auto
qed

section \<open>The start request\<close>

definition start_params :: "u16 \<Rightarrow> (u16 \<times> bytes) list" where
  "start_params cid = [(0, write_be16 cid), (1, []), (2, []), (3, [])]"

lemma iap2_build_tlv_empty:
  "4 \<le> length m \<Longrightarrow> iap2_build_tlv (Some m) i None 0 = Some (4, Some (mem_put m 0 (tlv_encode (i, []))))"
  by (simp add: iap2_build_tlv_def mem_copy_def tlv_encode_def mem_put_seq Let_def)

lemma add_tlv_eq:
  assumes "f (Some (drop (length p) m)) = Some (length bs, Some (mem_put (drop (length p) m) 0 bs))"
    "take (length p) m = p" "bs \<noteq> []" "length p + length bs \<le> length m"
  shows "\<exists>m'. add_tlv f (m, length p) = Some (Some (m', length (p @ bs))) \<and>
    take (length (p @ bs)) m' = p @ bs \<and> length m' = length m"
  using assms by (simp add: add_tlv_def mem_put_def)

lemma start_payload_eq:
  assumes "length tlv = 24"
  shows "start_payload cid tlv = Some (Some (concat (map tlv_encode (start_params cid))))"
proof -
  let ?a = "tlv_encode (0, write_be16 cid)" and ?b = "tlv_encode (1, [])"
    and ?c = "tlv_encode (2, [])" and ?d = "tlv_encode (3, [])"
  let ?e = "\<lambda>i p. iap2_build_tlv p i None 0"
  have len: "length ?a = 6" "length ?b = 4" "length ?c = 4" "length ?d = 4"
    by (simp_all add: tlv_encode_def write_be16_def)
  have ne: "?a \<noteq> []" "?b \<noteq> []" "?c \<noteq> []" "?d \<noteq> []" using len by (metis list.size(3) zero_neq_numeral)+
  obtain m1 where 1: "add_tlv (\<lambda>p. Some (iap2_build_tlv_u16 p 0 cid)) (tlv, 0) = Some (Some (m1, length ?a))"
    "take (length ?a) m1 = ?a" "length m1 = 24"
    using add_tlv_eq [of "\<lambda>p. Some (iap2_build_tlv_u16 p 0 cid)" "[]" tlv ?a] assms len ne
    by (auto simp: iap2_build_tlv_u16_eq)
  obtain m2 where 2: "add_tlv (?e 1) (m1, length ?a) = Some (Some (m2, length (?a @ ?b)))"
    "take (length (?a @ ?b)) m2 = ?a @ ?b" "length m2 = 24"
    using add_tlv_eq [of "?e 1" ?a m1 ?b] 1 len ne by (auto simp: iap2_build_tlv_empty)
  obtain m3 where 3: "add_tlv (?e 2) (m2, length (?a @ ?b)) = Some (Some (m3, length ((?a @ ?b) @ ?c)))"
    "take (length ((?a @ ?b) @ ?c)) m3 = (?a @ ?b) @ ?c" "length m3 = 24"
    using add_tlv_eq [of "?e 2" "?a @ ?b" m2 ?c] 2 len ne by (auto simp: iap2_build_tlv_empty)
  obtain m4 where 4: "add_tlv (?e 3) (m3, length ((?a @ ?b) @ ?c)) = Some (Some (m4, length (((?a @ ?b) @ ?c) @ ?d)))"
    "take (length (((?a @ ?b) @ ?c) @ ?d)) m4 = ((?a @ ?b) @ ?c) @ ?d"
    using add_tlv_eq [of "?e 3" "(?a @ ?b) @ ?c" m3 ?d] 3 len ne by (auto simp: iap2_build_tlv_empty)
  show ?thesis
    using 1(1) 2(1) 3(1) 4 by (simp add: start_payload_def start_params_def)
qed

definition retry_ms :: "rgd_state \<Rightarrow> u64" where
  "retry_ms g = (if g_start_5200_attempts g < RGD_START_FAST_ATTEMPTS then RGD_START_FAST_RETRY_MS
                 else RGD_START_SLOW_RETRY_MS)"

text \<open>Is a start request sent at time now?\<close>

definition start_due :: "u64 \<Rightarrow> rgd_state \<Rightarrow> bool" where
  "start_due now g \<longleftrightarrow> g_component_valid g \<and> \<not> g_got_520x g \<and>
     (g_last_5200_ms g = 0 \<or> now - g_last_5200_ms g \<ge> retry_ms g)"

lemma rgd_request_updates_eq:
  assumes "env_ok ev" "ev_ready ev"
  shows "rgd_request_updates ev w =
    Some (if \<not> start_due (ev_start ev) (w_rgd w)
          then (if g_component_valid (w_rgd w) then HOOK_OK else HOOK_ERR_INIT, w)
          else (ev_inject ev,
            let w' = w\<lparr>w_injected := w_injected w @ [(0x5200, concat (map tlv_encode (start_params (g_component_id (w_rgd w)))))]\<rparr>;
                a = g_start_5200_attempts (w_rgd w)
            in if ev_inject ev = HOOK_OK
               then rgd_update_session_active (on_rgd (\<lambda>g. g\<lparr>g_last_5200_ms := ev_start ev,
                      g_start_5200_attempts := a + 1, g_sent_5200 := True, g_active := True\<rparr>) w')
               else on_rgd (\<lambda>g. g\<lparr>g_start_5200_attempts := (if a + 1 > 0 then a else a + 1),
                      g_last_5200_ms := 0\<rparr>) w'))"
proof -
  have "length (take 24 (ev_scratch ev)) = 24" using assms(1) by (simp add: env_ok_def)
  note p = start_payload_eq [OF this]
  have due: "start_due (ev_start ev) (w_rgd w) \<longleftrightarrow> g_component_valid (w_rgd w) \<and> \<not> g_got_520x (w_rgd w) \<and>
      \<not> (g_last_5200_ms (w_rgd w) \<noteq> 0 \<and> ev_start ev - g_last_5200_ms (w_rgd w) < retry_ms (w_rgd w))"
    by (auto simp: start_due_def not_less)
  show ?thesis
    unfolding due rgd_request_updates_def Let_def retry_ms_def [symmetric]
    using assms(2) by (simp add: p hook_inject_message_def on_rgd_def rgd_update_session_active_def)
qed

lemma rgd_request_updates_idle:
  "\<not> ev_ready ev \<Longrightarrow> rgd_request_updates ev w = Some (HOOK_ERR_INIT, w)"
  by (simp add: rgd_request_updates_def)

lemma rgd_request_updates_ok:
  assumes "env_ok ev" "hook_ok n w"
  shows "\<exists>r w'. rgd_request_updates ev w = Some (r, w') \<and> hook_ok n w' \<and> w_bus w' = w_bus w \<and>
    w_initialized w' = w_initialized w"
proof (cases "ev_ready ev")
  case True
  with assms rgd_request_updates_eq [OF assms(1) True, of w] show ?thesis
    by (auto simp: hook_ok_def Let_def)
next
  case False
  with assms rgd_request_updates_idle [of ev w] show ?thesis by simp
qed

section \<open>Any sequence of events\<close>

lemma hook_ok_bus: "hook_ok n w \<Longrightarrow> bus_ok b \<Longrightarrow> hook_ok n (w\<lparr>w_bus := b\<rparr>)"
  by (simp add: hook_ok_def)

lemma rgd_stop_updates_ok:
  assumes "env_ok ev" "hook_ok n w"
  shows "\<exists>r w'. rgd_stop_updates ev w = Some (r, w') \<and> hook_ok n w'"
proof -
  have "length (take 6 (ev_scratch ev)) = 6" using assms(1) by (simp add: env_ok_def)
  then have "iap2_build_tlv_u16 (Some (take 6 (ev_scratch ev))) 0 c =
      (6, Some (mem_put (take 6 (ev_scratch ev)) 0 (tlv_encode (0, write_be16 c))))" for c
    by (intro iap2_build_tlv_u16_eq) simp
  with assms(2) show ?thesis
    by (auto simp: rgd_stop_updates_def Let_def hook_inject_message_def hook_ok_def)
qed

lemma clear_state_ok:
  assumes "env_ok ev" "hook_ok n w"
  shows "\<exists>w'. rgd_clear_state ev reason w = Some w' \<and> hook_ok n w'"
  using rgd_clear_state_ok [of w ev reason] assms hook_ok_mono [of 0 _ n] by (auto simp: hook_ok_def)

lemma rgd_state_handler_ok:
  assumes "env_ok ev" "hook_ok n w"
  shows "\<exists>w'. rgd_state_handler ev e w = Some w' \<and> hook_ok n w'"
  using clear_state_ok [OF assms] rgd_stop_updates_ok [OF assms] clear_state_ok [OF assms(1)] assms(2)
  by (cases e) (fastforce simp: rgd_state_handler_def)+

lemma rgd_periodic_tick_ok:
  assumes "env_ok ev" "hook_ok n w"
  shows "\<exists>w'. rgd_periodic_tick ev w = Some w' \<and> hook_ok n w'"
proof -
  from rgd_request_updates_ok [OF assms] obtain r w1 where
    1: "rgd_request_updates ev w = Some (r, w1)" "hook_ok n w1" by blast
  let ?w = "on_rgd (\<lambda>g. g\<lparr>g_emitted_route_state := 0, g_state_zero_started_ms := 0,
                 g_state_zero_deadline_ms := 0, g_state_zero_from_reroute := False\<rparr>) w1"
  have w: "hook_ok n ?w" using 1(2) by (simp add: hook_ok_def caches_ok_def)
  then have "bus_ok (w_bus w1)" by (simp add: hook_ok_def)
  from short_text_ok [OF this, of 128 route_end_calls] obtain q b where
    b: "short_text route_end_calls 128 (w_bus w1) = Some (q, b)" "bus_ok b" by auto
  have e: "ev_clear_alloc ev = alloc_ok" "length (take 128 (ev_scratch ev)) = 128"
    using assms(1) by (simp_all add: env_ok_def)
  show ?thesis
    using 1 b hook_ok_bus [OF w b(2)] e(1) short_message_eq [of "take 128 (ev_scratch ev)" route_end_calls ?w] e(2)
    by (simp add: rgd_periodic_tick_def)
qed

lemma rgd_transport_handler_ok:
  assumes "env_ok ev" "hook_ok n w"
  shows "\<exists>w'. rgd_transport_handler ev m w = Some w' \<and> hook_ok n w'"
  using rgd_request_updates_ok [OF assms] assms(2) by (auto simp: rgd_transport_handler_def)

lemma rgd_shutdown_ok:
  assumes "env_ok ev" "hook_ok n w"
  shows "\<exists>w'. rgd_shutdown ev w = Some w' \<and> hook_ok n w'"
proof -
  have "bus_ok (bus_set_periodic_tick None (w_bus w))" using assms(2) by (simp add: hook_ok_def)
  from clear_state_ok [OF assms(1) hook_ok_bus [OF assms(2) this]] show ?thesis
    by (simp add: rgd_shutdown_def)
qed

definition op_ok :: "hook_op \<Rightarrow> bool" where
  "op_ok op \<longleftrightarrow> (case op of Op_message raw fr \<Rightarrow> unat (fr_frame_len fr) \<le> length raw | _ \<Rightarrow> True)"

lemma hook_step_ok:
  assumes "env_ok ev" "op_ok op" "hook_ok n w" "n < 0xFFFFFE00"
  shows "\<exists>w'. hook_step ev op w = Some w' \<and> hook_ok (n + 20) w'"
proof -
  have m: "hook_ok (n + 20) v" if "hook_ok n v" for v by (rule hook_ok_mono [OF that]) simp
  show ?thesis
  proof (cases op)
    case (Op_message raw fr)
    with handler_ok [OF assms(3,4,1), of fr raw] assms(2) show ?thesis by (auto simp: op_ok_def)
  next
    case (Op_transport msgid)
    with rgd_transport_handler_ok [OF assms(1,3), of msgid] m show ?thesis by auto
  next
    case (Op_state e)
    with rgd_state_handler_ok [OF assms(1,3), of e] m show ?thesis by auto
  next
    case Op_tick
    with rgd_periodic_tick_ok [OF assms(1,3)] m show ?thesis by auto
  next
    case Op_shutdown
    with rgd_shutdown_ok [OF assms(1,3)] m show ?thesis by auto
  qed
qed

definition ops_ok :: "(env \<times> hook_op) list \<Rightarrow> bool" where
  "ops_ok ops \<longleftrightarrow> list_all (\<lambda>(ev, op). env_ok ev \<and> op_ok op) ops"

lemma hook_run_ok:
  assumes "ops_ok ops" "hook_ok n w" "n + 20 * length ops < 0xFFFFFE00"
  shows "\<exists>w'. hook_run ops w = Some w' \<and> hook_ok (n + 20 * length ops) w'"
  using assms
proof (induction ops arbitrary: n w)
  case Nil
  then show ?case by simp
next
  case (Cons a ops)
  obtain ev op where a: "a = (ev, op)" by (rule prod.exhaust)
  from Cons.prems a have "env_ok ev" "op_ok op" "n < 0xFFFFFE00" by (simp_all add: ops_ok_def)
  from hook_step_ok [OF this(1,2) Cons.prems(2) this(3)] obtain w1 where
    1: "hook_step ev op w = Some w1" "hook_ok (n + 20) w1" by blast
  have "ops_ok ops" "n + 20 + 20 * length ops < 0xFFFFFE00" using Cons.prems by (simp_all add: ops_ok_def)
  from Cons.IH [OF this(1) 1(2) this(2)] 1(1) a show ?case by (simp add: ac_simps)
qed

lemma fresh_world_ok: "bus_ok b \<Longrightarrow> hook_ok n (fresh_world b)"
  by (simp add: hook_ok_def fresh_world_def zero_rgd_caches)

section \<open>A sample environment\<close>

definition demo_env :: "u64 \<Rightarrow> env" where
  "demo_env now = \<lparr>ev_start = now, ev_now = now, ev_stack = [], ev_scratch = replicate 256 0,
     ev_heap = Some (replicate (64 * 1024) 0), ev_alloc = alloc_ok, ev_clear_alloc = alloc_ok,
     ev_ready = True, ev_inject = HOOK_OK\<rparr>"

lemma demo_env_ok: "env_ok (demo_env now)"
  unfolding env_ok_def demo_env_def
  by simp

end
