(* ===== verification/Rgd_Debounce.thy ===== *)
theory Rgd_Debounce
  imports Rgd_Hook_Props
begin

text \<open>
  The debounce of route_state 0. Maps sends a reset frame with state 0 in the middle of a route;
  the hook holds it back until a deadline, evidence of an active route, or a hard clear. The
  fields of g_rgd that implement this refine a machine with two phases: Live s, where s is the
  state that the car was told, and Held s d, where a zero is pending, until the time d or, after
  a reroute, without a limit.
\<close>

datatype phase = Live u8 | Held u8 "u64 option"

datatype input =
    In_state u8 bool   \<comment> \<open>an update with a route state, and whether it is a hard clear\<close>
  | In_evidence        \<comment> \<open>anything else that shows an active route\<close>
  | In_other bool      \<comment> \<open>an update without evidence, and whether it is a hard clear\<close>
  | In_tick

datatype reaction = Publish | Hold | End_route | Quiet

text \<open>The machine: the last state that the phone sent, and the phase.\<close>

fun deb_step :: "u64 \<Rightarrow> input \<Rightarrow> u8 \<times> phase \<Rightarrow> (u8 \<times> phase) \<times> reaction" where
  "deb_step now (In_state s hard) (prev, p) =
     (if s \<noteq> 0 then ((s, Live s), Publish)
      else if hard then ((0, Live 0), Publish)
      else case p of
          Live e \<Rightarrow> if e = 0 then ((0, p), Publish)
                   else ((0, Held e (if prev = RGD_STATE_REROUTING \<or> e = RGD_STATE_REROUTING then None
                                     else Some (now + ROUTE_ZERO_NORMAL_GRACE_MS))), Hold)
        | Held e d \<Rightarrow> ((0, p), Hold))"
| "deb_step now In_evidence (prev, p) = ((prev, case p of Live e \<Rightarrow> Live e | Held e d \<Rightarrow> Live e), Publish)"
| "deb_step now (In_other hard) (prev, p) =
     ((prev, p), case p of Live e \<Rightarrow> Publish | Held e d \<Rightarrow> if hard then Publish else Hold)"
| "deb_step now In_tick (prev, p) =
     (case p of
        Held e (Some d) \<Rightarrow> if d \<le> now then ((prev, Live 0), End_route) else ((prev, p), Quiet)
      | _ \<Rightarrow> ((prev, p), Quiet))"

section \<open>The refinement\<close>

definition phase_of :: "rgd_state \<Rightarrow> phase" where
  "phase_of g = (if g_state_zero_started_ms g = 0 then Live (g_emitted_route_state g)
     else Held (g_emitted_route_state g)
            (if g_state_zero_from_reroute g then None else Some (g_state_zero_deadline_ms g)))"

definition deb_of :: "rgd_state \<Rightarrow> u8 \<times> phase" where
  "deb_of g = (g_last_route_state g, phase_of g)"

definition deb_ok :: "rgd_state \<Rightarrow> bool" where
  "deb_ok g \<longleftrightarrow> (g_state_zero_started_ms g \<noteq> 0 \<longrightarrow>
     g_emitted_route_state g \<noteq> 0 \<and> (g_state_zero_from_reroute g \<longleftrightarrow> g_state_zero_deadline_ms g = 0))"

text \<open>The clock has started and does not wrap within the grace period.\<close>

definition clock_ok :: "u64 \<Rightarrow> bool" where
  "clock_ok now \<longleftrightarrow> now \<noteq> 0 \<and> now + ROUTE_ZERO_NORMAL_GRACE_MS \<noteq> 0"

definition update_input :: "rgd_update \<Rightarrow> input" where
  "update_input u = (if has (up_present u) RGD_UPD_ROUTE_STATE then In_state (up_route_state u) (hard_clear u)
     else if rgd_update_has_active_evidence u then In_evidence else In_other (hard_clear u))"

lemma deb_reset:
  "g_state_zero_started_ms (rgd_maneuver_map_reset g) = g_state_zero_started_ms g"
  "g_state_zero_deadline_ms (rgd_maneuver_map_reset g) = g_state_zero_deadline_ms g"
  "g_state_zero_from_reroute (rgd_maneuver_map_reset g) = g_state_zero_from_reroute g"
  "g_emitted_route_state (rgd_maneuver_map_reset g) = g_emitted_route_state g"
  "g_last_route_state (rgd_maneuver_map_reset g) = g_last_route_state g"
  "g_state_zero_started_ms (rgd_update_cache_reset g) = g_state_zero_started_ms g"
  "g_state_zero_deadline_ms (rgd_update_cache_reset g) = g_state_zero_deadline_ms g"
  "g_state_zero_from_reroute (rgd_update_cache_reset g) = g_state_zero_from_reroute g"
  "g_emitted_route_state (rgd_update_cache_reset g) = g_emitted_route_state g"
  "g_last_route_state (rgd_update_cache_reset g) = g_last_route_state g"
  by (simp_all add: rgd_maneuver_map_reset_def rgd_update_cache_reset_def)

lemma cancel_deb:
  "deb_ok g \<Longrightarrow> deb_ok (rgd_cancel_pending_zero g)"
  "deb_of (rgd_cancel_pending_zero g) = (g_last_route_state g, Live (g_emitted_route_state g))"
  "g_emitted_route_state (rgd_cancel_pending_zero g) = g_emitted_route_state g"
  "g_last_route_state (rgd_cancel_pending_zero g) = g_last_route_state g"
  "g_state_zero_started_ms (rgd_cancel_pending_zero g) = 0"
  by (simp_all add: rgd_cancel_pending_zero_def deb_ok_def deb_of_def phase_of_def)

lemma deb_fields:
  "deb_of (g\<lparr>g_have_update := x\<rparr>) = deb_of g" "deb_ok (g\<lparr>g_have_update := x\<rparr>) = deb_ok g"
  "deb_of (g\<lparr>g_last_route_state := s\<rparr>) = (s, phase_of g)" "deb_ok (g\<lparr>g_last_route_state := s\<rparr>) = deb_ok g"
  "phase_of (g\<lparr>g_last_route_state := s\<rparr>) = phase_of g" "phase_of (g\<lparr>g_have_update := x\<rparr>) = phase_of g"
  by (simp_all add: deb_of_def deb_ok_def phase_of_def)

lemma route_state_zero_refines:
  assumes "deb_ok g" "clock_ok now" "g_last_route_state g = 0" "route_state_zero now u p g = (held, g')"
  shows "deb_step now (In_state 0 (hard_clear u)) (p, phase_of g) = (deb_of g', if held then Hold else Publish) \<and>
    deb_ok g'"
proof (cases "hard_clear u")
  case True
  let ?h = "(rgd_cancel_pending_zero (rgd_maneuver_map_reset (rgd_update_cache_reset g)))\<lparr>g_emitted_route_state := 0\<rparr>"
  have "deb_of ?h = (0, Live 0)" "deb_ok ?h"
    using assms(3) by (simp_all add: deb_of_def phase_of_def deb_ok_def cancel_deb deb_reset)
  with True assms(4) show ?thesis by (simp add: route_state_zero_def)
next
  case hard: False
  show ?thesis
  proof (cases "g_emitted_route_state g = 0")
    case True
    with assms(1) have "g_state_zero_started_ms g = 0" by (auto simp: deb_ok_def)
    with True hard assms show ?thesis by (simp add: route_state_zero_def deb_of_def phase_of_def)
  next
    case e: False
    define h where "h = (if p > 0 then rgd_maneuver_map_reset (rgd_update_cache_reset g) else rgd_update_cache_reset g)"
    have h: "g_state_zero_started_ms h = g_state_zero_started_ms g"
      "g_state_zero_deadline_ms h = g_state_zero_deadline_ms g"
      "g_state_zero_from_reroute h = g_state_zero_from_reroute g"
      "g_emitted_route_state h = g_emitted_route_state g" "g_last_route_state h = 0"
      using assms(3) by (simp_all add: h_def deb_reset)
    show ?thesis
    proof (cases "g_state_zero_started_ms g = 0")
      case True
      with hard e assms(4) h have "held" "g' = h\<lparr>g_state_zero_started_ms := now,
          g_state_zero_from_reroute := p = RGD_STATE_REROUTING \<or> g_emitted_route_state g = RGD_STATE_REROUTING,
          g_state_zero_deadline_ms := if p = RGD_STATE_REROUTING \<or> g_emitted_route_state g = RGD_STATE_REROUTING
             then 0 else now + ROUTE_ZERO_NORMAL_GRACE_MS\<rparr>"
        by (simp_all add: route_state_zero_def Let_def h_def deb_reset)
      with True hard e h assms(2) show ?thesis
        by (simp add: deb_of_def phase_of_def deb_ok_def clock_ok_def)
    next
      case False
      with hard e assms(4) h have "held" "g' = h"
        by (simp_all add: route_state_zero_def Let_def h_def deb_reset)
      with False hard e h assms(1) show ?thesis
        by (simp add: deb_of_def phase_of_def deb_ok_def)
    qed
  qed
qed

lemma update_received_refines:
  assumes "deb_ok g" "clock_ok now" "update_received now u g = (held, g')"
  shows "deb_step now (update_input u) (deb_of g) = (deb_of g', if held then Hold else Publish) \<and> deb_ok g'"
proof (cases "has (up_present u) RGD_UPD_ROUTE_STATE")
  case False
  show ?thesis
  proof (cases "rgd_update_has_active_evidence u")
    case True
    with False assms show ?thesis
      by (simp add: update_received_def update_input_def deb_of_def [of g] cancel_deb deb_fields Let_def)
         (auto simp: deb_of_def phase_of_def deb_fields cancel_deb)
  next
    case no: False
    with False assms show ?thesis
      by (auto simp: update_received_def update_input_def deb_fields Let_def deb_of_def phase_of_def)
  qed
next
  case True
  let ?g = "g\<lparr>g_have_update := True, g_last_route_state := up_route_state u\<rparr>"
  show ?thesis
  proof (cases "up_route_state u = 0")
    case zero: True
    with True assms(3) have "route_state_zero now u (g_last_route_state g) ?g = (held, g')"
      by (simp add: update_received_def Let_def)
    from route_state_zero_refines [OF _ assms(2) _ this] assms(1) zero True show ?thesis
      by (simp add: update_input_def deb_of_def [of g] deb_fields)
  next
    case False
    with True assms show ?thesis
      by (simp add: update_received_def update_input_def Let_def)
         (auto simp: deb_of_def phase_of_def deb_ok_def cancel_deb)
  qed
qed

lemma tick_refines:
  assumes "deb_ok g"
  shows "deb_step now In_tick (deb_of g) =
    (if tick_due now g then ((g_last_route_state g, Live 0), End_route) else (deb_of g, Quiet))"
  using assms by (auto simp: tick_due_def deb_ok_def deb_of_def phase_of_def)

section \<open>The steps of the hook\<close>

lemma deb_ctl:
  assumes "ctl g' = ctl g"
  shows "deb_of g' = deb_of g" "deb_ok g' = deb_ok g"
  using assms by (simp_all add: ctl_def deb_of_def deb_ok_def phase_of_def)

text \<open>What an event means to the machine; None is an event that it does not see.\<close>

definition op_input :: "hook_op \<Rightarrow> input option" where
  "op_input op = (case op of
     Op_message raw fr \<Rightarrow>
       if fr_msgid fr = 0x5201 then
         (case rgd_parse_update (ctx_bytes raw fr) of Some u \<Rightarrow> Some (update_input u) | None \<Rightarrow> None)
       else if fr_msgid fr = 0x5202 \<or> fr_msgid fr = 0x5204 then Some In_evidence
       else None
   | Op_tick \<Rightarrow> Some In_tick
   | _ \<Rightarrow> None)"

text \<open>What a reaction means for the bus.\<close>

definition reacts :: "reaction \<Rightarrow> world \<Rightarrow> world \<Rightarrow> bool" where
  "reacts r w w' \<longleftrightarrow> (case r of
     Publish \<Rightarrow> published (w_bus w) (w_rgd w') (w_bus w')
   | Hold \<Rightarrow> w_bus w' = w_bus w
   | Quiet \<Rightarrow> w_bus w' = w_bus w
   | End_route \<Rightarrow> (\<exists>q. short_text route_end_calls 128 (w_bus w) = Some (q, w_bus w')))"

definition follows :: "u64 \<Rightarrow> input \<Rightarrow> world \<Rightarrow> world \<Rightarrow> bool" where
  "follows now i w w' \<longleftrightarrow> deb_ok (w_rgd w') \<and>
     (\<exists>r. deb_step now i (deb_of (w_rgd w)) = (deb_of (w_rgd w'), r) \<and> reacts r w w')"

lemma deb_got: "deb_of (g\<lparr>g_got_520x := x\<rparr>) = deb_of g" "deb_ok (g\<lparr>g_got_520x := x\<rparr>) = deb_ok g"
  by (simp_all add: deb_of_def deb_ok_def phase_of_def)

lemma lazy_done: "w_initialized w \<Longrightarrow> rgd_lazy_init ev w = Some w"
  by (simp add: rgd_lazy_init_def)

lemma evidence_follows:
  assumes w: "w_initialized w" "hook_ok n w" "n < 0xFFFFFE00" and d: "deb_ok (w_rgd w)"
    and p: "\<And>g b. rgd_ok n g \<Longrightarrow> bus_ok b \<Longrightarrow> publishes (n + 20) g b (f g b)"
  shows "\<exists>w'. in_bus f (on_rgd rgd_cancel_pending_zero (rgd_mark_first_response w)) = Some w' \<and>
    hook_ok (n + 20) w' \<and> w_initialized w' \<and> follows now In_evidence w w'"
proof -
  let ?w = "on_rgd rgd_cancel_pending_zero (rgd_mark_first_response w)"
  have g: "rgd_ok n (w_rgd ?w)" "bus_ok (w_bus ?w)" "w_initialized ?w"
    using w(1,2) by (simp_all add: hook_ok_initialized cancel_ok)
  from in_bus_publishes [of "n + 20" ?w f, OF p [OF g(1,2)] g(3)] obtain w' where
    w': "in_bus f ?w = Some w'" "hook_ok (n + 20) w'" "w_initialized w'"
      "published (w_bus w) (w_rgd w') (w_bus w')" "ctl (w_rgd w') = ctl (w_rgd ?w)" by auto
  have "deb_ok (w_rgd w')" "deb_of (w_rgd w') = (g_last_route_state (w_rgd w), Live (g_emitted_route_state (w_rgd w)))"
    using deb_ctl [OF w'(5)] d by (simp_all add: cancel_deb deb_got)
  with w' show ?thesis
    by (auto simp: follows_def reacts_def deb_of_def [of "w_rgd w"] phase_of_def)
qed

lemma message_follows:
  assumes w: "w_initialized w" "hook_ok n w" "n < 0xFFFFFE00" and ev: "env_ok ev" "clock_ok (ev_now ev)"
    and fr: "unat (fr_frame_len fr) \<le> length raw" and d: "deb_ok (w_rgd w)"
    and i: "op_input (Op_message raw fr) = Some i"
  shows "\<exists>w'. rgd_message_handler ev raw fr w = Some w' \<and> hook_ok (n + 20) w' \<and> w_initialized w' \<and>
    follows (ev_now ev) i w w'"
proof -
  note buf = ctx_bytes_ok [OF fr]
  let ?buf = "take (unat (fr_frame_len fr)) raw"
  let ?w1 = "rgd_mark_first_response w"
  note lazy = lazy_done [OF w(1)]
  from i consider "fr_msgid fr = 0x5201" | "fr_msgid fr = 0x5202" "i = In_evidence"
    | "fr_msgid fr = 0x5204" "i = In_evidence"
    by (auto simp: op_input_def split: if_splits)
  then show ?thesis
  proof cases
    case 1
    from rgd_parse_update_wf obtain u where u: "rgd_parse_update (Some ?buf) = Some u" "wf_update u" by blast
    have iu: "i = update_input u" using i 1 u(1) buf by (simp add: op_input_def)
    have g: "rgd_ok n (w_rgd ?w1)" "bus_ok (w_bus w)" "deb_ok (w_rgd ?w1)" "deb_of (w_rgd ?w1) = deb_of (w_rgd w)"
      using w(1,2) d by (simp_all add: hook_ok_initialized deb_got)
    obtain held g' where s: "update_received (ev_now ev) u (w_rgd ?w1) = (held, g')" by (rule prod.exhaust)
    from update_received_refines [OF g(3) ev(2) s] g(4) iu have
      st: "deb_step (ev_now ev) i (deb_of (w_rgd w)) = (deb_of g', if held then Hold else Publish)" "deb_ok g'"
      by simp_all
    from update_received_ok [OF g(1), of "ev_now ev" u] s have g': "rgd_ok n g'" by simp
    let ?w = "?w1\<lparr>w_rgd := g'\<rparr>"
    have h: "rgd_message_handler ev raw fr w =
        (if held then Some ?w else in_bus (write_bus_update_partial ev (w_diag w) u) ?w)"
      using 1 lazy buf u(1) s by (simp add: rgd_message_handler_def Let_def)
    show ?thesis
    proof (cases held)
      case True
      have "hook_ok (n + 20) ?w" using g' g(2) w(1) rgd_ok_mono [OF g'] by (simp add: hook_ok_initialized)
      with True h st w(1) show ?thesis by (simp add: follows_def reacts_def)
    next
      case False
      from in_bus_publishes [of "n + 20" ?w "write_bus_update_partial ev (w_diag w) u"]
        write_bus_update_partial_ok [OF g' w(3) g(2) u(2) ev(1), of "w_diag w"] w(1)
      obtain w' where w': "in_bus (write_bus_update_partial ev (w_diag w) u) ?w = Some w'" "hook_ok (n + 20) w'"
        "w_initialized w'" "published (w_bus w) (w_rgd w') (w_bus w')" "ctl (w_rgd w') = ctl g'"
        by auto
      with False h st deb_ctl [OF w'(5)] show ?thesis by (auto simp: follows_def reacts_def)
    qed
  next
    case 2
    from rgd_parse_maneuver_wf obtain m where m: "rgd_parse_maneuver (Some ?buf) = Some m" "wf_maneuver m" by blast
    from evidence_follows [OF w d, of "write_bus_maneuver_partial ev (w_diag w) m"]
      write_bus_maneuver_partial_ok [OF _ w(3) _ m(2) ev(1)]
    show ?thesis using 2 lazy buf m(1) by (auto simp: rgd_message_handler_def Let_def)
  next
    case 3
    from rgd_parse_lane_guidance_wf obtain l where
      l: "rgd_parse_lane_guidance (Some ?buf) = Some l" "wf_lane_guidance l" by blast
    from evidence_follows [OF w d, of "write_bus_lane_guidance_partial ev (w_diag w) l"]
      write_bus_lane_guidance_partial_ok [OF _ w(3) _ l(2) ev(1)]
    show ?thesis using 3 lazy buf l(1) by (auto simp: rgd_message_handler_def Let_def)
  qed
qed

lemma request_deb:
  assumes "env_ok ev" "hook_ok n w" "deb_ok (w_rgd w)"
  shows "\<exists>r w'. rgd_request_updates ev w = Some (r, w') \<and> hook_ok n w' \<and> w_bus w' = w_bus w \<and>
    w_initialized w' = w_initialized w \<and> deb_of (w_rgd w') = deb_of (w_rgd w) \<and> deb_ok (w_rgd w')"
proof (cases "ev_ready ev")
  case True
  with assms rgd_request_updates_eq [OF assms(1) True, of w] show ?thesis
    by (auto simp: hook_ok_def Let_def deb_of_def phase_of_def deb_ok_def)
next
  case False
  with assms rgd_request_updates_idle [of ev w] show ?thesis by simp
qed

lemma tick_follows:
  assumes "env_ok ev" "hook_ok n w" "deb_ok (w_rgd w)" "w_initialized w"
  shows "\<exists>w'. rgd_periodic_tick ev w = Some w' \<and> hook_ok n w' \<and> w_initialized w' \<and>
    follows (ev_now ev) In_tick w w'"
proof -
  from request_deb [OF assms(1-3)] obtain r w1 where
    1: "rgd_request_updates ev w = Some (r, w1)" "hook_ok n w1" "w_bus w1 = w_bus w" "w_initialized w1"
      "deb_of (w_rgd w1) = deb_of (w_rgd w)" "deb_ok (w_rgd w1)" using assms(4) by auto
  note st = tick_refines [OF 1(6), of "ev_now ev", unfolded 1(5)]
  show ?thesis
  proof (cases "tick_due (ev_now ev) (w_rgd w1)")
    case False
    with 1 st show ?thesis by (simp add: rgd_periodic_tick_def follows_def reacts_def)
  next
    case True
    let ?w = "on_rgd (\<lambda>g. g\<lparr>g_emitted_route_state := 0, g_state_zero_started_ms := 0,
                 g_state_zero_deadline_ms := 0, g_state_zero_from_reroute := False\<rparr>) w1"
    have w: "hook_ok n ?w" using 1(2) by (simp add: hook_ok_def caches_ok_def)
    have "bus_ok (w_bus w)" using 1(2,3) by (simp add: hook_ok_def)
    from short_text_ok [OF this, of 128 route_end_calls] obtain q b where
      b: "short_text route_end_calls 128 (w_bus w) = Some (q, b)" "bus_ok b" by auto
    have e: "ev_clear_alloc ev = alloc_ok" "length (take 128 (ev_scratch ev)) = 128"
      using assms(1) by (simp_all add: env_ok_def)
    have "rgd_periodic_tick ev w = Some (?w\<lparr>w_bus := b\<rparr>)"
      using 1(1,3) True b(1) e(1) short_message_eq [of "take 128 (ev_scratch ev)" route_end_calls ?w] e(2)
      by (simp add: rgd_periodic_tick_def)
    moreover have "deb_of (w_rgd (?w\<lparr>w_bus := b\<rparr>)) = (g_last_route_state (w_rgd w1), Live 0)"
      "deb_ok (w_rgd (?w\<lparr>w_bus := b\<rparr>))"
      by (simp_all add: deb_of_def phase_of_def deb_ok_def)
    ultimately show ?thesis
      using True st hook_ok_bus [OF w b(2)] b(1) 1(4) by (auto simp: follows_def reacts_def)
  qed
qed

section \<open>Runs\<close>

text \<open>Events without evidence of an active route and without a hard clear.\<close>

definition silent_input :: "input \<Rightarrow> bool" where
  "silent_input i \<longleftrightarrow> (case i of In_state s hard \<Rightarrow> s = 0 \<and> \<not> hard | In_evidence \<Rightarrow> False
     | In_other hard \<Rightarrow> \<not> hard | In_tick \<Rightarrow> True)"

definition silent_op :: "hook_op \<Rightarrow> bool" where
  "silent_op op \<longleftrightarrow> (case op_input op of None \<Rightarrow> False | Some i \<Rightarrow> silent_input i)"

lemma silent_step:
  assumes "silent_input i" "i = In_tick \<longrightarrow> (case d of None \<Rightarrow> True | Some t \<Rightarrow> now < t)"
  shows "\<exists>prev' r. deb_step now i (prev, Held e d) = ((prev', Held e d), r) \<and> r \<in> {Hold, Quiet}"
  using assms by (cases i) (auto simp: silent_input_def split: option.splits)

lemma input_op_cases:
  assumes "op_input op = Some i"
  obtains (message) raw fr where "op = Op_message raw fr" "i \<noteq> In_tick" | (tick) "op = Op_tick" "i = In_tick"
  using assms by (cases op) (auto simp: op_input_def update_input_def split: if_splits option.splits)

text \<open>
  While a zero is held, events without evidence leave the bus alone and the zero held: until the
  deadline, or for as long as they keep coming when the zero came out of a reroute.
\<close>

definition before :: "u64 option \<Rightarrow> env \<Rightarrow> bool" where
  "before d ev \<longleftrightarrow> clock_ok (ev_now ev) \<and> (case d of None \<Rightarrow> True | Some t \<Rightarrow> ev_now ev < t)"

lemma held_step:
  assumes w: "w_initialized w" "hook_ok n w" "n < 0xFFFFFE00" and d: "deb_ok (w_rgd w)" "phase_of (w_rgd w) = Held e t"
    and ev: "env_ok ev" "before t ev" and op: "op_ok op" "silent_op op"
  shows "\<exists>w'. hook_step ev op w = Some w' \<and> hook_ok (n + 20) w' \<and> w_initialized w' \<and> deb_ok (w_rgd w') \<and>
    phase_of (w_rgd w') = Held e t \<and> w_bus w' = w_bus w"
proof -
  from op(2) obtain i where i: "op_input op = Some i" "silent_input i"
    by (auto simp: silent_op_def split: option.splits)
  have now: "clock_ok (ev_now ev)" "i = In_tick \<longrightarrow> (case t of None \<Rightarrow> True | Some s \<Rightarrow> ev_now ev < s)"
    using ev(2) by (simp_all add: before_def)
  have quiet: "deb_ok (w_rgd w') \<and> phase_of (w_rgd w') = Held e t \<and> w_bus w' = w_bus w"
    if "follows (ev_now ev) i w w'" for w'
  proof -
    from silent_step [OF i(2) now(2), of "g_last_route_state (w_rgd w)" e] d(2) that show ?thesis
      by (auto simp: follows_def deb_of_def reacts_def)
  qed
  from i(1) show ?thesis
  proof (cases rule: input_op_cases)
    case (message raw fr)
    with message_follows [OF w ev(1) now(1) _ d(1), of fr raw i] op(1) i(1) quiet show ?thesis
      by (fastforce simp: op_ok_def)
  next
    case tick
    from tick_follows [OF ev(1) w(2) d(1) w(1)] quiet hook_ok_mono [of n _ "n + 20"] tick show ?thesis
      by fastforce
  qed
qed

lemma held_run:
  assumes "w_initialized w" "hook_ok n w" "n + 20 * length ops < 0xFFFFFE00"
    and "deb_ok (w_rgd w)" "phase_of (w_rgd w) = Held e t"
    and "ops_ok ops" "\<forall>(ev, op) \<in> set ops. before t ev \<and> silent_op op"
  shows "\<exists>w'. hook_run ops w = Some w' \<and> deb_ok (w_rgd w') \<and> phase_of (w_rgd w') = Held e t \<and> w_bus w' = w_bus w"
  using assms
proof (induction ops arbitrary: n w)
  case Nil
  then show ?case by simp
next
  case (Cons a ops)
  obtain ev op where a: "a = (ev, op)" by (rule prod.exhaust)
  have op: "env_ok ev" "op_ok op" "before t ev" "silent_op op" "n < 0xFFFFFE00"
    using Cons.prems(3,6,7) a by (auto simp: ops_ok_def)
  from held_step [OF Cons.prems(1,2) op(5) Cons.prems(4,5) op(1,3,2,4)] obtain w1 where
    1: "hook_step ev op w = Some w1" "hook_ok (n + 20) w1" "w_initialized w1" "deb_ok (w_rgd w1)"
      "phase_of (w_rgd w1) = Held e t" "w_bus w1 = w_bus w" by blast
  have "n + 20 + 20 * length ops < 0xFFFFFE00" "ops_ok ops"
      "\<forall>(ev, op) \<in> set ops. before t ev \<and> silent_op op"
    using Cons.prems(3,6,7) by (simp_all add: ops_ok_def)
  from Cons.IH [OF 1(3,2) this(1) 1(4,5) this(2,3)] 1 a show ?case by simp
qed

section \<open>The deadline\<close>

definition route_end_text :: bytes where
  "route_end_text = message_text RG_NAME route_end_calls"

lemma route_end_calls_ok: "list_all call_ok route_end_calls"
  by (simp add: route_end_calls_def)

text \<open>What the car reads from it.\<close>

lemma parse_route_end:
  "parse_text route_end_text =
     [(tkey ''route_state'', ascii ''0''), (tkey ''maneuver_count'', ascii ''0'')]"
proof -
  have "parse_text route_end_text = concat (map call_record route_end_calls)"
    unfolding route_end_text_def by (rule parse_snapshot [OF route_end_calls_ok])
  moreover have "dec_int 0 = ascii ''0''" by (simp add: dec_int_def dec_nat.simps ascii_def)
  ultimately show ?thesis by (simp add: route_end_calls_def call_record_def)
qed

lemma deadline_tick:
  assumes "env_ok ev" "hook_ok n w" "deb_ok (w_rgd w)" "w_initialized w"
    and "phase_of (w_rgd w) = Held e (Some t)" "t \<le> ev_now ev"
  shows "\<exists>w' q. rgd_periodic_tick ev w = Some w' \<and> hook_ok n w' \<and> w_initialized w' \<and> deb_ok (w_rgd w') \<and>
    phase_of (w_rgd w') = Live 0 \<and> short_text route_end_calls 128 (w_bus w) = Some (q, w_bus w')"
  using tick_follows [OF assms(1-4)] assms(5,6)
  by (auto simp: follows_def reacts_def deb_of_def)

section \<open>The tick is not atomic\<close>

text \<open>
  rgd_periodic_tick claims the emission under the debounce lock and sends the message after it
  has released the lock. Run in one go, the two parts are the tick.
\<close>

definition tick_claim :: "env \<Rightarrow> world \<Rightarrow> (bool \<times> world) option" where
  "tick_claim ev w = do {
     (r, w) \<leftarrow> rgd_request_updates ev w;
     if \<not> tick_due (ev_now ev) (w_rgd w) then Some (False, w)
     else Some (True, on_rgd (\<lambda>g. g\<lparr>g_emitted_route_state := 0, g_state_zero_started_ms := 0,
                 g_state_zero_deadline_ms := 0, g_state_zero_from_reroute := False\<rparr>) w) }"

definition tick_emit :: "env \<Rightarrow> world \<Rightarrow> world option" where
  "tick_emit ev w = short_message (ev_clear_alloc ev) (take 128 (ev_scratch ev)) route_end_calls w"

lemma tick_split:
  "rgd_periodic_tick ev w =
     do { (due, w) \<leftarrow> tick_claim ev w; if due then tick_emit ev w else Some w }"
  by (auto simp: rgd_periodic_tick_def tick_claim_def tick_emit_def bind_eq_Some_conv
      split: prod.splits bind_splits)

lemma tick_claim_due:
  assumes "env_ok ev" "hook_ok n w" "deb_ok (w_rgd w)" "w_initialized w"
    and "phase_of (w_rgd w) = Held e (Some t)" "t \<le> ev_now ev"
  shows "\<exists>w1. tick_claim ev w = Some (True, w1) \<and> hook_ok n w1 \<and> w_initialized w1 \<and> deb_ok (w_rgd w1) \<and>
    phase_of (w_rgd w1) = Live 0 \<and> w_bus w1 = w_bus w"
proof -
  from request_deb [OF assms(1-3)] obtain r w1 where
    1: "rgd_request_updates ev w = Some (r, w1)" "hook_ok n w1" "w_bus w1 = w_bus w" "w_initialized w1"
      "deb_of (w_rgd w1) = deb_of (w_rgd w)" "deb_ok (w_rgd w1)" using assms(4) by auto
  have "tick_due (ev_now ev) (w_rgd w1)"
    using tick_refines [OF 1(6), of "ev_now ev"] assms(5,6) unfolding 1(5)
    by (auto simp: deb_of_def split: if_splits)
  with 1 show ?thesis
    by (simp add: tick_claim_def hook_ok_def caches_ok_def deb_ok_def phase_of_def)
qed

text \<open>
  A new route that starts between the two parts is announced first and ended after that: the
  last message says that there is no route, while the hook takes its state for the announced one.
\<close>

lemma claim_message_emit:
  assumes ev: "env_ok ev1" "env_ok ev2" "env_ok ev3" "clock_ok (ev_now ev2)"
    and w: "w_initialized w" "hook_ok n w" "n < 0xFFFFFE00" "deb_ok (w_rgd w)"
    and due: "phase_of (w_rgd w) = Held e (Some t)" "t \<le> ev_now ev1"
    and fr: "unat (fr_frame_len fr) \<le> length raw" "op_input (Op_message raw fr) = Some (In_state s hard)" "s \<noteq> 0"
  shows "\<exists>w1 w2 w3 q. tick_claim ev1 w = Some (True, w1) \<and> rgd_message_handler ev2 raw fr w1 = Some w2 \<and>
    tick_emit ev3 w2 = Some w3 \<and> short_text route_end_calls 128 (w_bus w2) = Some (q, w_bus w3) \<and>
    phase_of (w_rgd w3) = Live s"
proof -
  from tick_claim_due [OF ev(1) w(2,4,1) due] obtain w1 where
    1: "tick_claim ev1 w = Some (True, w1)" "hook_ok n w1" "w_initialized w1" "deb_ok (w_rgd w1)"
      "phase_of (w_rgd w1) = Live 0" by blast
  from message_follows [OF 1(3,2) w(3) ev(2,4) fr(1) 1(4) fr(2)] fr(3) obtain w2 where
    2: "rgd_message_handler ev2 raw fr w1 = Some w2" "hook_ok (n + 20) w2" "phase_of (w_rgd w2) = Live s"
    by (auto simp: follows_def deb_of_def)
  have "bus_ok (w_bus w2)" using 2(2) by (simp add: hook_ok_def)
  from short_text_ok [OF this, of 128 route_end_calls] obtain q b where
    b: "short_text route_end_calls 128 (w_bus w2) = Some (q, b)" by auto
  have e: "ev_clear_alloc ev3 = alloc_ok" "length (take 128 (ev_scratch ev3)) = 128"
    using ev(3) by (simp_all add: env_ok_def)
  have "tick_emit ev3 w2 = Some (w2\<lparr>w_bus := b\<rparr>)"
    using b e(1) short_message_eq [of "take 128 (ev_scratch ev3)" route_end_calls w2] e(2)
    by (simp add: tick_emit_def)
  with 1(1) 2 b show ?thesis by force
qed

section \<open>A hook that holds a zero\<close>

definition held_world :: "u64 option \<Rightarrow> world" where
  "held_world t = (fresh_world zero_bus)\<lparr>w_initialized := True,
     w_rgd := (rgd_maneuver_map_reset zero_rgd)\<lparr>g_emitted_route_state := 1, g_state_zero_started_ms := 1000,
       g_state_zero_from_reroute := (t = None),
       g_state_zero_deadline_ms := (case t of None \<Rightarrow> 0 | Some d \<Rightarrow> d)\<rparr>\<rparr>"

lemma held_world_ok:
  assumes "t \<noteq> Some 0"
  shows "w_initialized (held_world t)" "hook_ok 0 (held_world t)" "deb_ok (w_rgd (held_world t))"
    "phase_of (w_rgd (held_world t)) = Held 1 t" "w_bus (held_world t) = zero_bus"
proof -
  have "rgd_ok 0 (rgd_maneuver_map_reset zero_rgd)"
    by (rule reset_ok) (simp_all add: zero_rgd_caches, simp add: zero_rgd_def wf_zero_update)
  then show "hook_ok 0 (held_world t)"
    by (simp add: hook_ok_initialized held_world_def fresh_world_def zero_bus_ok)
qed (use assms in \<open>auto simp: held_world_def fresh_world_def deb_ok_def phase_of_def split: option.split\<close>)

text \<open>Two updates: a route state, and nothing else.\<close>

definition state_frame :: "u8 \<Rightarrow> bytes" where
  "state_frame s = frame_bytes 0x5201 (tlv_encode (1, [s]))"

end
