(* ===== verification/Rgd_Identify.thy ===== *)
theory Rgd_Identify
  imports Rgd_Hook_Props
begin

text \<open>
  native/routeguidance/rgd_hook.c: the identification patcher. It puts the route-guidance
  component into the identification message that the stock stack is about to send, in the place
  of one that is there, or after the last parameter, and grows the stock buffer when it has to.
  The buffer is the block at the base of the NmeArray of the context; its bytes are the list mem,
  whose length is what is allocated. A result None is an access outside the block.
\<close>

datatype msg_direction = MSG_DIR_INCOMING | MSG_DIR_OUTGOING

text \<open>The context of the framework; its session_active is the one of the world.\<close>

record hook_context =
  cx_direction :: msg_direction
  cx_msgid :: u16
  cx_raw_buf :: "bytes option"
  cx_identify_patched :: bool
  cx_component_id :: u16
  cx_component_valid :: bool

definition zero_context :: hook_context where
  "zero_context = \<lparr>cx_direction = MSG_DIR_INCOMING, cx_msgid = 0, cx_raw_buf = None,
     cx_identify_patched = False, cx_component_id = 0, cx_component_valid = False\<rparr>"

text \<open>The NmeArray: whether base is set, len and cap.\<close>

record nme_array =
  na_base :: bool
  na_len :: u32
  na_cap :: u32

text \<open>What the allocator answers: to realloc, to malloc, and the bytes of the new memory.\<close>

record heap_env =
  he_realloc :: bool
  he_malloc :: bool
  he_fresh :: bytes

abbreviation RGD_IDENTIFY_MAX :: nat where "RGD_IDENTIFY_MAX \<equiv> 8192"

text \<open>The inner None is the answer NULL; otherwise the array, the block and its capacity.\<close>

definition rgd_resize_identify_buffer ::
  "heap_env \<Rightarrow> nme_array option \<Rightarrow> bytes \<Rightarrow> nat \<Rightarrow> nat \<Rightarrow> (nme_array option \<times> bytes \<times> nat) option option" where
  "rgd_resize_identify_buffer he priv mem len new_len = (case priv of
     None \<Rightarrow> Some None
   | Some na \<Rightarrow>
       let cap = unat (na_cap na) in
       if \<not> na_base na \<or> cap = 0 \<or> cap > RGD_IDENTIFY_MAX \<or> na_len na > na_cap na \<or> new_len > RGD_IDENTIFY_MAX
       then Some None
       else if cap \<ge> new_len then Some (Some (priv, mem, cap))
       else
         let alloc = new_len + 64;
             keep = (if he_realloc he then min (length mem) alloc else len)
         in if \<not> he_realloc he \<and> \<not> he_malloc he then Some None
         else if \<not> he_realloc he \<and> len > length mem then None
         else Some (Some (Some (na\<lparr>na_cap := of_nat alloc\<rparr>),
                          take keep mem @ take (alloc - keep) (he_fresh he), alloc)))"

text \<open>memmove and memcpy inside the block.\<close>

definition mem_store :: "bytes \<Rightarrow> nat \<Rightarrow> bytes \<Rightarrow> bytes option" where
  "mem_store m off bs = (if off + length bs \<le> length m then Some (mem_put m off bs) else None)"

definition mem_load :: "bytes \<Rightarrow> nat \<Rightarrow> nat \<Rightarrow> bytes option" where
  "mem_load m off n = (if off + n \<le> length m then Some (slice m off n) else None)"

text \<open>The component id that the patched message will carry.\<close>

definition identify_id :: "bytes \<Rightarrow> nat \<Rightarrow> u16 \<Rightarrow> u16 \<Rightarrow> u16 option" where
  "identify_id mem existing_off existing_len component_id =
     (if existing_len = 0 then Some component_id
      else do {
        tlv \<leftarrow> mem_load mem existing_off (unat existing_len);
        comp_id \<leftarrow> rgd_extract_component_id (Some tlv);
        Some (if comp_id \<noteq> 0 then comp_id else component_id) })"

text \<open>The bytes after the existing component move, then the new one is copied in.\<close>

definition identify_write :: "bytes \<Rightarrow> nat \<Rightarrow> nat \<Rightarrow> u16 \<Rightarrow> bytes \<Rightarrow> bytes option" where
  "identify_write mem len existing_off existing_len new_tlv =
     (if existing_len = 0 then mem_store mem len new_tlv
      else do {
        let after_off = existing_off + unat existing_len;
        let after_len = len - after_off;
        mem \<leftarrow> (if after_len > 0 then do {
                   rest \<leftarrow> mem_load mem after_off after_len;
                   mem_store mem (existing_off + length new_tlv) rest }
                 else Some mem);
        mem_store mem existing_off new_tlv })"

text \<open>The result is the new length, the array, the block, the context and the world.\<close>

definition rgd_identify_patcher ::
  "env \<Rightarrow> heap_env \<Rightarrow> bytes option \<Rightarrow> nat \<Rightarrow> nat \<Rightarrow> nme_array option \<Rightarrow> hook_context \<Rightarrow> world \<Rightarrow>
   (nat \<times> nme_array option \<times> bytes option \<times> hook_context \<times> world) option" where
  "rgd_identify_patcher ev he buf len max_len priv cx w = do {
     w \<leftarrow> rgd_lazy_init ev w;
     case buf of None \<Rightarrow> Some (len, priv, buf, cx, w)
     | Some mem \<Rightarrow>
         if len < 6 then Some (len, priv, buf, cx, w)
         else do {
           payload \<leftarrow> mem_load mem 6 (len - 6);
           (off, existing_len) \<leftarrow> iap2_find_tlv_offset (Some payload) IDENT_TLV_ROUTE_GUIDANCE_COMPONENT 0;
           let existing_off = off + 6;
           cid \<leftarrow> identify_id mem existing_off existing_len (g_component_id (w_rgd w));
           let w = on_rgd (\<lambda>g. g\<lparr>g_component_id := cid, g_component_valid := True\<rparr>) w;
           let (n, tlv) = rgd_build_component_tlv (Some (take 256 (ev_scratch ev))) cid;
           if n = 0 then Some (len, priv, buf, cx, w)
           else do {
             new_tlv \<leftarrow> map_option (take n) tlv;
             let new_len = (if existing_len > 0 then len - unat existing_len + n else len + n);
             grown \<leftarrow> (if new_len > max_len then rgd_resize_identify_buffer he priv mem len new_len
                        else Some (Some (priv, mem, max_len)));
             case grown of None \<Rightarrow> Some (len, priv, buf, cx, w)
             | Some (priv, mem, max_len) \<Rightarrow> do {
                 mem \<leftarrow> identify_write mem len existing_off existing_len new_tlv;
                 mem \<leftarrow> mem_store mem 2 (write_be16 (of_nat new_len));
                 Some (new_len, map_option (\<lambda>na. na\<lparr>na_len := of_nat new_len\<rparr>) priv, Some mem,
                       cx\<lparr>cx_component_id := cid, cx_component_valid := True, cx_identify_patched := True\<rparr>, w) } } } }"


section \<open>What the phone is told\<close>

definition enc :: "(u16 \<times> bytes) list \<Rightarrow> bytes" where
  "enc ts = concat (map tlv_encode ts)"

lemma enc_simps [simp]: "enc [] = []" "enc (t # ts) = tlv_encode t @ enc ts" "enc (ts @ us) = enc ts @ enc us"
  by (simp_all add: enc_def)

text \<open>The first parameter with the identifier is replaced; without one the new one is the last.\<close>

fun put_tlv :: "u16 \<times> bytes \<Rightarrow> (u16 \<times> bytes) list \<Rightarrow> (u16 \<times> bytes) list" where
  "put_tlv t [] = [t]"
| "put_tlv t (s # ts) = (if fst s = fst t then t # ts else s # put_tlv t ts)"

definition offered_id :: "u16 \<Rightarrow> (u16 \<times> bytes) list \<Rightarrow> u16" where
  "offered_id d ts = (case map_of ts IDENT_TLV_ROUTE_GUIDANCE_COMPONENT of None \<Rightarrow> d
     | Some v \<Rightarrow> let c = (if length v < 6 then 0 else component_id_of (tlv_split v)) in if c \<noteq> 0 then c else d)"

lemma put_tlv_new: "i \<notin> fst ` set ts \<Longrightarrow> put_tlv (i, v) ts = ts @ [(i, v)]"
  by (induction ts) auto

lemma put_tlv_old: "i \<notin> fst ` set ts \<Longrightarrow> put_tlv (i, v) (ts @ (i, w) # us) = ts @ (i, v) # us"
  by (induction ts) auto

lemma map_of_old: "i \<notin> fst ` set ts \<Longrightarrow> map_of (ts @ (i, w) # us) i = Some w"
  by (induction ts) auto

lemma map_of_new: "i \<notin> fst ` set ts \<Longrightarrow> map_of ts i = None"
  by (simp add: map_of_eq_None_iff)

lemma tlv_find_None: "i \<notin> fst ` set ts \<Longrightarrow> tlv_find i ts off = None"
  by (induction i ts off rule: tlv_find.induct) auto

lemma tlv_find_first: "i \<notin> fst ` set ts \<Longrightarrow> tlv_find i (ts @ (i, v) # us) off = Some (off + length (enc ts), v)"
  by (induction ts arbitrary: off) auto

lemma split_at_first:
  obtains (new) "i \<notin> fst ` set ts"
  | (old) us v vs where "ts = us @ (i, v) # vs" "i \<notin> fst ` set us"
proof (cases "i \<in> fst ` set ts")
  case True
  then have "\<exists>x \<in> set ts. fst x = i" by auto
  from split_list_first_prop [OF this] obtain us t vs where
    "ts = us @ t # vs" "fst t = i" "\<forall>x \<in> set us. fst x \<noteq> i" by blast
  then show ?thesis by (intro old [of us "snd t" vs]) auto
qed (rule new)

lemma find_tlv_offset_enc:
  assumes "list_all tlv_ok ts"
  shows "i \<notin> fst ` set ts \<Longrightarrow> iap2_find_tlv_offset (Some (enc ts)) i 0 = Some (0, 0)"
    and "ts = us @ (i, v) # vs \<Longrightarrow> i \<notin> fst ` set us \<Longrightarrow>
      iap2_find_tlv_offset (Some (enc ts)) i 0 = Some (length (enc us), of_nat (4 + length v))"
proof -
  have sp: "tlv_split (enc ts) = ts" unfolding enc_def by (rule tlv_split_encode [OF assms])
  show "i \<notin> fst ` set ts \<Longrightarrow> iap2_find_tlv_offset (Some (enc ts)) i 0 = Some (0, 0)"
    using sp find_tlv_loop_eq [of "enc ts" 0 i] by (simp add: iap2_find_tlv_offset_def tlv_find_None)
  show "iap2_find_tlv_offset (Some (enc ts)) i 0 = Some (length (enc us), of_nat (4 + length v))"
    if "ts = us @ (i, v) # vs" "i \<notin> fst ` set us"
  proof -
    have "tlv_find i ts 0 = Some (length (enc us), v)"
      using tlv_find_first [OF that(2), of v vs 0] that(1) by simp
    moreover have "\<not> length (enc ts) < 4" using that(1) by simp
    ultimately show ?thesis
      using sp find_tlv_loop_eq [of "enc ts" 0 i] by (simp add: iap2_find_tlv_offset_def)
  qed
qed

text \<open>Replacing the bytes b between a and c in a block that has room.\<close>

lemma replace_bytes:
  assumes "length a + length t + length c \<le> length (a @ b @ c @ r)" "length (b :: bytes) > 0"
    and "length b < 65536"
  shows "\<exists>m. identify_write (a @ b @ c @ r) (length (a @ b @ c)) (length a) (of_nat (length b)) t = Some m \<and>
    take (length (a @ t @ c)) m = a @ t @ c \<and> length m = length (a @ b @ c @ r)"
proof -
  let ?m = "a @ b @ c @ r"
  have b: "(of_nat (length b) :: u16) \<noteq> 0" "unat (of_nat (length b) :: u16) = length b"
    using assms(2,3) unat_of_nat_u16 [of "length b"] by auto
  show ?thesis
  proof (cases "c = []")
    case True
    have "mem_store ?m (length a) t = Some (a @ t @ drop (length a + length t) ?m)"
      using assms(1) True by (simp add: mem_store_def mem_put_def)
    then show ?thesis using b assms(1) True by (simp add: identify_write_def Let_def)
  next
    case False
    let ?m1 = "take (length a + length t) ?m @ c @ drop (length a + length t + length c) ?m"
    have load: "mem_load ?m (length a + length b) (length c) = Some c"
      by (simp add: mem_load_def slice_def)
    have s1: "mem_store ?m (length a + length t) c = Some ?m1"
      using assms(1) by (simp add: mem_store_def mem_put_def)
    have l1: "length ?m1 = length ?m" using assms(1) by simp
    have t1: "take (length a) ?m1 = a" "drop (length a + length t) ?m1 = c @ drop (length a + length t + length c) ?m"
      using assms(1) by simp_all
    have s2: "mem_store ?m1 (length a) t = Some (a @ t @ c @ drop (length a + length t + length c) ?m)"
      using assms(1) t1 l1 by (simp only: mem_store_def mem_put_def) simp
    show ?thesis
      using b False load s1 s2 assms(1) by (simp add: identify_write_def Let_def)
  qed
qed

lemma append_bytes:
  assumes "length a + length t \<le> length (a @ r)"
  shows "\<exists>m. identify_write (a @ r) (length a) off 0 t = Some m \<and> take (length (a @ t)) m = a @ t \<and>
    length m = length (a @ r)"
  using assms by (simp add: identify_write_def mem_store_def mem_put_def)

text \<open>
  The patched block: the parameters of the message with the component put in. first six bytes are
  the header, whose length field is rewritten.
\<close>

lemma write_component:
  assumes ok: "list_all tlv_ok ts" and hdr: "length h = 6" and id: "fst t = i" and t: "tlv_ok t"
    and off: "iap2_find_tlv_offset (Some (enc ts)) i 0 = Some (off, n)"
    and room: "6 + length (enc (put_tlv t ts)) \<le> length (h @ enc ts @ r)"
  shows "\<exists>m. identify_write (h @ enc ts @ r) (6 + length (enc ts)) (off + 6) n (tlv_encode t) = Some m \<and>
    take (6 + length (enc (put_tlv t ts))) m = h @ enc (put_tlv t ts) \<and> length m = length (h @ enc ts @ r)"
proof (cases rule: split_at_first [of i ts])
  case new
  then have p: "put_tlv t ts = ts @ [t]" "off = 0 \<and> n = 0"
    using put_tlv_new [of i ts "snd t"] find_tlv_offset_enc(1) [OF ok new] off id by auto
  from append_bytes [of "h @ enc ts" "tlv_encode t" r "off + 6"] room p hdr show ?thesis by simp
next
  case (old us v vs)
  then have p: "put_tlv t ts = us @ t # vs" "off = length (enc us)" "n = of_nat (4 + length v)"
    using put_tlv_old [of i us "snd t" v vs] find_tlv_offset_enc(2) [OF ok old] off id by auto
  have v: "length v \<le> 65531" using ok old(1) by (simp add: tlv_ok_def)
  from replace_bytes [of "h @ enc us" "tlv_encode t" "enc vs" "tlv_encode (i, v)" r] room p(1) hdr v
  show ?thesis by (simp add: old(1) p ac_simps)
qed

lemma set_length:
  assumes "take (6 + length q) m = [IAP2_SYNC1, IAP2_SYNC2] @ write_be16 l @ write_be16 msgid @ q"
  shows "\<exists>m'. mem_store m 2 (write_be16 (of_nat (6 + length q))) = Some m' \<and>
    take (6 + length q) m' = frame_bytes msgid q \<and> length m' = length m"
proof -
  obtain r where m: "m = [IAP2_SYNC1, IAP2_SYNC2] @ write_be16 l @ write_be16 msgid @ q @ r"
    using append_take_drop_id [of "6 + length q" m] assms by (metis append.assoc)
  have "mem_store m 2 (write_be16 (of_nat (6 + length q))) = Some (frame_bytes msgid q @ r)"
    unfolding m by (simp add: mem_store_def mem_put_def frame_bytes_def del: of_nat_add)
  moreover have "length m = 6 + length q + length r" unfolding m by simp
  ultimately show ?thesis by simp
qed

lemma component_tlv_ok: "tlv_ok (component_tlv cid)" "fst (component_tlv cid) = IDENT_TLV_ROUTE_GUIDANCE_COMPONENT"
  "length (tlv_encode (component_tlv cid)) = 86"
  by (simp_all add: tlv_ok_def length_component_tlv) (simp add: component_tlv_def)

lemma length_put_tlv:
  assumes "list_all tlv_ok ts" "iap2_find_tlv_offset (Some (enc ts)) (fst t) 0 = Some (off, n)"
  shows "length (enc (put_tlv t ts)) + unat n = length (enc ts) + length (tlv_encode t) \<and> unat n \<le> length (enc ts)"
proof (cases rule: split_at_first [of "fst t" ts])
  case new
  with put_tlv_new [OF new, of "snd t"] find_tlv_offset_enc(1) [OF assms(1) new] assms(2) show ?thesis by simp
next
  case (old us v vs)
  then have "length v \<le> 65531" using assms(1) by (simp add: tlv_ok_def)
  then have "unat (of_nat (4 + length v) :: u16) = 4 + length v" by (intro unat_of_nat_u16) simp
  with old put_tlv_old [OF old(2), of "snd t" v vs] find_tlv_offset_enc(2) [OF assms(1) old] assms(2)
  show ?thesis by (simp del: of_nat_add)
qed

lemma identify_id_enc:
  assumes ok: "list_all tlv_ok ts" and hdr: "length h = 6"
    and off: "iap2_find_tlv_offset (Some (enc ts)) IDENT_TLV_ROUTE_GUIDANCE_COMPONENT 0 = Some (off, n)"
  shows "identify_id (h @ enc ts @ r) (off + 6) n d = Some (offered_id d ts)"
proof (cases rule: split_at_first [of IDENT_TLV_ROUTE_GUIDANCE_COMPONENT ts])
  case new
  then show ?thesis
    using find_tlv_offset_enc(1) [OF ok new] off by (simp add: identify_id_def offered_id_def map_of_new)
next
  case (old us v vs)
  let ?t = "tlv_encode (IDENT_TLV_ROUTE_GUIDANCE_COMPONENT, v)"
  have l: "length v \<le> 65531" using ok old(1) by (simp add: tlv_ok_def)
  then have n: "n \<noteq> 0" "unat n = length ?t" "off = length (enc us)"
    using find_tlv_offset_enc(2) [OF ok old] off unat_of_nat_u16 [of "4 + length v"] by (auto simp del: of_nat_add)
  have "mem_load (h @ enc ts @ r) (off + 6) (unat n) = Some ?t"
    unfolding n old(1) using hdr by (simp add: mem_load_def slice_def)
  moreover have "drop 4 ?t = v" by (simp add: tlv_encode_def write_be16_def)
  ultimately show ?thesis
    using n(1) old(1) map_of_old [OF old(2), of v vs]
    by (simp add: identify_id_def offered_id_def rgd_extract_component_id_eq Let_def)
qed

text \<open>
  The message that goes out. It fits the buffer, or the stock array passes the check and the
  allocator gives memory; the block then holds the capacity that the array promises.
\<close>

definition can_hold :: "heap_env \<Rightarrow> nme_array option \<Rightarrow> bytes \<Rightarrow> nat \<Rightarrow> nat \<Rightarrow> nat \<Rightarrow> bool" where
  "can_hold he priv mem len max_len need \<longleftrightarrow> len \<le> max_len \<and> max_len \<le> length mem \<and>
     (max_len < need \<longrightarrow> (\<exists>na. priv = Some na \<and> na_base na \<and> 0 < na_cap na \<and> unat (na_cap na) \<le> 8192 \<and>
        na_len na \<le> na_cap na \<and> unat (na_cap na) \<le> length mem \<and> need \<le> 8192 \<and>
        (he_realloc he \<or> he_malloc he) \<and> 8256 \<le> length (he_fresh he)))"

lemma resize_ok:
  assumes "can_hold he priv mem len max_len need" "max_len < need"
  shows "\<exists>priv' mem' cap. rgd_resize_identify_buffer he priv mem len need = Some (Some (priv', mem', cap)) \<and>
    take len mem' = take len mem \<and> need \<le> length mem' \<and> (priv' = None \<longleftrightarrow> priv = None)"
proof -
  from assms obtain na where na: "priv = Some na" "na_base na" "unat (na_cap na) \<noteq> 0" "unat (na_cap na) \<le> 8192"
    "na_len na \<le> na_cap na" "unat (na_cap na) \<le> length mem" "need \<le> 8192" "he_realloc he \<or> he_malloc he"
    "8256 \<le> length (he_fresh he)" "len \<le> length mem" "len \<le> need"
    by (auto simp: can_hold_def unat_gt_0 word_gt_0)
  show ?thesis
  proof (cases "need \<le> unat (na_cap na)")
    case True
    with na show ?thesis by (simp add: rgd_resize_identify_buffer_def Let_def not_less)
  next
    case False
    define keep where "keep = (if he_realloc he then min (length mem) (need + 64) else len)"
    have k: "len \<le> keep" "keep \<le> length mem" "keep \<le> need + 64" using na(10,11) by (auto simp: keep_def)
    have "rgd_resize_identify_buffer he priv mem len need =
        Some (Some (Some (na\<lparr>na_cap := of_nat (need + 64)\<rparr>), take keep mem @ take (need + 64 - keep) (he_fresh he), need + 64))"
      using na False by (auto simp: rgd_resize_identify_buffer_def Let_def keep_def not_less)
    moreover have "take len (take keep mem @ take (need + 64 - keep) (he_fresh he)) = take len mem"
      using k by (simp add: min_def)
    moreover have "need \<le> length (take keep mem @ take (need + 64 - keep) (he_fresh he))" using k na(7,9) by simp
    ultimately show ?thesis using na(1) by blast
  qed
qed

text \<open>What the patcher does on an initialized hook.\<close>

lemma identify_patches:
  assumes w: "w_initialized w" and ev: "env_ok ev"
    and msg: "list_all tlv_ok ts" "len = 6 + length (enc ts)" "take len mem = frame_bytes msgid (enc ts)"
    and cid: "cid = offered_id (g_component_id (w_rgd w)) ts"
    and out: "q = enc (put_tlv (component_tlv cid) ts)" "can_hold he priv mem len max_len (6 + length q)"
  shows "\<exists>priv' mem'. rgd_identify_patcher ev he (Some mem) len max_len priv cx w =
      Some (6 + length q, priv', Some mem',
        cx\<lparr>cx_component_id := cid, cx_component_valid := True, cx_identify_patched := True\<rparr>,
        on_rgd (\<lambda>g. g\<lparr>g_component_id := cid, g_component_valid := True\<rparr>) w) \<and>
    take (6 + length q) mem' = frame_bytes msgid q"
proof -
  let ?id = IDENT_TLV_ROUTE_GUIDANCE_COMPONENT
  let ?h = "[IAP2_SYNC1, IAP2_SYNC2] @ write_be16 (of_nat (6 + length (enc ts))) @ write_be16 msgid"
  have h: "length ?h = 6" by (simp add: write_be16_def)
  note t = component_tlv_ok [of cid]
  obtain off n where off: "iap2_find_tlv_offset (Some (enc ts)) ?id 0 = Some (off, n)"
  proof (cases rule: split_at_first [of ?id ts])
    case new
    from find_tlv_offset_enc(1) [OF msg(1) new] show ?thesis by (rule that)
  next
    case (old us v vs)
    from find_tlv_offset_enc(2) [OF msg(1) old] show ?thesis by (rule that)
  qed
  have off': "iap2_find_tlv_offset (Some (enc ts)) (fst (component_tlv cid)) 0 = Some (off, n)"
    using off t(2) by simp
  from length_put_tlv [OF msg(1) off'] t(3) msg(2) out(1) have
    len: "(if n > 0 then len - unat n + 86 else len + 86) = 6 + length q"
    by (auto simp: word_gt_0)
  have need: "len \<le> max_len" "max_len \<le> length mem" using out(2) by (simp_all add: can_hold_def)
  have split: "\<exists>r. m = ?h @ enc ts @ r" if "take len m = take len mem" for m
  proof -
    have "take len m = ?h @ enc ts" using that msg(3) by (simp add: frame_bytes_def)
    then show ?thesis by (metis append.assoc append_take_drop_id)
  qed
  have finish: "\<exists>mem'. Option.bind (identify_write m len (off + 6) n (tlv_encode (component_tlv cid)))
      (\<lambda>m. mem_store m 2 (write_be16 (of_nat (6 + length q)))) = Some mem' \<and> take (6 + length q) mem' = frame_bytes msgid q"
    if m: "take len m = take len mem" "6 + length q \<le> length m" for m
  proof -
    from split [OF m(1)] obtain r where r: "m = ?h @ enc ts @ r" by blast
    from write_component [OF msg(1) h t(2,1) off, of r] m(2) obtain m1 where
      m1: "identify_write m len (off + 6) n (tlv_encode (component_tlv cid)) = Some m1"
        "take (6 + length q) m1 = ?h @ q"
      unfolding r [symmetric] msg(2) out(1) by blast
    from set_length [of q m1] m1(2) obtain m2 where
      "mem_store m1 2 (write_be16 (of_nat (6 + length q))) = Some m2" "take (6 + length q) m2 = frame_bytes msgid q"
      by auto
    with m1(1) show ?thesis by simp
  qed
  from split [OF refl] obtain r0 where r0: "mem = ?h @ enc ts @ r0" by blast
  have load: "mem_load mem 6 (len - 6) = Some (enc ts)"
    using h unfolding msg(2) by (subst (1) r0) (simp add: mem_load_def slice_def)
  have id: "identify_id mem (off + 6) n (g_component_id (w_rgd w)) = Some cid"
    using identify_id_enc [OF msg(1) h off, of r0] unfolding r0 [symmetric] cid .
  have tlv: "rgd_build_component_tlv (Some (take 256 (ev_scratch ev))) cid =
      (86, Some (mem_put (take 256 (ev_scratch ev)) 0 (tlv_encode (component_tlv cid))))"
    using ev by (intro rgd_build_component_tlv_eq) (simp add: env_ok_def)
  have new: "take 86 (mem_put (take 256 (ev_scratch ev)) 0 (tlv_encode (component_tlv cid))) = tlv_encode (component_tlv cid)"
    using t(3) by (simp add: mem_put_def)
  have init: "rgd_lazy_init ev w = Some w" using w by (simp add: rgd_lazy_init_def)
  have len6: "\<not> len < 6" using msg(2) by simp
  have grow: "\<exists>priv1 m cap. (if max_len < 6 + length q then rgd_resize_identify_buffer he priv mem len (6 + length q)
        else Some (Some (priv, mem, max_len))) = Some (Some (priv1, m, cap)) \<and>
      take len m = take len mem \<and> 6 + length q \<le> length m"
    using resize_ok [OF out(2)] need by (cases "max_len < 6 + length q") auto
  then obtain priv1 m cap where g: "(if max_len < 6 + length q then rgd_resize_identify_buffer he priv mem len (6 + length q)
        else Some (Some (priv, mem, max_len))) = Some (Some (priv1, m, cap))"
      "take len m = take len mem" "6 + length q \<le> length m" by blast
  from finish [OF g(2,3)] obtain m1 m2 where
    1: "identify_write m len (off + 6) n (tlv_encode (component_tlv cid)) = Some m1"
      "mem_store m1 2 (write_be16 (of_nat (6 + length q))) = Some m2" "take (6 + length q) m2 = frame_bytes msgid q"
    by (auto simp: bind_eq_Some_conv)
  show ?thesis
    unfolding rgd_identify_patcher_def
    by (simp add: init len6 load off id tlv new len g(1) 1 Let_def del: of_nat_add)
qed

end
