(* ===== verification/Rgi_Bridge.thy ===== *)
theory Rgi_Bridge
  imports Rgd_Debounce Rgd_Identify Receive_Probe
begin

text \<open>
  native/rgi_bridge.c: the bridge between the received frames and the route-guidance hook. It
  provides the framework functions that the hook calls, starts the bus on first use, hands whole
  frames to the message handler, and shuts everything down once.
\<close>

definition hook_is_ready :: bool where "hook_is_ready = False"

definition hook_get_component_id :: u16 where "hook_get_component_id = 0x0010"

definition hook_inject_frame :: "bytes \<Rightarrow> hook_result" where
  "hook_inject_frame fr = HOOK_ERR_INIT"

definition hook_inject_result :: "u16 \<Rightarrow> bytes \<Rightarrow> hook_result" where
  "hook_inject_result msgid payload = HOOK_ERR_INIT"

text \<open>The environment of the hook in this process.\<close>

definition bridge_env :: "env \<Rightarrow> env" where
  "bridge_env ev = ev\<lparr>ev_ready := hook_is_ready, ev_inject := hook_inject_result 0 []\<rparr>"

record bridge =
  br_world :: world
  br_ctx :: hook_context
  br_bus_ready :: bool
  br_shutdown :: bool

definition hook_is_active :: "bridge \<Rightarrow> bool" where
  "hook_is_active br \<longleftrightarrow> w_session_active (br_world br)"

text \<open>What bus_init finds: the process id and the outcomes of the thread creations.\<close>

record boot =
  bo_pid :: int
  bo_connector :: bool
  bo_writer :: bool
  bo_timer :: bool

definition k2161_rgi_bridge_init :: "boot \<Rightarrow> bridge \<Rightarrow> bool \<times> bridge" where
  "k2161_rgi_bridge_init bo br =
     (if br_shutdown br then (False, br)
      else if br_bus_ready br then (True, br)
      else
        let br = br\<lparr>br_ctx := zero_context\<lparr>cx_direction := MSG_DIR_INCOMING, cx_component_id := 0x0010,
                                cx_component_valid := True\<rparr>,
                    br_world := (br_world br)\<lparr>w_session_active := False\<rparr>\<rparr>;
            (rc, b) = bus_init (bo_pid bo) (bo_connector bo) (bo_writer bo) (bo_timer bo) (w_bus (br_world br));
            br = br\<lparr>br_world := (br_world br)\<lparr>w_bus := b\<rparr>\<rparr>
        in if rc \<noteq> HOOK_OK \<and> rc \<noteq> HOOK_ERR_BUSY then (False, br)
           else (True, br\<lparr>br_bus_ready := True\<rparr>))"

definition k2161_rgi_bridge_feed :: "boot \<Rightarrow> env \<Rightarrow> bytes option \<Rightarrow> bridge \<Rightarrow> (int \<times> bridge) option" where
  "k2161_rgi_bridge_feed bo ev pbuf br = (case pbuf of
     None \<Rightarrow> Some (-1, br)
   | Some buf \<Rightarrow>
       if length buf < IAP2_MIN_FRAME then Some (-1, br)
       else do {
         found \<leftarrow> iap2_find_frame (Some buf);
         case found of None \<Rightarrow> Some (-2, br)
         | Some fr \<Rightarrow>
             if fr_offset fr \<noteq> 0 \<or> unat (fr_frame_len fr) \<noteq> length buf then Some (-3, br)
             else if fr_msgid fr \<noteq> IAP2_MSG_ROUTE_GUIDANCE_UPDATE \<and>
                     fr_msgid fr \<noteq> IAP2_MSG_ROUTE_GUIDANCE_MANEUVER \<and>
                     fr_msgid fr \<noteq> IAP2_MSG_ROUTE_GUIDANCE_LANE then Some (0, br)
             else
               let (ready, br) = k2161_rgi_bridge_init bo br
               in if \<not> ready then Some (-4, br)
               else do {
                 let br = br\<lparr>br_ctx := (br_ctx br)\<lparr>cx_direction := MSG_DIR_INCOMING, cx_msgid := fr_msgid fr,
                                                 cx_raw_buf := Some buf\<rparr>\<rparr>;
                 w \<leftarrow> rgd_message_handler (bridge_env ev) buf fr (br_world br);
                 Some (1, br\<lparr>br_world := w\<rparr>) } })"

definition k2161_rgi_bridge_shutdown ::
  "env \<Rightarrow> int \<Rightarrow> (nat \<Rightarrow> bool \<times> bool \<times> bool) \<Rightarrow> bridge \<Rightarrow> bridge option" where
  "k2161_rgi_bridge_shutdown ev pid obs br =
     (if br_shutdown br then Some br
      else
        let br = br\<lparr>br_shutdown := True\<rparr>
        in if br_bus_ready br then do {
             w \<leftarrow> rgd_shutdown (bridge_env ev) (br_world br);
             let (waited, b) = bus_shutdown pid obs (w_bus w);
             Some (br\<lparr>br_world := w\<lparr>w_bus := b\<rparr>, br_bus_ready := False\<rparr>) }
           else Some br)"

definition zero_bridge :: bridge where
  "zero_bridge = \<lparr>br_world = fresh_world zero_bus,
     br_ctx = zero_context,
     br_bus_ready = False, br_shutdown = False\<rparr>"

section \<open>The invariant\<close>

text \<open>Before the bus has been started its ring holds no payload.\<close>

definition bridge_ok :: "nat \<Rightarrow> bridge \<Rightarrow> bool" where
  "bridge_ok n br \<longleftrightarrow> hook_ok n (br_world br) \<and>
     (\<not> br_bus_ready br \<longrightarrow> \<not> br_shutdown br \<longrightarrow>
        (\<forall>f \<in> set (rq_ring (b_q (w_bus (br_world br)))). fm_payload f = None))"

lemma zero_bridge_ok: "bridge_ok n zero_bridge"
  using fresh_world_ok [OF zero_bus_ok]
  by (simp add: bridge_ok_def zero_bridge_def fresh_world_def zero_bus_def zero_frame_def)

lemma bridge_env_ok: "env_ok ev \<Longrightarrow> env_ok (bridge_env ev)"
  by (simp add: env_ok_def bridge_env_def)

lemma bus_init_ring: "rq_ring (b_q (snd (bus_init p c w t b))) = rq_ring (b_q b)"
  by (simp add: bus_init_def Let_def)

lemma hook_ok_session [simp]: "hook_ok n (w\<lparr>w_session_active := x\<rparr>) = hook_ok n w"
  by (simp add: hook_ok_def)

lemma bridge_init_ok:
  assumes "bridge_ok n br" "k2161_rgi_bridge_init bo br = (r, br')"
  shows "bridge_ok n br' \<and> (r \<longrightarrow> br_bus_ready br') \<and> br_shutdown br' = br_shutdown br \<and>
    w_rgd (br_world br') = w_rgd (br_world br) \<and> w_injected (br_world br') = w_injected (br_world br)"
proof (cases "br_shutdown br \<or> br_bus_ready br")
  case True
  with assms show ?thesis by (auto simp: k2161_rgi_bridge_init_def split: if_splits)
next
  case False
  obtain rc b where b: "bus_init (bo_pid bo) (bo_connector bo) (bo_writer bo) (bo_timer bo) (w_bus (br_world br)) = (rc, b)"
    by (rule prod.exhaust)
  have "bus_ok (w_bus (br_world br))" "\<forall>f \<in> set (rq_ring (b_q (w_bus (br_world br)))). fm_payload f = None"
    using assms(1) False by (auto simp: bridge_ok_def hook_ok_def)
  from bus_init_ok [OF this, of "bo_pid bo" "bo_connector bo" "bo_writer bo" "bo_timer bo"] this(2)
    bus_init_ring [of "bo_pid bo" "bo_connector bo" "bo_writer bo" "bo_timer bo" "w_bus (br_world br)"] b
  have b': "bus_ok b" "\<forall>f \<in> set (rq_ring (b_q b)). fm_payload f = None" by simp_all
  have "hook_ok n ((br_world br)\<lparr>w_session_active := False, w_bus := b\<rparr>)"
    using assms(1) by (intro hook_ok_bus [OF _ b'(1)]) (simp add: bridge_ok_def)
  with b b'(2) assms(2) False show ?thesis
    by (auto simp: k2161_rgi_bridge_init_def bridge_ok_def Let_def split: if_splits)
qed

section \<open>Feeding bytes\<close>

definition rgi_msgid :: "u16 \<Rightarrow> bool" where
  "rgi_msgid m \<longleftrightarrow> m = 0x5201 \<or> m = 0x5202 \<or> m = 0x5204"

text \<open>The answer of the bridge for a buffer, apart from the start of the bus.\<close>

definition feed_code :: "bytes option \<Rightarrow> bool \<Rightarrow> int" where
  "feed_code pbuf up = (case pbuf of None \<Rightarrow> -1
     | Some buf \<Rightarrow>
         if length buf < 6 then -1
         else case find (frame_at buf) [0..<length buf - 5] of None \<Rightarrow> -2
         | Some i \<Rightarrow>
             let fr = frame_of buf i
             in if i \<noteq> 0 \<or> unat (fr_frame_len fr) \<noteq> length buf then -3
                else if \<not> rgi_msgid (fr_msgid fr) then 0 else if up then 1 else -4)"

lemma fr_offset_frame_of [simp]: "fr_offset (frame_of buf i) = i"
  by (simp add: frame_of_def mk_frame_def)

lemma feed_ok:
  assumes br: "bridge_ok n br" "n < 0xFFFFFE00" and ev: "env_ok ev"
  shows "\<exists>br'. k2161_rgi_bridge_feed bo ev pbuf br =
      Some (feed_code pbuf (fst (k2161_rgi_bridge_init bo br)), br') \<and> bridge_ok (n + 20) br' \<and>
    w_injected (br_world br') = w_injected (br_world br) \<and>
    (feed_code pbuf True \<noteq> 1 \<longrightarrow> br' = br)"
proof -
  obtain up br1 where i: "k2161_rgi_bridge_init bo br = (up, br1)" by (rule prod.exhaust)
  from bridge_init_ok [OF br(1) i] have b1: "bridge_ok n br1" "up \<Longrightarrow> br_bus_ready br1"
    "w_injected (br_world br1) = w_injected (br_world br)" by simp_all
  have mono: "bridge_ok (n + 20) x" if "bridge_ok n x" for x
    using that hook_ok_mono [of n "br_world x" "n + 20"] by (simp add: bridge_ok_def)
  show ?thesis
  proof (cases pbuf)
    case None
    with mono [OF br(1)] show ?thesis by (simp add: k2161_rgi_bridge_feed_def feed_code_def)
  next
    case (Some buf)
    show ?thesis
    proof (cases "length buf < 6 \<or> find (frame_at buf) [0..<length buf - 5] = None")
      case True
      with Some mono [OF br(1)] show ?thesis
        by (auto simp: k2161_rgi_bridge_feed_def feed_code_def iap2_find_frame_def iap2_find_frame_at_eq)
    next
      case False
      then obtain k where k: "find (frame_at buf) [0..<length buf - 5] = Some k" and l: "\<not> length buf < 6" by auto
      let ?fr = "frame_of buf k"
      show ?thesis
      proof (cases "k \<noteq> 0 \<or> unat (fr_frame_len ?fr) \<noteq> length buf \<or> \<not> rgi_msgid (fr_msgid ?fr)")
        case True
        with Some k l mono [OF br(1)] show ?thesis
          by (auto simp: k2161_rgi_bridge_feed_def feed_code_def iap2_find_frame_def iap2_find_frame_at_eq
              rgi_msgid_def Let_def)
      next
        case nok: False
        then have k0: "k = 0" by simp
        note ok = nok [unfolded k0] and k = k [unfolded k0]
        let ?fr = "frame_of buf 0"
        let ?br = "br1\<lparr>br_ctx := (br_ctx br1)\<lparr>cx_direction := MSG_DIR_INCOMING, cx_msgid := fr_msgid ?fr, cx_raw_buf := Some buf\<rparr>\<rparr>"
        have "hook_ok n (br_world ?br)" using b1(1) by (simp add: bridge_ok_def)
        from handler_ok [OF this br(2) bridge_env_ok [OF ev], of ?fr buf] ok obtain w where
          w: "rgd_message_handler (bridge_env ev) buf ?fr (br_world ?br) = Some w" "hook_ok (n + 20) w"
            "w_injected w = w_injected (br_world br)" using b1(3) by auto
        have f: "k2161_rgi_bridge_feed bo ev pbuf br = (if up then Some (1, ?br\<lparr>br_world := w\<rparr>) else Some (-4, br1))"
          using Some k l ok i w(1)
          by (simp add: k2161_rgi_bridge_feed_def iap2_find_frame_def iap2_find_frame_at_eq rgi_msgid_def Let_def)
        have c: "feed_code pbuf up = (if up then 1 else -4)" "feed_code pbuf True = 1"
          using Some k l ok by (simp_all add: feed_code_def Let_def)
        show ?thesis
          using f c i w(2,3) b1 mono [OF b1(1)] by (auto simp: bridge_ok_def)
      qed
    qed
  qed
qed

text \<open>A whole frame with a route-guidance identifier is accepted while the bridge is up.\<close>

lemma feed_code_frame:
  assumes "length p \<le> 65529" "rgi_msgid m"
  shows "feed_code (Some (frame_bytes m p)) up = (if up then 1 else -4)"
proof -
  have "find (frame_at (frame_bytes m p)) [0..<length (frame_bytes m p) - 5] = Some 0"
    using frame_at_frame_bytes(1) [OF assms(1), of m "[]"] by (subst find_upt_Some) simp
  moreover have "unat (fr_frame_len (frame_of (frame_bytes m p) 0)) = length (frame_bytes m p)"
    "fr_msgid (frame_of (frame_bytes m p) 0) = m"
    using frame_at_frame_bytes(2) [OF assms(1), of m "[]"] assms(1)
    by (simp_all add: mk_frame_def unat_of_nat_u16 del: of_nat_add)
  ultimately show ?thesis using assms(2) by (simp add: feed_code_def Let_def)
qed

lemma feed_code_probe:
  assumes "k2161_probe_rgi_start (Some t) = Some (Some p)" "pf_complete p"
  shows "feed_code (Some (probe_bytes t p)) up =
    (if rgi_msgid (pf_msgid p) then if up then 1 else -4 else 0)"
proof -
  note f = probe_fields [OF assms(1)] and b = probe_frame [OF assms]
  have "map_option (frame_of (probe_bytes t p)) (find (frame_at (probe_bytes t p)) [0..<length (probe_bytes t p) - 5]) =
      Some (mk_frame 0 (pf_frame_len p) (pf_msgid p))"
    using b(2) by (simp add: iap2_find_frame_def iap2_find_frame_at_eq split: if_splits)
  then obtain k where k: "find (frame_at (probe_bytes t p)) [0..<length (probe_bytes t p) - 5] = Some k"
    "frame_of (probe_bytes t p) k = mk_frame 0 (pf_frame_len p) (pf_msgid p)" by auto
  from arg_cong [OF k(2), of fr_offset] have "k = 0" by (simp add: mk_frame_def)
  with k b(1) f(5) show ?thesis by (simp add: feed_code_def mk_frame_def Let_def)
qed

section \<open>Shutting down\<close>

lemma bridge_shutdown_ok:
  assumes br: "bridge_ok n br" and ev: "env_ok ev"
  shows "\<exists>br'. k2161_rgi_bridge_shutdown ev pid obs br = Some br' \<and> bridge_ok n br' \<and> br_shutdown br'"
proof (cases "br_shutdown br \<or> \<not> br_bus_ready br")
  case True
  with br show ?thesis by (auto simp: k2161_rgi_bridge_shutdown_def bridge_ok_def)
next
  case False
  have "hook_ok n (br_world (br\<lparr>br_shutdown := True\<rparr>))" using br by (simp add: bridge_ok_def)
  from rgd_shutdown_ok [OF bridge_env_ok [OF ev] this] obtain w where
    w: "rgd_shutdown (bridge_env ev) (br_world br) = Some w" "hook_ok n w" by auto
  have "bus_ok (snd (bus_shutdown pid obs (w_bus w)))"
    using w(2) by (intro bus_shutdown_ok) (simp add: hook_ok_def)
  then have "hook_ok n (w\<lparr>w_bus := snd (bus_shutdown pid obs (w_bus w))\<rparr>)" by (rule hook_ok_bus [OF w(2)])
  with False w show ?thesis
    by (auto simp: k2161_rgi_bridge_shutdown_def bridge_ok_def Let_def split: prod.split)
qed

lemma bridge_stays_down:
  assumes "br_shutdown br"
  shows "k2161_rgi_bridge_init bo br = (False, br)"
  using assms by (simp add: k2161_rgi_bridge_init_def)

section \<open>Everything that can happen to the bridge\<close>

text \<open>The timer thread calls the tick while it is registered.\<close>

datatype bridge_op =
    Br_init boot
  | Br_feed boot "bytes option"
  | Br_timer
  | Br_shutdown int "nat \<Rightarrow> bool \<times> bool \<times> bool"

definition bridge_timer :: "env \<Rightarrow> bridge \<Rightarrow> bridge option" where
  "bridge_timer ev br = (if b_tick_cb (w_bus (br_world br)) = Some RGD_TICK
     then map_option (\<lambda>w. br\<lparr>br_world := w\<rparr>) (rgd_periodic_tick (bridge_env ev) (br_world br))
     else Some br)"

fun bridge_step :: "env \<Rightarrow> bridge_op \<Rightarrow> bridge \<Rightarrow> bridge option" where
  "bridge_step ev (Br_init bo) br = Some (snd (k2161_rgi_bridge_init bo br))"
| "bridge_step ev (Br_feed bo buf) br = map_option snd (k2161_rgi_bridge_feed bo ev buf br)"
| "bridge_step ev Br_timer br = bridge_timer ev br"
| "bridge_step ev (Br_shutdown pid obs) br = k2161_rgi_bridge_shutdown ev pid obs br"

fun bridge_run :: "(env \<times> bridge_op) list \<Rightarrow> bridge \<Rightarrow> bridge option" where
  "bridge_run [] br = Some br"
| "bridge_run ((ev, op) # ops) br = do { br \<leftarrow> bridge_step ev op br; bridge_run ops br }"

lemma not_ready: "\<not> ev_ready (bridge_env ev)"
  by (simp add: bridge_env_def hook_is_ready_def)

lemma short_message_injected: "short_message al m cs w = Some w' \<Longrightarrow> w_injected w' = w_injected w"
  by (auto simp: short_message_def bind_eq_Some_conv)

lemma tick_injects_nothing:
  "rgd_periodic_tick (bridge_env ev) w = Some w' \<Longrightarrow> w_injected w' = w_injected w"
  using rgd_request_updates_idle [OF not_ready]
  by (auto simp: rgd_periodic_tick_def dest!: short_message_injected split: if_splits)

text \<open>The tick is registered by the message handler only, so the bus is up or shut down by then.\<close>

definition tick_ok :: "bridge \<Rightarrow> bool" where
  "tick_ok br \<longleftrightarrow> (b_tick_cb (w_bus (br_world br)) = Some RGD_TICK \<longrightarrow> br_bus_ready br \<or> br_shutdown br)"

lemma bus_init_tick: "b_tick_cb (snd (bus_init p c w t b)) = b_tick_cb b"
  by (simp add: bus_init_def Let_def)

lemma init_tick:
  assumes "tick_ok br"
  shows "tick_ok (snd (k2161_rgi_bridge_init bo br))"
  using assms bus_init_tick [of "bo_pid bo" "bo_connector bo" "bo_writer bo" "bo_timer bo" "w_bus (br_world br)"]
  by (auto simp: k2161_rgi_bridge_init_def tick_ok_def Let_def split: prod.splits)

lemma feed_tick:
  assumes "bridge_ok n br" "tick_ok br" "k2161_rgi_bridge_feed bo ev pbuf br = Some (c, br')"
  shows "tick_ok br'"
proof -
  obtain up br1 where i: "k2161_rgi_bridge_init bo br = (up, br1)" by (rule prod.exhaust)
  have t: "tick_ok br1" using init_tick [OF assms(2), of bo] i by simp
  have r: "up \<longrightarrow> br_bus_ready br1" using bridge_init_ok [OF assms(1) i] by simp
  from assms(3) i have "br' = br \<or> (\<not> up \<and> br' = br1) \<or> (up \<and> br_bus_ready br' = br_bus_ready br1)"
    unfolding k2161_rgi_bridge_feed_def Let_def
    by (cases pbuf) (simp_all only: option.case i prod.case split: Option.bind_split_asm option.split_asm if_split_asm, auto)
  then show ?thesis
  proof (elim disjE conjE)
    assume "br' = br"
    then show ?thesis using assms(2) by simp
  next
    assume "br' = br1"
    then show ?thesis using t by simp
  next
    assume "up" "br_bus_ready br' = br_bus_ready br1"
    then show ?thesis using r by (simp add: tick_ok_def)
  qed
qed

definition bridge_inv :: "nat \<Rightarrow> bridge \<Rightarrow> bool" where
  "bridge_inv n br \<longleftrightarrow> bridge_ok n br \<and> tick_ok br \<and> w_injected (br_world br) = []"

lemma zero_bridge_inv: "bridge_inv n zero_bridge"
  using zero_bridge_ok [of n]
  by (simp add: bridge_inv_def tick_ok_def zero_bridge_def fresh_world_def zero_bus_def)

lemma bridge_ok_mono: "bridge_ok n br \<Longrightarrow> n \<le> m \<Longrightarrow> bridge_ok m br"
  by (auto simp: bridge_ok_def intro: hook_ok_mono)

lemma timer_inv:
  assumes "bridge_inv n br" "env_ok ev"
  shows "\<exists>br'. bridge_timer ev br = Some br' \<and> bridge_inv n br'"
proof (cases "b_tick_cb (w_bus (br_world br)) = Some RGD_TICK")
  case True
  with assms(1) have up: "br_bus_ready br \<or> br_shutdown br" by (simp add: bridge_inv_def tick_ok_def)
  have "hook_ok n (br_world br)" using assms(1) by (simp add: bridge_inv_def bridge_ok_def)
  from rgd_periodic_tick_ok [OF bridge_env_ok [OF assms(2)] this] obtain w where
    w: "rgd_periodic_tick (bridge_env ev) (br_world br) = Some w" "hook_ok n w" by blast
  with tick_injects_nothing [OF w(1)] True up assms(1) show ?thesis
    by (auto simp: bridge_timer_def bridge_inv_def bridge_ok_def tick_ok_def)
next
  case False
  with assms(1) show ?thesis by (simp add: bridge_timer_def)
qed

lemma clear_injects_nothing:
  "rgd_clear_state ev r w = Some w' \<Longrightarrow> w_injected w' = w_injected w"
  by (auto simp: rgd_clear_state_def bind_eq_Some_conv dest!: short_message_injected)

lemma shutdown_inv:
  assumes "bridge_inv n br" "env_ok ev"
  shows "\<exists>br'. k2161_rgi_bridge_shutdown ev pid obs br = Some br' \<and> bridge_inv n br'"
proof -
  from bridge_shutdown_ok [of n br ev pid obs] assms obtain br' where
    b: "k2161_rgi_bridge_shutdown ev pid obs br = Some br'" "bridge_ok n br'" "br_shutdown br'"
    by (auto simp: bridge_inv_def)
  have inj: "w_injected w = []" if "rgd_shutdown (bridge_env ev) (br_world br) = Some w" for w
    using that assms(1) clear_injects_nothing by (fastforce simp: rgd_shutdown_def bridge_inv_def)
  have "w_injected (br_world br') = []"
  proof (cases "br_shutdown br \<or> \<not> br_bus_ready br")
    case True
    with b(1) assms(1) show ?thesis
      by (auto simp: k2161_rgi_bridge_shutdown_def bridge_inv_def Let_def split: if_splits)
  next
    case False
    with b(1) obtain w where w: "rgd_shutdown (bridge_env ev) (br_world br) = Some w"
      by (auto simp: k2161_rgi_bridge_shutdown_def Let_def bind_eq_Some_conv)
    obtain t c where "bus_shutdown pid obs (w_bus w) = (t, c)" by (rule prod.exhaust)
    with b(1) False w inj [OF w] show ?thesis by (auto simp: k2161_rgi_bridge_shutdown_def Let_def)
  qed
  with b show ?thesis by (auto simp: bridge_inv_def tick_ok_def)
qed

lemma bridge_step_inv:
  assumes "bridge_inv n br" "n < 0xFFFFFE00" "env_ok ev"
  shows "\<exists>br'. bridge_step ev op br = Some br' \<and> bridge_inv (n + 20) br'"
proof -
  have up: "bridge_inv (n + 20) x" if "bridge_inv n x" for x
    using that bridge_ok_mono [of n x "n + 20"] by (simp add: bridge_inv_def)
  have b: "bridge_ok n br" "tick_ok br" "w_injected (br_world br) = []"
    using assms(1) by (simp_all add: bridge_inv_def)
  show ?thesis
  proof (cases op)
    case (Br_init bo)
    obtain r br' where i: "k2161_rgi_bridge_init bo br = (r, br')" by (rule prod.exhaust)
    from bridge_init_ok [OF b(1) i] init_tick [OF b(2), of bo] i b(3) have "bridge_inv n br'"
      by (simp add: bridge_inv_def)
    with Br_init i up show ?thesis by simp
  next
    case (Br_feed bo buf)
    from feed_ok [OF b(1) assms(2,3), of bo buf] obtain c br' where
      f: "k2161_rgi_bridge_feed bo ev buf br = Some (c, br')" "bridge_ok (n + 20) br'"
        "w_injected (br_world br') = []" using b(3) by auto
    with feed_tick [OF b(1,2) f(1)] Br_feed show ?thesis by (simp add: bridge_inv_def)
  next
    case Br_timer
    with timer_inv [OF assms(1,3)] up show ?thesis by auto
  next
    case (Br_shutdown pid obs)
    with shutdown_inv [OF assms(1,3), of pid obs] up show ?thesis by auto
  qed
qed

definition envs_ok :: "(env \<times> bridge_op) list \<Rightarrow> bool" where
  "envs_ok ops \<longleftrightarrow> list_all (\<lambda>(ev, op). env_ok ev) ops"

lemma bridge_run_inv:
  assumes "envs_ok ops" "bridge_inv n br" "n + 20 * length ops < 0xFFFFFE00"
  shows "\<exists>br'. bridge_run ops br = Some br' \<and> bridge_inv (n + 20 * length ops) br'"
  using assms
proof (induction ops arbitrary: n br)
  case (Cons a ops)
  obtain ev op where a: "a = (ev, op)" by (rule prod.exhaust)
  from Cons.prems a have "n < 0xFFFFFE00" "env_ok ev" by (simp_all add: envs_ok_def)
  from bridge_step_inv [OF Cons.prems(2) this, of op] obtain br1 where
    1: "bridge_step ev op br = Some br1" "bridge_inv (n + 20) br1" by blast
  have "envs_ok ops" using Cons.prems(1) by (simp add: envs_ok_def)
  moreover have "n + 20 + 20 * length ops < 0xFFFFFE00" using Cons.prems(3) by simp
  ultimately show ?case using Cons.IH [OF _ 1(2)] 1(1) a by (simp add: ac_simps)
qed simp

end
