(* ===== verification/Observer.thy ===== *)
theory Observer
  imports Capture Driver_Hooks Send_Limits Rgi_Bridge
begin

text \<open>
  native/observer.c: the library in the process of the stock driver. It resolves the base of the
  driver when a library is loaded, patches the driver when the receive routine copies its first
  packet, and hands every copied packet to the capture file, the retry state and the bridge.
\<close>

record observer =
  ob_driver_base :: ptr
  ob_callsite_reported :: bool
  ob_ident_install_attempted :: bool
  ob_send_install_attempted :: bool
  ob_bridge_ok_reported :: bool
  ob_bridge_error_reported :: bool
  ob_rx_callsite_count :: u32
  ob_rx_rgi_count :: u32
  ob_rx_partial_rgi_count :: u32
  ob_rx_5201 :: u32
  ob_rx_5202 :: u32
  ob_rx_5204 :: u32
  ob_rx_bridge_ok :: u32
  ob_rx_bridge_fail :: u32

definition zero_observer :: observer where
  "zero_observer = \<lparr>ob_driver_base = NULL, ob_callsite_reported = False, ob_ident_install_attempted = False,
     ob_send_install_attempted = False, ob_bridge_ok_reported = False, ob_bridge_error_reported = False,
     ob_rx_callsite_count = 0, ob_rx_rgi_count = 0, ob_rx_partial_rgi_count = 0, ob_rx_5201 = 0, ob_rx_5202 = 0,
     ob_rx_5204 = 0, ob_rx_bridge_ok = 0, ob_rx_bridge_fail = 0\<rparr>"

text \<open>All static state of the library.\<close>

record process =
  ps_obs :: observer
  ps_capture :: capture
  ps_ident :: ident_hook
  ps_table :: msg_table
  ps_install :: send_install
  ps_image :: image
  ps_send :: send_state
  ps_bridge :: bridge

definition on_obs :: "(observer \<Rightarrow> observer) \<Rightarrow> process \<Rightarrow> process" where
  "on_obs f p = p\<lparr>ps_obs := f (ps_obs p)\<rparr>"

definition on_capture :: "(capture \<Rightarrow> capture) \<Rightarrow> process \<Rightarrow> process" where
  "on_capture f p = p\<lparr>ps_capture := f (ps_capture p)\<rparr>"

abbreviation mark :: "string \<Rightarrow> process \<Rightarrow> process" where "mark t \<equiv> on_capture (write_marker t)"

definition on_diag :: "(diag \<Rightarrow> diag) \<Rightarrow> process \<Rightarrow> process" where
  "on_diag f p = p\<lparr>ps_bridge := (ps_bridge p)\<lparr>br_world := (br_world (ps_bridge p))
     \<lparr>w_diag := f (w_diag (br_world (ps_bridge p)))\<rparr>\<rparr>\<rparr>"

section \<open>The base of the driver\<close>

text \<open>The addresses that dlsym finds, NULL for none.\<close>

definition resolve_driver_base :: "ptr \<Rightarrow> ptr \<Rightarrow> process \<Rightarrow> process" where
  "resolve_driver_base ipod_module blob_symbol p =
     (if ob_driver_base (ps_obs p) \<noteq> 0 then p
      else if ipod_module = NULL \<or> blob_symbol = NULL then mark ''K2161_RGI_RX base_symbols_missing'' p
      else
        let base_from_module = (of_nat ipod_module :: u32) - 0x2614c;
            base_from_blob = of_nat blob_symbol - 0x1d0d8
        in if base_from_module \<noteq> base_from_blob then mark ''K2161_RGI_RX base_crosscheck_failed'' p
           else mark ''K2161_RGI_RX driver_base_ready''
             (on_obs (\<lambda>ob. ob\<lparr>ob_driver_base := unat base_from_module\<rparr>) p))"

section \<open>A copied packet\<close>

text \<open>
  What a copied packet finds outside: the result of writev, the time that the retry state reads,
  what the start of the bus and the handler of the hook find.
\<close>

record outside =
  os_written :: int
  os_now :: u64
  os_boot :: boot
  os_env :: env

definition count_msgid :: "rgi_frame \<Rightarrow> observer \<Rightarrow> observer" where
  "count_msgid fr ob =
     (let ob = ob\<lparr>ob_rx_rgi_count := ob_rx_rgi_count ob + 1\<rparr>;
          ob = (if \<not> pf_complete fr then ob\<lparr>ob_rx_partial_rgi_count := ob_rx_partial_rgi_count ob + 1\<rparr> else ob)
      in if pf_msgid fr = 0x5201 then ob\<lparr>ob_rx_5201 := ob_rx_5201 ob + 1\<rparr>
         else if pf_msgid fr = 0x5202 then ob\<lparr>ob_rx_5202 := ob_rx_5202 ob + 1\<rparr>
         else if pf_msgid fr = 0x5204 then ob\<lparr>ob_rx_5204 := ob_rx_5204 ob + 1\<rparr> else ob)"

definition count_bridge :: "int \<Rightarrow> process \<Rightarrow> process" where
  "count_bridge bridge_rc p =
     (if bridge_rc = 1 then
        let p = on_obs (\<lambda>ob. ob\<lparr>ob_rx_bridge_ok := ob_rx_bridge_ok ob + 1\<rparr>) p
        in if \<not> ob_bridge_ok_reported (ps_obs p)
           then mark ''K2161_RGI_RX bridge_first_ok'' (on_obs (\<lambda>ob. ob\<lparr>ob_bridge_ok_reported := True\<rparr>) p) else p
      else if bridge_rc < 0 then
        let p = on_obs (\<lambda>ob. ob\<lparr>ob_rx_bridge_fail := ob_rx_bridge_fail ob + 1\<rparr>) p
        in if \<not> ob_bridge_error_reported (ps_obs p)
           then mark ''K2161_RGI_RX bridge_feed_failed'' (on_obs (\<lambda>ob. ob\<lparr>ob_bridge_error_reported := True\<rparr>) p) else p
      else p)"

definition observe_transport_copy :: "outside \<Rightarrow> bytes option \<Rightarrow> process \<Rightarrow> process option" where
  "observe_transport_copy os copied p = do {
     found \<leftarrow> k2161_probe_rgi_start copied;
     let p = on_capture (write_raw_packet (os_written os) copied found) p;
     case found of None \<Rightarrow> Some p
     | Some fr \<Rightarrow> do {
         let p = on_obs (count_msgid fr) p;
         let (diag_seq, d) = rgi_diag_rx_begin (pf_msgid fr) (w_diag (br_world (ps_bridge p)));
         let p = on_diag (\<lambda>_. d) p;
         let p = p\<lparr>ps_send := on_retry (k2161_send_note_rgi_rx (pf_msgid fr) (os_now os)) (ps_send p)\<rparr>;
         p \<leftarrow> (if pf_complete fr then do {
                (bridge_rc, br) \<leftarrow> k2161_rgi_bridge_feed (os_boot os) (os_env os)
                   (map_option (\<lambda>t. probe_bytes t fr) copied) (ps_bridge p);
                Some (count_bridge bridge_rc (p\<lparr>ps_bridge := br\<rparr>)) }
              else Some p);
         let p = on_diag (rgi_diag_rx_end diag_seq) p;
         Some (on_capture (write_text_event fr) p) } }"

section \<open>The replaced library functions\<close>

definition install_send :: "own \<Rightarrow> process \<Rightarrow> process" where
  "install_send ow p =
     (let base = ob_driver_base (ps_obs p);
          (msgtable_rc, t, im) = k2161_msgtable_try_install_base ow base (ps_table p) (ps_image p);
          p = p\<lparr>ps_table := t, ps_image := im\<rparr>
      in if msgtable_rc \<noteq> 1 then p
      else
        let (send_rc, si, st, im) = k2161_send_hook_try_install_base ow
              (k2161_msgtable_ready ow (ps_table p) (ps_image p)) base (ps_install p)
              (ss_status (ps_send p)) (ps_image p);
            p = p\<lparr>ps_install := si, ps_send := (ps_send p)\<lparr>ss_status := st\<rparr>, ps_image := im\<rparr>
        in if send_rc = 1 then on_obs (\<lambda>ob. ob\<lparr>ob_send_install_attempted := True\<rparr>) p else p)"

definition install_from_callsite :: "own \<Rightarrow> process \<Rightarrow> process" where
  "install_from_callsite ow p =
     (if ob_ident_install_attempted (ps_obs p) then p
      else
        let p = on_obs (\<lambda>ob. ob\<lparr>ob_ident_install_attempted := True\<rparr>) p;
            p = mark ''K2161_RGI_RX ident_install_from_callsite'' p;
            (ident_rc, h, st, im) = k2161_ident_try_install_base ow (ob_driver_base (ps_obs p)) (ps_ident p)
              (ss_status (ps_send p)) (ps_image p);
            p = p\<lparr>ps_ident := h, ps_send := (ps_send p)\<lparr>ss_status := st\<rparr>, ps_image := im\<rparr>
        in if ident_rc = 1 \<and> \<not> ob_send_install_attempted (ps_obs p) then install_send ow p else p)"

text \<open>
  The part of memcpy after the copy, for a caller at the given address; the copied bytes are those
  of the destination.
\<close>

definition after_memcpy :: "own \<Rightarrow> outside \<Rightarrow> ptr \<Rightarrow> bytes option \<Rightarrow> process \<Rightarrow> process option" where
  "after_memcpy ow os caller copied p =
     (if ob_driver_base (ps_obs p) \<noteq> 0 \<and> caller = ob_driver_base (ps_obs p) + 0x11428 then
        let p = on_obs (\<lambda>ob. ob\<lparr>ob_rx_callsite_count := ob_rx_callsite_count ob + 1\<rparr>) p;
            p = install_from_callsite ow p;
            p = (if \<not> ob_callsite_reported (ps_obs p)
                 then mark ''K2161_RGI_RX callsite_ready'' (on_obs (\<lambda>ob. ob\<lparr>ob_callsite_reported := True\<rparr>) p) else p)
        in observe_transport_copy os copied p
      else Some p)"

text \<open>The real dlopen answers with a handle or not; the symbols are those that it makes visible.\<close>

definition dlopen :: "boot \<Rightarrow> bool \<Rightarrow> ptr \<Rightarrow> ptr \<Rightarrow> process \<Rightarrow> process" where
  "dlopen bo handle ipod_module blob_symbol p =
     (if \<not> handle then p
      else
        let p = resolve_driver_base ipod_module blob_symbol p
        in if ob_driver_base (ps_obs p) \<noteq> 0
           then p\<lparr>ps_bridge := snd (k2161_rgi_bridge_init bo (ps_bridge p))\<rparr> else p)"

definition k2161_rx_observer_init :: "bool \<Rightarrow> bool \<Rightarrow> ptr \<Rightarrow> ptr \<Rightarrow> process \<Rightarrow> process" where
  "k2161_rx_observer_init raw_opened text_opened ipod_module blob_symbol p =
     (let p = on_diag rgi_diag_reset_file p;
          p = on_capture (\<lambda>c. c\<lparr>cp_raw_fd := raw_opened, cp_text_fd := text_opened, cp_file := [], cp_text := []\<rparr>) p;
          p = mark ''K2161_RGI_RX observer_loaded'' p
      in resolve_driver_base ipod_module blob_symbol p)"

text \<open>The descriptors are closed, but keep their numbers.\<close>

definition k2161_rx_observer_fini ::
  "env \<Rightarrow> int \<Rightarrow> (nat \<Rightarrow> bool \<times> bool \<times> bool) \<Rightarrow> process \<Rightarrow> process option" where
  "k2161_rx_observer_fini ev pid obs p = do {
     br \<leftarrow> k2161_rgi_bridge_shutdown ev pid obs (ps_bridge p);
     Some (p\<lparr>ps_bridge := br\<rparr>) }"

section \<open>Everything that can happen in the process\<close>

text \<open>
  The events: the constructor and destructor, a library load, a memcpy, a tick of the timer thread,
  the parts of the wrapped message function before and after the stock function, a MsgReply, a
  call of the wrapped builder with the answers of the stock functions, and a pass of a retry
  worker. The wrapped functions are called when the words of the driver image say so.
\<close>

datatype event =
    E_load boot bool ptr ptr
  | E_memcpy outside ptr "bytes option"
  | E_timer env
  | E_fini env int "nat \<Rightarrow> bool \<times> bool \<times> bool"
  | E_before call_env ptr "int option" "u16 option"
  | E_after call_env ptr "int option" "u16 option"
  | E_reply call_env int
  | E_builder int int
  | E_worker u32 u64

text \<open>What a call of the send hook reads of the installation.\<close>

definition with_install :: "own \<Rightarrow> process \<Rightarrow> call_env \<Rightarrow> call_env" where
  "with_install ow p ce = ce\<lparr>ce_ready := k2161_msgtable_ready ow (ps_table p) (ps_image p),
     ce_installed := (sf_addparam_nodata (si_fns (ps_install p)) \<noteq> NULL \<and> sf_addparam_num (si_fns (ps_install p)) \<noteq> NULL \<and>
       sf_sendlist_pop (si_fns (ps_install p)) \<noteq> NULL \<and> sf_sendlist_push (si_fns (ps_install p)) \<noteq> NULL \<and>
       sf_send_message (si_fns (ps_install p)) \<noteq> NULL)\<rparr>"

definition msg_wrapped :: "own \<Rightarrow> process \<Rightarrow> bool" where
  "msg_wrapped ow p \<longleftrightarrow> im_word (ps_image p) (ob_driver_base (ps_obs p) + IAP2_MSG_SLOT_OFFSET) = ow_iap2_msg ow"

definition builder_wrapped :: "own \<Rightarrow> process \<Rightarrow> bool" where
  "builder_wrapped ow p \<longleftrightarrow>
     im_word (ps_image p) (ob_driver_base (ps_obs p) + K2161_IDENT_BUILDER_OFFSET) = ow_gps_builder ow"

fun process_step :: "own \<Rightarrow> event \<Rightarrow> process \<Rightarrow> process option" where
  "process_step ow (E_load bo handle m b) p = Some (dlopen bo handle m b p)"
| "process_step ow (E_memcpy os caller copied) p = after_memcpy ow os caller copied p"
| "process_step ow (E_timer ev) p = map_option (\<lambda>br. p\<lparr>ps_bridge := br\<rparr>) (bridge_timer ev (ps_bridge p))"
| "process_step ow (E_fini ev pid obs) p = k2161_rx_observer_fini ev pid obs p"
| "process_step ow (E_before ce ctx ctp msg) p = Some (if msg_wrapped ow p then
     let (s, d) = wrapped_msg_before (with_install ow p ce) ctx ctp msg (ps_send p, w_diag (br_world (ps_bridge p)))
     in on_diag (\<lambda>_. d) (p\<lparr>ps_send := s\<rparr>) else p)"
| "process_step ow (E_after ce ctx ctp msg) p = Some (if msg_wrapped ow p then
     p\<lparr>ps_send := wrapped_msg_after (with_install ow p ce) ctx ctp msg (ps_send p)\<rparr> else p)"
| "process_step ow (E_reply ce rcvid) p = Some (p\<lparr>ps_send := snd (MsgReply (with_install ow p ce) rcvid (ps_send p))\<rparr>)"
| "process_step ow (E_builder rc blob_rc) p = Some (if builder_wrapped ow p then
     p\<lparr>ps_send := (ps_send p)\<lparr>ss_status := fst (snd (k2161_wrapped_gps_builder rc blob_rc (ps_ident p)
         (ss_status (ps_send p), [])))\<rparr>\<rparr> else p)"
| "process_step ow (E_worker g now) p = Some (p\<lparr>ps_send := on_retry (\<lambda>r. snd (retry_worker g now r)) (ps_send p)\<rparr>)"

fun process_run :: "own \<Rightarrow> event list \<Rightarrow> process \<Rightarrow> process option" where
  "process_run ow [] p = Some p"
| "process_run ow (e # es) p = do { p \<leftarrow> process_step ow e p; process_run ow es p }"

text \<open>The process after the constructor ran, with any outcome.\<close>

definition zero_process :: "image \<Rightarrow> process" where
  "zero_process im = \<lparr>ps_obs = zero_observer, ps_capture = zero_capture, ps_ident = zero_ident_hook,
     ps_table = zero_msg_table, ps_install = zero_send_install, ps_image = im, ps_send = zero_send,
     ps_bridge = zero_bridge\<rparr>"

definition event_ok :: "event \<Rightarrow> bool" where
  "event_ok e \<longleftrightarrow> (case e of E_memcpy os _ _ \<Rightarrow> env_ok (os_env os) | E_timer ev \<Rightarrow> env_ok ev
     | E_fini ev _ _ \<Rightarrow> env_ok ev | _ \<Rightarrow> True)"


section \<open>The invariant\<close>

text \<open>The patches were made in their order, and nothing was sent without them.\<close>

definition patches :: "process \<Rightarrow> bool" where
  "patches p \<longleftrightarrow>
     (si_send_hook_installed (ps_install p) \<longrightarrow> ob_driver_base (ps_obs p) \<noteq> 0 \<and>
        si_installed_driver_base (ps_install p) = ob_driver_base (ps_obs p) \<and>
        mt_installed (ps_table p) \<and> mt_installed_driver_base (ps_table p) = ob_driver_base (ps_obs p) \<and>
        ih_hook_installed (ps_ident p) \<and> ih_installed_driver_base (ps_ident p) = ob_driver_base (ps_obs p)) \<and>
     (si_fns (ps_install p) \<noteq> no_send_fns \<longrightarrow> si_send_hook_installed (ps_install p)) \<and>
     (ss_sent (ps_send p) \<noteq> [] \<longrightarrow> si_send_hook_installed (ps_install p)) \<and>
     (ob_send_install_attempted (ps_obs p) \<longrightarrow> ob_ident_install_attempted (ps_obs p)) \<and>
     (si_send_hook_installed (ps_install p) \<or> mt_installed (ps_table p) \<or> ih_hook_installed (ps_ident p) \<longrightarrow>
        ob_ident_install_attempted (ps_obs p))"

definition process_inv :: "nat \<Rightarrow> process \<Rightarrow> bool" where
  "process_inv n p \<longleftrightarrow> bridge_inv n (ps_bridge p) \<and> patches p \<and>
     cp_raw_bytes_written (ps_capture p) \<le> K2161_RAW_CAPTURE_LIMIT"

lemma bridge_inv_diag [simp]:
  "bridge_inv n (br\<lparr>br_world := (br_world br)\<lparr>w_diag := d\<rparr>\<rparr>) = bridge_inv n br"
  by (simp add: bridge_inv_def bridge_ok_def tick_ok_def hook_ok_def)

lemma bridge_inv_mono: "bridge_inv n br \<Longrightarrow> n \<le> m \<Longrightarrow> bridge_inv m br"
  using bridge_ok_mono by (auto simp: bridge_inv_def)

lemma on_diag_fields [simp]:
  "ps_obs (on_diag f p) = ps_obs p" "ps_capture (on_diag f p) = ps_capture p" "ps_ident (on_diag f p) = ps_ident p"
  "ps_table (on_diag f p) = ps_table p" "ps_install (on_diag f p) = ps_install p" "ps_image (on_diag f p) = ps_image p"
  "ps_send (on_diag f p) = ps_send p" "bridge_inv n (ps_bridge (on_diag f p)) = bridge_inv n (ps_bridge p)"
  by (simp_all add: on_diag_def)

lemma on_capture_fields [simp]:
  "ps_obs (on_capture f p) = ps_obs p" "ps_capture (on_capture f p) = f (ps_capture p)" "ps_ident (on_capture f p) = ps_ident p"
  "ps_table (on_capture f p) = ps_table p" "ps_install (on_capture f p) = ps_install p" "ps_image (on_capture f p) = ps_image p"
  "ps_send (on_capture f p) = ps_send p" "ps_bridge (on_capture f p) = ps_bridge p"
  by (simp_all add: on_capture_def)

lemma on_obs_fields [simp]:
  "ps_obs (on_obs g p) = g (ps_obs p)" "ps_capture (on_obs g p) = ps_capture p" "ps_ident (on_obs g p) = ps_ident p"
  "ps_table (on_obs g p) = ps_table p" "ps_install (on_obs g p) = ps_install p" "ps_image (on_obs g p) = ps_image p"
  "ps_send (on_obs g p) = ps_send p" "ps_bridge (on_obs g p) = ps_bridge p"
  by (simp_all add: on_obs_def)

lemma text_event_written [simp]: "cp_raw_bytes_written (write_text_event fr c) = cp_raw_bytes_written c"
  by (simp add: write_text_event_def Let_def)

lemma write_raw_limit:
  "cp_raw_bytes_written c \<le> K2161_RAW_CAPTURE_LIMIT \<Longrightarrow>
    cp_raw_bytes_written (write_raw_packet w packet f c) \<le> K2161_RAW_CAPTURE_LIMIT"
  by (auto simp: write_raw_packet_def Let_def split: option.split)

text \<open>What the patches look at.\<close>

definition same_patches :: "process \<Rightarrow> process \<Rightarrow> bool" where
  "same_patches p p' \<longleftrightarrow> ps_install p' = ps_install p \<and> ps_table p' = ps_table p \<and> ps_ident p' = ps_ident p \<and>
     ss_sent (ps_send p') = ss_sent (ps_send p) \<and> ob_driver_base (ps_obs p') = ob_driver_base (ps_obs p) \<and>
     ob_send_install_attempted (ps_obs p') = ob_send_install_attempted (ps_obs p) \<and>
     ob_ident_install_attempted (ps_obs p') = ob_ident_install_attempted (ps_obs p)"

lemma patches_same: "patches p \<Longrightarrow> same_patches p p' \<Longrightarrow> patches p'"
  by (simp add: patches_def same_patches_def)

lemma count_msgid_fields [simp]:
  "ob_driver_base (count_msgid fr ob) = ob_driver_base ob"
  "ob_send_install_attempted (count_msgid fr ob) = ob_send_install_attempted ob"
  "ob_ident_install_attempted (count_msgid fr ob) = ob_ident_install_attempted ob"
  by (simp_all add: count_msgid_def Let_def)

lemma count_bridge_same:
  "same_patches p (count_bridge rc p)" "ps_bridge (count_bridge rc p) = ps_bridge p"
  "cp_raw_bytes_written (ps_capture (count_bridge rc p)) = cp_raw_bytes_written (ps_capture p)"
  by (simp_all add: count_bridge_def same_patches_def Let_def)

text \<open>The state in which a route-guidance frame reaches the bridge.\<close>

definition noted :: "outside \<Rightarrow> rgi_frame \<Rightarrow> process \<Rightarrow> process" where
  "noted os fr p =
     (let p = on_diag (\<lambda>d. snd (rgi_diag_rx_begin (pf_msgid fr) d)) (on_obs (count_msgid fr) p)
      in p\<lparr>ps_send := on_retry (k2161_send_note_rgi_rx (pf_msgid fr) (os_now os)) (ps_send p)\<rparr>)"

lemma observe_found:
  assumes "k2161_probe_rgi_start copied = Some (Some fr)"
    "p1 = on_capture (write_raw_packet (os_written os) copied (Some fr)) p"
    "seq = fst (rgi_diag_rx_begin (pf_msgid fr) (w_diag (br_world (ps_bridge p))))"
  shows "observe_transport_copy os copied p = do {
     p \<leftarrow> (if pf_complete fr then do {
            (bridge_rc, br) \<leftarrow> k2161_rgi_bridge_feed (os_boot os) (os_env os)
               (map_option (\<lambda>t. probe_bytes t fr) copied) (ps_bridge (noted os fr p1));
            Some (count_bridge bridge_rc ((noted os fr p1)\<lparr>ps_bridge := br\<rparr>)) }
          else Some (noted os fr p1));
     Some (on_capture (write_text_event fr) (on_diag (rgi_diag_rx_end seq) p)) }"
  using assms
  by (simp add: observe_transport_copy_def noted_def Let_def case_prod_unfold on_diag_def)

lemma observe_inv:
  assumes "process_inv n p" "n < 0xFFFFFE00" "env_ok (os_env os)"
  shows "\<exists>p'. observe_transport_copy os copied p = Some p' \<and> process_inv (n + 20) p' \<and> same_patches p p'"
proof -
  obtain found where f: "k2161_probe_rgi_start copied = Some found" using probe_total by blast
  define p1 where "p1 = on_capture (write_raw_packet (os_written os) copied found) p"
  have 1: "bridge_inv n (ps_bridge p1)" "same_patches p p1" "cp_raw_bytes_written (ps_capture p1) \<le> K2161_RAW_CAPTURE_LIMIT"
    using assms(1) write_raw_limit [of "ps_capture p"] by (simp_all add: p1_def process_inv_def same_patches_def)
  show ?thesis
  proof (cases found)
    case None
    then have "observe_transport_copy os copied p = Some p1" by (simp add: observe_transport_copy_def f p1_def)
    moreover have "process_inv (n + 20) p1"
      using 1 assms(1) patches_same [of p p1] bridge_inv_mono [OF 1(1)] by (simp add: process_inv_def)
    ultimately show ?thesis using 1(2) by blast
  next
    case (Some fr)
    define seq where "seq = fst (rgi_diag_rx_begin (pf_msgid fr) (w_diag (br_world (ps_bridge p))))"
    note eq = observe_found [OF f [unfolded Some] p1_def [unfolded Some] seq_def]
    define p3 where "p3 = noted os fr p1"
    have 3: "bridge_inv n (ps_bridge p3)" "same_patches p1 p3" "ps_capture p3 = ps_capture p1"
      using 1 by (simp_all add: p3_def noted_def same_patches_def on_retry_def Let_def)
    have tail: "\<exists>p'. Some (on_capture (write_text_event fr) (on_diag (rgi_diag_rx_end seq) q)) = Some p' \<and>
        process_inv (n + 20) p' \<and> same_patches p p'"
      if q: "bridge_inv (n + 20) (ps_bridge q)" "same_patches p3 q"
        "cp_raw_bytes_written (ps_capture q) = cp_raw_bytes_written (ps_capture p3)" for q
    proof -
      let ?p = "on_capture (write_text_event fr) (on_diag (rgi_diag_rx_end seq) q)"
      have s: "same_patches p ?p" using 1(2) 3(2) q(2) by (simp add: same_patches_def)
      with q 1(3) 3(3) assms(1) patches_same [of p ?p] have "process_inv (n + 20) ?p" by (simp add: process_inv_def)
      with s show ?thesis by blast
    qed
    show ?thesis
    proof (cases "pf_complete fr")
      case False
      have "same_patches p3 p3" by (simp add: same_patches_def)
      from tail [OF bridge_inv_mono [OF 3(1)] this refl] False show ?thesis by (simp add: eq p3_def)
    next
      case True
      let ?buf = "map_option (\<lambda>t. probe_bytes t fr) copied"
      from bridge_step_inv [OF 3(1) assms(2,3), of "Br_feed (os_boot os) ?buf"] obtain rc br where
        b: "k2161_rgi_bridge_feed (os_boot os) (os_env os) ?buf (ps_bridge p3) = Some (rc, br)" "bridge_inv (n + 20) br"
        by auto
      let ?q = "count_bridge rc (p3\<lparr>ps_bridge := br\<rparr>)"
      have "same_patches p3 ?q" "cp_raw_bytes_written (ps_capture ?q) = cp_raw_bytes_written (ps_capture p3)"
        "bridge_inv (n + 20) (ps_bridge ?q)"
        using b(2) count_bridge_same [where p = "p3\<lparr>ps_bridge := br\<rparr>" and rc = rc] by (simp_all add: same_patches_def)
      from tail [OF this(3,1,2)] b(1) True show ?thesis by (simp add: eq p3_def)
    qed
  qed
qed


section \<open>The other events\<close>

lemma no_start_unless_ready:
  "\<not> (ce_ready ce \<and> ce_installed ce) \<Longrightarrow> snd (k2161_send_start_route_guidance ce ctx s) = s"
  by (auto simp: k2161_send_start_route_guidance_def)

lemma begin_sent: "ss_sent (snd (retry_begin ce ctx g s)) = ss_sent s"
  by (auto simp: retry_begin_def split: prod.splits option.splits)

lemma start_call_sent:
  "\<not> (ce_ready ce \<and> ce_installed ce) \<Longrightarrow> ss_sent (snd (k2161_send_start_route_guidance ce ctx s)) = ss_sent s"
  by (simp add: no_start_unless_ready)

lemma reply_sent:
  assumes "\<not> (ce_ready ce \<and> ce_installed ce)"
  shows "ss_sent (snd (MsgReply ce rcvid s)) = ss_sent s"
proof -
  have "ss_sent (snd (retry_begin ce ctx g (on_status f (s\<lparr>ss_pending := ps\<rparr>)))) = ss_sent s" for ctx g f ps
    by (simp add: begin_sent on_status_def)
  with start_call_sent [OF assms] show ?thesis
    by (auto simp: MsgReply_def case_prod_unfold Let_def split: option.split)
qed

lemma after_sent:
  "\<not> (ce_ready ce \<and> ce_installed ce) \<Longrightarrow> ss_sent (wrapped_msg_after ce ctx ctp msg s) = ss_sent s"
  by (simp add: wrapped_msg_after_def case_prod_unfold Let_def start_call_sent)

lemma before_sent: "ss_sent (fst (wrapped_msg_before ce ctx ctp msg (s, d))) = ss_sent s"
  by (simp add: wrapped_msg_before_def reset_rgi_for_identification_def case_prod_unfold Let_def on_retry_def on_status_def)

lemma installed_fns:
  assumes "patches p" "ce_installed (with_install ow p ce)"
  shows "si_send_hook_installed (ps_install p)"
  using assms by (auto simp: patches_def with_install_def no_send_fns_def)

text \<open>A call of the send hook keeps the invariant: it sends only with the patches.\<close>

lemma send_call_patches:
  assumes "patches p" "\<not> (ce_ready (with_install ow p ce) \<and> ce_installed (with_install ow p ce)) \<Longrightarrow> ss_sent s = ss_sent (ps_send p)"
  shows "patches (p\<lparr>ps_send := s\<rparr>)"
proof (cases "ce_installed (with_install ow p ce)")
  case True
  with installed_fns [OF assms(1)] have "si_send_hook_installed (ps_install p)" by blast
  with assms(1) show ?thesis by (simp add: patches_def)
next
  case False
  with assms(2) have "ss_sent s = ss_sent (ps_send p)" by blast
  then show ?thesis by (intro patches_same [OF assms(1)]) (simp add: same_patches_def)
qed

lemma resolve_patches:
  assumes "process_inv n p"
  shows "process_inv n (resolve_driver_base m b p)"
  using assms by (auto simp: resolve_driver_base_def process_inv_def patches_def Let_def)


text \<open>The installation is tried once, and arms the send hook last.\<close>

text \<open>A process in which nothing but the identification is patched.\<close>

definition unarmed :: "process \<Rightarrow> bool" where
  "unarmed p \<longleftrightarrow> ob_driver_base (ps_obs p) \<noteq> 0 \<and> ob_ident_install_attempted (ps_obs p) \<and>
     \<not> ob_send_install_attempted (ps_obs p) \<and> \<not> si_send_hook_installed (ps_install p) \<and>
     si_fns (ps_install p) = no_send_fns \<and> ss_sent (ps_send p) = [] \<and> \<not> mt_installed (ps_table p)"

lemma install_send_inv:
  assumes "process_inv n p" "unarmed p" "ih_hook_installed (ps_ident p)"
    "ih_installed_driver_base (ps_ident p) = ob_driver_base (ps_obs p)"
  shows "process_inv n (install_send ow p)"
proof -
  let ?base = "ob_driver_base (ps_obs p)"
  obtain rc t im where m: "k2161_msgtable_try_install_base ow ?base (ps_table p) (ps_image p) = (rc, t, im)"
    by (metis prod_cases3)
  note m_ok = msgtable_result [OF m]
  define q where "q = p\<lparr>ps_table := t, ps_image := im\<rparr>"
  have q: "process_inv n q" using assms(1,2) m_ok by (simp add: process_inv_def patches_def q_def unarmed_def)
  show ?thesis
  proof (cases "rc = 1")
    case False
    with q show ?thesis by (simp add: install_send_def m q_def)
  next
    case True
    obtain rc3 si st im3 where s: "k2161_send_hook_try_install_base ow (k2161_msgtable_ready ow t im) ?base (ps_install p)
        (ss_status (ps_send p)) im = (rc3, si, st, im3)" by (metis prod_cases4)
    note s_ok = send_install_result [OF s] and s_bad = send_install_failed [OF s]
    define q3 where "q3 = q\<lparr>ps_install := si, ps_send := (ps_send q)\<lparr>ss_status := st\<rparr>, ps_image := im3\<rparr>"
    have eq: "install_send ow p = (if rc3 = 1 then on_obs (\<lambda>ob. ob\<lparr>ob_send_install_attempted := True\<rparr>) q3 else q3)"
      using True by (simp add: install_send_def m s q_def q3_def)
    have F: "ps_install q3 = si" "ps_table q3 = t" "ps_ident q3 = ps_ident p" "ss_sent (ps_send q3) = ss_sent (ps_send p)"
      "ps_obs q3 = ps_obs p" "ps_bridge q3 = ps_bridge p" "ps_capture q3 = ps_capture p"
      by (simp_all add: q3_def q_def)
    show ?thesis
    proof (cases "rc3 = 1")
      case True
      with \<open>rc = 1\<close> m_ok s_ok assms show ?thesis
        by (simp add: eq process_inv_def patches_def F unarmed_def)
    next
      case False
      with \<open>rc = 1\<close> m_ok s_bad assms show ?thesis
        by (auto simp: eq process_inv_def patches_def F unarmed_def)
    qed
  qed
qed

lemma install_inv:
  assumes "process_inv n p" "ob_driver_base (ps_obs p) \<noteq> 0"
  shows "process_inv n (install_from_callsite ow p)"
proof (cases "ob_ident_install_attempted (ps_obs p)")
  case True
  with assms show ?thesis by (simp add: install_from_callsite_def)
next
  case False
  let ?base = "ob_driver_base (ps_obs p)"
  have none: "\<not> si_send_hook_installed (ps_install p)" "si_fns (ps_install p) = no_send_fns" "ss_sent (ps_send p) = []"
    "\<not> mt_installed (ps_table p)" "\<not> ih_hook_installed (ps_ident p)" "\<not> ob_send_install_attempted (ps_obs p)"
    using assms(1) False by (auto simp: process_inv_def patches_def)
  obtain rc h st im where i: "k2161_ident_try_install_base ow ?base (ps_ident p) (ss_status (ps_send p)) (ps_image p) = (rc, h, st, im)"
    by (metis prod_cases4)
  note i_ok = ident_result [OF i]
  define q where "q = mark ''K2161_RGI_RX ident_install_from_callsite'' (on_obs (\<lambda>ob. ob\<lparr>ob_ident_install_attempted := True\<rparr>) p)"
  define q1 where "q1 = q\<lparr>ps_ident := h, ps_send := (ps_send q)\<lparr>ss_status := st\<rparr>, ps_image := im\<rparr>"
  have F: "ps_install q1 = ps_install p" "ps_table q1 = ps_table p" "ps_ident q1 = h"
    "ss_sent (ps_send q1) = ss_sent (ps_send p)" "ps_obs q1 = (ps_obs p)\<lparr>ob_ident_install_attempted := True\<rparr>"
    "ps_bridge q1 = ps_bridge p" "cp_raw_bytes_written (ps_capture q1) = cp_raw_bytes_written (ps_capture p)"
    by (simp_all add: q1_def q_def)
  have eq: "install_from_callsite ow p = (if rc = 1 then install_send ow q1 else q1)"
    using False none(6) i by (simp add: install_from_callsite_def q_def q1_def)
  have inv: "process_inv n q1" "unarmed q1"
    using none assms by (simp_all add: process_inv_def patches_def F unarmed_def)
  show ?thesis using install_send_inv [OF inv, of ow] inv i_ok by (simp add: eq F)
qed

lemma process_inv_bridge:
  "process_inv n p \<Longrightarrow> bridge_inv m br \<Longrightarrow> process_inv m (p\<lparr>ps_bridge := br\<rparr>)"
  by (simp add: process_inv_def patches_def)

lemma process_inv_send:
  assumes "process_inv n p" "\<not> (ce_ready (with_install ow p ce) \<and> ce_installed (with_install ow p ce)) \<Longrightarrow> ss_sent s = ss_sent (ps_send p)"
  shows "process_inv n (p\<lparr>ps_send := s\<rparr>)"
  using assms send_call_patches [of p ow ce s] by (simp add: process_inv_def)

lemma process_inv_mono: "process_inv n p \<Longrightarrow> n \<le> m \<Longrightarrow> process_inv m p"
  using bridge_inv_mono by (auto simp: process_inv_def)

lemma process_step_inv:
  assumes "process_inv n p" "n < 0xFFFFFE00" "event_ok e"
  shows "\<exists>p'. process_step ow e p = Some p' \<and> process_inv (n + 20) p'"
proof -
  note up = process_inv_mono [of n _ "n + 20"]
  have br: "bridge_inv n (ps_bridge p)" using assms(1) by (simp add: process_inv_def)
  show ?thesis
  proof (cases e)
    case (E_load bo handle m b)
    let ?p = "resolve_driver_base m b p"
    have "process_inv (n + 20) (?p\<lparr>ps_bridge := snd (k2161_rgi_bridge_init bo (ps_bridge ?p))\<rparr>)"
      using resolve_patches [OF assms(1), of m b] bridge_step_inv [OF _ assms(2) demo_env_ok, of "ps_bridge ?p" 0 "Br_init bo"]
      by (auto simp: process_inv_def patches_def)
    with E_load up assms(1) resolve_patches [OF assms(1), of m b] show ?thesis by (simp add: dlopen_def Let_def)
  next
    case (E_memcpy os caller copied)
    define q where "q = on_obs (\<lambda>ob. ob\<lparr>ob_rx_callsite_count := ob_rx_callsite_count ob + 1\<rparr>) p"
    define q1 where "q1 = install_from_callsite ow q"
    define q2 where "q2 = (if \<not> ob_callsite_reported (ps_obs q1)
      then mark ''K2161_RGI_RX callsite_ready'' (on_obs (\<lambda>ob. ob\<lparr>ob_callsite_reported := True\<rparr>) q1) else q1)"
    have "process_inv n q" using assms(1) by (simp add: q_def process_inv_def patches_def)
    then have "process_inv n q2" if "ob_driver_base (ps_obs p) \<noteq> 0"
      using install_inv [of n q ow] that by (simp add: q2_def q1_def q_def process_inv_def patches_def)
    moreover have "env_ok (os_env os)" using assms(3) E_memcpy by (simp add: event_ok_def)
    moreover have "after_memcpy ow os caller copied p =
        (if ob_driver_base (ps_obs p) \<noteq> 0 \<and> caller = ob_driver_base (ps_obs p) + 0x11428
         then observe_transport_copy os copied q2 else Some p)"
      by (simp only: after_memcpy_def Let_def q_def q1_def q2_def)
    ultimately show ?thesis
      using observe_inv [of n q2 os copied] assms(1,2) E_memcpy up by auto
  next
    case (E_timer ev)
    with assms(3) timer_inv [OF br, of ev] obtain br' where "bridge_timer ev (ps_bridge p) = Some br'" "bridge_inv n br'"
      by (auto simp: event_ok_def)
    with E_timer up process_inv_bridge [OF assms(1)] show ?thesis by auto
  next
    case (E_fini ev pid obs)
    with assms(3) shutdown_inv [OF br, of ev pid obs] obtain br' where
      "k2161_rgi_bridge_shutdown ev pid obs (ps_bridge p) = Some br'" "bridge_inv n br'"
      by (auto simp: event_ok_def)
    with E_fini up process_inv_bridge [OF assms(1)] show ?thesis by (auto simp: k2161_rx_observer_fini_def)
  next
    case (E_before ce ctx ctp msg)
    obtain s d where b: "wrapped_msg_before (with_install ow p ce) ctx ctp msg (ps_send p, w_diag (br_world (ps_bridge p))) = (s, d)"
      by (metis prod.exhaust)
    have "ss_sent s = ss_sent (ps_send p)"
      using before_sent [of "with_install ow p ce" ctx ctp msg "ps_send p" "w_diag (br_world (ps_bridge p))"] b by simp
    then have "process_inv n (p\<lparr>ps_send := s\<rparr>)" by (intro process_inv_send [OF assms(1)])
    then have "process_inv n (on_diag (\<lambda>_. d) (p\<lparr>ps_send := s\<rparr>))" by (simp add: process_inv_def patches_def)
    with E_before b up assms(1) show ?thesis by simp
  next
    case (E_after ce ctx ctp msg)
    have "process_inv n (p\<lparr>ps_send := wrapped_msg_after (with_install ow p ce) ctx ctp msg (ps_send p)\<rparr>)"
      by (intro process_inv_send [OF assms(1), of ow ce] after_sent)
    with E_after up assms(1) show ?thesis by simp
  next
    case (E_reply ce rcvid)
    have "process_inv n (p\<lparr>ps_send := snd (MsgReply (with_install ow p ce) rcvid (ps_send p))\<rparr>)"
      by (intro process_inv_send [OF assms(1), of ow ce] reply_sent)
    with E_reply up assms(1) show ?thesis by simp
  next
    case (E_builder rc blob_rc)
    with up assms(1) show ?thesis by (simp add: process_inv_def patches_def)
  next
    case (E_worker g now)
    with up assms(1) show ?thesis by (simp add: process_inv_def patches_def on_retry_def)
  qed
qed

lemma process_run_inv:
  assumes "process_inv n p" "list_all event_ok es" "n + 20 * length es < 0xFFFFFE00"
  shows "\<exists>p'. process_run ow es p = Some p' \<and> process_inv (n + 20 * length es) p'"
  using assms
proof (induction es arbitrary: n p)
  case (Cons e es)
  then have "n < 0xFFFFFE00" "event_ok e" by simp_all
  from process_step_inv [OF Cons.prems(1) this, of ow] obtain p1 where
    1: "process_step ow e p = Some p1" "process_inv (n + 20) p1" by blast
  have "list_all event_ok es" "n + 20 + 20 * length es < 0xFFFFFE00" using Cons.prems(2,3) by simp_all
  from Cons.IH [OF 1(2) this] 1(1) show ?case by (simp add: ac_simps)
qed simp

lemma zero_process_inv: "process_inv n (k2161_rx_observer_init raw text m b (zero_process im))"
  unfolding k2161_rx_observer_init_def Let_def
  by (rule resolve_patches)
    (simp add: process_inv_def patches_def zero_process_def zero_bridge_inv zero_capture_def zero_send_def
      zero_observer_def zero_send_install_def zero_msg_table_def zero_ident_hook_def)

end
