(* ===== verification/Driver_Demo.thy ===== *)
theory Driver_Demo
  imports Observer
begin

text \<open>
  A closed run of the process: the library is loaded next to a stock driver, patches it at the first
  packet, and answers a GPS request by the request 0x5200.
\<close>

definition demo_own :: own where
  "demo_own = \<lparr>ow_gps_builder = 1, ow_iap2_msg = 2, ow_iap2_close = 3, ow_group_name = 4, ow_messages = 5\<rparr>"

text \<open>The words of the stock driver that the patches look at, for a driver at the address.\<close>

definition stock_image :: "ptr \<Rightarrow> image" where
  "stock_image base = \<lparr>im_word = (\<lambda>_. 0)(
     base + K2161_IDENT_ID_OFFSET := 0x16, base + K2161_IDENT_BUILDER_OFFSET := base + K2161_GPS_BUILDER_OFFSET,
     base + 0xab410 := base + K2161_GROUP50_NAME_OFFSET, base + 0xab414 := base + K2161_GROUP50_MESSAGES_OFFSET, base + 0xab418 := 4,
     base + 0xab530 := base + K2161_GROUP68_NAME_OFFSET, base + 0xab534 := base + K2161_GROUP68_MESSAGES_OFFSET, base + 0xab538 := 4,
     base + 0xac4dc := base + K2161_NP_START_NAME_OFFSET, base + 0xac4e0 := 1, base + 0xac4e4 := base + K2161_NP_START_PARAMS_OFFSET,
     base + 0xac4e8 := base + K2161_NP_UPDATE_NAME_OFFSET, base + 0xac4ec := 2, base + 0xac4f0 := base + K2161_NP_UPDATE_PARAMS_OFFSET,
     base + IAP2_MSG_SLOT_OFFSET := base + IAP2_MSG_OFFSET, base + IAP2_CLOSE_SLOT_OFFSET := base + IAP2_CLOSE_OFFSET),
     im_takes = (\<lambda>_. True)\<rparr>"

definition demo_stock :: stock where
  "demo_stock = \<lparr>sk_pkt = 9, sk_p0 = 0, sk_p1 = 0, sk_p2 = 0, sk_p3 = 0, sk_send = 0\<rparr>"

definition demo_call :: "u64 \<Rightarrow> call_env" where
  "demo_call now = \<lparr>ce_ready = False, ce_installed = False, ce_now = now, ce_created = True, ce_stock = demo_stock,
     ce_reply = Some 0\<rparr>"

definition demo_boot :: boot where
  "demo_boot = \<lparr>bo_pid = 1, bo_connector = True, bo_writer = True, bo_timer = True\<rparr>"

lemma stock_verifies: "msgtable_verify base (stock_image base)"
  by (simp add: msgtable_verify_def stock_image_def slot_is_def)


text \<open>The driver is loaded at 0x20000 and receives a packet; then a GPS request is answered.\<close>

definition demo_events :: "event list" where
  "demo_events = [E_load demo_boot True 0x4614c 0x3d0d8,
     E_memcpy \<lparr>os_written = -1, os_now = 5, os_boot = demo_boot, os_env = demo_env 5\<rparr> 0x31428 (Some []),
     E_before (demo_call 6) 7 (Some 1) (Some 0x2700), E_reply (demo_call 6) 1]"

lemma demo_loaded:
  "process_step ow (E_load demo_boot True 0x4614c 0x3d0d8) (k2161_rx_observer_init True True 0 0 (zero_process im)) = Some p \<Longrightarrow>
    ob_driver_base (ps_obs p) = 0x20000 \<and> ps_ident p = zero_ident_hook \<and> ps_table p = zero_msg_table \<and>
    ps_install p = zero_send_install \<and> ps_send p = zero_send \<and> ps_image p = im \<and>
    \<not> ob_ident_install_attempted (ps_obs p) \<and> \<not> ob_send_install_attempted (ps_obs p)"
  by (auto simp: dlopen_def resolve_driver_base_def k2161_rx_observer_init_def zero_process_def zero_observer_def Let_def)

lemma stock_ident:
  "base \<noteq> 0 \<Longrightarrow> k2161_ident_try_install_base demo_own base zero_ident_hook st (stock_image base) =
     (1, \<lparr>ih_original_gps_builder = base + K2161_GPS_BUILDER_OFFSET, ih_gps_builder_slot = base + K2161_IDENT_BUILDER_OFFSET,
        ih_packet_addparam_blob = base + K2161_ADDPARAM_BLOB_OFFSET, ih_installed_driver_base = base, ih_hook_installed = True\<rparr>,
      k2161_status_ident_hook_ready st, put_word (base + K2161_IDENT_BUILDER_OFFSET) 1 (stock_image base))"
  by (simp add: k2161_ident_try_install_base_def zero_ident_hook_def put_word_def demo_own_def stock_image_def Let_def)

lemma stock_verifies': "msgtable_verify base (put_word (base + K2161_IDENT_BUILDER_OFFSET) 1 (stock_image base))"
  by (simp add: msgtable_verify_def stock_image_def slot_is_def put_word_def)


lemma msgtable_installs:
  assumes "base \<noteq> 0" "\<not> mt_installed t" "msgtable_verify base im" "\<And>a. im_takes im a"
  shows "k2161_msgtable_try_install_base ow base t im = (1, t\<lparr>mt_installed_slot :=
      group_at (base + K2161_CTRL_MSG_TABLE_OFFSET) K2161_RGI_GROUP, mt_installed_driver_base := base, mt_installed := True\<rparr>,
    put_word (group_at (base + K2161_CTRL_MSG_TABLE_OFFSET) K2161_RGI_GROUP + 8) K2161_RGI_GROUP_COUNT
      (put_word (group_at (base + K2161_CTRL_MSG_TABLE_OFFSET) K2161_RGI_GROUP + 4) (ow_messages ow)
        (put_word (group_at (base + K2161_CTRL_MSG_TABLE_OFFSET) K2161_RGI_GROUP) (ow_group_name ow) im)))"
  using assms by (simp add: k2161_msgtable_try_install_base_def Let_def slot_is_def put_word_def)

lemma send_installs:
  assumes "base \<noteq> 0" "\<not> si_send_hook_installed h" "\<And>a. im_takes im a"
    "im_word im (base + IAP2_MSG_SLOT_OFFSET) = base + IAP2_MSG_OFFSET" "im_word im (base + IAP2_CLOSE_SLOT_OFFSET) = base + IAP2_CLOSE_OFFSET"
    "ow_iap2_msg ow \<noteq> base + IAP2_MSG_OFFSET"
  shows "k2161_send_hook_try_install_base ow True base h st im =
    (1, h\<lparr>si_fns := driver_send_fns base, si_installed_driver_base := base, si_send_hook_installed := True\<rparr>,
     k2161_status_send_hooks_ready True True st,
     put_word (base + IAP2_CLOSE_SLOT_OFFSET) (ow_iap2_close ow) (put_word (base + IAP2_MSG_SLOT_OFFSET) (ow_iap2_msg ow) im))"
  using assms by (simp add: k2161_send_hook_try_install_base_def Let_def put_word_def)

text \<open>The installation on the stock image.\<close>

lemma stock_installs:
  assumes "ob_driver_base (ps_obs p) = base" "20 < base" "\<not> ob_ident_install_attempted (ps_obs p)"
    "\<not> ob_send_install_attempted (ps_obs p)" "ps_ident p = zero_ident_hook" "ps_table p = zero_msg_table"
    "ps_install p = zero_send_install" "ps_image p = stock_image base"
  shows "\<exists>q. install_from_callsite demo_own p = q \<and> ss_retry (ps_send q) = ss_retry (ps_send p) \<and>
    ss_pending (ps_send q) = ss_pending (ps_send p) \<and> ob_driver_base (ps_obs q) = base \<and>
    ss_sent (ps_send q) = ss_sent (ps_send p) \<and>
    si_fns (ps_install q) = driver_send_fns base \<and> k2161_msgtable_ready demo_own (ps_table q) (ps_image q) \<and>
    im_word (ps_image q) (base + IAP2_MSG_SLOT_OFFSET) = ow_iap2_msg demo_own"
proof -
  define q where "q = mark ''K2161_RGI_RX ident_install_from_callsite'' (on_obs (\<lambda>ob. ob\<lparr>ob_ident_install_attempted := True\<rparr>) p)"
  let ?st = "ss_status (ps_send p)"
  let ?im = "put_word (base + K2161_IDENT_BUILDER_OFFSET) 1 (stock_image base)"
  have b: "base \<noteq> 0" using assms(2) by simp
  obtain h where i: "k2161_ident_try_install_base demo_own base zero_ident_hook ?st (stock_image base) =
      (1, h, k2161_status_ident_hook_ready ?st, ?im)" using stock_ident [OF b] by blast
  define q1 where "q1 = q\<lparr>ps_ident := h, ps_send := (ps_send q)\<lparr>ss_status := k2161_status_ident_hook_ready ?st\<rparr>, ps_image := ?im\<rparr>"
  have step1: "install_from_callsite demo_own p = install_send demo_own q1"
    using assms i by (simp add: install_from_callsite_def q_def q1_def)
  have takes: "im_takes ?im a" for a by (simp add: put_word_takes stock_image_def)
  define im2 where "im2 = put_word (group_at (base + K2161_CTRL_MSG_TABLE_OFFSET) K2161_RGI_GROUP + 8) K2161_RGI_GROUP_COUNT
      (put_word (group_at (base + K2161_CTRL_MSG_TABLE_OFFSET) K2161_RGI_GROUP + 4) (ow_messages demo_own)
        (put_word (group_at (base + K2161_CTRL_MSG_TABLE_OFFSET) K2161_RGI_GROUP) (ow_group_name demo_own) ?im))"
  define t where "t = \<lparr>mt_installed_slot = group_at (base + K2161_CTRL_MSG_TABLE_OFFSET) K2161_RGI_GROUP,
    mt_installed_driver_base = base, mt_installed = True\<rparr>"
  have m: "k2161_msgtable_try_install_base demo_own base zero_msg_table ?im = (1, t, im2)"
    using msgtable_installs [OF b _ stock_verifies' takes, of zero_msg_table demo_own]
    by (simp add: zero_msg_table_def im2_def t_def)
  have ready: "k2161_msgtable_ready demo_own t im2" using msgtable_result [OF m] by simp
  have w: "im_word im2 (base + IAP2_MSG_SLOT_OFFSET) = base + IAP2_MSG_OFFSET" "im_word im2 (base + IAP2_CLOSE_SLOT_OFFSET) = base + IAP2_CLOSE_OFFSET"
    by (simp_all add: im2_def put_word_def stock_image_def)
  have takes2: "im_takes im2 a" for a by (simp add: im2_def put_word_takes stock_image_def)
  define im3 where "im3 = put_word (base + IAP2_CLOSE_SLOT_OFFSET) 3 (put_word (base + IAP2_MSG_SLOT_OFFSET) 2 im2)"
  have s: "k2161_send_hook_try_install_base demo_own True base zero_send_install st im2 =
      (1, zero_send_install\<lparr>si_fns := driver_send_fns base, si_installed_driver_base := base, si_send_hook_installed := True\<rparr>,
       k2161_status_send_hooks_ready True True st, im3)" for st
    using send_installs [OF b _ takes2 w, of zero_send_install demo_own st]
    by (simp add: demo_own_def zero_send_install_def im3_def)
  define q3 where "q3 = q1\<lparr>ps_table := t, ps_image := im3,
    ps_install := zero_send_install\<lparr>si_fns := driver_send_fns base, si_installed_driver_base := base, si_send_hook_installed := True\<rparr>,
    ps_send := (ps_send q1)\<lparr>ss_status := k2161_status_send_hooks_ready True True (k2161_status_ident_hook_ready ?st)\<rparr>\<rparr>"
  have step2: "install_send demo_own q1 = on_obs (\<lambda>ob. ob\<lparr>ob_send_install_attempted := True\<rparr>) q3"
    using m ready s assms by (simp add: install_send_def q1_def q_def q3_def)
  have "k2161_msgtable_ready demo_own t im3"
    using ready by (simp add: im3_def k2161_msgtable_ready_def t_def slot_is_def put_word_other)
  then show ?thesis
    unfolding step1 step2
    by (simp add: q3_def q1_def q_def assms im3_def put_word_def takes2 demo_own_def)
qed


text \<open>A GPS request and its answer, after the installation.\<close>

lemma demo_request:
  assumes "ss_retry (ps_send q) = zero_retry" "ss_pending (ps_send q) = replicate 8 zero_pending"
    "si_fns (ps_install q) = driver_send_fns (ob_driver_base (ps_obs q))" "k2161_msgtable_ready ow (ps_table q) (ps_image q)"
    "msg_wrapped ow q" "0 < ob_driver_base (ps_obs q)"
  shows "\<exists>p. process_run ow [E_before (demo_call 6) 7 (Some 1) (Some 0x2700), E_reply (demo_call 6) 1] q = Some p \<and>
    ss_sent (ps_send p) = ss_sent (ps_send q) @ [(7, 0x5200, start_message_params)]"
proof -
  define q1 where "q1 = ps_send q"
  have call: "with_install ow x (demo_call 6) = (demo_call 6)\<lparr>ce_ready := True, ce_installed := True\<rparr>"
    if "ps_table x = ps_table q" "ps_image x = ps_image q" "ps_install x = ps_install q" for x
    using assms(3,4,6) that by (simp add: with_install_def driver_send_fns_def)
  define ce where "ce = (demo_call 6)\<lparr>ce_ready := True, ce_installed := True\<rparr>"
  have pend: "ss_pending (ps_send q) = zero_pending # replicate 7 zero_pending"
    using assms(2) by (simp add: eval_nat_numeral)
  have same: "on_retry (\<lambda>r. snd (retry_soft_rearm_if_stale now r)) (ps_send q) = ps_send q" for now
    by (simp add: on_retry_def assms(1) retry_soft_rearm_if_stale_def) (simp add: zero_retry_def assms(1) [symmetric])
  have before: "wrapped_msg_before ce 7 (Some 1) (Some 0x2700) (ps_send q, d) = (on_status (k2161_status_cmd2700 True)
      ((ps_send q)\<lparr>ss_pending := \<lparr>pr_active = True, pr_rcvid = 1, pr_ctx = 7, pr_generation = 1\<rparr> # replicate 7 zero_pending\<rparr>), d)" for d
    by (simp add: pend wrapped_msg_before_def same retry_needs_trigger_def assms(1))
      (simp add: zero_retry_def msg_rcvid_def zero_pending_def pend assms(1) retry_needs_trigger_def Let_def)
  show ?thesis
    using assms(1,5)
    by (simp add: call before ce_def [symmetric])
      (simp add: MsgReply_def ce_def demo_call_def demo_stock_def on_status_def Let_def retry_begin_def
        retry_begin_locked_def zero_retry_def k2161_send_start_route_guidance_def send_allowed_def send_packet_def worker_created_def)
qed


lemma resolve_same: "ob_driver_base (ps_obs p) \<noteq> 0 \<Longrightarrow> resolve_driver_base m b p = p"
  by (simp add: resolve_driver_base_def)

lemma demo_packet:
  "observe_transport_copy os (Some []) p = Some (on_capture (write_raw_packet (os_written os) (Some []) None) p)"
  by (simp add: observe_transport_copy_def k2161_probe_rgi_start_def)

lemma demo_run:
  "\<exists>p. process_run demo_own demo_events (k2161_rx_observer_init True True 0 0 (zero_process (stock_image 0x20000))) = Some p \<and>
    ss_sent (ps_send p) = [(7, 0x5200, start_message_params)]"
proof -
  let ?p0 = "k2161_rx_observer_init True True 0 0 (zero_process (stock_image 0x20000))"
  obtain p1 where 1: "process_step demo_own (E_load demo_boot True 0x4614c 0x3d0d8) ?p0 = Some p1" by simp
  note l = demo_loaded [OF 1]
  define q where "q = on_obs (\<lambda>ob. ob\<lparr>ob_rx_callsite_count := ob_rx_callsite_count ob + 1\<rparr>) p1"
  obtain q1 where q1: "install_from_callsite demo_own q = q1" "ss_retry (ps_send q1) = ss_retry (ps_send q)"
    "ss_pending (ps_send q1) = ss_pending (ps_send q)" "ob_driver_base (ps_obs q1) = 0x20000" "ss_sent (ps_send q1) = ss_sent (ps_send q)"
    "si_fns (ps_install q1) = driver_send_fns 0x20000" "k2161_msgtable_ready demo_own (ps_table q1) (ps_image q1)"
    "im_word (ps_image q1) (0x20000 + IAP2_MSG_SLOT_OFFSET) = ow_iap2_msg demo_own"
    using stock_installs [where p = q and base = "0x20000"] l by (auto simp: q_def)
  define q2 where "q2 = on_capture (write_raw_packet (-1) (Some []) None) (if \<not> ob_callsite_reported (ps_obs q1)
      then mark ''K2161_RGI_RX callsite_ready'' (on_obs (\<lambda>ob. ob\<lparr>ob_callsite_reported := True\<rparr>) q1) else q1)"
  have 2: "process_step demo_own (E_memcpy \<lparr>os_written = -1, os_now = 5, os_boot = demo_boot, os_env = demo_env 5\<rparr> 0x31428 (Some [])) p1 = Some q2"
    using l q1(1) by (simp add: after_memcpy_def demo_packet q_def q2_def)
  have F: "ps_send q2 = ps_send q1" "ps_install q2 = ps_install q1" "ps_table q2 = ps_table q1" "ps_image q2 = ps_image q1"
    "ob_driver_base (ps_obs q2) = ob_driver_base (ps_obs q1)"
    by (simp_all add: q2_def)
  have z: "ps_send q = zero_send" using l by (simp add: q_def)
  have "\<exists>p. process_run demo_own [E_before (demo_call 6) 7 (Some 1) (Some 0x2700), E_reply (demo_call 6) 1] q2 = Some p \<and>
      ss_sent (ps_send p) = ss_sent (ps_send q2) @ [(7, 0x5200, start_message_params)]"
    by (rule demo_request) (simp_all add: F q1 q1(8) [simplified] z msg_wrapped_def, simp_all add: zero_send_def)
  then obtain p where 3: "process_run demo_own [E_before (demo_call 6) 7 (Some 1) (Some 0x2700), E_reply (demo_call 6) 1] q2 = Some p"
    "ss_sent (ps_send p) = ss_sent (ps_send q2) @ [(7, 0x5200, start_message_params)]" by blast
  have "process_run demo_own demo_events ?p0 = Some p"
    unfolding demo_events_def using 1 2 3(1) by simp
  moreover have "ss_sent (ps_send p) = [(7, 0x5200, start_message_params)]"
    using 3(2) by (simp add: F q1 z) (simp add: zero_send_def)
  ultimately show ?thesis by blast
qed


section \<open>A run of the threads of the send hook\<close>

text \<open>A GPS request is tracked and answered, and the first attempt is begun; its worker is not created yet.\<close>

definition begun_ops :: "send_op list" where
  "begun_ops = [O_trigger 7 1, O_track 0, O_match 1, O_begin 0 True 1000]"

text \<open>The worker is created and the first message sent.\<close>

definition first_ops :: "send_op list" where
  "first_ops = begun_ops @ [O_created 0 True, O_check 0, O_packet demo_stock]"

lemma begun_view:
  "map_option (\<lambda>s. (rt_enabled (the_retry s), rt_generation (the_retry s), se_spawns s, se_lock s, se_claims s)) (session_run begun_ops session_init) =
    Some (True, 1, [1], None, [(1, 1, 1000)])"
  by code_simp

lemma first_view:
  "map_option (\<lambda>s. (the_retry s, ss_workers (se_state s), ss_sent (se_state s), se_lock s, se_calls s, se_clock s, se_claims s))
      (session_run first_ops session_init) =
    Some (\<lparr>rt_attempts = 1, rt_last_5200 = 1000, rt_last_rx = 0, rt_got = False, rt_ctx = 7, rt_need = False,
      rt_enabled = True, rt_running = True, rt_generation = 1, rt_soft = 0\<rparr>, [1], [(7, 0x5200, start_message_params)],
      None, [], 1000, [(1, 1, 1000)])"
  by code_simp

lemma begun_session:
  obtains s where "session_reach 4 s" "rt_enabled (the_retry s)" "rt_generation (the_retry s) = 1" "se_spawns s = [1]"
    "se_claims s = [(1, 1, 1000)]" "se_lock s = None"
proof -
  from begun_view obtain s where s: "session_run begun_ops session_init = Some s"
    "rt_enabled (the_retry s)" "rt_generation (the_retry s) = 1" "se_spawns s = [1]" "se_claims s = [(1, 1, 1000)]" "se_lock s = None"
    by auto
  from session_run_reach [OF session_reach.start s(1)] s(2-) show ?thesis by (intro that) (simp_all add: begun_ops_def eval_nat_numeral)
qed

lemma first_session:
  obtains s where "session_reach 7 s" "the_retry s = \<lparr>rt_attempts = 1, rt_last_5200 = 1000, rt_last_rx = 0, rt_got = False,
      rt_ctx = 7, rt_need = False, rt_enabled = True, rt_running = True, rt_generation = 1, rt_soft = 0\<rparr>"
    "ss_workers (se_state s) = [1]" "ss_sent (se_state s) = [(7, 0x5200, start_message_params)]" "se_lock s = None"
    "se_calls s = []" "se_clock s = 1000" "se_claims s = [(1, 1, 1000)]"
proof -
  from first_view obtain s where s: "session_run first_ops session_init = Some s"
    "the_retry s = \<lparr>rt_attempts = 1, rt_last_5200 = 1000, rt_last_rx = 0, rt_got = False,
      rt_ctx = 7, rt_need = False, rt_enabled = True, rt_running = True, rt_generation = 1, rt_soft = 0\<rparr>"
    "ss_workers (se_state s) = [1]" "ss_sent (se_state s) = [(7, 0x5200, start_message_params)]" "se_lock s = None"
    "se_calls s = []" "se_clock s = 1000" "se_claims s = [(1, 1, 1000)]" by auto
  from session_run_reach [OF session_reach.start s(1)] s(2-) show ?thesis
    by (intro that) (simp_all add: first_ops_def begun_ops_def eval_nat_numeral)
qed

end
