(* ===== verification/Bus_Wire.thy ===== *)
theory Bus_Wire
  imports Bus_Props
begin

text \<open>
  native/framework/bus.c, the socket side: write_all and send_frame over a script of the
  results of send(2), read_all and read_frame over a script of the results of recv(2) and the
  byte stream of the peer. A socket call that never returns is the end of its script, and the
  result is then None.
\<close>

section \<open>Writing\<close>

text \<open>The result of one send call: a count, or -1 with EINTR or another error.\<close>

datatype send_res = SentBytes nat | SendEINTR | SendFailed

text \<open>
  The results are the return code, the bytes that went out and the rest of the script. send
  reports at most the bytes it was given.
\<close>

fun write_all :: "send_res list \<Rightarrow> bytes \<Rightarrow> (int \<times> bytes \<times> send_res list) option" where
  "write_all rs [] = Some (0, [], rs)"
| "write_all [] (b # p) = None"
| "write_all (SendEINTR # rs) (b # p) = write_all rs (b # p)"
| "write_all (SendFailed # rs) (b # p) = Some (-1, [], rs)"
| "write_all (SentBytes n # rs) (b # p) =
     (if n = 0 then Some (-1, [], rs)
      else let k = min n (length (b # p)) in do {
        (rc, out, rs') \<leftarrow> write_all rs (drop k (b # p));
        Some (rc, take k (b # p) @ out, rs') })"

definition frame_header :: "frame \<Rightarrow> bytes" where
  "frame_header f =
     write_be32 BUS_MAGIC @ write_be32 (fm_seq f) @ write_be16 (fm_type f) @
     [fm_flags f, 0] @ write_be32 (fm_len f)"

definition send_frame :: "send_res list \<Rightarrow> frame \<Rightarrow> (int \<times> bytes \<times> send_res list) option" where
  "send_frame rs f = do {
     (rc, out, rs) \<leftarrow> write_all rs (frame_header f);
     if rc \<noteq> 0 then Some (-1, out, rs)
     else (case fm_payload f of
         Some p \<Rightarrow> if fm_len f > 0 then do {
             (rc, out2, rs) \<leftarrow> write_all rs (take (unat (fm_len f)) p);
             Some (if rc \<noteq> 0 then -1 else 0, out @ out2, rs) }
           else Some (0, out, rs)
       | None \<Rightarrow> Some (0, out, rs)) }"

text \<open>The bytes of a whole frame on the wire.\<close>

definition frame_wire :: "frame \<Rightarrow> bytes" where
  "frame_wire f = frame_header f @ (case fm_payload f of None \<Rightarrow> [] | Some p \<Rightarrow> p)"

lemma length_frame_header [simp]: "length (frame_header f) = 16"
  by (simp add: frame_header_def)

lemma write_all_prefix:
  "write_all rs p = Some (rc, out, rs') \<Longrightarrow>
   (rc = 0 \<and> out = p) \<or> (rc = -1 \<and> (\<exists>q. q \<noteq> [] \<and> p = out @ q))"
proof (induction rs p arbitrary: out rule: write_all.induct)
  case (5 n rs b p)
  show ?case
  proof (cases "n = 0")
    case True
    with "5.prems" show ?thesis by auto
  next
    case False
    let ?k = "min n (length (b # p))"
    from "5.prems" False obtain o2 where
      o: "write_all rs (drop ?k (b # p)) = Some (rc, o2, rs')" "out = take ?k (b # p) @ o2"
      by (auto simp: Let_def bind_eq_Some_conv simp del: drop_Cons take_Cons)
    from "5.IH" [OF False refl o(1)] o(2) show ?thesis
      by (metis append.assoc append_take_drop_id)
  qed
qed auto

lemma send_frame_ok:
  assumes f: "frame_ok f" and s: "send_frame rs f = Some (rc, out, rs')"
  shows "(rc = 0 \<and> out = frame_wire f) \<or> (rc = -1 \<and> (\<exists>q. q \<noteq> [] \<and> frame_wire f = out @ q))"
proof -
  from s obtain r1 o1 rs1 where 1: "write_all rs (frame_header f) = Some (r1, o1, rs1)"
    by (auto simp: send_frame_def bind_eq_Some_conv)
  from write_all_prefix [OF 1] consider (ok) "r1 = 0" "o1 = frame_header f"
    | (err) q where "r1 = -1" "q \<noteq> []" "frame_header f = o1 @ q" by blast
  then show ?thesis
  proof cases
    case err
    with s 1 show ?thesis by (auto simp: send_frame_def frame_wire_def)
  next
    case ok
    show ?thesis
    proof (cases "fm_len f = 0")
      case True
      with f s 1 ok show ?thesis by (auto simp: send_frame_def frame_wire_def frame_ok_def)
    next
      case False
      with f obtain p where p: "fm_payload f = Some p" "length p = unat (fm_len f)"
        by (auto simp: frame_ok_def)
      with s 1 ok False obtain r2 o2 where
        2: "write_all rs1 p = Some (r2, o2, rs')" "rc = (if r2 \<noteq> 0 then -1 else 0)" "out = o1 @ o2"
        by (auto simp: send_frame_def word_gt_0 bind_eq_Some_conv)
      from write_all_prefix [OF 2(1)] 2(2,3) ok p show ?thesis by (auto simp: frame_wire_def)
    qed
  qed
qed

text \<open>A frame of a slot whose copy failed is announced with a length but sent without its payload.\<close>

lemma send_frame_torn:
  assumes "fm_payload f = None" "send_frame rs f = Some (0, out, rs')"
  shows "out = frame_header f"
proof -
  from assms obtain r1 where 1: "write_all rs (frame_header f) = Some (r1, out, rs')" "r1 = 0"
    by (auto simp: send_frame_def bind_eq_Some_conv split: if_splits)
  with write_all_prefix [OF 1(1)] show ?thesis by auto
qed

section \<open>Reading\<close>

datatype recv_res = RecvBytes nat | RecvEINTR | RecvFailed

text \<open>
  read_all rs st n reads n bytes of the stream st: the return code, the bytes in the buffer, and
  the rest of script and stream. RecvBytes 0 is the end of the connection.
\<close>

fun read_all :: "recv_res list \<Rightarrow> bytes \<Rightarrow> nat \<Rightarrow> (int \<times> bytes \<times> recv_res list \<times> bytes) option" where
  "read_all rs st 0 = Some (0, [], rs, st)"
| "read_all [] st (Suc n) = None"
| "read_all (RecvEINTR # rs) st (Suc n) = read_all rs st (Suc n)"
| "read_all (RecvFailed # rs) st (Suc n) = Some (-1, [], rs, st)"
| "read_all (RecvBytes m # rs) st (Suc n) =
     (if m = 0 then Some (-1, [], rs, st)
      else let k = min m (Suc n) in
        if length st < k then None
        else do {
          (rc, buf, rs', st') \<leftarrow> read_all rs (drop k st) (Suc n - k);
          Some (rc, take k st @ buf, rs', st') })"

text \<open>What one inbound frame makes the connector do.\<close>

datatype rx =
    RxDrop
  | RxSync
  | RxCall nat "nat option" u16 u8 "bytes option" u32
  | RxIgnored

definition read_frame :: "bool \<Rightarrow> recv_res list \<Rightarrow> bytes \<Rightarrow> bus \<Rightarrow> (rx \<times> recv_res list \<times> bytes) option" where
  "read_frame mallocd rs st b = do {
     (rc, hdr, rs, st) \<leftarrow> read_all rs st 16;
     if rc \<noteq> 0 then Some (RxDrop, rs, st)
     else do {
       magic \<leftarrow> read_be32 hdr 0;
       if magic \<noteq> BUS_MAGIC then Some (RxDrop, rs, st)
       else do {
         type \<leftarrow> read_be16 hdr 8;
         flags \<leftarrow> rd8 hdr 10;
         len \<leftarrow> read_be32 hdr 12;
         if len > BUS_MAX_PAYLOAD then Some (RxDrop, rs, st)
         else do {
           (rc, payload, rs, st) \<leftarrow>
             (if len > 0 then
                if \<not> mallocd then Some (-1, None, rs, st)
                else do { (rc, p, rs, st) \<leftarrow> read_all rs st (unat len); Some (rc, Some p, rs, st) }
              else Some (0, None, rs, st));
           if rc \<noteq> 0 then Some (RxDrop, rs, st)
           else if type = CMD_SYNC_REQ then Some (RxSync, rs, st)
           else (case slot_for type of
               None \<Rightarrow> Some (RxIgnored, rs, st)
             | Some i \<Rightarrow> (case ts_handler (b_types b i) of
                 None \<Rightarrow> Some (RxIgnored, rs, st)
               | Some h \<Rightarrow> Some (RxCall h (ts_ctx (b_types b i)) type flags payload len, rs, st))) } } } }"

lemma read_all_take:
  "read_all rs st n = Some (rc, buf, rs', st') \<Longrightarrow>
   rc = -1 \<or> (rc = 0 \<and> n \<le> length st \<and> buf = take n st \<and> st' = drop n st)"
proof (induction rs st n arbitrary: buf rule: read_all.induct)
  case (5 m rs st n)
  show ?case
  proof (cases "m = 0")
    case True
    with "5.prems" show ?thesis by simp
  next
    case False
    let ?k = "min m (Suc n)"
    from "5.prems" False obtain b2 where
      len: "\<not> length st < ?k" and
      b2: "read_all rs (drop ?k st) (Suc n - ?k) = Some (rc, b2, rs', st')" "buf = take ?k st @ b2"
      by (auto simp: Let_def bind_eq_Some_conv split: if_splits)
    from "5.IH" [OF False refl len b2(1)] show ?thesis
    proof
      assume *: "rc = 0 \<and> Suc n - ?k \<le> length (drop ?k st) \<and>
          b2 = take (Suc n - ?k) (drop ?k st) \<and> st' = drop (Suc n - ?k) (drop ?k st)"
      have "?k + (Suc n - ?k) = Suc n" by simp
      with * len b2(2) show ?thesis
        by (metis add.commute drop_drop length_drop le_diff_conv2 linorder_not_less take_add)
    qed simp
  qed
qed auto

text \<open>No call fails and the peer does not close.\<close>

definition link_good :: "recv_res list \<Rightarrow> bool" where
  "link_good rs \<longleftrightarrow> RecvFailed \<notin> set rs \<and> RecvBytes 0 \<notin> set rs"

lemma read_all_good:
  "read_all rs st n = Some (rc, buf, rs', st') \<Longrightarrow> link_good rs \<Longrightarrow> rc = 0 \<and> link_good rs'"
proof (induction rs st n arbitrary: buf rule: read_all.induct)
  case (5 m rs st n)
  then have m: "m \<noteq> 0" "link_good rs" by (auto simp: link_good_def)
  with "5.prems" obtain b2 where
    "read_all rs (drop (min m (Suc n)) st) (Suc n - min m (Suc n)) = Some (rc, b2, rs', st')"
    by (auto simp: Let_def bind_eq_Some_conv split: if_splits)
  from "5.IH" [OF m(1) refl _ this m(2)] "5.prems" m(1) show ?case
    by (auto simp: Let_def split: if_splits)
qed (auto simp: link_good_def)

text \<open>What a receiver of a frame of type t does with it.\<close>

definition rx_of :: "bus \<Rightarrow> frame \<Rightarrow> rx" where
  "rx_of b f =
     (if fm_type f = CMD_SYNC_REQ then RxSync
      else case slot_for (fm_type f) of None \<Rightarrow> RxIgnored
      | Some i \<Rightarrow> (case ts_handler (b_types b i) of None \<Rightarrow> RxIgnored
         | Some h \<Rightarrow> RxCall h (ts_ctx (b_types b i)) (fm_type f) (fm_flags f) (fm_payload f) (fm_len f)))"

lemma frame_header_fields:
  "read_be32 (frame_header f) 0 = Some BUS_MAGIC"
  "read_be16 (frame_header f) 8 = Some (fm_type f)"
  "rd8 (frame_header f) 10 = Some (fm_flags f)"
  "read_be32 (frame_header f) 12 = Some (fm_len f)"
proof -
  let ?t = "[fm_flags f, 0] @ write_be32 (fm_len f)"
  show "read_be32 (frame_header f) 0 = Some BUS_MAGIC"
    using read_write_be32 [of "[]" BUS_MAGIC] by (simp add: frame_header_def)
  show "read_be16 (frame_header f) 8 = Some (fm_type f)"
    using read_write_be16 [of "write_be32 BUS_MAGIC @ write_be32 (fm_seq f)" "fm_type f" ?t]
    by (simp add: frame_header_def)
  show "rd8 (frame_header f) 10 = Some (fm_flags f)"
    by (simp add: frame_header_def rd8_def nth_append)
  show "read_be32 (frame_header f) 12 = Some (fm_len f)"
    using read_write_be32 [of "write_be32 BUS_MAGIC @ write_be32 (fm_seq f) @ write_be16 (fm_type f) @ [fm_flags f, 0]"
        "fm_len f" "[]"]
    by (simp add: frame_header_def)
qed

lemma read_frame_wire:
  assumes f: "frame_ok f" and r: "read_frame True rs (frame_wire f @ rest) b = Some (r, rs', st')"
  shows "(r = RxDrop \<and> \<not> link_good rs) \<or> (r = rx_of b f \<and> st' = rest)"
proof -
  from r obtain rc hdr rs1 st1 where h: "read_all rs (frame_wire f @ rest) 16 = Some (rc, hdr, rs1, st1)"
    by (auto simp: read_frame_def bind_eq_Some_conv)
  show ?thesis
  proof (cases "rc = 0")
    case False
    with r h read_all_good [OF h] show ?thesis by (auto simp: read_frame_def)
  next
    case True
    with read_all_take [OF h] have hs: "hdr = frame_header f"
        "st1 = (case fm_payload f of None \<Rightarrow> [] | Some p \<Rightarrow> p) @ rest"
      by (auto simp: frame_wire_def)
    have len: "\<not> fm_len f > BUS_MAX_PAYLOAD" using f by (simp add: frame_ok_def not_less)
    show ?thesis
    proof (cases "fm_len f = 0")
      case z: True
      with f have "fm_payload f = None" by (simp add: frame_ok_def)
      with z r h True hs len show ?thesis
        by (auto simp: read_frame_def frame_header_fields rx_of_def split: if_splits option.splits)
    next
      case nz: False
      with f obtain p where p: "fm_payload f = Some p" "length p = unat (fm_len f)"
        by (auto simp: frame_ok_def)
      have nz': "fm_len f > 0" using nz by (simp add: word_gt_0)
      from r h True hs len nz' p obtain rc2 p2 rs2 st2 where
        2: "read_all rs1 (p @ rest) (unat (fm_len f)) = Some (rc2, p2, rs2, st2)"
        by (auto simp: read_frame_def frame_header_fields bind_eq_Some_conv)
      from read_all_take [OF 2] p read_all_good [OF h] read_all_good [OF 2]
      have "(rc2 = -1 \<and> \<not> link_good rs) \<or> (rc2 = 0 \<and> p2 = p \<and> st2 = rest)" by auto
      with r h True hs len nz' p 2 show ?thesis
        by (auto simp: read_frame_def frame_header_fields rx_of_def split: if_splits option.splits)
    qed
  qed
qed

end
