(* ===== verification/Bus_System.thy ===== *)
theory Bus_System
  imports Bus_Wire "HOL-Library.Sublist"
begin

text \<open>
  The threads of native/framework/bus.c around the locked state: writer_main, connector_main,
  the reader inside it, producers calling bus_send, and bus_shutdown. An action is a stretch of
  code between two points where another thread can run. The kernel's part is the table of open
  descriptors and, for every connection, the frames that were written to it in order, each with
  a flag that says whether it went out whole.
\<close>

datatype writer_pc = W_idle | W_sending frame nat u32 | W_exit

text \<open>
  The connector: connecting, connected, sending HELLO, about to take a snapshot, sending it,
  about to publish the descriptor, reading. The flag is True for the snapshot of a new
  connection and False for one that the peer has asked for.
\<close>

datatype conn_pc =
    C_connect | C_greet nat | C_hello nat frame | C_sync nat bool
  | C_replay nat "frame list" bool | C_publish nat | C_read nat | C_exit

record sys =
  sy_bus :: bus
  sy_w :: writer_pc
  sy_c :: conn_pc
  sy_fds :: "nat \<Rightarrow> nat option"
  sy_next :: nat
  sy_wire :: "nat \<Rightarrow> (frame \<times> bool) list"
  sy_accepted :: "frame list"
  sy_taken :: "frame list"

definition sys_init :: sys where
  "sys_init = \<lparr>sy_bus = zero_bus, sy_w = W_idle, sy_c = C_connect, sy_fds = (\<lambda>_. None),
     sy_next = 0, sy_wire = (\<lambda>_. []), sy_accepted = [], sy_taken = []\<rparr>"

datatype act =
    A_send u16 u8 "bytes option" u32
  | A_sticky u16 bool | A_policy u16 bus_policy | A_on u16 "nat option" "nat option" | A_off u16
  | A_take | A_sent bool | A_w_exit
  | A_connect nat | A_greet | A_hello bool | A_snapshot | A_replay bool | A_replayed | A_publish
  | A_check | A_rx rx | A_c_exit
  | A_shutdown

definition wire_add :: "nat \<Rightarrow> frame \<Rightarrow> bool \<Rightarrow> sys \<Rightarrow> sys" where
  "wire_add fd f whole s = (case sy_fds s fd of None \<Rightarrow> s
     | Some c \<Rightarrow> s\<lparr>sy_wire := (sy_wire s)(c := sy_wire s c @ [(f, whole)])\<rparr>)"

definition close_fd :: "nat \<Rightarrow> sys \<Rightarrow> sys" where
  "close_fd fd s = s\<lparr>sy_fds := (sy_fds s)(fd := None)\<rparr>"

definition on_bus :: "(bus \<Rightarrow> bus) \<Rightarrow> sys \<Rightarrow> sys" where
  "on_bus g s = s\<lparr>sy_bus := g (sy_bus s)\<rparr>"

text \<open>close (g_client_fd); g_client_fd = -1, when the descriptor is still the current one.\<close>

definition close_current_fd_if_matches :: "nat \<Rightarrow> sys \<Rightarrow> sys" where
  "close_current_fd_if_matches fd s =
     (if b_client_fd (sy_bus s) = Some fd
      then on_bus (\<lambda>b. b\<lparr>b_client_fd := None\<rparr>) (close_fd fd s) else s)"

definition hello_text :: bytes where
  "hello_text = ascii ''ver:n:1'' @ [10] @ ascii ''proto:s:carplay_bus'' @ [10]"

definition hello_frame :: "u32 \<Rightarrow> frame" where
  "hello_frame seq = \<lparr>fm_type = EVT_HELLO, fm_flags = 0, fm_seq = seq,
     fm_len = of_nat (length hello_text), fm_payload = Some hello_text\<rparr>"

definition holds_fd :: "writer_pc \<Rightarrow> nat \<Rightarrow> bool" where
  "holds_fd w fd = (case w of W_sending f fd' g \<Rightarrow> fd' = fd | _ \<Rightarrow> False)"

text \<open>
  writer_main. A_take is the locked part; A_sent is send_frame with its outcome, and the locked
  close after a failure.
\<close>

definition writer_act :: "act \<Rightarrow> sys \<Rightarrow> sys option" where
  "writer_act a s = (case a of
     A_take \<Rightarrow> (case (sy_w s, b_client_fd (sy_bus s)) of
        (W_idle, Some fd) \<Rightarrow>
          if b_shutdown (sy_bus s) then None
          else (case q_dequeue_nolock (b_q (sy_bus s)) of None \<Rightarrow> None
            | Some (f, q) \<Rightarrow>
                Some ((on_bus (\<lambda>b. b\<lparr>b_q := q\<rparr>) s)
                        \<lparr>sy_w := W_sending f fd (b_client_gen (sy_bus s)),
                         sy_taken := sy_taken s @ [f]\<rparr>))
      | _ \<Rightarrow> None)
   | A_sent ok \<Rightarrow> (case sy_w s of
        W_sending f fd gen \<Rightarrow>
          let s1 = (wire_add fd f ok s)\<lparr>sy_w := W_idle\<rparr>
          in Some (if ok \<or> b_client_gen (sy_bus s) \<noteq> gen then s1 else close_current_fd_if_matches fd s1)
      | _ \<Rightarrow> None)
   | A_w_exit \<Rightarrow> if sy_w s = W_idle \<and> b_shutdown (sy_bus s) then Some (s\<lparr>sy_w := W_exit\<rparr>) else None
   | _ \<Rightarrow> None)"

text \<open>
  connector_main. The first argument says whether the kernel may hand out the number of a closed
  descriptor that the writer still has in its hands.
\<close>

definition connector_act :: "bool \<Rightarrow> act \<Rightarrow> sys \<Rightarrow> sys option" where
  "connector_act reuse a s = (case a of
     A_connect fd \<Rightarrow>
       if sy_c s = C_connect \<and> \<not> b_shutdown (sy_bus s) \<and> sy_fds s fd = None \<and>
          (reuse \<or> \<not> holds_fd (sy_w s) fd)
       then Some (s\<lparr>sy_fds := (sy_fds s)(fd := Some (sy_next s)), sy_next := sy_next s + 1,
                     sy_c := C_greet fd\<rparr>) else None
   | A_greet \<Rightarrow> (case sy_c s of C_greet fd \<Rightarrow>
          let f = hello_frame (b_tx_seq (sy_bus s))
          in Some ((on_bus (\<lambda>b. b\<lparr>b_tx_seq := b_tx_seq b + 1\<rparr>) s)\<lparr>sy_c := C_hello fd f\<rparr>)
      | _ \<Rightarrow> None)
   | A_hello ok \<Rightarrow> (case sy_c s of C_hello fd f \<Rightarrow>
          let s1 = wire_add fd f ok s
          in Some (if ok then s1\<lparr>sy_c := C_sync fd True\<rparr> else (close_fd fd s1)\<lparr>sy_c := C_connect\<rparr>)
      | _ \<Rightarrow> None)
   | A_snapshot \<Rightarrow> (case sy_c s of C_sync fd new \<Rightarrow>
          (case sync_snapshot True (\<lambda>_. True) (sy_bus s) of None \<Rightarrow> None
           | Some (fs, b) \<Rightarrow> Some (s\<lparr>sy_bus := b, sy_c := C_replay fd fs new\<rparr>))
      | _ \<Rightarrow> None)
   | A_replay ok \<Rightarrow> (case sy_c s of C_replay fd (f # fs) new \<Rightarrow>
          Some ((wire_add fd f ok s)\<lparr>sy_c := C_replay fd fs new\<rparr>)
      | _ \<Rightarrow> None)
   | A_replayed \<Rightarrow> (case sy_c s of C_replay fd [] new \<Rightarrow>
          Some (s\<lparr>sy_c := (if new then C_publish fd else C_read fd)\<rparr>)
      | _ \<Rightarrow> None)
   | A_publish \<Rightarrow> (case sy_c s of C_publish fd \<Rightarrow>
          let s1 = (case b_client_fd (sy_bus s) of None \<Rightarrow> s | Some old \<Rightarrow> close_fd old s)
          in Some ((on_bus (\<lambda>b. b\<lparr>b_client_fd := Some fd, b_client_gen := b_client_gen b + 1\<rparr>) s1)
                     \<lparr>sy_c := C_read fd\<rparr>)
      | _ \<Rightarrow> None)
   | A_check \<Rightarrow> (case sy_c s of C_read fd \<Rightarrow>
          if b_client_fd (sy_bus s) \<noteq> Some fd then Some (s\<lparr>sy_c := C_connect\<rparr>) else None
      | _ \<Rightarrow> None)
   | A_rx r \<Rightarrow> (case sy_c s of C_read fd \<Rightarrow>
          Some (case r of
              RxDrop \<Rightarrow> (close_current_fd_if_matches fd s)\<lparr>sy_c := C_connect\<rparr>
            | RxSync \<Rightarrow> s\<lparr>sy_c := C_sync fd False\<rparr>
            | _ \<Rightarrow> s)
      | _ \<Rightarrow> None)
   | A_c_exit \<Rightarrow>
       if \<not> b_shutdown (sy_bus s) then None
       else (case sy_c s of
            C_connect \<Rightarrow> Some (s\<lparr>sy_c := C_exit\<rparr>)
          | C_greet fd \<Rightarrow> Some ((close_fd fd s)\<lparr>sy_c := C_exit\<rparr>)
          | C_read fd \<Rightarrow> Some (s\<lparr>sy_c := C_exit\<rparr>)
          | _ \<Rightarrow> None)
   | _ \<Rightarrow> None)"

text \<open>The other threads of the process.\<close>

definition client_act :: "act \<Rightarrow> sys \<Rightarrow> sys option" where
  "client_act a s = (case a of
     A_send type flags payload len \<Rightarrow>
       if \<not> send_args_ok type payload len then None
       else (case bus_send alloc_ok type flags payload len (sy_bus s) of None \<Rightarrow> None
         | Some (r, b) \<Rightarrow> Some (s\<lparr>sy_bus := b,
              sy_accepted := (if r = HOOK_OK
                then sy_accepted s @ [send_frame_of type flags payload len (b_tx_seq (sy_bus s))]
                else sy_accepted s)\<rparr>))
   | A_sticky t x \<Rightarrow> Some (on_bus (bus_set_sticky t x) s)
   | A_policy t p \<Rightarrow> Some (on_bus (bus_set_policy t p) s)
   | A_on t h c \<Rightarrow> Some (on_bus (snd \<circ> bus_on t h c) s)
   | A_off t \<Rightarrow> Some (on_bus (bus_off t) s)
   | A_shutdown \<Rightarrow>
       let s1 = (case b_client_fd (sy_bus s) of None \<Rightarrow> s | Some fd \<Rightarrow> close_fd fd s)
       in Some (on_bus (\<lambda>b. b\<lparr>b_shutdown := True, b_client_fd := None\<rparr>) s1)
   | _ \<Rightarrow> None)"

text \<open>One step of the process; at most one of the three knows the action.\<close>

definition sys_act :: "bool \<Rightarrow> act \<Rightarrow> sys \<Rightarrow> sys option" where
  "sys_act reuse a s = (case writer_act a s of Some s' \<Rightarrow> Some s'
     | None \<Rightarrow> (case connector_act reuse a s of Some s' \<Rightarrow> Some s' | None \<Rightarrow> client_act a s))"

inductive sys_reach :: "bool \<Rightarrow> sys \<Rightarrow> bool" for reuse where
  start: "sys_reach reuse sys_init"
| step: "sys_reach reuse s \<Longrightarrow> sys_act reuse a s = Some s' \<Longrightarrow> sys_reach reuse s'"

text \<open>A run of given actions.\<close>

fun sys_run :: "bool \<Rightarrow> act list \<Rightarrow> sys \<Rightarrow> sys option" where
  "sys_run reuse [] s = Some s"
| "sys_run reuse (a # as) s = Option.bind (sys_act reuse a s) (sys_run reuse as)"

lemma sys_run_reach: "sys_reach reuse s \<Longrightarrow> sys_run reuse as s = Some s' \<Longrightarrow> sys_reach reuse s'"
  by (induction "as" arbitrary: s) (auto simp: bind_eq_Some_conv intro: sys_reach.step)

section \<open>The order of frames on a connection\<close>

definition sync_block :: "frame list \<Rightarrow> bool" where
  "sync_block fs \<longleftrightarrow> (\<exists>a m z. fs = control_frame EVT_SYNC_BEGIN a # m @ [control_frame EVT_SYNC_END z] \<and>
     list_all (\<lambda>f. fm_flags f AND BUS_FLAG_REPLAY \<noteq> 0) m)"

text \<open>HELLO, a whole snapshot, then anything; and the connections that got part of the way.\<close>

definition greeted :: "frame list \<Rightarrow> bool" where
  "greeted l \<longleftrightarrow> (\<exists>h fs r. fm_type h = EVT_HELLO \<and> sync_block fs \<and> l = h # fs @ r)"

definition order_ok :: "frame list \<Rightarrow> bool" where
  "order_ok l \<longleftrightarrow> (\<exists>h fs. fm_type h = EVT_HELLO \<and> sync_block fs \<and>
     (prefix l (h # fs) \<or> prefix (h # fs) l))"

lemma sync_block_exists: "sync_block [control_frame EVT_SYNC_BEGIN 0, control_frame EVT_SYNC_END 0]"
  unfolding sync_block_def by (rule exI [of _ 0], rule exI [of _ "[]"], rule exI [of _ 0]) simp

lemma greeted_order_ok: "greeted l \<Longrightarrow> order_ok l"
  by (auto simp: greeted_def order_ok_def prefix_def)

lemma greeted_snoc: "greeted l \<Longrightarrow> greeted (l @ [f])"
proof -
  assume "greeted l"
  then obtain h fs r where "fm_type h = EVT_HELLO" "sync_block fs" "l = h # fs @ r"
    by (auto simp: greeted_def)
  then show ?thesis
    unfolding greeted_def by (intro exI [of _ h] exI [of _ fs] exI [of _ "r @ [f]"]) simp
qed

lemma order_ok_short: "fm_type h = EVT_HELLO \<Longrightarrow> order_ok [h]"
  using sync_block_exists unfolding order_ok_def by (intro exI) auto

lemma order_ok_Nil: "order_ok []"
  using sync_block_exists
  unfolding order_ok_def by (intro exI [of _ "hello_frame 0"] exI) (auto simp: hello_frame_def)

lemma order_ok_part: "fm_type h = EVT_HELLO \<Longrightarrow> sync_block fs \<Longrightarrow> l @ r = h # fs \<Longrightarrow> order_ok l"
  unfolding order_ok_def by (metis prefixI)

lemma replay_flag: "list_all (\<lambda>f. fm_flags f AND BUS_FLAG_REPLAY \<noteq> 0) (renumber fs s)"
proof (induction fs arbitrary: s)
  case (Cons f fs)
  have "bit ((fm_flags f OR 4) AND 4) 2" by (simp add: bit_simps)
  then have "(fm_flags f OR 4) AND 4 \<noteq> 0" by auto
  with Cons show ?case by (simp add: replay_of_def)
qed simp

lemma sync_block_snapshot: "sync_block (snapshot_of b)"
  by (auto simp: sync_block_def snapshot_of_def Let_def replay_flag)

section \<open>The invariant\<close>

definition pre_fd :: "conn_pc \<Rightarrow> nat option" where
  "pre_fd c = (case c of C_greet fd \<Rightarrow> Some fd | C_hello fd f \<Rightarrow> Some fd
     | C_sync fd new \<Rightarrow> if new then Some fd else None
     | C_replay fd fs new \<Rightarrow> if new then Some fd else None
     | C_publish fd \<Rightarrow> Some fd | _ \<Rightarrow> None)"

definition post_fd :: "conn_pc \<Rightarrow> nat option" where
  "post_fd c = (case c of C_read fd \<Rightarrow> Some fd
     | C_sync fd new \<Rightarrow> if new then None else Some fd
     | C_replay fd fs new \<Rightarrow> if new then None else Some fd | _ \<Rightarrow> None)"

text \<open>What has been written to a connection that is being set up.\<close>

definition pre_ok :: "conn_pc \<Rightarrow> frame list \<Rightarrow> bool" where
  "pre_ok c l = (case c of C_greet fd \<Rightarrow> l = []
     | C_hello fd f \<Rightarrow> l = [] \<and> fm_type f = EVT_HELLO
     | C_sync fd new \<Rightarrow> (\<exists>h. l = [h] \<and> fm_type h = EVT_HELLO)
     | C_replay fd todo new \<Rightarrow> (\<exists>h fs. fm_type h = EVT_HELLO \<and> sync_block fs \<and> l @ todo = h # fs)
     | C_publish fd \<Rightarrow> (\<exists>h fs. fm_type h = EVT_HELLO \<and> sync_block fs \<and> l = h # fs)
     | _ \<Rightarrow> True)"

definition frames_on :: "sys \<Rightarrow> nat \<Rightarrow> frame list" where
  "frames_on s c = map fst (sy_wire s c)"

definition fds_ok :: "sys \<Rightarrow> bool" where
  "fds_ok s \<longleftrightarrow> (\<forall>fd c. sy_fds s fd = Some c \<longrightarrow> c < sy_next s) \<and>
     (\<forall>fd fd' c. sy_fds s fd = Some c \<longrightarrow> sy_fds s fd' = Some c \<longrightarrow> fd = fd') \<and>
     (\<forall>c \<ge> sy_next s. sy_wire s c = [])"

definition setup_ok :: "sys \<Rightarrow> bool" where
  "setup_ok s \<longleftrightarrow> (\<forall>fd. pre_fd (sy_c s) = Some fd \<longrightarrow>
     \<not> holds_fd (sy_w s) fd \<and> (\<exists>c. sy_fds s fd = Some c \<and> pre_ok (sy_c s) (frames_on s c)))"

definition client_ok :: "sys \<Rightarrow> bool" where
  "client_ok s \<longleftrightarrow> (\<forall>fd. b_client_fd (sy_bus s) = Some fd \<longrightarrow>
     post_fd (sy_c s) = Some fd \<or> sy_c s = C_exit)"

definition open_ok :: "sys \<Rightarrow> bool" where
  "open_ok s \<longleftrightarrow> (\<forall>fd c. sy_fds s fd = Some c \<longrightarrow> pre_fd (sy_c s) \<noteq> Some fd \<longrightarrow> greeted (frames_on s c))"

definition wires_ok :: "sys \<Rightarrow> bool" where
  "wires_ok s \<longleftrightarrow> (\<forall>c. order_ok (frames_on s c))"

definition queue_ok :: "sys \<Rightarrow> bool" where
  "queue_ok s \<longleftrightarrow> bus_ok (sy_bus s) \<and> sy_accepted s = sy_taken s @ ring_items (b_q (sy_bus s))"

definition sys_inv :: "sys \<Rightarrow> bool" where
  "sys_inv s \<longleftrightarrow> fds_ok s \<and> setup_ok s \<and> client_ok s \<and> open_ok s \<and> wires_ok s \<and> queue_ok s"

lemmas inv_defs = sys_inv_def fds_ok_def setup_ok_def client_ok_def open_ok_def wires_ok_def queue_ok_def

lemma sys_inv_init: "sys_inv sys_init"
  by (simp add: inv_defs sys_init_def pre_fd_def zero_bus_ok frames_on_def order_ok_Nil)
     (simp add: zero_bus_def ring_items_def)

lemma on_bus_simps [simp]:
  "sy_bus (on_bus g s) = g (sy_bus s)" "sy_w (on_bus g s) = sy_w s" "sy_c (on_bus g s) = sy_c s"
  "sy_fds (on_bus g s) = sy_fds s" "sy_next (on_bus g s) = sy_next s" "sy_wire (on_bus g s) = sy_wire s"
  "sy_accepted (on_bus g s) = sy_accepted s" "sy_taken (on_bus g s) = sy_taken s"
  "frames_on (on_bus g s) = frames_on s"
  by (simp_all add: on_bus_def frames_on_def fun_eq_iff)

lemma close_fd_simps [simp]:
  "sy_bus (close_fd fd s) = sy_bus s" "sy_w (close_fd fd s) = sy_w s" "sy_c (close_fd fd s) = sy_c s"
  "sy_fds (close_fd fd s) = (sy_fds s)(fd := None)" "sy_next (close_fd fd s) = sy_next s"
  "sy_wire (close_fd fd s) = sy_wire s"
  "sy_accepted (close_fd fd s) = sy_accepted s" "sy_taken (close_fd fd s) = sy_taken s"
  "frames_on (close_fd fd s) = frames_on s"
  by (simp_all add: close_fd_def frames_on_def fun_eq_iff)

lemma wire_add_simps [simp]:
  "sy_bus (wire_add fd f w s) = sy_bus s" "sy_w (wire_add fd f w s) = sy_w s"
  "sy_c (wire_add fd f w s) = sy_c s" "sy_fds (wire_add fd f w s) = sy_fds s"
  "sy_next (wire_add fd f w s) = sy_next s"
  "sy_accepted (wire_add fd f w s) = sy_accepted s" "sy_taken (wire_add fd f w s) = sy_taken s"
  by (simp_all add: wire_add_def split: option.split)

lemma frames_on_wire_add:
  "frames_on (wire_add fd f w s) c = frames_on s c @ (if sy_fds s fd = Some c then [f] else [])"
  by (auto simp: frames_on_def wire_add_def split: option.split)

lemma frames_on_upd [simp]:
  "frames_on (s\<lparr>sy_w := w\<rparr>) = frames_on s" "frames_on (s\<lparr>sy_c := c\<rparr>) = frames_on s"
  "frames_on (s\<lparr>sy_bus := b\<rparr>) = frames_on s" "frames_on (s\<lparr>sy_taken := t\<rparr>) = frames_on s"
  "frames_on (s\<lparr>sy_accepted := t\<rparr>) = frames_on s" "frames_on (s\<lparr>sy_fds := fds\<rparr>) = frames_on s"
  "frames_on (s\<lparr>sy_next := n\<rparr>) = frames_on s"
  by (simp_all add: frames_on_def fun_eq_iff)

lemma wire_add_empty: "sy_wire (wire_add fd f w s) c = [] \<longleftrightarrow> sy_wire s c = [] \<and> sy_fds s fd \<noteq> Some c"
  by (auto simp: wire_add_def split: option.split)

section \<open>Preservation\<close>

text \<open>Steps that change only the bus, and keep its queue contract.\<close>

lemma inv_on_bus:
  assumes "sys_inv s" "bus_ok b" "b_client_fd b = b_client_fd (sy_bus s)"
    "ring_items (b_q b) = ring_items (b_q (sy_bus s))"
  shows "sys_inv (s\<lparr>sy_bus := b\<rparr>)"
  using assms by (simp add: inv_defs)

lemma fds_inject: "fds_ok s \<Longrightarrow> sy_fds s fd = Some c \<Longrightarrow> sy_fds s fd' = Some c \<Longrightarrow> fd' = fd"
  unfolding fds_ok_def by blast

lemma wire_add_inv:
  assumes "fds_ok s"
  shows "fds_ok (wire_add fd f w s)"
    and "setup_ok s \<Longrightarrow> pre_fd (sy_c s) \<noteq> Some fd \<Longrightarrow> setup_ok (wire_add fd f w s)"
    and "open_ok s \<Longrightarrow> open_ok (wire_add fd f w s)"
    and "wires_ok s \<Longrightarrow> (\<And>c. sy_fds s fd = Some c \<Longrightarrow> order_ok (frames_on s c @ [f])) \<Longrightarrow>
      wires_ok (wire_add fd f w s)"
proof -
  show "fds_ok (wire_add fd f w s)"
    using assms by (auto simp: fds_ok_def wire_add_empty dest: leD)
  show "setup_ok (wire_add fd f w s)" if "setup_ok s" "pre_fd (sy_c s) \<noteq> Some fd"
    unfolding setup_ok_def
  proof (intro allI impI)
    fix fd' assume p: "pre_fd (sy_c (wire_add fd f w s)) = Some fd'"
    with that(1) obtain c where c: "\<not> holds_fd (sy_w s) fd'" "sy_fds s fd' = Some c"
        "pre_ok (sy_c s) (frames_on s c)"
      by (auto simp: setup_ok_def)
    with fds_inject [OF assms, of fd' c fd] p that(2) have "sy_fds s fd \<noteq> Some c" by auto
    with c show "\<not> holds_fd (sy_w (wire_add fd f w s)) fd' \<and> (\<exists>c. sy_fds (wire_add fd f w s) fd' = Some c \<and>
        pre_ok (sy_c (wire_add fd f w s)) (frames_on (wire_add fd f w s) c))"
      by (auto simp: frames_on_wire_add)
  qed
  show "open_ok (wire_add fd f w s)" if "open_ok s"
    using that by (auto simp: open_ok_def frames_on_wire_add greeted_snoc)
  show "wires_ok (wire_add fd f w s)"
    if "wires_ok s" "\<And>c. sy_fds s fd = Some c \<Longrightarrow> order_ok (frames_on s c @ [f])"
    using that by (auto simp: wires_ok_def frames_on_wire_add)
qed

lemma inv_close_client:
  assumes "sys_inv s"
  shows "sys_inv (on_bus (\<lambda>b. b\<lparr>b_shutdown := x b, b_client_fd := None\<rparr>)
           (case b_client_fd (sy_bus s) of None \<Rightarrow> s | Some fd \<Rightarrow> close_fd fd s))"
  using assms by (auto simp: inv_defs bus_ok_def post_fd_def pre_fd_def split: option.split conn_pc.splits if_splits)

lemma config_frame:
  "b_client_fd (bus_set_sticky t x b) = b_client_fd b" "b_q (bus_set_sticky t x b) = b_q b"
  "b_client_fd (bus_set_policy t p b) = b_client_fd b" "b_q (bus_set_policy t p b) = b_q b"
  "b_client_fd (snd (bus_on t h c b)) = b_client_fd b" "b_q (snd (bus_on t h c b)) = b_q b"
  "b_client_fd (bus_off t b) = b_client_fd b" "b_q (bus_off t b) = b_q b"
  by (simp_all add: bus_set_sticky_def bus_set_policy_def bus_on_def bus_off_def upd_slot_def
      split: option.split)

lemma client_act_inv:
  assumes "sys_inv s" "client_act a s = Some s'"
  shows "sys_inv s'"
proof (cases a)
  case (A_send t fl p len)
  with assms(2) obtain r b where sd: "bus_send alloc_ok t fl p len (sy_bus s) = Some (r, b)"
    and a: "send_args_ok t p len"
    and s': "s' = s\<lparr>sy_bus := b, sy_accepted := (if r = HOOK_OK
                then sy_accepted s @ [send_frame_of t fl p len (b_tx_seq (sy_bus s))] else sy_accepted s)\<rparr>"
    by (auto simp: client_act_def split: if_splits option.splits)
  have ok: "bus_ok (sy_bus s)" using assms(1) by (simp add: inv_defs)
  have "bus_ok b \<and> b_client_fd b = b_client_fd (sy_bus s) \<and>
     ring_items (b_q b) = ring_items (b_q (sy_bus s)) @
       (if r = HOOK_OK then [send_frame_of t fl p len (b_tx_seq (sy_bus s))] else [])"
  proof (cases "b_shutdown (sy_bus s)")
    case True
    with sd a ok show ?thesis by (simp add: bus_send_shutdown)
  next
    case False
    from ok have "rq_count (b_q (sy_bus s)) \<le> SEND_QUEUE_CAPACITY" by (simp add: bus_ok_def ring_ok_def)
    then consider "rq_count (b_q (sy_bus s)) < SEND_QUEUE_CAPACITY"
      | "rq_count (b_q (sy_bus s)) = SEND_QUEUE_CAPACITY" by linarith
    then show ?thesis
    proof cases
      case 1
      from bus_send_room [OF a False ok 1, of fl] sd show ?thesis by (auto simp: Let_def)
    next
      case 2
      from bus_send_full [OF a False ok 2, of fl] sd show ?thesis by (simp add: Let_def)
    qed
  qed
  with assms(1) show ?thesis unfolding s' by (simp add: inv_defs)
next
  case A_shutdown
  with assms(2) have "s' = on_bus (\<lambda>b. b\<lparr>b_shutdown := True, b_client_fd := None\<rparr>)
           (case b_client_fd (sy_bus s) of None \<Rightarrow> s | Some fd \<Rightarrow> close_fd fd s)"
    by (simp add: client_act_def Let_def)
  with inv_close_client [OF assms(1), of "\<lambda>_. True"] show ?thesis by simp
qed (use assms config_ok [of "sy_bus s"] in
    \<open>auto simp: client_act_def on_bus_def config_frame intro!: inv_on_bus simp: inv_defs\<close>)

lemma writer_act_inv:
  assumes "sys_inv s" "writer_act a s = Some s'"
  shows "sys_inv s'"
proof (cases a)
  case A_take
  with assms(2) obtain fd f q where 1: "sy_w s = W_idle" "b_client_fd (sy_bus s) = Some fd"
      "q_dequeue_nolock (b_q (sy_bus s)) = Some (f, q)" and
    s': "s' = (on_bus (\<lambda>b. b\<lparr>b_q := q\<rparr>) s)\<lparr>sy_w := W_sending f fd (b_client_gen (sy_bus s)),
                         sy_taken := sy_taken s @ [f]\<rparr>"
    by (auto simp: writer_act_def split: writer_pc.splits option.splits if_splits)
  have "ring_ok (b_q (sy_bus s))" using assms(1) by (simp add: inv_defs bus_ok_def)
  with 1(3) have "ring_ok q \<and> ring_items (b_q (sy_bus s)) = f # ring_items q"
    using ring_dequeue [of "b_q (sy_bus s)"] ring_empty [of "b_q (sy_bus s)"]
    by (cases "ring_items (b_q (sy_bus s))") fastforce+
  moreover have "pre_fd (sy_c s) \<noteq> Some fd"
    using assms(1) 1(2) by (auto simp: inv_defs post_fd_def pre_fd_def split: conn_pc.splits if_splits)
  ultimately show ?thesis
    using assms(1) 1 unfolding s' by (auto simp: inv_defs bus_ok_def holds_fd_def)
next
  case (A_sent ok)
  with assms(2) obtain f fd gen where w: "sy_w s = W_sending f fd gen" and
    s': "s' = (let s1 = (wire_add fd f ok s)\<lparr>sy_w := W_idle\<rparr>
          in if ok \<or> b_client_gen (sy_bus s) \<noteq> gen then s1 else close_current_fd_if_matches fd s1)"
    by (auto simp: writer_act_def Let_def split: writer_pc.splits)
  have pre: "pre_fd (sy_c s) \<noteq> Some fd"
    using assms(1) w by (auto simp: inv_defs holds_fd_def)
  from assms(1) have s: "fds_ok s" "setup_ok s" "client_ok s" "open_ok s" "wires_ok s" "queue_ok s"
    by (simp_all add: sys_inv_def)
  have "order_ok (frames_on s c @ [f])" if "sy_fds s fd = Some c" for c
    using s(4) pre that by (auto simp: open_ok_def intro!: greeted_order_ok greeted_snoc)
  then have "sys_inv (wire_add fd f ok s)"
    using s pre wire_add_inv by (simp add: sys_inv_def client_ok_def queue_ok_def)
  then have 1: "sys_inv ((wire_add fd f ok s)\<lparr>sy_w := W_idle\<rparr>)"
    by (auto simp: inv_defs holds_fd_def)
  then show ?thesis
    using inv_close_client [OF 1, of b_shutdown] unfolding s'
    by (auto simp: Let_def close_current_fd_if_matches_def on_bus_def)
qed (use assms in \<open>auto simp: writer_act_def inv_defs holds_fd_def split: if_splits\<close>)

text \<open>Moving the connector on, with the descriptors and the wire as they are.\<close>

lemma inv_conn:
  assumes "sys_inv s" "pre_fd c = pre_fd (sy_c s)" "post_fd c = post_fd (sy_c s)"
    "pre_fd c = None \<or> (\<forall>l. pre_ok (sy_c s) l \<longrightarrow> pre_ok c l)" "sy_c s \<noteq> C_exit"
  shows "sys_inv (s\<lparr>sy_c := c\<rparr>)"
  using assms by (auto simp: inv_defs)

text \<open>A frame written by the connector to the connection it is setting up.\<close>

lemma inv_setup_write:
  assumes "sys_inv s" "pre_fd (sy_c s) = Some fd" "pre_fd c = Some fd"
    "\<And>l. pre_ok (sy_c s) l \<Longrightarrow> pre_ok c (l @ [f])"
    "\<And>l. pre_ok (sy_c s) l \<Longrightarrow> order_ok (l @ [f])"
  shows "sys_inv ((wire_add fd f w s)\<lparr>sy_c := c\<rparr>)"
proof -
  from assms(1) have s: "fds_ok s" "setup_ok s" "client_ok s" "open_ok s" "wires_ok s" "queue_ok s"
    by (simp_all add: sys_inv_def)
  from s(2) assms(2) obtain k where k: "\<not> holds_fd (sy_w s) fd" "sy_fds s fd = Some k"
      "pre_ok (sy_c s) (frames_on s k)"
    by (auto simp: setup_ok_def)
  have "b_client_fd (sy_bus s) = None"
    using s(3) assms(2)
    by (cases "b_client_fd (sy_bus s)")
       (auto simp: client_ok_def pre_fd_def post_fd_def split: conn_pc.splits if_splits)
  moreover have "order_ok (frames_on s c @ [f])" if "sy_fds s fd = Some c" for c
    using that k assms(5) by simp
  then have "wires_ok (wire_add fd f w s)" by (rule wire_add_inv(4) [OF s(1,5)])
  moreover have "fds_ok (wire_add fd f w s)" "open_ok (wire_add fd f w s)"
    using wire_add_inv(1,3) [OF s(1)] s(4) by auto
  ultimately show ?thesis
    using s k assms(2-4)
    by (auto simp: sys_inv_def setup_ok_def client_ok_def queue_ok_def fds_ok_def open_ok_def wires_ok_def
        frames_on_wire_add)
qed

lemma close_inv:
  assumes "sys_inv s" "pre_fd (sy_c s) = Some fd" "c = C_connect \<or> c = C_exit"
  shows "sys_inv ((close_fd fd s)\<lparr>sy_c := c\<rparr>)"
proof -
  have "b_client_fd (sy_bus s) = None"
    using assms(1,2)
    by (cases "b_client_fd (sy_bus s)")
       (auto simp: inv_defs pre_fd_def post_fd_def split: conn_pc.splits if_splits)
  with assms show ?thesis by (auto simp: inv_defs pre_fd_def)
qed

lemma client_None: "sys_inv s \<Longrightarrow> post_fd (sy_c s) = None \<Longrightarrow> sy_c s \<noteq> C_exit \<Longrightarrow> b_client_fd (sy_bus s) = None"
  by (cases "b_client_fd (sy_bus s)") (auto simp: inv_defs)

lemma snapshot_inv:
  assumes "sys_inv s" "sync_snapshot True (\<lambda>_. True) (sy_bus s) = Some (fs, b)"
  shows "sys_inv (s\<lparr>sy_bus := b\<rparr>) \<and> sync_block fs"
proof -
  have "bus_ok (sy_bus s)" using assms(1) by (simp add: inv_defs)
  with assms show ?thesis
    by (auto simp: sync_snapshot_eq sync_block_snapshot snapshot_bus_ok intro!: inv_on_bus)
qed

lemma connector_act_inv:
  assumes i: "sys_inv s" and a: "connector_act False a s = Some s'"
  shows "sys_inv s'"
proof (cases a)
  case (A_connect fd)
  with a have c: "sy_c s = C_connect" "sy_fds s fd = None" "\<not> holds_fd (sy_w s) fd"
    and s': "s' = s\<lparr>sy_fds := (sy_fds s)(fd := Some (sy_next s)), sy_next := sy_next s + 1,
                    sy_c := C_greet fd\<rparr>"
    by (auto simp: connector_act_def split: if_splits)
  have "b_client_fd (sy_bus s) = None" using i c by (intro client_None) (auto simp: post_fd_def)
  moreover have "frames_on s (sy_next s) = []" using i by (simp add: inv_defs frames_on_def)
  ultimately show ?thesis
    using i c unfolding s'
    by (auto simp: inv_defs pre_fd_def pre_ok_def dest: less_imp_neq intro: less_SucI)
next
  case A_greet
  with a obtain fd where c: "sy_c s = C_greet fd" and
    s': "s' = (on_bus (\<lambda>b. b\<lparr>b_tx_seq := b_tx_seq b + 1\<rparr>) s)
              \<lparr>sy_c := C_hello fd (hello_frame (b_tx_seq (sy_bus s)))\<rparr>"
    by (auto simp: connector_act_def Let_def split: conn_pc.splits)
  have "sys_inv (on_bus (\<lambda>b. b\<lparr>b_tx_seq := b_tx_seq b + 1\<rparr>) s)"
    unfolding on_bus_def using i by (intro inv_on_bus) (auto simp: inv_defs bus_ok_def)
  then show ?thesis unfolding s'
    by (rule inv_conn) (auto simp: c pre_fd_def post_fd_def pre_ok_def hello_frame_def)
next
  case (A_hello ok)
  with a obtain fd f where c: "sy_c s = C_hello fd f" and
    s': "s' = (if ok then (wire_add fd f ok s)\<lparr>sy_c := C_sync fd True\<rparr>
               else (close_fd fd (wire_add fd f ok s))\<lparr>sy_c := C_connect\<rparr>)"
    by (auto simp: connector_act_def Let_def split: conn_pc.splits)
  have 1: "sys_inv ((wire_add fd f ok s)\<lparr>sy_c := C_sync fd True\<rparr>)"
    using i by (rule inv_setup_write) (auto simp: c pre_fd_def pre_ok_def intro: order_ok_short)
  have "sys_inv ((close_fd fd (wire_add fd f ok s))\<lparr>sy_c := C_connect\<rparr>)"
    using close_inv [OF 1, of fd C_connect] by (simp add: pre_fd_def close_fd_def)
  with 1 show ?thesis unfolding s' by (cases ok) simp_all
next
  case A_snapshot
  with a obtain fd new fs b where c: "sy_c s = C_sync fd new"
      "sync_snapshot True (\<lambda>_. True) (sy_bus s) = Some (fs, b)" and
    s': "s' = s\<lparr>sy_bus := b, sy_c := C_replay fd fs new\<rparr>"
    by (auto simp: connector_act_def split: conn_pc.splits option.splits)
  from snapshot_inv [OF i c(2)] have 1: "sys_inv (s\<lparr>sy_bus := b\<rparr>)" "sync_block fs" by auto
  from 1(1) have "sys_inv (s\<lparr>sy_bus := b\<rparr>\<lparr>sy_c := C_replay fd fs new\<rparr>)"
    using 1(2) by (rule_tac inv_conn) (auto simp: c pre_fd_def post_fd_def pre_ok_def)
  with s' show ?thesis by simp
next
  case (A_replay ok)
  with a obtain fd f fs new where c: "sy_c s = C_replay fd (f # fs) new" and
    s': "s' = (wire_add fd f ok s)\<lparr>sy_c := C_replay fd fs new\<rparr>"
    by (auto simp: connector_act_def split: conn_pc.splits list.splits)
  show ?thesis
  proof (cases new)
    case True
    show ?thesis unfolding s' using i
      by (rule inv_setup_write)
         (auto simp: c True pre_fd_def pre_ok_def intro!: order_ok_part [of _ _ _ fs])
  next
    case False
    from i have s: "fds_ok s" "setup_ok s" "client_ok s" "open_ok s" "wires_ok s" "queue_ok s"
      by (simp_all add: sys_inv_def)
    have pre: "pre_fd (sy_c s) \<noteq> Some fd" by (simp add: c False pre_fd_def)
    have "order_ok (frames_on s k @ [f])" if "sy_fds s fd = Some k" for k
      using s(4) pre that by (auto simp: open_ok_def intro!: greeted_order_ok greeted_snoc)
    then have 1: "sys_inv (wire_add fd f ok s)"
      using s pre wire_add_inv by (simp add: sys_inv_def client_ok_def queue_ok_def)
    show ?thesis unfolding s' using 1
      by (rule inv_conn) (auto simp: c False pre_fd_def post_fd_def)
  qed
next
  case A_replayed
  with a obtain fd new where c: "sy_c s = C_replay fd [] new" and
    s': "s' = s\<lparr>sy_c := (if new then C_publish fd else C_read fd)\<rparr>"
    by (auto simp: connector_act_def split: conn_pc.splits list.splits)
  show ?thesis unfolding s' using i
    by (rule inv_conn) (auto simp: c pre_fd_def post_fd_def pre_ok_def)
next
  case A_publish
  with a obtain fd where c: "sy_c s = C_publish fd" by (auto simp: connector_act_def split: conn_pc.splits)
  then have n: "b_client_fd (sy_bus s) = None" using i by (intro client_None) (auto simp: post_fd_def)
  with a A_publish c have s': "s' = (on_bus (\<lambda>b. b\<lparr>b_client_fd := Some fd,
       b_client_gen := b_client_gen b + 1\<rparr>) s)\<lparr>sy_c := C_read fd\<rparr>"
    by (simp add: connector_act_def)
  have g: "pre_ok (C_publish fd) l \<Longrightarrow> greeted l" for l
    unfolding pre_ok_def greeted_def by (auto intro: exI [of _ "[]"])
  from i c obtain k where k: "sy_fds s fd = Some k" "greeted (frames_on s k)"
    by (auto simp: inv_defs pre_fd_def dest!: g)
  have "greeted (frames_on s m)" if "sy_fds s fd' = Some m" for fd' m
    using i c k that by (cases "fd' = fd") (auto simp: inv_defs pre_fd_def)
  then show ?thesis
    using i c unfolding s' by (auto simp: inv_defs pre_fd_def post_fd_def bus_ok_def)
next
  case A_check
  with a obtain fd where c: "sy_c s = C_read fd" "b_client_fd (sy_bus s) \<noteq> Some fd"
    and s': "s' = s\<lparr>sy_c := C_connect\<rparr>"
    by (auto simp: connector_act_def split: conn_pc.splits if_splits)
  show ?thesis using i c unfolding s'
    by (cases "b_client_fd (sy_bus s)") (auto simp: inv_defs pre_fd_def post_fd_def)
next
  case (A_rx r)
  with a obtain fd where c: "sy_c s = C_read fd" and
    s': "s' = (case r of RxDrop \<Rightarrow> (close_current_fd_if_matches fd s)\<lparr>sy_c := C_connect\<rparr>
            | RxSync \<Rightarrow> s\<lparr>sy_c := C_sync fd False\<rparr> | _ \<Rightarrow> s)"
    by (auto simp: connector_act_def split: conn_pc.splits)
  from i c show ?thesis unfolding s'
    by (cases r; cases "b_client_fd (sy_bus s)")
       (auto simp: close_current_fd_if_matches_def inv_defs pre_fd_def post_fd_def bus_ok_def)
next
  case A_c_exit
  with a consider "sy_c s = C_connect" "s' = s\<lparr>sy_c := C_exit\<rparr>"
    | fd where "sy_c s = C_greet fd" "s' = (close_fd fd s)\<lparr>sy_c := C_exit\<rparr>"
    | fd where "sy_c s = C_read fd" "s' = s\<lparr>sy_c := C_exit\<rparr>"
    by (auto simp: connector_act_def split: conn_pc.splits if_splits)
  then show ?thesis
  proof cases
    case (2 fd)
    with close_inv [OF i, of fd C_exit] show ?thesis by (simp add: pre_fd_def)
  qed (use i in \<open>auto simp: inv_defs pre_fd_def post_fd_def\<close>)
qed (use a in \<open>auto simp: connector_act_def\<close>)

lemma sys_reach_inv: "sys_reach False s \<Longrightarrow> sys_inv s"
proof (induction rule: sys_reach.induct)
  case start
  show ?case by (rule sys_inv_init)
next
  case (step s a s')
  then show ?case
    by (auto simp: sys_act_def intro: writer_act_inv connector_act_inv client_act_inv split: option.splits)
qed

section \<open>Three runs\<close>

text \<open>Connecting and greeting on descriptor fd, up to the publication.\<close>

definition greet_acts :: "nat \<Rightarrow> act list" where
  "greet_acts fd = [A_connect fd, A_greet, A_hello True, A_snapshot, A_replay True, A_replay True,
     A_replayed, A_publish]"

abbreviation one_byte :: act where
  "one_byte \<equiv> A_send EVT_RGD_UPDATE 0 (Some [65]) 1"

text \<open>
  The writer holds a frame for descriptor 3 while the peer drops the link and the connector gets
  the number 3 again.
\<close>

definition reuse_run :: "act list" where
  "reuse_run = greet_acts 3 @ [one_byte, A_take, A_rx RxDrop, A_connect 3, A_sent True]"

lemma reuse_run_result:
  "map_option (\<lambda>s. map fm_type (frames_on s 1)) (sys_run True reuse_run sys_init) = Some [EVT_RGD_UPDATE]"
  by code_simp

text \<open>A frame queued before the connection is sent with its old number after the snapshot.\<close>

definition early_run :: "act list" where
  "early_run = one_byte # greet_acts 3 @ [A_take, A_sent True]"

lemma early_run_result:
  "map_option (\<lambda>s. map fm_seq (frames_on s 0)) (sys_run False early_run sys_init) = Some [2, 3, 4, 1]"
  by code_simp

text \<open>A torn SYNC_BEGIN is followed by the rest of the snapshot, and the link is kept.\<close>

definition torn_run :: "act list" where
  "torn_run = [A_connect 3, A_greet, A_hello True, A_snapshot, A_replay False, A_replay True,
     A_replayed, A_publish]"

lemma torn_run_result:
  "map_option (\<lambda>s. (map (\<lambda>x. (fm_type (fst x), snd x)) (sy_wire s 0), b_client_fd (sy_bus s)))
     (sys_run False torn_run sys_init) =
   Some ([(EVT_HELLO, True), (EVT_SYNC_BEGIN, False), (EVT_SYNC_END, True)], Some 3)"
  by code_simp

end
