(* ===== verification/Alt_State.thy ===== *)
theory Alt_State
  imports Status
begin

text \<open>
  altscreen/native/altscreen_session.c: the table of the private screens (stream 111), one entry
  per CarPlay receiver, and the locked sections of the threads that work on it. A receiver, a
  screen and a thread are numbers, NULL is 0; a slot of the table is named by its index. The calls
  into the AirPlay library are parameters of the theories that use this one.
\<close>

abbreviation ALTSCREEN_MAX_STATES :: nat where "ALTSCREEN_MAX_STATES \<equiv> 4"
abbreviation ALTSCREEN_VIEW_COUNT :: int where "ALTSCREEN_VIEW_COUNT \<equiv> 4"
abbreviation ALTSCREEN_VIEW_REACQUIRE_DELAY_MS :: u64 where "ALTSCREEN_VIEW_REACQUIRE_DELAY_MS \<equiv> 150"
abbreviation ALTSCREEN_CONTROL_ACK_TIMEOUT_MS :: u64 where "ALTSCREEN_CONTROL_ACK_TIMEOUT_MS \<equiv> 2500"

datatype control_stage = CONTROL_IDLE | CONTROL_SHOW | CONTROL_VIEW | CONTROL_KEYFRAME

record altscreen_state =
  as_receiver :: ptr
  as_screen :: ptr
  as_connection_id :: u64
  as_listen_fd :: int
  as_accepted_fd :: int
  as_data_port :: u16
  as_worker :: nat
  as_worker_started :: bool
  as_screen_started :: bool
  as_show_sent :: bool
  as_stop_requested :: bool
  as_active :: bool
  as_route_known :: bool
  as_route_active :: bool
  as_current_view :: int
  as_pending_view :: int
  as_pending_from_gauge :: bool
  as_view_due_ms :: u64
  as_inflight :: int
  as_generation :: u64
  as_last_ui_slot :: int
  as_stage :: control_stage
  as_target_view :: int
  as_target_from_gauge :: bool
  as_awaiting_ack :: bool
  as_startup :: bool
  as_token :: u64
  as_deadline_ms :: u64

text \<open>An entry after memset.\<close>

definition zero_session :: altscreen_state where
  "zero_session = \<lparr>as_receiver = NULL, as_screen = NULL, as_connection_id = 0, as_listen_fd = 0,
     as_accepted_fd = 0, as_data_port = 0, as_worker = 0, as_worker_started = False,
     as_screen_started = False, as_show_sent = False, as_stop_requested = False, as_active = False,
     as_route_known = False, as_route_active = False, as_current_view = 0, as_pending_view = 0,
     as_pending_from_gauge = False, as_view_due_ms = 0, as_inflight = 0, as_generation = 0,
     as_last_ui_slot = 0, as_stage = CONTROL_IDLE, as_target_view = 0,
     as_target_from_gauge = False, as_awaiting_ack = False, as_startup = False, as_token = 0,
     as_deadline_ms = 0\<rparr>"

record alt_globals =
  ag_states :: "altscreen_state list"
  ag_view_worker_started :: int
  ag_layout_slot :: int
  ag_bap54_layout_known :: bool
  ag_pending_zoom :: int
  ag_trace_threads_started :: bool
  ag_generation_serial :: u64
  ag_request_serial :: u64

definition init_globals :: alt_globals where
  "init_globals = \<lparr>ag_states = replicate ALTSCREEN_MAX_STATES zero_session, ag_view_worker_started = 0,
     ag_layout_slot = 0, ag_bap54_layout_known = False, ag_pending_zoom = 0,
     ag_trace_threads_started = False, ag_generation_serial = 0, ag_request_serial = 0\<rparr>"

abbreviation slot :: "alt_globals \<Rightarrow> nat \<Rightarrow> altscreen_state" where
  "slot g i \<equiv> ag_states g ! i"

definition on_slot :: "nat \<Rightarrow> (altscreen_state \<Rightarrow> altscreen_state) \<Rightarrow> alt_globals \<Rightarrow> alt_globals" where
  "on_slot i f g = g\<lparr>ag_states := (ag_states g)[i := f (slot g i)]\<rparr>"

definition on_slots :: "(altscreen_state \<Rightarrow> altscreen_state) \<Rightarrow> alt_globals \<Rightarrow> alt_globals" where
  "on_slots f g = g\<lparr>ag_states := map f (ag_states g)\<rparr>"

section \<open>The table\<close>

definition find_state_receiver_locked :: "ptr \<Rightarrow> alt_globals \<Rightarrow> nat option" where
  "find_state_receiver_locked receiver g =
     find (\<lambda>i. as_active (slot g i) \<and> as_receiver (slot g i) = receiver) [0..<ALTSCREEN_MAX_STATES]"

definition find_state_worker_locked :: "nat \<Rightarrow> alt_globals \<Rightarrow> nat option" where
  "find_state_worker_locked thread g =
     find (\<lambda>i. as_active (slot g i) \<and> as_worker_started (slot g i) \<and> as_worker (slot g i) = thread)
       [0..<ALTSCREEN_MAX_STATES]"

text \<open>The fields that alloc_state_locked sets in a free entry.\<close>

definition new_slot :: "ptr \<Rightarrow> u64 \<Rightarrow> altscreen_state" where
  "new_slot receiver generation = zero_session\<lparr>as_receiver := receiver, as_listen_fd := -1,
     as_accepted_fd := -1, as_current_view := -1, as_pending_view := -1, as_target_view := -1,
     as_last_ui_slot := -1, as_generation := generation, as_active := True\<rparr>"

definition alloc_state_locked :: "ptr \<Rightarrow> alt_globals \<Rightarrow> nat option \<times> alt_globals" where
  "alloc_state_locked receiver g =
     (if find_state_receiver_locked receiver g \<noteq> None then (None, g)
      else case find (\<lambda>i. \<not> as_active (slot g i)) [0..<ALTSCREEN_MAX_STATES] of
             None \<Rightarrow> (None, g)
           | Some i \<Rightarrow>
               let serial = ag_generation_serial g + 1
               in (Some i, on_slot i (\<lambda>_. new_slot receiver serial) (g\<lparr>ag_generation_serial := serial\<rparr>)))"

definition clear_session :: "nat \<Rightarrow> alt_globals \<Rightarrow> alt_globals" where
  "clear_session i g = on_slot i (\<lambda>_. zero_session) g"

section \<open>Route state and view requests\<close>

text \<open>The part of private111_active_for_receiver under the lock; marker is access() == 0.\<close>

definition private111_active_for_receiver :: "bool \<Rightarrow> ptr \<Rightarrow> alt_globals \<Rightarrow> bool" where
  "private111_active_for_receiver marker receiver g \<longleftrightarrow>
     marker \<and> (case find_state_receiver_locked receiver g of
       None \<Rightarrow> False
     | Some i \<Rightarrow> as_active (slot g i) \<and> as_screen_started (slot g i) \<and> \<not> as_stop_requested (slot g i))"

definition note_route_state :: "ptr \<Rightarrow> bool \<Rightarrow> alt_globals \<Rightarrow> bool \<times> alt_globals" where
  "note_route_state receiver route_active g =
     (case find_state_receiver_locked receiver g of
        None \<Rightarrow> (False, g)
      | Some i \<Rightarrow>
          if \<not> as_route_known (slot g i) \<or> as_route_active (slot g i) \<noteq> route_active
          then (True, on_slot i (\<lambda>s. s\<lparr>as_route_active := route_active, as_route_known := True\<rparr>) g)
          else (False, g))"

definition route_view_for_state :: "int \<Rightarrow> altscreen_state \<Rightarrow> int" where
  "route_view_for_state layout_slot s =
     (let route = (if as_route_known s \<and> as_route_active s then 1 else 0) in layout_slot * 2 + route)"

definition queue_view :: "int \<Rightarrow> bool \<Rightarrow> u64 \<Rightarrow> altscreen_state \<Rightarrow> altscreen_state" where
  "queue_view layout_slot from_gauge due s =
     s\<lparr>as_pending_view := route_view_for_state layout_slot s, as_pending_from_gauge := from_gauge,
       as_view_due_ms := due\<rparr>"

definition queue_route_view_for_receiver :: "ptr \<Rightarrow> u64 \<Rightarrow> u64 \<Rightarrow> alt_globals \<Rightarrow> alt_globals" where
  "queue_route_view_for_receiver receiver delay_ms now g =
     (case find_state_receiver_locked receiver g of
        None \<Rightarrow> g
      | Some i \<Rightarrow>
          if as_active (slot g i) \<and> \<not> as_stop_requested (slot g i)
          then on_slot i (queue_view (ag_layout_slot g) False (now + delay_ms)) g else g)"

definition request_cluster :: "nat \<Rightarrow> u64 \<Rightarrow> alt_globals \<Rightarrow> alt_globals" where
  "request_cluster i now g =
     (if as_active (slot g i) \<and> \<not> as_stop_requested (slot g i)
      then on_slot i (\<lambda>s. (queue_view (ag_layout_slot g) False now s)\<lparr>as_startup := True\<rparr>) g else g)"

text \<open>The part of ScreenStreamProcessData under the lock: the entry whose first frame this is.\<close>

definition note_first_frame :: "nat \<Rightarrow> alt_globals \<Rightarrow> nat option \<times> alt_globals" where
  "note_first_frame thread g =
     (case find_state_worker_locked thread g of
        None \<Rightarrow> (None, g)
      | Some i \<Rightarrow>
          if as_screen_started (slot g i) \<and> \<not> as_show_sent (slot g i) \<and> \<not> as_stop_requested (slot g i)
          then (Some i, on_slot i (\<lambda>s. s\<lparr>as_show_sent := True\<rparr>) g) else (None, g))"

text \<open>The receiver that altscreen_request_fresh_keyframe sends forceKeyFrame to.\<close>

definition keyframe_receiver :: "alt_globals \<Rightarrow> ptr" where
  "keyframe_receiver g =
     (case find (\<lambda>i. as_active (slot g i) \<and> as_receiver (slot g i) \<noteq> NULL \<and>
                     as_screen_started (slot g i) \<and> \<not> as_stop_requested (slot g i)) [0..<ALTSCREEN_MAX_STATES] of
        None \<Rightarrow> NULL | Some i \<Rightarrow> as_receiver (slot g i))"

section \<open>Gauge layout and wheel\<close>

definition requeue_for_layout :: "int \<Rightarrow> u64 \<Rightarrow> alt_globals \<Rightarrow> alt_globals" where
  "requeue_for_layout layout now g =
     on_slots (\<lambda>s. if \<not> as_active s \<or> \<not> as_screen_started s \<or> as_stop_requested s then s
                   else queue_view layout True (now + ALTSCREEN_VIEW_REACQUIRE_DELAY_MS) s)
       (g\<lparr>ag_layout_slot := layout\<rparr>)"

text \<open>The locked part of v8n_observe_gauge_bap54.\<close>

definition gauge_bap54_seen :: "int \<Rightarrow> u64 \<Rightarrow> alt_globals \<Rightarrow> alt_globals" where
  "gauge_bap54_seen layout now g =
     (let g' = g\<lparr>ag_bap54_layout_known := True\<rparr>
      in if layout \<noteq> ag_layout_slot g then requeue_for_layout layout now g' else g')"

text \<open>The locked parts of v8h_trace_line.\<close>

definition zoom_area_seen :: "int \<Rightarrow> u64 \<Rightarrow> alt_globals \<Rightarrow> alt_globals" where
  "zoom_area_seen layout now g =
     (if ag_bap54_layout_known g then g
      else if layout \<noteq> ag_layout_slot g then requeue_for_layout layout now g else g)"

definition encoder_step_seen :: "int \<Rightarrow> alt_globals \<Rightarrow> alt_globals" where
  "encoder_step_seen step g =
     (if ag_pending_zoom g > -20 \<and> ag_pending_zoom g < 20
      then g\<lparr>ag_pending_zoom := ag_pending_zoom g + (if step > 0 then 1 else -1)\<rparr> else g)"

section \<open>The control worker\<close>

text \<open>What a command carries until it is answered; also the context of its completion.\<close>

record control_completion_context =
  cx_receiver :: ptr
  cx_generation :: u64
  cx_token :: u64
  cx_stage :: control_stage
  cx_view :: int

definition slot_command :: "altscreen_state \<Rightarrow> control_completion_context" where
  "slot_command s = \<lparr>cx_receiver = as_receiver s, cx_generation = as_generation s,
     cx_token = as_token s, cx_stage = as_stage s, cx_view = as_target_view s\<rparr>"

text \<open>The end of a command without the answer it waits for.\<close>

definition drop_command :: "control_stage \<Rightarrow> altscreen_state \<Rightarrow> altscreen_state" where
  "drop_command stage s =
     (let s = s\<lparr>as_awaiting_ack := False, as_deadline_ms := 0\<rparr>;
          s = (if stage = CONTROL_SHOW then s\<lparr>as_last_ui_slot := -1\<rparr> else s)
      in s\<lparr>as_stage := CONTROL_IDLE, as_startup := False\<rparr>)"

text \<open>The accepted branch of v8s_control_completion.\<close>

definition take_answer :: "int \<Rightarrow> control_completion_context \<Rightarrow> altscreen_state \<Rightarrow> altscreen_state" where
  "take_answer status ctx s =
     (if status = 0 then
        let s = s\<lparr>as_awaiting_ack := False, as_deadline_ms := 0\<rparr>;
            s = (if cx_stage ctx = CONTROL_SHOW then s\<lparr>as_last_ui_slot := cx_view ctx div 2\<rparr> else s)
        in if cx_stage ctx = CONTROL_SHOW then s\<lparr>as_stage := CONTROL_VIEW\<rparr>
           else if cx_stage ctx = CONTROL_VIEW then s\<lparr>as_stage := CONTROL_KEYFRAME\<rparr>
           else s\<lparr>as_current_view := cx_view ctx, as_stage := CONTROL_IDLE, as_startup := False\<rparr>
      else drop_command (cx_stage ctx) s)"

definition awaits :: "control_completion_context \<Rightarrow> altscreen_state \<Rightarrow> bool" where
  "awaits ctx s \<longleftrightarrow> as_generation s = cx_generation ctx \<and> as_awaiting_ack s \<and>
     as_token s = cx_token ctx \<and> as_stage s = cx_stage ctx"

definition v8s_control_completion ::
    "int \<Rightarrow> control_completion_context \<Rightarrow> alt_globals \<Rightarrow> bool \<times> alt_globals" where
  "v8s_control_completion status ctx g =
     (case find_state_receiver_locked (cx_receiver ctx) g of
        None \<Rightarrow> (False, g)
      | Some i \<Rightarrow>
          if \<not> as_stop_requested (slot g i) \<and> awaits ctx (slot g i)
          then (True, on_slot i (take_answer status ctx) g) else (False, g))"

definition v8s_control_dispatch_failed ::
    "control_completion_context \<Rightarrow> alt_globals \<Rightarrow> bool \<times> alt_globals" where
  "v8s_control_dispatch_failed ctx g =
     (case find_state_receiver_locked (cx_receiver ctx) g of
        None \<Rightarrow> (False, g)
      | Some i \<Rightarrow>
          if awaits ctx (slot g i) then (True, on_slot i (drop_command (cx_stage ctx)) g) else (False, g))"

text \<open>The end of v8s_control_send, after SendCommand has returned.\<close>

definition control_sent :: "control_completion_context \<Rightarrow> alt_globals \<Rightarrow> alt_globals" where
  "control_sent ctx g =
     (case find_state_receiver_locked (cx_receiver ctx) g of
        None \<Rightarrow> g
      | Some i \<Rightarrow>
          if as_generation (slot g i) = cx_generation ctx \<and> as_inflight (slot g i) > 0
          then on_slot i (\<lambda>s. s\<lparr>as_inflight := as_inflight s - 1\<rparr>) g else g)"

text \<open>The body of the loop of v8s_control_tick for one entry.\<close>

definition eligible :: "altscreen_state \<Rightarrow> bool" where
  "eligible s \<longleftrightarrow> as_active s \<and> as_screen_started s \<and> \<not> as_stop_requested s \<and> as_receiver s \<noteq> NULL"

definition timed_out :: "u64 \<Rightarrow> altscreen_state \<Rightarrow> bool" where
  "timed_out now s \<longleftrightarrow> as_awaiting_ack s \<and> now \<ge> as_deadline_ms s"

definition control_expire :: "u64 \<Rightarrow> altscreen_state \<Rightarrow> altscreen_state" where
  "control_expire now s = (if timed_out now s then drop_command (as_stage s) s else s)"

definition control_take :: "altscreen_state \<Rightarrow> altscreen_state" where
  "control_take s =
     (let desired = as_pending_view s
      in s\<lparr>as_target_view := desired, as_target_from_gauge := as_pending_from_gauge s,
           as_pending_view := -1, as_pending_from_gauge := False, as_view_due_ms := 0,
           as_stage := (if as_last_ui_slot s \<noteq> desired div 2 then CONTROL_SHOW else CONTROL_VIEW)\<rparr>)"

definition wants_command :: "bool \<Rightarrow> altscreen_state \<Rightarrow> bool" where
  "wants_command active s \<longleftrightarrow> \<not> (as_stage s = CONTROL_IDLE \<or> (\<not> active \<and> \<not> as_startup s))"

definition tick_slot :: "bool \<Rightarrow> u64 \<Rightarrow> altscreen_state \<Rightarrow> altscreen_state \<times> bool" where
  "tick_slot active now s =
     (if \<not> eligible s then (s, False)
      else let s = control_expire now s
      in if as_awaiting_ack s then (s, False)
         else if as_pending_view s \<ge> 0 \<and> as_view_due_ms s \<le> now
         then let s = control_take s in (s, wants_command active s)
         else if as_pending_view s \<ge> 0 then (s, False)
         else (s, wants_command active s))"

definition control_dispatch :: "u64 \<Rightarrow> u64 \<Rightarrow> altscreen_state \<Rightarrow> altscreen_state" where
  "control_dispatch token now s =
     s\<lparr>as_token := token, as_awaiting_ack := True,
       as_deadline_ms := now + ALTSCREEN_CONTROL_ACK_TIMEOUT_MS, as_inflight := as_inflight s + 1\<rparr>"

text \<open>The loop: the command to send, the commands that have timed out, and the new table.\<close>

fun tick_scan :: "bool \<Rightarrow> u64 \<Rightarrow> nat list \<Rightarrow> alt_globals \<Rightarrow>
    control_completion_context option \<times> control_completion_context list \<times> alt_globals" where
  "tick_scan active now [] g = (None, [], g)"
| "tick_scan active now (i # is) g =
     (let late = (if eligible (slot g i) \<and> timed_out now (slot g i) then [slot_command (slot g i)] else []);
          (s, go) = tick_slot active now (slot g i)
      in if go then
           let token = ag_request_serial g + 1;
               s = control_dispatch token now s
           in (Some (slot_command s), late, on_slot i (\<lambda>_. s) (g\<lparr>ag_request_serial := token\<rparr>))
         else
           let (c, late', g') = tick_scan active now is (on_slot i (\<lambda>_. s) g) in (c, late @ late', g'))"

text \<open>The wheel: the entry and the direction of the zoom command to send.\<close>

definition tick_zoom :: "bool \<Rightarrow> alt_globals \<Rightarrow> (nat \<times> int) option \<times> alt_globals" where
  "tick_zoom active g =
     (case (if ag_pending_zoom g \<noteq> 0 then find (\<lambda>i. eligible (slot g i)) [0..<ALTSCREEN_MAX_STATES] else None) of
        Some i \<Rightarrow>
          if active then
            let zoom = (if ag_pending_zoom g > 0 then 1 else -1)
            in (Some (i, zoom), on_slot i (\<lambda>s. s\<lparr>as_inflight := as_inflight s + 1\<rparr>)
                                  (g\<lparr>ag_pending_zoom := ag_pending_zoom g - zoom\<rparr>))
          else (None, g\<lparr>ag_pending_zoom := 0\<rparr>)
      | None \<Rightarrow> if \<not> active then (None, g\<lparr>ag_pending_zoom := 0\<rparr>) else (None, g))"

definition zoom_sent :: "nat \<Rightarrow> alt_globals \<Rightarrow> alt_globals" where
  "zoom_sent i g =
     (if as_inflight (slot g i) > 0 then on_slot i (\<lambda>s. s\<lparr>as_inflight := as_inflight s - 1\<rparr>) g else g)"

definition v8s_control_tick :: "bool \<Rightarrow> u64 \<Rightarrow> alt_globals \<Rightarrow>
    control_completion_context option \<times> (nat \<times> int) option \<times> control_completion_context list \<times> alt_globals" where
  "v8s_control_tick active now g =
     (let (c, late, g) = tick_scan active now [0..<ALTSCREEN_MAX_STATES] g;
          (z, g) = tick_zoom active g
      in (c, z, late, g))"

end
