(* ===== verification/Alt_Control.thy ===== *)
theory Alt_Control
  imports Alt_State
begin

text \<open>
  The threads of altscreen/native/altscreen_session.c as one transition system. Each action is one
  section under g_lock, or one call into the AirPlay library between two sections: the control
  worker (tick, zoom, send), the completions that the library runs at any later time, the parser of
  the mode state, the readers of the trace ports, the thread that serves a private screen, and the
  SETUP and TEARDOWN calls. An action that is not possible in a state is the value None.
\<close>

section \<open>The system\<close>

text \<open>The position of the control worker; the generation of a zoom command is only for the proofs.\<close>

datatype tick_pc =
    T_IDLE
  | T_ZOOM nat u64 int "control_completion_context option"
  | T_ZOOMED nat u64 "control_completion_context option"
  | T_CMD control_completion_context
  | T_SENT control_completion_context int
  | T_REFUSED control_completion_context int

datatype worker_phase = NO_WORKER | WORKER_READY | WORKER_RUNNING | WORKER_DONE

datatype control_event =
    E_SENT control_completion_context
  | E_ACKED control_completion_context int
  | E_STALE control_completion_context
  | E_EXPIRED control_completion_context
  | E_REFUSED control_completion_context
  | E_ZOOM ptr int

record alt_sys =
  cs_g :: alt_globals
  cs_pc :: tick_pc
  cs_open :: "control_completion_context list"
  cs_parsed :: "(ptr \<times> bool) list"
  cs_queue :: "ptr list"
  cs_first :: "nat list"
  cs_phase :: "worker_phase list"
  cs_log :: "control_event list"

definition init_sys :: alt_sys where
  "init_sys = \<lparr>cs_g = init_globals, cs_pc = T_IDLE, cs_open = [], cs_parsed = [], cs_queue = [],
     cs_first = [], cs_phase = replicate ALTSCREEN_MAX_STATES NO_WORKER, cs_log = []\<rparr>"

datatype alt_act =
    A_ALLOC ptr | A_CREATE nat nat | A_CREATED nat | A_STARTED nat | A_ENDED nat | A_FAILED nat
  | A_STOP ptr | A_CLEAR nat
  | A_PARSE bool ptr bool | A_NOTE nat | A_QUEUE nat u64
  | A_FRAME nat | A_CLUSTER nat u64
  | A_BAP54 int u64 | A_AREA int u64 | A_ENCODER int
  | A_TICK bool u64 | A_ZOOM | A_ZOOMED | A_SEND bool int | A_SENT | A_REFUSED
  | A_COMPLETE nat int

definition remove_nth :: "nat \<Rightarrow> 'a list \<Rightarrow> 'a list" where
  "remove_nth n xs = take n xs @ drop (Suc n) xs"

definition after_zoom :: "control_completion_context option \<Rightarrow> tick_pc" where
  "after_zoom c = (case c of None \<Rightarrow> T_IDLE | Some c \<Rightarrow> T_CMD c)"

fun perform :: "alt_act \<Rightarrow> alt_sys \<Rightarrow> alt_sys option" where
  "perform (A_ALLOC receiver) s = Some (s\<lparr>cs_g := snd (alloc_state_locked receiver (cs_g s))\<rparr>)"
| "perform (A_CREATE i t) s =
     (if i < ALTSCREEN_MAX_STATES \<and> as_active (slot (cs_g s) i) \<and> cs_phase s ! i = NO_WORKER
      then Some (s\<lparr>cs_g := on_slot i (\<lambda>x. x\<lparr>as_worker := t\<rparr>) (cs_g s),
                   cs_phase := (cs_phase s)[i := WORKER_READY]\<rparr>) else None)"
| "perform (A_CREATED i) s =
     (if i < ALTSCREEN_MAX_STATES \<and> cs_phase s ! i \<noteq> NO_WORKER
      then Some (s\<lparr>cs_g := on_slot i (\<lambda>x. x\<lparr>as_worker_started := True\<rparr>) (cs_g s)\<rparr>) else None)"
| "perform (A_STARTED i) s =
     (if i < ALTSCREEN_MAX_STATES \<and> cs_phase s ! i = WORKER_READY
      then Some (s\<lparr>cs_g := on_slot i (\<lambda>x. x\<lparr>as_screen_started := True\<rparr>) (cs_g s),
                   cs_phase := (cs_phase s)[i := WORKER_RUNNING]\<rparr>) else None)"
| "perform (A_ENDED i) s =
     (if i < ALTSCREEN_MAX_STATES \<and> cs_phase s ! i = WORKER_RUNNING \<and> i \<notin> set (cs_first s)
      then Some (s\<lparr>cs_g := on_slot i (\<lambda>x. x\<lparr>as_screen_started := False\<rparr>) (cs_g s),
                   cs_phase := (cs_phase s)[i := WORKER_DONE]\<rparr>) else None)"
| "perform (A_FAILED i) s =
     (if i < ALTSCREEN_MAX_STATES \<and> cs_phase s ! i = WORKER_READY
      then Some (s\<lparr>cs_phase := (cs_phase s)[i := WORKER_DONE]\<rparr>) else None)"
| "perform (A_STOP receiver) s =
     (case find_state_receiver_locked receiver (cs_g s) of
        None \<Rightarrow> None
      | Some i \<Rightarrow> Some (s\<lparr>cs_g := on_slot i (\<lambda>x. x\<lparr>as_stop_requested := True\<rparr>) (cs_g s)\<rparr>))"
| "perform (A_CLEAR i) s =
     (if i < ALTSCREEN_MAX_STATES \<and> cs_phase s ! i \<in> {NO_WORKER, WORKER_DONE}
      then Some (s\<lparr>cs_g := clear_session i (cs_g s), cs_phase := (cs_phase s)[i := NO_WORKER]\<rparr>) else None)"
| "perform (A_PARSE marker receiver route) s =
     (if private111_active_for_receiver marker receiver (cs_g s)
      then Some (s\<lparr>cs_parsed := (receiver, route) # cs_parsed s\<rparr>) else Some s)"
| "perform (A_NOTE n) s =
     (if n < length (cs_parsed s) then
        let (receiver, route) = cs_parsed s ! n;
            (changed, g) = note_route_state receiver route (cs_g s)
        in Some (s\<lparr>cs_g := g, cs_parsed := remove_nth n (cs_parsed s),
                   cs_queue := (if changed then receiver # cs_queue s else cs_queue s)\<rparr>)
      else None)"
| "perform (A_QUEUE n now) s =
     (if n < length (cs_queue s) then
        Some (s\<lparr>cs_g := queue_route_view_for_receiver (cs_queue s ! n)
                          ALTSCREEN_VIEW_REACQUIRE_DELAY_MS now (cs_g s),
                cs_queue := remove_nth n (cs_queue s)\<rparr>)
      else None)"
| "perform (A_FRAME t) s =
     (case note_first_frame t (cs_g s) of
        (None, g) \<Rightarrow> Some s
      | (Some i, g) \<Rightarrow>
          if cs_phase s ! i = WORKER_RUNNING then Some (s\<lparr>cs_g := g, cs_first := i # cs_first s\<rparr>) else None)"
| "perform (A_CLUSTER n now) s =
     (if n < length (cs_first s) then
        Some (s\<lparr>cs_g := request_cluster (cs_first s ! n) now (cs_g s), cs_first := remove_nth n (cs_first s)\<rparr>)
      else None)"
| "perform (A_BAP54 layout now) s =
     (if layout \<in> {0, 1} then Some (s\<lparr>cs_g := gauge_bap54_seen layout now (cs_g s)\<rparr>) else None)"
| "perform (A_AREA layout now) s =
     (if layout \<in> {0, 1} then Some (s\<lparr>cs_g := zoom_area_seen layout now (cs_g s)\<rparr>) else None)"
| "perform (A_ENCODER step) s = Some (s\<lparr>cs_g := encoder_step_seen step (cs_g s)\<rparr>)"
| "perform (A_TICK active now) s =
     (if cs_pc s \<noteq> T_IDLE then None
      else case v8s_control_tick active now (cs_g s) of (c, z, late, g) \<Rightarrow>
        Some (s\<lparr>cs_g := g, cs_log := cs_log s @ map E_EXPIRED late,
                cs_pc := (case z of None \<Rightarrow> after_zoom c
                          | Some (i, zoom) \<Rightarrow> T_ZOOM i (as_generation (slot g i)) zoom c)\<rparr>))"
| "perform A_ZOOM s =
     (case cs_pc s of
        T_ZOOM i gen zoom c \<Rightarrow>
          Some (s\<lparr>cs_pc := T_ZOOMED i gen c,
                  cs_log := cs_log s @ [E_ZOOM (as_receiver (slot (cs_g s) i)) (if zoom > 0 then 0 else 1)]\<rparr>)
      | _ \<Rightarrow> None)"
| "perform A_ZOOMED s =
     (case cs_pc s of
        T_ZOOMED i gen c \<Rightarrow> Some (s\<lparr>cs_g := zoom_sent i (cs_g s), cs_pc := after_zoom c\<rparr>)
      | _ \<Rightarrow> None)"
| "perform (A_SEND built rc) s =
     (case cs_pc s of
        T_CMD c \<Rightarrow>
          if built \<and> rc = 0
          then Some (s\<lparr>cs_pc := T_SENT c 0, cs_open := c # cs_open s, cs_log := cs_log s @ [E_SENT c]\<rparr>)
          else Some (s\<lparr>cs_pc := T_SENT c (if built then rc else -1)\<rparr>)
      | _ \<Rightarrow> None)"
| "perform A_SENT s =
     (case cs_pc s of
        T_SENT c rc \<Rightarrow> Some (s\<lparr>cs_g := control_sent c (cs_g s),
                               cs_pc := (if rc \<noteq> 0 then T_REFUSED c rc else T_IDLE)\<rparr>)
      | _ \<Rightarrow> None)"
| "perform A_REFUSED s =
     (case cs_pc s of
        T_REFUSED c rc \<Rightarrow>
          let (ok, g) = v8s_control_dispatch_failed c (cs_g s)
          in Some (s\<lparr>cs_g := g, cs_pc := T_IDLE, cs_log := cs_log s @ (if ok then [E_REFUSED c] else [])\<rparr>)
      | _ \<Rightarrow> None)"
| "perform (A_COMPLETE n status) s =
     (if n < length (cs_open s) then
        let c = cs_open s ! n;
            (ok, g) = v8s_control_completion status c (cs_g s)
        in Some (s\<lparr>cs_g := g, cs_open := remove_nth n (cs_open s),
                   cs_log := cs_log s @ [if ok then E_ACKED c status else E_STALE c]\<rparr>)
      else None)"

text \<open>The two serial numbers are 64 bits wide; runs in which one of them wraps around are left out.\<close>

definition serials_fit :: "alt_sys \<Rightarrow> bool" where
  "serials_fit s \<longleftrightarrow> ag_generation_serial (cs_g s) \<noteq> - 1 \<and> ag_request_serial (cs_g s) \<noteq> - 1"

inductive alt_reach :: "alt_sys \<Rightarrow> bool" where
  alt_init: "alt_reach init_sys"
| alt_step: "alt_reach s \<Longrightarrow> serials_fit s \<Longrightarrow> perform a s = Some s' \<Longrightarrow> alt_reach s'"

section \<open>Slots and searches\<close>

lemma slot_on_slot [simp]:
  "i < length (ag_states g) \<Longrightarrow> slot (on_slot i f g) j = (if j = i then f (slot g i) else slot g j)"
  by (simp add: on_slot_def)

lemma on_slot_other [simp]:
  "length (ag_states (on_slot i f g)) = length (ag_states g)"
  "ag_layout_slot (on_slot i f g) = ag_layout_slot g"
  "ag_bap54_layout_known (on_slot i f g) = ag_bap54_layout_known g"
  "ag_pending_zoom (on_slot i f g) = ag_pending_zoom g"
  "ag_generation_serial (on_slot i f g) = ag_generation_serial g"
  "ag_request_serial (on_slot i f g) = ag_request_serial g"
  by (simp_all add: on_slot_def)

lemma slot_on_slots [simp]: "j < length (ag_states g) \<Longrightarrow> slot (on_slots f g) j = f (slot g j)"
  by (simp add: on_slots_def)

lemma on_slots_other [simp]:
  "length (ag_states (on_slots f g)) = length (ag_states g)"
  "ag_layout_slot (on_slots f g) = ag_layout_slot g"
  "ag_bap54_layout_known (on_slots f g) = ag_bap54_layout_known g"
  "ag_pending_zoom (on_slots f g) = ag_pending_zoom g"
  "ag_generation_serial (on_slots f g) = ag_generation_serial g"
  "ag_request_serial (on_slots f g) = ag_request_serial g"
  by (simp_all add: on_slots_def)

lemma find_upt_SomeD: "find P [0..<n] = Some i \<Longrightarrow> i < n \<and> P i"
  by (auto simp: find_Some_iff)

lemma find_upt_NoneD: "find P [0..<n] = None \<Longrightarrow> i < n \<Longrightarrow> \<not> P i"
  by (auto simp: find_None_iff)

lemma find_receiver_SomeD:
  "find_state_receiver_locked r g = Some i \<Longrightarrow>
     i < ALTSCREEN_MAX_STATES \<and> as_active (slot g i) \<and> as_receiver (slot g i) = r"
  unfolding find_state_receiver_locked_def by (drule find_upt_SomeD) simp

lemma find_receiver_NoneD:
  "find_state_receiver_locked r g = None \<Longrightarrow> i < ALTSCREEN_MAX_STATES \<Longrightarrow>
     as_active (slot g i) \<Longrightarrow> as_receiver (slot g i) \<noteq> r"
  unfolding find_state_receiver_locked_def by (drule (1) find_upt_NoneD) simp

lemma set_remove_nth: "set (remove_nth n xs) \<subseteq> set xs"
  by (auto simp: remove_nth_def dest: in_set_takeD in_set_dropD)

lemma in_remove_nth: "x \<in> set (remove_nth n xs) \<Longrightarrow> x \<in> set xs"
  by (rule subsetD [OF set_remove_nth])

lemma kept_by_remove_nth:
  assumes "x \<in> set xs" "n < length xs" "x \<noteq> xs ! n"
  shows "x \<in> set (remove_nth n xs)"
proof -
  have "set xs = insert (xs ! n) (set (remove_nth n xs))"
    unfolding remove_nth_def using id_take_nth_drop [OF assms(2)] by (metis set_append list.simps(15) Un_insert_right)
  with assms show ?thesis by blast
qed

lemma less_plus_one: "x < x + 1" if "x \<noteq> - 1" for x :: u64
proof -
  have "1 + x \<noteq> 0" using that max_word_wrap [of x] by (auto simp: add.commute)
  then have "unat (1 + x) = Suc (unat x)" by (rule unatSuc)
  then show ?thesis by (simp add: word_less_nat_alt add.commute)
qed
end
