(* ===== verification/Alt_Tick.thy ===== *)
theory Alt_Tick
  imports Alt_Control
begin

text \<open>
  What one tick of the control worker does to the table: the slots it visits and how each of them
  changes, the one that sends a command, and the counters.
\<close>

section \<open>Fields\<close>

lemma drop_command_fields [simp]:
  "as_active (drop_command st x) = as_active x"
  "as_receiver (drop_command st x) = as_receiver x"
  "as_generation (drop_command st x) = as_generation x"
  "as_inflight (drop_command st x) = as_inflight x"
  "as_screen_started (drop_command st x) = as_screen_started x"
  "as_show_sent (drop_command st x) = as_show_sent x"
  "as_stop_requested (drop_command st x) = as_stop_requested x"
  "as_route_known (drop_command st x) = as_route_known x"
  "as_route_active (drop_command st x) = as_route_active x"
  "as_current_view (drop_command st x) = as_current_view x"
  "as_token (drop_command st x) = as_token x"
  "as_worker (drop_command st x) = as_worker x"
  "as_worker_started (drop_command st x) = as_worker_started x"
  "as_pending_view (drop_command st x) = as_pending_view x"
  "as_target_view (drop_command st x) = as_target_view x"
  "as_view_due_ms (drop_command st x) = as_view_due_ms x"
  "\<not> as_awaiting_ack (drop_command st x)"
  "as_stage (drop_command st x) = CONTROL_IDLE"
  "as_last_ui_slot (drop_command st x) = (if st = CONTROL_SHOW then -1 else as_last_ui_slot x)"
  "\<not> as_startup (drop_command st x)"
  by (simp_all add: drop_command_def Let_def)

lemma control_take_fields [simp]:
  "as_active (control_take x) = as_active x"
  "as_receiver (control_take x) = as_receiver x"
  "as_generation (control_take x) = as_generation x"
  "as_inflight (control_take x) = as_inflight x"
  "as_screen_started (control_take x) = as_screen_started x"
  "as_show_sent (control_take x) = as_show_sent x"
  "as_stop_requested (control_take x) = as_stop_requested x"
  "as_route_known (control_take x) = as_route_known x"
  "as_route_active (control_take x) = as_route_active x"
  "as_current_view (control_take x) = as_current_view x"
  "as_token (control_take x) = as_token x"
  "as_worker (control_take x) = as_worker x"
  "as_worker_started (control_take x) = as_worker_started x"
  "as_pending_view (control_take x) = -1"
  "as_target_view (control_take x) = as_pending_view x"
  "as_awaiting_ack (control_take x) = as_awaiting_ack x"
  "as_stage (control_take x) = (if as_last_ui_slot x \<noteq> as_pending_view x div 2 then CONTROL_SHOW else CONTROL_VIEW)"
  "as_last_ui_slot (control_take x) = as_last_ui_slot x"
  "as_startup (control_take x) = as_startup x"
  by (simp_all add: control_take_def Let_def)

lemma control_dispatch_fields [simp]:
  "as_active (control_dispatch tok now x) = as_active x"
  "as_receiver (control_dispatch tok now x) = as_receiver x"
  "as_generation (control_dispatch tok now x) = as_generation x"
  "as_screen_started (control_dispatch tok now x) = as_screen_started x"
  "as_show_sent (control_dispatch tok now x) = as_show_sent x"
  "as_stop_requested (control_dispatch tok now x) = as_stop_requested x"
  "as_route_known (control_dispatch tok now x) = as_route_known x"
  "as_route_active (control_dispatch tok now x) = as_route_active x"
  "as_current_view (control_dispatch tok now x) = as_current_view x"
  "as_worker (control_dispatch tok now x) = as_worker x"
  "as_worker_started (control_dispatch tok now x) = as_worker_started x"
  "as_pending_view (control_dispatch tok now x) = as_pending_view x"
  "as_target_view (control_dispatch tok now x) = as_target_view x"
  "as_awaiting_ack (control_dispatch tok now x)"
  "as_stage (control_dispatch tok now x) = as_stage x"
  "as_last_ui_slot (control_dispatch tok now x) = as_last_ui_slot x"
  "as_startup (control_dispatch tok now x) = as_startup x"
  "as_token (control_dispatch tok now x) = tok"
  "as_inflight (control_dispatch tok now x) = as_inflight x + 1"
  by (simp_all add: control_dispatch_def Let_def)

lemma take_answer_fields [simp]:
  "as_active (take_answer status c x) = as_active x"
  "as_receiver (take_answer status c x) = as_receiver x"
  "as_generation (take_answer status c x) = as_generation x"
  "as_inflight (take_answer status c x) = as_inflight x"
  "as_screen_started (take_answer status c x) = as_screen_started x"
  "as_show_sent (take_answer status c x) = as_show_sent x"
  "as_stop_requested (take_answer status c x) = as_stop_requested x"
  "as_route_known (take_answer status c x) = as_route_known x"
  "as_route_active (take_answer status c x) = as_route_active x"
  "as_token (take_answer status c x) = as_token x"
  "as_worker (take_answer status c x) = as_worker x"
  "as_worker_started (take_answer status c x) = as_worker_started x"
  "as_pending_view (take_answer status c x) = as_pending_view x"
  "as_target_view (take_answer status c x) = as_target_view x"
  "\<not> as_awaiting_ack (take_answer status c x)"
  by (simp_all add: take_answer_def drop_command_def Let_def)

lemma queue_view_fields [simp]:
  "as_active (queue_view l fg due x) = as_active x"
  "as_receiver (queue_view l fg due x) = as_receiver x"
  "as_generation (queue_view l fg due x) = as_generation x"
  "as_inflight (queue_view l fg due x) = as_inflight x"
  "as_screen_started (queue_view l fg due x) = as_screen_started x"
  "as_show_sent (queue_view l fg due x) = as_show_sent x"
  "as_stop_requested (queue_view l fg due x) = as_stop_requested x"
  "as_route_known (queue_view l fg due x) = as_route_known x"
  "as_route_active (queue_view l fg due x) = as_route_active x"
  "as_current_view (queue_view l fg due x) = as_current_view x"
  "as_token (queue_view l fg due x) = as_token x"
  "as_worker (queue_view l fg due x) = as_worker x"
  "as_worker_started (queue_view l fg due x) = as_worker_started x"
  "as_pending_view (queue_view l fg due x) = route_view_for_state l x"
  "as_target_view (queue_view l fg due x) = as_target_view x"
  "as_awaiting_ack (queue_view l fg due x) = as_awaiting_ack x"
  "as_stage (queue_view l fg due x) = as_stage x"
  "as_last_ui_slot (queue_view l fg due x) = as_last_ui_slot x"
  "as_startup (queue_view l fg due x) = as_startup x"
  "as_view_due_ms (queue_view l fg due x) = due"
  by (simp_all add: queue_view_def Let_def)

section \<open>The loop of the tick\<close>

lemma tick_slot_keeps [simp]:
  "as_active (fst (tick_slot active now x)) = as_active x"
  "as_receiver (fst (tick_slot active now x)) = as_receiver x"
  "as_generation (fst (tick_slot active now x)) = as_generation x"
  "as_inflight (fst (tick_slot active now x)) = as_inflight x"
  "as_screen_started (fst (tick_slot active now x)) = as_screen_started x"
  "as_show_sent (fst (tick_slot active now x)) = as_show_sent x"
  "as_stop_requested (fst (tick_slot active now x)) = as_stop_requested x"
  "as_route_known (fst (tick_slot active now x)) = as_route_known x"
  "as_route_active (fst (tick_slot active now x)) = as_route_active x"
  "as_current_view (fst (tick_slot active now x)) = as_current_view x"
  by (simp_all add: tick_slot_def control_expire_def Let_def)

lemma tick_slot_idle: "\<not> eligible x \<Longrightarrow> tick_slot active now x = (x, False)"
  by (simp add: tick_slot_def)

lemma tick_slot_waits:
  "as_awaiting_ack (fst (tick_slot active now x)) \<Longrightarrow> tick_slot active now x = (x, False)"
  by (simp add: tick_slot_def control_expire_def Let_def split: if_split_asm)

lemma tick_slot_go:
  "snd (tick_slot active now x) \<Longrightarrow> eligible x \<and> as_stage (fst (tick_slot active now x)) \<noteq> CONTROL_IDLE
     \<and> \<not> as_awaiting_ack (fst (tick_slot active now x))"
  by (simp add: tick_slot_def control_expire_def wants_command_def Let_def split: if_split_asm)

text \<open>
  The slots ps that the loop has visited when it ends; the last one is the one that sends, if any.
\<close>

definition tick_result :: "bool \<Rightarrow> u64 \<Rightarrow> alt_globals \<Rightarrow> control_completion_context option \<Rightarrow>
    control_completion_context list \<Rightarrow> alt_globals \<Rightarrow> nat list \<Rightarrow> bool" where
  "tick_result active now g c late g' ps \<longleftrightarrow>
     late = map (\<lambda>j. slot_command (slot g j)) (filter (\<lambda>j. eligible (slot g j) \<and> timed_out now (slot g j)) ps) \<and>
     (\<forall>j < 4. slot g' j =
        (if j \<notin> set ps then slot g j
         else if c \<noteq> None \<and> j = last ps
              then control_dispatch (ag_request_serial g + 1) now (fst (tick_slot active now (slot g j)))
         else fst (tick_slot active now (slot g j)))) \<and>
     (\<forall>j \<in> set ps. snd (tick_slot active now (slot g j)) \<longleftrightarrow> c \<noteq> None \<and> j = last ps) \<and>
     length (ag_states g') = 4 \<and> ag_layout_slot g' = ag_layout_slot g \<and>
     ag_bap54_layout_known g' = ag_bap54_layout_known g \<and> ag_pending_zoom g' = ag_pending_zoom g \<and>
     ag_generation_serial g' = ag_generation_serial g \<and>
     (case c of None \<Rightarrow> ag_request_serial g' = ag_request_serial g
      | Some x \<Rightarrow> ps \<noteq> [] \<and> ag_request_serial g' = ag_request_serial g + 1 \<and> x = slot_command (slot g' (last ps)))"

lemma tick_scan_result:
  "tick_scan active now is g = (c, late, g') \<Longrightarrow> distinct is \<Longrightarrow> set is \<subseteq> {..<4} \<Longrightarrow>
   length (ag_states g) = 4 \<Longrightarrow>
   \<exists>ps rest. is = ps @ rest \<and> (c = None \<longrightarrow> rest = []) \<and> tick_result active now g c late g' ps"
proof (induction "is" arbitrary: g c late g')
  case Nil
  then show ?case by (auto simp: tick_result_def)
next
  case (Cons i "is")
  let ?r = "tick_slot active now (slot g i)"
  let ?l = "if eligible (slot g i) \<and> timed_out now (slot g i) then [slot_command (slot g i)] else []"
  show ?case
  proof (cases "snd ?r")
    case True
    with Cons.prems have "tick_result active now g c late g' [i]" "c \<noteq> None"
      by (auto simp: tick_result_def Let_def case_prod_beta)
    then show ?thesis by (metis append_Cons append_Nil)
  next
    case False
    let ?g = "on_slot i (\<lambda>_. fst ?r) g"
    obtain late' where scan: "tick_scan active now is ?g = (c, late', g')" and late: "late = ?l @ late'"
      using Cons.prems(1) False by (cases "tick_scan active now is ?g") (auto simp: Let_def case_prod_beta)
    obtain ps rest where "is = ps @ rest" "c = None \<longrightarrow> rest = []" and r: "tick_result active now ?g c late' g' ps"
      using Cons.IH [OF scan] Cons.prems by auto
    have i: "i < 4" "i \<notin> set ps" and len: "length (ag_states g) = 4"
      using Cons.prems \<open>is = ps @ rest\<close> by auto
    have other: "slot ?g j = slot g j" if "j \<noteq> i" for j using i len that by simp
    have ps: "j \<in> set ps \<Longrightarrow> j \<noteq> i" for j using i by blast
    have "tick_result active now g c late g' (i # ps)"
      using r i len ps False unfolding tick_result_def late
      by (auto simp: other split: option.splits cong: map_cong filter_cong)
    then show ?thesis
      using \<open>is = ps @ rest\<close> \<open>c = None \<longrightarrow> rest = []\<close> by (metis append_Cons)
  qed
qed

text \<open>The wheel part changes the counter of one eligible slot and the pending zoom.\<close>

definition zoom_result :: "alt_globals \<Rightarrow> (nat \<times> int) option \<Rightarrow> alt_globals \<Rightarrow> bool" where
  "zoom_result g z g' \<longleftrightarrow>
     (\<forall>j < 4. slot g' j = (if \<exists>zoom. z = Some (j, zoom) then (slot g j)\<lparr>as_inflight := as_inflight (slot g j) + 1\<rparr>
                           else slot g j)) \<and>
     length (ag_states g') = 4 \<and> ag_layout_slot g' = ag_layout_slot g \<and>
     ag_bap54_layout_known g' = ag_bap54_layout_known g \<and>
     ag_generation_serial g' = ag_generation_serial g \<and> ag_request_serial g' = ag_request_serial g \<and>
     (case z of None \<Rightarrow> ag_pending_zoom g' = ag_pending_zoom g \<or> ag_pending_zoom g' = 0
      | Some (i, zoom) \<Rightarrow> i < 4 \<and> eligible (slot g i) \<and> ag_pending_zoom g \<noteq> 0 \<and>
          zoom = (if ag_pending_zoom g > 0 then 1 else -1) \<and> ag_pending_zoom g' = ag_pending_zoom g - zoom)"

lemma tick_zoom_result:
  assumes "tick_zoom active g = (z, g')" "length (ag_states g) = 4"
  shows "zoom_result g z g'"
proof (cases z)
  case None
  with assms show ?thesis
    by (auto simp: tick_zoom_def zoom_result_def Let_def split: option.splits if_splits)
next
  case (Some iz)
  then obtain i zoom where iz: "z = Some (i, zoom)" by (cases iz) auto
  with assms have "find (\<lambda>i. eligible (slot g i)) [0..<4] = Some i" "ag_pending_zoom g \<noteq> 0"
    and z: "zoom = (if ag_pending_zoom g > 0 then 1 else -1)"
    and g': "g' = on_slot i (\<lambda>s. s\<lparr>as_inflight := as_inflight s + 1\<rparr>) (g\<lparr>ag_pending_zoom := ag_pending_zoom g - zoom\<rparr>)"
    by (auto simp: tick_zoom_def Let_def split: option.splits if_splits)
  then have "i < 4 \<and> eligible (slot g i)" by (blast dest: find_upt_SomeD)
  with iz assms(2) \<open>ag_pending_zoom g \<noteq> 0\<close> z show ?thesis
    unfolding g' zoom_result_def by simp
qed

lemma control_tick_split:
  assumes "v8s_control_tick active now g = (c, z, late, g')" "length (ag_states g) = 4"
  obtains g1 ps where "tick_result active now g c late g1 ps" "set ps \<subseteq> {..<4}" "distinct ps"
    "c = None \<longrightarrow> ps = [0..<4]" "ps = [0..<length ps]" "zoom_result g1 z g'"
proof -
  define indices where "indices = [0..<4::nat]"
  have i: "distinct indices" "set indices \<subseteq> {..<4}" by (auto simp: indices_def)
  obtain g1 where s: "tick_scan active now indices g = (c, late, g1)" and z: "tick_zoom active g1 = (z, g')"
    using assms(1) unfolding v8s_control_tick_def indices_def [symmetric]
    by (cases "tick_scan active now indices g") (auto simp: Let_def case_prod_beta)
  obtain ps rest where p: "indices = ps @ rest" "c = None \<longrightarrow> rest = []" and r: "tick_result active now g c late g1 ps"
    using tick_scan_result [OF s i assms(2)] by blast
  have "length (ag_states g1) = 4" using r by (simp add: tick_result_def)
  show thesis
  proof (rule that [OF r _ _ _ _ tick_zoom_result [OF z \<open>length (ag_states g1) = 4\<close>]])
    show "set ps \<subseteq> {..<4}" "distinct ps" using i p by auto
    show "c = None \<longrightarrow> ps = [0..<4]" using p unfolding indices_def by simp
    have "length ps \<le> 4" using arg_cong [OF p(1), of length] by (simp add: indices_def)
    moreover have "ps = take (length ps) indices" using p(1) by simp
    ultimately show "ps = [0..<length ps]" by (simp add: indices_def)
  qed
qed

section \<open>Actions that keep the sessions\<close>

text \<open>An action on the table that leaves the sessions in their slots.\<close>

definition same_session :: "altscreen_state \<Rightarrow> altscreen_state \<Rightarrow> bool" where
  "same_session x y \<longleftrightarrow> as_active y = as_active x \<and> as_receiver y = as_receiver x \<and>
     as_generation y = as_generation x \<and> (\<not> as_active x \<longrightarrow> y = x)"

definition same_sessions :: "alt_globals \<Rightarrow> alt_globals \<Rightarrow> bool" where
  "same_sessions g g' \<longleftrightarrow> length (ag_states g') = length (ag_states g) \<and>
     ag_generation_serial g' = ag_generation_serial g \<and>
     (\<forall>i < length (ag_states g). same_session (slot g i) (slot g' i))"

lemma same_session_refl [simp]: "same_session x x"
  by (simp add: same_session_def)

lemma same_sessions_refl [simp]: "same_sessions g g"
  by (simp add: same_sessions_def)

lemma same_sessions_trans: "same_sessions g g1 \<Longrightarrow> same_sessions g1 g2 \<Longrightarrow> same_sessions g g2"
  by (auto simp: same_sessions_def same_session_def)

lemma same_sessions_on_slot:
  "same_session (slot g i) (f (slot g i)) \<Longrightarrow> i < length (ag_states g) \<Longrightarrow> same_sessions g (on_slot i f g)"
  by (auto simp: same_sessions_def)

lemma same_sessions_on_slots:
  "(\<And>i. i < length (ag_states g) \<Longrightarrow> same_session (slot g i) (f (slot g i))) \<Longrightarrow> same_sessions g (on_slots f g)"
  by (auto simp: same_sessions_def)

lemma same_sessions_globals:
  "ag_states g' = ag_states g \<Longrightarrow> ag_generation_serial g' = ag_generation_serial g \<Longrightarrow> same_sessions g g'"
  by (simp add: same_sessions_def)

text \<open>A record update of an active slot that touches none of the three identifying fields.\<close>

lemma same_session_upd [simp]:
  "as_active x \<Longrightarrow> same_session x (x\<lparr>as_worker := t\<rparr>)"
  "as_active x \<Longrightarrow> same_session x (x\<lparr>as_worker_started := b\<rparr>)"
  "as_active x \<Longrightarrow> same_session x (x\<lparr>as_screen_started := b\<rparr>)"
  "as_active x \<Longrightarrow> same_session x (x\<lparr>as_stop_requested := b\<rparr>)"
  "as_active x \<Longrightarrow> same_session x (x\<lparr>as_show_sent := b\<rparr>)"
  "as_active x \<Longrightarrow> same_session x (x\<lparr>as_route_active := b, as_route_known := c\<rparr>)"
  "as_active x \<Longrightarrow> same_session x (x\<lparr>as_inflight := n\<rparr>)"
  "as_active x \<Longrightarrow> same_session x (queue_view l fg due x)"
  "as_active x \<Longrightarrow> same_session x ((queue_view l fg due x)\<lparr>as_startup := b\<rparr>)"
  "as_active x \<Longrightarrow> same_session x (take_answer status ctx x)"
  "as_active x \<Longrightarrow> same_session x (drop_command st x)"
  by (simp_all add: same_session_def)

lemma same_session_tick: "same_session x (fst (tick_slot active now x))"
  using tick_slot_idle [of x active now] by (auto simp: same_session_def eligible_def)

lemma same_session_tick_go:
  "snd (tick_slot active now x) \<Longrightarrow> same_session x (control_dispatch tok n (fst (tick_slot active now x)))"
  using tick_slot_go [of active now x] by (auto simp: same_session_def eligible_def)

lemma same_sessions_tick:
  assumes "v8s_control_tick active now g = (c, z, late, g')" "length (ag_states g) = 4"
  shows "same_sessions g g'"
proof -
  obtain g1 ps where r: "tick_result active now g c late g1 ps" and ps: "set ps \<subseteq> {..<4}"
      and z: "zoom_result g1 z g'"
    by (rule control_tick_split [OF assms])
  have "same_sessions g g1"
    using r assms(2) unfolding tick_result_def same_sessions_def
    by (auto simp: same_session_tick same_session_tick_go)
  moreover have "same_sessions g1 g'"
    using z r unfolding zoom_result_def same_sessions_def tick_result_def
    by (auto simp: eligible_def split: option.splits)
  ultimately show ?thesis by (rule same_sessions_trans)
qed

end
