(* ===== verification/Alt_Table.thy ===== *)
theory Alt_Table
  imports Alt_Tick
begin

text \<open>
  Slots and sessions: every action keeps a free entry empty and the receivers and generations of
  the used entries distinct.
\<close>

definition table_ok :: "alt_sys \<Rightarrow> bool" where
  "table_ok s \<longleftrightarrow> length (ag_states (cs_g s)) = 4 \<and> length (cs_phase s) = 4 \<and>
     (\<forall>i < 4. \<not> as_active (slot (cs_g s) i) \<longrightarrow> slot (cs_g s) i = zero_session \<and> cs_phase s ! i = NO_WORKER) \<and>
     (\<forall>i < 4. as_active (slot (cs_g s) i) \<longrightarrow>
        0 < as_generation (slot (cs_g s) i) \<and> as_generation (slot (cs_g s) i) \<le> ag_generation_serial (cs_g s)) \<and>
     (\<forall>i < 4. \<forall>j < 4. as_active (slot (cs_g s) i) \<and> as_active (slot (cs_g s) j) \<and>
        (as_receiver (slot (cs_g s) i) = as_receiver (slot (cs_g s) j) \<or>
         as_generation (slot (cs_g s) i) = as_generation (slot (cs_g s) j)) \<longrightarrow> i = j)"

lemma table_okD:
  assumes "table_ok s"
  shows table_len: "length (ag_states (cs_g s)) = 4" "length (cs_phase s) = 4"
    and table_free: "i < 4 \<Longrightarrow> \<not> as_active (slot (cs_g s) i) \<Longrightarrow> slot (cs_g s) i = zero_session"
    and table_phase: "i < 4 \<Longrightarrow> \<not> as_active (slot (cs_g s) i) \<Longrightarrow> cs_phase s ! i = NO_WORKER"
    and table_gen: "i < 4 \<Longrightarrow> as_active (slot (cs_g s) i) \<Longrightarrow>
      0 < as_generation (slot (cs_g s) i) \<and> as_generation (slot (cs_g s) i) \<le> ag_generation_serial (cs_g s)"
    and table_distinct: "i < 4 \<Longrightarrow> j < 4 \<Longrightarrow> as_active (slot (cs_g s) i) \<Longrightarrow> as_active (slot (cs_g s) j) \<Longrightarrow>
      as_receiver (slot (cs_g s) i) = as_receiver (slot (cs_g s) j) \<or>
      as_generation (slot (cs_g s) i) = as_generation (slot (cs_g s) j) \<Longrightarrow> i = j"
  using assms unfolding table_ok_def by blast+

section \<open>Operations\<close>

lemma alloc_cases:
  assumes "alloc_state_locked r g = (x, g')" "length (ag_states g) = 4"
  shows "x = None \<and> g' = g \<or>
    (\<exists>i < 4. x = Some i \<and> \<not> as_active (slot g i) \<and> (\<forall>j < 4. as_active (slot g j) \<longrightarrow> as_receiver (slot g j) \<noteq> r) \<and>
       g' = on_slot i (\<lambda>_. new_slot r (ag_generation_serial g + 1)) (g\<lparr>ag_generation_serial := ag_generation_serial g + 1\<rparr>))"
proof (cases "find (\<lambda>i. \<not> as_active (slot g i)) [0..<4]")
  case None
  with assms show ?thesis by (simp add: alloc_state_locked_def split: if_splits)
next
  case (Some i)
  with assms find_upt_SomeD [OF Some] show ?thesis
    by (auto simp: alloc_state_locked_def Let_def split: if_splits dest: find_receiver_NoneD)
qed

lemma queue_route_sessions: "length (ag_states g) = 4 \<Longrightarrow> same_sessions g (queue_route_view_for_receiver r d now g)"
  by (auto simp: queue_route_view_for_receiver_def split: option.splits dest!: find_receiver_SomeD
      intro!: same_sessions_on_slot)

lemma note_route_sessions: "length (ag_states g) = 4 \<Longrightarrow> same_sessions g (snd (note_route_state r b g))"
  by (auto simp: note_route_state_def split: option.splits dest!: find_receiver_SomeD
      intro!: same_sessions_on_slot)

lemma first_frame_cases:
  assumes "note_first_frame t g = (x, g')"
  shows "x = None \<and> g' = g \<or>
    (\<exists>i < 4. x = Some i \<and> as_active (slot g i) \<and> as_worker_started (slot g i) \<and> as_worker (slot g i) = t \<and>
       as_screen_started (slot g i) \<and> \<not> as_show_sent (slot g i) \<and> \<not> as_stop_requested (slot g i) \<and>
       g' = on_slot i (\<lambda>s. s\<lparr>as_show_sent := True\<rparr>) g)"
proof (cases "find_state_worker_locked t g")
  case None
  with assms show ?thesis by (simp add: note_first_frame_def)
next
  case (Some i)
  have "i < 4 \<and> as_active (slot g i) \<and> as_worker_started (slot g i) \<and> as_worker (slot g i) = t"
    using Some unfolding find_state_worker_locked_def by (drule_tac find_upt_SomeD) simp
  with assms Some show ?thesis by (auto simp: note_first_frame_def split: if_splits)
qed

lemma requeue_sessions: "length (ag_states g) = 4 \<Longrightarrow> same_sessions g (requeue_for_layout l now g)"
  by (auto simp: requeue_for_layout_def same_sessions_def)

lemma same_sessions_flag:
  fixes g :: alt_globals
  shows "same_sessions (g\<lparr>ag_bap54_layout_known := b\<rparr>) g' \<Longrightarrow> same_sessions g g'"
  by (simp add: same_sessions_def)

lemma bap54_sessions: "length (ag_states g) = 4 \<Longrightarrow> same_sessions g (gauge_bap54_seen l now g)"
  using requeue_sessions [of "g\<lparr>ag_bap54_layout_known := True\<rparr>" l now] same_sessions_flag [where g = g and b = True and g' = "requeue_for_layout l now (g\<lparr>ag_bap54_layout_known := True\<rparr>)"]
  by (simp add: gauge_bap54_seen_def Let_def same_sessions_globals)

lemma area_sessions: "length (ag_states g) = 4 \<Longrightarrow> same_sessions g (zoom_area_seen l now g)"
  by (simp add: zoom_area_seen_def requeue_sessions)

lemma encoder_sessions: "same_sessions g (encoder_step_seen n g)"
  by (simp add: encoder_step_seen_def same_sessions_def)

lemma completion_sessions: "length (ag_states g) = 4 \<Longrightarrow> same_sessions g (snd (v8s_control_completion st c g))"
  by (auto simp: v8s_control_completion_def split: option.splits dest!: find_receiver_SomeD
      intro!: same_sessions_on_slot)

lemma failed_sessions: "length (ag_states g) = 4 \<Longrightarrow> same_sessions g (snd (v8s_control_dispatch_failed c g))"
  by (auto simp: v8s_control_dispatch_failed_def split: option.splits dest!: find_receiver_SomeD
      intro!: same_sessions_on_slot)

lemma sent_sessions: "length (ag_states g) = 4 \<Longrightarrow> same_sessions g (control_sent c g)"
  by (auto simp: control_sent_def split: option.splits dest!: find_receiver_SomeD
      intro!: same_sessions_on_slot)

lemma cluster_sessions: "length (ag_states g) = 4 \<Longrightarrow> i < 4 \<Longrightarrow> same_sessions g (request_cluster i now g)"
  by (auto simp: request_cluster_def intro!: same_sessions_on_slot)

lemma zoom_sent_sessions:
  "length (ag_states g) = 4 \<Longrightarrow> i < 4 \<Longrightarrow> (\<not> as_active (slot g i) \<Longrightarrow> slot g i = zero_session) \<Longrightarrow>
     same_sessions g (zoom_sent i g)"
  by (cases "as_active (slot g i)") (auto simp: zoom_sent_def zero_session_def intro!: same_sessions_on_slot)

section \<open>Actions\<close>

text \<open>The indices that the threads hold are indices of slots.\<close>

definition indices_ok :: "alt_sys \<Rightarrow> bool" where
  "indices_ok s \<longleftrightarrow> (\<forall>i \<in> set (cs_first s). i < 4) \<and>
     (case cs_pc s of T_ZOOM i gen zoom c \<Rightarrow> i < 4 | T_ZOOMED i gen c \<Rightarrow> i < 4 | _ \<Rightarrow> True)"

lemma act_indices:
  assumes "perform a s = Some s'" "indices_ok s" "table_ok s"
  shows "indices_ok s'"
proof (cases a)
  case (A_TICK active now)
  obtain c z late g' where t: "v8s_control_tick active now (cs_g s) = (c, z, late, g')" by (metis prod_cases4)
  obtain g1 ps where "zoom_result g1 z g'" by (rule control_tick_split [OF t table_len(1) [OF assms(3)]])
  with assms(1,2) A_TICK t show ?thesis
    by (cases z; cases c) (auto simp: indices_ok_def after_zoom_def zoom_result_def split: if_split_asm)
next
  case (A_FRAME t)
  obtain x g' where f: "note_first_frame t (cs_g s) = (x, g')" by (metis prod.exhaust)
  with assms(1,2) A_FRAME first_frame_cases [OF f] show ?thesis
    by (cases x) (auto simp: indices_ok_def split: if_split_asm)
next
  case (A_CLUSTER n now)
  have "\<forall>i \<in> set (remove_nth n (cs_first s)). i < 4"
    using assms(2) set_remove_nth [of n "cs_first s"] unfolding indices_ok_def by (meson subsetD)
  with A_CLUSTER assms(1,2) show ?thesis by (simp add: indices_ok_def split: if_split_asm) auto
next
  case A_ZOOM
  with assms(1,2) show ?thesis by (auto simp: indices_ok_def split: tick_pc.split_asm)
next
  case A_ZOOMED
  with assms(1,2) show ?thesis by (auto simp: indices_ok_def after_zoom_def split: tick_pc.split_asm option.splits)
next
  case (A_SEND b rc)
  with assms(1,2) show ?thesis by (auto simp: indices_ok_def split: tick_pc.split_asm if_split_asm)
next
  case A_SENT
  with assms(1,2) show ?thesis by (auto simp: indices_ok_def split: tick_pc.split_asm)
next
  case A_REFUSED
  with assms(1,2) show ?thesis by (auto simp: indices_ok_def Let_def case_prod_beta split: tick_pc.split_asm)
qed (use assms(1,2) in \<open>auto simp: indices_ok_def Let_def case_prod_beta split: if_split_asm option.split_asm\<close>)

lemma act_sessions:
  assumes "perform a s = Some s'" "table_ok s" "indices_ok s"
    and "\<And>r. a \<noteq> A_ALLOC r" "\<And>i. a \<noteq> A_CLEAR i"
  shows "same_sessions (cs_g s) (cs_g s')"
proof -
  have len: "length (ag_states (cs_g s)) = 4" using assms(2) by (rule table_len)
  have act: "i < 4 \<Longrightarrow> cs_phase s ! i \<noteq> NO_WORKER \<Longrightarrow> as_active (slot (cs_g s) i)" for i
    using table_phase [OF assms(2)] by blast
  show ?thesis
  proof (cases a)
    case (A_STOP r)
    with assms len show ?thesis
      by (auto split: option.splits dest!: find_receiver_SomeD intro!: same_sessions_on_slot)
  next
    case (A_NOTE n)
    with assms len show ?thesis
      by (auto simp: Let_def case_prod_beta note_route_sessions split: if_splits)
  next
    case (A_FRAME t)
    obtain x g' where f: "note_first_frame t (cs_g s) = (x, g')" by (metis prod.exhaust)
    with A_FRAME assms first_frame_cases [OF f] len show ?thesis
      by (auto split: option.splits if_splits intro!: same_sessions_on_slot)
  next
    case (A_CLUSTER n now)
    with assms len show ?thesis
      by (auto simp: indices_ok_def cluster_sessions split: if_splits)
  next
    case (A_TICK active now)
    with assms len show ?thesis
      by (auto dest: same_sessions_tick split: if_splits prod.splits)
  next
    case A_ZOOMED
    with assms len show ?thesis
      by (auto simp: indices_ok_def split: tick_pc.splits intro!: zoom_sent_sessions table_free [OF assms(2)])
  next
    case A_REFUSED
    with assms len show ?thesis
      by (auto simp: Let_def case_prod_beta failed_sessions split: tick_pc.splits)
  next
    case (A_COMPLETE n status)
    with assms len show ?thesis
      by (auto simp: Let_def case_prod_beta completion_sessions split: if_splits)
  next
    case (A_CREATED i)
    with assms len act show ?thesis by (auto split: if_splits intro!: same_sessions_on_slot)
  next
    case (A_STARTED i)
    with assms len act show ?thesis by (auto split: if_splits intro!: same_sessions_on_slot)
  next
    case (A_ENDED i)
    with assms len act show ?thesis by (auto split: if_splits intro!: same_sessions_on_slot)
  qed (use assms len in \<open>auto simp: queue_route_sessions bap54_sessions area_sessions
      encoder_sessions sent_sessions split: if_splits tick_pc.splits intro!: same_sessions_on_slot\<close>)
qed

lemma same_sessions_table:
  assumes "table_ok s" "same_sessions (cs_g s) (cs_g s')" "length (cs_phase s') = 4"
    and "\<And>i. i < 4 \<Longrightarrow> \<not> as_active (slot (cs_g s) i) \<Longrightarrow> cs_phase s' ! i = cs_phase s ! i"
  shows "table_ok s'"
proof -
  have same: "same_session (slot (cs_g s) i) (slot (cs_g s') i)" if "i < 4" for i
    using assms(2) that table_len(1) [OF assms(1)] by (simp add: same_sessions_def)
  have len: "length (ag_states (cs_g s')) = 4" "ag_generation_serial (cs_g s') = ag_generation_serial (cs_g s)"
    using assms(2) table_len(1) [OF assms(1)] by (auto simp: same_sessions_def)
  show ?thesis unfolding table_ok_def
  proof (intro conjI allI impI)
    fix i j :: nat
    assume ij: "i < 4" "j < 4" and a: "as_active (slot (cs_g s') i) \<and> as_active (slot (cs_g s') j) \<and>
      (as_receiver (slot (cs_g s') i) = as_receiver (slot (cs_g s') j) \<or>
       as_generation (slot (cs_g s') i) = as_generation (slot (cs_g s') j))"
    show "i = j"
      by (rule table_distinct [OF assms(1)]) (use same [of i] same [of j] ij a in \<open>auto simp: same_session_def\<close>)
  qed (use same assms len table_okD [OF assms(1)] in \<open>auto simp: same_session_def\<close>)
qed

lemma phase_active: "table_ok s \<Longrightarrow> i < 4 \<Longrightarrow> cs_phase s ! i \<noteq> NO_WORKER \<Longrightarrow> as_active (slot (cs_g s) i)"
  using table_phase by blast

lemma act_phase:
  assumes "perform a s = Some s'" "table_ok s" "\<And>i. a \<noteq> A_CLEAR i"
  shows "length (cs_phase s') = 4"
    and "i < 4 \<Longrightarrow> \<not> as_active (slot (cs_g s) i) \<Longrightarrow> cs_phase s' ! i = cs_phase s ! i"
proof -
  have len: "length (cs_phase s) = 4" using assms(2) by (rule table_len)
  have "cs_phase s' = cs_phase s \<or> (\<exists>j p. j < 4 \<and> as_active (slot (cs_g s) j) \<and> cs_phase s' = (cs_phase s)[j := p])"
  proof (cases a)
    case (A_TICK active now)
    with assms show ?thesis by (auto split: if_split_asm prod.split_asm)
  next
    case (A_CREATE j t)
    with assms(1) show ?thesis
      by (intro disjI2 exI [of _ j] exI) (auto split: if_split_asm)
  next
    case (A_STARTED j)
    with assms(1) phase_active [OF assms(2), of j] show ?thesis
      by (intro disjI2 exI [of _ j] exI) (auto split: if_split_asm)
  next
    case (A_ENDED j)
    with assms(1) phase_active [OF assms(2), of j] show ?thesis
      by (intro disjI2 exI [of _ j] exI) (auto split: if_split_asm)
  next
    case (A_FAILED j)
    with assms(1) phase_active [OF assms(2), of j] show ?thesis
      by (intro disjI2 exI [of _ j] exI) (auto split: if_split_asm)
  next
    case (A_FRAME t)
    with assms show ?thesis by (cases "note_first_frame t (cs_g s)") (auto split: option.split_asm if_split_asm)
  qed (use assms in \<open>auto simp: Let_def case_prod_beta split: if_split_asm option.split_asm tick_pc.split_asm\<close>)
  with len show "length (cs_phase s') = 4"
    and "i < 4 \<Longrightarrow> \<not> as_active (slot (cs_g s) i) \<Longrightarrow> cs_phase s' ! i = cs_phase s ! i"
    by (auto simp: nth_list_update)
qed

lemma alloc_table:
  assumes "table_ok s" "serials_fit s" and s': "cs_g s' = snd (alloc_state_locked r (cs_g s))" "cs_phase s' = cs_phase s"
  shows "table_ok s'"
proof -
  obtain x g' where a: "alloc_state_locked r (cs_g s) = (x, g')" by (metis prod.exhaust)
  with s' have s'g: "cs_g s' = g'" by simp
  let ?n = "ag_generation_serial (cs_g s) + 1"
  have n: "ag_generation_serial (cs_g s) < ?n"
    using assms(2) by (simp add: serials_fit_def less_plus_one)
  have old: "as_generation (slot (cs_g s) j) < ?n" if "j < 4" "as_active (slot (cs_g s) j)" for j
    using table_gen [OF assms(1) that] n by (blast intro: le_less_trans)
  from alloc_cases [OF a table_len(1) [OF assms(1)]] show ?thesis
  proof (elim disjE exE conjE)
    assume "x = None" "g' = cs_g s"
    with assms(1) s'g s'(2) show ?thesis by (simp add: table_ok_def)
  next
    fix i assume i: "i < 4" "\<not> as_active (slot (cs_g s) i)"
      and r: "\<forall>j < 4. as_active (slot (cs_g s) j) \<longrightarrow> as_receiver (slot (cs_g s) j) \<noteq> r"
      and g': "g' = on_slot i (\<lambda>_. new_slot r ?n) ((cs_g s)\<lparr>ag_generation_serial := ?n\<rparr>)"
    have new: "as_active (new_slot r ?n)" "as_receiver (new_slot r ?n) = r" "as_generation (new_slot r ?n) = ?n"
      by (simp_all add: new_slot_def)
    have slots: "slot g' j = (if j = i then new_slot r ?n else slot (cs_g s) j)" for j
      using i table_len(1) [OF assms(1)] by (simp add: g')
    have lens: "length (ag_states g') = 4" "ag_generation_serial g' = ?n"
      using table_len(1) [OF assms(1)] by (simp_all add: g')
    show ?thesis unfolding table_ok_def s'g s'(2)
    proof (intro conjI allI impI)
      show "length (ag_states g') = 4" "length (cs_phase s) = 4" using lens table_len(2) [OF assms(1)] by auto
      fix j k :: nat
      assume jk: "j < 4" "k < 4"
        "as_active (slot g' j) \<and> as_active (slot g' k) \<and>
         (as_receiver (slot g' j) = as_receiver (slot g' k) \<or> as_generation (slot g' j) = as_generation (slot g' k))"
      show "j = k"
      proof (cases "j = i \<or> k = i")
        case True
        with jk old [of j] old [of k] r new show ?thesis by (auto simp: slots split: if_split_asm)
      next
        case False
        with jk show ?thesis by (intro table_distinct [OF assms(1), of j k]) (auto simp: slots)
      qed
    next
      fix j :: nat assume "j < 4" "\<not> as_active (slot g' j)"
      with new show "slot g' j = zero_session" "cs_phase s ! j = NO_WORKER"
        using table_free [OF assms(1), of j] table_phase [OF assms(1), of j] i(2)
        by (auto simp: slots split: if_split_asm)
    next
      fix j :: nat assume "j < 4" "as_active (slot g' j)"
      with new n show "0 < as_generation (slot g' j)" "as_generation (slot g' j) \<le> ag_generation_serial g'"
        using table_gen [OF assms(1), of j] old [of j] lens
        by (auto simp: slots split: if_split_asm intro: le_less_trans [of 0 "ag_generation_serial (cs_g s)"])
    qed
  qed
qed

lemma clear_table:
  assumes "table_ok s" "i < 4"
    and s': "cs_g s' = clear_session i (cs_g s)" "cs_phase s' = (cs_phase s)[i := NO_WORKER]"
  shows "table_ok s'"
proof -
  have z: "\<not> as_active zero_session" by (simp add: zero_session_def)
  have slots: "slot (clear_session i (cs_g s)) j = (if j = i then zero_session else slot (cs_g s) j)" for j
    using assms table_len(1) [OF assms(1)] by (simp add: clear_session_def)
  have len: "length (ag_states (clear_session i (cs_g s))) = 4"
    "ag_generation_serial (clear_session i (cs_g s)) = ag_generation_serial (cs_g s)"
    using table_len(1) [OF assms(1)] by (simp_all add: clear_session_def)
  show ?thesis unfolding table_ok_def s'
  proof (intro conjI allI impI)
    fix j k :: nat
    let ?g = "clear_session i (cs_g s)"
    assume jk: "j < 4" "k < 4"
      "as_active (slot ?g j) \<and> as_active (slot ?g k) \<and>
       (as_receiver (slot ?g j) = as_receiver (slot ?g k) \<or> as_generation (slot ?g j) = as_generation (slot ?g k))"
    with z show "j = k"
      by (intro table_distinct [OF assms(1), of j k]) (auto simp: slots split: if_split_asm)
  qed (use len z table_okD [OF assms(1)] assms(2) in \<open>auto simp: slots nth_list_update split: if_split_asm\<close>)
qed

lemma act_table:
  assumes "perform a s = Some s'" "serials_fit s" "table_ok s" "indices_ok s"
  shows "table_ok s'"
proof -
  consider (alloc) r where "a = A_ALLOC r" | (clear) i where "a = A_CLEAR i"
    | (other) "\<And>r. a \<noteq> A_ALLOC r" "\<And>i. a \<noteq> A_CLEAR i" by blast
  then show ?thesis
  proof cases
    case alloc
    with assms alloc_table [of s s' r] show ?thesis by auto
  next
    case clear
    with assms clear_table [of s i s'] show ?thesis by (auto split: if_split_asm)
  next
    case other
    show ?thesis
      by (rule same_sessions_table [OF assms(3) act_sessions [OF assms(1,3,4) other]
            act_phase(1) [OF assms(1,3) other(2)] act_phase(2) [OF assms(1,3) other(2)]])
  qed
qed

lemma init_table: "table_ok init_sys"
  by (simp add: table_ok_def init_sys_def init_globals_def zero_session_def)

lemma reach_table: "alt_reach s \<Longrightarrow> table_ok s \<and> indices_ok s"
proof (induction rule: alt_reach.induct)
  case alt_init
  then show ?case by (simp add: init_table) (simp add: indices_ok_def init_sys_def)
next
  case (alt_step s a s')
  then show ?case by (blast intro: act_table act_indices)
qed

end
