(* ===== verification/Alt_Commands.thy ===== *)
theory Alt_Commands
  imports Alt_Table
begin

text \<open>
  Commands and their answers. Every command in the hands of the control worker or of the AirPlay
  library names the session it was made for, and a slot that waits for its token waits for exactly
  this command; the counter of the commands inside SendCommand is exact.
\<close>

section \<open>Actions that leave the control fields alone\<close>

definition control_of :: "altscreen_state \<Rightarrow> bool \<times> u64 \<times> control_stage \<times> int \<times> int \<times> int" where
  "control_of x = (as_awaiting_ack x, as_token x, as_stage x, as_target_view x, as_inflight x, as_last_ui_slot x)"

definition same_control :: "alt_globals \<Rightarrow> alt_globals \<Rightarrow> bool" where
  "same_control g g' \<longleftrightarrow> ag_request_serial g' = ag_request_serial g \<and>
     (\<forall>i < 4. control_of (slot g' i) = control_of (slot g i))"

fun quiet_act :: "alt_act \<Rightarrow> bool" where
  "quiet_act (A_ALLOC r) = False" | "quiet_act (A_CLEAR i) = False"
| "quiet_act (A_TICK b n) = False" | "quiet_act A_ZOOM = False" | "quiet_act A_ZOOMED = False"
| "quiet_act (A_SEND b rc) = False" | "quiet_act A_SENT = False" | "quiet_act A_REFUSED = False"
| "quiet_act (A_COMPLETE n st) = False" | "quiet_act _ = True"

lemma same_control_refl [simp]: "same_control g g"
  by (simp add: same_control_def)

lemma control_of_upd [simp]:
  "control_of (x\<lparr>as_worker := t\<rparr>) = control_of x"
  "control_of (x\<lparr>as_worker_started := b\<rparr>) = control_of x"
  "control_of (x\<lparr>as_screen_started := b\<rparr>) = control_of x"
  "control_of (x\<lparr>as_stop_requested := b\<rparr>) = control_of x"
  "control_of (x\<lparr>as_show_sent := b\<rparr>) = control_of x"
  "control_of (x\<lparr>as_startup := b\<rparr>) = control_of x"
  "control_of (x\<lparr>as_route_active := b, as_route_known := c\<rparr>) = control_of x"
  "control_of (queue_view l fg due x) = control_of x"
  by (simp_all add: control_of_def queue_view_def)

lemma same_control_on_slot:
  "length (ag_states g) = 4 \<Longrightarrow> i < 4 \<Longrightarrow> control_of (f (slot g i)) = control_of (slot g i) \<Longrightarrow>
     same_control g (on_slot i f g)"
  by (simp add: same_control_def)

lemma requeue_control: "length (ag_states g) = 4 \<Longrightarrow> same_control g (requeue_for_layout l now g)"
  by (simp add: requeue_for_layout_def same_control_def)

lemma act_quiet:
  assumes "perform a s = Some s'" "table_ok s" "indices_ok s" "quiet_act a"
  shows "same_control (cs_g s) (cs_g s')" "cs_pc s' = cs_pc s" "cs_open s' = cs_open s" "cs_log s' = cs_log s"
proof -
  have len: "length (ag_states (cs_g s)) = 4" using assms(2) by (rule table_len)
  have "same_control (cs_g s) (cs_g s') \<and> cs_pc s' = cs_pc s \<and> cs_open s' = cs_open s \<and> cs_log s' = cs_log s"
  proof (cases a)
    case (A_STOP r)
    with assms(1) len show ?thesis
      by (auto split: option.splits dest!: find_receiver_SomeD intro!: same_control_on_slot)
  next
    case (A_NOTE n)
    with assms(1) len show ?thesis
      by (auto simp: Let_def case_prod_beta note_route_state_def split: if_split_asm option.splits
          dest!: find_receiver_SomeD intro!: same_control_on_slot)
  next
    case (A_QUEUE n now)
    with assms(1) len show ?thesis
      by (auto simp: queue_route_view_for_receiver_def split: if_split_asm option.splits
          dest!: find_receiver_SomeD intro!: same_control_on_slot)
  next
    case (A_FRAME t)
    obtain x g' where f: "note_first_frame t (cs_g s) = (x, g')" by (metis prod.exhaust)
    with A_FRAME assms(1) first_frame_cases [OF f] len show ?thesis
      by (cases x) (auto split: if_split_asm intro!: same_control_on_slot)
  next
    case (A_CLUSTER n now)
    with assms(1,3) len show ?thesis
      by (auto simp: indices_ok_def request_cluster_def split: if_split_asm intro!: same_control_on_slot)
  next
    case (A_BAP54 l now)
    with assms(1) len requeue_control [of "(cs_g s)\<lparr>ag_bap54_layout_known := True\<rparr>" l now] show ?thesis
      by (auto simp: gauge_bap54_seen_def Let_def same_control_def split: if_split_asm)
  next
    case (A_AREA l now)
    with assms(1) len requeue_control [of "cs_g s" l now] show ?thesis
      by (auto simp: zoom_area_seen_def split: if_split_asm)
  next
    case (A_ENCODER n)
    with assms(1) show ?thesis by (auto simp: encoder_step_seen_def same_control_def)
  qed (use assms(1,4) len in \<open>auto split: if_split_asm intro!: same_control_on_slot\<close>)
  then show "same_control (cs_g s) (cs_g s')" "cs_pc s' = cs_pc s" "cs_open s' = cs_open s" "cs_log s' = cs_log s"
    by blast+
qed

section \<open>What an action does to the command of a slot\<close>

definition command_kept :: "altscreen_state \<Rightarrow> altscreen_state \<Rightarrow> bool" where
  "command_kept x y \<longleftrightarrow> (as_awaiting_ack y \<longrightarrow> as_awaiting_ack x \<and> slot_command y = slot_command x)"

definition later :: "alt_globals \<Rightarrow> alt_globals \<Rightarrow> bool" where
  "later g g' \<longleftrightarrow> ag_generation_serial g \<le> ag_generation_serial g' \<and> ag_request_serial g \<le> ag_request_serial g' \<and>
     (\<forall>j < 4. as_active (slot g' j) \<longrightarrow>
        ag_generation_serial g < as_generation (slot g' j) \<or>
        (as_active (slot g j) \<and> as_generation (slot g' j) = as_generation (slot g j) \<and>
         as_receiver (slot g' j) = as_receiver (slot g j) \<and>
         (command_kept (slot g j) (slot g' j) \<or> ag_request_serial g < as_token (slot g' j))))"

lemma later_sessions:
  assumes "same_sessions g g'" "length (ag_states g) = 4" "ag_request_serial g \<le> ag_request_serial g'"
    and "\<And>j. j < 4 \<Longrightarrow> as_active (slot g j) \<Longrightarrow>
      command_kept (slot g j) (slot g' j) \<or> ag_request_serial g < as_token (slot g' j)"
  shows "later g g'"
  using assms by (auto simp: later_def same_sessions_def same_session_def)

lemma command_kept_control:
  "control_of y = control_of x \<Longrightarrow> same_session x y \<Longrightarrow> command_kept x y"
  by (simp add: command_kept_def control_of_def same_session_def slot_command_def)

lemma command_kept_refl [simp]: "command_kept x x"
  by (simp add: command_kept_def)

lemma command_kept_waits [simp]: "\<not> as_awaiting_ack y \<Longrightarrow> command_kept x y"
  by (simp add: command_kept_def)

lemma command_kept_tick: "command_kept x (fst (tick_slot active now x))"
  using tick_slot_waits [of active now x] by (auto simp: command_kept_def)

lemma command_kept_inflight [simp]: "command_kept x (x\<lparr>as_inflight := n\<rparr>)"
  by (simp add: command_kept_def slot_command_def)

lemma on_slot_kept:
  "length (ag_states g) = 4 \<Longrightarrow> i < 4 \<Longrightarrow> command_kept (slot g i) (f (slot g i)) \<Longrightarrow>
     command_kept (slot g j) (slot (on_slot i f g) j)"
  by simp

lemma zoom_sent_kept:
  "length (ag_states g) = 4 \<Longrightarrow> i < 4 \<Longrightarrow> command_kept (slot g j) (slot (zoom_sent i g) j)"
  by (simp add: zoom_sent_def)

lemma sent_kept:
  "length (ag_states g) = 4 \<Longrightarrow> command_kept (slot g j) (slot (control_sent c g) j)"
  by (auto simp: control_sent_def split: option.splits dest!: find_receiver_SomeD)

lemma failed_kept:
  "length (ag_states g) = 4 \<Longrightarrow> command_kept (slot g j) (slot (snd (v8s_control_dispatch_failed c g)) j)"
  by (auto simp: v8s_control_dispatch_failed_def split: option.splits dest!: find_receiver_SomeD)

lemma completion_kept:
  "length (ag_states g) = 4 \<Longrightarrow> command_kept (slot g j) (slot (snd (v8s_control_completion st c g)) j)"
  by (auto simp: v8s_control_completion_def split: option.splits dest!: find_receiver_SomeD)

lemma serials_kept [simp]:
  "ag_request_serial (zoom_sent i g) = ag_request_serial g"
  "ag_request_serial (control_sent c g) = ag_request_serial g"
  "ag_request_serial (snd (v8s_control_dispatch_failed c g)) = ag_request_serial g"
  "ag_request_serial (snd (v8s_control_completion st c g)) = ag_request_serial g"
  by (auto simp: zoom_sent_def control_sent_def v8s_control_dispatch_failed_def
      v8s_control_completion_def split: option.splits)

lemma new_slot_fields [simp]:
  "as_active (new_slot r n)" "as_receiver (new_slot r n) = r" "as_generation (new_slot r n) = n"
  "\<not> as_awaiting_ack (new_slot r n)" "as_inflight (new_slot r n) = 0" "as_stage (new_slot r n) = CONTROL_IDLE"
  "as_last_ui_slot (new_slot r n) = -1" "as_target_view (new_slot r n) = -1" "as_pending_view (new_slot r n) = -1"
  "as_current_view (new_slot r n) = -1"
  "\<not> as_screen_started (new_slot r n)" "\<not> as_show_sent (new_slot r n)" "\<not> as_stop_requested (new_slot r n)"
  by (simp_all add: new_slot_def zero_session_def)

lemma zero_session_fields [simp]:
  "\<not> as_active zero_session" "\<not> as_awaiting_ack zero_session" "as_inflight zero_session = 0"
  "as_stage zero_session = CONTROL_IDLE" "as_last_ui_slot zero_session = 0" "as_target_view zero_session = 0"
  "as_pending_view zero_session = 0" "as_current_view zero_session = 0" "\<not> as_show_sent zero_session"
  "\<not> as_screen_started zero_session" "\<not> as_stop_requested zero_session"
  by (simp_all add: zero_session_def)

lemma tick_later:
  assumes "v8s_control_tick active now g = (c, z, late, g')" "length (ag_states g) = 4"
    "ag_request_serial g \<noteq> - 1"
  shows "later g g'"
proof (rule later_sessions [OF same_sessions_tick [OF assms(1,2)] assms(2)])
  obtain g1 ps where r: "tick_result active now g c late g1 ps" and z: "zoom_result g1 z g'"
    by (rule control_tick_split [OF assms(1,2)])
  have up: "ag_request_serial g < ag_request_serial g + 1" using assms(3) by (rule less_plus_one)
  then show "ag_request_serial g \<le> ag_request_serial g'"
    using r z by (auto simp: tick_result_def zoom_result_def split: option.splits)
  fix j :: nat assume "j < 4"
  have "command_kept (slot g j) (slot g1 j) \<or> ag_request_serial g < as_token (slot g1 j)"
    using r \<open>j < 4\<close> up by (auto simp: tick_result_def command_kept_tick)
  moreover have "command_kept (slot g1 j) (slot g' j)" "as_token (slot g' j) = as_token (slot g1 j)"
    using z \<open>j < 4\<close> by (auto simp: zoom_result_def)
  ultimately show "command_kept (slot g j) (slot g' j) \<or> ag_request_serial g < as_token (slot g' j)"
    by (auto simp: command_kept_def)
qed

lemma act_later:
  assumes "perform a s = Some s'" "serials_fit s" "table_ok s" "indices_ok s"
  shows "later (cs_g s) (cs_g s')"
proof -
  have len: "length (ag_states (cs_g s)) = 4" using assms(3) by (rule table_len)
  have sess: "(\<And>r. a \<noteq> A_ALLOC r) \<Longrightarrow> (\<And>i. a \<noteq> A_CLEAR i) \<Longrightarrow> same_sessions (cs_g s) (cs_g s')"
    by (rule act_sessions [OF assms(1,3,4)])
  show ?thesis
  proof (cases "quiet_act a")
    case True
    then have ss: "same_sessions (cs_g s) (cs_g s')" by (intro sess) auto
    have sc: "same_control (cs_g s) (cs_g s')" by (rule act_quiet [OF assms(1,3,4) True])
    show ?thesis
      by (rule later_sessions [OF ss len])
        (use ss sc len in \<open>auto simp: same_control_def same_sessions_def command_kept_control\<close>)
  next
    case quiet: False
    show ?thesis
    proof (cases a)
      case (A_ALLOC r)
      obtain x g' where al: "alloc_state_locked r (cs_g s) = (x, g')" by (metis prod.exhaust)
      have "ag_generation_serial (cs_g s) < ag_generation_serial (cs_g s) + 1"
        using assms(2) by (simp add: serials_fit_def less_plus_one)
      with alloc_cases [OF al len] len show ?thesis
        using A_ALLOC assms(1) al by (auto simp: later_def split: if_split_asm)
    next
      case (A_CLEAR i)
      with assms(1) len show ?thesis
        by (auto simp: later_def clear_session_def zero_session_def split: if_split_asm)
    next
      case (A_TICK active now)
      with assms(1,2) len show ?thesis
        by (auto simp: serials_fit_def dest: tick_later split: if_split_asm prod.split_asm)
    next
      case A_ZOOMED
      with assms(1,4) show ?thesis
        by (intro later_sessions [OF sess len])
          (auto simp: indices_ok_def zoom_sent_kept [OF len] split: tick_pc.split_asm)
    next
      case A_SENT
      with assms(1) show ?thesis
        by (intro later_sessions [OF sess len]) (auto simp: sent_kept [OF len] split: tick_pc.split_asm)
    next
      case A_REFUSED
      with assms(1) show ?thesis
        by (intro later_sessions [OF sess len])
          (auto simp: failed_kept [OF len] Let_def case_prod_beta split: tick_pc.split_asm)
    next
      case (A_COMPLETE n st)
      with assms(1) show ?thesis
        by (intro later_sessions [OF sess len])
          (auto simp: completion_kept [OF len] Let_def case_prod_beta split: if_split_asm)
    qed (use quiet assms(1) in \<open>auto simp: later_def split: tick_pc.split_asm if_split_asm\<close>)
  qed
qed

section \<open>Commands on their way\<close>

fun pc_commands :: "tick_pc \<Rightarrow> control_completion_context set" where
  "pc_commands T_IDLE = {}"
| "pc_commands (T_ZOOM i gen zoom c) = set_option c"
| "pc_commands (T_ZOOMED i gen c) = set_option c"
| "pc_commands (T_CMD c) = {c}"
| "pc_commands (T_SENT c rc) = {c}"
| "pc_commands (T_REFUSED c rc) = {c}"

definition commands :: "alt_sys \<Rightarrow> control_completion_context set" where
  "commands s = set (cs_open s) \<union> pc_commands (cs_pc s)"

definition command_ok :: "alt_globals \<Rightarrow> control_completion_context \<Rightarrow> bool" where
  "command_ok g c \<longleftrightarrow> cx_generation c \<le> ag_generation_serial g \<and> cx_token c \<le> ag_request_serial g \<and>
     cx_stage c \<noteq> CONTROL_IDLE \<and>
     (\<forall>j < 4. as_active (slot g j) \<and> as_generation (slot g j) = cx_generation c \<longrightarrow>
        as_receiver (slot g j) = cx_receiver c \<and>
        (as_awaiting_ack (slot g j) \<and> as_token (slot g j) = cx_token c \<longrightarrow> slot_command (slot g j) = c))"

lemma command_ok_later:
  assumes "later g g'" "command_ok g c"
  shows "command_ok g' c"
  unfolding command_ok_def
proof (intro conjI allI impI)
  fix j :: nat
  assume j: "j < 4" "as_active (slot g' j) \<and> as_generation (slot g' j) = cx_generation c"
  have "\<not> ag_generation_serial g < as_generation (slot g' j)"
    using j assms(2) by (simp add: command_ok_def not_less)
  with j assms(1) have old: "as_active (slot g j)" "as_generation (slot g j) = cx_generation c"
    "as_receiver (slot g' j) = as_receiver (slot g j)"
    "command_kept (slot g j) (slot g' j) \<or> ag_request_serial g < as_token (slot g' j)"
    unfolding later_def by metis+
  with j assms(2) show "as_receiver (slot g' j) = cx_receiver c" by (simp add: command_ok_def)
  assume w: "as_awaiting_ack (slot g' j) \<and> as_token (slot g' j) = cx_token c"
  have "\<not> ag_request_serial g < as_token (slot g' j)"
    using w assms(2) by (simp add: command_ok_def not_less)
  with old(4) w have k: "as_awaiting_ack (slot g j)" "slot_command (slot g' j) = slot_command (slot g j)"
    by (auto simp: command_kept_def)
  then have "as_token (slot g j) = cx_token c" using w by (simp add: slot_command_def)
  with j old k assms(2) show "slot_command (slot g' j) = c" by (simp add: command_ok_def)
qed (use assms in \<open>auto simp: command_ok_def later_def intro: order_trans\<close>)

lemma slot_command_sel [simp]:
  "cx_receiver (slot_command x) = as_receiver x" "cx_generation (slot_command x) = as_generation x"
  "cx_token (slot_command x) = as_token x" "cx_stage (slot_command x) = as_stage x"
  "cx_view (slot_command x) = as_target_view x"
  by (simp_all add: slot_command_def)

lemma tick_command_ok:
  assumes t: "v8s_control_tick active now (cs_g s) = (Some c, z, late, g')"
    and s: "table_ok s" "serials_fit s"
  shows "\<exists>i < 4. eligible (slot (cs_g s) i) \<and> c = slot_command (slot g' i)" "command_ok g' c"
proof -
  let ?g = "cs_g s"
  obtain g1 ps where r: "tick_result active now ?g (Some c) late g1 ps" and ps: "set ps \<subseteq> {..<4}"
    and z: "zoom_result g1 z g'"
    by (rule control_tick_split [OF t table_len(1) [OF s(1)]])
  let ?i = "last ps"
  have i: "?i \<in> set ps" using r by (simp add: tick_result_def)
  then have i4: "?i < 4" using ps by auto
  have go: "snd (tick_slot active now (slot ?g ?i))" using r i by (simp add: tick_result_def)
  let ?y = "fst (tick_slot active now (slot ?g ?i))"
  have s1: "slot g1 ?i = control_dispatch (ag_request_serial ?g + 1) now ?y"
    "c = slot_command (slot g1 ?i)" "ag_request_serial g1 = ag_request_serial ?g + 1"
    using r i i4 by (simp_all add: tick_result_def)
  have s2: "slot g' ?i = slot g1 ?i \<or> slot g' ?i = (slot g1 ?i)\<lparr>as_inflight := as_inflight (slot g1 ?i) + 1\<rparr>"
    "ag_request_serial g' = ag_request_serial g1"
    using z i4 by (simp_all add: zoom_result_def)
  have c: "c = slot_command (slot g' ?i)" using s1(2) s2(1) by (auto simp: slot_command_def)
  have st: "as_stage (slot g' ?i) \<noteq> CONTROL_IDLE" "as_token (slot g' ?i) = ag_request_serial g'"
    "as_active (slot ?g ?i)" "eligible (slot ?g ?i)"
    using s1 s2 tick_slot_go [OF go] by (auto simp: eligible_def)
  from c i4 st(4) show "\<exists>i < 4. eligible (slot ?g i) \<and> c = slot_command (slot g' i)" by blast
  have same: "same_sessions ?g g'" by (rule same_sessions_tick [OF t table_len(1) [OF s(1)]])
  have gen: "as_generation (slot g' ?i) \<le> ag_generation_serial g'"
    using same i4 st(3) table_gen [OF s(1) i4] table_len(1) [OF s(1)]
    by (auto simp: same_sessions_def same_session_def)
  have only: "j = ?i" if "j < 4" "as_active (slot g' j)" "as_generation (slot g' j) = as_generation (slot g' ?i)" for j
    using same i4 that st(3) table_len(1) [OF s(1)]
    by (intro table_distinct [OF s(1)]) (auto simp: same_sessions_def same_session_def)
  show "command_ok g' c"
    using st gen only unfolding command_ok_def c by (auto simp: slot_command_def)
qed

lemma commands_step:
  assumes "perform a s = Some s'" "c \<in> commands s'"
  shows "c \<in> commands s \<or> (\<exists>active now z late. a = A_TICK active now \<and> cs_pc s = T_IDLE \<and>
           v8s_control_tick active now (cs_g s) = (Some c, z, late, cs_g s'))"
proof (cases "quiet_act a \<or> (\<exists>r. a = A_ALLOC r) \<or> (\<exists>i. a = A_CLEAR i)")
  case True
  have "cs_pc s' = cs_pc s \<and> cs_open s' = cs_open s"
  proof (cases a)
    case (A_FRAME t)
    with assms(1) show ?thesis by (cases "note_first_frame t (cs_g s)") (auto split: option.split_asm if_split_asm)
  qed (use True assms(1) in \<open>auto simp: Let_def case_prod_beta split: if_split_asm option.split_asm\<close>)
  with assms(2) show ?thesis by (simp add: commands_def)
next
  case False
  show ?thesis
  proof (cases a)
    case (A_TICK active now)
    obtain c' z late g' where t: "v8s_control_tick active now (cs_g s) = (c', z, late, g')" by (metis prod_cases4)
    from A_TICK assms t show ?thesis
      by (cases z; cases c') (auto simp: commands_def after_zoom_def split: if_split_asm)
  next
    case A_ZOOMED
    with assms show ?thesis
      by (auto simp: commands_def after_zoom_def split: tick_pc.split_asm option.split_asm)
  next
    case (A_COMPLETE n st)
    with assms show ?thesis
      by (auto simp: commands_def Let_def case_prod_beta split: if_split_asm dest: in_remove_nth)
  qed (use False assms in \<open>auto simp: commands_def Let_def case_prod_beta split: tick_pc.split_asm if_split_asm\<close>)
qed

definition commands_ok :: "alt_sys \<Rightarrow> bool" where
  "commands_ok s \<longleftrightarrow> (\<forall>c \<in> commands s. command_ok (cs_g s) c)"

lemma act_commands:
  assumes "perform a s = Some s'" "serials_fit s" "table_ok s" "indices_ok s" "commands_ok s"
  shows "commands_ok s'"
  unfolding commands_ok_def
proof
  fix c assume "c \<in> commands s'"
  from commands_step [OF assms(1) this] show "command_ok (cs_g s') c"
  proof (elim disjE exE conjE)
    assume "c \<in> commands s"
    with assms(5) show ?thesis
      by (auto simp: commands_ok_def intro: command_ok_later [OF act_later [OF assms(1-4)]])
  qed (use assms tick_command_ok in blast)
qed

lemma reach_commands: "alt_reach s \<Longrightarrow> commands_ok s"
proof (induction rule: alt_reach.induct)
  case alt_init
  show ?case by (simp add: commands_ok_def commands_def init_sys_def)
next
  case (alt_step s a s')
  then show ?case using reach_table by (blast intro: act_commands)
qed

text \<open>A command that a slot accepts as answered is the command of the slot, in all its parts.\<close>

lemma accepted_is_current:
  assumes "commands_ok s" "c \<in> commands s" "i < 4" "as_active (slot (cs_g s) i)" "awaits c (slot (cs_g s) i)"
  shows "slot_command (slot (cs_g s) i) = c"
  using assms by (auto simp: commands_ok_def command_ok_def awaits_def)

end
