(* ===== verification/Alt_Ranges.thy ===== *)
theory Alt_Ranges
  imports Alt_Commands
begin

text \<open>
  The exact counter of the commands inside SendCommand, which the cleanup of a session relies on,
  and the ranges of the fields of the table.
\<close>

section \<open>The counter\<close>

text \<open>How many calls for the session are under way at a position of the control worker.\<close>

fun inside :: "tick_pc \<Rightarrow> u64 \<Rightarrow> int" where
  "inside T_IDLE gen = 0"
| "inside (T_ZOOM i zgen zoom c) gen =
     of_bool (zgen = gen) + (case c of None \<Rightarrow> 0 | Some c \<Rightarrow> of_bool (cx_generation c = gen))"
| "inside (T_ZOOMED i zgen c) gen =
     of_bool (zgen = gen) + (case c of None \<Rightarrow> 0 | Some c \<Rightarrow> of_bool (cx_generation c = gen))"
| "inside (T_CMD c) gen = of_bool (cx_generation c = gen)"
| "inside (T_SENT c rc) gen = of_bool (cx_generation c = gen)"
| "inside (T_REFUSED c rc) gen = 0"

definition zoom_slot_ok :: "alt_globals \<Rightarrow> nat \<Rightarrow> u64 \<Rightarrow> control_completion_context option \<Rightarrow> bool" where
  "zoom_slot_ok g i zgen c \<longleftrightarrow> zgen \<le> ag_generation_serial g \<and>
     (\<forall>j < 4. as_active (slot g j) \<and> as_generation (slot g j) = zgen \<longrightarrow> j = i) \<and>
     (as_active (slot g i) \<and> as_generation (slot g i) \<noteq> zgen \<longrightarrow>
        (\<forall>x. c = Some x \<longrightarrow> as_generation (slot g i) \<noteq> cx_generation x))"

definition counters_ok :: "alt_sys \<Rightarrow> bool" where
  "counters_ok s \<longleftrightarrow>
     (\<forall>j < 4. as_active (slot (cs_g s) j) \<longrightarrow>
        as_inflight (slot (cs_g s) j) = inside (cs_pc s) (as_generation (slot (cs_g s) j))) \<and>
     (case cs_pc s of T_ZOOM i zgen zoom c \<Rightarrow> zoom_slot_ok (cs_g s) i zgen c
      | T_ZOOMED i zgen c \<Rightarrow> zoom_slot_ok (cs_g s) i zgen c | _ \<Rightarrow> True)"

lemma inside_after_zoom [simp]:
  "inside (after_zoom c) gen = (case c of None \<Rightarrow> 0 | Some c \<Rightarrow> of_bool (cx_generation c = gen))"
  by (simp add: after_zoom_def split: option.splits)

lemma after_zoom_cases [simp]:
  "(case after_zoom c of T_ZOOM i zgen zoom x \<Rightarrow> P i zgen zoom x | T_ZOOMED i zgen x \<Rightarrow> Q i zgen x | _ \<Rightarrow> True)"
  by (simp add: after_zoom_def split: option.splits)

lemma zoom_slot_same:
  assumes "same_sessions g g'" "length (ag_states g) = 4" "i < 4" "zoom_slot_ok g i zgen c"
  shows "zoom_slot_ok g' i zgen c"
proof -
  have same: "as_active (slot g' j) = as_active (slot g j)" "as_generation (slot g' j) = as_generation (slot g j)"
    if "j < 4" for j using assms(1,2) that by (auto simp: same_sessions_def same_session_def)
  have "ag_generation_serial g' = ag_generation_serial g" using assms(1) by (simp add: same_sessions_def)
  with assms(4) same assms(3) show ?thesis unfolding zoom_slot_ok_def by metis
qed

lemma counters_same:
  assumes "counters_ok s" "same_sessions (cs_g s) (cs_g s')" "table_ok s" "indices_ok s" "cs_pc s' = cs_pc s"
    and "\<And>j. j < 4 \<Longrightarrow> as_inflight (slot (cs_g s') j) = as_inflight (slot (cs_g s) j)"
  shows "counters_ok s'"
proof -
  have len: "length (ag_states (cs_g s)) = 4" using assms(3) by (rule table_len)
  have j: "as_active (slot (cs_g s') j) \<Longrightarrow> as_active (slot (cs_g s) j) \<and>
      as_generation (slot (cs_g s') j) = as_generation (slot (cs_g s) j)" if "j < 4" for j
    using assms(2) len that by (auto simp: same_sessions_def same_session_def)
  have zoom: "zoom_slot_ok (cs_g s) i zgen c \<Longrightarrow> i < 4 \<Longrightarrow> zoom_slot_ok (cs_g s') i zgen c" for i zgen c
    by (rule zoom_slot_same [OF assms(2) len])
  have "\<forall>j < 4. as_active (slot (cs_g s') j) \<longrightarrow>
        as_inflight (slot (cs_g s') j) = inside (cs_pc s') (as_generation (slot (cs_g s') j))"
    using assms(1,5,6) j by (simp add: counters_ok_def)
  moreover have "case cs_pc s' of T_ZOOM i zgen zoom c \<Rightarrow> zoom_slot_ok (cs_g s') i zgen c
      | T_ZOOMED i zgen c \<Rightarrow> zoom_slot_ok (cs_g s') i zgen c | _ \<Rightarrow> True"
    using assms(1,4,5) zoom by (cases "cs_pc s") (auto simp: counters_ok_def indices_ok_def)
  ultimately show ?thesis by (simp add: counters_ok_def)
qed

lemma alloc_counters:
  assumes "counters_ok s" "table_ok s" "indices_ok s" "commands_ok s" "serials_fit s"
    "cs_g s' = snd (alloc_state_locked r (cs_g s))" "cs_pc s' = cs_pc s"
  shows "counters_ok s'"
proof -
  obtain x g' where a: "alloc_state_locked r (cs_g s) = (x, g')" by (metis prod.exhaust)
  let ?n = "ag_generation_serial (cs_g s) + 1"
  have n: "ag_generation_serial (cs_g s) < ?n" using assms(5) by (simp add: serials_fit_def less_plus_one)
  have cmd: "cx_generation c < ?n" if "c \<in> pc_commands (cs_pc s)" for c
  proof -
    have "cx_generation c \<le> ag_generation_serial (cs_g s)"
      using assms(4) that by (auto simp: commands_ok_def commands_def command_ok_def)
    then show ?thesis using n by (rule le_less_trans)
  qed
  from alloc_cases [OF a table_len(1) [OF assms(2)]] show ?thesis
  proof (elim disjE exE conjE)
    assume "x = None" "g' = cs_g s"
    then have "cs_g s' = cs_g s" using assms(6) a by simp
    with assms(1,7) show ?thesis unfolding counters_ok_def by metis
  next
    fix i assume i: "i < 4" "\<not> as_active (slot (cs_g s) i)"
      and g': "g' = on_slot i (\<lambda>_. new_slot r ?n) ((cs_g s)\<lparr>ag_generation_serial := ?n\<rparr>)"
    have slots: "slot g' j = (if j = i then new_slot r ?n else slot (cs_g s) j)" for j
      using i table_len(1) [OF assms(2)] by (simp add: g')
    have zoom: "zoom_slot_ok g' k zgen c"
      if z: "zoom_slot_ok (cs_g s) k zgen c" "\<And>y. c = Some y \<Longrightarrow> cx_generation y < ?n" for k zgen c
    proof -
      have z': "zgen \<le> ag_generation_serial (cs_g s)" using z(1) by (simp add: zoom_slot_ok_def)
      then have "zgen < ?n" using n by (rule le_less_trans)
      moreover have "zgen \<le> ag_generation_serial g'" using \<open>zgen < ?n\<close> by (simp add: g')
      ultimately show ?thesis using z n unfolding zoom_slot_ok_def slots
        by (auto split: if_split_asm)
    qed
    have new: "inside (cs_pc s) ?n = 0"
      using cmd n assms(1) by (cases "cs_pc s") (auto simp: counters_ok_def zoom_slot_ok_def split: option.splits)
    have "\<forall>j < 4. as_active (slot g' j) \<longrightarrow> as_inflight (slot g' j) = inside (cs_pc s) (as_generation (slot g' j))"
      using assms(1) new by (auto simp: slots counters_ok_def)
    moreover have "case cs_pc s of T_ZOOM i zgen zoom c \<Rightarrow> zoom_slot_ok g' i zgen c
        | T_ZOOMED i zgen c \<Rightarrow> zoom_slot_ok g' i zgen c | _ \<Rightarrow> True"
      using assms(1) cmd zoom by (cases "cs_pc s") (auto simp: counters_ok_def)
    moreover have "cs_g s' = g'" using assms(6) a by simp
    ultimately show ?thesis unfolding counters_ok_def assms(7) by metis
  qed
qed

lemma tick_sender:
  assumes "tick_result active now g (Some x) late g1 ps" "set ps \<subseteq> {..<4}"
  obtains l where "l \<in> set ps" "l < 4" "l = last ps" "snd (tick_slot active now (slot g l))" "eligible (slot g l)"
    "slot g1 l = control_dispatch (ag_request_serial g + 1) now (fst (tick_slot active now (slot g l)))"
    "x = slot_command (slot g1 l)" "ag_request_serial g1 = ag_request_serial g + 1"
    "\<And>j. j < 4 \<Longrightarrow> j \<noteq> l \<Longrightarrow> slot g1 j = slot g j \<or> slot g1 j = fst (tick_slot active now (slot g j))"
proof -
  have l: "last ps \<in> set ps" using assms(1) by (simp add: tick_result_def)
  then have l4: "last ps < 4" using assms(2) by auto
  have go: "snd (tick_slot active now (slot g (last ps)))" using assms(1) l by (simp add: tick_result_def)
  show thesis
    by (rule that [OF l l4 refl go]) (use assms(1) l l4 tick_slot_go [OF go] in \<open>simp_all add: tick_result_def\<close>)
qed

lemma tick_counters:
  assumes "counters_ok s" "table_ok s" "cs_pc s = T_IDLE"
    and t: "v8s_control_tick active now (cs_g s) = (c, z, late, g')"
    and s': "cs_g s' = g'" "cs_pc s' = (case z of None \<Rightarrow> after_zoom c
                          | Some (i, zoom) \<Rightarrow> T_ZOOM i (as_generation (slot g' i)) zoom c)"
  shows "counters_ok s'"
proof -
  let ?g = "cs_g s"
  have len: "length (ag_states ?g) = 4" using assms(2) by (rule table_len)
  obtain g1 ps where r: "tick_result active now ?g c late g1 ps" and ps: "set ps \<subseteq> {..<4}"
    and z: "zoom_result g1 z g'"
    by (rule control_tick_split [OF t len])
  have same: "same_sessions ?g g'" by (rule same_sessions_tick [OF t len])
  have gens: "as_generation (slot g' j) = as_generation (slot ?g j)" "as_active (slot g' j) = as_active (slot ?g j)"
    if "j < 4" for j using same len that by (auto simp: same_sessions_def same_session_def)
  have dist: "j = k" if "j < 4" "k < 4" "as_active (slot g' j)" "as_active (slot g' k)"
    "as_generation (slot g' j) = as_generation (slot g' k)" for j k
    using table_distinct [OF assms(2) that(1,2)] that gens by auto
  have zero: "as_inflight (slot ?g j) = 0" if "j < 4" "as_active (slot ?g j)" for j
    using assms(1,3) that by (simp add: counters_ok_def)
  have one: "as_inflight (slot g1 j) = (case c of None \<Rightarrow> 0 | Some x \<Rightarrow> of_bool (cx_generation x = as_generation (slot g' j)))"
    if j: "j < 4" "as_active (slot g' j)" for j
  proof (cases c)
    case None
    with r j zero gens show ?thesis by (auto simp: tick_result_def)
  next
    case (Some x)
    obtain l where l: "l < 4" "eligible (slot ?g l)" "x = slot_command (slot g1 l)"
      "slot g1 l = control_dispatch (ag_request_serial ?g + 1) now (fst (tick_slot active now (slot ?g l)))"
      "\<And>j. j < 4 \<Longrightarrow> j \<noteq> l \<Longrightarrow> slot g1 j = slot ?g j \<or> slot g1 j = fst (tick_slot active now (slot ?g j))"
      using tick_sender r ps unfolding Some by blast
    have act: "as_active (slot g' l)" using l gens by (simp add: eligible_def)
    have x: "cx_generation x = as_generation (slot g' l)"
      unfolding l(3) slot_command_sel l(4) gens(1) [OF l(1)] by simp
    have other: "as_inflight (slot g1 j) = 0" if "j \<noteq> l"
      using l(5) [OF j(1) that] zero [OF j(1)] j gens by auto
    have eq: "cx_generation x = as_generation (slot g' j) \<longleftrightarrow> j = l"
      using dist [OF j(1) l(1) j(2) act] x by metis
    have one: "as_inflight (slot g1 l) = 1"
      using l(1,2,4) zero [of l] by (simp add: eligible_def)
    show ?thesis unfolding Some option.case eq by (cases "j = l") (simp_all add: one other)
  qed
  have cnt: "as_inflight (slot g' j) = inside (cs_pc s') (as_generation (slot g' j))"
    if j: "j < 4" "as_active (slot g' j)" for j
  proof (cases z)
    case None
    have "as_inflight (slot g' j) = as_inflight (slot g1 j)" using z j(1) None by (simp add: zoom_result_def)
    then show ?thesis unfolding one [OF j] s'(2) None by simp
  next
    case (Some iz)
    then obtain i zoom where iz: "z = Some (i, zoom)" by (cases iz) auto
    have i: "i < 4" "as_active (slot g' i)" using z iz by (auto simp: zoom_result_def eligible_def)
    then have "as_generation (slot g' i) = as_generation (slot g' j) \<longleftrightarrow> j = i" using dist [OF j(1) i(1) j(2) i(2)] by auto
    moreover have "as_inflight (slot g' j) = as_inflight (slot g1 j) + of_bool (j = i)"
      using z j(1) iz by (simp add: zoom_result_def)
    ultimately show ?thesis unfolding one [OF j] s'(2) iz by simp
  qed
  have "zoom_slot_ok g' i (as_generation (slot g' i)) c" if "z = Some (i, zoom)" for i zoom
  proof -
    have i: "i < 4" "as_active (slot g' i)" using z that by (auto simp: zoom_result_def eligible_def)
    have "as_generation (slot g' i) \<le> ag_generation_serial g'"
      using table_gen [OF assms(2) i(1)] i gens same by (auto simp: same_sessions_def)
    with dist [OF _ i(1) _ i(2)] show ?thesis by (auto simp: zoom_slot_ok_def)
  qed
  with cnt s' show ?thesis by (cases z) (auto simp: counters_ok_def)
qed

lemma find_receiver_only:
  assumes "table_ok s" "j < 4" "as_active (slot (cs_g s) j)"
  shows "find_state_receiver_locked (as_receiver (slot (cs_g s) j)) (cs_g s) = Some j"
proof (cases "find_state_receiver_locked (as_receiver (slot (cs_g s) j)) (cs_g s)")
  case None
  with find_receiver_NoneD [OF None assms(2,3)] show ?thesis by simp
next
  case (Some i)
  with find_receiver_SomeD [OF Some] table_distinct [OF assms(1) _ assms(2) _ assms(3)] show ?thesis by blast
qed

lemma sent_counter:
  assumes "table_ok s" "command_ok (cs_g s) c" "j < 4" "as_active (slot (cs_g s) j)"
    "as_generation (slot (cs_g s) j) = cx_generation c \<Longrightarrow> as_inflight (slot (cs_g s) j) > 0"
  shows "as_inflight (slot (control_sent c (cs_g s)) j) =
    as_inflight (slot (cs_g s) j) - of_bool (cx_generation c = as_generation (slot (cs_g s) j))"
proof (cases "as_generation (slot (cs_g s) j) = cx_generation c")
  case True
  then have "as_receiver (slot (cs_g s) j) = cx_receiver c"
    using assms(2-4) by (simp add: command_ok_def)
  with find_receiver_only [OF assms(1,3,4)] have "find_state_receiver_locked (cx_receiver c) (cs_g s) = Some j"
    by simp
  with True assms table_len(1) [OF assms(1)] show ?thesis by (simp add: control_sent_def)
next
  case False
  have "slot (control_sent c (cs_g s)) j = slot (cs_g s) j"
    using False assms(3) table_len(1) [OF assms(1)]
    by (auto simp: control_sent_def split: option.splits dest!: find_receiver_SomeD)
  with False show ?thesis by simp
qed

lemma zoomed_counters:
  assumes "counters_ok s" "table_ok s" "indices_ok s" "cs_pc s = T_ZOOMED i zgen c"
    "cs_g s' = zoom_sent i (cs_g s)" "cs_pc s' = after_zoom c"
  shows "counters_ok s'"
proof -
  let ?g = "cs_g s"
  have i: "i < 4" using assms(3,4) by (simp add: indices_ok_def)
  have z: "zoom_slot_ok ?g i zgen c" using assms(1,4) by (simp add: counters_ok_def)
  have len: "length (ag_states ?g) = 4" using assms(2) by (rule table_len)
  have slots: "slot (zoom_sent i ?g) j = (if j = i \<and> as_inflight (slot ?g i) > 0
      then (slot ?g i)\<lparr>as_inflight := as_inflight (slot ?g i) - 1\<rparr> else slot ?g j)" for j
    using i len by (simp add: zoom_sent_def)
  have "as_inflight (slot (zoom_sent i ?g) j) = inside (after_zoom c) (as_generation (slot (zoom_sent i ?g) j))"
    if j: "j < 4" "as_active (slot (zoom_sent i ?g) j)" for j
  proof -
    have a: "as_active (slot ?g j)" using j by (simp add: slots split: if_split_asm)
    have c: "as_inflight (slot ?g j) = of_bool (zgen = as_generation (slot ?g j)) + inside (after_zoom c) (as_generation (slot ?g j))"
      using assms(1,4) j(1) a by (simp add: counters_ok_def)
    show ?thesis
    proof (cases "zgen = as_generation (slot ?g j)")
      case True
      then have "j = i" using z j(1) a by (simp add: zoom_slot_ok_def)
      with c True show ?thesis by (simp add: slots split: option.splits)
    next
      case False
      have "inside (after_zoom c) (as_generation (slot ?g j)) = 0" if "j = i"
        using z that False a by (auto simp: zoom_slot_ok_def split: option.splits)
      with c False show ?thesis by (auto simp: slots)
    qed
  qed
  then show ?thesis unfolding counters_ok_def assms(5,6) by simp
qed

lemma act_counters:
  assumes "perform a s = Some s'" "serials_fit s" "table_ok s" "indices_ok s" "commands_ok s" "counters_ok s"
  shows "counters_ok s'"
proof (cases "quiet_act a")
  case True
  show ?thesis
  proof (rule counters_same [OF assms(6) _ assms(3,4)])
    show "same_sessions (cs_g s) (cs_g s')"
      by (rule act_sessions [OF assms(1,3,4)]) (use True in auto)
    show "cs_pc s' = cs_pc s" by (rule act_quiet [OF assms(1,3,4) True])
    show "j < 4 \<Longrightarrow> as_inflight (slot (cs_g s') j) = as_inflight (slot (cs_g s) j)" for j
      using act_quiet(1) [OF assms(1,3,4) True] by (simp add: same_control_def control_of_def)
  qed
next
  case False
  have len: "length (ag_states (cs_g s)) = 4" using assms(3) by (rule table_len)
  show ?thesis
  proof (cases a)
    case (A_ALLOC r)
    with assms show ?thesis by (intro alloc_counters [OF assms(6,3-5,2)]) auto
  next
    case (A_CLEAR i)
    with assms(1) have s': "i < 4" "s' = s\<lparr>cs_g := clear_session i (cs_g s), cs_phase := (cs_phase s)[i := NO_WORKER]\<rparr>"
      by (auto split: if_split_asm)
    have sub: "zoom_slot_ok (cs_g s) k zgen c \<Longrightarrow> zoom_slot_ok (clear_session i (cs_g s)) k zgen c" for k zgen c
      using s'(1) len by (auto simp: zoom_slot_ok_def clear_session_def split: if_split_asm)
    show ?thesis
      using assms(6) s' sub len unfolding counters_ok_def
      by (cases "cs_pc s") (auto simp: clear_session_def)
  next
    case (A_TICK active now)
    obtain c z late g' where t: "v8s_control_tick active now (cs_g s) = (c, z, late, g')" by (metis prod_cases4)
    with A_TICK assms(1) show ?thesis
      by (intro tick_counters [OF assms(6,3) _ t]) (auto split: if_split_asm)
  next
    case A_ZOOM
    with assms(1) obtain i zgen zoom c where p: "cs_pc s = T_ZOOM i zgen zoom c" "cs_g s' = cs_g s" "cs_pc s' = T_ZOOMED i zgen c"
      by (auto split: tick_pc.split_asm)
    with assms(6) show ?thesis by (simp add: counters_ok_def)
  next
    case A_ZOOMED
    with assms(1) show ?thesis
      by (auto split: tick_pc.split_asm intro!: zoomed_counters [OF assms(6,3,4)])
  next
    case (A_SEND b rc)
    with assms(1) obtain c rc' where p: "cs_pc s = T_CMD c" "cs_g s' = cs_g s" "cs_pc s' = T_SENT c rc'"
      by (auto split: tick_pc.split_asm if_split_asm)
    with assms(6) show ?thesis by (simp add: counters_ok_def)
  next
    case A_SENT
    with assms(1) obtain c rc where p: "cs_pc s = T_SENT c rc" "cs_g s' = control_sent c (cs_g s)"
        "cs_pc s' = (if rc \<noteq> 0 then T_REFUSED c rc else T_IDLE)"
      by (auto split: tick_pc.split_asm)
    have ok: "command_ok (cs_g s) c" using assms(5) p(1) by (auto simp: commands_ok_def commands_def)
    have same: "same_sessions (cs_g s) (control_sent c (cs_g s))" by (rule sent_sessions [OF len])
    have "as_inflight (slot (cs_g s') j) = 0" if "j < 4" "as_active (slot (cs_g s') j)" for j
    proof -
      have a: "as_active (slot (cs_g s) j)" using that same len p(2) by (auto simp: same_sessions_def same_session_def)
      have i: "as_inflight (slot (cs_g s) j) = of_bool (cx_generation c = as_generation (slot (cs_g s) j))"
        using assms(6) p(1) that(1) a by (simp add: counters_ok_def)
      show ?thesis unfolding p(2) by (subst sent_counter [OF assms(3) ok that(1) a]) (use i in auto)
    qed
    then show ?thesis using p(3) by (auto simp: counters_ok_def)
  next
    case A_REFUSED
    with assms(1) obtain c rc where p: "cs_pc s = T_REFUSED c rc"
        "cs_g s' = snd (v8s_control_dispatch_failed c (cs_g s))" "cs_pc s' = T_IDLE"
      by (auto simp: Let_def case_prod_beta split: tick_pc.split_asm)
    have "as_active (slot (cs_g s') j) = as_active (slot (cs_g s) j)"
      "as_inflight (slot (cs_g s') j) = as_inflight (slot (cs_g s) j)" for j
      using p(2) len
      by (auto simp: v8s_control_dispatch_failed_def split: option.splits if_split_asm dest!: find_receiver_SomeD)
    then show ?thesis using assms(6) p by (simp add: counters_ok_def)
  next
    case (A_COMPLETE n st)
    show ?thesis
    proof (rule counters_same [OF assms(6) _ assms(3,4)])
      show "same_sessions (cs_g s) (cs_g s')" by (rule act_sessions [OF assms(1,3,4)]) (use A_COMPLETE in auto)
      show "cs_pc s' = cs_pc s" using A_COMPLETE assms(1) by (auto simp: Let_def case_prod_beta split: if_split_asm)
      show "j < 4 \<Longrightarrow> as_inflight (slot (cs_g s') j) = as_inflight (slot (cs_g s) j)" for j
        using A_COMPLETE assms(1) len
        by (auto simp: Let_def case_prod_beta v8s_control_completion_def split: if_split_asm option.splits
            dest!: find_receiver_SomeD)
    qed
  qed (use False in auto)
qed

lemma reach_counters: "alt_reach s \<Longrightarrow> counters_ok s"
proof (induction rule: alt_reach.induct)
  case alt_init
  show ?case by (simp add: counters_ok_def init_sys_def init_globals_def)
next
  case (alt_step s a s')
  then show ?case using reach_table reach_commands by (blast intro: act_counters)
qed

section \<open>Ranges\<close>

definition view_value :: "int \<Rightarrow> bool" where
  "view_value v \<longleftrightarrow> v \<in> {-1, 0, 1, 2, 3}"

definition slot_typed :: "altscreen_state \<Rightarrow> bool" where
  "slot_typed x \<longleftrightarrow> view_value (as_current_view x) \<and> view_value (as_pending_view x) \<and>
     view_value (as_target_view x) \<and> as_last_ui_slot x \<in> {-1, 0, 1} \<and>
     (as_awaiting_ack x \<longrightarrow> as_stage x \<noteq> CONTROL_IDLE) \<and>
     (as_stage x \<noteq> CONTROL_IDLE \<longrightarrow> as_target_view x \<ge> 0) \<and>
     (as_stage x = CONTROL_SHOW \<longrightarrow> as_last_ui_slot x \<noteq> as_target_view x div 2) \<and>
     (as_stage x \<in> {CONTROL_VIEW, CONTROL_KEYFRAME} \<longrightarrow> as_last_ui_slot x = as_target_view x div 2)"

definition globals_typed :: "alt_globals \<Rightarrow> bool" where
  "globals_typed g \<longleftrightarrow> ag_layout_slot g \<in> {0, 1} \<and> \<bar>ag_pending_zoom g\<bar> \<le> 20 \<and> (\<forall>j < 4. slot_typed (slot g j))"

lemma route_view_range: "l \<in> {0, 1} \<Longrightarrow> view_value (route_view_for_state l x) \<and> route_view_for_state l x \<ge> 0"
  by (auto simp: route_view_for_state_def view_value_def)

lemma view_div: "view_value v \<Longrightarrow> v \<ge> 0 \<Longrightarrow> v div 2 \<in> {0, 1}"
  by (auto simp: view_value_def)

lemma typed_upd [simp]:
  "slot_typed (x\<lparr>as_worker := t\<rparr>) = slot_typed x"
  "slot_typed (x\<lparr>as_worker_started := b\<rparr>) = slot_typed x"
  "slot_typed (x\<lparr>as_screen_started := b\<rparr>) = slot_typed x"
  "slot_typed (x\<lparr>as_stop_requested := b\<rparr>) = slot_typed x"
  "slot_typed (x\<lparr>as_show_sent := b\<rparr>) = slot_typed x"
  "slot_typed (x\<lparr>as_startup := b\<rparr>) = slot_typed x"
  "slot_typed (x\<lparr>as_inflight := n\<rparr>) = slot_typed x"
  "slot_typed (x\<lparr>as_route_active := b, as_route_known := c\<rparr>) = slot_typed x"
  by (simp_all add: slot_typed_def)

lemma typed_new [simp]: "slot_typed (new_slot r n)" "slot_typed zero_session"
  by (simp_all add: slot_typed_def view_value_def)

lemma typed_queue: "slot_typed x \<Longrightarrow> l \<in> {0, 1} \<Longrightarrow> slot_typed (queue_view l fg due x)"
  using route_view_range [of l x] by (auto simp: slot_typed_def queue_view_def)

lemma typed_drop: "slot_typed x \<Longrightarrow> slot_typed (drop_command st x)"
  by (simp add: slot_typed_def)

lemma typed_tick: "slot_typed x \<Longrightarrow> slot_typed (fst (tick_slot active now x))"
proof -
  assume x: "slot_typed x"
  have e: "slot_typed (control_expire now x)" using x by (simp add: control_expire_def typed_drop)
  have t: "slot_typed (control_take y)" if "slot_typed y" "as_pending_view y \<ge> 0" "\<not> as_awaiting_ack y" for y
    using that by (auto simp: slot_typed_def view_value_def)
  show ?thesis using x e t by (simp add: tick_slot_def Let_def)
qed

lemma typed_dispatch: "slot_typed x \<Longrightarrow> as_stage x \<noteq> CONTROL_IDLE \<Longrightarrow> slot_typed (control_dispatch tok now x)"
  by (simp add: slot_typed_def)

lemma take_answer_result:
  "as_stage (take_answer st c x) = (if st \<noteq> 0 then CONTROL_IDLE else if cx_stage c = CONTROL_SHOW then CONTROL_VIEW
     else if cx_stage c = CONTROL_VIEW then CONTROL_KEYFRAME else CONTROL_IDLE)"
  "as_last_ui_slot (take_answer st c x) = (if cx_stage c = CONTROL_SHOW then if st = 0 then cx_view c div 2 else -1
     else as_last_ui_slot x)"
  "as_current_view (take_answer st c x) = (if st = 0 \<and> cx_stage c \<noteq> CONTROL_SHOW \<and> cx_stage c \<noteq> CONTROL_VIEW
     then cx_view c else as_current_view x)"
  by (simp_all add: take_answer_def drop_command_def Let_def)

lemma typed_answer: "slot_typed x \<Longrightarrow> awaits (slot_command x) x \<Longrightarrow> slot_typed (take_answer st (slot_command x) x)"
  unfolding slot_typed_def
  by (cases "as_stage x") (auto simp: take_answer_result awaits_def dest: view_div)

lemma typed_on_slot:
  "globals_typed g \<Longrightarrow> length (ag_states g) = 4 \<Longrightarrow> i < 4 \<Longrightarrow> slot_typed (f (slot g i)) \<Longrightarrow> globals_typed (on_slot i f g)"
  by (simp add: globals_typed_def)

lemma typed_requeue:
  "globals_typed g \<Longrightarrow> length (ag_states g) = 4 \<Longrightarrow> l \<in> {0, 1} \<Longrightarrow> globals_typed (requeue_for_layout l now g)"
  by (auto simp: globals_typed_def requeue_for_layout_def intro: typed_queue)

lemma typed_ticks:
  assumes "globals_typed g" "length (ag_states g) = 4" "v8s_control_tick active now g = (c, z, late, g')"
  shows "globals_typed g'"
proof -
  obtain g1 ps where r: "tick_result active now g c late g1 ps" and ps: "set ps \<subseteq> {..<4}" and z: "zoom_result g1 z g'"
    by (rule control_tick_split [OF assms(3,2)])
  have g1: "slot_typed (slot g1 j)" if "j < 4" for j
  proof (cases c)
    case None
    with r that assms(1) show ?thesis by (auto simp: tick_result_def globals_typed_def intro: typed_tick)
  next
    case (Some x)
    obtain l where l: "l < 4" "snd (tick_slot active now (slot g l))"
      "slot g1 l = control_dispatch (ag_request_serial g + 1) now (fst (tick_slot active now (slot g l)))"
      "\<And>j. j < 4 \<Longrightarrow> j \<noteq> l \<Longrightarrow> slot g1 j = slot g j \<or> slot g1 j = fst (tick_slot active now (slot g j))"
      using tick_sender r ps unfolding Some by blast
    have t: "slot_typed (slot g j)" "slot_typed (fst (tick_slot active now (slot g j)))" if "j < 4" for j
      using assms(1) that by (simp_all add: globals_typed_def typed_tick)
    show ?thesis
    proof (cases "j = l")
      case True
      then show ?thesis using l t(2) tick_slot_go [OF l(2)] by (simp add: typed_dispatch)
    next
      case False
      with l(4) [OF that] t [OF that] show ?thesis by auto
    qed
  qed
  have "slot_typed (slot g' j)" if "j < 4" for j
    using g1 [OF that] z that by (simp add: zoom_result_def)
  moreover have "ag_layout_slot g' = ag_layout_slot g" "ag_pending_zoom g1 = ag_pending_zoom g"
    using r z by (simp_all add: tick_result_def zoom_result_def)
  moreover have "\<bar>ag_pending_zoom g'\<bar> \<le> 20"
    using z assms(1) \<open>ag_pending_zoom g1 = ag_pending_zoom g\<close>
    by (auto simp: zoom_result_def globals_typed_def split: option.splits)
  ultimately show ?thesis using assms(1) by (simp add: globals_typed_def)
qed

lemma act_typed:
  assumes "perform a s = Some s'" "table_ok s" "indices_ok s" "commands_ok s" "globals_typed (cs_g s)"
  shows "globals_typed (cs_g s')"
proof -
  have len: "length (ag_states (cs_g s)) = 4" using assms(2) by (rule table_len)
  have typed: "slot_typed (slot (cs_g s) j)" if "j < 4" for j using assms(5) that by (simp add: globals_typed_def)
  have layout: "ag_layout_slot (cs_g s) \<in> {0, 1}" using assms(5) by (simp add: globals_typed_def)
  note here = typed_on_slot [OF assms(5) len]
  show ?thesis
  proof (cases a)
    case (A_ALLOC r)
    obtain x g' where al: "alloc_state_locked r (cs_g s) = (x, g')" by (metis prod.exhaust)
    from alloc_cases [OF al len] A_ALLOC assms(1) al assms(5) len show ?thesis
      by (auto simp: globals_typed_def)
  next
    case (A_STOP r)
    with assms(1) typed show ?thesis by (auto split: option.splits dest!: find_receiver_SomeD intro!: here)
  next
    case (A_CLEAR i)
    with assms(1) show ?thesis by (auto simp: clear_session_def split: if_split_asm intro!: here)
  next
    case (A_NOTE n)
    with assms(1,5) typed show ?thesis
      by (auto simp: Let_def case_prod_beta note_route_state_def split: if_split_asm option.splits
          dest!: find_receiver_SomeD intro!: here)
  next
    case (A_QUEUE n now)
    with assms(1,5) typed layout show ?thesis
      by (auto simp: queue_route_view_for_receiver_def split: if_split_asm option.splits
          dest!: find_receiver_SomeD intro!: here typed_queue)
  next
    case (A_FRAME t)
    obtain x g' where f: "note_first_frame t (cs_g s) = (x, g')" by (metis prod.exhaust)
    with A_FRAME assms(1,5) first_frame_cases [OF f] typed show ?thesis
      by (cases x) (auto split: if_split_asm intro!: here)
  next
    case (A_CLUSTER n now)
    with assms(1,3,5) typed layout show ?thesis
      by (auto simp: indices_ok_def request_cluster_def split: if_split_asm intro!: here typed_queue)
  next
    case (A_BAP54 l now)
    have "globals_typed ((cs_g s)\<lparr>ag_bap54_layout_known := True\<rparr>)" using assms(5) by (simp add: globals_typed_def)
    then show ?thesis using A_BAP54 assms(1) len typed_requeue [of "(cs_g s)\<lparr>ag_bap54_layout_known := True\<rparr>" l now]
      by (auto simp: gauge_bap54_seen_def Let_def split: if_split_asm)
  next
    case (A_AREA l now)
    with assms(1,5) len typed_requeue [of "cs_g s" l now] show ?thesis
      by (auto simp: zoom_area_seen_def split: if_split_asm)
  next
    case (A_ENCODER n)
    with assms(1,5) show ?thesis
      by (cases "ag_pending_zoom (cs_g s) > -20 \<and> ag_pending_zoom (cs_g s) < 20")
        (auto simp: encoder_step_seen_def globals_typed_def)
  next
    case (A_TICK active now)
    obtain c z late g' where t: "v8s_control_tick active now (cs_g s) = (c, z, late, g')" by (metis prod_cases4)
    with A_TICK assms(1) typed_ticks [OF assms(5) len t] show ?thesis by (auto split: if_split_asm)
  next
    case A_ZOOMED
    with assms(1,3,5) typed show ?thesis
      by (auto simp: indices_ok_def zoom_sent_def split: tick_pc.split_asm intro!: here)
  next
    case A_SENT
    with assms(1,5) typed show ?thesis
      by (auto simp: control_sent_def split: tick_pc.split_asm option.splits dest!: find_receiver_SomeD intro!: here)
  next
    case A_REFUSED
    with assms(1,5) typed show ?thesis
      by (auto simp: v8s_control_dispatch_failed_def Let_def case_prod_beta split: tick_pc.split_asm option.splits
          dest!: find_receiver_SomeD intro!: here typed_drop)
  next
    case (A_COMPLETE n st)
    let ?c = "cs_open s ! n"
    have s': "n < length (cs_open s)" "cs_g s' = snd (v8s_control_completion st ?c (cs_g s))"
      using A_COMPLETE assms(1) by (auto simp: Let_def case_prod_beta split: if_split_asm)
    show ?thesis
    proof (cases "fst (v8s_control_completion st ?c (cs_g s))")
      case False
      then have "snd (v8s_control_completion st ?c (cs_g s)) = cs_g s"
        by (auto simp: v8s_control_completion_def split: option.splits if_split_asm)
      with s' assms(5) show ?thesis by simp
    next
      case True
      then obtain i where i: "find_state_receiver_locked (cx_receiver ?c) (cs_g s) = Some i" "awaits ?c (slot (cs_g s) i)"
        "snd (v8s_control_completion st ?c (cs_g s)) = on_slot i (take_answer st ?c) (cs_g s)"
        by (auto simp: v8s_control_completion_def split: option.splits if_split_asm)
      have i4: "i < 4" "as_active (slot (cs_g s) i)" using find_receiver_SomeD [OF i(1)] by auto
      have c: "slot_command (slot (cs_g s) i) = ?c"
        by (rule accepted_is_current [OF assms(4) _ i4 i(2)]) (use s'(1) in \<open>simp add: commands_def\<close>)
      have "slot_typed (take_answer st ?c (slot (cs_g s) i))"
        using typed_answer [OF typed [OF i4(1)]] i(2) unfolding c by simp
      then show ?thesis unfolding s'(2) i(3) by (rule here [OF i4(1)])
    qed
  qed (use assms(1,5) typed in \<open>auto split: if_split_asm tick_pc.split_asm intro!: here\<close>)
qed

lemma reach_typed: "alt_reach s \<Longrightarrow> globals_typed (cs_g s)"
proof (induction rule: alt_reach.induct)
  case alt_init
  show ?case by (simp add: globals_typed_def init_sys_def init_globals_def)
next
  case (alt_step s a s')
  then show ?case using reach_table reach_commands by (blast intro: act_typed)
qed

end
