(* ===== verification/Alt_Protocol.thy ===== *)
theory Alt_Protocol
  imports Alt_Ranges
begin

text \<open>
  What the phone sees of one CarPlay session, as an automaton over the log of the control worker:
  one command at a time, an updateViewArea only under the page that its gauge layout needs, a
  forceKeyFrame only right after the updateViewArea for its view has been answered. The table of
  altscreen/native/altscreen_session.c, with its threads, refines the automaton of every session.
\<close>

section \<open>The automaton\<close>

record session_spec =
  sp_ui :: int
  sp_wait :: "control_completion_context option"
  sp_shown :: "int option"

definition init_spec :: session_spec where
  "init_spec = \<lparr>sp_ui = -1, sp_wait = None, sp_shown = None\<rparr>"

definition may_send :: "control_completion_context \<Rightarrow> session_spec \<Rightarrow> bool" where
  "may_send c sp \<longleftrightarrow> sp_wait sp = None \<and>
     (case cx_stage c of
        CONTROL_IDLE \<Rightarrow> False
      | CONTROL_SHOW \<Rightarrow> sp_ui sp \<noteq> cx_view c div 2
      | CONTROL_VIEW \<Rightarrow> sp_ui sp = cx_view c div 2
      | CONTROL_KEYFRAME \<Rightarrow> sp_shown sp = Some (cx_view c))"

text \<open>The end of a command: the page that is known to be shown, and the view just answered.\<close>

definition spec_end :: "control_completion_context \<Rightarrow> bool \<Rightarrow> session_spec \<Rightarrow> session_spec" where
  "spec_end c ok sp =
     sp\<lparr>sp_wait := None,
        sp_ui := (if cx_stage c = CONTROL_SHOW then if ok then cx_view c div 2 else -1 else sp_ui sp),
        sp_shown := (if ok \<and> cx_stage c = CONTROL_VIEW then Some (cx_view c) else None)\<rparr>"

fun spec_step :: "control_event \<Rightarrow> session_spec \<Rightarrow> session_spec option" where
  "spec_step (E_SENT c) sp =
     (if may_send c sp then Some (sp\<lparr>sp_wait := Some c, sp_shown := None\<rparr>) else None)"
| "spec_step (E_ACKED c status) sp = (if sp_wait sp = Some c then Some (spec_end c (status = 0) sp) else None)"
| "spec_step (E_EXPIRED c) sp = (if sp_wait sp = Some c then Some (spec_end c False sp) else None)"
| "spec_step (E_REFUSED c) sp = (if may_send c sp then Some (spec_end c False sp) else None)"
| "spec_step (E_STALE c) sp = Some sp"
| "spec_step (E_ZOOM r d) sp = Some sp"

fun spec_run :: "control_event list \<Rightarrow> session_spec \<Rightarrow> session_spec option" where
  "spec_run [] sp = Some sp"
| "spec_run (e # es) sp = Option.bind (spec_step e sp) (spec_run es)"

fun event_generation :: "control_event \<Rightarrow> u64 option" where
  "event_generation (E_SENT c) = Some (cx_generation c)"
| "event_generation (E_ACKED c st) = Some (cx_generation c)"
| "event_generation (E_EXPIRED c) = Some (cx_generation c)"
| "event_generation (E_REFUSED c) = Some (cx_generation c)"
| "event_generation (E_STALE c) = None"
| "event_generation (E_ZOOM r d) = None"

definition session_log :: "u64 \<Rightarrow> control_event list \<Rightarrow> control_event list" where
  "session_log gen es = filter (\<lambda>e. event_generation e = Some gen) es"

lemma spec_run_append: "spec_run (es @ fs) sp = Option.bind (spec_run es sp) (spec_run fs)"
  by (induction es arbitrary: sp) (auto split: Option.bind_splits)

lemma session_log_append [simp]: "session_log gen (es @ fs) = session_log gen es @ session_log gen fs"
  by (simp add: session_log_def)

lemma session_log_simps [simp]:
  "session_log gen [] = []"
  "session_log gen (e # es) = (if event_generation e = Some gen then e # session_log gen es else session_log gen es)"
  by (simp_all add: session_log_def)

section \<open>The command in the hands of the control worker\<close>

fun held :: "tick_pc \<Rightarrow> control_completion_context option" where
  "held T_IDLE = None"
| "held (T_ZOOM i gen zoom c) = c"
| "held (T_ZOOMED i gen c) = c"
| "held (T_CMD c) = Some c"
| "held (T_SENT c rc) = (if rc \<noteq> 0 then Some c else None)"
| "held (T_REFUSED c rc) = Some c"

lemma held_after_zoom [simp]: "held (after_zoom c) = c"
  by (simp add: after_zoom_def split: option.splits)

lemma held_command: "held pc = Some c \<Longrightarrow> c \<in> pc_commands pc"
  by (cases pc) (auto split: if_split_asm)

definition held_ok :: "alt_sys \<Rightarrow> bool" where
  "held_ok s \<longleftrightarrow> (\<forall>c. held (cs_pc s) = Some c \<longrightarrow> c \<notin> set (cs_open s) \<and>
     (\<forall>j < 4. as_active (slot (cs_g s) j) \<and> as_generation (slot (cs_g s) j) = cx_generation c \<longrightarrow>
        as_awaiting_ack (slot (cs_g s) j) \<and> slot_command (slot (cs_g s) j) = c))"

section \<open>The relation\<close>

definition matches :: "tick_pc \<Rightarrow> session_spec \<Rightarrow> altscreen_state \<Rightarrow> bool" where
  "matches pc sp x \<longleftrightarrow> sp_ui sp = as_last_ui_slot x \<and>
     sp_wait sp = (if as_awaiting_ack x \<and> held pc \<noteq> Some (slot_command x) then Some (slot_command x) else None) \<and>
     (\<not> as_awaiting_ack x \<and> as_stage x = CONTROL_KEYFRAME \<longrightarrow> sp_shown sp = Some (as_target_view x))"

definition session_ok :: "alt_sys \<Rightarrow> u64 \<Rightarrow> session_spec \<Rightarrow> bool" where
  "session_ok s gen sp \<longleftrightarrow>
     spec_run (session_log gen (cs_log s)) init_spec = Some sp \<and>
     (\<forall>j < 4. as_active (slot (cs_g s) j) \<and> as_generation (slot (cs_g s) j) = gen \<longrightarrow>
        matches (cs_pc s) sp (slot (cs_g s) j)) \<and>
     (\<forall>c. held (cs_pc s) = Some c \<and> cx_generation c = gen \<longrightarrow> may_send c sp) \<and>
     (ag_generation_serial (cs_g s) < gen \<longrightarrow> sp = init_spec)"

definition protocol_ok :: "alt_sys \<Rightarrow> bool" where
  "protocol_ok s \<longleftrightarrow> (\<forall>gen. \<exists>sp. session_ok s gen sp)"

lemma matches_control:
  "control_of y = control_of x \<Longrightarrow> slot_command y = slot_command x \<Longrightarrow> matches pc sp y = matches pc sp x"
  by (simp add: matches_def control_of_def)

lemma same_command_control:
  "control_of y = control_of x \<Longrightarrow> same_session x y \<Longrightarrow> slot_command y = slot_command x"
  by (simp add: control_of_def same_session_def slot_command_def)

section \<open>The tick\<close>

lemma filter_eq_single: "distinct ps \<Longrightarrow> filter (\<lambda>k. k = j) ps = (if j \<in> set ps then [j] else [])"
  by (induction ps) auto

lemma tick_new:
  assumes t: "v8s_control_tick active now (cs_g s) = (Some c, z, late, g')" and s: "table_ok s"
  obtains l where "l < 4" "eligible (slot (cs_g s) l)" "c = slot_command (slot g' l)"
    "as_awaiting_ack (slot g' l)" "cx_token c = ag_request_serial (cs_g s) + 1"
    "\<forall>j < 4. as_active (slot g' j) \<and> as_generation (slot g' j) = cx_generation c \<longrightarrow> j = l"
proof -
  let ?g = "cs_g s"
  have len: "length (ag_states ?g) = 4" using s by (rule table_len)
  obtain g1 ps where r: "tick_result active now ?g (Some c) late g1 ps" and ps: "set ps \<subseteq> {..<4}"
    and z: "zoom_result g1 z g'"
    by (rule control_tick_split [OF t len])
  obtain l where l: "l < 4" "eligible (slot ?g l)" "c = slot_command (slot g1 l)"
    "slot g1 l = control_dispatch (ag_request_serial ?g + 1) now (fst (tick_slot active now (slot ?g l)))"
    using tick_sender r ps by blast
  have same: "same_sessions ?g g'" by (rule same_sessions_tick [OF t len])
  have z': "slot_command (slot g' l) = slot_command (slot g1 l)" "as_awaiting_ack (slot g' l) = as_awaiting_ack (slot g1 l)"
    using z l(1) by (simp_all add: zoom_result_def slot_command_def)
  show thesis
  proof (rule that [OF l(1,2)])
    show "c = slot_command (slot g' l)" "as_awaiting_ack (slot g' l)" "cx_token c = ag_request_serial ?g + 1"
      unfolding z' l(3) l(4) by simp_all
    show "\<forall>j < 4. as_active (slot g' j) \<and> as_generation (slot g' j) = cx_generation c \<longrightarrow> j = l"
    proof (intro allI impI)
      fix j :: nat
      assume j: "j < 4" "as_active (slot g' j) \<and> as_generation (slot g' j) = cx_generation c"
      have "as_generation (slot g' l) = cx_generation c" using l(3) z'(1) by (simp add: slot_command_def)
      with j l(1,2) same len show "j = l"
        by (intro table_distinct [OF s]) (auto simp: same_sessions_def same_session_def eligible_def)
    qed
  qed
qed

lemma tick_no_sender:
  "tick_result active now g None late g1 ps \<Longrightarrow> ps = [0..<4] \<Longrightarrow> j < 4 \<Longrightarrow>
     slot g1 j = fst (tick_slot active now (slot g j)) \<and> j \<in> set ps"
  by (simp add: tick_result_def)

lemma tick_other:
  "tick_result active now g (Some x) late g1 ps \<Longrightarrow> j < 4 \<Longrightarrow> j \<noteq> last ps \<Longrightarrow>
     slot g1 j = (if j \<in> set ps then fst (tick_slot active now (slot g j)) else slot g j)"
  by (simp add: tick_result_def)

lemma late_of_session:
  assumes "tick_result active now (cs_g s) c late g1 ps" "distinct ps" "set ps \<subseteq> {..<4}" "table_ok s"
    "j < 4" "as_active (slot (cs_g s) j)"
  shows "session_log (as_generation (slot (cs_g s) j)) (map E_EXPIRED late) =
    (if j \<in> set ps \<and> eligible (slot (cs_g s) j) \<and> timed_out now (slot (cs_g s) j)
     then [E_EXPIRED (slot_command (slot (cs_g s) j))] else [])"
proof -
  let ?P = "\<lambda>k. eligible (slot (cs_g s) k) \<and> timed_out now (slot (cs_g s) k)"
  let ?G = "as_generation (slot (cs_g s) j)"
  have late: "late = map (\<lambda>j. slot_command (slot (cs_g s) j)) (filter ?P ps)"
    using assms(1) by (simp add: tick_result_def)
  have "session_log ?G (map E_EXPIRED late) =
      map (\<lambda>k. E_EXPIRED (slot_command (slot (cs_g s) k))) (filter (\<lambda>k. ?P k \<and> as_generation (slot (cs_g s) k) = ?G) ps)"
    unfolding late session_log_def by (simp add: filter_map comp_def conj_commute)
  also have "filter (\<lambda>k. ?P k \<and> as_generation (slot (cs_g s) k) = ?G) ps = filter (\<lambda>k. ?P j) (filter (\<lambda>k. k = j) ps)"
    unfolding filter_filter
  proof (rule filter_cong [OF refl])
    fix k assume "k \<in> set ps"
    then have "k < 4" using assms(3) by auto
    then show "(?P k \<and> as_generation (slot (cs_g s) k) = ?G) = (k = j \<and> ?P j)"
      using table_distinct [OF assms(4) _ assms(5) _ assms(6)] by (auto simp: eligible_def)
  qed
  finally show ?thesis by (simp add: filter_eq_single [OF assms(2)])
qed

lemma late_of_nobody:
  assumes "tick_result active now (cs_g s) c late g1 ps" "set ps \<subseteq> {..<4}"
    "\<And>j. j < 4 \<Longrightarrow> as_active (slot (cs_g s) j) \<Longrightarrow> as_generation (slot (cs_g s) j) \<noteq> gen"
  shows "session_log gen (map E_EXPIRED late) = []"
proof -
  have "as_generation (slot (cs_g s) k) \<noteq> gen" if "k \<in> set ps" "eligible (slot (cs_g s) k)" for k
    using assms(2) that by (intro assms(3)) (auto simp: eligible_def)
  with assms(1) show ?thesis by (auto simp: tick_result_def session_log_def filter_empty_conv)
qed

text \<open>The automaton after the tick has looked at a slot.\<close>

definition spec_after :: "u64 \<Rightarrow> altscreen_state \<Rightarrow> session_spec \<Rightarrow> session_spec" where
  "spec_after now x sp = (if eligible x \<and> timed_out now x then spec_end (slot_command x) False sp else sp)"

lemma matches_idle: "held pc = None \<Longrightarrow> matches pc sp x = matches T_IDLE sp x"
  by (simp add: matches_def)

lemma spec_after_expire:
  assumes "matches T_IDLE sp x" "eligible x"
  shows "matches T_IDLE (spec_after now x sp) (control_expire now x)"
    and "\<not> as_awaiting_ack (control_expire now x) \<Longrightarrow> sp_wait (spec_after now x sp) = None"
  using assms by (cases "timed_out now x"; simp add: matches_def spec_after_def control_expire_def spec_end_def)+

lemma spec_after_tick:
  assumes "matches T_IDLE sp x" "slot_typed x"
  shows "matches T_IDLE (spec_after now x sp) (fst (tick_slot active now x))"
    and "snd (tick_slot active now x) \<Longrightarrow> cx_stage c = as_stage (fst (tick_slot active now x)) \<Longrightarrow>
      cx_view c = as_target_view (fst (tick_slot active now x)) \<Longrightarrow> may_send c (spec_after now x sp)"
proof -
  let ?e = "control_expire now x" and ?sp = "spec_after now x sp" and ?y = "fst (tick_slot active now x)"
  show m: "matches T_IDLE ?sp ?y"
  proof (cases "eligible x")
    case True
    note e = spec_after_expire [OF assms(1) True, of now]
    have "matches T_IDLE ?sp (control_take ?e)" if "\<not> as_awaiting_ack ?e"
      using e that by (simp add: matches_def)
    with e(1) True show ?thesis by (simp add: tick_slot_def Let_def)
  next
    case False
    with assms(1) show ?thesis by (simp add: tick_slot_def spec_after_def)
  qed
  assume go: "snd (tick_slot active now x)" and c: "cx_stage c = as_stage ?y" "cx_view c = as_target_view ?y"
  have y: "as_stage ?y \<noteq> CONTROL_IDLE" "\<not> as_awaiting_ack ?y" using tick_slot_go [OF go] by auto
  have "slot_typed ?y" using assms(2) by (rule typed_tick)
  with m y c show "may_send c ?sp"
    by (cases "as_stage ?y") (auto simp: may_send_def matches_def slot_typed_def)
qed

lemma spec_after_step:
  assumes "matches T_IDLE sp x"
  shows "spec_run (if eligible x \<and> timed_out now x then [E_EXPIRED (slot_command x)] else []) sp = Some (spec_after now x sp)"
  using assms by (auto simp: spec_after_def matches_def timed_out_def)

lemma matches_inflight [simp]: "matches pc sp (x\<lparr>as_inflight := n\<rparr>) = matches pc sp x"
  by (simp add: matches_def slot_command_def)

lemma tick_protocol:
  assumes "protocol_ok s" "table_ok s" "serials_fit s" "globals_typed (cs_g s)" "cs_pc s = T_IDLE"
    and t: "v8s_control_tick active now (cs_g s) = (c, z, late, g')"
    and s': "cs_g s' = g'" "cs_log s' = cs_log s @ map E_EXPIRED late" "held (cs_pc s') = c"
  shows "protocol_ok s'"
  unfolding protocol_ok_def
proof
  fix gen
  let ?g = "cs_g s"
  have len: "length (ag_states ?g) = 4" using assms(2) by (rule table_len)
  obtain g1 ps where r: "tick_result active now ?g c late g1 ps" and ps: "set ps \<subseteq> {..<4}" "distinct ps" "c = None \<longrightarrow> ps = [0..<4]"
    and z: "zoom_result g1 z g'"
    by (rule control_tick_split [OF t len])
  have same: "same_sessions ?g g'" by (rule same_sessions_tick [OF t len])
  have gens: "as_generation (slot g' j) = as_generation (slot ?g j)" "as_active (slot g' j) = as_active (slot ?g j)"
    if "j < 4" for j using same len that by (auto simp: same_sessions_def same_session_def)
  have z': "matches pc sp (slot g' j) = matches pc sp (slot g1 j)" "slot_command (slot g' j) = slot_command (slot g1 j)"
    if "j < 4" for pc sp j using z that by (simp_all add: zoom_result_def slot_command_def)
  obtain sp where sp: "session_ok s gen sp" using assms(1) by (auto simp: protocol_ok_def)
  then have run: "spec_run (session_log gen (cs_log s)) init_spec = Some sp" by (simp add: session_ok_def)
  have serial: "ag_generation_serial g' = ag_generation_serial ?g" using same by (simp add: same_sessions_def)
  show "\<exists>sp. session_ok s' gen sp"
  proof (cases "\<exists>j < 4. as_active (slot ?g j) \<and> as_generation (slot ?g j) = gen")
    case False
    then have no: "\<And>j. j < 4 \<Longrightarrow> as_active (slot ?g j) \<Longrightarrow> as_generation (slot ?g j) \<noteq> gen" by blast
    have log: "session_log gen (cs_log s') = session_log gen (cs_log s)"
      using late_of_nobody [OF r ps(1) no] s'(2) by simp
    have "cx_generation x \<noteq> gen" if cx: "c = Some x" for x
    proof -
      obtain l where l: "l < 4" "eligible (slot ?g l)" "x = slot_command (slot g' l)"
        by (rule tick_new [OF t [unfolded cx] assms(2)])
      have "cx_generation x = as_generation (slot ?g l)" unfolding l(3) using gens(1) [OF l(1)] by simp
      with no [OF l(1)] l(2) show ?thesis by (auto simp: eligible_def)
    qed
    moreover have "\<not> (\<exists>j < 4. as_active (slot g' j) \<and> as_generation (slot g' j) = gen)" using no gens by auto
    ultimately have "session_ok s' gen sp"
      using sp run log serial unfolding session_ok_def s'(1,3) by metis
    then show ?thesis by blast
  next
    case True
    then obtain j where j: "j < 4" "as_active (slot ?g j)" "as_generation (slot ?g j) = gen" by blast
    let ?x = "slot ?g j"
    have m: "matches T_IDLE sp ?x" using sp j assms(5) by (simp add: session_ok_def)
    have typed: "slot_typed ?x" using assms(4) j(1) by (simp add: globals_typed_def)
    define sp1 where "sp1 = (if j \<in> set ps then spec_after now ?x sp else sp)"
    have "spec_run (session_log gen (map E_EXPIRED late)) sp = Some sp1"
      using late_of_session [OF r ps(2,1) assms(2) j(1,2)] spec_after_step [OF m, of now] j(3)
      by (auto simp: sp1_def)
    then have run': "spec_run (session_log gen (cs_log s')) init_spec = Some sp1"
      using run by (simp add: s'(2) spec_run_append)
    have only: "k = j" if "k < 4" "as_active (slot g' k)" "as_generation (slot g' k) = gen" for k
      using table_distinct [OF assms(2) that(1) j(1)] that j gens by auto
    have le: "\<not> ag_generation_serial ?g < gen" using table_gen [OF assms(2) j(1,2)] j(3) by auto
    have mine: "matches (cs_pc s') sp1 (slot g1 j) \<and> (\<forall>x. c = Some x \<and> cx_generation x = gen \<longrightarrow> may_send x sp1)"
    proof (cases c)
      case None
      have "slot g1 j = fst (tick_slot active now ?x)" "j \<in> set ps"
        using tick_no_sender [OF r [unfolded None] _ j(1)] ps(3) None by blast+
      moreover have "held (cs_pc s') = None" using s'(3) None by simp
      ultimately show ?thesis
        using spec_after_tick(1) [OF m typed, of now active] None by (simp add: sp1_def matches_idle [of "cs_pc s'"])
    next
      case (Some x)
      obtain l where l': "l = last ps" and l: "l \<in> set ps" "l < 4" "snd (tick_slot active now (slot ?g l))" "eligible (slot ?g l)"
        "slot g1 l = control_dispatch (ag_request_serial ?g + 1) now (fst (tick_slot active now (slot ?g l)))"
        "x = slot_command (slot g1 l)"
        by (rule tick_sender [OF r [unfolded Some] ps(1)]) (rule that; assumption)
      have xg: "cx_generation x = as_generation (slot ?g l)" unfolding l(6) slot_command_sel l(5) by simp
      have same_slot: "cx_generation x = gen \<longleftrightarrow> j = l"
      proof
        assume "cx_generation x = gen"
        then show "j = l"
          using table_distinct [OF assms(2) j(1) l(2) j(2)] l(4) j(3) xg unfolding eligible_def by metis
      next
        assume "j = l" then show "cx_generation x = gen" using xg j(3) by metis
      qed
      show ?thesis
      proof (cases "j = l")
        case True
        note a = spec_after_tick [OF m typed, where now = now and active = active]
        have sp1: "sp1 = spec_after now ?x sp" using True l(1) by (simp add: sp1_def)
        have g1j: "slot g1 j = control_dispatch (ag_request_serial ?g + 1) now (fst (tick_slot active now ?x))"
          using True l(5) by simp
        have go: "\<not> as_awaiting_ack (fst (tick_slot active now ?x))" using tick_slot_go l(3) True by blast
        have "held (cs_pc s') = Some (slot_command (slot g1 j))" using l(6) True s'(3) Some by simp
        then have "matches (cs_pc s') sp1 (slot g1 j)"
          using a(1) go unfolding sp1 matches_def g1j by simp
        moreover have "may_send x sp1"
          unfolding sp1 by (rule a(2)) (use True l(3) in \<open>simp_all add: l(6) g1j [unfolded True]\<close>)
        ultimately show ?thesis using Some by auto
      next
        case False
        have "slot_command (slot g1 j) \<noteq> x"
        proof
          assume "slot_command (slot g1 j) = x"
          then have "cx_generation x = as_generation (slot g1 j)" by auto
          also have "\<dots> = gen"
            using arg_cong [OF z'(2) [OF j(1)], of cx_generation] gens(1) [OF j(1)] j(3) by simp
          finally show False using same_slot False by simp
        qed
        moreover have "slot g1 j = (if j \<in> set ps then fst (tick_slot active now ?x) else ?x)"
          by (rule tick_other [OF r [unfolded Some] j(1)]) (use False l' in simp)
        then have "matches T_IDLE sp1 (slot g1 j)"
          using spec_after_tick(1) [OF m typed, of now active] m by (simp add: sp1_def)
        ultimately have "matches (cs_pc s') sp1 (slot g1 j)" using s'(3) Some by (auto simp: matches_def)
        with same_slot False Some show ?thesis by simp
      qed
    qed
    have "session_ok s' gen sp1"
      unfolding session_ok_def
    proof (intro conjI allI impI)
      show "spec_run (session_log gen (cs_log s')) init_spec = Some sp1" by (rule run')
    next
      fix k :: nat
      assume "k < 4" "as_active (slot (cs_g s') k) \<and> as_generation (slot (cs_g s') k) = gen"
      then have "k = j" using only s'(1) by blast
      then show "matches (cs_pc s') sp1 (slot (cs_g s') k)" using mine z'(1) [OF j(1)] s'(1) by simp
    next
      fix x assume "held (cs_pc s') = Some x \<and> cx_generation x = gen"
      then show "may_send x sp1" using mine s'(3) by simp
    next
      assume "ag_generation_serial (cs_g s') < gen"
      then show "sp1 = init_spec" using le serial s'(1) by simp
    qed
    then show ?thesis by blast
  qed
qed

section \<open>Every action\<close>

lemma act_held:
  assumes "perform a s = Some s'" "serials_fit s" "table_ok s" "indices_ok s" "commands_ok s" "held_ok s"
  shows "held_ok s'"
  unfolding held_ok_def
proof (intro allI impI)
  fix c assume h: "held (cs_pc s') = Some c"
  let ?G = "\<lambda>g. \<forall>j < 4. as_active (slot g j) \<and> as_generation (slot g j) = cx_generation c \<longrightarrow>
        as_awaiting_ack (slot g j) \<and> slot_command (slot g j) = c"
  have len: "length (ag_states (cs_g s)) = 4" using assms(3) by (rule table_len)
  have old: "held (cs_pc s) = Some c \<Longrightarrow> c \<notin> set (cs_open s) \<and> ?G (cs_g s) \<and> cx_generation c \<le> ag_generation_serial (cs_g s)"
    using assms(5,6) held_command by (fastforce simp: held_ok_def commands_ok_def commands_def command_ok_def)
  have keep: "c \<notin> set (cs_open s') \<and> ?G (cs_g s')"
    if p: "held (cs_pc s) = Some c" "set (cs_open s') \<subseteq> set (cs_open s)"
    and same: "\<And>j. j < 4 \<Longrightarrow> as_generation (slot (cs_g s') j) \<le> ag_generation_serial (cs_g s) \<Longrightarrow>
      as_active (slot (cs_g s') j) \<Longrightarrow> slot_command (slot (cs_g s) j) = c \<Longrightarrow>
      as_awaiting_ack (slot (cs_g s') j) = as_awaiting_ack (slot (cs_g s) j) \<and>
      slot_command (slot (cs_g s') j) = slot_command (slot (cs_g s) j)"
  proof (intro conjI allI impI)
    show "c \<notin> set (cs_open s')" using old [OF p(1)] p(2) by blast
    fix j :: nat
    assume j: "j < 4" "as_active (slot (cs_g s') j) \<and> as_generation (slot (cs_g s') j) = cx_generation c"
    have le: "as_generation (slot (cs_g s') j) \<le> ag_generation_serial (cs_g s)" using j old [OF p(1)] by simp
    then have "\<not> ag_generation_serial (cs_g s) < as_generation (slot (cs_g s') j)" by simp
    then have o: "as_active (slot (cs_g s) j)" "as_generation (slot (cs_g s) j) = cx_generation c"
      using act_later [OF assms(1-4)] j unfolding later_def by metis+
    then have "as_awaiting_ack (slot (cs_g s) j)" "slot_command (slot (cs_g s) j) = c" using old [OF p(1)] j(1) by blast+
    with same [OF j(1) le _ this(2)] j
    show "as_awaiting_ack (slot (cs_g s') j)" "slot_command (slot (cs_g s') j) = c" by auto
  qed
  show "c \<notin> set (cs_open s') \<and> ?G (cs_g s')"
  proof (cases "quiet_act a")
    case True
    note q = act_quiet [OF assms(1,3,4) True]
    have ss: "same_sessions (cs_g s) (cs_g s')" by (rule act_sessions [OF assms(1,3,4)]) (use True in auto)
    show ?thesis
    proof (rule keep)
      show "held (cs_pc s) = Some c" "set (cs_open s') \<subseteq> set (cs_open s)" using h q(2,3) by simp_all
      fix j :: nat assume j: "j < 4"
      have c: "control_of (slot (cs_g s') j) = control_of (slot (cs_g s) j)" using q(1) j by (simp add: same_control_def)
      have "same_session (slot (cs_g s) j) (slot (cs_g s') j)" using ss j len by (simp add: same_sessions_def)
      with c same_command_control [OF c]
      show "as_awaiting_ack (slot (cs_g s') j) = as_awaiting_ack (slot (cs_g s) j) \<and>
          slot_command (slot (cs_g s') j) = slot_command (slot (cs_g s) j)" by (simp add: control_of_def)
    qed
  next
    case False
    show ?thesis
    proof (cases a)
      case (A_ALLOC r)
      then have s': "cs_pc s' = cs_pc s" "cs_open s' = cs_open s" "cs_g s' = snd (alloc_state_locked r (cs_g s))"
        using assms(1) by auto
      obtain x g' where al: "alloc_state_locked r (cs_g s) = (x, g')" by (metis prod.exhaust)
      have n: "\<not> ag_generation_serial (cs_g s) + 1 \<le> ag_generation_serial (cs_g s)"
        using assms(2) less_plus_one unfolding serials_fit_def by (metis not_less)
      have "slot g' j = slot (cs_g s) j \<or> as_generation (slot g' j) = ag_generation_serial (cs_g s) + 1" if "j < 4" for j
        using alloc_cases [OF al len] that len by auto
      with n h show ?thesis by (intro keep; simp add: s' al) metis
    next
      case (A_CLEAR i)
      then have s': "cs_pc s' = cs_pc s" "cs_open s' = cs_open s" "cs_g s' = clear_session i (cs_g s)" "i < 4"
        using assms(1) by (auto split: if_split_asm)
      show ?thesis by (rule keep) (use h s' len in \<open>auto simp: clear_session_def split: if_split_asm\<close>)
    next
      case (A_TICK active now)
      obtain c' z late g' where t: "v8s_control_tick active now (cs_g s) = (c', z, late, g')" by (metis prod_cases4)
      then have s': "held (cs_pc s') = c'" "cs_open s' = cs_open s" "cs_g s' = g'"
        using A_TICK assms(1) by (auto split: if_split_asm option.splits)
      obtain l where l: "l < 4" "eligible (slot (cs_g s) l)" "c = slot_command (slot g' l)"
        "as_awaiting_ack (slot g' l)" "cx_token c = ag_request_serial (cs_g s) + 1"
        "\<forall>j < 4. as_active (slot g' j) \<and> as_generation (slot g' j) = cx_generation c \<longrightarrow> j = l"
        by (rule tick_new [OF t [unfolded s'(1) [symmetric] h] assms(3)])
      have "c \<notin> set (cs_open s)"
      proof
        assume "c \<in> set (cs_open s)"
        then have "cx_token c \<le> ag_request_serial (cs_g s)"
          using assms(5) by (auto simp: commands_ok_def commands_def command_ok_def)
        with l(5) assms(2) less_plus_one show False unfolding serials_fit_def by (metis not_less)
      qed
      moreover have "?G g'" using l(3,4,6) by metis
      ultimately show ?thesis unfolding s'(2,3) by (rule conjI)
    next
      case A_ZOOM
      with assms(1) h show ?thesis by (intro keep) (auto split: tick_pc.split_asm)
    next
      case A_ZOOMED
      then obtain i gen x where p: "cs_pc s = T_ZOOMED i gen x"
        and s': "cs_g s' = zoom_sent i (cs_g s)" "cs_pc s' = after_zoom x" "cs_open s' = cs_open s"
        using assms(1) by (auto split: tick_pc.split_asm)
      have "i < 4" using assms(4) p by (simp add: indices_ok_def)
      then have "as_awaiting_ack (slot (cs_g s') j) = as_awaiting_ack (slot (cs_g s) j) \<and>
          slot_command (slot (cs_g s') j) = slot_command (slot (cs_g s) j)" for j
        using len by (auto simp: s'(1) zoom_sent_def slot_command_def)
      moreover have "held (cs_pc s) = Some c" using h p s'(2) by simp
      ultimately show ?thesis by (intro keep) (simp_all add: s'(3))
    next
      case (A_SEND b rc)
      with assms(1) h show ?thesis by (intro keep) (auto split: tick_pc.split_asm if_split_asm)
    next
      case A_SENT
      then obtain x rc where p: "cs_pc s = T_SENT x rc" and s': "cs_g s' = control_sent x (cs_g s)"
          "cs_pc s' = (if rc \<noteq> 0 then T_REFUSED x rc else T_IDLE)" "cs_open s' = cs_open s"
        using assms(1) by (auto split: tick_pc.split_asm)
      have "as_awaiting_ack (slot (cs_g s') j) = as_awaiting_ack (slot (cs_g s) j) \<and>
          slot_command (slot (cs_g s') j) = slot_command (slot (cs_g s) j)" for j
        using len by (auto simp: s'(1) control_sent_def slot_command_def split: option.splits if_split_asm dest!: find_receiver_SomeD)
      moreover have "held (cs_pc s) = Some c" using h s'(2) p by (auto split: if_split_asm)
      ultimately show ?thesis by (intro keep) (simp_all add: s'(3))
    next
      case A_REFUSED
      with assms(1) h show ?thesis by (auto simp: Let_def case_prod_beta split: tick_pc.split_asm)
    next
      case (A_COMPLETE n st)
      let ?x = "cs_open s ! n"
      have s': "n < length (cs_open s)" "cs_g s' = snd (v8s_control_completion st ?x (cs_g s))" "cs_pc s' = cs_pc s"
        "cs_open s' = remove_nth n (cs_open s)"
        using A_COMPLETE assms(1) by (auto simp: Let_def case_prod_beta split: if_split_asm)
      have x: "?x \<in> set (cs_open s)" using s'(1) by simp
      have p: "held (cs_pc s) = Some c" using h s'(3) by simp
      then have ne: "?x \<noteq> c" using old x by metis
      have "slot (cs_g s') j = slot (cs_g s) j" if "j < 4" "slot_command (slot (cs_g s) j) = c" for j
      proof -
        have "\<not> (awaits ?x (slot (cs_g s) j) \<and> as_active (slot (cs_g s) j))"
          using accepted_is_current [OF assms(5) _ that(1), of ?x] x ne that(2) by (auto simp: commands_def)
        then show ?thesis unfolding s'(2) using len
          by (auto simp: v8s_control_completion_def split: option.splits dest!: find_receiver_SomeD)
      qed
      then show ?thesis by (intro keep [OF p]) (simp_all add: s'(4) set_remove_nth)
    qed (use False in auto)
  qed
qed

lemma reach_held: "alt_reach s \<Longrightarrow> held_ok s"
proof (induction rule: alt_reach.induct)
  case alt_init
  show ?case by (simp add: held_ok_def init_sys_def)
next
  case (alt_step s a s')
  then show ?case using reach_table reach_commands by (blast intro: act_held)
qed

text \<open>An action that neither logs nor changes what a slot waits for keeps the relation.\<close>

lemma matches_held: "held pc' = held pc \<Longrightarrow> matches pc' sp x = matches pc sp x"
  by (simp add: matches_def)

lemma matches_not_held:
  "held pc = Some c \<Longrightarrow> held pc' = None \<Longrightarrow> slot_command x \<noteq> c \<Longrightarrow> matches pc' sp x = matches pc sp x"
  by (auto simp: matches_def)

lemma protocol_kept:
  assumes "protocol_ok s" "\<And>gen. session_log gen (cs_log s') = session_log gen (cs_log s)"
    "\<And>c. held (cs_pc s') = Some c \<Longrightarrow> held (cs_pc s) = Some c"
    "ag_generation_serial (cs_g s) \<le> ag_generation_serial (cs_g s')"
    and slots: "\<And>j sp. j < 4 \<Longrightarrow> as_active (slot (cs_g s') j) \<Longrightarrow>
      as_active (slot (cs_g s) j) \<and> as_generation (slot (cs_g s') j) = as_generation (slot (cs_g s) j) \<and>
      matches (cs_pc s') sp (slot (cs_g s') j) = matches (cs_pc s) sp (slot (cs_g s) j)"
  shows "protocol_ok s'"
  unfolding protocol_ok_def
proof
  fix gen
  obtain sp where sp: "session_ok s gen sp" using assms(1) by (auto simp: protocol_ok_def)
  have "session_ok s' gen sp"
    unfolding session_ok_def
  proof (intro conjI allI impI)
    show "spec_run (session_log gen (cs_log s')) init_spec = Some sp"
      using sp assms(2) by (simp add: session_ok_def)
    show "held (cs_pc s') = Some c \<and> cx_generation c = gen \<Longrightarrow> may_send c sp" for c
      using sp assms(3) by (simp add: session_ok_def)
    show "ag_generation_serial (cs_g s') < gen \<Longrightarrow> sp = init_spec"
      using sp le_less_trans [OF assms(4)] by (simp add: session_ok_def)
    fix j :: nat
    assume j: "j < 4" "as_active (slot (cs_g s') j) \<and> as_generation (slot (cs_g s') j) = gen"
    note o = slots [OF j(1) conjunct1 [OF j(2)]]
    have "matches (cs_pc s) sp (slot (cs_g s) j)" using sp j o by (simp add: session_ok_def)
    with o show "matches (cs_pc s') sp (slot (cs_g s') j)" by simp
  qed
  then show "\<exists>sp. session_ok s' gen sp" by blast
qed

lemma act_quiet_protocol:
  assumes "perform a s = Some s'" "table_ok s" "indices_ok s" "quiet_act a" "protocol_ok s"
  shows "protocol_ok s'"
proof (rule protocol_kept [OF assms(5)])
  note q = act_quiet [OF assms(1-4)]
  have len: "length (ag_states (cs_g s)) = 4" using assms(2) by (rule table_len)
  have ss: "same_sessions (cs_g s) (cs_g s')" by (rule act_sessions [OF assms(1-3)]) (use assms(4) in auto)
  show "session_log gen (cs_log s') = session_log gen (cs_log s)" for gen using q by simp
  show "held (cs_pc s') = Some c \<Longrightarrow> held (cs_pc s) = Some c" for c using q by simp
  show "ag_generation_serial (cs_g s) \<le> ag_generation_serial (cs_g s')" using ss by (simp add: same_sessions_def)
  fix j :: nat and sp
  assume j: "j < 4" "as_active (slot (cs_g s') j)"
  have c: "control_of (slot (cs_g s') j) = control_of (slot (cs_g s) j)" using q(1) j by (simp add: same_control_def)
  have sj: "same_session (slot (cs_g s) j) (slot (cs_g s') j)" using ss j len by (simp add: same_sessions_def)
  show "as_active (slot (cs_g s) j) \<and> as_generation (slot (cs_g s') j) = as_generation (slot (cs_g s) j) \<and>
      matches (cs_pc s') sp (slot (cs_g s') j) = matches (cs_pc s) sp (slot (cs_g s) j)"
    using sj j q(2) matches_control [OF c same_command_control [OF c sj]] by (auto simp: same_session_def)
qed

lemma alloc_protocol:
  assumes "protocol_ok s" "table_ok s" "serials_fit s" "commands_ok s"
    "cs_g s' = snd (alloc_state_locked r (cs_g s))" "cs_pc s' = cs_pc s" "cs_log s' = cs_log s"
  shows "protocol_ok s'"
proof -
  obtain x g' where a: "alloc_state_locked r (cs_g s) = (x, g')" by (metis prod.exhaust)
  let ?n = "ag_generation_serial (cs_g s) + 1"
  have n: "ag_generation_serial (cs_g s) < ?n" using assms(3) by (simp add: serials_fit_def less_plus_one)
  from alloc_cases [OF a table_len(1) [OF assms(2)]] show ?thesis
  proof (elim disjE exE conjE)
    assume "x = None" "g' = cs_g s"
    then show ?thesis using assms(1,5-7) a by (simp add: protocol_ok_def session_ok_def)
  next
    fix i assume i: "i < 4" "\<not> as_active (slot (cs_g s) i)"
      and g': "g' = on_slot i (\<lambda>_. new_slot r ?n) ((cs_g s)\<lparr>ag_generation_serial := ?n\<rparr>)"
    have slots: "slot g' j = (if j = i then new_slot r ?n else slot (cs_g s) j)" for j
      using i table_len(1) [OF assms(2)] by (simp add: g')
    have serial: "ag_generation_serial g' = ?n" by (simp add: g')
    have g: "cs_g s' = g'" using a assms(5) by simp
    show ?thesis unfolding protocol_ok_def
    proof
      fix gen
      obtain sp where sp: "session_ok s gen sp" using assms(1) by (auto simp: protocol_ok_def)
      have "session_ok s' gen sp"
        unfolding session_ok_def
      proof (intro conjI allI impI)
        show "spec_run (session_log gen (cs_log s')) init_spec = Some sp"
          using sp assms(7) by (simp add: session_ok_def)
        show "held (cs_pc s') = Some c \<and> cx_generation c = gen \<Longrightarrow> may_send c sp" for c
          using sp assms(6) by (simp add: session_ok_def)
        show "ag_generation_serial (cs_g s') < gen \<Longrightarrow> sp = init_spec"
          using sp n g serial by (simp add: session_ok_def)
        fix j :: nat
        assume j: "j < 4" "as_active (slot (cs_g s') j) \<and> as_generation (slot (cs_g s') j) = gen"
        show "matches (cs_pc s') sp (slot (cs_g s') j)"
        proof (cases "j = i")
          case True
          then have "gen = ?n" using j slots g by simp
          then have "sp = init_spec" using sp n by (simp add: session_ok_def)
          with True show ?thesis by (simp add: g slots matches_def init_spec_def)
        next
          case False
          with j sp assms(6) show ?thesis by (simp add: g slots session_ok_def)
        qed
      qed
      then show "\<exists>sp. session_ok s' gen sp" by blast
    qed
  qed
qed

text \<open>One event of one session, with the slot of the session changed to fit.\<close>

lemma protocol_event:
  assumes "protocol_ok s" "cs_log s' = cs_log s @ [e]" "event_generation e = Some gen"
    and serial: "ag_generation_serial (cs_g s') = ag_generation_serial (cs_g s)" "gen \<le> ag_generation_serial (cs_g s)"
    and held: "\<And>c. held (cs_pc s') = Some c \<Longrightarrow> held (cs_pc s) = Some c \<and> cx_generation c \<noteq> gen"
    and others: "\<And>j sp. j < 4 \<Longrightarrow> as_active (slot (cs_g s') j) \<Longrightarrow> as_generation (slot (cs_g s') j) \<noteq> gen \<Longrightarrow>
      as_active (slot (cs_g s) j) \<and> as_generation (slot (cs_g s) j) = as_generation (slot (cs_g s') j) \<and>
      matches (cs_pc s') sp (slot (cs_g s') j) = matches (cs_pc s) sp (slot (cs_g s) j)"
    and mine: "\<And>sp. session_ok s gen sp \<Longrightarrow> \<exists>sp'. spec_step e sp = Some sp' \<and>
      (\<forall>j < 4. as_active (slot (cs_g s') j) \<and> as_generation (slot (cs_g s') j) = gen \<longrightarrow>
         matches (cs_pc s') sp' (slot (cs_g s') j))"
  shows "protocol_ok s'"
  unfolding protocol_ok_def
proof
  fix G
  obtain sp where sp: "session_ok s G sp" using assms(1) by (auto simp: protocol_ok_def)
  show "\<exists>sp. session_ok s' G sp"
  proof (cases "G = gen")
    case False
    have "session_ok s' G sp"
      unfolding session_ok_def
    proof (intro conjI allI impI)
      show "spec_run (session_log G (cs_log s')) init_spec = Some sp"
        using sp False assms(2,3) by (simp add: session_ok_def)
      show "held (cs_pc s') = Some c \<and> cx_generation c = G \<Longrightarrow> may_send c sp" for c
        using sp held by (auto simp: session_ok_def)
      show "ag_generation_serial (cs_g s') < G \<Longrightarrow> sp = init_spec" using sp serial by (simp add: session_ok_def)
      fix j :: nat
      assume j: "j < 4" "as_active (slot (cs_g s') j) \<and> as_generation (slot (cs_g s') j) = G"
      then have "as_generation (slot (cs_g s') j) \<noteq> gen" using False by simp
      note o = others [OF j(1) conjunct1 [OF j(2)] this]
      have "matches (cs_pc s) sp (slot (cs_g s) j)" using sp j o by (simp add: session_ok_def)
      with o show "matches (cs_pc s') sp (slot (cs_g s') j)" by blast
    qed
    then show ?thesis by blast
  next
    case True
    obtain sp' where sp': "spec_step e sp = Some sp'"
      "\<forall>j < 4. as_active (slot (cs_g s') j) \<and> as_generation (slot (cs_g s') j) = gen \<longrightarrow>
         matches (cs_pc s') sp' (slot (cs_g s') j)"
      using mine sp unfolding True by blast
    have "session_ok s' G sp'"
      unfolding session_ok_def
    proof (intro conjI allI impI)
      show "spec_run (session_log G (cs_log s')) init_spec = Some sp'"
        using sp sp'(1) True assms(2,3) by (simp add: session_ok_def spec_run_append)
      show "held (cs_pc s') = Some c \<and> cx_generation c = G \<Longrightarrow> may_send c sp'" for c
        using held True by auto
      show "ag_generation_serial (cs_g s') < G \<Longrightarrow> sp' = init_spec" using serial True by simp
    qed (use sp'(2) True in blast)
    then show ?thesis by blast
  qed
qed

lemma send_protocol:
  assumes "protocol_ok s" "held_ok s" "commands_ok s" "cs_pc s = T_CMD c"
    "cs_g s' = cs_g s" "held (cs_pc s') = None" "cs_log s' = cs_log s @ [E_SENT c]"
  shows "protocol_ok s'"
proof (rule protocol_event [OF assms(1,7), of "cx_generation c"])
  have c: "held (cs_pc s) = Some c" using assms(4) by simp
  show "event_generation (E_SENT c) = Some (cx_generation c)" by simp
  show "ag_generation_serial (cs_g s') = ag_generation_serial (cs_g s)" using assms(5) by simp
  show "cx_generation c \<le> ag_generation_serial (cs_g s)"
    using assms(3,4) by (simp add: commands_ok_def commands_def command_ok_def)
  show "held (cs_pc s') = Some x \<Longrightarrow> held (cs_pc s) = Some x \<and> cx_generation x \<noteq> cx_generation c" for x
    using assms(6) by simp
  show "as_active (slot (cs_g s) j) \<and> as_generation (slot (cs_g s) j) = as_generation (slot (cs_g s') j) \<and>
      matches (cs_pc s') sp (slot (cs_g s') j) = matches (cs_pc s) sp (slot (cs_g s) j)"
    if "j < 4" "as_active (slot (cs_g s') j)" "as_generation (slot (cs_g s') j) \<noteq> cx_generation c" for j sp
  proof -
    have "slot_command (slot (cs_g s) j) \<noteq> c" using that(3) assms(5) by auto
    with that assms(5) matches_not_held [OF c assms(6), of "slot (cs_g s) j" sp] show ?thesis by simp
  qed
  fix sp assume sp: "session_ok s (cx_generation c) sp"
  have m: "may_send c sp" using sp c by (simp add: session_ok_def)
  have "matches (cs_pc s') (sp\<lparr>sp_wait := Some c, sp_shown := None\<rparr>) (slot (cs_g s') j)"
    if "j < 4" "as_active (slot (cs_g s') j)" "as_generation (slot (cs_g s') j) = cx_generation c" for j
  proof -
    have "as_awaiting_ack (slot (cs_g s) j)" "slot_command (slot (cs_g s) j) = c"
      using assms(2,5) that c unfolding held_ok_def by metis+
    moreover have "matches (cs_pc s) sp (slot (cs_g s) j)" using sp that assms(5) by (simp add: session_ok_def)
    ultimately show ?thesis using assms(5,6) by (simp add: matches_def)
  qed
  with m show "\<exists>sp'. spec_step (E_SENT c) sp = Some sp' \<and>
      (\<forall>j < 4. as_active (slot (cs_g s') j) \<and> as_generation (slot (cs_g s') j) = cx_generation c \<longrightarrow>
         matches (cs_pc s') sp' (slot (cs_g s') j))" by simp
qed

text \<open>The end of a command of the slot i: an answer, or a refusal by the transport.\<close>

lemma end_protocol:
  assumes "protocol_ok s" "table_ok s" "i < 4" "as_active (slot (cs_g s) i)" "cx_generation c = as_generation (slot (cs_g s) i)"
    and s': "cs_g s' = on_slot i f (cs_g s)" "cs_log s' = cs_log s @ [e]" "event_generation e = Some (cx_generation c)"
    and f: "as_active (f (slot (cs_g s) i))" "as_generation (f (slot (cs_g s) i)) = as_generation (slot (cs_g s) i)"
    and held: "\<And>x. held (cs_pc s') = Some x \<Longrightarrow> held (cs_pc s) = Some x \<and> cx_generation x \<noteq> cx_generation c"
    and others: "\<And>x sp. as_generation x \<noteq> cx_generation c \<Longrightarrow> matches (cs_pc s') sp x = matches (cs_pc s) sp x"
    and mine: "\<And>sp. session_ok s (cx_generation c) sp \<Longrightarrow> \<exists>sp'. spec_step e sp = Some sp' \<and>
         matches (cs_pc s') sp' (f (slot (cs_g s) i))"
  shows "protocol_ok s'"
proof (rule protocol_event [OF assms(1) s'(2,3)])
  have len: "length (ag_states (cs_g s)) = 4" using assms(2) by (rule table_len)
  have slots: "slot (cs_g s') j = (if j = i then f (slot (cs_g s) i) else slot (cs_g s) j)" for j
    using len assms(3) by (simp add: s'(1))
  show "ag_generation_serial (cs_g s') = ag_generation_serial (cs_g s)" by (simp add: s'(1))
  show "cx_generation c \<le> ag_generation_serial (cs_g s)" using table_gen [OF assms(2-4)] assms(5) by simp
  show "held (cs_pc s') = Some x \<Longrightarrow> held (cs_pc s) = Some x \<and> cx_generation x \<noteq> cx_generation c" for x by (rule held)
  show "as_active (slot (cs_g s) j) \<and> as_generation (slot (cs_g s) j) = as_generation (slot (cs_g s') j) \<and>
      matches (cs_pc s') sp (slot (cs_g s') j) = matches (cs_pc s) sp (slot (cs_g s) j)"
    if "j < 4" "as_active (slot (cs_g s') j)" "as_generation (slot (cs_g s') j) \<noteq> cx_generation c" for j sp
  proof -
    have "j \<noteq> i" using that(3) f(2) assms(5) by (auto simp: slots)
    with that others [of "slot (cs_g s) j" sp] show ?thesis by (simp add: slots)
  qed
  fix sp assume sp: "session_ok s (cx_generation c) sp"
  have "j = i" if "j < 4" "as_active (slot (cs_g s') j)" "as_generation (slot (cs_g s') j) = cx_generation c" for j
  proof (rule ccontr)
    assume "j \<noteq> i"
    with that have "as_active (slot (cs_g s) j)" "as_generation (slot (cs_g s) j) = as_generation (slot (cs_g s) i)"
      using assms(5) by (auto simp: slots)
    with table_distinct [OF assms(2) that(1) assms(3) _ assms(4)] \<open>j \<noteq> i\<close> show False by blast
  qed
  moreover obtain sp' where "spec_step e sp = Some sp'" "matches (cs_pc s') sp' (slot (cs_g s') i)"
    using mine [OF sp] slots [of i] by auto
  ultimately show "\<exists>sp'. spec_step e sp = Some sp' \<and>
      (\<forall>j < 4. as_active (slot (cs_g s') j) \<and> as_generation (slot (cs_g s') j) = cx_generation c \<longrightarrow>
         matches (cs_pc s') sp' (slot (cs_g s') j))" by blast
qed

lemma act_protocol:
  assumes "perform a s = Some s'" "serials_fit s" "table_ok s" "indices_ok s" "commands_ok s" "held_ok s"
    "globals_typed (cs_g s)" "protocol_ok s"
  shows "protocol_ok s'"
proof (cases "quiet_act a")
  case True
  then show ?thesis by (intro act_quiet_protocol [OF assms(1,3,4) _ assms(8)])
next
  case False
  have len: "length (ag_states (cs_g s)) = 4" using assms(3) by (rule table_len)
  show ?thesis
  proof (cases a)
    case (A_ALLOC r)
    with assms(1) show ?thesis by (intro alloc_protocol [OF assms(8,3,2,5)]) auto
  next
    case (A_CLEAR i)
    with assms(1) len show ?thesis
      by (intro protocol_kept [OF assms(8)]) (auto simp: clear_session_def split: if_split_asm)
  next
    case (A_TICK active now)
    obtain c z late g' where t: "v8s_control_tick active now (cs_g s) = (c, z, late, g')" by (metis prod_cases4)
    with A_TICK assms(1) have "cs_pc s = T_IDLE" and s': "cs_g s' = g'" "cs_log s' = cs_log s @ map E_EXPIRED late" "held (cs_pc s') = c"
      by (auto split: if_split_asm option.splits)
    then show ?thesis by (intro tick_protocol [OF assms(8,3,2,7) _ t])
  next
    case A_ZOOM
    with assms(1) show ?thesis
      by (intro protocol_kept [OF assms(8)]) (auto simp: matches_def split: tick_pc.split_asm)
  next
    case A_ZOOMED
    then obtain i gen x where p: "cs_pc s = T_ZOOMED i gen x"
      and s': "cs_g s' = zoom_sent i (cs_g s)" "cs_pc s' = after_zoom x" "cs_log s' = cs_log s"
      using assms(1) by (auto split: tick_pc.split_asm)
    have "i < 4" using assms(4) p by (simp add: indices_ok_def)
    then have slots: "slot (cs_g s') j = (if j = i \<and> as_inflight (slot (cs_g s) i) > 0
        then (slot (cs_g s) i)\<lparr>as_inflight := as_inflight (slot (cs_g s) i) - 1\<rparr> else slot (cs_g s) j)" for j
      using len by (simp add: s'(1) zoom_sent_def)
    have held: "held (cs_pc s') = held (cs_pc s)" using p s'(2) by simp
    show ?thesis
    proof (rule protocol_kept [OF assms(8)])
      show "ag_generation_serial (cs_g s) \<le> ag_generation_serial (cs_g s')" by (simp add: s'(1) zoom_sent_def)
    qed (auto simp: slots s'(3) held matches_held [OF held] split: if_split_asm)
  next
    case (A_SEND b rc)
    then obtain c where p: "cs_pc s = T_CMD c" using assms(1) by (auto split: tick_pc.split_asm)
    show ?thesis
    proof (cases "b \<and> rc = 0")
      case True
      with A_SEND p assms(1) show ?thesis by (intro send_protocol [OF assms(8,6,5) p]) auto
    next
      case False
      with A_SEND p assms(1) have s': "cs_g s' = cs_g s" "cs_log s' = cs_log s" "held (cs_pc s') = held (cs_pc s)"
        by auto
      then show ?thesis by (intro protocol_kept [OF assms(8)]) (auto simp: matches_held [OF s'(3)])
    qed
  next
    case A_SENT
    then obtain x rc where p: "cs_pc s = T_SENT x rc" and s': "cs_g s' = control_sent x (cs_g s)"
        "cs_pc s' = (if rc \<noteq> 0 then T_REFUSED x rc else T_IDLE)" "cs_log s' = cs_log s"
      using assms(1) by (auto split: tick_pc.split_asm)
    have held: "held (cs_pc s') = held (cs_pc s)" using p s'(2) by simp
    have slots: "as_active (slot (cs_g s') j) = as_active (slot (cs_g s) j) \<and>
        as_generation (slot (cs_g s') j) = as_generation (slot (cs_g s) j) \<and>
        (\<forall>pc sp. matches pc sp (slot (cs_g s') j) = matches pc sp (slot (cs_g s) j))" for j
      using len by (auto simp: s'(1) control_sent_def split: option.splits if_split_asm dest!: find_receiver_SomeD)
    have "ag_generation_serial (cs_g s') = ag_generation_serial (cs_g s)"
      by (auto simp: s'(1) control_sent_def split: option.splits)
    then show ?thesis
      by (intro protocol_kept [OF assms(8)]) (auto simp: slots s'(3) held matches_held [OF held])
  next
    case A_REFUSED
    then obtain c rc where p: "cs_pc s = T_REFUSED c rc" and s': "cs_g s' = snd (v8s_control_dispatch_failed c (cs_g s))"
        "cs_pc s' = T_IDLE"
        "cs_log s' = cs_log s @ (if fst (v8s_control_dispatch_failed c (cs_g s)) then [E_REFUSED c] else [])"
      using assms(1) by (auto simp: Let_def case_prod_beta split: tick_pc.split_asm)
    have h: "held (cs_pc s) = Some c" "held (cs_pc s') = None" using p s'(2) by simp_all
    have mine: "as_awaiting_ack (slot (cs_g s) j) \<and> slot_command (slot (cs_g s) j) = c"
      if "j < 4" "as_active (slot (cs_g s) j)" "as_generation (slot (cs_g s) j) = cx_generation c" for j
      using assms(6) h(1) that unfolding held_ok_def by metis
    have other: "matches (cs_pc s') sp x = matches (cs_pc s) sp x" if "as_generation x \<noteq> cx_generation c" for sp x
      by (rule matches_not_held [OF h]) (use that in auto)
    show ?thesis
    proof (cases "\<exists>i < 4. as_active (slot (cs_g s) i) \<and> as_generation (slot (cs_g s) i) = cx_generation c")
      case True
      then obtain i where i: "i < 4" "as_active (slot (cs_g s) i)" "as_generation (slot (cs_g s) i) = cx_generation c" by blast
      have w: "as_awaiting_ack (slot (cs_g s) i)" "slot_command (slot (cs_g s) i) = c" using mine [OF i] by auto
      have r: "find_state_receiver_locked (cx_receiver c) (cs_g s) = Some i"
        using find_receiver_only [OF assms(3) i(1,2)] arg_cong [OF w(2), of cx_receiver] by simp
      have aw: "awaits c (slot (cs_g s) i)" using w by (auto simp: awaits_def)
      have f: "v8s_control_dispatch_failed c (cs_g s) = (True, on_slot i (drop_command (cx_stage c)) (cs_g s))"
        using r aw by (simp add: v8s_control_dispatch_failed_def)
      show ?thesis
      proof (rule end_protocol [OF assms(8,3) i(1,2) i(3) [symmetric]])
        show "cs_g s' = on_slot i (drop_command (cx_stage c)) (cs_g s)" "cs_log s' = cs_log s @ [E_REFUSED c]"
          using s' f by simp_all
        fix sp assume sp: "session_ok s (cx_generation c) sp"
        then have "may_send c sp" "matches (cs_pc s) sp (slot (cs_g s) i)" using h(1) i by (simp_all add: session_ok_def)
        then show "\<exists>sp'. spec_step (E_REFUSED c) sp = Some sp' \<and> matches (cs_pc s') sp' (drop_command (cx_stage c) (slot (cs_g s) i))"
          by (simp add: matches_def spec_end_def)
      qed (use i h other in simp_all)
    next
      case False
      have f: "v8s_control_dispatch_failed c (cs_g s) = (False, cs_g s)"
        using False by (auto simp: v8s_control_dispatch_failed_def awaits_def split: option.splits dest!: find_receiver_SomeD)
      show ?thesis
        by (rule protocol_kept [OF assms(8)]) (use s' f h other False in auto)
    qed
  next
    case (A_COMPLETE n st)
    let ?c = "cs_open s ! n"
    have s': "n < length (cs_open s)" "cs_g s' = snd (v8s_control_completion st ?c (cs_g s))" "cs_pc s' = cs_pc s"
      "cs_log s' = cs_log s @ [if fst (v8s_control_completion st ?c (cs_g s)) then E_ACKED ?c st else E_STALE ?c]"
      using A_COMPLETE assms(1) by (auto simp: Let_def case_prod_beta split: if_split_asm)
    have x: "?c \<in> set (cs_open s)" using s'(1) by simp
    show ?thesis
    proof (cases "fst (v8s_control_completion st ?c (cs_g s))")
      case False
      then have "snd (v8s_control_completion st ?c (cs_g s)) = cs_g s"
        by (auto simp: v8s_control_completion_def split: option.splits if_split_asm)
      with s' False show ?thesis by (intro protocol_kept [OF assms(8)]) auto
    next
      case True
      then obtain i where i: "find_state_receiver_locked (cx_receiver ?c) (cs_g s) = Some i" "awaits ?c (slot (cs_g s) i)"
        "snd (v8s_control_completion st ?c (cs_g s)) = on_slot i (take_answer st ?c) (cs_g s)"
        by (auto simp: v8s_control_completion_def split: option.splits if_split_asm)
      have i4: "i < 4" "as_active (slot (cs_g s) i)" using find_receiver_SomeD [OF i(1)] by auto
      have c: "slot_command (slot (cs_g s) i) = ?c"
        by (rule accepted_is_current [OF assms(5) _ i4 i(2)]) (use x in \<open>simp add: commands_def\<close>)
      have nh: "cx_generation y \<noteq> cx_generation ?c" if "held (cs_pc s) = Some y" for y
      proof
        assume "cx_generation y = cx_generation ?c"
        then have "slot_command (slot (cs_g s) i) = y" "y \<notin> set (cs_open s)"
          using assms(6) that i(2) i4 unfolding held_ok_def awaits_def by metis+
        with c x show False by simp
      qed
      show ?thesis
      proof (rule end_protocol [OF assms(8,3) i4])
        show "cx_generation ?c = as_generation (slot (cs_g s) i)" using c by (metis slot_command_sel(2))
        show "cs_g s' = on_slot i (take_answer st ?c) (cs_g s)" "cs_log s' = cs_log s @ [E_ACKED ?c st]"
          using s' i(3) True by simp_all
        show "held (cs_pc s') = Some y \<Longrightarrow> held (cs_pc s) = Some y \<and> cx_generation y \<noteq> cx_generation ?c" for y
          using s'(3) nh by simp
        fix sp assume sp: "session_ok s (cx_generation ?c) sp"
        have m: "matches (cs_pc s) sp (slot (cs_g s) i)"
          using sp i4 i(2) by (simp add: session_ok_def awaits_def)
        have "held (cs_pc s) \<noteq> Some ?c" using nh by blast
        then have "sp_wait sp = Some ?c" using m i(2) c by (simp add: matches_def awaits_def)
        moreover have "as_stage (slot (cs_g s) i) = cx_stage ?c" "as_target_view (slot (cs_g s) i) = cx_view ?c"
          using c by (metis slot_command_sel)+
        ultimately show "\<exists>sp'. spec_step (E_ACKED ?c st) sp = Some sp' \<and>
            matches (cs_pc s') sp' (take_answer st ?c (slot (cs_g s) i))"
          using m s'(3) by (auto simp: matches_def spec_end_def take_answer_result)
      qed (use i4 s'(3) in simp_all)
    qed
  qed (use False in auto)
qed

lemma init_protocol: "protocol_ok init_sys"
  by (auto simp: protocol_ok_def session_ok_def init_sys_def init_globals_def nth_Cons' numeral_eq_Suc)

lemma reach_protocol: "alt_reach s \<Longrightarrow> protocol_ok s"
proof (induction rule: alt_reach.induct)
  case alt_init
  show ?case by (rule init_protocol)
next
  case (alt_step s a s')
  then show ?case
    using reach_table reach_commands reach_held reach_typed by (blast intro: act_protocol)
qed

end
