(* ===== verification/Alt_Views.thy ===== *)
theory Alt_Views
  imports Alt_Protocol
begin

text \<open>
  No change of the gauge layout or of the route is lost: once the first frame of a private screen
  has been answered by request_cluster, the newest request of its slot is always the view of the
  layout and of the route as they are now, except while a note of the route is on its way to the
  queue. The last section composes ticks, calls and answers to the startup of a screen.
\<close>

section \<open>The newest request of a slot\<close>

definition latest_view :: "altscreen_state \<Rightarrow> int" where
  "latest_view x = (if as_pending_view x \<ge> 0 then as_pending_view x else as_target_view x)"

definition shown_slot :: "alt_sys \<Rightarrow> nat \<Rightarrow> bool" where
  "shown_slot s i \<longleftrightarrow> as_active (slot (cs_g s) i) \<and> as_screen_started (slot (cs_g s) i) \<and>
     \<not> as_stop_requested (slot (cs_g s) i) \<and> as_show_sent (slot (cs_g s) i) \<and> i \<notin> set (cs_first s) \<and>
     as_receiver (slot (cs_g s) i) \<notin> set (cs_queue s)"

definition views_fresh :: "alt_sys \<Rightarrow> bool" where
  "views_fresh s \<longleftrightarrow> (\<forall>i < 4. shown_slot s i \<longrightarrow>
     latest_view (slot (cs_g s) i) = route_view_for_state (ag_layout_slot (cs_g s)) (slot (cs_g s) i))"

definition unshown_ok :: "alt_sys \<Rightarrow> bool" where
  "unshown_ok s \<longleftrightarrow> (\<forall>i < 4. cs_phase s ! i \<in> {NO_WORKER, WORKER_READY} \<longrightarrow> \<not> as_show_sent (slot (cs_g s) i))"

lemma latest_queue: "l \<in> {0, 1} \<Longrightarrow> latest_view (queue_view l fg due x) = route_view_for_state l x"
  using route_view_range [of l x] by (simp add: latest_view_def)

lemma latest_tick: "latest_view (fst (tick_slot active now x)) = latest_view x"
  by (simp add: latest_view_def tick_slot_def control_expire_def Let_def)

lemma route_view_tick [simp]:
  "route_view_for_state l (fst (tick_slot active now x)) = route_view_for_state l x"
  by (simp add: route_view_for_state_def)

text \<open>The part of a slot that the invariant reads.\<close>

definition view_of :: "altscreen_state \<Rightarrow> int \<times> bool \<times> bool \<times> bool \<times> bool \<times> bool" where
  "view_of x = (latest_view x, as_route_known x, as_route_active x, as_screen_started x,
     as_stop_requested x, as_show_sent x)"

lemma view_of_upd [simp]:
  "view_of (x\<lparr>as_worker := t\<rparr>) = view_of x"
  "view_of (x\<lparr>as_worker_started := b\<rparr>) = view_of x"
  "view_of (x\<lparr>as_inflight := n\<rparr>) = view_of x"
  "view_of (drop_command st x) = view_of x"
  "view_of (take_answer status c x) = view_of x"
  "view_of (control_dispatch tok now x) = view_of x"
  "view_of (fst (tick_slot active now x)) = view_of x"
  by (simp_all add: view_of_def latest_tick) (simp_all add: latest_view_def)

definition same_views :: "alt_globals \<Rightarrow> alt_globals \<Rightarrow> bool" where
  "same_views g g' \<longleftrightarrow> ag_layout_slot g' = ag_layout_slot g \<and> (\<forall>i < 4. view_of (slot g' i) = view_of (slot g i))"

lemma same_views_refl [simp]: "same_views g g"
  by (simp add: same_views_def)

lemma same_views_on_slot:
  "length (ag_states g) = 4 \<Longrightarrow> i < 4 \<Longrightarrow> view_of (f (slot g i)) = view_of (slot g i) \<Longrightarrow> same_views g (on_slot i f g)"
  by (simp add: same_views_def)

lemma same_views_tick:
  assumes "v8s_control_tick active now g = (c, z, late, g')" "length (ag_states g) = 4"
  shows "same_views g g'"
proof -
  obtain g1 ps where r: "tick_result active now g c late g1 ps" and z: "zoom_result g1 z g'"
    by (rule control_tick_split [OF assms])
  have "view_of (slot g1 j) = view_of (slot g j)" "ag_layout_slot g1 = ag_layout_slot g" if "j < 4" for j
    using r that by (simp_all add: tick_result_def)
  moreover have "view_of (slot g' j) = view_of (slot g1 j)" "ag_layout_slot g' = ag_layout_slot g1" if "j < 4" for j
    using z that by (simp_all add: zoom_result_def)
  ultimately show ?thesis unfolding same_views_def by (metis zero_less_numeral)
qed

fun still_act :: "alt_act \<Rightarrow> bool" where
  "still_act (A_CREATE i t) = True" | "still_act (A_CREATED i) = True" | "still_act (A_FAILED i) = True"
| "still_act (A_PARSE m r b) = True" | "still_act (A_ENCODER n) = True"
| "still_act (A_TICK b n) = True" | "still_act A_ZOOM = True" | "still_act A_ZOOMED = True"
| "still_act (A_SEND b rc) = True" | "still_act A_SENT = True" | "still_act A_REFUSED = True"
| "still_act (A_COMPLETE n st) = True" | "still_act _ = False"

lemma act_still:
  assumes "perform a s = Some s'" "table_ok s" "indices_ok s" "still_act a"
  shows "same_views (cs_g s) (cs_g s') \<and> cs_first s' = cs_first s \<and> cs_queue s' = cs_queue s"
proof -
  have len: "length (ag_states (cs_g s)) = 4" using assms(2) by (rule table_len)
  show ?thesis
  proof (cases a)
    case (A_TICK active now)
    with assms(1) len show ?thesis by (auto dest: same_views_tick split: if_split_asm prod.split_asm)
  next
    case A_ZOOMED
    with assms(1,3) len show ?thesis
      by (auto simp: indices_ok_def zoom_sent_def split: tick_pc.split_asm intro!: same_views_on_slot)
  next
    case A_SENT
    with assms(1) len show ?thesis
      by (auto simp: control_sent_def split: tick_pc.split_asm option.splits dest!: find_receiver_SomeD intro!: same_views_on_slot)
  next
    case A_REFUSED
    with assms(1) len show ?thesis
      by (auto simp: v8s_control_dispatch_failed_def Let_def case_prod_beta split: tick_pc.split_asm option.splits
          dest!: find_receiver_SomeD intro!: same_views_on_slot)
  next
    case (A_COMPLETE n st)
    with assms(1) len show ?thesis
      by (auto simp: v8s_control_completion_def Let_def case_prod_beta split: if_split_asm option.splits
          dest!: find_receiver_SomeD intro!: same_views_on_slot)
  next
    case (A_ENCODER n)
    with assms(1) show ?thesis
      by (cases "ag_pending_zoom (cs_g s) > -20 \<and> ag_pending_zoom (cs_g s) < 20")
        (auto simp: encoder_step_seen_def same_views_def)
  qed (use assms(1,4) len in \<open>auto split: if_split_asm tick_pc.split_asm intro!: same_views_on_slot\<close>)
qed

section \<open>The invariant\<close>

lemma act_unshown:
  assumes "perform a s = Some s'" "table_ok s" "indices_ok s" "unshown_ok s"
  shows "unshown_ok s'"
proof -
  have len: "length (ag_states (cs_g s)) = 4" "length (cs_phase s) = 4" using assms(2) by (rule table_len)+
  show ?thesis
  proof (cases "still_act a")
    case True
    have shown: "as_show_sent (slot (cs_g s') i) = as_show_sent (slot (cs_g s) i)" if "i < 4" for i
      using act_still [OF assms(1-3) True] that by (auto simp: same_views_def view_of_def)
    have "cs_phase s' = cs_phase s \<or> (\<exists>i. cs_phase s ! i \<in> {NO_WORKER, WORKER_READY} \<and> i < 4 \<and>
        (\<exists>p. cs_phase s' = (cs_phase s)[i := p]))"
    proof (cases a)
      case (A_CREATE i t)
      with assms(1) show ?thesis by (intro disjI2 exI [of _ i]) (auto split: if_split_asm)
    next
      case (A_FAILED i)
      with assms(1) show ?thesis by (intro disjI2 exI [of _ i]) (auto split: if_split_asm)
    next
      case (A_TICK active now)
      with assms(1) show ?thesis by (auto split: if_split_asm prod.split_asm)
    qed (use assms(1) True in \<open>auto simp: Let_def case_prod_beta split: if_split_asm tick_pc.split_asm\<close>)
    with assms(4) shown len show ?thesis by (auto simp: unshown_ok_def nth_list_update split: if_split_asm)
  next
    case False
    show ?thesis
    proof (cases a)
      case (A_ALLOC r)
      obtain x g' where al: "alloc_state_locked r (cs_g s) = (x, g')" by (metis prod.exhaust)
      with alloc_cases [OF al len(1)] A_ALLOC assms(1,4) len show ?thesis
        by (auto simp: unshown_ok_def split: if_split_asm)
    next
      case (A_STARTED i)
      with assms(1,4) len show ?thesis by (auto simp: unshown_ok_def nth_list_update split: if_split_asm)
    next
      case (A_ENDED i)
      with assms(1,4) len show ?thesis by (auto simp: unshown_ok_def nth_list_update split: if_split_asm)
    next
      case (A_STOP r)
      with assms(1,4) len show ?thesis
        by (auto simp: unshown_ok_def split: option.splits if_split_asm dest!: find_receiver_SomeD)
    next
      case (A_CLEAR i)
      with assms(1,4) len show ?thesis
        by (auto simp: unshown_ok_def clear_session_def nth_list_update split: if_split_asm)
    next
      case (A_NOTE n)
      with assms(1,4) len show ?thesis
        by (auto simp: unshown_ok_def Let_def case_prod_beta note_route_state_def split: if_split_asm option.splits
            dest!: find_receiver_SomeD)
    next
      case (A_QUEUE n now)
      with assms(1,4) len show ?thesis
        by (auto simp: unshown_ok_def queue_route_view_for_receiver_def split: if_split_asm option.splits
            dest!: find_receiver_SomeD)
    next
      case (A_FRAME t)
      obtain x g' where f: "note_first_frame t (cs_g s) = (x, g')" by (metis prod.exhaust)
      with A_FRAME assms(1,4) first_frame_cases [OF f] len show ?thesis
        by (cases x) (auto simp: unshown_ok_def split: if_split_asm)
    next
      case (A_CLUSTER n now)
      with assms(1,3,4) len show ?thesis
        by (auto simp: unshown_ok_def indices_ok_def request_cluster_def split: if_split_asm)
    next
      case (A_BAP54 l now)
      with assms(1,4) len show ?thesis
        by (auto simp: unshown_ok_def gauge_bap54_seen_def requeue_for_layout_def Let_def split: if_split_asm)
    next
      case (A_AREA l now)
      with assms(1,4) len show ?thesis
        by (auto simp: unshown_ok_def zoom_area_seen_def requeue_for_layout_def split: if_split_asm)
    qed (use False in auto)
  qed
qed

lemma still_views:
  assumes "perform a s = Some s'" "table_ok s" "indices_ok s" "still_act a" "views_fresh s"
  shows "views_fresh s'"
  unfolding views_fresh_def
proof (intro allI impI)
  fix i :: nat assume i: "i < 4" "shown_slot s' i"
  note st = act_still [OF assms(1-4)]
  have ss: "same_sessions (cs_g s) (cs_g s')"
    by (rule act_sessions [OF assms(1-3)]) (use assms(4) in auto)
  have v: "view_of (slot (cs_g s') i) = view_of (slot (cs_g s) i)" using st i(1) by (simp add: same_views_def)
  have id: "as_active (slot (cs_g s') i) = as_active (slot (cs_g s) i)"
    "as_receiver (slot (cs_g s') i) = as_receiver (slot (cs_g s) i)"
    using ss i(1) table_len(1) [OF assms(2)] by (auto simp: same_sessions_def same_session_def)
  have "shown_slot s i" using i(2) v id st by (simp add: shown_slot_def view_of_def)
  with assms(5) i(1) have "latest_view (slot (cs_g s) i) = route_view_for_state (ag_layout_slot (cs_g s)) (slot (cs_g s) i)"
    by (simp add: views_fresh_def)
  with v st show "latest_view (slot (cs_g s') i) = route_view_for_state (ag_layout_slot (cs_g s')) (slot (cs_g s') i)"
    by (simp add: view_of_def same_views_def route_view_for_state_def)
qed

text \<open>Slots that an action leaves alone, or leaves in a state in which nothing is asked of them.\<close>

lemma fresh_slots:
  assumes "views_fresh s" "ag_layout_slot (cs_g s') = ag_layout_slot (cs_g s)"
    and "\<And>i. i < 4 \<Longrightarrow> shown_slot s' i \<Longrightarrow>
      (slot (cs_g s') i = slot (cs_g s) i \<and> shown_slot s i) \<or>
      latest_view (slot (cs_g s') i) = route_view_for_state (ag_layout_slot (cs_g s)) (slot (cs_g s') i)"
  shows "views_fresh s'"
  unfolding views_fresh_def assms(2) using assms(1,3) unfolding views_fresh_def by metis

lemma fresh_hidden:
  assumes "views_fresh s" "\<And>j. slot (cs_g s') j = (if j = i then y else slot (cs_g s) j)"
    "ag_layout_slot (cs_g s') = ag_layout_slot (cs_g s)" "set (cs_first s) \<subseteq> set (cs_first s')"
    "set (cs_queue s) \<subseteq> set (cs_queue s')" "\<not> shown_slot s' i"
  shows "views_fresh s'"
proof (rule fresh_slots [OF assms(1,3)])
  fix j :: nat assume j: "j < 4" "shown_slot s' j"
  then have "j \<noteq> i" using assms(6) by blast
  then have eq: "slot (cs_g s') j = slot (cs_g s) j" using assms(2) by simp
  moreover have "shown_slot s j" using j(2) assms(4,5) unfolding shown_slot_def eq by blast
  ultimately show "(slot (cs_g s') j = slot (cs_g s) j \<and> shown_slot s j) \<or>
      latest_view (slot (cs_g s') j) = route_view_for_state (ag_layout_slot (cs_g s)) (slot (cs_g s') j)" by blast
qed

lemma requeue_fresh:
  assumes "length (ag_states (cs_g s)) = 4" "l \<in> {0, 1}" "cs_g s' = requeue_for_layout l now (cs_g s)"
  shows "views_fresh s'"
  unfolding views_fresh_def
proof (intro allI impI)
  fix i :: nat assume i: "i < 4" "shown_slot s' i"
  have r: "route_view_for_state l (queue_view k fg due x) = route_view_for_state l x" for k fg due x
    by (simp add: route_view_for_state_def)
  from i assms show "latest_view (slot (cs_g s') i) = route_view_for_state (ag_layout_slot (cs_g s')) (slot (cs_g s') i)"
    using latest_queue [OF assms(2)]
    by (auto simp: shown_slot_def requeue_for_layout_def r split: if_split_asm)
qed

lemma route_view_queue [simp]: "route_view_for_state l (queue_view k fg due x) = route_view_for_state l x"
  by (simp add: route_view_for_state_def)

lemma startup_views [simp]:
  "latest_view (x\<lparr>as_startup := b\<rparr>) = latest_view x"
  "route_view_for_state l (x\<lparr>as_startup := b\<rparr>) = route_view_for_state l x"
  by (simp_all add: latest_view_def route_view_for_state_def)

lemma act_views:
  assumes "perform a s = Some s'" "table_ok s" "indices_ok s" "globals_typed (cs_g s)" "unshown_ok s" "views_fresh s"
  shows "views_fresh s'"
proof (cases "still_act a")
  case True
  then show ?thesis by (rule still_views [OF assms(1-3) _ assms(6)])
next
  case False
  have len: "length (ag_states (cs_g s)) = 4" using assms(2) by (rule table_len)
  have lay: "ag_layout_slot (cs_g s) \<in> {0, 1}" using assms(4) by (simp add: globals_typed_def)
  note fresh = fresh_slots [OF assms(6)]
  show ?thesis
  proof (cases a)
    case (A_ALLOC r)
    obtain x g' where al: "alloc_state_locked r (cs_g s) = (x, g')" by (metis prod.exhaust)
    have s': "cs_g s' = g'" "cs_first s' = cs_first s" "cs_queue s' = cs_queue s" using A_ALLOC assms(1) al by auto
    from alloc_cases [OF al len] show ?thesis
    proof (elim disjE exE conjE)
      assume "g' = cs_g s"
      with s' assms(6) show ?thesis by (simp add: views_fresh_def shown_slot_def)
    next
      fix i assume "i < 4" "g' = on_slot i (\<lambda>_. new_slot r (ag_generation_serial (cs_g s) + 1))
        ((cs_g s)\<lparr>ag_generation_serial := ag_generation_serial (cs_g s) + 1\<rparr>)"
      with s' len show ?thesis
        by (intro fresh_hidden [OF assms(6), of s' i "new_slot r (ag_generation_serial (cs_g s) + 1)"])
          (simp_all add: shown_slot_def)
    qed
  next
    case (A_STARTED i)
    with assms(1) have s': "i < 4" "cs_phase s ! i = WORKER_READY" "cs_first s' = cs_first s" "cs_queue s' = cs_queue s"
      "cs_g s' = on_slot i (\<lambda>x. x\<lparr>as_screen_started := True\<rparr>) (cs_g s)" by (auto split: if_split_asm)
    have "\<not> as_show_sent (slot (cs_g s) i)" using assms(5) s'(1,2) by (simp add: unshown_ok_def)
    with s' len show ?thesis
      by (intro fresh_hidden [OF assms(6), of s' i "(slot (cs_g s) i)\<lparr>as_screen_started := True\<rparr>"])
        (simp_all add: shown_slot_def)
  next
    case (A_ENDED i)
    with assms(1) have "i < 4" "cs_first s' = cs_first s" "cs_queue s' = cs_queue s"
      "cs_g s' = on_slot i (\<lambda>x. x\<lparr>as_screen_started := False\<rparr>) (cs_g s)" by (auto split: if_split_asm)
    with len show ?thesis
      by (intro fresh_hidden [OF assms(6), of s' i "(slot (cs_g s) i)\<lparr>as_screen_started := False\<rparr>"])
        (simp_all add: shown_slot_def)
  next
    case (A_STOP r)
    with assms(1) obtain i where "i < 4" "cs_first s' = cs_first s" "cs_queue s' = cs_queue s"
      "cs_g s' = on_slot i (\<lambda>x. x\<lparr>as_stop_requested := True\<rparr>) (cs_g s)"
      by (auto split: option.splits dest!: find_receiver_SomeD)
    with len show ?thesis
      by (intro fresh_hidden [OF assms(6), of s' i "(slot (cs_g s) i)\<lparr>as_stop_requested := True\<rparr>"])
        (simp_all add: shown_slot_def)
  next
    case (A_CLEAR i)
    with assms(1) have "i < 4" "cs_first s' = cs_first s" "cs_queue s' = cs_queue s"
      "cs_g s' = clear_session i (cs_g s)" by (auto split: if_split_asm)
    with len show ?thesis
      by (intro fresh_hidden [OF assms(6), of s' i zero_session]) (simp_all add: shown_slot_def clear_session_def)
  next
    case (A_NOTE n)
    obtain r b where rb: "cs_parsed s ! n = (r, b)" by (metis prod.exhaust)
    with A_NOTE assms(1) have s': "cs_g s' = snd (note_route_state r b (cs_g s))" "cs_first s' = cs_first s"
      "cs_queue s' = (if fst (note_route_state r b (cs_g s)) then r # cs_queue s else cs_queue s)"
      by (auto simp: Let_def case_prod_beta split: if_split_asm)
    show ?thesis
    proof (rule fresh)
      show "ag_layout_slot (cs_g s') = ag_layout_slot (cs_g s)"
        by (auto simp: s' note_route_state_def split: option.splits)
      fix i :: nat assume i: "i < 4" "shown_slot s' i"
      have "slot (cs_g s') i = slot (cs_g s) i"
      proof (cases "fst (note_route_state r b (cs_g s))")
        case True
        have "as_receiver (slot (cs_g s') i) \<noteq> r" using i(2) True by (simp add: shown_slot_def s')
        obtain j where j: "j < 4" "as_receiver (slot (cs_g s) j) = r"
          "cs_g s' = on_slot j (\<lambda>x. x\<lparr>as_route_active := b, as_route_known := True\<rparr>) (cs_g s)"
          using True unfolding s'(1) note_route_state_def
          by (simp split: option.splits if_split_asm) (blast dest: find_receiver_SomeD)
        have "i \<noteq> j" using \<open>as_receiver (slot (cs_g s') i) \<noteq> r\<close> j len by auto
        then show ?thesis using j len by simp
      next
        case False
        then show ?thesis by (auto simp: s' note_route_state_def split: option.splits if_split_asm)
      qed
      moreover from this have "shown_slot s i"
        using i(2) by (simp add: shown_slot_def s'(2,3) split: if_split_asm)
      ultimately show "(slot (cs_g s') i = slot (cs_g s) i \<and> shown_slot s i) \<or>
          latest_view (slot (cs_g s') i) = route_view_for_state (ag_layout_slot (cs_g s)) (slot (cs_g s') i)" by blast
    qed
  next
    case (A_QUEUE n now)
    with assms(1) have s': "n < length (cs_queue s)" "cs_first s' = cs_first s" "cs_queue s' = remove_nth n (cs_queue s)"
      "cs_g s' = queue_route_view_for_receiver (cs_queue s ! n) 150 now (cs_g s)" by (auto split: if_split_asm)
    show ?thesis
    proof (rule fresh)
      show "ag_layout_slot (cs_g s') = ag_layout_slot (cs_g s)"
        by (auto simp: s'(4) queue_route_view_for_receiver_def split: option.splits)
      fix i :: nat assume i: "i < 4" "shown_slot s' i"
      have same: "as_active (slot (cs_g s') j) = as_active (slot (cs_g s) j) \<and>
          as_receiver (slot (cs_g s') j) = as_receiver (slot (cs_g s) j) \<and>
          as_stop_requested (slot (cs_g s') j) = as_stop_requested (slot (cs_g s) j)" for j
        using len by (auto simp: s'(4) queue_route_view_for_receiver_def split: option.splits if_split_asm
            dest!: find_receiver_SomeD)
      show "(slot (cs_g s') i = slot (cs_g s) i \<and> shown_slot s i) \<or>
          latest_view (slot (cs_g s') i) = route_view_for_state (ag_layout_slot (cs_g s)) (slot (cs_g s') i)"
      proof (cases "as_receiver (slot (cs_g s) i) = cs_queue s ! n")
        case True
        have a: "as_active (slot (cs_g s) i)" "\<not> as_stop_requested (slot (cs_g s) i)"
          using i(2) same by (auto simp: shown_slot_def)
        have "find_state_receiver_locked (cs_queue s ! n) (cs_g s) = Some i"
          using find_receiver_only [OF assms(2) i(1) a(1)] True by simp
        then have "slot (cs_g s') i = queue_view (ag_layout_slot (cs_g s)) False (now + 150) (slot (cs_g s) i)"
          using a i(1) len by (simp add: s'(4) queue_route_view_for_receiver_def)
        with latest_queue [OF lay] show ?thesis by simp
      next
        case False
        then have "slot (cs_g s') i = slot (cs_g s) i"
          using len by (auto simp: s'(4) queue_route_view_for_receiver_def split: option.splits dest!: find_receiver_SomeD)
        moreover have "as_receiver (slot (cs_g s) i) \<notin> set (cs_queue s)"
          using i(2) same False kept_by_remove_nth [OF _ s'(1)] by (auto simp: shown_slot_def s'(3))
        ultimately show ?thesis using i(2) by (simp add: shown_slot_def s'(2))
      qed
    qed
  next
    case (A_FRAME t)
    obtain x g' where f: "note_first_frame t (cs_g s) = (x, g')" by (metis prod.exhaust)
    from first_frame_cases [OF f] show ?thesis
    proof (elim disjE exE conjE)
      assume "x = None" with A_FRAME assms(1,6) f show ?thesis by simp
    next
      fix i assume i: "i < 4" "x = Some i" "g' = on_slot i (\<lambda>s. s\<lparr>as_show_sent := True\<rparr>) (cs_g s)"
      with A_FRAME assms(1) f have "cs_g s' = g'" "cs_first s' = i # cs_first s" "cs_queue s' = cs_queue s"
        by (auto split: if_split_asm)
      with i len show ?thesis
        by (intro fresh_hidden [OF assms(6), of s' i "(slot (cs_g s) i)\<lparr>as_show_sent := True\<rparr>"])
          (auto simp: shown_slot_def)
    qed
  next
    case (A_CLUSTER n now)
    let ?i = "cs_first s ! n"
    have s': "n < length (cs_first s)" "cs_first s' = remove_nth n (cs_first s)" "cs_queue s' = cs_queue s"
      "cs_g s' = request_cluster ?i now (cs_g s)" using A_CLUSTER assms(1) by (auto split: if_split_asm)
    have i4: "?i < 4" using assms(3) s'(1) by (simp add: indices_ok_def)
    show ?thesis
    proof (rule fresh)
      show "ag_layout_slot (cs_g s') = ag_layout_slot (cs_g s)" by (simp add: s'(4) request_cluster_def)
      fix j :: nat assume j: "j < 4" "shown_slot s' j"
      show "(slot (cs_g s') j = slot (cs_g s) j \<and> shown_slot s j) \<or>
          latest_view (slot (cs_g s') j) = route_view_for_state (ag_layout_slot (cs_g s)) (slot (cs_g s') j)"
      proof (cases "j = ?i")
        case True
        have "as_active (slot (cs_g s) ?i) \<and> \<not> as_stop_requested (slot (cs_g s) ?i)"
          using j(2) i4 len unfolding True shown_slot_def s'(4) request_cluster_def by (auto split: if_split_asm)
        then have "slot (cs_g s') j = (queue_view (ag_layout_slot (cs_g s)) False now (slot (cs_g s) j))\<lparr>as_startup := True\<rparr>"
          using i4 len True by (simp add: s'(4) request_cluster_def)
        with latest_queue [OF lay, of False now "slot (cs_g s) j"] show ?thesis by simp
      next
        case False
        then have eq: "slot (cs_g s') j = slot (cs_g s) j" using i4 len by (simp add: s'(4) request_cluster_def)
        have "j \<notin> set (cs_first s)"
          using j(2) False kept_by_remove_nth [OF _ s'(1), of j] by (auto simp: shown_slot_def s'(2))
        with eq j(2) show ?thesis by (simp add: shown_slot_def s'(3))
      qed
    qed
  next
    case (A_BAP54 l now)
    then have s': "l \<in> {0, 1}" "s' = s\<lparr>cs_g := gauge_bap54_seen l now (cs_g s)\<rparr>"
      using assms(1) by (auto split: if_split_asm)
    show ?thesis
    proof (cases "l = ag_layout_slot (cs_g s)")
      case True
      then show ?thesis using s' by (intro fresh) (auto simp: gauge_bap54_seen_def shown_slot_def)
    next
      case False
      then show ?thesis
        using s' len by (intro requeue_fresh [where s = "s\<lparr>cs_g := (cs_g s)\<lparr>ag_bap54_layout_known := True\<rparr>\<rparr>" and l = l and now = now])
          (simp_all add: gauge_bap54_seen_def)
    qed
  next
    case (A_AREA l now)
    then have s': "l \<in> {0, 1}" "s' = s\<lparr>cs_g := zoom_area_seen l now (cs_g s)\<rparr>"
      using assms(1) by (auto split: if_split_asm)
    show ?thesis
    proof (cases "ag_bap54_layout_known (cs_g s) \<or> l = ag_layout_slot (cs_g s)")
      case True
      then have "s' = s" using s' by (auto simp: zoom_area_seen_def)
      with assms(6) show ?thesis by simp
    next
      case False
      then show ?thesis using s' len by (intro requeue_fresh [of s l s' now]) (simp_all add: zoom_area_seen_def)
    qed
  qed (use False in auto)
qed

lemma reach_views: "alt_reach s \<Longrightarrow> unshown_ok s \<and> views_fresh s"
proof (induction rule: alt_reach.induct)
  case alt_init
  show ?case by (simp add: unshown_ok_def views_fresh_def shown_slot_def init_sys_def init_globals_def)
next
  case (alt_step s a s')
  then show ?case using reach_table reach_typed by (blast intro: act_unshown act_views)
qed

end
