(* ===== verification/Alt_Startup.thy ===== *)
theory Alt_Startup
  imports Alt_Views
begin

text \<open>
  One round of the control worker with an answer of status 0, and the composition of rounds: a
  queued view is put on the screen by showUI, updateViewArea and forceKeyFrame.
\<close>

fun perform_all :: "alt_act list \<Rightarrow> alt_sys \<Rightarrow> alt_sys option" where
  "perform_all [] s = Some s"
| "perform_all (a # as) s = Option.bind (perform a s) (perform_all as)"

lemma perform_all_append: "perform_all (xs @ ys) s = Option.bind (perform_all xs s) (perform_all ys)"
  by (induction xs arbitrary: s) (auto split: Option.bind_splits)

text \<open>A tick, the call, its return, and the answer of the phone.\<close>

definition answered_round :: "bool \<Rightarrow> u64 \<Rightarrow> alt_act list" where
  "answered_round active now = [A_TICK active now, A_SEND True 0, A_SENT, A_COMPLETE 0 0]"

text \<open>The slot after the round, and the command that was sent.\<close>

definition sent_slot :: "bool \<Rightarrow> u64 \<Rightarrow> u64 \<Rightarrow> altscreen_state \<Rightarrow> altscreen_state" where
  "sent_slot active now token x = control_dispatch token now (fst (tick_slot active now x))"

definition answered_slot :: "bool \<Rightarrow> u64 \<Rightarrow> u64 \<Rightarrow> altscreen_state \<Rightarrow> altscreen_state" where
  "answered_slot active now token x =
     take_answer 0 (slot_command (sent_slot active now token x))
       ((sent_slot active now token x)\<lparr>as_inflight := as_inflight x\<rparr>)"

text \<open>The worker serves slot i: no slot before it is in use, and no wheel step is pending.\<close>

definition served :: "alt_sys \<Rightarrow> nat \<Rightarrow> bool" where
  "served s i \<longleftrightarrow> table_ok s \<and> cs_pc s = T_IDLE \<and> i < 4 \<and> (\<forall>k < i. \<not> eligible (slot (cs_g s) k)) \<and>
     ag_pending_zoom (cs_g s) = 0 \<and> as_inflight (slot (cs_g s) i) = 0"

lemma served_tick:
  assumes s: "served s i" and go: "snd (tick_slot active now (slot (cs_g s) i))"
    and t: "v8s_control_tick active now (cs_g s) = (c, z, late, g')"
  shows "z = None \<and> c = Some (slot_command (slot g' i)) \<and> length (ag_states g') = 4 \<and> ag_pending_zoom g' = 0 \<and>
    ag_request_serial g' = ag_request_serial (cs_g s) + 1 \<and> same_sessions (cs_g s) g' \<and>
    slot g' i = sent_slot active now (ag_request_serial (cs_g s) + 1) (slot (cs_g s) i) \<and>
    (\<forall>k < i. slot g' k = slot (cs_g s) k)"
proof -
  let ?g = "cs_g s"
  have len: "length (ag_states ?g) = 4" using s by (auto simp: served_def dest: table_len)
  obtain g1 ps where r: "tick_result active now ?g c late g1 ps" and ps: "set ps \<subseteq> {..<4}"
      "c = None \<longrightarrow> ps = [0..<4]" "ps = [0..<length ps]" and zr: "zoom_result g1 z g'"
    by (rule control_tick_split [OF t len])
  have i: "i < 4" using s by (simp add: served_def)
  have "c \<noteq> None"
  proof
    assume "c = None"
    then have "i \<in> set ps" using ps(2) i by simp
    with r go \<open>c = None\<close> show False by (simp add: tick_result_def)
  qed
  then obtain x where c: "c = Some x" by blast
  obtain l where l: "l \<in> set ps" "l < 4" "l = last ps" "eligible (slot ?g l)"
    "slot g1 l = control_dispatch (ag_request_serial ?g + 1) now (fst (tick_slot active now (slot ?g l)))"
    "x = slot_command (slot g1 l)" "ag_request_serial g1 = ag_request_serial ?g + 1"
    by (rule tick_sender [OF r [unfolded c] ps(1)]) (rule that; assumption)
  have "\<not> l < i" using s l(4) by (auto simp: served_def)
  then have "i \<in> set ps" using l(1) ps(3) by (metis atLeastLessThan_iff le_less_trans linorder_not_less set_upt zero_le)
  then have li: "l = i" using r go c l(3) by (simp add: tick_result_def)
  have zn: "z = None"
    using zr r s by (auto simp: zoom_result_def tick_result_def served_def split: option.splits)
  have slots: "slot g' j = slot g1 j" if "j < 4" for j using zr zn that by (simp add: zoom_result_def)
  have before: "slot g' k = slot ?g k" if "k < i" for k
  proof -
    have "k < 4" "\<not> eligible (slot ?g k)" using that i s by (auto simp: served_def)
    moreover have "slot g1 k = slot ?g k \<or> slot g1 k = fst (tick_slot active now (slot ?g k))"
      using tick_other [OF r [unfolded c] \<open>k < 4\<close>] that li l(3) by auto
    ultimately show ?thesis using slots by (auto simp: tick_slot_idle)
  qed
  have "ag_pending_zoom g' = 0" using zr zn r s by (auto simp: zoom_result_def tick_result_def served_def)
  moreover have "ag_request_serial g' = ag_request_serial ?g + 1" "length (ag_states g') = 4"
    using zr l(7) by (simp_all add: zoom_result_def)
  ultimately show ?thesis
    using zn c l li slots [OF i] before same_sessions_tick [OF t len] by (simp add: sent_slot_def)
qed

lemma sent_slot_fields [simp]:
  "as_receiver (sent_slot active now tok x) = as_receiver x"
  "as_generation (sent_slot active now tok x) = as_generation x"
  "as_active (sent_slot active now tok x) = as_active x"
  "as_stop_requested (sent_slot active now tok x) = as_stop_requested x"
  "as_inflight (sent_slot active now tok x) = as_inflight x + 1"
  "as_awaiting_ack (sent_slot active now tok x)"
  by (simp_all add: sent_slot_def)

lemma find_same:
  assumes "table_ok s" "same_sessions (cs_g s) g" "i < 4" "as_active (slot (cs_g s) i)"
  shows "find_state_receiver_locked (as_receiver (slot (cs_g s) i)) g = Some i"
proof -
  have len: "length (ag_states (cs_g s)) = 4" using assms(1) by (rule table_len)
  have same: "as_active (slot g j) = as_active (slot (cs_g s) j)" "as_receiver (slot g j) = as_receiver (slot (cs_g s) j)"
    if "j < 4" for j using assms(2) len that by (auto simp: same_sessions_def same_session_def)
  show ?thesis
  proof (cases "find_state_receiver_locked (as_receiver (slot (cs_g s) i)) g")
    case None
    from find_receiver_NoneD [OF None assms(3)] same [OF assms(3)] assms(4) show ?thesis by simp
  next
    case (Some j)
    from find_receiver_SomeD [OF Some] same have "j < 4" "as_active (slot (cs_g s) j)"
      "as_receiver (slot (cs_g s) j) = as_receiver (slot (cs_g s) i)" by auto
    then have "j = i" using table_distinct [OF assms(1) _ assms(3) _ assms(4)] by blast
    with Some show ?thesis by simp
  qed
qed

lemma answered_round:
  assumes s: "served s i" and go: "snd (tick_slot active now (slot (cs_g s) i))"
  obtains s' late where "perform_all (answered_round active now) s = Some s'" "served s' i"
    "slot (cs_g s') i = answered_slot active now (ag_request_serial (cs_g s) + 1) (slot (cs_g s) i)"
    "cs_log s' = cs_log s @ map E_EXPIRED late @
       [E_SENT (slot_command (sent_slot active now (ag_request_serial (cs_g s) + 1) (slot (cs_g s) i))),
        E_ACKED (slot_command (sent_slot active now (ag_request_serial (cs_g s) + 1) (slot (cs_g s) i))) 0]"
    "\<not> as_awaiting_ack (slot (cs_g s) i) \<longrightarrow> session_log (as_generation (slot (cs_g s) i)) (map E_EXPIRED late) = []"
    "ag_request_serial (cs_g s') = ag_request_serial (cs_g s) + 1"
proof -
  let ?g = "cs_g s" and ?x = "slot (cs_g s) i"
  let ?y = "sent_slot active now (ag_request_serial ?g + 1) ?x"
  have tab: "table_ok s" "i < 4" "cs_pc s = T_IDLE" "as_inflight ?x = 0" using s by (simp_all add: served_def)
  obtain c z late g1 where t: "v8s_control_tick active now ?g = (c, z, late, g1)" by (metis prod_cases4)
  note k = served_tick [OF s go t]
  have el: "eligible ?x" using tick_slot_go [OF go] by blast
  then have act: "as_active ?x" "\<not> as_stop_requested ?x" by (simp_all add: eligible_def)
  have late: "\<not> as_awaiting_ack ?x \<longrightarrow> session_log (as_generation ?x) (map E_EXPIRED late) = []"
  proof -
    obtain g0 ps where "tick_result active now ?g c late g0 ps" "set ps \<subseteq> {..<4}" "distinct ps"
      by (rule control_tick_split [OF t table_len(1) [OF tab(1)]])
    from late_of_session [OF this(1,3,2) tab(1,2) act(1)] show ?thesis by (simp add: timed_out_def)
  qed
  define cmd where "cmd = slot_command ?y"
  have c: "z = None" "c = Some cmd" "slot g1 i = ?y" "length (ag_states g1) = 4" "same_sessions ?g g1"
    using k by (simp_all add: cmd_def)
  have kb: "\<forall>j < i. slot g1 j = slot ?g j" "ag_pending_zoom g1 = 0" "ag_request_serial g1 = ag_request_serial ?g + 1"
    using k by blast+
  have f1: "find_state_receiver_locked (cx_receiver cmd) g1 = Some i"
    using find_same [OF tab(1) c(5) tab(2) act(1)] by (simp add: cmd_def)
  define g2 where "g2 = on_slot i (\<lambda>x. x\<lparr>as_inflight := as_inflight x - 1\<rparr>) g1"
  have g2: "control_sent cmd g1 = g2"
    using f1 c(3) tab(4) by (simp add: control_sent_def g2_def cmd_def)
  have y2: "slot g2 i = ?y\<lparr>as_inflight := 0\<rparr>" "length (ag_states g2) = 4"
    using c(3,4) tab(2,4) by (simp_all add: g2_def)
  have same2: "same_sessions ?g g2"
    by (rule same_sessions_trans [OF c(5)]) (use c(3,4) tab(2) act in \<open>auto simp: g2_def intro!: same_sessions_on_slot\<close>)
  have f2: "find_state_receiver_locked (cx_receiver cmd) g2 = Some i"
    using find_same [OF tab(1) same2 tab(2) act(1)] by (simp add: cmd_def)
  define g3 where "g3 = on_slot i (take_answer 0 cmd) g2"
  have "awaits cmd (slot g2 i)" by (simp add: y2 awaits_def cmd_def)
  then have g3: "v8s_control_completion 0 cmd g2 = (True, g3)"
    using f2 act(2) y2(1) by (simp add: v8s_control_completion_def g3_def)
  have y3: "slot g3 i = answered_slot active now (ag_request_serial ?g + 1) ?x" "length (ag_states g3) = 4"
    using y2 tab by (simp_all add: g3_def answered_slot_def cmd_def)
  have same3: "same_sessions ?g g3"
    by (rule same_sessions_trans [OF same2]) (use y2 tab(2) act in \<open>auto simp: g3_def intro!: same_sessions_on_slot\<close>)
  define s' where "s' = s\<lparr>cs_g := g3, cs_log := cs_log s @ map E_EXPIRED late @ [E_SENT cmd, E_ACKED cmd 0]\<rparr>"
  have run: "perform_all (answered_round active now) s = Some s'"
    using tab(3) t c(1,2) g2 g3
    by (simp add: answered_round_def after_zoom_def remove_nth_def s'_def)
  have "table_ok s'"
    by (rule same_sessions_table [OF tab(1)]) (simp_all add: s'_def same3 table_len(2) [OF tab(1)])
  moreover have "slot g3 j = slot ?g j" if "j < i" for j
  proof -
    have "slot g3 j = slot g2 j" using y2(2) tab(2) that by (simp add: g3_def)
    also have "\<dots> = slot g1 j" using c(4) tab(2) that by (simp add: g2_def)
    finally show ?thesis using kb(1) that by simp
  qed
  moreover have "ag_pending_zoom g3 = 0" using kb(2) by (simp add: g3_def g2_def)
  moreover have "as_inflight (slot g3 i) = 0" unfolding y3(1) using tab(4) by (simp add: answered_slot_def)
  ultimately have "served s' i" using s by (simp add: served_def s'_def)
  moreover have "ag_request_serial g3 = ag_request_serial ?g + 1" using kb(3) by (simp add: g3_def g2_def)
  ultimately show thesis using run y3(1) late by (intro that [of s' late]) (simp_all add: s'_def cmd_def)
qed

lemma answered_step:
  assumes "served s i" "snd (tick_slot active now (slot (cs_g s) i))" "\<not> as_awaiting_ack (slot (cs_g s) i)"
    "n = ag_request_serial (cs_g s) + 1" "gen = as_generation (slot (cs_g s) i)"
  shows "\<exists>s' late. perform_all (answered_round active now) s = Some s' \<and> served s' i \<and>
    slot (cs_g s') i = answered_slot active now n (slot (cs_g s) i) \<and>
    cs_log s' = cs_log s @ map E_EXPIRED late @
      [E_SENT (slot_command (sent_slot active now n (slot (cs_g s) i))),
       E_ACKED (slot_command (sent_slot active now n (slot (cs_g s) i))) 0] \<and>
    session_log gen (map E_EXPIRED late) = [] \<and> ag_request_serial (cs_g s') = n"
  unfolding assms(4,5) by (rule answered_round [OF assms(1,2)]) (use assms(3) in blast)

section \<open>The startup of a screen\<close>

lemma answered_show:
  assumes "eligible x" "\<not> as_awaiting_ack x" "as_pending_view x \<ge> 0" "as_view_due_ms x \<le> now"
    "as_startup x \<or> active" "as_last_ui_slot x \<noteq> as_pending_view x div 2"
  shows "snd (tick_slot active now x)"
    and "slot_command (sent_slot active now tok x) = \<lparr>cx_receiver = as_receiver x, cx_generation = as_generation x,
           cx_token = tok, cx_stage = CONTROL_SHOW, cx_view = as_pending_view x\<rparr>"
    and "let y = answered_slot active now tok x in eligible y \<and> \<not> as_awaiting_ack y \<and> as_pending_view y = -1 \<and>
           as_stage y = CONTROL_VIEW \<and> as_target_view y = as_pending_view x \<and> as_startup y = as_startup x \<and>
           as_last_ui_slot y = as_pending_view x div 2 \<and> as_receiver y = as_receiver x \<and> as_generation y = as_generation x"
  using assms
  by (auto simp: tick_slot_def control_expire_def timed_out_def Let_def wants_command_def sent_slot_def
      answered_slot_def slot_command_def take_answer_result eligible_def take_answer_def)

lemma answered_view:
  assumes "eligible x" "\<not> as_awaiting_ack x" "as_pending_view x = -1" "as_stage x = CONTROL_VIEW"
    "as_startup x \<or> active"
  shows "snd (tick_slot active now x)"
    and "slot_command (sent_slot active now tok x) = \<lparr>cx_receiver = as_receiver x, cx_generation = as_generation x,
           cx_token = tok, cx_stage = CONTROL_VIEW, cx_view = as_target_view x\<rparr>"
    and "let y = answered_slot active now tok x in eligible y \<and> \<not> as_awaiting_ack y \<and> as_pending_view y = -1 \<and>
           as_stage y = CONTROL_KEYFRAME \<and> as_target_view y = as_target_view x \<and> as_startup y = as_startup x \<and>
           as_last_ui_slot y = as_last_ui_slot x \<and> as_receiver y = as_receiver x \<and> as_generation y = as_generation x"
  using assms
  by (auto simp: tick_slot_def control_expire_def timed_out_def Let_def wants_command_def sent_slot_def
      answered_slot_def slot_command_def take_answer_result eligible_def take_answer_def)

lemma answered_keyframe:
  assumes "eligible x" "\<not> as_awaiting_ack x" "as_pending_view x = -1" "as_stage x = CONTROL_KEYFRAME"
    "as_startup x \<or> active"
  shows "snd (tick_slot active now x)"
    and "slot_command (sent_slot active now tok x) = \<lparr>cx_receiver = as_receiver x, cx_generation = as_generation x,
           cx_token = tok, cx_stage = CONTROL_KEYFRAME, cx_view = as_target_view x\<rparr>"
    and "let y = answered_slot active now tok x in \<not> as_awaiting_ack y \<and> as_pending_view y = -1 \<and>
           as_stage y = CONTROL_IDLE \<and> as_current_view y = as_target_view x \<and> \<not> as_startup y \<and>
           as_last_ui_slot y = as_last_ui_slot x"
  using assms
  by (auto simp: tick_slot_def control_expire_def timed_out_def Let_def wants_command_def sent_slot_def
      answered_slot_def slot_command_def take_answer_result eligible_def take_answer_def)

definition answered_log :: "altscreen_state \<Rightarrow> int \<Rightarrow> (control_stage \<times> u64) list \<Rightarrow> control_event list" where
  "answered_log x v cs = concat (map (\<lambda>(stage, tok).
     let c = \<lparr>cx_receiver = as_receiver x, cx_generation = as_generation x, cx_token = tok, cx_stage = stage, cx_view = v\<rparr>
     in [E_SENT c, E_ACKED c 0]) cs)"

lemma startup_run:
  assumes s: "served s i" and x: "x = slot (cs_g s) i"
    and e: "eligible x" "\<not> as_awaiting_ack x" "as_pending_view x = v" "v \<ge> 0" "as_view_due_ms x \<le> now1"
      "as_startup x \<or> active" "as_last_ui_slot x \<noteq> v div 2"
    and n: "n = ag_request_serial (cs_g s)"
  shows "\<exists>s'. perform_all (answered_round active now1 @ answered_round active now2 @ answered_round active now3) s = Some s' \<and>
    as_current_view (slot (cs_g s') i) = v \<and> as_last_ui_slot (slot (cs_g s') i) = v div 2 \<and>
    as_stage (slot (cs_g s') i) = CONTROL_IDLE \<and>
    session_log (as_generation x) (cs_log s') = session_log (as_generation x) (cs_log s) @
      answered_log x v [(CONTROL_SHOW, n + 1), (CONTROL_VIEW, n + 2), (CONTROL_KEYFRAME, n + 3)]"
proof -
  note e1 = e(1,2) e(4) [folded e(3)] e(5,6) e(7) [folded e(3)]
  note a1 = answered_show [OF e1, unfolded Let_def]
  obtain s1 l1 where r1: "perform_all (answered_round active now1) s = Some s1" "served s1 i"
    and y1: "slot (cs_g s1) i = answered_slot active now1 (n + 1) x"
    and log1: "cs_log s1 = cs_log s @ map E_EXPIRED l1 @
      [E_SENT (slot_command (sent_slot active now1 (n + 1) x)), E_ACKED (slot_command (sent_slot active now1 (n + 1) x)) 0]"
      "session_log (as_generation x) (map E_EXPIRED l1) = []" "ag_request_serial (cs_g s1) = n + 1"
    using answered_step [OF s a1(1) [unfolded x] e(2) [unfolded x] arg_cong [OF n, of "\<lambda>k. k + 1"] arg_cong [OF x, of as_generation]]
    unfolding x [symmetric] by blast
  let ?x1 = "slot (cs_g s1) i"
  have e2: "eligible ?x1" "\<not> as_awaiting_ack ?x1" "as_pending_view ?x1 = -1" "as_stage ?x1 = CONTROL_VIEW"
    "as_startup ?x1 \<or> active" and t1: "as_target_view ?x1 = v" "as_last_ui_slot ?x1 = v div 2"
    "as_receiver ?x1 = as_receiver x" "as_generation ?x1 = as_generation x"
    unfolding y1 using a1(3) [where tok = "n + 1"] e(3,6) by auto
  note a2 = answered_view [OF e2, unfolded Let_def]
  have k2: "n + 2 = ag_request_serial (cs_g s1) + 1" using log1(3) by simp
  obtain s2 l2 where r2: "perform_all (answered_round active now2) s1 = Some s2" "served s2 i"
    and y2: "slot (cs_g s2) i = answered_slot active now2 (n + 2) ?x1"
    and log2: "cs_log s2 = cs_log s1 @ map E_EXPIRED l2 @
      [E_SENT (slot_command (sent_slot active now2 (n + 2) ?x1)), E_ACKED (slot_command (sent_slot active now2 (n + 2) ?x1)) 0]"
      "session_log (as_generation x) (map E_EXPIRED l2) = []" "ag_request_serial (cs_g s2) = n + 2"
    using answered_step [OF r1(2) a2(1) e2(2) k2 t1(4) [symmetric]] by blast
  let ?x2 = "slot (cs_g s2) i"
  have e3: "eligible ?x2" "\<not> as_awaiting_ack ?x2" "as_pending_view ?x2 = -1" "as_stage ?x2 = CONTROL_KEYFRAME"
    "as_startup ?x2 \<or> active" and t2: "as_target_view ?x2 = v" "as_last_ui_slot ?x2 = v div 2"
    "as_receiver ?x2 = as_receiver x" "as_generation ?x2 = as_generation x"
    unfolding y2 using a2(3) [where now = now2 and tok = "n + 2"] t1 e2(5) by auto
  note a3 = answered_keyframe [OF e3, unfolded Let_def]
  have k3: "n + 3 = ag_request_serial (cs_g s2) + 1" using log2(3) by simp
  obtain s3 l3 where r3: "perform_all (answered_round active now3) s2 = Some s3"
    and y3: "slot (cs_g s3) i = answered_slot active now3 (n + 3) ?x2"
    and log3: "cs_log s3 = cs_log s2 @ map E_EXPIRED l3 @
      [E_SENT (slot_command (sent_slot active now3 (n + 3) ?x2)), E_ACKED (slot_command (sent_slot active now3 (n + 3) ?x2)) 0]"
      "session_log (as_generation x) (map E_EXPIRED l3) = []"
    using answered_step [OF r2(2) a3(1) e3(2) k3 t2(4) [symmetric]] by blast
  have run: "perform_all (answered_round active now1 @ answered_round active now2 @ answered_round active now3) s = Some s3"
    using r1(1) r2(1) r3 by (simp add: perform_all_append)
  have "session_log (as_generation x) (cs_log s3) = session_log (as_generation x) (cs_log s) @
      answered_log x v [(CONTROL_SHOW, n + 1), (CONTROL_VIEW, n + 2), (CONTROL_KEYFRAME, n + 3)]"
    using log1 log2 log3 t1 t2 e(3) by (simp add: a1(2) a2(2) a3(2) answered_log_def Let_def)
  with run show ?thesis using a3(3) [where now = now3 and tok = "n + 3"] t2 unfolding y3 by (intro exI [of _ s3]) (simp add: y3)
qed

end
