(* ===== verification/Alt_Demo.thy ===== *)
theory Alt_Demo
  imports Alt_Startup
begin

text \<open>Closed runs of the sessions: a screen from its SETUP to its first view.\<close>

fun checked_run :: "alt_act list \<Rightarrow> alt_sys \<Rightarrow> alt_sys option" where
  "checked_run [] s = Some s"
| "checked_run (a # as) s = (if serials_fit s then Option.bind (perform a s) (checked_run as) else None)"

lemma checked_run_reach: "alt_reach s \<Longrightarrow> checked_run as s = Some s' \<Longrightarrow> alt_reach s'"
  by (induction as arbitrary: s) (auto split: Option.bind_splits if_splits intro: alt_step)

text \<open>SETUP for receiver 7 with worker thread 3, and the first frame at time 100.\<close>

definition demo_setup :: "alt_act list" where
  "demo_setup = [A_ALLOC 7, A_CREATE 0 3, A_CREATED 0, A_STARTED 0, A_FRAME 3, A_CLUSTER 0 100]"

definition demo_slot :: altscreen_state where
  "demo_slot = (new_slot 7 1)\<lparr>as_worker := 3, as_worker_started := True, as_screen_started := True,
     as_show_sent := True, as_pending_view := 0, as_view_due_ms := 100, as_startup := True\<rparr>"

definition demo_screen :: alt_sys where
  "demo_screen = init_sys\<lparr>
     cs_g := init_globals\<lparr>ag_states := [demo_slot, zero_session, zero_session, zero_session], ag_generation_serial := 1\<rparr>,
     cs_phase := [WORKER_RUNNING, NO_WORKER, NO_WORKER, NO_WORKER]\<rparr>"

lemma demo_screen_run: "checked_run demo_setup init_sys = Some demo_screen"
  by code_simp

lemma demo_screen_reach: "alt_reach demo_screen"
  by (rule checked_run_reach [OF alt_init demo_screen_run])

text \<open>The first command of the session is out.\<close>

definition demo_sent :: alt_sys where
  "demo_sent = the (checked_run [A_TICK False 100, A_SEND True 0, A_SENT] demo_screen)"

lemma demo_sent_run: "checked_run [A_TICK False 100, A_SEND True 0, A_SENT] demo_screen = Some demo_sent"
proof -
  have "checked_run [A_TICK False 100, A_SEND True 0, A_SENT] demo_screen \<noteq> None" by code_simp
  then show ?thesis by (simp add: demo_sent_def)
qed

lemma demo_sent_reach: "alt_reach demo_sent"
  by (rule checked_run_reach [OF demo_screen_reach demo_sent_run])

end
