(* ===== verification/Alt_Forward.thy ===== *)
theory Alt_Forward
  imports Status
begin

text \<open>
  altscreen/native/altscreen_output.c, the part under g_fwd_lock: the access units of the private
  screen are sent to the renderer over a connection on the loopback. A call of the kernel is an
  argument: the sockets and the clock are fields of a record, and the results of send are a script;
  a send that never returns is the end of its script, and the result is then None.
\<close>

abbreviation ALTSCREEN_FWD_BUFSZ :: nat where "ALTSCREEN_FWD_BUFSZ \<equiv> 384 * 1024"
abbreviation ALTSCREEN_FWD_RETRY_MS :: u64 where "ALTSCREEN_FWD_RETRY_MS \<equiv> 250"
abbreviation ALTSCREEN_FWD_SEND_STALL_MAX :: nat where "ALTSCREEN_FWD_SEND_STALL_MAX \<equiv> 20"
abbreviation ALTSCREEN_AV11_MAGIC :: u32 where "ALTSCREEN_AV11_MAGIC \<equiv> 0x31315641"

text \<open>Words in the byte order of the processor.\<close>

definition write_le32 :: "u32 \<Rightarrow> bytes" where
  "write_le32 v = rev (write_be32 v)"

definition read_le32 :: "bytes \<Rightarrow> nat \<Rightarrow> u32 option" where
  "read_le32 p i = do {
     a \<leftarrow> rd8 p i; b \<leftarrow> rd8 p (i + 1); c \<leftarrow> rd8 p (i + 2); d \<leftarrow> rd8 p (i + 3);
     Some (be32 d c b a) }"

definition le64 :: "u32 \<Rightarrow> u32 \<Rightarrow> u64" where
  "le64 lo hi = be64 hi lo"

definition read_le64 :: "bytes \<Rightarrow> nat \<Rightarrow> u64 option" where
  "read_le64 p i = do { lo \<leftarrow> read_le32 p i; hi \<leftarrow> read_le32 p (i + 4); Some (le64 lo hi) }"

text \<open>The socket calls of the component.\<close>

datatype fwd_event = F_SOCKET int | F_CONNECTED int | F_SENT int bytes | F_CLOSE int

datatype fwd_res = FwdSent nat | FwdEINTR | FwdTimeout | FwdError

record forward =
  fw_stub_active :: bool
  fw_fd :: int
  fw_retry_ms :: u64
  fw_sent :: u32
  fw_dropped :: u32
  fw_parameter_sets :: bytes
  fw_need_idr :: bool
  fw_last_keyframe_request_ms :: u64
  fw_width :: u32
  fw_height :: u32
  fw_fps :: u32

text \<open>The static state; the cached parameter sets are the bytes in use of their buffer.\<close>

definition init_forward :: forward where
  "init_forward = \<lparr>fw_stub_active = False, fw_fd = -1, fw_retry_ms = 0, fw_sent = 0, fw_dropped = 0,
     fw_parameter_sets = [], fw_need_idr = False, fw_last_keyframe_request_ms = 0, fw_width = 0,
     fw_height = 0, fw_fps = 0\<rparr>"

text \<open>What the calls outside answer; fe_now and fe_later are fwd_now_ms, 0 when there is no clock.\<close>

record fwd_env =
  fe_now :: u64
  fe_socket :: int
  fe_connected :: bool
  fe_later :: u64
  fe_sends :: "fwd_res list"

section \<open>The connection\<close>

definition fwd_close_locked :: "forward \<Rightarrow> fwd_event list \<times> forward" where
  "fwd_close_locked f = (if fw_fd f \<ge> 0 then ([F_CLOSE (fw_fd f)], f\<lparr>fw_fd := -1\<rparr>) else ([], f))"

definition fwd_reset_locked :: "forward \<Rightarrow> fwd_event list \<times> forward" where
  "fwd_reset_locked f =
     (let (es, f) = fwd_close_locked f
      in (es, f\<lparr>fw_retry_ms := 0, fw_sent := 0, fw_dropped := 0, fw_need_idr := False,
                fw_last_keyframe_request_ms := 0, fw_parameter_sets := [], fw_width := 0,
                fw_height := 0, fw_fps := 0\<rparr>))"

definition fwd_connect_locked :: "fwd_env \<Rightarrow> forward \<Rightarrow> bool \<times> fwd_event list \<times> forward" where
  "fwd_connect_locked fe f =
     (if fw_fd f \<ge> 0 then (True, [], f)
      else if fe_now fe \<noteq> 0 \<and> fe_now fe < fw_retry_ms f then (False, [], f)
      else let f = (if fe_now fe \<noteq> 0 then f\<lparr>fw_retry_ms := fe_now fe + ALTSCREEN_FWD_RETRY_MS\<rparr> else f);
               fd = fe_socket fe
      in if fd < 0 then (False, [], f)
         else if \<not> fe_connected fe then (False, [F_SOCKET fd, F_CLOSE fd], f)
         else (True, [F_SOCKET fd, F_CONNECTED fd],
               f\<lparr>fw_fd := fd, fw_need_idr := True, fw_last_keyframe_request_ms := 0\<rparr>))"

section \<open>Writing a frame\<close>

text \<open>The loop over send: whether all bytes went out, the bytes that did, and the rest of the script.\<close>

fun fwd_loop :: "fwd_res list \<Rightarrow> nat \<Rightarrow> bytes \<Rightarrow> (bool \<times> bytes \<times> fwd_res list) option" where
  "fwd_loop rs stalls [] = Some (True, [], rs)"
| "fwd_loop [] stalls (b # p) = None"
| "fwd_loop (FwdEINTR # rs) stalls (b # p) = fwd_loop rs stalls (b # p)"
| "fwd_loop (FwdTimeout # rs) stalls (b # p) =
     (if stalls + 1 \<le> ALTSCREEN_FWD_SEND_STALL_MAX then fwd_loop rs (stalls + 1) (b # p)
      else Some (False, [], rs))"
| "fwd_loop (FwdError # rs) stalls (b # p) = Some (False, [], rs)"
| "fwd_loop (FwdSent n # rs) stalls (b # p) =
     (if n = 0 then Some (False, [], rs)
      else let k = min n (length (b # p)) in do {
        (ok, out, rs') \<leftarrow> fwd_loop rs stalls (drop k (b # p));
        Some (ok, take k (b # p) @ out, rs') })"

definition fwd_header :: "u32 \<Rightarrow> u64 \<Rightarrow> u32 \<Rightarrow> bytes" where
  "fwd_header len timestamp flg =
     write_le32 ALTSCREEN_AV11_MAGIC @ write_le32 len @ write_le32 (ucast (timestamp AND 0xFFFFFFFF)) @
     write_le32 (ucast (drop_bit 32 timestamp)) @ write_le32 flg"

text \<open>Data that is NULL is the empty list; len is the length of the list.\<close>

definition fwd_write_locked :: "bytes \<Rightarrow> u64 \<Rightarrow> u32 \<Rightarrow> fwd_res list \<Rightarrow> forward \<Rightarrow>
    (bool \<times> fwd_event list \<times> fwd_res list \<times> forward) option" where
  "fwd_write_locked data timestamp flg rs f =
     (if fw_fd f < 0 \<or> data = [] then Some (False, [], rs, f)
      else if 20 + length data > ALTSCREEN_FWD_BUFSZ
      then Some (False, [], rs, f\<lparr>fw_dropped := fw_dropped f + 1\<rparr>)
      else do {
        (ok, out, rs) \<leftarrow> fwd_loop rs 0 (fwd_header (of_nat (length data)) timestamp flg @ data);
        if ok then Some (True, [F_SENT (fw_fd f) out], rs, f\<lparr>fw_sent := fw_sent f + 1\<rparr>)
        else let (es, g) = fwd_close_locked f
             in Some (False, F_SENT (fw_fd f) out # es, rs, g\<lparr>fw_dropped := fw_dropped g + 1\<rparr>) })"

section \<open>The units of an access unit\<close>

definition start_code :: "bytes \<Rightarrow> nat \<Rightarrow> nat option" where
  "start_code data i = do {
     a \<leftarrow> rd8 data i; b \<leftarrow> rd8 data (i + 1); c \<leftarrow> rd8 data (i + 2); d \<leftarrow> rd8 data (i + 3);
     Some (if a = 0 \<and> b = 0 \<and> c = 1 then 3
           else if i + 5 \<le> length data \<and> a = 0 \<and> b = 0 \<and> c = 0 \<and> d = 1 then 4 else 0) }"

text \<open>The loop that collects starts and types.\<close>

function scan_units :: "bytes \<Rightarrow> nat \<Rightarrow> nat \<Rightarrow> (nat \<times> u8) list option" where
  "scan_units data i count =
     (if i + 4 \<le> length data \<and> count < 64 then
        case start_code data i of
          None \<Rightarrow> None
        | Some code \<Rightarrow>
            if code \<noteq> 0 \<and> i + code < length data then do {
              t \<leftarrow> rd8 data (i + code);
              us \<leftarrow> scan_units data (i + code) (count + 1);
              Some ((i, t AND 0x1F) # us) }
            else scan_units data (i + 1) count
      else Some [])"
  by auto
termination by (relation "measure (\<lambda>(data, i, count). length data - i)") auto

declare scan_units.simps [simp del]

text \<open>The bytes from the first SPS to the end of its run of parameter sets, when there is a PPS in it.\<close>

definition parameter_sets :: "bytes \<Rightarrow> (nat \<times> u8) list \<Rightarrow> bytes option" where
  "parameter_sets data us =
     (case dropWhile (\<lambda>(s, t). t \<noteq> 7) us of
        [] \<Rightarrow> None
      | (s, t) # vs \<Rightarrow>
          let run = takeWhile (\<lambda>(s, t). t = 7 \<or> t = 8) ((s, t) # vs);
              rest = dropWhile (\<lambda>(s, t). t = 7 \<or> t = 8) ((s, t) # vs);
              stop = (case rest of [] \<Rightarrow> length data | (e, _) # _ \<Rightarrow> e)
          in if (\<exists>u \<in> set run. snd u = 8) \<and> 0 < stop - s \<and> stop - s \<le> 512
             then Some (take (stop - s) (drop s data)) else None)"

definition fwd_scan_parameter_sets :: "bytes \<Rightarrow> forward \<Rightarrow> (bool \<times> bool \<times> forward) option" where
  "fwd_scan_parameter_sets data f = do {
     us \<leftarrow> scan_units data 0 0;
     Some ((\<exists>u \<in> set us. snd u = 5), (\<exists>u \<in> set us. snd u = 7 \<or> snd u = 8),
           case parameter_sets data us of None \<Rightarrow> f | Some ps \<Rightarrow> f\<lparr>fw_parameter_sets := ps\<rparr>) }"

section \<open>An access unit\<close>

text \<open>Whether a fresh keyframe is requested after the lock is released, and the socket calls.\<close>

definition fwd_send_access_unit :: "fwd_env \<Rightarrow> bytes \<Rightarrow> u64 \<Rightarrow> u32 \<Rightarrow> forward \<Rightarrow>
    (bool \<times> fwd_event list \<times> forward) option" where
  "fwd_send_access_unit fe data timestamp flg f =
     (if data = [] then Some (False, [], f)
      else do {
        (has_idr, has_parameter_sets, f) \<leftarrow> fwd_scan_parameter_sets data f;
        let fresh = fw_fd f < 0;
        let (ok, es, f) = fwd_connect_locked fe f;
        if \<not> ok then Some (False, es, f\<lparr>fw_dropped := fw_dropped f + 1\<rparr>)
        else do {
          (es, rs, f) \<leftarrow>
            (if fresh \<and> \<not> has_parameter_sets \<and> fw_parameter_sets f \<noteq> [] then do {
               (_, es', rs, f) \<leftarrow> fwd_write_locked (fw_parameter_sets f) timestamp 0 (fe_sends fe) f;
               Some (es @ es', rs, f) }
             else Some (es, fe_sends fe, f));
          if fw_fd f < 0 then Some (False, es, f)
          else
            let due = fw_last_keyframe_request_ms f = 0 \<or> fe_later fe = 0 \<or>
                      fe_later fe - fw_last_keyframe_request_ms f \<ge> 750;
                request = fw_need_idr f \<and> \<not> has_idr \<and> due;
                f = (if fw_need_idr f \<and> has_idr
                     then f\<lparr>fw_need_idr := False, fw_last_keyframe_request_ms := 0\<rparr>
                     else if request
                     then f\<lparr>fw_last_keyframe_request_ms := (if fe_later fe \<noteq> 0 then fe_later fe else 1)\<rparr>
                     else f)
            in if fw_need_idr f \<and> \<not> has_parameter_sets
               then Some (request, es, f\<lparr>fw_dropped := fw_dropped f + 1\<rparr>)
               else do {
                 (_, es', _, f) \<leftarrow> fwd_write_locked data timestamp flg rs f;
                 Some (request, es @ es', f) } } })"

section \<open>The stub of the video library\<close>

text \<open>The locked parts of NvSSVideoOpen, NvSSVideoStreamConfigure and NvSSVideoClose for the stub.\<close>

definition stub_open_locked :: "forward \<Rightarrow> bool \<times> fwd_event list \<times> forward" where
  "stub_open_locked f =
     (if fw_stub_active f then (False, [], f)
      else let (es, f) = fwd_reset_locked f in (True, es, f\<lparr>fw_stub_active := True\<rparr>))"

definition stub_configured :: "u32 \<Rightarrow> u32 \<Rightarrow> u32 \<Rightarrow> forward \<Rightarrow> forward" where
  "stub_configured w h fps f = f\<lparr>fw_width := w, fw_height := h, fw_fps := fps\<rparr>"

definition stub_close_locked :: "forward \<Rightarrow> fwd_event list \<times> forward" where
  "stub_close_locked f =
     (let (es, f) = fwd_close_locked f
      in (es, f\<lparr>fw_stub_active := False, fw_need_idr := False, fw_last_keyframe_request_ms := 0\<rparr>))"

end
