(* ===== verification/Alt_Renderer.thy ===== *)
theory Alt_Renderer
  imports Alt_Forward
begin

text \<open>
  altscreen/renderer/k2161/vc_render.c: the process that owns the video instance of the cluster. It
  reads the frames that Alt_Forward writes and hands each one to the decoder. The calls of the video
  library are arguments; the reads are a script over the bytes of the connection. The measurements
  of the decoding time, which are only logged, are left out.
\<close>

abbreviation VR_MAGIC :: u32 where "VR_MAGIC \<equiv> 0x31315641"
abbreviation VR_MAX_AU :: nat where "VR_MAX_AU \<equiv> 2 * 1024 * 1024"

record vr_options =
  vo_out :: u32
  vo_layer :: u32
  vo_width :: u32
  vo_height :: u32
  vo_fps_bits :: u32
  vo_ts_mode :: nat

text \<open>The calls of the video library.\<close>

datatype nv_call = NV_OPEN bytes | NV_CONFIGURE ptr bytes | NV_ATTRIBS ptr | NV_DECODE ptr bytes bytes | NV_CLOSE ptr

text \<open>Their answers: the result and the handle of open, the result of configure.\<close>

record nv_env =
  ne_open :: u32
  ne_handle :: ptr
  ne_configure :: u32

definition nv_params :: "vr_options \<Rightarrow> bytes" where
  "nv_params v = write_le32 (vo_out v) @ replicate 4 0 @ [0x64, 1, ucast (vo_layer v), 0] @ write_le32 8 @ replicate 8 0"

definition nv_start :: "nv_env \<Rightarrow> vr_options \<Rightarrow> int \<times> ptr \<times> nv_call list" where
  "nv_start ne v =
     (let h = ne_handle ne; opened = [NV_OPEN (nv_params v)] in
      if ne_open ne \<noteq> 0 \<or> h = NULL then (-1, NULL, opened)
      else let cfg = write_le32 (vo_width v) @ write_le32 (vo_height v) @ write_le32 (vo_fps_bits v);
               configured = opened @ [NV_CONFIGURE h cfg]
      in if ne_configure ne \<noteq> 0 then (-1, NULL, configured @ [NV_CLOSE h])
         else (0, h, configured @ [NV_ATTRIBS h]))"

definition nv_stop :: "ptr \<Rightarrow> nv_call list" where
  "nv_stop h = (if h \<noteq> NULL then [NV_CLOSE h] else [])"

text \<open>
  One read: some bytes of the connection, an interrupted call with the value of g_quit behind it,
  or an error. The stream is what the writer sent before it closed: a read at its end answers 0.
\<close>

datatype vr_read = VrSome nat | VrEINTR bool | VrError

fun read_full :: "vr_read list \<Rightarrow> bytes \<Rightarrow> nat \<Rightarrow> (int \<times> bytes \<times> vr_read list \<times> bytes) option" where
  "read_full rs st 0 = Some (0, [], rs, st)"
| "read_full [] st (Suc n) = None"
| "read_full (VrEINTR quit # rs) st (Suc n) = (if quit then Some (-1, [], rs, st) else read_full rs st (Suc n))"
| "read_full (VrError # rs) st (Suc n) = Some (-1, [], rs, st)"
| "read_full (VrSome m # rs) st (Suc n) =
     (if st = [] then Some (-1, [], rs, st)
      else let k = min (max 1 m) (min (Suc n) (length st)) in do {
        (rc, buf, rs', st') \<leftarrow> read_full rs (drop k st) (Suc n - k);
        Some (rc, take k st @ buf, rs', st') })"

text \<open>The argument of the decoder.\<close>

definition decode_args :: "u32 \<Rightarrow> u32 \<Rightarrow> u64 \<Rightarrow> u32 \<Rightarrow> bytes" where
  "decode_args address len ts flg =
     write_le32 address @ write_le32 len @
     write_le32 (ucast (ts AND 0xFFFFFFFF)) @ write_le32 (ucast (drop_bit 32 ts)) @
     [ucast (flg AND 0xFF)] @ replicate 0x17 0"

text \<open>What one pass of the loop finds outside: g_quit, the clock, and the result of the decoder.\<close>

record vr_pass =
  vp_quit :: bool
  vp_clock :: u64
  vp_decoded :: u32

record vr_state =
  vr_handle :: ptr
  vr_frames :: u32
  vr_dec_err :: u32

definition frame_time :: "nat \<Rightarrow> u64 \<Rightarrow> u64 \<Rightarrow> u64" where
  "frame_time mode clock ts = (if mode = 1 then clock else if mode = 2 then 0 else ts)"

text \<open>
  The loop of serve_client, au the address of its buffer of VR_MAX_AU bytes; writing past the
  buffer is the result None, as is a script that ends before the loop does.
\<close>

fun serve_loop :: "u32 \<Rightarrow> nat \<Rightarrow> vr_pass list \<Rightarrow> vr_read list \<Rightarrow> bytes \<Rightarrow> vr_state \<Rightarrow>
    (nv_call list \<times> vr_state \<times> bytes) option" where
  "serve_loop au mode [] rs st v = None"
| "serve_loop au mode (p # ps) rs st v =
     (if vp_quit p then Some ([], v, st)
      else do {
        (rc, hdr, rs, st) \<leftarrow> read_full rs st 20;
        if rc \<noteq> 0 then Some ([], v, st)
        else do {
          magic \<leftarrow> read_le32 hdr 0;
          len \<leftarrow> read_le32 hdr 4;
          if magic \<noteq> VR_MAGIC \<or> len = 0 \<or> len > of_nat VR_MAX_AU then Some ([], v, st)
          else if unat len > VR_MAX_AU then None
          else do {
            (rc, data, rs, st) \<leftarrow> read_full rs st (unat len);
            if rc \<noteq> 0 then Some ([], v, st)
            else if vr_handle v = NULL then serve_loop au mode ps rs st v
            else do {
              lo \<leftarrow> read_le32 hdr 8;
              hi \<leftarrow> read_le32 hdr 12;
              flg \<leftarrow> read_le32 hdr 16;
              let ts = frame_time mode (vp_clock p) (le64 lo hi);
              let v' = v\<lparr>vr_frames := vr_frames v + 1,
                         vr_dec_err := vr_dec_err v + (if vp_decoded p \<noteq> 0 then 1 else 0)\<rparr>;
              (cs, v, st) \<leftarrow> serve_loop au mode ps rs st v';
              Some (NV_DECODE (vr_handle v') (decode_args au len ts flg) data # cs, v, st) } } } })"

text \<open>A client; au is the address of the buffer, or NULL when malloc fails.\<close>

definition serve_client :: "u32 \<Rightarrow> nv_env \<Rightarrow> vr_options \<Rightarrow> vr_pass list \<Rightarrow> vr_read list \<Rightarrow> bytes \<Rightarrow>
    (nv_call list \<times> vr_state) option" where
  "serve_client au ne opts ps rs st =
     (if au = 0 then Some ([], \<lparr>vr_handle = NULL, vr_frames = 0, vr_dec_err = 0\<rparr>)
      else let (rc, h, calls) = nv_start ne opts in do {
        (cs, v, st') \<leftarrow> serve_loop au (vo_ts_mode opts) ps rs st \<lparr>vr_handle = h, vr_frames = 0, vr_dec_err = 0\<rparr>;
        Some (calls @ cs @ nv_stop (vr_handle v), v\<lparr>vr_handle := NULL\<rparr>) })"

section \<open>Reading\<close>

lemma read_some:
  assumes "st \<noteq> []" "read_full (VrSome m # rs) st (Suc n) = Some (rc, buf, rs', st')"
  obtains k b where "0 < k" "k \<le> Suc n" "k \<le> length st" "buf = take k st @ b"
    "read_full rs (drop k st) (Suc n - k) = Some (rc, b, rs', st')"
proof
  let ?k = "min (max 1 m) (min (Suc n) (length st))"
  show "0 < ?k" "?k \<le> Suc n" "?k \<le> length st" using assms(1) by auto
  from assms obtain b where "read_full rs (drop ?k st) (Suc n - ?k) = Some (rc, b, rs', st')" "buf = take ?k st @ b"
    by (auto simp: Let_def bind_eq_Some_conv)
  then show "buf = take ?k st @ drop ?k buf" "read_full rs (drop ?k st) (Suc n - ?k) = Some (rc, drop ?k buf, rs', st')"
    by simp_all
qed

lemma read_full_result:
  "read_full rs st n = Some (rc, buf, rs', st') \<Longrightarrow>
     (rc = 0 \<and> n \<le> length st \<and> buf = take n st \<and> st' = drop n st) \<or> rc = -1"
proof (induction rs arbitrary: st n buf)
  case Nil
  then show ?case by (cases n) simp_all
next
  case (Cons r rs)
  show ?case
  proof (cases n)
    case 0
    with Cons.prems show ?thesis by simp
  next
    case (Suc l)
    show ?thesis
    proof (cases r)
      case (VrSome m)
      show ?thesis
      proof (cases "st = []")
        case False
        from Cons.prems obtain k b where k: "0 < k" "k \<le> n" "k \<le> length st" "buf = take k st @ b"
          and b: "read_full rs (drop k st) (n - k) = Some (rc, b, rs', st')"
          unfolding VrSome Suc by (rule read_some [OF False])
        have e: "k + (n - k) = n" using k(2) by simp
        from Cons.IH [OF b] show ?thesis
        proof
          assume *: "rc = 0 \<and> n - k \<le> length (drop k st) \<and> b = take (n - k) (drop k st) \<and> st' = drop (n - k) (drop k st)"
          then have "buf = take (k + (n - k)) st" "st' = drop (k + (n - k)) st"
            using k(4) by (simp_all only: take_add drop_drop add.commute)
          moreover from * have "n - k \<le> length st - k" by simp
          then have "n \<le> length st" using k(2,3) by linarith
          ultimately show ?thesis using * e by simp
        qed simp
      qed (use Cons.prems VrSome Suc in simp)
    next
      case (VrEINTR q)
      with Cons Suc show ?thesis by (cases q) simp_all
    next
      case VrError
      with Cons.prems Suc show ?thesis by simp
    qed
  qed
qed

text \<open>A script without errors and interruptions to quit: the reading fails only at the end of the stream.\<close>

definition reads_good :: "vr_read list \<Rightarrow> bool" where
  "reads_good rs \<longleftrightarrow> VrError \<notin> set rs \<and> VrEINTR True \<notin> set rs"

lemma reads_good_Cons [simp]: "reads_good (r # rs) \<longleftrightarrow> r \<noteq> VrError \<and> r \<noteq> VrEINTR True \<and> reads_good rs"
  by (auto simp: reads_good_def)

lemma read_full_good:
  "read_full rs st n = Some (rc, buf, rs', st') \<Longrightarrow> reads_good rs \<Longrightarrow>
     reads_good rs' \<and> (n \<le> length st \<longrightarrow> rc = 0)"
proof (induction rs arbitrary: st n buf)
  case Nil
  then show ?case by (cases n) simp_all
next
  case (Cons r rs)
  show ?case
  proof (cases n)
    case 0
    with Cons.prems show ?thesis by simp
  next
    case (Suc l)
    show ?thesis
    proof (cases r)
      case (VrSome m)
      show ?thesis
      proof (cases "st = []")
        case False
        from Cons.prems(1) obtain k b where k: "0 < k" "k \<le> n" "k \<le> length st" "buf = take k st @ b"
          and b: "read_full rs (drop k st) (n - k) = Some (rc, b, rs', st')"
          unfolding VrSome Suc by (rule read_some [OF False])
        from Cons.IH [OF b] Cons.prems(2) show ?thesis by simp
      qed (use Cons.prems VrSome Suc in auto)
    next
      case (VrEINTR q)
      with Cons Suc show ?thesis by (cases q) simp_all
    next
      case VrError
      with Cons.prems Suc show ?thesis by simp
    qed
  qed
qed

text \<open>A script of reads that all return something is long enough when it has one element per byte, and one for the end.\<close>

lemma read_full_total:
  assumes "\<forall>r \<in> set rs. \<exists>m. r = VrSome m" "length st < length rs"
  shows "\<exists>rc buf rs' st'. read_full rs st n = Some (rc, buf, rs', st') \<and> (\<forall>r \<in> set rs'. \<exists>m. r = VrSome m) \<and>
    (rc = 0 \<longrightarrow> length st' < length rs')"
  using assms
proof (induction rs arbitrary: st n)
  case (Cons r rs)
  then obtain m where r: "r = VrSome m" by auto
  show ?case
  proof (cases n)
    case 0
    with Cons.prems show ?thesis by simp
  next
    case (Suc l)
    show ?thesis
    proof (cases "st = []")
      case True
      with Cons.prems Suc r show ?thesis by simp
    next
      case False
      let ?k = "min (max 1 m) (min n (length st))"
      have k: "0 < ?k" using False Suc by auto
      then have "length (drop ?k st) < length rs" using False Cons.prems(2) by (cases st) auto
      from Cons.IH [OF _ this, of "n - ?k"] Cons.prems(1) obtain rc buf rs' st' where
        "read_full rs (drop ?k st) (n - ?k) = Some (rc, buf, rs', st')" "\<forall>r \<in> set rs'. \<exists>m. r = VrSome m"
        "rc = 0 \<longrightarrow> length st' < length rs'" by auto
      then show ?thesis using False Suc r by (simp add: Let_def)
    qed
  qed
qed simp

section \<open>Frames\<close>

lemma length_write_le32 [simp]: "length (write_le32 v) = 4"
  by (simp add: write_le32_def)

lemma read_write_le32: "read_le32 (xs @ write_le32 v @ ys) (length xs) = Some v"
  by (simp add: read_le32_def rd8_def nth_append write_le32_def write_be32_def be32_def be32_write)

lemma length_fwd_header [simp]: "length (fwd_header len ts flg) = 20"
  by (simp add: fwd_header_def)

lemma le64_halves: "le64 (ucast (ts AND 0xFFFFFFFF)) (ucast (drop_bit 32 ts)) = ts"
  by (simp add: le64_def be64_def be64_write)

lemma header_fields:
  "read_le32 (fwd_header len ts flg) 0 = Some ALTSCREEN_AV11_MAGIC"
  "read_le32 (fwd_header len ts flg) 4 = Some len"
  "read_le32 (fwd_header len ts flg) 8 = Some (ucast (ts AND 0xFFFFFFFF))"
  "read_le32 (fwd_header len ts flg) 12 = Some (ucast (drop_bit 32 ts))"
  "read_le32 (fwd_header len ts flg) 16 = Some flg"
proof -
  let ?a = "write_le32 ALTSCREEN_AV11_MAGIC" and ?b = "write_le32 len"
    and ?c = "write_le32 (ucast (ts AND 0xFFFFFFFF))" and ?d = "write_le32 (ucast (drop_bit 32 ts))" and ?e = "write_le32 flg"
  show "read_le32 (fwd_header len ts flg) 0 = Some ALTSCREEN_AV11_MAGIC"
    using read_write_le32 [of "[]" ALTSCREEN_AV11_MAGIC] by (simp add: fwd_header_def)
  show "read_le32 (fwd_header len ts flg) 4 = Some len"
    using read_write_le32 [of ?a len] by (simp add: fwd_header_def)
  show "read_le32 (fwd_header len ts flg) 8 = Some (ucast (ts AND 0xFFFFFFFF))"
    using read_write_le32 [of "?a @ ?b"] by (simp add: fwd_header_def)
  show "read_le32 (fwd_header len ts flg) 12 = Some (ucast (drop_bit 32 ts))"
    using read_write_le32 [of "?a @ ?b @ ?c"] by (simp add: fwd_header_def)
  show "read_le32 (fwd_header len ts flg) 16 = Some flg"
    using read_write_le32 [of "?a @ ?b @ ?c @ ?d" flg "[]"] by (simp add: fwd_header_def)
qed

text \<open>A frame on the connection, and what the renderer makes of it.\<close>

record av_frame =
  av_data :: bytes
  av_time :: u64
  av_flag :: u32

definition av_wire :: "av_frame \<Rightarrow> bytes" where
  "av_wire a = fwd_header (of_nat (length (av_data a))) (av_time a) (av_flag a) @ av_data a"

definition av_ok :: "av_frame \<Rightarrow> bool" where
  "av_ok a \<longleftrightarrow> av_data a \<noteq> [] \<and> 20 + length (av_data a) \<le> ALTSCREEN_FWD_BUFSZ"

definition av_decode :: "ptr \<Rightarrow> u32 \<Rightarrow> av_frame \<Rightarrow> nv_call" where
  "av_decode h au a = NV_DECODE h (decode_args au (of_nat (length (av_data a))) (av_time a) (av_flag a)) (av_data a)"

lemma length_av_wire [simp]: "length (av_wire a) = 20 + length (av_data a)"
  by (simp add: av_wire_def)

lemma av_len:
  assumes "av_ok a"
  shows "unat (of_nat (length (av_data a)) :: u32) = length (av_data a)" "of_nat (length (av_data a)) \<noteq> (0 :: u32)"
    "\<not> (of_nat VR_MAX_AU :: u32) < of_nat (length (av_data a))" "\<not> VR_MAX_AU < length (av_data a)"
proof -
  have l: "0 < length (av_data a)" "length (av_data a) < 393216" using assms by (auto simp: av_ok_def)
  then show u: "unat (of_nat (length (av_data a)) :: u32) = length (av_data a)"
    by (simp add: unat_of_nat)
  with l show "of_nat (length (av_data a)) \<noteq> (0 :: u32)" by (metis unat_0 less_irrefl)
  show "\<not> (of_nat VR_MAX_AU :: u32) < of_nat (length (av_data a))"
    using u l by (simp add: word_less_nat_alt)
  show "\<not> VR_MAX_AU < length (av_data a)" using l by simp
qed

section \<open>What is decoded\<close>

definition decoding :: "u32 \<Rightarrow> vr_state \<Rightarrow> av_frame list \<Rightarrow> nv_call list" where
  "decoding au v fs = (if vr_handle v = NULL then [] else map (av_decode (vr_handle v) au) fs)"

lemma read_frame_header:
  assumes "read_full rs (av_wire a @ st) 20 = Some (rc, hdr, rs', st')" "reads_good rs"
  shows "rc = 0 \<and> hdr = fwd_header (of_nat (length (av_data a))) (av_time a) (av_flag a) \<and> st' = av_data a @ st \<and> reads_good rs'"
  using read_full_good [OF assms] read_full_result [OF assms(1)] by (simp add: av_wire_def)

lemma read_frame_data:
  assumes "read_full rs (d @ st) (length d) = Some (rc, data, rs', st')" "reads_good rs"
  shows "rc = 0 \<and> data = d \<and> st' = st \<and> reads_good rs'"
  using read_full_good [OF assms] read_full_result [OF assms(1)] by simp

text \<open>One whole frame: the loop goes on behind it.\<close>

lemma serve_frame:
  assumes a: "av_ok a" and r: "reads_good rs" and q: "\<not> vp_quit p"
    and s: "serve_loop au mode (p # ps) rs (av_wire a @ st) v = Some (cs, v', st')" and mode: "mode = 0"
  obtains rs1 v1 cs1 where "reads_good rs1" "serve_loop au mode ps rs1 st v1 = Some (cs1, v', st')"
    "vr_handle v1 = vr_handle v" "cs = decoding au v [a] @ cs1"
proof -
  let ?h = "fwd_header (of_nat (length (av_data a))) (av_time a) (av_flag a)"
  from s q obtain rc hdr rs0 st0 where h: "read_full rs (av_wire a @ st) 20 = Some (rc, hdr, rs0, st0)"
    by (auto simp: bind_eq_Some_conv)
  note h1 = read_frame_header [OF h r]
  note len = av_len [OF a]
  from s q h h1 len obtain rc1 data rs1 st1 where d: "read_full rs0 (av_data a @ st) (length (av_data a)) = Some (rc1, data, rs1, st1)"
    by (auto simp: bind_eq_Some_conv header_fields split: if_splits)
  from h1 have "reads_good rs0" by simp
  note d1 = read_frame_data [OF d this]
  note facts = q h h1 len d d1 header_fields le64_halves
  show thesis
  proof (cases "vr_handle v = NULL")
    case True
    with s facts have "serve_loop au mode ps rs1 st v = Some (cs, v', st')"
      by (simp add: bind_eq_Some_conv split: if_splits)
    with True d1 show thesis by (intro that [of rs1 v cs]) (simp_all add: decoding_def)
  next
    case False
    let ?v = "v\<lparr>vr_frames := vr_frames v + 1, vr_dec_err := vr_dec_err v + (if vp_decoded p \<noteq> 0 then 1 else 0)\<rparr>"
    from s facts False mode obtain cs1 where
      "serve_loop au mode ps rs1 st ?v = Some (cs1, v', st')"
      "cs = NV_DECODE (vr_handle v) (decode_args au (of_nat (length (av_data a))) (av_time a) (av_flag a)) (av_data a) # cs1"
      by (auto simp: bind_eq_Some_conv Let_def frame_time_def split: if_splits)
    with False d1 show thesis by (intro that [of rs1 ?v cs1]) (simp_all add: decoding_def av_decode_def)
  qed
qed

text \<open>The bytes of a frame of which the end is missing, or nothing.\<close>

definition av_partial :: "bytes \<Rightarrow> bool" where
  "av_partial p \<longleftrightarrow> p = [] \<or> (\<exists>a q. av_ok a \<and> q \<noteq> [] \<and> av_wire a = p @ q)"

lemma serve_partial:
  assumes part: "av_partial st" and s: "serve_loop au mode (p # ps) rs st v = Some (cs, v', st')"
  shows "cs = [] \<and> v' = v"
proof (cases "vp_quit p")
  case False
  with s obtain rc hdr rs0 st0 where h: "read_full rs st 20 = Some (rc, hdr, rs0, st0)"
    by (auto simp: bind_eq_Some_conv)
  show ?thesis
  proof (cases "rc = 0")
    case True
    with read_full_result [OF h] have hd: "20 \<le> length st" "hdr = take 20 st" "st0 = drop 20 st" by auto
    with part obtain a q where a: "av_ok a" "q \<noteq> []" "av_wire a = st @ q" by (auto simp: av_partial_def)
    have "take 20 (av_wire a) = hdr" using hd a(3) by simp
    then have hdr: "hdr = fwd_header (of_nat (length (av_data a))) (av_time a) (av_flag a)" by (simp add: av_wire_def)
    have "20 + length (av_data a) = length st + length q" using arg_cong [OF a(3), of length] by simp
    moreover have "0 < length q" using a(2) by simp
    moreover have "length st0 = length st - 20" using hd(3) by simp
    ultimately have short: "\<not> length (av_data a) \<le> length st0" using hd(1) by linarith
    note len = av_len [OF a(1)]
    from s False h True hdr len obtain rc1 data rs1 st1 where d: "read_full rs0 st0 (length (av_data a)) = Some (rc1, data, rs1, st1)"
      by (auto simp: bind_eq_Some_conv header_fields split: if_splits)
    from read_full_result [OF d] short have "rc1 \<noteq> 0" by auto
    with s False h True hdr len d show ?thesis by (simp add: header_fields)
  qed (use s False h in simp)
qed (use s in simp)

lemma serve_frames:
  assumes "list_all av_ok fs" "av_partial part" "reads_good rs" "\<forall>p \<in> set ps. \<not> vp_quit p" "mode = 0"
    "serve_loop au mode ps rs (concat (map av_wire fs) @ part) v = Some (cs, v', st')"
  shows "cs = decoding au v fs \<and> vr_handle v' = vr_handle v"
  using assms
proof (induction fs arbitrary: ps rs v cs)
  case Nil
  then show ?case
  proof (cases ps)
    case (Cons p qs)
    with Nil have "serve_loop au mode (p # qs) rs part v = Some (cs, v', st')" by simp
    from serve_partial [OF Nil.prems(2) this] show ?thesis by (simp add: decoding_def)
  qed simp
next
  case (Cons a fs)
  show ?case
  proof (cases ps)
    case Nil
    with Cons.prems(6) show ?thesis by simp
  next
    case (Cons p qs)
    note s = Cons.prems(6) [unfolded Cons list.map concat.simps append_assoc]
    have a: "av_ok a" and q: "\<not> vp_quit p" using Cons.prems(1,4) Cons by simp_all
    obtain rs1 v1 cs1 where r1: "reads_good rs1"
      "serve_loop au mode qs rs1 (concat (map av_wire fs) @ part) v1 = Some (cs1, v', st')"
      "vr_handle v1 = vr_handle v" "cs = decoding au v [a] @ cs1"
      by (rule serve_frame [OF a Cons.prems(3) q s Cons.prems(5)])
    have "cs1 = decoding au v1 fs \<and> vr_handle v' = vr_handle v1"
      by (rule Cons.IH [OF _ Cons.prems(2) r1(1) _ Cons.prems(5) r1(2)]) (use Cons.prems(1,4) Cons in simp_all)
    with r1(3,4) show ?thesis by (simp add: decoding_def)
  qed
qed

text \<open>With one read and one pass per byte the loop comes to its end, whatever the bytes are.\<close>

lemma header_readable:
  "length hdr = 20 \<Longrightarrow> i + 3 < 20 \<Longrightarrow> \<exists>w. read_le32 hdr i = Some w"
  by (simp add: read_le32_def rd8_def)

lemma serve_total:
  assumes "\<forall>r \<in> set rs. \<exists>m. r = VrSome m" "length st < length rs" "length st < length ps"
  shows "\<exists>x. serve_loop au mode ps rs st v = Some x"
  using assms
proof (induction ps arbitrary: rs st v)
  case (Cons p ps)
  show ?case
  proof (cases "vp_quit p")
    case False
    obtain rc hdr rs0 st0 where h: "read_full rs st 20 = Some (rc, hdr, rs0, st0)" "\<forall>r \<in> set rs0. \<exists>m. r = VrSome m"
      "rc = 0 \<longrightarrow> length st0 < length rs0" using read_full_total [OF Cons.prems(1,2), of 20] by blast
    show ?thesis
    proof (cases "rc = 0")
      case True
      with read_full_result [OF h(1)] have hd: "20 \<le> length st" "hdr = take 20 st" "st0 = drop 20 st" by auto
      then have l: "length hdr = 20" by simp
      obtain magic len lo hi flg where f: "read_le32 hdr 0 = Some magic" "read_le32 hdr 4 = Some len"
        "read_le32 hdr 8 = Some lo" "read_le32 hdr 12 = Some hi" "read_le32 hdr 16 = Some flg"
        using header_readable [OF l, of 0] header_readable [OF l, of 4] header_readable [OF l, of 8]
          header_readable [OF l, of 12] header_readable [OF l, of 16] by auto
      show ?thesis
      proof (cases "magic \<noteq> VR_MAGIC \<or> len = 0 \<or> len > of_nat VR_MAX_AU")
        case True
        with False h(1) \<open>rc = 0\<close> f show ?thesis by simp
      next
        case ok: False
        have "\<not> VR_MAX_AU < unat len" using ok by (simp add: word_less_nat_alt)
        moreover obtain rc1 data rs1 st1 where d: "read_full rs0 st0 (unat len) = Some (rc1, data, rs1, st1)"
          "\<forall>r \<in> set rs1. \<exists>m. r = VrSome m" "rc1 = 0 \<longrightarrow> length st1 < length rs1"
          using read_full_total [OF h(2), of st0 "unat len"] h(3) True by blast
        moreover have "length st1 < length ps" if "rc1 = 0"
          using read_full_result [OF d(1)] that hd Cons.prems(3) by auto
        ultimately have rec: "\<exists>x. serve_loop au mode ps rs1 st1 w = Some x" if "rc1 = 0" for w
          using Cons.IH [of rs1 st1 w] that by blast
        note facts = False h(1) True ok \<open>\<not> VR_MAX_AU < unat len\<close> f d(1)
        show ?thesis
        proof (cases "rc1 = 0")
          case True
          let ?w = "v\<lparr>vr_frames := vr_frames v + 1, vr_dec_err := vr_dec_err v + (if vp_decoded p \<noteq> 0 then 1 else 0)\<rparr>"
          obtain x where x: "serve_loop au mode ps rs1 st1 v = Some x" using rec [OF True] by blast
          obtain cs w st2 where "serve_loop au mode ps rs1 st1 ?w = Some (cs, w, st2)"
            using rec [OF True, of ?w] by fastforce
          with x True facts show ?thesis by (cases x; cases "vr_handle v = NULL") (simp_all add: Let_def)
        qed (use facts in simp)
      qed
    qed (use False h in simp)
  qed simp
qed simp

end
