(* ===== verification/Alt_Units.thy ===== *)
theory Alt_Units
  imports Alt_Forward
begin

text \<open>
  The scan for the units of an access unit: it never reads outside of the buffer, it finds exactly the
  units of a stream that is built from them, and the parameter sets it keeps start with an SPS.
\<close>

section \<open>Safety\<close>

lemma start_code_total:
  "i + 4 \<le> length data \<Longrightarrow> \<exists>code. start_code data i = Some code \<and> code \<in> {0, 3, 4} \<and> (code = 4 \<longrightarrow> i + 5 \<le> length data)"
  by (auto simp: start_code_def rd8_def)

lemma scan_stop: "\<not> (i + 4 \<le> length data \<and> count < 64) \<Longrightarrow> scan_units data i count = Some []"
  by (subst scan_units.simps) (simp only: if_False)

lemma scan_hit:
  "i + 4 \<le> length data \<and> count < 64 \<Longrightarrow> start_code data i = Some code \<Longrightarrow> code \<noteq> 0 \<and> i + code < length data \<Longrightarrow>
   scan_units data i count =
     do { us \<leftarrow> scan_units data (i + code) (count + 1); Some ((i, data ! (i + code) AND 0x1F) # us) }"
  by (subst scan_units.simps) (simp add: rd8_def)

lemma scan_miss:
  "i + 4 \<le> length data \<and> count < 64 \<Longrightarrow> start_code data i = Some code \<Longrightarrow> \<not> (code \<noteq> 0 \<and> i + code < length data) \<Longrightarrow>
   scan_units data i count = scan_units data (i + 1) count"
  by (subst scan_units.simps) (simp only: if_True if_False option.case simp_thms)

lemma scan_total: "\<exists>us. scan_units data i count = Some us"
proof (induction data i count rule: scan_units.induct)
  case (1 data i count)
  show ?case
  proof (cases "i + 4 \<le> length data \<and> count < 64")
    case True
    then obtain code where code: "start_code data i = Some code" using start_code_total by blast
    show ?thesis
    proof (cases "code \<noteq> 0 \<and> i + code < length data")
      case t: True
      then obtain t where r: "rd8 data (i + code) = Some t" by (simp add: rd8_def)
      from 1(1) [OF True code t r] obtain us where "scan_units data (i + code) (count + 1) = Some us" ..
      with scan_hit [OF True code t] show ?thesis by simp
    next
      case False
      from 1(2) [OF True code False] obtain us where "scan_units data (i + 1) count = Some us" ..
      with scan_miss [OF True code False] show ?thesis by simp
    qed
  qed (use scan_stop in blast)
qed

lemma scan_bounds:
  "scan_units data i count = Some us \<Longrightarrow> u \<in> set us \<Longrightarrow> i \<le> fst u \<and> fst u + 4 \<le> length data"
proof (induction data i count arbitrary: us rule: scan_units.induct)
  case (1 data i count)
  show ?case
  proof (cases "i + 4 \<le> length data \<and> count < 64")
    case True
    then obtain code where code: "start_code data i = Some code" using start_code_total by blast
    show ?thesis
    proof (cases "code \<noteq> 0 \<and> i + code < length data")
      case t: True
      then have r: "rd8 data (i + code) = Some (data ! (i + code))" by (simp add: rd8_def)
      with "1.prems"(1) True code t obtain vs where
        "scan_units data (i + code) (count + 1) = Some vs" "us = (i, data ! (i + code) AND 0x1F) # vs"
        by (auto simp: scan_hit [OF True code t] bind_eq_Some_conv)
      with 1(1) [OF True code t r this(1)] "1.prems"(2) True show ?thesis by auto
    next
      case False
      with "1.prems"(1) have "scan_units data (i + 1) count = Some us" by (simp only: scan_miss [OF True code False])
      from 1(2) [OF True code False this "1.prems"(2)] show ?thesis by simp
    qed
  qed (use "1.prems" scan_stop [of i data count] in auto)
qed

section \<open>Streams of units\<close>

definition annexb :: "bytes list \<Rightarrow> bytes" where
  "annexb us = concat (map (\<lambda>u. [0, 0, 0, 1] @ u) us)"

text \<open>A unit does not hold a start code.\<close>

definition nal_ok :: "bytes \<Rightarrow> bool" where
  "nal_ok u \<longleftrightarrow> u \<noteq> [] \<and> (\<forall>i. i + 2 < length u \<longrightarrow> \<not> (u ! i = 0 \<and> u ! (i + 1) = 0 \<and> u ! (i + 2) = 1))"

fun no_code :: "bytes \<Rightarrow> bool" where
  "no_code (a # b # c # u) \<longleftrightarrow> \<not> (a = 0 \<and> b = 0 \<and> c = 1) \<and> no_code (b # c # u)"
| "no_code u \<longleftrightarrow> True"

lemma no_code_nal: "(\<forall>i. i + 2 < length u \<longrightarrow> \<not> (u ! i = 0 \<and> u ! (i + 1) = 0 \<and> u ! (i + 2) = 1)) \<Longrightarrow> no_code u"
proof (induction u rule: no_code.induct)
  case (1 a b c u)
  have "no_code (b # c # u)"
  proof (rule "1.IH", intro allI impI)
    fix i assume "i + 2 < length (b # c # u)"
    then show "\<not> ((b # c # u) ! i = 0 \<and> (b # c # u) ! (i + 1) = 0 \<and> (b # c # u) ! (i + 2) = 1)"
      using "1.prems" [rule_format, of "Suc i"] by simp
  qed
  with "1.prems" [rule_format, of 0] show ?case by simp
qed simp_all

lemma annexb_cases: "annexb us = [] \<or> (\<exists>v. annexb us = 0 # 0 # 0 # 1 # v)"
  by (cases us) (simp_all add: annexb_def)

lemma start_code_at:
  "start_code (pre @ a # b # c # d # post) (length pre) =
     Some (if a = 0 \<and> b = 0 \<and> c = 1 then 3 else if post \<noteq> [] \<and> a = 0 \<and> b = 0 \<and> c = 0 \<and> d = 1 then 4 else 0)"
  by (cases post) (simp_all add: start_code_def rd8_def nth_append)

text \<open>Inside of a unit the scan finds nothing.\<close>

lemma scan_skip:
  assumes "no_code u" "rest = [] \<or> (\<exists>v. rest = 0 # 0 # 0 # 1 # v)"
  shows "scan_units (pre @ u @ rest) (length pre) count = scan_units (pre @ u @ rest) (length pre + length u) count"
  using assms
proof (induction u arbitrary: pre)
  case (Cons a u)
  have nc: "no_code u" using Cons.prems(1) by (cases u rule: no_code.cases) auto
  have IH: "scan_units ((pre @ [a]) @ u @ rest) (length (pre @ [a])) count =
      scan_units ((pre @ [a]) @ u @ rest) (length (pre @ [a]) + length u) count"
    by (rule Cons.IH [OF nc Cons.prems(2)])
  show ?case
  proof (cases "4 \<le> length (a # u @ rest) \<and> count < 64")
    case True
    then obtain b c d post where w: "u @ rest = b # c # d # post"
      by (cases "u @ rest"; cases "tl (u @ rest)"; cases "tl (tl (u @ rest))") auto
    have no3: "\<not> (a = 0 \<and> b = 0 \<and> c = 1)"
      using Cons.prems w by (cases u rule: no_code.cases) auto
    have no4: "\<not> (a = 0 \<and> b = 0 \<and> c = 0 \<and> d = 1)"
      using Cons.prems w by (cases u rule: no_code.cases; cases "tl (tl u)") auto
    have "start_code (pre @ (a # u) @ rest) (length pre) = Some 0"
      using start_code_at [of pre a b c d post] no3 no4 w by auto
    then have "scan_units (pre @ (a # u) @ rest) (length pre) count = scan_units (pre @ (a # u) @ rest) (length pre + 1) count"
      using True by (intro scan_miss [where code = 0]) simp_all
    then show ?thesis using IH by simp
  next
    case False
    then have "\<not> (length pre + 4 \<le> length (pre @ (a # u) @ rest) \<and> count < 64)"
      "\<not> (length pre + length (a # u) + 4 \<le> length (pre @ (a # u) @ rest) \<and> count < 64)" by auto
    from this [THEN scan_stop] show ?thesis by (rule trans [OF _ sym])
  qed
qed simp

lemma scan_unit:
  assumes "nal_ok u" "count < 64" "rest = [] \<or> (\<exists>v. rest = 0 # 0 # 0 # 1 # v)"
  shows "scan_units (pre @ [0, 0, 0, 1] @ u @ rest) (length pre) count =
    do { us \<leftarrow> scan_units ((pre @ [0, 0, 0, 1] @ u) @ rest) (length (pre @ [0, 0, 0, 1] @ u)) (count + 1);
         Some ((length pre, hd u AND 0x1F) # us) }"
proof -
  let ?d = "pre @ [0, 0, 0, 1] @ u @ rest"
  obtain h t where u: "u = h # t" using assms(1) by (cases u) (auto simp: nal_ok_def)
  have sc: "start_code ?d (length pre) = Some 4"
    using start_code_at [of pre 0 0 0 1 "u @ rest"] u by simp
  have rd: "rd8 ?d (length pre + 4) = Some h" using u by (simp add: rd8_def nth_append)
  have "no_code u" using assms(1) by (intro no_code_nal) (simp add: nal_ok_def)
  from scan_skip [OF this assms(3), of "pre @ [0, 0, 0, 1]" "count + 1"]
  have sk: "scan_units ?d (length pre + 4) (count + 1) = scan_units ?d (length pre + 4 + length u) (count + 1)"
    by (simp add: eval_nat_numeral)
  have "scan_units ?d (length pre) count =
    do { us \<leftarrow> scan_units ?d (length pre + 4) (count + 1); Some ((length pre, h AND 0x1F) # us) }"
    using rd scan_hit [OF _ sc, of count] assms(2) u by (simp add: rd8_def)
  then show ?thesis unfolding sk using u by (simp add: eval_nat_numeral)
qed

lemma scan_annexb:
  assumes "\<forall>u \<in> set us. nal_ok u" "count + length us \<le> 64"
  shows "\<exists>vs. scan_units (pre @ annexb us) (length pre) count = Some vs \<and> map snd vs = map (\<lambda>u. hd u AND 0x1F) us"
  using assms
proof (induction us arbitrary: pre count)
  case Nil
  then show ?case by (subst scan_stop) (simp_all add: annexb_def)
next
  case (Cons u us)
  have e: "pre @ annexb (u # us) = pre @ [0, 0, 0, 1] @ u @ annexb us" by (simp add: annexb_def)
  from Cons.IH [of "count + 1" "pre @ [0, 0, 0, 1] @ u"] Cons.prems obtain vs where
    vs: "scan_units ((pre @ [0, 0, 0, 1] @ u) @ annexb us) (length (pre @ [0, 0, 0, 1] @ u)) (count + 1) = Some vs"
      "map snd vs = map (\<lambda>u. hd u AND 0x1F) us" by auto
  have "nal_ok u" "count < 64" using Cons.prems by simp_all
  from scan_unit [OF this annexb_cases, of pre us] vs show ?case
    unfolding e by (simp only: bind.bind_lunit) simp
qed

section \<open>Keyframes and parameter sets\<close>

definition unit_types :: "bytes \<Rightarrow> u8 set" where
  "unit_types data = (case scan_units data 0 0 of None \<Rightarrow> {} | Some us \<Rightarrow> snd ` set us)"

definition has_idr :: "bytes \<Rightarrow> bool" where
  "has_idr data \<longleftrightarrow> 5 \<in> unit_types data"

definition has_sets :: "bytes \<Rightarrow> bool" where
  "has_sets data \<longleftrightarrow> 7 \<in> unit_types data \<or> 8 \<in> unit_types data"

lemma unit_types_annexb:
  assumes "\<forall>u \<in> set us. nal_ok u" "length us \<le> 64"
  shows "unit_types (annexb us) = (\<lambda>u. hd u AND 0x1F) ` set us"
proof -
  obtain vs where vs: "scan_units (annexb us) 0 0 = Some vs" "map snd vs = map (\<lambda>u. hd u AND 0x1F) us"
    using scan_annexb [of us 0 "[]"] assms by auto
  have "snd ` set vs = set (map snd vs)" by simp
  with vs show ?thesis by (simp add: unit_types_def)
qed

text \<open>The entries of the scan: the start code and the type at the place.\<close>

lemma scan_entries:
  "scan_units data i count = Some us \<Longrightarrow> (s, t) \<in> set us \<Longrightarrow>
     \<exists>code. start_code data s = Some code \<and> code \<in> {3, 4} \<and> s + code < length data \<and> t = data ! (s + code) AND 0x1F"
proof (induction data i count arbitrary: us rule: scan_units.induct)
  case (1 data i count)
  show ?case
  proof (cases "i + 4 \<le> length data \<and> count < 64")
    case True
    then obtain code where code: "start_code data i = Some code" "code \<in> {0, 3, 4}" using start_code_total by blast
    show ?thesis
    proof (cases "code \<noteq> 0 \<and> i + code < length data")
      case t: True
      then have r: "rd8 data (i + code) = Some (data ! (i + code))" by (simp add: rd8_def)
      with "1.prems"(1) obtain vs where
        "scan_units data (i + code) (count + 1) = Some vs" "us = (i, data ! (i + code) AND 0x1F) # vs"
        by (auto simp: scan_hit [OF True code(1) t] bind_eq_Some_conv)
      with 1(1) [OF True code(1) t r this(1)] "1.prems"(2) t code show ?thesis by auto
    next
      case False
      with "1.prems"(1) have "scan_units data (i + 1) count = Some us" by (simp only: scan_miss [OF True code(1) False])
      from 1(2) [OF True code(1) False this "1.prems"(2)] show ?thesis .
    qed
  qed (use "1.prems" scan_stop [of i data count] in auto)
qed

text \<open>The starts grow from unit to unit, past the type byte of the one before.\<close>

definition apart :: "bytes \<Rightarrow> nat \<times> u8 \<Rightarrow> nat \<times> u8 \<Rightarrow> bool" where
  "apart data u v \<longleftrightarrow> (\<exists>code. start_code data (fst u) = Some code \<and> code \<in> {3, 4} \<and> fst u + code \<le> fst v)"

lemma scan_order: "scan_units data i count = Some us \<Longrightarrow> sorted_wrt (apart data) us"
proof (induction data i count arbitrary: us rule: scan_units.induct)
  case (1 data i count)
  show ?case
  proof (cases "i + 4 \<le> length data \<and> count < 64")
    case True
    then obtain code where code: "start_code data i = Some code" "code \<in> {0, 3, 4}" using start_code_total by blast
    show ?thesis
    proof (cases "code \<noteq> 0 \<and> i + code < length data")
      case t: True
      then have r: "rd8 data (i + code) = Some (data ! (i + code))" by (simp add: rd8_def)
      with "1.prems"(1) obtain vs where vs:
        "scan_units data (i + code) (count + 1) = Some vs" "us = (i, data ! (i + code) AND 0x1F) # vs"
        by (auto simp: scan_hit [OF True code(1) t] bind_eq_Some_conv)
      have "apart data (i, data ! (i + code) AND 0x1F) v" if "v \<in> set vs" for v
        using scan_bounds [OF vs(1) that] code t by (auto simp: apart_def)
      with 1(1) [OF True code(1) t r vs(1)] vs(2) show ?thesis by simp
    next
      case False
      with "1.prems"(1) have "scan_units data (i + 1) count = Some us" by (simp only: scan_miss [OF True code(1) False])
      from 1(2) [OF True code(1) False this] show ?thesis .
    qed
  qed (use "1.prems" scan_stop [of i data count] in auto)
qed

lemma parameter_sets_run:
  assumes sc: "scan_units data 0 0 = Some us" and ps: "parameter_sets data us = Some ps"
  obtains ys s xs p zs stop where "us = ys @ (s, 7) # xs @ (p, 8) # zs" "ps = take (stop - s) (drop s data)"
    "s < stop" "stop - s \<le> 512" "stop \<le> length data" "stop = length data \<or> (\<exists>e \<in> set zs. stop = fst e)"
proof -
  let ?P = "\<lambda>(s, t :: u8). t = 7 \<or> t = 8"
  obtain s t vs where d: "dropWhile (\<lambda>(s, t). t \<noteq> 7) us = (s, t) # vs"
    using ps by (auto simp: parameter_sets_def split: list.splits)
  define run rest where "run = takeWhile ?P ((s, t) # vs)" and "rest = dropWhile ?P ((s, t) # vs)"
  define stop where "stop = (case rest of [] \<Rightarrow> length data | (e, _) # _ \<Rightarrow> e)"
  have t: "t = 7" using hd_dropWhile [of "\<lambda>(s, t). t \<noteq> 7" us] d by simp
  have c: "\<exists>u \<in> set run. snd u = 8" "0 < stop - s" "stop - s \<le> 512" "ps = take (stop - s) (drop s data)"
    using ps [unfolded parameter_sets_def d list.case prod.case Let_def, folded run_def rest_def, folded stop_def]
    by (simp_all split: if_splits)
  have run: "run = (s, 7) # takeWhile ?P vs" by (simp add: run_def t)
  with c(1) obtain p where "(p, 8) \<in> set (takeWhile ?P vs)" by auto
  then obtain xs xs' where x: "takeWhile ?P vs = xs @ (p, 8) # xs'" by (auto dest: split_list)
  obtain ys where "us = ys @ (s, t) # vs" using d takeWhile_dropWhile_id [of "\<lambda>(s, t). t \<noteq> 7" us] by metis
  moreover have "(s, t) # vs = run @ rest" by (simp only: run_def rest_def takeWhile_dropWhile_id)
  ultimately have us: "us = ys @ (s, 7) # xs @ (p, 8) # (xs' @ rest)"
    using run x by simp
  have "stop = length data \<or> (\<exists>e \<in> set (xs' @ rest). stop = fst e)"
    by (cases rest) (auto simp: stop_def)
  moreover have "fst e + 4 \<le> length data" if "e \<in> set (xs' @ rest)" for e
  proof -
    have "e \<in> set us" unfolding us using that by simp
    from scan_bounds [OF sc this] show ?thesis by simp
  qed
  ultimately have "stop \<le> length data \<and> (stop = length data \<or> (\<exists>e \<in> set (xs' @ rest). stop = fst e))" by fastforce
  moreover have "s < stop" using c(2) by simp
  ultimately show thesis using that [OF us c(4) _ c(3)] by blast
qed

lemma parameter_sets_typed:
  assumes sc: "scan_units data 0 0 = Some us" and ps: "parameter_sets data us = Some ps"
  shows "has_sets ps \<and> ps \<noteq> [] \<and> length ps \<le> 512"
proof -
  obtain ys s xs p zs stop where us: "us = ys @ (s, 7) # xs @ (p, 8) # zs" and e: "ps = take (stop - s) (drop s data)"
    and stop: "s < stop" "stop - s \<le> 512" "stop \<le> length data" "stop = length data \<or> (\<exists>e \<in> set zs. stop = fst e)"
    by (rule parameter_sets_run [OF sc ps])
  have mem: "(s, 7) \<in> set us" "(p, 8) \<in> set us" by (simp_all add: us)
  obtain code where code: "start_code data s = Some code" "code \<in> {3, 4}" "7 = data ! (s + code) AND 0x1F"
    using scan_entries [OF sc mem(1)] by blast
  obtain code2 where code2: "start_code data p = Some code2" "code2 \<in> {3, 4}" "p + code2 < length data"
    using scan_entries [OF sc mem(2)] by blast
  note order = scan_order [OF sc, unfolded us]
  have "s + code \<le> p" using order code(1) by (auto simp: sorted_wrt_append apart_def)
  moreover have "p + code2 \<le> stop"
    using stop(4)
  proof
    assume "\<exists>e \<in> set zs. stop = fst e"
    then show ?thesis using order code2(1) by (auto simp: sorted_wrt_append apart_def)
  qed (use code2(3) in simp)
  ultimately have len: "s + 6 \<le> stop" using code(2) code2(2) by auto
  then have l: "length ps = stop - s" "6 \<le> length ps" using e stop(3) by auto
  have nth: "ps ! k = data ! (s + k)" if "k < 6" for k using that len e stop(3) by simp
  have rd: "rd8 ps k = rd8 data (s + k)" if "k < 6" for k using that l nth [OF that] len stop(3) by (simp add: rd8_def)
  obtain a b c d where r: "rd8 data s = Some a" "rd8 data (s + 1) = Some b" "rd8 data (s + 2) = Some c" "rd8 data (s + 3) = Some d"
    using code(1) by (auto simp: start_code_def bind_eq_Some_conv)
  then have r': "rd8 ps 0 = Some a" "rd8 ps (0 + 1) = Some b" "rd8 ps (0 + 2) = Some c" "rd8 ps (0 + 3) = Some d"
    using rd [of 0] rd [of 1] rd [of 2] rd [of 3] by (simp_all add: numeral_2_eq_2)
  have c1: "code = (if a = 0 \<and> b = 0 \<and> c = 1 then 3 else if s + 5 \<le> length data \<and> a = 0 \<and> b = 0 \<and> c = 0 \<and> d = 1 then 4 else 0)"
    using code(1) by (simp only: start_code_def r bind.bind_lunit option.inject)
  have "start_code ps 0 = Some code"
    unfolding start_code_def r' bind.bind_lunit c1 using l(2) c1 code(2) by (simp split: if_split_asm)
  then have h: "start_code ps 0 = Some code" "0 + 4 \<le> length ps \<and> (0 :: nat) < 64" "code \<noteq> 0 \<and> 0 + code < length ps"
    using l(2) code(2) by auto
  obtain vs where "scan_units ps (0 + code) (0 + 1) = Some vs" using scan_total by blast
  then have "scan_units ps 0 0 = Some ((0, ps ! (0 + code) AND 0x1F) # vs)" using scan_hit [OF h(2,1,3)] by simp
  moreover have "ps ! (0 + code) AND 0x1F = 7" using nth [of code] code(2,3) by auto
  ultimately have "7 \<in> unit_types ps" by (simp add: unit_types_def)
  then show ?thesis using l stop(2) by (auto simp: has_sets_def)
qed

end
