(* ===== verification/Alt_Link.thy ===== *)
theory Alt_Link
  imports Alt_Renderer Alt_Units
begin

text \<open>
  The forwarder of altscreen_output.c as a run of its locked operations, and what each connection of the
  run carries: whole frames, then at most the beginning of one more, and no predictive frame before a
  keyframe as long as the access units fit into the buffer.
\<close>

section \<open>Runs and connections\<close>

datatype fwd_op = FO_OPEN | FO_CONFIGURE u32 u32 u32 | FO_UNIT fwd_env bytes u64 u32 | FO_CLOSE

fun fwd_step :: "fwd_op \<Rightarrow> forward \<Rightarrow> (fwd_event list \<times> forward) option" where
  "fwd_step FO_OPEN f = (case stub_open_locked f of (_, es, f) \<Rightarrow> Some (es, f))"
| "fwd_step (FO_CONFIGURE w h fps) f = Some ([], stub_configured w h fps f)"
| "fwd_step (FO_UNIT fe data ts flg) f =
     (case fwd_send_access_unit fe data ts flg f of None \<Rightarrow> None | Some (_, es, f) \<Rightarrow> Some (es, f))"
| "fwd_step FO_CLOSE f = Some (stub_close_locked f)"

fun fwd_run :: "fwd_op list \<Rightarrow> forward \<Rightarrow> (fwd_event list \<times> forward) option" where
  "fwd_run [] f = Some ([], f)"
| "fwd_run (op # ops) f = do { (es, f) \<leftarrow> fwd_step op f; (es', f) \<leftarrow> fwd_run ops f; Some (es @ es', f) }"

text \<open>The bytes of the connections that are closed, and of the one that is open.\<close>

fun on_wire :: "fwd_event \<Rightarrow> bytes list \<times> bytes option \<Rightarrow> bytes list \<times> bytes option" where
  "on_wire (F_SOCKET fd) w = w"
| "on_wire (F_CONNECTED fd) (ws, c) = (ws, Some [])"
| "on_wire (F_SENT fd bs) (ws, c) = (ws, map_option (\<lambda>c. c @ bs) c)"
| "on_wire (F_CLOSE fd) (ws, c) = (case c of None \<Rightarrow> (ws, None) | Some c \<Rightarrow> (ws @ [c], None))"

section \<open>One write\<close>

lemma fwd_loop_result:
  "fwd_loop rs k p = Some (ok, out, rs') \<Longrightarrow> if ok then out = p else (\<exists>q. q \<noteq> [] \<and> p = out @ q)"
proof (induction rs k p arbitrary: out rule: fwd_loop.induct)
  case (6 n rs k b p)
  show ?case
  proof (cases "n = 0")
    case True
    with "6.prems" show ?thesis by simp
  next
    case False
    let ?k = "min n (length (b # p))"
    from "6.prems" False obtain o2 where
      o: "fwd_loop rs k (drop ?k (b # p)) = Some (ok, o2, rs')" "out = take ?k (b # p) @ o2"
      by (auto simp: Let_def bind_eq_Some_conv simp del: drop_Cons take_Cons)
    from "6.IH" [OF False refl o(1)] o(2) show ?thesis
      by (metis append.assoc append_take_drop_id)
  qed
qed (auto split: if_splits)

text \<open>It waits for at most 21 timeouts of the socket.\<close>

lemma fwd_loop_timeouts:
  "fwd_loop rs k p = Some (ok, out, rs') \<Longrightarrow> k \<le> 20 \<Longrightarrow>
     \<exists>used. rs = used @ rs' \<and> count_list used FwdTimeout + k \<le> 21"
proof (induction rs k p arbitrary: out rule: fwd_loop.induct)
  case (3 rs k b p)
  then obtain used where "rs = used @ rs'" "count_list used FwdTimeout + k \<le> 21" by auto
  then show ?case by (intro exI [of _ "FwdEINTR # used"]) simp
next
  case (4 rs k b p)
  show ?case
  proof (cases "k + 1 \<le> 20")
    case True
    with 4 obtain used where "rs = used @ rs'" "count_list used FwdTimeout + (k + 1) \<le> 21" by auto
    then show ?thesis by (intro exI [of _ "FwdTimeout # used"]) simp
  next
    case False
    with "4.prems" show ?thesis by (intro exI [of _ "[FwdTimeout]"]) simp
  qed
next
  case (5 rs k b p)
  then show ?case by (intro exI [of _ "[FwdError]"]) simp
next
  case (6 n rs k b p)
  show ?case
  proof (cases "n = 0")
    case True
    with "6.prems" show ?thesis by (intro exI [of _ "[FwdSent n]"]) simp
  next
    case False
    with "6.prems" obtain o2 where "fwd_loop rs k (drop (min n (length (b # p))) (b # p)) = Some (ok, o2, rs')"
      by (auto simp: Let_def bind_eq_Some_conv simp del: drop_Cons)
    from "6.IH" [OF False refl this "6.prems"(2)] obtain used where "rs = used @ rs'" "count_list used FwdTimeout + k \<le> 21" by blast
    then show ?thesis by (intro exI [of _ "FwdSent n # used"]) simp
  qed
qed auto

text \<open>It returns on every script that is long enough and in which no call is interrupted.\<close>

lemma fwd_loop_total:
  "FwdEINTR \<notin> set rs \<Longrightarrow> length p + 21 \<le> length rs + k \<Longrightarrow> k \<le> 20 \<Longrightarrow> \<exists>x. fwd_loop rs k p = Some x"
proof (induction rs k p rule: fwd_loop.induct)
  case (6 n rs k b p)
  show ?case
  proof (cases "n = 0")
    case False
    let ?k = "min n (length (b # p))"
    have "length (drop ?k (b # p)) + 21 \<le> length rs + k" using "6.prems"(2) False by simp
    from "6.IH" [OF False refl _ this "6.prems"(3)] "6.prems"(1) obtain x where "fwd_loop rs k (drop ?k (b # p)) = Some x" by auto
    with False show ?thesis by (cases x) (simp add: Let_def del: drop_Cons)
  qed (auto intro: exI [of _ False])
qed auto

lemma fwd_loop_used:
  "fwd_loop rs k p = Some (ok, out, rs') \<Longrightarrow> FwdEINTR \<notin> set rs \<Longrightarrow> k \<le> 20 \<Longrightarrow>
     length rs + k \<le> length rs' + length p + 21 \<and> set rs' \<subseteq> set rs"
proof (induction rs k p arbitrary: out rule: fwd_loop.induct)
  case (4 rs k b p)
  then show ?case by (cases "k + 1 \<le> 20") auto
next
  case (6 n rs k b p)
  show ?case
  proof (cases "n = 0")
    case True
    with "6.prems" show ?thesis by auto
  next
    case False
    let ?k = "min n (length (b # p))"
    from "6.prems" False obtain o2 where "fwd_loop rs k (drop ?k (b # p)) = Some (ok, o2, rs')"
      by (auto simp: Let_def bind_eq_Some_conv simp del: drop_Cons)
    from "6.IH" [OF False refl this _ "6.prems"(3)] "6.prems"(2)
    have "length rs + k \<le> length rs' + length (drop ?k (b # p)) + 21 \<and> set rs' \<subseteq> set rs" by simp
    moreover have "length (drop ?k (b # p)) + 1 \<le> length (b # p)" using False by simp
    ultimately show ?thesis by auto
  qed
qed auto

lemma fwd_write_total:
  assumes "FwdEINTR \<notin> set rs" "length data + 41 \<le> length rs"
  shows "\<exists>ok es rs' f'. fwd_write_locked data ts flg rs f = Some (ok, es, rs', f') \<and>
    length rs \<le> length rs' + length data + 41 \<and> FwdEINTR \<notin> set rs'"
proof (cases "fw_fd f < 0 \<or> data = [] \<or> 20 + length data > ALTSCREEN_FWD_BUFSZ")
  case True
  with assms show ?thesis by (auto simp: fwd_write_locked_def)
next
  case False
  let ?p = "fwd_header (of_nat (length data)) ts flg @ data"
  obtain ok out rs' where l: "fwd_loop rs 0 ?p = Some (ok, out, rs')"
    using fwd_loop_total [OF assms(1), of ?p 0] assms(2) by auto
  from fwd_loop_used [OF l assms(1)] False l show ?thesis
    using assms(1) by (cases ok) (auto simp: fwd_write_locked_def fwd_close_locked_def)
qed

lemma fwd_write_cases:
  assumes w: "fwd_write_locked data ts flg rs f = Some (ok, es, rs', f')" and fd: "fw_fd f \<ge> 0" "data \<noteq> []"
  defines "a \<equiv> \<lparr>av_data = data, av_time = ts, av_flag = flg\<rparr>"
  obtains (large) "\<not> ok" "es = []" "f' = f\<lparr>fw_dropped := fw_dropped f + 1\<rparr>" "ALTSCREEN_FWD_BUFSZ < 20 + length data"
  | (sent) "ok" "es = [F_SENT (fw_fd f) (av_wire a)]" "f' = f\<lparr>fw_sent := fw_sent f + 1\<rparr>" "av_ok a"
  | (failed) out q where "\<not> ok" "es = [F_SENT (fw_fd f) out, F_CLOSE (fw_fd f)]" "av_wire a = out @ q" "q \<noteq> []"
      "f' = f\<lparr>fw_fd := -1, fw_dropped := fw_dropped f + 1\<rparr>" "av_ok a"
proof (cases "20 + length data > ALTSCREEN_FWD_BUFSZ")
  case True
  with w fd show thesis by (intro large) (auto simp: fwd_write_locked_def)
next
  case False
  then have ok: "av_ok a" using fd by (simp add: av_ok_def a_def)
  from w fd False obtain out where l: "fwd_loop rs 0 (av_wire a) = Some (ok, out, rs')"
    and r: "(if ok then es = [F_SENT (fw_fd f) out] \<and> f' = f\<lparr>fw_sent := fw_sent f + 1\<rparr>
             else es = [F_SENT (fw_fd f) out, F_CLOSE (fw_fd f)] \<and> f' = f\<lparr>fw_fd := -1, fw_dropped := fw_dropped f + 1\<rparr>)"
    by (auto simp: fwd_write_locked_def fwd_close_locked_def bind_eq_Some_conv av_wire_def a_def split: if_splits)
  show thesis
  proof (cases ok)
    case True
    with fwd_loop_result [OF l] r ok show thesis by (intro sent) simp_all
  next
    case False
    with fwd_loop_result [OF l] obtain q where "q \<noteq> []" "av_wire a = out @ q" by auto
    with r ok False show thesis by (intro failed) simp_all
  qed
qed

section \<open>The connections of a run\<close>

text \<open>Every frame without a keyframe and without parameter sets comes after a keyframe.\<close>

definition gated :: "av_frame list \<Rightarrow> bool" where
  "gated fs \<longleftrightarrow> (\<forall>xs a ys. fs = xs @ a # ys \<longrightarrow>
     has_idr (av_data a) \<or> has_sets (av_data a) \<or> (\<exists>b \<in> set xs. has_idr (av_data b)))"

lemma gated_Nil [simp]: "gated []"
  by (simp add: gated_def)

lemma gated_snoc [simp]:
  "gated (fs @ [a]) \<longleftrightarrow> gated fs \<and> (has_idr (av_data a) \<or> has_sets (av_data a) \<or> (\<exists>b \<in> set fs. has_idr (av_data b)))"
proof
  assume g: "gated (fs @ [a])"
  have "gated fs" unfolding gated_def
  proof (intro allI impI)
    fix xs b ys assume "fs = xs @ b # ys"
    then have "fs @ [a] = xs @ b # (ys @ [a])" by simp
    with g show "has_idr (av_data b) \<or> has_sets (av_data b) \<or> (\<exists>c \<in> set xs. has_idr (av_data c))"
      unfolding gated_def by blast
  qed
  with g show "gated fs \<and> (has_idr (av_data a) \<or> has_sets (av_data a) \<or> (\<exists>b \<in> set fs. has_idr (av_data b)))"
    unfolding gated_def by blast
next
  assume r: "gated fs \<and> (has_idr (av_data a) \<or> has_sets (av_data a) \<or> (\<exists>b \<in> set fs. has_idr (av_data b)))"
  show "gated (fs @ [a])" unfolding gated_def
  proof (intro allI impI)
    fix xs b ys assume e: "fs @ [a] = xs @ b # ys"
    show "has_idr (av_data b) \<or> has_sets (av_data b) \<or> (\<exists>c \<in> set xs. has_idr (av_data c))"
    proof (cases ys rule: rev_cases)
      case Nil
      with e r show ?thesis by simp
    next
      case (snoc zs z)
      with e have "fs = xs @ b # zs" by simp
      with r show ?thesis unfolding gated_def by blast
    qed
  qed
qed

text \<open>The frames of a connection: allowed ones, and gated when no access unit is too large.\<close>

definition conn_ok :: "bool \<Rightarrow> (av_frame \<Rightarrow> bool) \<Rightarrow> av_frame list \<Rightarrow> bool" where
  "conn_ok small A fs \<longleftrightarrow> list_all av_ok fs \<and> list_all A fs \<and> (small \<longrightarrow> gated fs)"

abbreviation wire_of :: "av_frame list \<Rightarrow> bytes" where
  "wire_of fs \<equiv> concat (map av_wire fs)"

definition closed_ok :: "bool \<Rightarrow> (av_frame \<Rightarrow> bool) \<Rightarrow> bytes \<Rightarrow> bool" where
  "closed_ok small A c \<longleftrightarrow> (\<exists>fs part. conn_ok small A fs \<and> av_partial part \<and> c = wire_of fs @ part)"

definition link_open_ok :: "bool \<Rightarrow> (av_frame \<Rightarrow> bool) \<Rightarrow> forward \<Rightarrow> bytes \<Rightarrow> bool" where
  "link_open_ok small A f c \<longleftrightarrow> fw_fd f \<ge> 0 \<and> (\<exists>fs. conn_ok small A fs \<and> c = wire_of fs \<and>
     (small \<and> \<not> fw_need_idr f \<longrightarrow> (\<exists>a \<in> set fs. has_idr (av_data a))))"

definition sets_ok :: "forward \<Rightarrow> bool" where
  "sets_ok f \<longleftrightarrow> fw_parameter_sets f = [] \<or> has_sets (fw_parameter_sets f) \<and> length (fw_parameter_sets f) \<le> 512"

definition link_ok :: "bool \<Rightarrow> (av_frame \<Rightarrow> bool) \<Rightarrow> forward \<Rightarrow> bytes list \<times> bytes option \<Rightarrow> bool" where
  "link_ok small A f w \<longleftrightarrow> sets_ok f \<and> (\<forall>c \<in> set (fst w). closed_ok small A c) \<and>
     (case snd w of None \<Rightarrow> fw_fd f < 0 | Some c \<Rightarrow> link_open_ok small A f c)"

lemma closed_open: "link_open_ok small A f c \<Longrightarrow> closed_ok small A c"
  unfolding link_open_ok_def closed_ok_def av_partial_def by force

lemma link_ok_close:
  assumes "link_ok small A f w" "fwd_close_locked f = (es, f')"
  shows "link_ok small A f' (fold on_wire es w) \<and> fw_fd f' < 0 \<and> sets_ok f'"
proof (cases "snd w")
  case None
  with assms show ?thesis by (cases w) (auto simp: link_ok_def fwd_close_locked_def sets_ok_def split: if_splits)
next
  case (Some c)
  with assms(1) have o: "link_open_ok small A f c" by (simp add: link_ok_def)
  then have "fw_fd f \<ge> 0" "closed_ok small A c" by (simp add: link_open_ok_def, rule closed_open)
  with assms Some show ?thesis by (cases w) (auto simp: link_ok_def fwd_close_locked_def sets_ok_def)
qed

lemma link_ok_fields:
  assumes "link_ok small A f w" "fw_fd g = fw_fd f" "fw_need_idr f \<longrightarrow> fw_need_idr g \<or> fw_fd f < 0" "sets_ok g"
  shows "link_ok small A g w"
  using assms by (auto simp: link_ok_def link_open_ok_def split: option.splits)

lemma link_ok_dropped [simp]: "link_ok small A (f\<lparr>fw_dropped := n\<rparr>) w = link_ok small A f w"
  by (cases "snd w") (simp_all add: link_ok_def link_open_ok_def sets_ok_def)

lemma open_ok_empty: "fw_fd f \<ge> 0 \<Longrightarrow> fw_need_idr f \<Longrightarrow> link_open_ok small A f []"
  unfolding link_open_ok_def by (intro conjI exI [of _ "[]"]) (simp_all add: conn_ok_def)

text \<open>A write that is allowed, after which the frame may count as a keyframe.\<close>

lemma link_ok_write:
  assumes l: "link_ok small A f w" and fd: "fw_fd f \<ge> 0" and data: "data \<noteq> []"
    and wr: "fwd_write_locked data ts flg rs (f\<lparr>fw_need_idr := need, fw_last_keyframe_request_ms := lk\<rparr>) = Some (ok, es, rs', f')"
    and A: "av_ok \<lparr>av_data = data, av_time = ts, av_flag = flg\<rparr> \<longrightarrow> A \<lparr>av_data = data, av_time = ts, av_flag = flg\<rparr>"
    and gate: "has_idr data \<or> has_sets data \<or> \<not> fw_need_idr f"
    and need: "need \<or> \<not> fw_need_idr f \<or> has_idr data"
    and size: "small \<longrightarrow> 20 + length data \<le> ALTSCREEN_FWD_BUFSZ"
  shows "link_ok small A f' (fold on_wire es w)"
proof -
  let ?f = "f\<lparr>fw_need_idr := need, fw_last_keyframe_request_ms := lk\<rparr>"
  let ?a = "\<lparr>av_data = data, av_time = ts, av_flag = flg\<rparr>"
  obtain ws c where w: "w = (ws, Some c)" "link_open_ok small A f c" "\<forall>c \<in> set ws. closed_ok small A c" "sets_ok f"
    using l fd by (cases w) (auto simp: link_ok_def split: option.splits)
  then obtain fs where fs: "conn_ok small A fs" "c = wire_of fs"
    "small \<and> \<not> fw_need_idr f \<longrightarrow> (\<exists>a \<in> set fs. has_idr (av_data a))" by (auto simp: link_open_ok_def)
  have sets: "sets_ok (f\<lparr>fw_need_idr := need, fw_last_keyframe_request_ms := lk, fw_fd := x, fw_sent := y, fw_dropped := z\<rparr>)" for x y z
    using w(4) by (simp add: sets_ok_def)
  have fd': "fw_fd ?f \<ge> 0" using fd by simp
  show ?thesis
  proof (rule fwd_write_cases [OF wr fd' data])
    assume "es = []" "f' = ?f\<lparr>fw_dropped := fw_dropped ?f + 1\<rparr>" "ALTSCREEN_FWD_BUFSZ < 20 + length data"
    with w fs size show ?thesis by (auto simp: link_ok_def link_open_ok_def sets_ok_def)
  next
    assume e: "es = [F_SENT (fw_fd ?f) (av_wire ?a)]" "f' = ?f\<lparr>fw_sent := fw_sent ?f + 1\<rparr>" "av_ok ?a"
    have "conn_ok small A (fs @ [?a])" using fs e(3) A gate by (auto simp: conn_ok_def)
    moreover have "small \<and> \<not> need \<longrightarrow> (\<exists>a \<in> set (fs @ [?a]). has_idr (av_data a))" using fs(3) need by auto
    moreover have "c @ av_wire ?a = wire_of (fs @ [?a])" using fs(2) by simp
    ultimately have "link_open_ok small A f' (c @ av_wire ?a)" using e(2) fd unfolding link_open_ok_def by force
    with w e show ?thesis by (auto simp: link_ok_def sets_ok_def)
  next
    fix out q assume e: "es = [F_SENT (fw_fd ?f) out, F_CLOSE (fw_fd ?f)]" "av_wire ?a = out @ q" "q \<noteq> []"
      "f' = ?f\<lparr>fw_fd := -1, fw_dropped := fw_dropped ?f + 1\<rparr>" "av_ok ?a"
    have "av_partial out" using e(2,3,5) by (auto simp: av_partial_def)
    with fs have "closed_ok small A (c @ out)" by (auto simp: closed_ok_def)
    with w e show ?thesis by (auto simp: link_ok_def sets_ok_def)
  qed
qed

section \<open>An access unit\<close>

lemma scan_result:
  assumes "fwd_scan_parameter_sets data f = Some (i, p, f')"
  shows "i = has_idr data \<and> p = has_sets data \<and> (\<exists>ps. f' = f\<lparr>fw_parameter_sets := ps\<rparr>) \<and> (sets_ok f \<longrightarrow> sets_ok f')"
proof -
  from assms obtain us where us: "scan_units data 0 0 = Some us" "i = (\<exists>u \<in> set us. snd u = 5)"
    "p = (\<exists>u \<in> set us. snd u = 7 \<or> snd u = 8)"
    "f' = (case parameter_sets data us of None \<Rightarrow> f | Some ps \<Rightarrow> f\<lparr>fw_parameter_sets := ps\<rparr>)"
    by (auto simp: fwd_scan_parameter_sets_def bind_eq_Some_conv)
  have mem: "(c \<in> snd ` set us) = (\<exists>u \<in> set us. snd u = c)" for c by force
  have "i = has_idr data" "p = has_sets data"
    using us(2,3) by (auto simp: has_idr_def has_sets_def unit_types_def us(1) mem)
  moreover have "(\<exists>ps. f' = f\<lparr>fw_parameter_sets := ps\<rparr>) \<and> (sets_ok f \<longrightarrow> sets_ok f')"
  proof (cases "parameter_sets data us")
    case None
    with us(4) have "f' = f\<lparr>fw_parameter_sets := fw_parameter_sets f\<rparr>" by simp
    with us(4) None show ?thesis by (metis option.case(1))
  next
    case (Some ps)
    with us(4) parameter_sets_typed [OF us(1) Some] show ?thesis by (auto simp: sets_ok_def)
  qed
  ultimately show ?thesis by blast
qed

lemma connect_result:
  assumes l: "link_ok small A f w" and c: "fwd_connect_locked fe f = (ok, es, f')"
  shows "link_ok small A f' (fold on_wire es w) \<and> ok = (fw_fd f' \<ge> 0) \<and> fw_parameter_sets f' = fw_parameter_sets f"
proof (cases "fw_fd f \<ge> 0")
  case True
  with l c show ?thesis by (auto simp: fwd_connect_locked_def)
next
  case False
  with l obtain ws where w: "w = (ws, None)" by (cases w) (auto simp: link_ok_def link_open_ok_def split: option.splits)
  have "sets_ok f" "\<forall>c \<in> set ws. closed_ok small A c" using l w by (simp_all add: link_ok_def)
  with False w c show ?thesis
    by (auto simp: fwd_connect_locked_def link_ok_def sets_ok_def Let_def split: if_splits intro!: open_ok_empty)
qed

definition replay_frame :: "av_frame \<Rightarrow> bool" where
  "replay_frame a \<longleftrightarrow> av_flag a = 0 \<and> has_sets (av_data a) \<and> length (av_data a) \<le> 512"

lemma unit_link_ok:
  assumes u: "fwd_send_access_unit fe data ts flg f = Some (req, es, f')" and l: "link_ok small A f w"
    and A: "A \<lparr>av_data = data, av_time = ts, av_flag = flg\<rparr>" "\<And>a. replay_frame a \<Longrightarrow> A a"
    and size: "small \<longrightarrow> 20 + length data \<le> ALTSCREEN_FWD_BUFSZ"
  shows "link_ok small A f' (fold on_wire es w)"
proof (cases "data = []")
  case True
  with u l show ?thesis by (simp add: fwd_send_access_unit_def)
next
  case False
  with u obtain i p f1 where sc: "fwd_scan_parameter_sets data f = Some (i, p, f1)"
    by (auto simp: fwd_send_access_unit_def bind_eq_Some_conv)
  from scan_result [OF sc] l obtain ps where i: "i = has_idr data" "p = has_sets data" "f1 = f\<lparr>fw_parameter_sets := ps\<rparr>" "sets_ok f1"
    by (auto simp: link_ok_def)
  then have l1: "link_ok small A f1 w" using l by (intro link_ok_fields [OF l]) simp_all
  obtain ok es1 f2 where c: "fwd_connect_locked fe f1 = (ok, es1, f2)" by (metis prod_cases3)
  note l2 = connect_result [OF l1 c]
  show ?thesis
  proof (cases ok)
    case no: False
    with u False sc c have "es = es1" "f' = f2\<lparr>fw_dropped := fw_dropped f2 + 1\<rparr>"
      by (simp_all add: fwd_send_access_unit_def Let_def)
    with l2 show ?thesis by simp
  next
    case True
    define replay where "replay \<longleftrightarrow> fw_fd f1 < 0 \<and> \<not> p \<and> fw_parameter_sets f2 \<noteq> []"
    obtain es2 rs f3 where r: "(if replay then do {
               (_, es', rs, g) \<leftarrow> fwd_write_locked (fw_parameter_sets f2) ts 0 (fe_sends fe) f2;
               Some (es1 @ es', rs, g) }
             else Some (es1, fe_sends fe, f2)) = Some (es2, rs, f3)"
      using u False sc c True by (auto simp: fwd_send_access_unit_def Let_def replay_def bind_eq_Some_conv split: if_splits)
    have l3: "link_ok small A f3 (fold on_wire es2 w)"
    proof (cases replay)
      case False
      with r l2 show ?thesis by simp
    next
      case True
      with r obtain o1 es' where wr: "fwd_write_locked (fw_parameter_sets f2) ts 0 (fe_sends fe) f2 = Some (o1, es', rs, f3)"
        "es2 = es1 @ es'" by (auto simp: bind_eq_Some_conv)
      have s2: "fw_parameter_sets f2 \<noteq> []" "has_sets (fw_parameter_sets f2)" "length (fw_parameter_sets f2) \<le> 512"
        using True l2 by (auto simp: replay_def link_ok_def sets_ok_def)
      have "replay_frame \<lparr>av_data = fw_parameter_sets f2, av_time = ts, av_flag = 0\<rparr>" using s2 by (simp add: replay_frame_def)
      then have A': "A \<lparr>av_data = fw_parameter_sets f2, av_time = ts, av_flag = 0\<rparr>" by (rule A(2))
      have l2': "link_ok small A f2 (fold on_wire es1 w)" "fw_fd f2 \<ge> 0" using l2 \<open>ok\<close> by simp_all
      have wr': "fwd_write_locked (fw_parameter_sets f2) ts 0 (fe_sends fe)
          (f2\<lparr>fw_need_idr := fw_need_idr f2, fw_last_keyframe_request_ms := fw_last_keyframe_request_ms f2\<rparr>) = Some (o1, es', rs, f3)"
        using wr(1) by simp
      have "link_ok small A f3 (fold on_wire es' (fold on_wire es1 w))"
        by (rule link_ok_write [OF l2' s2(1) wr']) (use s2 A' in auto)
      with wr(2) show ?thesis by simp
    qed
    show ?thesis
    proof (cases "fw_fd f3 < 0")
      case lost: True
      with u False sc c True r l3 show ?thesis
        by (auto simp: fwd_send_access_unit_def Let_def replay_def [symmetric])
    next
      case up: False
      define due where "due \<longleftrightarrow> fw_last_keyframe_request_ms f3 = 0 \<or> fe_later fe = 0 \<or>
        fe_later fe - fw_last_keyframe_request_ms f3 \<ge> 750"
      define need where "need \<longleftrightarrow> fw_need_idr f3 \<and> \<not> has_idr data"
      define lk where "lk = (if fw_need_idr f3 \<and> has_idr data then 0
        else if fw_need_idr f3 \<and> due then if fe_later fe \<noteq> 0 then fe_later fe else 1 else fw_last_keyframe_request_ms f3)"
      let ?g = "f3\<lparr>fw_need_idr := need, fw_last_keyframe_request_ms := lk\<rparr>"
      have g: "(if fw_need_idr f3 \<and> i then f3\<lparr>fw_need_idr := False, fw_last_keyframe_request_ms := 0\<rparr>
          else if fw_need_idr f3 \<and> \<not> i \<and> due
          then f3\<lparr>fw_last_keyframe_request_ms := if fe_later fe \<noteq> 0 then fe_later fe else 1\<rparr> else f3) = ?g"
        using i(1) by (auto simp: need_def lk_def)
      from u False sc c True r up have w: "(if fw_need_idr ?g \<and> \<not> p then Some (fw_need_idr f3 \<and> \<not> i \<and> due, es2, ?g\<lparr>fw_dropped := fw_dropped ?g + 1\<rparr>)
           else do { (_, es', _, h) \<leftarrow> fwd_write_locked data ts flg rs ?g; Some (fw_need_idr f3 \<and> \<not> i \<and> due, es2 @ es', h) }) = Some (req, es, f')"
        by (simp only: fwd_send_access_unit_def if_False bind.bind_lunit Let_def prod.case not_True_eq_False
            replay_def [symmetric] due_def [symmetric] g)
      show ?thesis
      proof (cases "need \<and> \<not> p")
        case drop: True
        with w have "es = es2" "f' = ?g\<lparr>fw_dropped := fw_dropped ?g + 1\<rparr>" by simp_all
        moreover have "fw_need_idr f3 \<longrightarrow> need" using drop by simp
        moreover have "link_ok small A ?g (fold on_wire es2 w)"
          by (rule link_ok_fields [OF l3]) (use calculation(3) l3 in \<open>auto simp: sets_ok_def link_ok_def\<close>)
        ultimately show ?thesis by simp
      next
        case False
        with w obtain o1 es' rs' where wr: "fwd_write_locked data ts flg rs ?g = Some (o1, es', rs', f')" "es = es2 @ es'"
          by (auto simp: bind_eq_Some_conv)
        have "link_ok small A f' (fold on_wire es' (fold on_wire es2 w))"
          by (rule link_ok_write [OF l3 _ \<open>data \<noteq> []\<close> wr(1)])
            (use up A(1) i(2) False size in \<open>auto simp: need_def\<close>)
        with wr(2) show ?thesis by simp
      qed
    qed
  qed
qed

text \<open>An access unit is handled completely, whatever its bytes are.\<close>

lemma unit_total:
  assumes "FwdEINTR \<notin> set (fe_sends fe)" "length data + 600 \<le> length (fe_sends fe)" "sets_ok f"
  shows "\<exists>x. fwd_send_access_unit fe data ts flg f = Some x"
proof (cases "data = []")
  case False
  obtain us where us: "scan_units data 0 0 = Some us" using scan_total by blast
  then obtain i p f1 where sc: "fwd_scan_parameter_sets data f = Some (i, p, f1)"
    by (simp add: fwd_scan_parameter_sets_def)
  from scan_result [OF sc] assms(3) have s1: "sets_ok f1" by blast
  obtain ok es1 f2 where c: "fwd_connect_locked fe f1 = (ok, es1, f2)" by (metis prod_cases3)
  then have s2: "fw_parameter_sets f2 = fw_parameter_sets f1"
    by (auto simp: fwd_connect_locked_def Let_def split: if_splits)
  show ?thesis
  proof (cases ok)
    case True
    have l: "length (fw_parameter_sets f2) \<le> 512" using s1 s2 by (auto simp: sets_ok_def)
    obtain o1 es' rs' g where wr: "fwd_write_locked (fw_parameter_sets f2) ts 0 (fe_sends fe) f2 = Some (o1, es', rs', g)"
      "length (fe_sends fe) \<le> length rs' + length (fw_parameter_sets f2) + 41" "FwdEINTR \<notin> set rs'"
      using fwd_write_total [OF assms(1), of "fw_parameter_sets f2" ts 0 f2] l assms(2) by auto
    have main: "\<exists>x. fwd_write_locked data ts flg rs h = Some x"
      if "rs = fe_sends fe \<or> rs = rs'" for rs h
      using that fwd_write_total [of rs data ts flg h] assms(1,2) wr(2,3) l by auto
    define replay where "replay \<longleftrightarrow> fw_fd f1 < 0 \<and> \<not> p \<and> fw_parameter_sets f2 \<noteq> []"
    obtain es2 rs f3 where r: "(if replay then do {
               (_, es', rs, g) \<leftarrow> fwd_write_locked (fw_parameter_sets f2) ts 0 (fe_sends fe) f2;
               Some (es1 @ es', rs, g) }
             else Some (es1, fe_sends fe, f2)) = Some (es2, rs, f3)" "rs = fe_sends fe \<or> rs = rs'"
      using wr(1) by (cases replay) auto
    note body = False sc c True r(1) [unfolded replay_def]
    show ?thesis
    proof (cases "fw_fd f3 < 0")
      case True
      with body show ?thesis by (simp add: fwd_send_access_unit_def Let_def) blast
    next
      case up: False
      have "\<exists>x. (if C then Some (q, es2, k) else do { (_, es', _, f) \<leftarrow> fwd_write_locked data ts flg rs h; Some (q, es2 @ es', f) }) = Some x"
        for C q k h
      proof -
        obtain w where w: "fwd_write_locked data ts flg rs h = Some w" using main [OF r(2)] by blast
        obtain a b c d where "w = (a, b, c, d)" by (rule prod_cases4)
        with w show ?thesis by (cases C) simp_all
      qed
      then show ?thesis
        using body up by (simp only: fwd_send_access_unit_def if_False bind.bind_lunit Let_def prod.case not_True_eq_False)
    qed
  next
    case no: False
    with False sc c show ?thesis by (simp add: fwd_send_access_unit_def Let_def) blast
  qed
qed (simp add: fwd_send_access_unit_def, blast?)

section \<open>Whole runs\<close>

text \<open>The frames that a run may put on a connection: its access units and replayed parameter sets.\<close>

definition given_frame :: "fwd_op list \<Rightarrow> av_frame \<Rightarrow> bool" where
  "given_frame ops a \<longleftrightarrow> replay_frame a \<or> (\<exists>fe. FO_UNIT fe (av_data a) (av_time a) (av_flag a) \<in> set ops)"

fun op_small :: "fwd_op \<Rightarrow> bool" where
  "op_small (FO_UNIT fe data ts flg) \<longleftrightarrow> 20 + length data \<le> ALTSCREEN_FWD_BUFSZ"
| "op_small _ \<longleftrightarrow> True"

lemma step_link_ok:
  assumes s: "fwd_step op f = Some (es, f')" and l: "link_ok small (given_frame ops) f w"
    and ops: "op \<in> set ops" "small \<longrightarrow> op_small op"
  shows "link_ok small (given_frame ops) f' (fold on_wire es w)"
proof (cases op)
  case FO_OPEN
  obtain es1 f1 where c: "fwd_close_locked f = (es1, f1)" by fastforce
  from link_ok_close [OF l c] s FO_OPEN c l show ?thesis
    by (auto simp: stub_open_locked_def fwd_reset_locked_def link_ok_def link_open_ok_def sets_ok_def split: if_splits option.splits)
next
  case (FO_CONFIGURE w' h fps)
  with s have "es = []" "f' = stub_configured w' h fps f" by auto
  with l show ?thesis by (cases "snd w") (simp_all add: link_ok_def link_open_ok_def sets_ok_def stub_configured_def)
next
  case (FO_UNIT fe data ts flg)
  with s obtain req where u: "fwd_send_access_unit fe data ts flg f = Some (req, es, f')"
    by (auto split: option.splits)
  show ?thesis
    by (rule unit_link_ok [OF u l]) (use ops FO_UNIT in \<open>auto simp: given_frame_def\<close>)
next
  case FO_CLOSE
  obtain es1 f1 where c: "fwd_close_locked f = (es1, f1)" by fastforce
  from link_ok_close [OF l c] s FO_CLOSE c show ?thesis
    by (auto simp: stub_close_locked_def link_ok_def link_open_ok_def sets_ok_def split: option.splits)
qed

lemma run_link_ok:
  assumes "fwd_run ops f = Some (es, f')" "link_ok small (given_frame all) f w" "set ops \<subseteq> set all"
    "small \<longrightarrow> list_all op_small ops"
  shows "link_ok small (given_frame all) f' (fold on_wire es w)"
  using assms
proof (induction ops arbitrary: f es w)
  case (Cons op ops)
  then obtain es1 f1 es2 where r: "fwd_step op f = Some (es1, f1)" "fwd_run ops f1 = Some (es2, f')" "es = es1 @ es2"
    by (auto simp: bind_eq_Some_conv)
  have "link_ok small (given_frame all) f1 (fold on_wire es1 w)"
    by (rule step_link_ok [OF r(1) Cons.prems(2)]) (use Cons.prems(3,4) in auto)
  from Cons.IH [OF r(2) this] Cons.prems(3,4) r(3) show ?case by simp
qed simp

lemma init_link_ok: "link_ok small A init_forward ([], None)"
  by (simp add: link_ok_def init_forward_def sets_ok_def)

text \<open>What the renderer makes of a connection that is closed.\<close>

lemma connection_decoded:
  assumes run: "fwd_run ops init_forward = Some (es, f)" and small: "small \<longrightarrow> list_all op_small ops"
    and c: "c \<in> set (fst (fold on_wire es ([], None)))"
  obtains fs part where "conn_ok small (given_frame ops) fs" "c = wire_of fs @ part" "av_partial part"
    "\<And>au ps rs v cs v' st'. reads_good rs \<Longrightarrow> \<forall>p \<in> set ps. \<not> vp_quit p \<Longrightarrow>
       serve_loop au 0 ps rs c v = Some (cs, v', st') \<Longrightarrow> cs = decoding au v fs"
proof -
  have "link_ok small (given_frame ops) f (fold on_wire es ([], None))"
    by (rule run_link_ok [OF run init_link_ok subset_refl small])
  with c obtain fs part where fs: "conn_ok small (given_frame ops) fs" "av_partial part" "c = wire_of fs @ part"
    by (auto simp: link_ok_def closed_ok_def)
  have "list_all av_ok fs" using fs(1) by (simp add: conn_ok_def)
  with fs serve_frames show thesis by (intro that [OF fs(1,3,2)]) blast
qed

end
