(* ===== verification/Alt_Output.thy ===== *)
theory Alt_Output
  imports Alt_Link
begin

text \<open>
  altscreen/native/altscreen_output.c, the part under g_alt_lock and the replaced functions: which screens
  are private, which thread is starting one, what is captured from the main screen, and the functions of
  the video library, which answer for the private screen themselves and pass every other call on. A
  call to a function of the stock libraries is recorded; its result is an argument.
\<close>

abbreviation ALTSCREEN_MAX_SESSIONS :: nat where "ALTSCREEN_MAX_SESSIONS \<equiv> 4"
abbreviation NVSS_OUTPUT_CONFIG_OFFSET :: nat where "NVSS_OUTPUT_CONFIG_OFFSET \<equiv> 10"
abbreviation DISPLAY_TARGET_MAIN :: u8 where "DISPLAY_TARGET_MAIN \<equiv> 59"
abbreviation NVSS_DIAG_BYTES :: nat where "NVSS_DIAG_BYTES \<equiv> 20"
abbreviation NVSS_ATTR_BYTES :: nat where "NVSS_ATTR_BYTES \<equiv> 64"
abbreviation SCREEN_MASTER_KEY_LEN :: nat where "SCREEN_MASTER_KEY_LEN \<equiv> 16"

record altscreen_time_sync =
  sy_context :: ptr
  sy_ntp_time :: ptr
  sy_up_ticks :: ptr

text \<open>The addresses of the stock functions, NULL while they are not resolved.\<close>

record real_fns =
  rf_screen_start :: ptr
  rf_screen_delete :: ptr
  rf_time_sync :: ptr
  rf_nvss_open :: ptr
  rf_nvss_stream_configure :: ptr
  rf_nvss_get_attribs :: ptr
  rf_nvss_set_attribs :: ptr
  rf_nvss_decode :: ptr
  rf_nvss_close :: ptr
  rf_derive_screen_aes :: ptr
  rf_aes_cbc_frame_init :: ptr
  rf_security_info :: nat

record alt_output =
  ao_sessions :: "ptr list"
  ao_owner :: nat
  ao_owner_valid :: bool
  ao_depth :: u32
  ao_patch_count :: u32
  ao_delegate :: ptr
  ao_time_sync :: altscreen_time_sync
  ao_time_sync_valid :: bool
  ao_master_key :: bytes
  ao_master_key_valid :: bool

definition init_output :: alt_output where
  "init_output = \<lparr>ao_sessions = replicate ALTSCREEN_MAX_SESSIONS NULL, ao_owner = 0, ao_owner_valid = False,
     ao_depth = 0, ao_patch_count = 0, ao_delegate = NULL,
     ao_time_sync = \<lparr>sy_context = NULL, sy_ntp_time = NULL, sy_up_ticks = NULL\<rparr>, ao_time_sync_valid = False,
     ao_master_key = replicate SCREEN_MASTER_KEY_LEN 0, ao_master_key_valid = False\<rparr>"

datatype stock_call =
    SC_START ptr ptr | SC_DELETE ptr | SC_TIME_SYNC ptr "altscreen_time_sync option"
  | SC_DERIVE bytes nat u64 | SC_NVSS_OPEN | SC_NVSS_CONFIGURE ptr | SC_NVSS_GET ptr | SC_NVSS_SET ptr
  | SC_NVSS_DECODE ptr | SC_NVSS_CLOSE ptr

text \<open>resolve_symbols, with the addresses that dlsym finds.\<close>

definition resolved :: "nat \<Rightarrow> nat \<Rightarrow> nat" where
  "resolved found p = (if p = 0 then found else p)"

definition resolve_symbols :: "real_fns \<Rightarrow> real_fns \<Rightarrow> real_fns" where
  "resolve_symbols d r = \<lparr>
     rf_screen_start = resolved (rf_screen_start d) (rf_screen_start r),
     rf_screen_delete = resolved (rf_screen_delete d) (rf_screen_delete r),
     rf_time_sync = resolved (rf_time_sync d) (rf_time_sync r),
     rf_nvss_open = resolved (rf_nvss_open d) (rf_nvss_open r),
     rf_nvss_stream_configure = resolved (rf_nvss_stream_configure d) (rf_nvss_stream_configure r),
     rf_nvss_get_attribs = resolved (rf_nvss_get_attribs d) (rf_nvss_get_attribs r),
     rf_nvss_set_attribs = resolved (rf_nvss_set_attribs d) (rf_nvss_set_attribs r),
     rf_nvss_decode = resolved (rf_nvss_decode d) (rf_nvss_decode r),
     rf_nvss_close = resolved (rf_nvss_close d) (rf_nvss_close r),
     rf_derive_screen_aes = resolved (rf_derive_screen_aes d) (rf_derive_screen_aes r),
     rf_aes_cbc_frame_init = resolved (rf_aes_cbc_frame_init d) (rf_aes_cbc_frame_init r),
     rf_security_info = resolved (rf_security_info d) (rf_security_info r)\<rparr>"

section \<open>The private screens\<close>

definition session_index_locked :: "ptr \<Rightarrow> alt_output \<Rightarrow> nat option" where
  "session_index_locked s ao = find (\<lambda>i. ao_sessions ao ! i = s) [0..<ALTSCREEN_MAX_SESSIONS]"

definition altscreen_register_session :: "ptr \<Rightarrow> alt_output \<Rightarrow> bool \<times> alt_output" where
  "altscreen_register_session s ao =
     (if s = NULL then (False, ao)
      else if session_index_locked s ao \<noteq> None then (True, ao)
      else case session_index_locked NULL ao of
        None \<Rightarrow> (False, ao)
      | Some i \<Rightarrow> (True, ao\<lparr>ao_sessions := (ao_sessions ao)[i := s]\<rparr>))"

definition altscreen_unregister_session :: "ptr \<Rightarrow> alt_output \<Rightarrow> alt_output" where
  "altscreen_unregister_session s ao =
     (if s = NULL then ao
      else case session_index_locked s ao of
        None \<Rightarrow> ao
      | Some i \<Rightarrow> ao\<lparr>ao_sessions := (ao_sessions ao)[i := NULL]\<rparr>)"

definition altscreen_is_session :: "ptr \<Rightarrow> alt_output \<Rightarrow> bool" where
  "altscreen_is_session s ao \<longleftrightarrow> s \<noteq> NULL \<and> session_index_locked s ao \<noteq> None"

section \<open>The thread that starts a private screen\<close>

definition begin_output_scope :: "nat \<Rightarrow> alt_output \<Rightarrow> bool \<times> alt_output" where
  "begin_output_scope self ao =
     (if \<not> ao_owner_valid ao then (True, ao\<lparr>ao_owner := self, ao_owner_valid := True, ao_depth := 1\<rparr>)
      else if ao_owner ao = self then (True, ao\<lparr>ao_depth := ao_depth ao + 1\<rparr>)
      else (False, ao))"

definition end_output_scope :: "nat \<Rightarrow> alt_output \<Rightarrow> alt_output" where
  "end_output_scope self ao =
     (if ao_owner_valid ao \<and> ao_owner ao = self then
        if ao_depth ao > 1 then ao\<lparr>ao_depth := ao_depth ao - 1\<rparr>
        else ao\<lparr>ao_depth := 0, ao_owner_valid := False\<rparr>
      else ao)"

definition output_scope_active_for_current_thread :: "nat \<Rightarrow> alt_output \<Rightarrow> bool" where
  "output_scope_active_for_current_thread self ao \<longleftrightarrow>
     ao_owner_valid ao \<and> ao_depth ao \<noteq> 0 \<and> ao_owner ao = self"

section \<open>What is captured from the main screen\<close>

definition altscreen_time_sync_ready :: "real_fns \<Rightarrow> alt_output \<Rightarrow> bool" where
  "altscreen_time_sync_ready r ao \<longleftrightarrow> ao_time_sync_valid ao \<and> rf_time_sync r \<noteq> NULL"

definition altscreen_apply_main_time_sync :: "real_fns \<Rightarrow> ptr \<Rightarrow> alt_output \<Rightarrow> bool \<times> stock_call list" where
  "altscreen_apply_main_time_sync r s ao =
     (if s = NULL \<or> \<not> altscreen_time_sync_ready r ao then (False, [])
      else (True, [SC_TIME_SYNC s (Some (ao_time_sync ao))]))"

definition altscreen_aes_ready :: "real_fns \<Rightarrow> alt_output \<Rightarrow> bool" where
  "altscreen_aes_ready r ao \<longleftrightarrow> ao_master_key_valid ao \<and> rf_derive_screen_aes r \<noteq> NULL"

text \<open>outs is whether both output buffers are given.\<close>

definition altscreen_derive_aes :: "real_fns \<Rightarrow> u64 \<Rightarrow> bool \<Rightarrow> alt_output \<Rightarrow> bool \<times> stock_call list" where
  "altscreen_derive_aes r conn outs ao =
     (if conn = 0 \<or> \<not> outs \<or> \<not> altscreen_aes_ready r ao then (False, [])
      else (True, [SC_DERIVE (ao_master_key ao) SCREEN_MASTER_KEY_LEN conn]))"

definition altscreen_output_ready :: "real_fns \<Rightarrow> bool" where
  "altscreen_output_ready r \<longleftrightarrow> rf_screen_start r \<noteq> NULL \<and> rf_nvss_open r \<noteq> NULL"

text \<open>
  The start of a screen. The stock function runs between the two sections of the lock; what happens
  meanwhile, on this thread and on the others, is the function inside, with the result.
\<close>

definition scoped_start :: "nat \<Rightarrow> ptr \<Rightarrow> ptr \<Rightarrow> (alt_output \<Rightarrow> int \<times> alt_output) \<Rightarrow> alt_output \<Rightarrow>
    int \<times> stock_call list \<times> alt_output" where
  "scoped_start self s delegate inside ao =
     (let (ok, ao) = begin_output_scope self ao
      in if \<not> ok then (-1, [], ao)
         else let (rc, ao) = inside ao in (rc, [SC_START s delegate], end_output_scope self ao))"

definition altscreen_start_session :: "real_fns \<Rightarrow> nat \<Rightarrow> ptr \<Rightarrow> ptr \<Rightarrow> (alt_output \<Rightarrow> int \<times> alt_output) \<Rightarrow>
    alt_output \<Rightarrow> int \<times> stock_call list \<times> alt_output" where
  "altscreen_start_session r self s delegate inside ao =
     (if rf_screen_start r = NULL then (-1, [], ao)
      else if \<not> altscreen_is_session s ao then (-1, [], ao)
      else let (ok, cs) = altscreen_apply_main_time_sync r s ao
      in if \<not> ok then (-1, cs, ao)
         else let (rc, cs', ao) = scoped_start self s delegate inside ao in (rc, cs @ cs', ao))"

definition AirPlayReceiverSessionScreen_StartSession :: "real_fns \<Rightarrow> nat \<Rightarrow> ptr \<Rightarrow> ptr \<Rightarrow>
    (alt_output \<Rightarrow> int \<times> alt_output) \<Rightarrow> alt_output \<Rightarrow> int \<times> stock_call list \<times> alt_output" where
  "AirPlayReceiverSessionScreen_StartSession r self s delegate inside ao =
     (if rf_screen_start r = NULL then (-1, [], ao)
      else if \<not> altscreen_is_session s ao then
        let (rc, ao) = inside (ao\<lparr>ao_delegate := delegate\<rparr>) in (rc, [SC_START s delegate], ao)
      else scoped_start self s delegate inside ao)"

definition AirPlayReceiverSessionScreen_SetTimeSynchronizer :: "real_fns \<Rightarrow> ptr \<Rightarrow> altscreen_time_sync option \<Rightarrow>
    alt_output \<Rightarrow> stock_call list \<times> alt_output" where
  "AirPlayReceiverSessionScreen_SetTimeSynchronizer r s sync ao =
     (if rf_time_sync r = NULL then ([], ao)
      else ([SC_TIME_SYNC s sync],
            case sync of
              None \<Rightarrow> ao
            | Some y \<Rightarrow> if \<not> altscreen_is_session s ao
                        then ao\<lparr>ao_time_sync := y, ao_time_sync_valid := True\<rparr> else ao))"

definition AirPlayReceiverSessionScreen_Delete :: "real_fns \<Rightarrow> ptr \<Rightarrow> alt_output \<Rightarrow> stock_call list \<times> alt_output" where
  "AirPlayReceiverSessionScreen_Delete r s ao =
     (if rf_screen_delete r \<noteq> NULL then [SC_DELETE s] else [], altscreen_unregister_session s ao)"

text \<open>
  AES_CBCFrame_Init: ra is the return address, rc the result of the stock function. The key is given by
  its bytes, of which the first 16 are read.
\<close>

definition AES_CBCFrame_Init :: "real_fns \<Rightarrow> nat \<Rightarrow> int \<Rightarrow> bytes option \<Rightarrow> bool \<Rightarrow> alt_output \<Rightarrow> (int \<times> alt_output) option" where
  "AES_CBCFrame_Init r ra rc key encrypt ao =
     (if rf_aes_cbc_frame_init r = NULL then Some (-1, ao)
      else case key of
        None \<Rightarrow> Some (rc, ao)
      | Some k \<Rightarrow>
          if rc = 0 \<and> \<not> encrypt \<and> rf_security_info r \<noteq> 0 \<and> rf_security_info r \<le> ra \<and> ra < rf_security_info r + 0x80
          then if length k < SCREEN_MASTER_KEY_LEN then None
               else Some (rc, ao\<lparr>ao_master_key := take SCREEN_MASTER_KEY_LEN k, ao_master_key_valid := True\<rparr>)
          else Some (rc, ao))"

definition AirPlay_DeriveAESKeySHA512ForScreen :: "real_fns \<Rightarrow> bytes option \<Rightarrow> nat \<Rightarrow> u64 \<Rightarrow> alt_output \<Rightarrow>
    (stock_call list \<times> alt_output) option" where
  "AirPlay_DeriveAESKeySHA512ForScreen r key len conn ao =
     (let calls = (if rf_derive_screen_aes r \<noteq> NULL
                   then [SC_DERIVE (case key of None \<Rightarrow> [] | Some k \<Rightarrow> k) len conn] else []) in
      case key of
        Some k \<Rightarrow>
          if len = SCREEN_MASTER_KEY_LEN then
            if length k < len then None
            else Some (calls, ao\<lparr>ao_master_key := take len k, ao_master_key_valid := True\<rparr>)
          else Some (calls, ao)
      | None \<Rightarrow> Some (calls, ao))"

end
