(* ===== verification/Alt_Stub.thy ===== *)
theory Alt_Stub
  imports Alt_Output
begin

text \<open>
  altscreen/native/altscreen_output.c: the functions of the video library. Calls for the private screen
  end in the forwarder, all others go to the stock library; the handle of the private screen is the
  address of g_stub_token. The two marker files and the control script are the outside world of open and close.
\<close>

section \<open>The control script\<close>

text \<open>
  spawn_control over the descriptor table of the process: the flags of every open descriptor. The
  child inherits the descriptors that are not marked close-on-exec at the time of the spawn.
\<close>

abbreviation FD_CLOEXEC :: u32 where "FD_CLOEXEC \<equiv> 1"

type_synonym fd_table = "nat \<Rightarrow> u32 option"

definition spawn_fds :: "nat list" where
  "spawn_fds = [3..<1024]"

text \<open>The first loop: was is 1 for the descriptors whose flag it sets.\<close>

fun mark_fds :: "nat list \<Rightarrow> fd_table \<Rightarrow> fd_table \<times> nat list" where
  "mark_fds [] t = (t, [])"
| "mark_fds (fd # fds) t =
     (case t fd of
        None \<Rightarrow> mark_fds fds t
      | Some fl \<Rightarrow>
          if fl AND FD_CLOEXEC \<noteq> 0 then mark_fds fds t
          else let (t, was) = mark_fds fds (t(fd \<mapsto> fl OR FD_CLOEXEC)) in (t, fd # was))"

fun restore_fds :: "nat list \<Rightarrow> fd_table \<Rightarrow> fd_table" where
  "restore_fds [] t = t"
| "restore_fds (fd # was) t =
     restore_fds was (case t fd of None \<Rightarrow> t | Some fl \<Rightarrow> t(fd \<mapsto> fl AND NOT FD_CLOEXEC))"

text \<open>Whether the control script runs, the table that the child starts from, and the table afterwards.\<close>

definition spawn_control :: "bool \<Rightarrow> int \<Rightarrow> fd_table \<Rightarrow> bool \<times> fd_table option \<times> fd_table" where
  "spawn_control executable pid t =
     (if \<not> executable then (False, None, t)
      else let (t', was) = mark_fds spawn_fds t
      in (pid \<ge> 0, Some t', restore_fds was t'))"

lemma mark_fds_result:
  "mark_fds fds t = (t', was) \<Longrightarrow> distinct fds \<Longrightarrow>
     (\<forall>fd. fd \<notin> set was \<longrightarrow> t' fd = t fd) \<and>
     set was = {fd \<in> set fds. \<exists>fl. t fd = Some fl \<and> fl AND FD_CLOEXEC = 0} \<and> distinct was \<and>
     (\<forall>fd \<in> set was. \<exists>fl. t fd = Some fl \<and> t' fd = Some (fl OR FD_CLOEXEC))"
proof (induction fds arbitrary: t was)
  case (Cons fd fds)
  show ?case
  proof (cases "\<exists>fl. t fd = Some fl \<and> fl AND FD_CLOEXEC = 0")
    case True
    then obtain fl where fl: "t fd = Some fl" "fl AND FD_CLOEXEC = 0" by blast
    with Cons.prems(1) obtain was' where m: "mark_fds fds (t(fd \<mapsto> fl OR FD_CLOEXEC)) = (t', was')" "was = fd # was'"
      by (auto split: prod.splits)
    from Cons.IH [OF m(1)] Cons.prems(2) have IH:
      "\<forall>x. x \<notin> set was' \<longrightarrow> t' x = (t(fd \<mapsto> fl OR FD_CLOEXEC)) x"
      "set was' = {x \<in> set fds. \<exists>fl'. (t(fd \<mapsto> fl OR FD_CLOEXEC)) x = Some fl' \<and> fl' AND FD_CLOEXEC = 0}" "distinct was'"
      "\<forall>x \<in> set was'. \<exists>fl'. (t(fd \<mapsto> fl OR FD_CLOEXEC)) x = Some fl' \<and> t' x = Some (fl' OR FD_CLOEXEC)" by simp_all
    have out: "fd \<notin> set was'" using IH(2) Cons.prems(2) by auto
    then show ?thesis
      using IH m(2) fl Cons.prems(2) by (auto simp: fun_upd_def split: if_splits)
  next
    case False
    then have "mark_fds fds t = (t', was)" using Cons.prems(1) by (auto split: option.splits if_splits)
    from Cons.IH [OF this] Cons.prems(2) False show ?thesis by auto
  qed
qed auto

lemma restore_fds_result:
  "distinct was \<Longrightarrow> restore_fds was t fd =
     (if fd \<in> set was then map_option (\<lambda>fl. fl AND NOT FD_CLOEXEC) (t fd) else t fd)"
proof (induction was arbitrary: t)
  case (Cons x was)
  then show ?case by (auto simp: fun_upd_def split: option.splits)
qed simp

lemma spawn_fds_set [simp]: "fd \<in> set spawn_fds \<longleftrightarrow> 3 \<le> fd \<and> fd < 1024"
  by (simp only: spawn_fds_def set_upt atLeastLessThan_iff)

lemma spawn_fds_distinct [simp]: "distinct spawn_fds"
  by (simp only: spawn_fds_def distinct_upt)

lemma cloexec_off:
  assumes "fl AND FD_CLOEXEC = 0"
  shows "(fl OR FD_CLOEXEC) AND NOT FD_CLOEXEC = (fl :: u32)"
proof (rule bit_word_eqI)
  fix n assume "n < LENGTH(32)"
  have "\<not> bit (fl AND FD_CLOEXEC) 0" unfolding assms by simp
  then have "\<not> bit fl 0" by (simp add: bit_and_iff)
  with \<open>n < LENGTH(32)\<close> show "bit ((fl OR FD_CLOEXEC) AND NOT FD_CLOEXEC) n = bit fl n"
    by (cases "n = 0") (auto simp: bit_and_iff bit_or_iff bit_not_iff bit_1_iff)
qed

text \<open>The child gets no descriptor of the program but the first three, and the program keeps all its flags.\<close>

lemma spawn_inherits:
  assumes s: "spawn_control executable pid t = (ok, child, t')"
  shows "t' = t \<and> (\<forall>c fd fl. child = Some c \<and> 3 \<le> fd \<and> fd < 1024 \<and> c fd = Some fl \<longrightarrow> fl AND FD_CLOEXEC \<noteq> 0)"
proof (cases executable)
  case False
  with s show ?thesis by (auto simp: spawn_control_def)
next
  case True
  obtain c was where m: "mark_fds spawn_fds t = (c, was)" by fastforce
  from mark_fds_result [OF this] have r: "\<And>fd. fd \<notin> set was \<Longrightarrow> c fd = t fd"
    "set was = {fd \<in> set spawn_fds. \<exists>fl. t fd = Some fl \<and> fl AND FD_CLOEXEC = 0}" "distinct was"
    "\<And>fd. fd \<in> set was \<Longrightarrow> \<exists>fl. t fd = Some fl \<and> c fd = Some (fl OR FD_CLOEXEC)" by (simp_all only: spawn_fds_distinct simp_thms)
  from s True m have e: "child = Some c" "t' = restore_fds was c" by (auto simp: spawn_control_def)
  have "t' fd = t fd" for fd
  proof (cases "fd \<in> set was")
    case True
    with r(4) obtain fl where "t fd = Some fl" "c fd = Some (fl OR FD_CLOEXEC)" by blast
    moreover from True r(2) this(1) have "fl AND FD_CLOEXEC = 0" by auto
    ultimately show ?thesis using True r(3) e(2) by (simp add: restore_fds_result cloexec_off [simplified])
  qed (use r(1,3) e(2) in \<open>simp add: restore_fds_result\<close>)
  moreover have "fl AND FD_CLOEXEC \<noteq> 0" if "3 \<le> fd" "fd < 1024" "c fd = Some fl" for fd fl
  proof (cases "fd \<in> set was")
    case True
    with r(4) that(3) obtain fl' where "fl = fl' OR FD_CLOEXEC" by force
    then have "bit (fl AND FD_CLOEXEC) 0" by (simp add: bit_and_iff bit_or_iff)
    then show ?thesis by (metis bit_0_eq bot_apply bot_bool_def)
  next
    case False
    with r(1,2) that show ?thesis by auto
  qed
  ultimately show ?thesis using e(1) by auto
qed

section \<open>The functions of the video library\<close>

datatype marker = M_ACTIVE bool | M_REACQUIRE bool

text \<open>What a call does: result, calls of the stock library, socket calls and marker files.\<close>

record nvss_result =
  nr_rc :: int
  nr_stock :: "stock_call list"
  nr_events :: "fwd_event list"
  nr_markers :: "marker list"

abbreviation answered :: "int \<Rightarrow> nvss_result" where
  "answered rc \<equiv> \<lparr>nr_rc = rc, nr_stock = [], nr_events = [], nr_markers = []\<rparr>"

text \<open>A call that is passed on, with the result of the stock function.\<close>

definition passed_on :: "ptr \<Rightarrow> stock_call \<Rightarrow> int \<Rightarrow> nvss_result" where
  "passed_on fn c rc =
     (if fn = NULL then answered (-1)
      else \<lparr>nr_rc = rc, nr_stock = [c], nr_events = [], nr_markers = []\<rparr>)"

definition is_stub_handle :: "ptr \<Rightarrow> ptr \<Rightarrow> bool" where
  "is_stub_handle token h \<longleftrightarrow> h = token"

text \<open>
  NvSSVideoOpen: cfg is the configuration, of which 20 bytes are dumped to the log; the handle is
  what is stored through out_handle. spawned is the result of spawn_control.
\<close>

definition NvSSVideoOpen :: "real_fns \<Rightarrow> ptr \<Rightarrow> nat \<Rightarrow> bool \<Rightarrow> bytes option \<Rightarrow> int \<Rightarrow> bool \<Rightarrow> alt_output \<Rightarrow> forward \<Rightarrow>
    (nvss_result \<times> ptr option \<times> alt_output \<times> forward) option" where
  "NvSSVideoOpen r token self has_out cfg rc spawned ao f =
     (let stock = Some (passed_on (rf_nvss_open r) SC_NVSS_OPEN rc, None, ao, f) in
      if rf_nvss_open r = NULL then Some (answered (-1), None, ao, f)
      else case cfg of
        None \<Rightarrow> stock
      | Some c \<Rightarrow>
          if \<not> output_scope_active_for_current_thread self ao then stock
          else if length c < NVSS_DIAG_BYTES then None
          else if c ! NVSS_OUTPUT_CONFIG_OFFSET \<noteq> DISPLAY_TARGET_MAIN then stock
          else if \<not> has_out then Some (answered (-1), None, ao, f)
          else let (ok, es, f) = stub_open_locked f
          in if \<not> ok then Some (answered (-1), None, ao, f)
             else Some (\<lparr>nr_rc = 0, nr_stock = [], nr_events = es,
                          nr_markers = [M_REACQUIRE False, M_ACTIVE True] @ (if spawned then [] else [M_ACTIVE False])\<rparr>,
                        Some token, ao\<lparr>ao_patch_count := ao_patch_count ao + 1\<rparr>, f))"

definition NvSSVideoStreamConfigure :: "real_fns \<Rightarrow> ptr \<Rightarrow> ptr \<Rightarrow> bytes option \<Rightarrow> int \<Rightarrow> forward \<Rightarrow>
    (nvss_result \<times> forward) option" where
  "NvSSVideoStreamConfigure r token h cfg rc f =
     (if \<not> is_stub_handle token h then Some (passed_on (rf_nvss_stream_configure r) (SC_NVSS_CONFIGURE h) rc, f)
      else case cfg of
        None \<Rightarrow> Some (answered (-1), f)
      | Some c \<Rightarrow> do {
          w \<leftarrow> read_le32 c 0;
          hgt \<leftarrow> read_le32 c 4;
          fps \<leftarrow> read_le32 c 8;
          Some (answered 0, stub_configured w hgt fps f) })"

text \<open>The attributes are the bytes of the buffer, which is cleared up to 64 bytes.\<close>

definition NvSSVideoGetAttribs :: "real_fns \<Rightarrow> ptr \<Rightarrow> ptr \<Rightarrow> bytes option \<Rightarrow> int \<Rightarrow> (nvss_result \<times> bytes option) option" where
  "NvSSVideoGetAttribs r token h attribs rc =
     (if \<not> is_stub_handle token h then Some (passed_on (rf_nvss_get_attribs r) (SC_NVSS_GET h) rc, attribs)
      else case attribs of
        None \<Rightarrow> Some (answered (-1), None)
      | Some a \<Rightarrow>
          if length a < NVSS_ATTR_BYTES then None
          else Some (answered 0, Some (replicate NVSS_ATTR_BYTES 0 @ drop NVSS_ATTR_BYTES a)))"

definition NvSSVideoSetAttribs :: "real_fns \<Rightarrow> ptr \<Rightarrow> ptr \<Rightarrow> int \<Rightarrow> nvss_result" where
  "NvSSVideoSetAttribs r token h rc =
     (if \<not> is_stub_handle token h then passed_on (rf_nvss_set_attribs r) (SC_NVSS_SET h) rc else answered 0)"

text \<open>The argument of the decoder: address, length, time and flag.\<close>

definition read_decode_args :: "bytes \<Rightarrow> (u32 \<times> u32 \<times> u64 \<times> u8) option" where
  "read_decode_args a = do {
     address \<leftarrow> read_le32 a 0;
     len \<leftarrow> read_le32 a 4;
     timestamp \<leftarrow> read_le64 a 8;
     flg \<leftarrow> rd8 a 0x10;
     Some (address, len, timestamp, flg) }"

text \<open>memory is what can be read at an address; the result has whether a keyframe is requested.\<close>

definition NvSSVideoDecode :: "real_fns \<Rightarrow> ptr \<Rightarrow> ptr \<Rightarrow> bytes option \<Rightarrow> (u32 \<Rightarrow> bytes) \<Rightarrow> fwd_env \<Rightarrow> int \<Rightarrow> forward \<Rightarrow>
    (nvss_result \<times> bool \<times> forward) option" where
  "NvSSVideoDecode r token h args memory fe rc f =
     (if \<not> is_stub_handle token h then Some (passed_on (rf_nvss_decode r) (SC_NVSS_DECODE h) rc, False, f)
      else case args of
        None \<Rightarrow> Some (answered (-1), False, f)
      | Some a \<Rightarrow> do {
          (address, len, timestamp, flg) \<leftarrow> read_decode_args a;
          if address = 0 \<or> len = 0 then Some (answered 0, False, f)
          else if length (memory address) < unat len then None
          else do {
            (request, es, f) \<leftarrow> fwd_send_access_unit fe (take (unat len) (memory address)) timestamp (ucast flg) f;
            Some (\<lparr>nr_rc = 0, nr_stock = [], nr_events = es, nr_markers = []\<rparr>, request, f) } })"

definition NvSSVideoClose :: "real_fns \<Rightarrow> ptr \<Rightarrow> ptr \<Rightarrow> int \<Rightarrow> forward \<Rightarrow> nvss_result \<times> forward" where
  "NvSSVideoClose r token h rc f =
     (if \<not> is_stub_handle token h then (passed_on (rf_nvss_close r) (SC_NVSS_CLOSE h) rc, f)
      else let (es, f) = stub_close_locked f
      in (\<lparr>nr_rc = 0, nr_stock = [], nr_events = es, nr_markers = [M_ACTIVE False, M_REACQUIRE False]\<rparr>, f))"

section \<open>Properties\<close>

lemma read_decode_args_decode: "read_decode_args (decode_args address len ts flg) = Some (address, len, ts, ucast (flg AND 0xFF))"
proof -
  let ?a = "write_le32 address" and ?b = "write_le32 len" and ?c = "write_le32 (ucast (ts AND 0xFFFFFFFF))"
    and ?d = "write_le32 (ucast (drop_bit 32 ts))" and ?t = "[ucast (flg AND 0xFF)] @ replicate 0x17 0"
  have w: "decode_args address len ts flg = ?a @ ?b @ ?c @ ?d @ ?t" by (simp only: decode_args_def append_assoc)
  have "read_le32 (decode_args address len ts flg) 0 = Some address"
    using read_write_le32 [of "[]" address] unfolding w by simp
  moreover have "read_le32 (decode_args address len ts flg) 4 = Some len"
    using read_write_le32 [of ?a len] unfolding w by simp
  moreover have "read_le64 (decode_args address len ts flg) 8 = Some ts"
    using read_write_le32 [of "?a @ ?b" "ucast (ts AND 0xFFFFFFFF)" "?d @ ?t"]
      read_write_le32 [of "?a @ ?b @ ?c" "ucast (drop_bit 32 ts)" ?t]
    unfolding w by (simp add: read_le64_def le64_halves)
  moreover have "rd8 (decode_args address len ts flg) 16 = Some (ucast (flg AND 0xFF))"
    unfolding w by (simp add: rd8_def nth_append)
  ultimately show ?thesis by (simp add: read_decode_args_def)
qed

text \<open>The registry as a set.\<close>

definition screens :: "alt_output \<Rightarrow> ptr set" where
  "screens ao = set (ao_sessions ao) - {NULL}"

definition registry_ok :: "alt_output \<Rightarrow> bool" where
  "registry_ok ao \<longleftrightarrow> length (ao_sessions ao) = ALTSCREEN_MAX_SESSIONS \<and>
     (\<forall>i < 4. \<forall>j < 4. ao_sessions ao ! i = ao_sessions ao ! j \<and> ao_sessions ao ! i \<noteq> NULL \<longrightarrow> i = j)"

lemma session_index_Some:
  "session_index_locked s ao = Some i \<Longrightarrow> i < 4 \<and> ao_sessions ao ! i = s"
  by (auto simp: session_index_locked_def find_Some_iff)

lemma session_index_None:
  "session_index_locked s ao = None \<Longrightarrow> length (ao_sessions ao) = 4 \<Longrightarrow> s \<notin> set (ao_sessions ao)"
  by (auto simp: session_index_locked_def find_None_iff in_set_conv_nth)

lemma is_session_screens: "registry_ok ao \<Longrightarrow> altscreen_is_session s ao \<longleftrightarrow> s \<in> screens ao"
proof (cases "session_index_locked s ao")
  case None
  assume "registry_ok ao"
  with session_index_None [OF None] None show ?thesis by (simp add: altscreen_is_session_def screens_def registry_ok_def)
next
  case (Some i)
  assume "registry_ok ao"
  with session_index_Some [OF Some] Some show ?thesis
    by (auto simp: altscreen_is_session_def screens_def registry_ok_def)
qed

lemma screens_card: "registry_ok ao \<Longrightarrow> card (screens ao) \<le> 4"
proof -
  assume "registry_ok ao"
  have "card (screens ao) \<le> card (set (ao_sessions ao))" unfolding screens_def by (rule card_mono) auto
  also have "\<dots> \<le> length (ao_sessions ao)" by (rule card_length)
  finally show ?thesis using \<open>registry_ok ao\<close> by (simp add: registry_ok_def)
qed

lemma screens_full:
  assumes "registry_ok ao" "session_index_locked NULL ao = None"
  shows "card (screens ao) = 4"
proof -
  have n: "NULL \<notin> set (ao_sessions ao)" "length (ao_sessions ao) = 4"
    using session_index_None [OF assms(2)] assms(1) by (simp_all add: registry_ok_def)
  then have "distinct (ao_sessions ao)"
    using assms(1) unfolding registry_ok_def distinct_conv_nth by (metis nth_mem)
  with n show ?thesis by (simp add: screens_def distinct_card)
qed

lemma screens_room:
  assumes "registry_ok ao" "session_index_locked NULL ao = Some i"
  shows "card (screens ao) < 4"
proof -
  have i: "i < 4" "ao_sessions ao ! i = NULL" "length (ao_sessions ao) = 4"
    using session_index_Some [OF assms(2)] assms(1) by (simp_all add: registry_ok_def)
  have "screens ao \<subseteq> (\<lambda>k. ao_sessions ao ! k) ` ({..<4} - {i})"
  proof
    fix x assume "x \<in> screens ao"
    then obtain k where k: "k < 4" "ao_sessions ao ! k = x" "x \<noteq> NULL" using i(3) by (auto simp: screens_def in_set_conv_nth)
    with i(2) have "k \<in> {..<4} - {i}" by auto
    with k(2) show "x \<in> (\<lambda>k. ao_sessions ao ! k) ` ({..<4} - {i})" by blast
  qed
  then have "card (screens ao) \<le> card ({..<4} - {i})" by (meson card_image_le card_mono finite_Diff finite_imageI finite_lessThan order_trans)
  then show ?thesis using i(1) by simp
qed

lemma in_update:
  "length xs = 4 \<Longrightarrow> i < 4 \<Longrightarrow> x \<in> set (xs[i := s]) \<longleftrightarrow> x = s \<or> (\<exists>k < 4. k \<noteq> i \<and> xs ! k = x)"
  by (auto simp: in_set_conv_nth nth_list_update)

lemma in_slots: "length xs = 4 \<Longrightarrow> x \<in> set xs \<longleftrightarrow> (\<exists>k < 4. xs ! k = x)"
  by (auto simp: in_set_conv_nth)

datatype screen_op = R_ADD ptr | R_DEL ptr

fun screen_step :: "screen_op \<Rightarrow> alt_output \<Rightarrow> bool \<times> alt_output" where
  "screen_step (R_ADD s) ao = altscreen_register_session s ao"
| "screen_step (R_DEL s) ao = (True, altscreen_unregister_session s ao)"

text \<open>The specification: a set of at most four screens.\<close>

fun screen_spec :: "screen_op \<Rightarrow> ptr set \<Rightarrow> bool \<times> ptr set" where
  "screen_spec (R_ADD s) S = (if s \<noteq> NULL \<and> (s \<in> S \<or> card S < 4) then (True, insert s S) else (False, S))"
| "screen_spec (R_DEL s) S = (True, S - {s})"

lemma screen_refines:
  assumes "registry_ok ao"
  shows "fst (screen_step op ao) = fst (screen_spec op (screens ao)) \<and>
    screens (snd (screen_step op ao)) = snd (screen_spec op (screens ao)) \<and> registry_ok (snd (screen_step op ao))"
proof (cases op)
  case (R_ADD s)
  note len = assms [unfolded registry_ok_def]
  consider "s = NULL" | (old) "s \<noteq> NULL" "session_index_locked s ao \<noteq> None"
    | (full) "s \<noteq> NULL" "session_index_locked s ao = None" "session_index_locked NULL ao = None"
    | (new) i where "s \<noteq> NULL" "session_index_locked s ao = None" "session_index_locked NULL ao = Some i" by blast
  then show ?thesis
  proof cases
    case old
    then have "s \<in> screens ao" using is_session_screens [OF assms, of s] by (simp add: altscreen_is_session_def)
    with old R_ADD assms show ?thesis by (auto simp: altscreen_register_session_def)
  next
    case full
    have "s \<notin> screens ao" using is_session_screens [OF assms, of s] full by (simp add: altscreen_is_session_def)
    with full R_ADD assms screens_full [OF assms full(3)] show ?thesis by (simp add: altscreen_register_session_def)
  next
    case new
    note i = session_index_Some [OF new(3)]
    have s: "s \<notin> set (ao_sessions ao)" using session_index_None [OF new(2)] len by simp
    have "set ((ao_sessions ao)[i := s]) - {NULL} = insert s (set (ao_sessions ao) - {NULL})"
      using i len new(1) by (auto simp: in_update [of "ao_sessions ao"] in_slots [of "ao_sessions ao"]) (metis less_irrefl)
    moreover have "registry_ok (ao\<lparr>ao_sessions := (ao_sessions ao)[i := s]\<rparr>)"
      using len i s by (auto simp: registry_ok_def nth_list_update in_slots [of "ao_sessions ao"])
    ultimately show ?thesis
      using new R_ADD screens_room [OF assms new(3)] by (simp add: altscreen_register_session_def screens_def)
  qed (use R_ADD assms in \<open>simp add: altscreen_register_session_def\<close>)
next
  case (R_DEL s)
  note len = assms [unfolded registry_ok_def]
  show ?thesis
  proof (cases "s = NULL \<or> session_index_locked s ao = None")
    case True
    then have "s \<notin> screens ao" using is_session_screens [OF assms, of s] by (auto simp: altscreen_is_session_def)
    with True R_DEL assms show ?thesis by (auto simp: altscreen_unregister_session_def)
  next
    case False
    then obtain i where e: "s \<noteq> NULL" "session_index_locked s ao = Some i" by auto
    note i = session_index_Some [OF e(2)]
    have "set ((ao_sessions ao)[i := NULL]) - {NULL} = set (ao_sessions ao) - {NULL} - {s}"
      using i len e(1) by (auto simp: in_update [of "ao_sessions ao"] in_slots [of "ao_sessions ao"])
    moreover have "registry_ok (ao\<lparr>ao_sessions := (ao_sessions ao)[i := NULL]\<rparr>)"
      using len i by (auto simp: registry_ok_def nth_list_update)
    ultimately show ?thesis using e R_DEL by (simp add: altscreen_unregister_session_def screens_def)
  qed
qed

lemma init_registry: "registry_ok init_output" "screens init_output = {}"
  by (auto simp: registry_ok_def screens_def init_output_def)

fun screen_run :: "screen_op list \<Rightarrow> alt_output \<Rightarrow> bool list \<times> alt_output" where
  "screen_run [] ao = ([], ao)"
| "screen_run (op # ops) ao = (let (b, ao) = screen_step op ao; (bs, ao) = screen_run ops ao in (b # bs, ao))"

fun spec_screens :: "screen_op list \<Rightarrow> ptr set \<Rightarrow> bool list \<times> ptr set" where
  "spec_screens [] S = ([], S)"
| "spec_screens (op # ops) S = (let (b, S) = screen_spec op S; (bs, S) = spec_screens ops S in (b # bs, S))"

lemma screen_run_refines:
  "registry_ok ao \<Longrightarrow> screen_run ops ao = (bs, ao') \<Longrightarrow>
     spec_screens ops (screens ao) = (bs, screens ao') \<and> registry_ok ao'"
proof (induction ops arbitrary: ao bs)
  case (Cons op ops)
  obtain b ao1 where s: "screen_step op ao = (b, ao1)" by fastforce
  obtain cs where r: "screen_run ops ao1 = (cs, ao')" "bs = b # cs" using Cons.prems(2) s by (auto split: prod.splits)
  from screen_refines [OF Cons.prems(1), of op] s have st: "screen_spec op (screens ao) = (b, screens ao1)" "registry_ok ao1"
    by (simp_all add: prod_eq_iff)
  from Cons.IH [OF st(2) r(1)] st r(2) show ?case by simp
qed simp

end
