(* ===== verification/Alt_Video_Demo.thy ===== *)
theory Alt_Video_Demo
  imports Alt_Stub
begin

text \<open>A closed run of the video path: two access units are forwarded and decoded.\<close>

definition demo_fe :: fwd_env where
  "demo_fe = \<lparr>fe_now = 1000, fe_socket = 4, fe_connected = True, fe_later = 1001, fe_sends = [FwdTimeout, FwdSent 900]\<rparr>"

definition demo_idr :: bytes where
  "demo_idr = annexb [[0x67, 1], [0x68, 2], [0x65, 3]]"

definition demo_predictive :: bytes where
  "demo_predictive = annexb [[0x41, 9]]"

definition demo_frames :: "av_frame list" where
  "demo_frames = [\<lparr>av_data = demo_idr, av_time = 5, av_flag = 1\<rparr>, \<lparr>av_data = demo_predictive, av_time = 6, av_flag = 0\<rparr>]"

definition demo_video_ops :: "fwd_op list" where
  "demo_video_ops = [FO_OPEN, FO_UNIT demo_fe demo_idr 5 1, FO_UNIT demo_fe demo_predictive 6 0, FO_CLOSE]"

definition demo_video :: "fwd_event list" where
  "demo_video = [F_SOCKET 4, F_CONNECTED 4] @ map (\<lambda>a. F_SENT 4 (av_wire a)) demo_frames @ [F_CLOSE 4]"

lemma fwd_loop_once: "p \<noteq> [] \<Longrightarrow> length p \<le> n \<Longrightarrow> fwd_loop (FwdSent n # rs) k p = Some (True, p, rs)"
  by (cases p) (simp_all add: Let_def)

lemma fwd_loop_later: "p \<noteq> [] \<Longrightarrow> fwd_loop (FwdTimeout # rs) 0 p = fwd_loop rs 1 p"
  by (cases p) simp_all

lemma demo_length: "length demo_idr = 18" "length demo_predictive = 6"
  by (simp_all add: demo_idr_def demo_predictive_def annexb_def)

lemma demo_ne: "demo_idr \<noteq> []" "demo_predictive \<noteq> []"
  by (simp_all add: demo_idr_def demo_predictive_def annexb_def)

lemma demo_scan: "scan_units demo_idr 0 0 = Some [(0, 7), (6, 8), (12, 5)]" "scan_units demo_predictive 0 0 = Some [(0, 1)]"
  by code_simp+

lemma demo_scanned:
  "\<exists>ps. fwd_scan_parameter_sets demo_idr f = Some (True, True, f\<lparr>fw_parameter_sets := ps\<rparr>)"
  "fwd_scan_parameter_sets demo_predictive f = Some (False, False, f)"
  by (auto simp: fwd_scan_parameter_sets_def demo_scan parameter_sets_def demo_length)

lemma demo_write:
  assumes "d \<in> {demo_idr, demo_predictive}" "fw_fd f = 4"
  shows "fwd_write_locked d ts flg (fe_sends demo_fe) f =
    Some (True, [F_SENT 4 (av_wire \<lparr>av_data = d, av_time = ts, av_flag = flg\<rparr>)], [], f\<lparr>fw_sent := fw_sent f + 1\<rparr>)"
proof -
  have l: "length d \<le> 18" using assms(1) demo_length by auto
  have ne: "d \<noteq> []" using assms(1) demo_ne by auto
  let ?w = "fwd_header (of_nat (length d)) ts flg @ d"
  have w: "?w \<noteq> []" "length ?w \<le> 900" using l ne by auto
  show ?thesis
    using l ne assms(2) fwd_loop_once [OF w, of "[]" 1] fwd_loop_later [OF w(1), of "[FwdSent 900]"]
    by (simp add: fwd_write_locked_def demo_fe_def av_wire_def)
qed

lemma demo_units:
  "\<exists>f1. fwd_send_access_unit demo_fe demo_idr 5 1 (init_forward\<lparr>fw_stub_active := True\<rparr>) =
     Some (False, [F_SOCKET 4, F_CONNECTED 4, F_SENT 4 (av_wire \<lparr>av_data = demo_idr, av_time = 5, av_flag = 1\<rparr>)], f1) \<and>
     fw_fd f1 = 4 \<and> \<not> fw_need_idr f1"
  "fw_fd f = 4 \<Longrightarrow> \<not> fw_need_idr f \<Longrightarrow> \<exists>f1. fwd_send_access_unit demo_fe demo_predictive 6 0 f =
     Some (False, [F_SENT 4 (av_wire \<lparr>av_data = demo_predictive, av_time = 6, av_flag = 0\<rparr>)], f1) \<and> fw_fd f1 = 4"
proof -
  note ne = demo_ne
  obtain ps where ps: "fwd_scan_parameter_sets demo_idr (init_forward\<lparr>fw_stub_active := True\<rparr>) =
      Some (True, True, init_forward\<lparr>fw_stub_active := True, fw_parameter_sets := ps\<rparr>)"
    using demo_scanned(1) [of "init_forward\<lparr>fw_stub_active := True\<rparr>"] by auto
  show "\<exists>f1. fwd_send_access_unit demo_fe demo_idr 5 1 (init_forward\<lparr>fw_stub_active := True\<rparr>) =
     Some (False, [F_SOCKET 4, F_CONNECTED 4, F_SENT 4 (av_wire \<lparr>av_data = demo_idr, av_time = 5, av_flag = 1\<rparr>)], f1) \<and>
     fw_fd f1 = 4 \<and> \<not> fw_need_idr f1"
    using ne ps demo_write [of demo_idr]
    by (simp add: fwd_send_access_unit_def fwd_connect_locked_def Let_def init_forward_def demo_fe_def)
  assume "fw_fd f = 4" "\<not> fw_need_idr f"
  then show "\<exists>f1. fwd_send_access_unit demo_fe demo_predictive 6 0 f =
     Some (False, [F_SENT 4 (av_wire \<lparr>av_data = demo_predictive, av_time = 6, av_flag = 0\<rparr>)], f1) \<and> fw_fd f1 = 4"
    using ne demo_scanned(2) [of f] demo_write [of demo_predictive f]
    by (simp add: fwd_send_access_unit_def fwd_connect_locked_def Let_def)
qed

lemma demo_video_exists: "\<exists>f. fwd_run demo_video_ops init_forward = Some (demo_video, f)"
proof -
  obtain f1 where 1: "fwd_send_access_unit demo_fe demo_idr 5 1 (init_forward\<lparr>fw_stub_active := True\<rparr>) =
     Some (False, [F_SOCKET 4, F_CONNECTED 4, F_SENT 4 (av_wire \<lparr>av_data = demo_idr, av_time = 5, av_flag = 1\<rparr>)], f1)"
     "fw_fd f1 = 4" "\<not> fw_need_idr f1" using demo_units(1) by blast
  from demo_units(2) [OF this(2,3)] obtain f2 where 2: "fwd_send_access_unit demo_fe demo_predictive 6 0 f1 =
     Some (False, [F_SENT 4 (av_wire \<lparr>av_data = demo_predictive, av_time = 6, av_flag = 0\<rparr>)], f2)" "fw_fd f2 = 4" by blast
  have open0: "stub_open_locked init_forward = (True, [], init_forward\<lparr>fw_stub_active := True\<rparr>)"
    by (simp add: stub_open_locked_def fwd_reset_locked_def fwd_close_locked_def init_forward_def)
  show ?thesis
    using 1(1) 2 by (simp add: demo_video_ops_def demo_video_def demo_frames_def open0 stub_close_locked_def fwd_close_locked_def)
qed

definition demo_forward :: forward where
  "demo_forward = snd (the (fwd_run demo_video_ops init_forward))"

lemma demo_video_run: "fwd_run demo_video_ops init_forward = Some (demo_video, demo_forward)"
  using demo_video_exists by (auto simp: demo_forward_def)

definition demo_conn :: bytes where
  "demo_conn = wire_of demo_frames"

lemma demo_conn_in: "demo_conn \<in> set (fst (fold on_wire demo_video ([], None)))"
  by (simp add: demo_conn_def demo_video_def demo_frames_def)

section \<open>The renderer\<close>

definition demo_calls :: "nv_call list" where
  "demo_calls = map (av_decode 9 77) demo_frames"

abbreviation demo_passes :: "vr_pass list" where
  "demo_passes \<equiv> replicate 100 \<lparr>vp_quit = False, vp_clock = 0, vp_decoded = 0\<rparr>"

abbreviation demo_reads :: "vr_read list" where
  "demo_reads \<equiv> replicate 100 (VrSome 7)"

lemma demo_reads_good: "reads_good demo_reads"
  by (simp add: reads_good_def)

lemma demo_passes_good: "\<forall>p \<in> set demo_passes. \<not> vp_quit p"
  by simp

lemma demo_served:
  "\<exists>v' rest. serve_loop 77 0 demo_passes demo_reads demo_conn \<lparr>vr_handle = 9, vr_frames = 0, vr_dec_err = 0\<rparr> =
     Some (demo_calls, v', rest)"
proof -
  let ?v = "\<lparr>vr_handle = 9, vr_frames = 0, vr_dec_err = 0\<rparr>"
  have l: "length demo_conn = 64" by (simp add: demo_conn_def demo_frames_def demo_length)
  obtain cs v' rest where s: "serve_loop 77 0 demo_passes demo_reads demo_conn ?v = Some (cs, v', rest)"
    using serve_total [of demo_reads demo_conn demo_passes 77 0 ?v] l by (auto simp: split_paired_Ex)
  have ok: "list_all av_ok demo_frames" using demo_length by (auto simp: demo_frames_def av_ok_def)
  have "av_partial []" by (simp add: av_partial_def)
  from serve_frames [OF ok this demo_reads_good demo_passes_good refl] s
  have "cs = decoding 77 ?v demo_frames" by (simp add: demo_conn_def)
  then show ?thesis using s by (simp add: decoding_def demo_calls_def)
qed

section \<open>A keyframe that is too large\<close>

definition large_idr :: bytes where
  "large_idr = annexb [0x65 # replicate 393200 0]"

lemma large_idr_found: "has_idr large_idr"
proof -
  have "nal_ok (0x65 # replicate n (0 :: u8))" for n
    by (auto simp: nal_ok_def nth_Cons')
  then have "nal_ok (0x65 # replicate 393200 (0 :: u8))" .
  then show ?thesis using unit_types_annexb [of "[0x65 # replicate 393200 0]"]
    by (simp add: has_idr_def large_idr_def)
qed

lemma large_idr_size: "20 + length large_idr > ALTSCREEN_FWD_BUFSZ"
  by (simp add: large_idr_def annexb_def)

text \<open>The forwarder is connected and waits for a keyframe.\<close>

definition demo_up :: forward where
  "demo_up = init_forward\<lparr>fw_stub_active := True, fw_fd := 4, fw_need_idr := True\<rparr>"

definition demo_fns :: real_fns where
  "demo_fns = \<lparr>rf_screen_start = 1, rf_screen_delete = 1, rf_time_sync = 1, rf_nvss_open = 1, rf_nvss_stream_configure = 1,
     rf_nvss_get_attribs = 1, rf_nvss_set_attribs = 1, rf_nvss_decode = 1, rf_nvss_close = 1, rf_derive_screen_aes = 1,
     rf_aes_cbc_frame_init = 1, rf_security_info = 1\<rparr>"

end
