(* ===== verification/Alt_Trace.thy ===== *)
theory Alt_Trace
  imports Alt_Control
begin

text \<open>
  The two readers of the DSI tracer in altscreen/native/altscreen_session.c, and
  altscreen/native/gauge_bap54.h: bytes of the tracer become lines, lines become records, and a record
  of the gauges, of the map area or of the wheel changes the state of Alt_State. A line is a C
  string: the bytes before its first NUL.
\<close>

section \<open>Scanning\<close>

text \<open>
  sscanf and atoi on what the code uses of them: literal bytes, decimal numbers, one byte. A number that
  does not fit into an int has no defined value in C: it is the argument wide of its digits.
\<close>

definition is_space :: "u8 \<Rightarrow> bool" where
  "is_space c \<longleftrightarrow> c = 32 \<or> (9 \<le> c \<and> c \<le> 13)"

definition digits_value :: "bytes \<Rightarrow> nat" where
  "digits_value ds = foldl (\<lambda>n c. 10 * n + (unat c - 48)) 0 ds"

definition c_int :: "(int \<Rightarrow> int) \<Rightarrow> int \<Rightarrow> int" where
  "c_int wide n = (if - (2 ^ 31) \<le> n \<and> n < 2 ^ 31 then n else wide n)"

definition scan_sign :: "bytes \<Rightarrow> bool \<times> bytes" where
  "scan_sign p = (case p of [] \<Rightarrow> (False, [])
     | c # q \<Rightarrow> if c = 45 then (True, q) else if c = 43 then (False, q) else (False, p))"

definition scan_int :: "(int \<Rightarrow> int) \<Rightarrow> bytes \<Rightarrow> (int \<times> bytes) option" where
  "scan_int wide p =
     (let (neg, q) = scan_sign (dropWhile is_space p); ds = takeWhile is_digit q
      in if ds = [] then None
         else Some (c_int wide (if neg then - int (digits_value ds) else int (digits_value ds)), dropWhile is_digit q))"

datatype directive = D_LIT u8 | D_INT | D_CHAR

text \<open>The values of the conversions that are made; the result of sscanf is their number.\<close>

fun sscanf :: "(int \<Rightarrow> int) \<Rightarrow> directive list \<Rightarrow> bytes \<Rightarrow> int list" where
  "sscanf wide [] p = []"
| "sscanf wide (D_LIT c # ds) p = (case p of [] \<Rightarrow> [] | d # q \<Rightarrow> if d = c then sscanf wide ds q else [])"
| "sscanf wide (D_INT # ds) p = (case scan_int wide p of None \<Rightarrow> [] | Some (n, q) \<Rightarrow> n # sscanf wide ds q)"
| "sscanf wide (D_CHAR # ds) p = (case p of [] \<Rightarrow> [] | c # q \<Rightarrow> int (unat c) # sscanf wide ds q)"

definition atoi :: "(int \<Rightarrow> int) \<Rightarrow> bytes \<Rightarrow> int" where
  "atoi wide p = (case scan_int wide p of None \<Rightarrow> 0 | Some (n, _) \<Rightarrow> n)"

fun strstr :: "bytes \<Rightarrow> bytes \<Rightarrow> bytes option" where
  "strstr n [] = (if n = [] then Some [] else None)"
| "strstr n (c # p) = (if take (length n) (c # p) = n then Some (c # p) else strstr n p)"

section \<open>The records\<close>

definition BAP54_PREFIX :: bytes where
  "BAP54_PREFIX = ascii ''2#org.dsi.ifc.bap.DSIBAPListener#indication#''"

definition bap54_format :: "directive list" where
  "bap54_format = D_INT # concat (replicate 5 (map D_LIT (ascii ''|int:'') @ [D_INT])) @ [D_CHAR]"

text \<open>gauge_bap54.h; the time stamp is scanned like the other numbers and not used. The result is slot and value.\<close>

definition altscreen_bap54_layout_slot :: "(int \<Rightarrow> int) \<Rightarrow> bytes \<Rightarrow> (int \<times> int) option" where
  "altscreen_bap54_layout_slot wide line =
     (if take (length BAP54_PREFIX) line \<noteq> BAP54_PREFIX then None
      else case sscanf wide bap54_format (drop (length BAP54_PREFIX) line) of
        timestamp # service # function_id # a # b # v # tail \<Rightarrow>
          if tail \<noteq> [] \<and> tail \<noteq> [64] then None
          else if service \<noteq> 50 \<or> function_id \<noteq> 54 \<or> a \<noteq> 0 \<or> b \<noteq> 0 \<or> v < 0 \<or> v > 255 then None
          else Some (if odd v then 0 else 1, v)
      | _ \<Rightarrow> None)"

definition v8n_observe_gauge_bap54 :: "(int \<Rightarrow> int) \<Rightarrow> bytes \<Rightarrow> bool \<Rightarrow> u64 \<Rightarrow> alt_globals \<Rightarrow> alt_globals" where
  "v8n_observe_gauge_bap54 wide line buffered now g =
     (if buffered then g
      else case altscreen_bap54_layout_slot wide line of
        None \<Rightarrow> g
      | Some (layout, raw) \<Rightarrow> gauge_bap54_seen layout now g)"

text \<open>The samples for the log: at most one per class and second; prev holds the time of the last one.\<close>

definition trace_class :: "bytes \<Rightarrow> nat option" where
  "trace_class line =
     (let found = (\<lambda>s. strstr (ascii s) line \<noteq> None) in
      if take 2 line \<noteq> ascii ''1#'' then None
      else if found ''DSIKOMOView'' then Some 0
      else if found ''DSIMapViewerZoomEngine'' then Some 1
      else if found ''DSIMapViewerControl'' \<and> (found ''ViewScreenViewPort'' \<or> found ''ViewPort'') then Some 3
      else if found ''DSIKeyPanel'' \<and> (found ''|int:4|int:40|'' \<or> found ''|int:4|int:35|'') then Some 2
      else None)"

definition v8g2_diag_trace_sample :: "bytes \<Rightarrow> u64 \<Rightarrow> u64 list \<Rightarrow> bool \<times> u64 list" where
  "v8g2_diag_trace_sample line now prev =
     (case trace_class line of
        None \<Rightarrow> (False, prev)
      | Some k \<Rightarrow>
          if prev ! k = 0 \<or> now < prev ! k \<or> now - prev ! k \<ge> 1000 then (True, prev[k := now]) else (False, prev))"

definition rect_format :: "directive list" where
  "rect_format = [D_INT, D_LIT 58, D_INT, D_LIT 58, D_INT, D_LIT 58, D_INT]"

definition zoom_slot :: "int \<Rightarrow> int option" where
  "zoom_slot w = (if w \<le> 560 then Some 1 else if w \<le> 800 then Some 0 else None)"

definition WHEEL :: bytes where
  "WHEEL = ascii ''|int:4|int:40|int:''"

text \<open>The area of the map, and the step of the wheel, that a line of the first kind holds.\<close>

definition area_of :: "(int \<Rightarrow> int) \<Rightarrow> bytes \<Rightarrow> int option" where
  "area_of wide p =
     (case strstr (ascii ''Rect:'') p of
        None \<Rightarrow> None
      | Some q \<Rightarrow> (case sscanf wide rect_format (drop 5 q) of [x, y, w, h] \<Rightarrow> zoom_slot w | _ \<Rightarrow> None))"

definition wheel_step :: "(int \<Rightarrow> int) \<Rightarrow> bytes \<Rightarrow> int" where
  "wheel_step wide line =
     (case strstr (ascii ''DSIKeyPanelListener#updateEncoder2#'') line of
        None \<Rightarrow> 0
      | Some p \<Rightarrow> (case strstr WHEEL p of None \<Rightarrow> 0 | Some q \<Rightarrow> atoi wide (drop (length WHEEL) q)))"

definition v8h_trace_line :: "(int \<Rightarrow> int) \<Rightarrow> bytes \<Rightarrow> bool \<Rightarrow> u64 \<Rightarrow> u64 \<Rightarrow> u64 list \<Rightarrow> alt_globals \<Rightarrow>
    u64 list \<times> alt_globals" where
  "v8h_trace_line wide line buffered now later prev g =
     (let g = v8n_observe_gauge_bap54 wide line buffered now g;
          (emit, prev) = v8g2_diag_trace_sample line now prev
      in if take 2 line \<noteq> ascii ''1#'' then (prev, g)
         else case strstr (ascii ''DSIMapViewerZoomEngine#setZoomArea#'') line of
           Some p \<Rightarrow> (prev, case area_of wide p of None \<Rightarrow> g | Some layout \<Rightarrow> zoom_area_seen layout later g)
         | None \<Rightarrow>
             if buffered then (prev, g)
             else let step = wheel_step wide line
             in (prev, if step = 0 then g else encoder_step_seen step g))"

section \<open>The readers\<close>

abbreviation TRACE_LINE_MAX :: nat where "TRACE_LINE_MAX \<equiv> 511"

text \<open>What one byte does to the line that is being collected; Some is a line that is complete.\<close>

definition trace_byte :: "u8 \<Rightarrow> bytes \<Rightarrow> bytes option \<times> bytes" where
  "trace_byte c line =
     (if c = 10 \<or> c = 13 then (if line \<noteq> [] then (Some line, []) else (None, []))
      else (None, if length line < TRACE_LINE_MAX then line @ [c] else line))"

text \<open>The record of a line: the string in the buffer, behind the first question mark if it is a buffered one.\<close>

definition trace_record :: "bool \<Rightarrow> bytes \<Rightarrow> bytes" where
  "trace_record buffered line =
     (let s = takeWhile (\<lambda>c. c \<noteq> 0) line
      in if \<not> buffered then s
         else case dropWhile (\<lambda>c. c \<noteq> 63) s of [] \<Rightarrow> s | _ # q \<Rightarrow> q)"

fun trace_bytes :: "bytes \<Rightarrow> bytes \<Rightarrow> bytes list \<times> bytes" where
  "trace_bytes [] line = ([], line)"
| "trace_bytes (c # p) line =
     (let (r, line) = trace_byte c line; (ls, line) = trace_bytes p line
      in (case r of None \<Rightarrow> ls | Some l \<Rightarrow> l # ls, line))"

text \<open>
  The readers beside the rest of the library: a connection starts with an empty line, a byte that was
  read is put into the line, and a complete line is handled at once. The other threads make any
  of their actions in between. tr_seen lists the records that were handled, the last one first.
\<close>

record trace_sys =
  tr_live :: bytes
  tr_buffered :: bytes
  tr_last :: "u64 list"
  tr_seen :: "(bool \<times> bytes) list"
  tr_sys :: alt_sys

definition init_trace :: trace_sys where
  "init_trace = \<lparr>tr_live = [], tr_buffered = [], tr_last = replicate 4 0, tr_seen = [], tr_sys = init_sys\<rparr>"

datatype trace_act = TA_CONNECT bool | TA_BYTE bool u8 u64 u64 | TA_OTHER alt_act

definition put_line :: "bool \<Rightarrow> bytes \<Rightarrow> trace_sys \<Rightarrow> trace_sys" where
  "put_line buffered l t = (if buffered then t\<lparr>tr_buffered := l\<rparr> else t\<lparr>tr_live := l\<rparr>)"

fun trace_step :: "(int \<Rightarrow> int) \<Rightarrow> trace_act \<Rightarrow> trace_sys \<Rightarrow> trace_sys option" where
  "trace_step wide (TA_CONNECT buffered) t = Some (put_line buffered [] t)"
| "trace_step wide (TA_BYTE buffered c now later) t =
     (let (r, l) = trace_byte c (if buffered then tr_buffered t else tr_live t); t = put_line buffered l t
      in case r of
           None \<Rightarrow> Some t
         | Some line \<Rightarrow>
             let rec = trace_record buffered line;
                 (prev, g) = v8h_trace_line wide rec buffered now later (tr_last t) (cs_g (tr_sys t))
             in Some (t\<lparr>tr_last := prev, tr_seen := (buffered, rec) # tr_seen t, tr_sys := (tr_sys t)\<lparr>cs_g := g\<rparr>\<rparr>))"
| "trace_step wide (TA_OTHER a) t =
     (case a of
        A_BAP54 _ _ \<Rightarrow> None | A_AREA _ _ \<Rightarrow> None | A_ENCODER _ \<Rightarrow> None
      | _ \<Rightarrow> map_option (\<lambda>s. t\<lparr>tr_sys := s\<rparr>) (perform a (tr_sys t)))"

inductive trace_reach :: "(int \<Rightarrow> int) \<Rightarrow> trace_sys \<Rightarrow> bool" for wide where
  trace_init: "trace_reach wide init_trace"
| trace_next: "trace_reach wide t \<Longrightarrow> serials_fit (tr_sys t) \<Longrightarrow> trace_step wide a t = Some t' \<Longrightarrow> trace_reach wide t'"

end
