(* ===== verification/Alt_Trace_Props.thy ===== *)
theory Alt_Trace_Props
  imports Alt_Trace Alt_Views
begin

text \<open>
  The lines and records of the tracer: what a stream of bytes is cut into, that the numbers which the
  tracer prints are read back, and which record the layout of the gauges comes from.
\<close>

section \<open>Lines\<close>

definition line_end :: "u8 \<Rightarrow> bool" where
  "line_end c \<longleftrightarrow> c = 10 \<or> c = 13"

text \<open>The reference: a stream is cut at every line end; what follows the last one is not a line yet.\<close>

function whole_lines :: "bytes \<Rightarrow> bytes list" where
  "whole_lines p = (case dropWhile (\<lambda>c. \<not> line_end c) p of
     [] \<Rightarrow> [] | _ # q \<Rightarrow> takeWhile (\<lambda>c. \<not> line_end c) p # whole_lines q)"
  by auto
termination
proof (relation "measure length")
  fix p c q assume "dropWhile (\<lambda>c. \<not> line_end c) p = c # q"
  then have "length (c # q) \<le> length p" by (metis length_dropWhile_le)
  then show "(q, p) \<in> measure length" by simp
qed simp

declare whole_lines.simps [simp del]

lemma trace_byte_end: "line_end c \<Longrightarrow> trace_byte c l = (if l \<noteq> [] then Some l else None, [])"
  by (auto simp: trace_byte_def line_end_def)

lemma trace_byte_put: "\<not> line_end c \<Longrightarrow> length l \<le> TRACE_LINE_MAX \<Longrightarrow> trace_byte c l = (None, take TRACE_LINE_MAX (l @ [c]))"
  by (auto simp: trace_byte_def line_end_def)

lemma trace_bytes_lines:
  "length l \<le> TRACE_LINE_MAX \<Longrightarrow> trace_bytes p l =
     (case dropWhile (\<lambda>c. \<not> line_end c) p of
        [] \<Rightarrow> ([], take TRACE_LINE_MAX (l @ p))
      | _ # q \<Rightarrow>
          let line = take TRACE_LINE_MAX (l @ takeWhile (\<lambda>c. \<not> line_end c) p); (ls, r) = trace_bytes q []
          in (if line = [] then ls else line # ls, r))"
proof (induction p arbitrary: l)
  case (Cons c p)
  show ?case
  proof (cases "line_end c")
    case True
    with Cons.prems show ?thesis by (simp add: trace_byte_end Let_def split: prod.splits)
  next
    case False
    let ?l = "take TRACE_LINE_MAX (l @ [c])"
    have e: "trace_bytes (c # p) l = trace_bytes p ?l"
      using trace_byte_put [OF False Cons.prems] by (simp split: prod.splits)
    have t: "take TRACE_LINE_MAX (?l @ q) = take TRACE_LINE_MAX (l @ c # q)" for q
      using Cons.prems by (cases "length l = TRACE_LINE_MAX") (simp_all add: take_Cons')
    have "length ?l \<le> TRACE_LINE_MAX" by simp
    from Cons.IH [OF this] False show ?thesis unfolding e t
      by (cases "dropWhile (\<lambda>c. \<not> line_end c) p") (simp_all del: dropWhile_eq_Nil_conv)
  qed
qed simp

lemma trace_bytes_spec: "fst (trace_bytes p []) = filter (\<lambda>l. l \<noteq> []) (map (take TRACE_LINE_MAX) (whole_lines p))"
proof (induction p rule: whole_lines.induct)
  case (1 p)
  show ?case
  proof (cases "dropWhile (\<lambda>c. \<not> line_end c) p")
    case Nil
    then show ?thesis by (simp add: trace_bytes_lines [of "[]"] whole_lines.simps [of p] del: dropWhile_eq_Nil_conv)
  next
    case (Cons c q)
    from "1.IH" [OF Cons] Cons show ?thesis
      by (cases "trace_bytes q []") (simp add: trace_bytes_lines [of "[]" p] whole_lines.simps [of p] Let_def)
  qed
qed

lemma trace_bytes_append:
  "trace_bytes (p @ q) l = (let (ls, l') = trace_bytes p l; (ms, l'') = trace_bytes q l' in (ls @ ms, l''))"
  by (induction p arbitrary: l) (auto simp: Let_def split: prod.splits option.splits)

section \<open>Numbers\<close>

lemma digits_value_snoc: "digits_value (ds @ [c]) = 10 * digits_value ds + (unat c - 48)"
  by (simp add: digits_value_def)

lemma digit_value: "n < 10 \<Longrightarrow> unat (of_nat (48 + n) :: u8) - 48 = n"
  by (simp add: unat_word_ariths unat_of_nat)

lemma digits_value_dec: "digits_value (dec_nat n) = n"
proof (induction n rule: dec_nat.induct)
  case (1 n)
  show ?case
  proof (cases "n < 10")
    case True
    then show ?thesis using digit_value [of n] by (simp add: dec_nat.simps [of n] digits_value_def)
  next
    case False
    with "1.IH" digit_value [of "n mod 10"] show ?thesis
      by (simp add: dec_nat.simps [of n] digits_value_snoc)
  qed
qed

definition no_digit :: "bytes \<Rightarrow> bool" where
  "no_digit p \<longleftrightarrow> p = [] \<or> \<not> is_digit (hd p)"

lemma no_digit_simps [simp]: "no_digit []" "no_digit (c # p) \<longleftrightarrow> \<not> is_digit c"
  by (simp_all add: no_digit_def)

lemma digits_span:
  assumes "\<forall>c \<in> set ds. is_digit c" "no_digit r"
  shows "takeWhile is_digit (ds @ r) = ds \<and> dropWhile is_digit (ds @ r) = r"
proof -
  have "takeWhile is_digit r = []" "dropWhile is_digit r = r" using assms(2) by (cases r; simp)+
  with assms(1) show ?thesis by (simp add: takeWhile_append2 dropWhile_append2)
qed

lemma scan_dec:
  assumes "int n < 2 ^ 31" "no_digit r"
  shows "scan_int wide (dec_nat n @ r) = Some (int n, r)"
proof -
  obtain c ds where c: "dec_nat n = c # ds" by (cases "dec_nat n") auto
  have "is_digit c" using dec_nat_digits [of c n] c by simp
  then have "\<not> is_space c" "c \<noteq> 45" "c \<noteq> 43"
    by (auto simp: is_digit_def is_space_def word_le_nat_alt)
  then have "scan_sign (dropWhile is_space (dec_nat n @ r)) = (False, dec_nat n @ r)" by (simp add: c scan_sign_def)
  moreover have "takeWhile is_digit (dec_nat n @ r) = dec_nat n \<and> dropWhile is_digit (dec_nat n @ r) = r"
    by (rule digits_span [OF _ assms(2)]) (use dec_nat_digits in blast)
  ultimately show ?thesis using assms(1) by (simp add: scan_int_def digits_value_dec c_int_def)
qed

lemma sscanf_lits: "sscanf wide (map D_LIT xs @ ds) (xs @ p) = sscanf wide ds p"
  by (induction xs) simp_all

section \<open>The records of the tracer\<close>

text \<open>An indication as the tracer prints it.\<close>

definition gauge_record :: "nat \<Rightarrow> nat \<Rightarrow> bytes \<Rightarrow> bytes" where
  "gauge_record timestamp v tail = BAP54_PREFIX @ dec_nat timestamp @ ascii ''|int:50|int:54|int:0|int:0|int:'' @ dec_nat v @ tail"

lemma bar_no_digit: "no_digit (ascii ''|int:'' @ p)"
  by (simp add: is_digit_def)

lemma gauge_values:
  assumes "int timestamp < 2 ^ 31" "int v < 2 ^ 31" "no_digit tail"
  shows "sscanf wide bap54_format (dec_nat timestamp @ ascii ''|int:50|int:54|int:0|int:0|int:'' @ dec_nat v @ tail) =
    [int timestamp, 50, 54, 0, 0, int v] @ (case tail of [] \<Rightarrow> [] | c # _ \<Rightarrow> [int (unat c)])"
proof -
  let ?b = "ascii ''|int:''"
  have d: "ascii ''50'' = dec_nat 50" "ascii ''54'' = dec_nat 54" "ascii ''0'' = dec_nat 0"
    by (simp_all add: dec_nat.simps)
  have t: "ascii ''|int:50|int:54|int:0|int:0|int:'' = ?b @ dec_nat 50 @ ?b @ dec_nat 54 @ ?b @ dec_nat 0 @ ?b @ dec_nat 0 @ ?b"
    unfolding d [symmetric] by simp
  have f: "bap54_format = D_INT # map D_LIT ?b @ D_INT # map D_LIT ?b @ D_INT # map D_LIT ?b @ D_INT # map D_LIT ?b @ D_INT #
      map D_LIT ?b @ D_INT # [D_CHAR]"
    by (simp add: bap54_format_def numeral_eq_Suc)
  have num: "sscanf wide (D_INT # ds) (dec_nat n @ ?b @ p) = int n # sscanf wide ds (?b @ p)" if "int n < 2 ^ 31" for n ds p
    using scan_dec [OF that bar_no_digit] by simp
  have small: "int 50 < 2 ^ 31" "int 54 < 2 ^ 31" "int 0 < 2 ^ 31" by simp_all
  have "sscanf wide (D_INT # [D_CHAR]) (dec_nat v @ tail) = [int v] @ (case tail of [] \<Rightarrow> [] | c # _ \<Rightarrow> [int (unat c)])"
    using scan_dec [OF assms(2,3)] by (simp split: list.splits)
  then show ?thesis
    unfolding t f append_assoc sscanf_lits num [OF assms(1)] num [OF small(1)] num [OF small(2)] num [OF small(3)] by simp
qed

lemma gauge_record_read:
  assumes "timestamp < 2 ^ 31" "v < 2 ^ 31" "tail = [] \<or> (\<exists>p. tail = 64 # p)"
  shows "altscreen_bap54_layout_slot wide (gauge_record timestamp v tail) =
    (if v \<le> 255 then Some (if odd v then 0 else 1, int v) else None)"
proof -
  have n: "no_digit tail" using assms(3) by (auto simp: is_digit_def)
  have i: "int timestamp < 2 ^ 31" "int v < 2 ^ 31" using assms(1,2) by simp_all
  show ?thesis
    using assms(3) unfolding altscreen_bap54_layout_slot_def gauge_record_def append_eq_conv_conj [THEN iffD1, OF refl, THEN conjunct1]
    by (auto simp add: gauge_values [OF i n] simp del: ascii_Cons)
qed

lemma gauge_value_range:
  "altscreen_bap54_layout_slot wide line = Some (layout, v) \<Longrightarrow>
     take (length BAP54_PREFIX) line = BAP54_PREFIX \<and> 0 \<le> v \<and> v \<le> 255 \<and> layout = (if odd v then 0 else 1)"
  by (auto simp: altscreen_bap54_layout_slot_def split: if_splits list.splits)


section \<open>What a line does to the sessions\<close>

text \<open>The layout that a record stands for: a live indication of the gauges, or an area of the map.\<close>

definition gauge_of :: "(int \<Rightarrow> int) \<Rightarrow> bool \<times> bytes \<Rightarrow> int option" where
  "gauge_of wide r = (if fst r then None else map_option fst (altscreen_bap54_layout_slot wide (snd r)))"

definition map_area :: "(int \<Rightarrow> int) \<Rightarrow> bool \<times> bytes \<Rightarrow> int option" where
  "map_area wide r = (if take 2 (snd r) \<noteq> ascii ''1#'' then None
     else Option.bind (strstr (ascii ''DSIMapViewerZoomEngine#setZoomArea#'') (snd r)) (area_of wide))"

lemma two_kinds: "gauge_of wide r \<noteq> None \<Longrightarrow> take 2 (snd r) \<noteq> ascii ''1#''"
proof
  assume "gauge_of wide r \<noteq> None" "take 2 (snd r) = ascii ''1#''"
  then have "take (length BAP54_PREFIX) (snd r) = BAP54_PREFIX"
    by (auto simp: gauge_of_def dest: gauge_value_range split: if_splits)
  then have "take 2 (take (length BAP54_PREFIX) (snd r)) = take 2 BAP54_PREFIX" by simp
  then have "take 2 (snd r) = take 2 BAP54_PREFIX" by (simp add: BAP54_PREFIX_def min_def)
  with \<open>take 2 (snd r) = ascii ''1#''\<close> show False by (simp add: BAP54_PREFIX_def)
qed

text \<open>A line is at most one action of the threads of Alt_Control.\<close>

definition line_act :: "(int \<Rightarrow> int) \<Rightarrow> bool \<times> bytes \<Rightarrow> u64 \<Rightarrow> u64 \<Rightarrow> alt_act option" where
  "line_act wide r now1 now2 =
     (case gauge_of wide r of
        Some layout \<Rightarrow> Some (A_BAP54 layout now1)
      | None \<Rightarrow>
          (case map_area wide r of
             Some layout \<Rightarrow> Some (A_AREA layout now2)
           | None \<Rightarrow>
               if \<not> fst r \<and> take 2 (snd r) = ascii ''1#'' \<and>
                  strstr (ascii ''DSIMapViewerZoomEngine#setZoomArea#'') (snd r) = None \<and> wheel_step wide (snd r) \<noteq> 0
               then Some (A_ENCODER (wheel_step wide (snd r))) else None))"

lemma area_of_range: "area_of wide p = Some layout \<Longrightarrow> layout \<in> {0, 1}"
  by (auto simp: area_of_def zoom_slot_def split: option.splits list.splits if_splits)

lemma line_act_range:
  "gauge_of wide r = Some layout \<Longrightarrow> layout \<in> {0, 1}" "map_area wide r = Some layout \<Longrightarrow> layout \<in> {0, 1}"
  by (auto simp: gauge_of_def map_area_def bind_eq_Some_conv dest!: gauge_value_range area_of_range split: if_splits)

lemma trace_line_act:
  "snd (v8h_trace_line wide r buffered now1 now2 prev g) =
     (case line_act wide (buffered, r) now1 now2 of
        Some (A_BAP54 layout t) \<Rightarrow> gauge_bap54_seen layout t g
      | Some (A_AREA layout t) \<Rightarrow> zoom_area_seen layout t g
      | Some (A_ENCODER step) \<Rightarrow> encoder_step_seen step g
      | _ \<Rightarrow> g)"
proof (cases "gauge_of wide (buffered, r)")
  case (Some layout)
  with two_kinds [of wide "(buffered, r)"] show ?thesis
    by (auto simp: v8h_trace_line_def Let_def line_act_def v8n_observe_gauge_bap54_def gauge_of_def split: prod.splits if_splits)
next
  case None
  then have n: "v8n_observe_gauge_bap54 wide r buffered now1 g = g"
    by (auto simp: v8n_observe_gauge_bap54_def gauge_of_def split: if_splits option.splits)
  show ?thesis
    unfolding v8h_trace_line_def n Let_def line_act_def None option.case map_area_def
    by (auto split: prod.splits option.splits)
qed

lemma line_act_kind:
  "line_act wide r now1 now2 = Some a \<Longrightarrow>
     (\<exists>layout \<in> {0, 1}. a = A_BAP54 layout now1 \<and> gauge_of wide r = Some layout) \<or>
     (\<exists>layout \<in> {0, 1}. a = A_AREA layout now2 \<and> gauge_of wide r = None \<and> map_area wide r = Some layout) \<or>
     (\<exists>step. a = A_ENCODER step \<and> gauge_of wide r = None \<and> map_area wide r = None)"
  using line_act_range [of wide r] by (fastforce simp: line_act_def split: option.splits if_splits)

lemma trace_line_perform:
  "case line_act wide (buffered, r) now1 now2 of
     None \<Rightarrow> snd (v8h_trace_line wide r buffered now1 now2 prev (cs_g s)) = cs_g s
   | Some a \<Rightarrow> perform a s = Some (s\<lparr>cs_g := snd (v8h_trace_line wide r buffered now1 now2 prev (cs_g s))\<rparr>)"
proof (cases "line_act wide (buffered, r) now1 now2")
  case (Some a)
  from line_act_kind [OF this] Some show ?thesis by (auto simp: trace_line_act)
qed (simp add: trace_line_act)

section \<open>Where the layout comes from\<close>

lemma layout_on_slot:
  "ag_layout_slot (clear_session i g) = ag_layout_slot g" "ag_bap54_layout_known (clear_session i g) = ag_bap54_layout_known g"
  by (simp_all add: clear_session_def)

lemma tick_layout:
  assumes "v8s_control_tick active now g = (c, z, late, g')"
  shows "ag_layout_slot g' = ag_layout_slot g \<and> ag_bap54_layout_known g' = ag_bap54_layout_known g"
proof -
  have scan: "tick_scan active now is g = (c, late, g1) \<Longrightarrow>
      ag_layout_slot g1 = ag_layout_slot g \<and> ag_bap54_layout_known g1 = ag_bap54_layout_known g" for "is" c late g g1
    by (induction "is" arbitrary: g c late) (auto simp: Let_def split: prod.splits if_splits)
  have zoom: "tick_zoom active g = (z, g1) \<Longrightarrow>
      ag_layout_slot g1 = ag_layout_slot g \<and> ag_bap54_layout_known g1 = ag_bap54_layout_known g" for z g g1
    by (auto simp: tick_zoom_def Let_def split: option.splits if_splits)
  show ?thesis
    using assms by (auto simp: v8s_control_tick_def dest!: scan zoom split: prod.splits)
qed

lemma other_act_layout:
  assumes "perform a s = Some s'" "\<forall>l t. a \<noteq> A_BAP54 l t" "\<forall>l t. a \<noteq> A_AREA l t"
  shows "ag_layout_slot (cs_g s') = ag_layout_slot (cs_g s) \<and>
    ag_bap54_layout_known (cs_g s') = ag_bap54_layout_known (cs_g s)"
proof (cases a)
  case (A_TICK active now)
  obtain c z late g where t: "v8s_control_tick active now (cs_g s) = (c, z, late, g)" by (metis prod_cases4)
  with assms(1) A_TICK tick_layout [OF t] show ?thesis by (auto split: if_splits)
qed (use assms in \<open>auto simp: alloc_state_locked_def clear_session_def note_route_state_def queue_route_view_for_receiver_def
  note_first_frame_def request_cluster_def encoder_step_seen_def zoom_sent_def control_sent_def v8s_control_dispatch_failed_def
  v8s_control_completion_def Let_def split: option.splits if_splits prod.splits tick_pc.splits\<close>)

text \<open>
  The last live indication of the gauges decides; only as long as there was none, the last area of the
  map does.
\<close>

definition layout_of :: "(int \<Rightarrow> int) \<Rightarrow> (bool \<times> bytes) list \<Rightarrow> int" where
  "layout_of wide rs =
     (case List.map_filter (gauge_of wide) rs of
        layout # _ \<Rightarrow> layout
      | [] \<Rightarrow> (case List.map_filter (map_area wide) rs of layout # _ \<Rightarrow> layout | [] \<Rightarrow> 0))"

definition layout_ok :: "(int \<Rightarrow> int) \<Rightarrow> trace_sys \<Rightarrow> bool" where
  "layout_ok wide t \<longleftrightarrow> ag_layout_slot (cs_g (tr_sys t)) = layout_of wide (tr_seen t) \<and>
     (ag_bap54_layout_known (cs_g (tr_sys t)) \<longleftrightarrow> List.map_filter (gauge_of wide) (tr_seen t) \<noteq> [])"


lemma map_filter_Cons: "List.map_filter f (x # xs) = (case f x of None \<Rightarrow> List.map_filter f xs | Some y \<Rightarrow> y # List.map_filter f xs)"
  by (simp add: List.map_filter_def split: option.splits)

lemma gauge_seen_layout:
  "ag_layout_slot (gauge_bap54_seen layout now g) = layout" "ag_bap54_layout_known (gauge_bap54_seen layout now g)"
  by (simp_all add: gauge_bap54_seen_def requeue_for_layout_def Let_def)

lemma area_seen_layout:
  "ag_layout_slot (zoom_area_seen layout now g) = (if ag_bap54_layout_known g then ag_layout_slot g else layout)"
  "ag_bap54_layout_known (zoom_area_seen layout now g) = ag_bap54_layout_known g"
  by (auto simp: zoom_area_seen_def requeue_for_layout_def)

lemma encoder_layout:
  "ag_layout_slot (encoder_step_seen step g) = ag_layout_slot g"
  "ag_bap54_layout_known (encoder_step_seen step g) = ag_bap54_layout_known g"
  by (simp_all add: encoder_step_seen_def)

lemma line_layout:
  assumes "g' = snd (v8h_trace_line wide r buffered now1 now2 prev g)"
    "ag_layout_slot g = layout_of wide rs" "ag_bap54_layout_known g \<longleftrightarrow> List.map_filter (gauge_of wide) rs \<noteq> []"
  shows "ag_layout_slot g' = layout_of wide ((buffered, r) # rs) \<and>
    (ag_bap54_layout_known g' \<longleftrightarrow> List.map_filter (gauge_of wide) ((buffered, r) # rs) \<noteq> [])"
proof (cases "gauge_of wide (buffered, r)")
  case (Some layout)
  then have "g' = gauge_bap54_seen layout now1 g" unfolding assms(1) trace_line_act by (simp add: line_act_def)
  with Some show ?thesis by (simp add: gauge_seen_layout layout_of_def map_filter_Cons)
next
  case gauge: None
  show ?thesis
  proof (cases "map_area wide (buffered, r)")
    case (Some layout)
    with gauge have "g' = zoom_area_seen layout now2 g" unfolding assms(1) trace_line_act by (simp add: line_act_def)
    with gauge Some assms(2,3) show ?thesis
      by (simp add: area_seen_layout layout_of_def map_filter_Cons split: list.splits)
  next
    case None
    with gauge have "g' = g \<or> (\<exists>step. g' = encoder_step_seen step g)" unfolding assms(1) trace_line_act by (auto simp: line_act_def)
    with gauge None assms(2,3) show ?thesis by (auto simp: encoder_layout layout_of_def map_filter_Cons split: list.splits)
  qed
qed

lemma put_line_simps [simp]:
  "tr_sys (put_line b l t) = tr_sys t" "tr_seen (put_line b l t) = tr_seen t" "tr_last (put_line b l t) = tr_last t"
  "tr_live (put_line b l t) = (if b then tr_live t else l)" "tr_buffered (put_line b l t) = (if b then l else tr_buffered t)"
  by (simp_all add: put_line_def)

text \<open>A step is a step of the threads, or leaves their state alone.\<close>

lemma trace_step_layout:
  assumes "trace_step wide a t = Some t'" "layout_ok wide t"
  shows "layout_ok wide t' \<and> (tr_sys t' = tr_sys t \<or> (\<exists>b. perform b (tr_sys t) = Some (tr_sys t')))"
proof (cases a)
  case (TA_CONNECT b)
  with assms show ?thesis by (auto simp: layout_ok_def)
next
  case (TA_BYTE b c now1 now2)
  obtain r l where tb: "trace_byte c (if b then tr_buffered t else tr_live t) = (r, l)" by fastforce
  show ?thesis
  proof (cases r)
    case None
    with assms TA_BYTE tb show ?thesis by (auto simp: layout_ok_def Let_def)
  next
    case (Some line)
    let ?r = "trace_record b line"
    obtain prev g where v: "v8h_trace_line wide ?r b now1 now2 (tr_last t) (cs_g (tr_sys t)) = (prev, g)" by fastforce
    have t': "tr_seen t' = (b, ?r) # tr_seen t" "tr_sys t' = (tr_sys t)\<lparr>cs_g := g\<rparr>"
      using assms(1) TA_BYTE tb Some v by (auto simp: Let_def)
    have g: "g = snd (v8h_trace_line wide ?r b now1 now2 (tr_last t) (cs_g (tr_sys t)))" using v by simp
    have "layout_ok wide t'" using line_layout [OF g] assms(2) t' by (simp add: layout_ok_def)
    moreover have "tr_sys t' = tr_sys t \<or> (\<exists>b. perform b (tr_sys t) = Some (tr_sys t'))"
      using trace_line_perform [where wide = wide and buffered = b and r = ?r and ?now1.0 = now1 and ?now2.0 = now2
          and prev = "tr_last t" and s = "tr_sys t"] t'(2) v
      by (cases "line_act wide (b, ?r) now1 now2") auto
    ultimately show ?thesis by blast
  qed
next
  case (TA_OTHER b)
  then obtain s where s: "perform b (tr_sys t) = Some s" "t' = t\<lparr>tr_sys := s\<rparr>"
    "\<forall>l t. b \<noteq> A_BAP54 l t" "\<forall>l t. b \<noteq> A_AREA l t"
    using assms(1) by (cases b) auto
  from other_act_layout [OF s(1,3,4)] s assms(2) show ?thesis by (auto simp: layout_ok_def)
qed

lemma trace_reach_ok: "trace_reach wide t \<Longrightarrow> alt_reach (tr_sys t) \<and> layout_ok wide t"
proof (induction rule: trace_reach.induct)
  case trace_init
  have "layout_ok wide init_trace"
    by (simp add: init_trace_def layout_ok_def layout_of_def init_sys_def init_globals_def List.map_filter_def)
  then show ?case by (simp add: init_trace_def alt_init)
next
  case (trace_next t a t')
  with trace_step_layout [OF trace_next.hyps(3)] show ?case by (metis alt_step)
qed

section \<open>From the bytes to the sessions\<close>

fun trace_run :: "(int \<Rightarrow> int) \<Rightarrow> trace_act list \<Rightarrow> trace_sys \<Rightarrow> trace_sys option" where
  "trace_run wide [] t = Some t"
| "trace_run wide (a # as) t = Option.bind (trace_step wide a t) (trace_run wide as)"

abbreviation feed :: "bool \<Rightarrow> u64 \<Rightarrow> u64 \<Rightarrow> bytes \<Rightarrow> trace_act list" where
  "feed b now1 now2 p \<equiv> map (\<lambda>c. TA_BYTE b c now1 now2) p"

lemma feed_line:
  "\<forall>c \<in> set p. \<not> line_end c \<Longrightarrow> length (tr_live t) + length p \<le> TRACE_LINE_MAX \<Longrightarrow>
     trace_run wide (feed False now1 now2 p @ as) t = trace_run wide as (t\<lparr>tr_live := tr_live t @ p\<rparr>)"
proof (induction p arbitrary: t)
  case (Cons c p)
  then have "trace_byte c (tr_live t) = (None, tr_live t @ [c])" by (simp add: trace_byte_put)
  moreover have "trace_run wide (feed False now1 now2 p @ as) (t\<lparr>tr_live := tr_live t @ [c]\<rparr>) =
      trace_run wide as (t\<lparr>tr_live := (tr_live t @ [c]) @ p\<rparr>)"
    using Cons.IH [of "t\<lparr>tr_live := tr_live t @ [c]\<rparr>"] Cons.prems by simp
  ultimately show ?case by (simp add: put_line_def)
qed simp

text \<open>A whole line that arrives while no other is being collected is handled as its record.\<close>

lemma feed_record:
  assumes "tr_live t = []" "p \<noteq> []" "\<forall>c \<in> set p. \<not> line_end c \<and> c \<noteq> 0" "length p \<le> TRACE_LINE_MAX"
  shows "trace_run wide (feed False now1 now2 (p @ [10])) t =
    (let (prev, g) = v8h_trace_line wide p False now1 now2 (tr_last t) (cs_g (tr_sys t))
     in Some (t\<lparr>tr_last := prev, tr_seen := (False, p) # tr_seen t, tr_sys := (tr_sys t)\<lparr>cs_g := g\<rparr>\<rparr>))"
proof -
  have r: "trace_record False p = p"
    unfolding trace_record_def using assms(3) by (simp add: takeWhile_eq_all_conv)
  have "trace_run wide (feed False now1 now2 (p @ [10])) t = trace_run wide (feed False now1 now2 [10]) (t\<lparr>tr_live := p\<rparr>)"
    using feed_line [of p t wide now1 now2 "feed False now1 now2 [10]"] assms by simp
  also have "\<dots> = (let (prev, g) = v8h_trace_line wide p False now1 now2 (tr_last t) (cs_g (tr_sys t))
     in Some (t\<lparr>tr_last := prev, tr_seen := (False, p) # tr_seen t, tr_sys := (tr_sys t)\<lparr>cs_g := g\<rparr>\<rparr>))"
    using assms(1,2) r by (simp add: trace_byte_def put_line_def Let_def split: prod.splits)
  finally show ?thesis .
qed

lemma digit_plain: "is_digit c \<Longrightarrow> \<not> line_end c \<and> c \<noteq> 0"
  by (auto simp: is_digit_def line_end_def word_le_nat_alt)

lemma gauge_record_plain: "c \<in> set (gauge_record ts v []) \<Longrightarrow> \<not> line_end c \<and> c \<noteq> 0"
  using digit_plain dec_nat_digits unfolding gauge_record_def BAP54_PREFIX_def by (auto simp: line_end_def)

lemma gauge_record_length:
  assumes "ts < 2 ^ 31" "v \<le> 255" shows "gauge_record ts v [] \<noteq> []" "length (gauge_record ts v []) \<le> TRACE_LINE_MAX"
proof -
  have "length (dec_nat ts) \<le> 10" "length (dec_nat v) \<le> 3" using assms by (auto intro!: length_dec_nat)
  then show "length (gauge_record ts v []) \<le> TRACE_LINE_MAX" by (simp add: gauge_record_def BAP54_PREFIX_def)
qed (simp add: gauge_record_def BAP54_PREFIX_def)

lemma gauge_line:
  assumes "tr_live t = []" "ts < 2 ^ 31" "v \<le> 255"
  shows "\<exists>t'. trace_run wide (feed False now1 now2 (gauge_record ts v [] @ [10])) t = Some t' \<and>
    cs_g (tr_sys t') = gauge_bap54_seen (if odd v then 0 else 1) now1 (cs_g (tr_sys t))"
proof -
  let ?r = "gauge_record ts v []"
  obtain prev g where p: "v8h_trace_line wide ?r False now1 now2 (tr_last t) (cs_g (tr_sys t)) = (prev, g)" by fastforce
  have "gauge_of wide (False, ?r) = Some (if odd v then 0 else 1)"
    using gauge_record_read [OF assms(2), of v "[]" wide] assms(3) by (simp add: gauge_of_def)
  then have "g = gauge_bap54_seen (if odd v then 0 else 1) now1 (cs_g (tr_sys t))"
    using trace_line_act [of wide ?r False now1 now2 "tr_last t" "cs_g (tr_sys t)"] p by (simp add: line_act_def)
  moreover have "trace_run wide (feed False now1 now2 (?r @ [10])) t =
      Some (t\<lparr>tr_last := prev, tr_seen := (False, ?r) # tr_seen t, tr_sys := (tr_sys t)\<lparr>cs_g := g\<rparr>\<rparr>)"
    using feed_record [OF assms(1) gauge_record_length(1) [OF assms(2,3)] _ gauge_record_length(2) [OF assms(2,3)]]
      gauge_record_plain p by (simp del: map_append)
  ultimately show ?thesis by simp
qed


lemma line_serials: "serials_fit (s\<lparr>cs_g := snd (v8h_trace_line wide r b now1 now2 prev (cs_g s))\<rparr>) \<longleftrightarrow> serials_fit s"
  unfolding trace_line_act serials_fit_def
  by (auto simp: gauge_bap54_seen_def zoom_area_seen_def encoder_step_seen_def requeue_for_layout_def Let_def
      split: option.splits alt_act.splits)

lemma byte_serials:
  "trace_step wide (TA_BYTE b c now1 now2) t = Some t' \<Longrightarrow> serials_fit (tr_sys t') \<longleftrightarrow> serials_fit (tr_sys t)"
  using line_serials [where s = "tr_sys t" and wide = wide and b = b and ?now1.0 = now1 and ?now2.0 = now2 and prev = "tr_last t"]
  by (auto simp: Let_def split: prod.splits option.splits) (metis snd_conv)+

lemma feed_reach:
  "trace_run wide (feed b now1 now2 p) t = Some t' \<Longrightarrow> trace_reach wide t \<Longrightarrow> serials_fit (tr_sys t) \<Longrightarrow> trace_reach wide t'"
proof (induction p arbitrary: t)
  case (Cons c p)
  then obtain t1 where t1: "trace_step wide (TA_BYTE b c now1 now2) t = Some t1" "trace_run wide (feed b now1 now2 p) t1 = Some t'"
    by (auto simp: bind_eq_Some_conv)
  from Cons.IH [OF t1(2) trace_next [OF Cons.prems(2,3) t1(1)]] Cons.prems(3) byte_serials [OF t1(1)] show ?case by simp
qed simp

end
