(* ===== verification/Alt_Session.thy ===== *)
theory Alt_Session
  imports Alt_Control Alt_Output
begin

text \<open>
  altscreen/native/altscreen_session.c: the life of a private session. prepare_altscreen with the listener it
  opens, the worker thread that accepts the phone's connection and runs the screen, and cleanup_altscreen,
  which runs beside the worker. The stock functions, the sockets and the clock are arguments.
\<close>

section \<open>Listener\<close>

text \<open>
  What one attempt finds: the descriptor of socket, whether bind, listen and getsockname succeed, and the port
  that the socket got.
\<close>

record listen_try =
  lt_fd :: int
  lt_bound :: bool
  lt_port :: u16

datatype session_call =
    SN_SOCKET int | SN_CLOSE int | SN_SHUTDOWN int
  | SN_CREATE ptr | SN_SETUP ptr | SN_SECURITY ptr | SN_DERIVE u64 | SN_DELETE ptr
  | SN_THREAD | SN_START ptr | SN_STOP ptr | SN_QUIT ptr | SN_STOP_UI ptr | SN_PROCESS ptr | SN_UNREGISTER ptr

text \<open>The descriptor and the port, or None; t6 is the attempt with IPv6, t4 the one with IPv4.\<close>

definition open_listener :: "listen_try \<Rightarrow> listen_try \<Rightarrow> (int \<times> u16) option \<times> session_call list" where
  "open_listener t6 t4 =
     (if lt_fd t6 \<ge> 0 \<and> lt_bound t6 \<and> lt_port t6 \<noteq> 0 then (Some (lt_fd t6, lt_port t6), [SN_SOCKET (lt_fd t6)])
      else let first = (if lt_fd t6 \<ge> 0 then [SN_SOCKET (lt_fd t6), SN_CLOSE (lt_fd t6)] else [])
      in if lt_fd t4 < 0 then (None, first)
         else if lt_bound t4 \<and> lt_port t4 \<noteq> 0 then (Some (lt_fd t4, lt_port t4), first @ [SN_SOCKET (lt_fd t4)])
         else (None, first @ [SN_SOCKET (lt_fd t4), SN_CLOSE (lt_fd t4)]))"

text \<open>An attempt to connect: the descriptor, and whether connect succeeds (lt_bound).\<close>

definition wake_listener :: "u16 \<Rightarrow> listen_try \<Rightarrow> listen_try \<Rightarrow> bool \<times> session_call list" where
  "wake_listener port t6 t4 =
     (if port = 0 then (False, [])
      else let first = (if lt_fd t6 \<ge> 0 then [SN_SOCKET (lt_fd t6), SN_CLOSE (lt_fd t6)] else [])
      in if lt_fd t6 \<ge> 0 \<and> lt_bound t6 then (True, first)
         else if lt_fd t4 < 0 then (False, first)
         else (lt_bound t4, first @ [SN_SOCKET (lt_fd t4), SN_CLOSE (lt_fd t4)]))"

section \<open>Preparing a session\<close>

definition ensure_view_worker_started :: "bool \<Rightarrow> alt_globals \<Rightarrow> alt_globals" where
  "ensure_view_worker_started created g =
     (if ag_view_worker_started g \<noteq> 0 then g
      else if created then g\<lparr>ag_trace_threads_started := True, ag_view_worker_started := 1\<rparr>
      else g\<lparr>ag_view_worker_started := 0\<rparr>)"

text \<open>
  What prepare_altscreen finds: the connection id of the descriptor, the screen that the stock library
  creates, the results of its calls, the attempts at the listener, and the worker thread.
\<close>

record prepare_env =
  pe_connection :: "u64 option"
  pe_control_thread :: bool
  pe_create :: int
  pe_screen :: ptr
  pe_setup :: int
  pe_security :: int
  pe_try6 :: listen_try
  pe_try4 :: listen_try
  pe_thread :: int
  pe_worker :: nat

text \<open>The exit at the label fail.\<close>

definition prepare_fail :: "nat \<Rightarrow> ptr \<Rightarrow> alt_globals \<Rightarrow> session_call list \<times> alt_globals" where
  "prepare_fail i screen g = (if screen \<noteq> NULL then [SN_DELETE screen] else [], clear_session i g)"

text \<open>The port and the slot of the session, the calls, and the two states.\<close>

definition prepare_altscreen :: "prepare_env \<Rightarrow> real_fns \<Rightarrow> ptr \<Rightarrow> alt_globals \<Rightarrow> alt_output \<Rightarrow>
    (u16 \<times> nat) option \<times> session_call list \<times> alt_globals \<times> alt_output" where
  "prepare_altscreen pe r receiver g ao =
     (case pe_connection pe of
        None \<Rightarrow> (None, [], g, ao)
      | Some conn \<Rightarrow>
          if conn = 0 \<or> \<not> altscreen_aes_ready r ao then (None, [], g, ao)
          else case alloc_state_locked receiver g of
            (None, g) \<Rightarrow> (None, [], g, ao)
          | (Some i, g) \<Rightarrow>
              let g = ensure_view_worker_started (pe_control_thread pe) g;
                  screen = pe_screen pe;
                  fail = (\<lambda>cs ao. let (ds, g) = prepare_fail i screen g in (None, cs @ ds, g, ao));
                  created = [SN_CREATE screen];
                  set_up = created @ [SN_SETUP screen];
                  derived = set_up @ [SN_DERIVE conn];
                  secured = derived @ [SN_SECURITY screen]
              in if pe_create pe \<noteq> 0 \<or> screen = NULL then fail (if screen = NULL then [] else created) ao
                 else if pe_setup pe \<noteq> 0 then fail set_up ao
                 else if \<not> fst (altscreen_derive_aes r conn True ao) then fail set_up ao
                 else if pe_security pe \<noteq> 0 then fail secured ao
                 else let (registered, ao') = altscreen_register_session screen ao
                 in if \<not> registered then fail secured ao'
                    else case open_listener (pe_try6 pe) (pe_try4 pe) of
                      (None, ls) \<Rightarrow> fail (secured @ ls) (altscreen_unregister_session screen ao')
                    | (Some (fd, port), ls) \<Rightarrow>
                        let g' = on_slot i (\<lambda>s. s\<lparr>as_screen := screen, as_connection_id := conn, as_listen_fd := fd,
                                                  as_data_port := port\<rparr>) g
                        in if pe_thread pe \<noteq> 0 then
                             let (ds, g'') = prepare_fail i screen (on_slot i (\<lambda>s. s\<lparr>as_listen_fd := -1\<rparr>) g')
                             in (None, secured @ ls @ [SN_THREAD, SN_CLOSE fd] @ ds, g'',
                                 altscreen_unregister_session screen ao')
                           else (Some (port, i), secured @ ls @ [SN_THREAD],
                                 on_slot i (\<lambda>s. s\<lparr>as_worker := pe_worker pe, as_worker_started := True\<rparr>) g', ao'))"

section \<open>The worker beside the cleanup\<close>

text \<open>
  The descriptors of the process, with who opened them. The kernel gives out numbers that are not in use, so a
  number that the session has closed may come back as the descriptor of somebody else.
\<close>

datatype fd_owner = SESSION | OTHERS

text \<open>
  Where the worker is. The flag of W_CLOSE and W_CLEAR is whether the screen has been started.
\<close>

datatype worker_pc =
    W_ACCEPT | W_GOT int | W_FIRST int | W_SYNC int nat | W_POLL int nat | W_LAST int | W_CHECK int
  | W_START int | W_RUNNING int | W_NET int | W_PROCESS int | W_FREE int | W_DELNET int | W_STOP | W_UNSTART
  | W_CLOSE int bool | W_CLEAR bool | W_DONE

text \<open>What the cleanup has copied: listener, port, screen, and the flags of the session.\<close>

record clean_copy =
  cc_worker_started :: bool
  cc_listen_fd :: int
  cc_data_port :: u16
  cc_screen :: ptr
  cc_screen_started :: bool
  cc_show_sent :: bool
  cc_waiting :: bool

datatype clean_pc =
    C_IDLE | C_UI clean_copy | C_WAKE clean_copy | C_SHUT clean_copy | C_UNSET clean_copy | C_CANCEL clean_copy
  | C_JOIN clean_copy | C_DRAIN clean_copy nat | C_READ clean_copy | C_SCREEN clean_copy bool | C_ZERO | C_DONE

record life =
  lf_fds :: "int \<Rightarrow> fd_owner option"
  lf_slot :: altscreen_state
  lf_w :: worker_pc
  lf_c :: clean_pc
  lf_cancelled :: bool
  lf_bad :: "int list"
  lf_calls :: "session_call list"

text \<open>close of a descriptor; lf_bad lists the ones that were not the session's any more.\<close>

definition close_fd :: "int \<Rightarrow> life \<Rightarrow> life" where
  "close_fd fd s = s\<lparr>lf_fds := (lf_fds s)(fd := None),
     lf_bad := (if lf_fds s fd = Some SESSION then lf_bad s else fd # lf_bad s)\<rparr>"

definition called :: "session_call list \<Rightarrow> life \<Rightarrow> life" where
  "called cs s = s\<lparr>lf_calls := lf_calls s @ cs\<rparr>"

text \<open>
  A start is recorded when it succeeds. The inputs of a step: the result of accept, whether the time of the main screen is known, whether a call succeeds.\<close>

datatype worker_in = WI_ACCEPT int | WI_STEP | WI_READY bool | WI_OK bool

abbreviation SYNC_POLLS :: nat where "SYNC_POLLS \<equiv> 300"

text \<open>altscreen_worker; net_closes is whether NetSocket_Delete closes the descriptor that it was created with.\<close>

fun worker_step :: "bool \<Rightarrow> worker_in \<Rightarrow> life \<Rightarrow> life option" where
  "worker_step net_closes inp s =
     (let x = lf_slot s; go = (\<lambda>pc t. Some (t\<lparr>lf_w := pc\<rparr>)) in
      case (lf_w s, inp) of
        (W_ACCEPT, WI_ACCEPT fd) \<Rightarrow>
          if fd < 0 then go (W_GOT (-1)) s
          else if lf_fds s (as_listen_fd x) \<noteq> None \<and> lf_fds s fd = None
          then go (W_GOT fd) (s\<lparr>lf_fds := (lf_fds s)(fd := Some SESSION)\<rparr>) else None
      | (W_GOT fd, WI_STEP) \<Rightarrow>
          let t = (if as_listen_fd x \<ge> 0 then close_fd (as_listen_fd x) s else s);
              t = t\<lparr>lf_slot := x\<lparr>as_listen_fd := (if as_listen_fd x \<ge> 0 then -1 else as_listen_fd x), as_accepted_fd := fd\<rparr>\<rparr>
          in go (if fd < 0 then W_DONE else if as_stop_requested x then W_CLOSE fd False else W_FIRST fd) t
      | (W_FIRST fd, WI_READY ready) \<Rightarrow> go (if ready then W_START fd else W_SYNC fd 0) s
      | (W_SYNC fd n, WI_READY ready) \<Rightarrow> go (if \<not> ready \<and> n < SYNC_POLLS then W_POLL fd n else W_LAST fd) s
      | (W_POLL fd n, WI_STEP) \<Rightarrow> go (if as_stop_requested x then W_LAST fd else W_SYNC fd (n + 1)) s
      | (W_LAST fd, WI_STEP) \<Rightarrow> go (if as_stop_requested x then W_CLOSE fd False else W_CHECK fd) s
      | (W_CHECK fd, WI_READY ready) \<Rightarrow> go (if ready then W_START fd else W_CLOSE fd False) s
      | (W_START fd, WI_OK ok) \<Rightarrow>
          if ok then go (W_RUNNING fd) (called [SN_START (as_screen x)] s) else go (W_CLOSE fd False) s
      | (W_RUNNING fd, WI_STEP) \<Rightarrow> go (W_NET fd) (s\<lparr>lf_slot := x\<lparr>as_screen_started := True\<rparr>\<rparr>)
      | (W_NET fd, WI_OK ok) \<Rightarrow> go (if ok then W_PROCESS fd else W_CLOSE fd True) s
      | (W_PROCESS fd, WI_STEP) \<Rightarrow> go (W_FREE fd) (called [SN_PROCESS (as_screen x)] s)
      | (W_FREE fd, WI_STEP) \<Rightarrow> go (W_DELNET fd) (s\<lparr>lf_slot := x\<lparr>as_accepted_fd := -1\<rparr>\<rparr>)
      | (W_DELNET fd, WI_STEP) \<Rightarrow> go W_STOP (if net_closes then close_fd fd s else s)
      | (W_STOP, WI_STEP) \<Rightarrow> go W_UNSTART (called [SN_STOP (as_screen x)] s)
      | (W_UNSTART, WI_STEP) \<Rightarrow> go W_DONE (s\<lparr>lf_slot := x\<lparr>as_screen_started := False\<rparr>\<rparr>)
      | (W_CLOSE fd started, WI_STEP) \<Rightarrow> go (W_CLEAR started) (close_fd fd s)
      | (W_CLEAR started, WI_STEP) \<Rightarrow>
          go (if started then W_STOP else W_DONE) (s\<lparr>lf_slot := x\<lparr>as_accepted_fd := -1\<rparr>\<rparr>)
      | _ \<Rightarrow> None)"

text \<open>cleanup_altscreen, called by a thread that is not the worker.\<close>

datatype clean_in = CI_STEP | CI_WAKE listen_try listen_try

definition copy_slot :: "altscreen_state \<Rightarrow> clean_copy" where
  "copy_slot x = \<lparr>cc_worker_started = as_worker_started x, cc_listen_fd = as_listen_fd x, cc_data_port = as_data_port x,
     cc_screen = as_screen x, cc_screen_started = as_screen_started x, cc_show_sent = as_show_sent x,
     cc_waiting = as_worker_started x \<and> as_listen_fd x \<ge> 0 \<and> as_accepted_fd x < 0\<rparr>"

fun clean_step :: "clean_in \<Rightarrow> life \<Rightarrow> life option" where
  "clean_step inp s =
     (let x = lf_slot s; go = (\<lambda>pc t. Some (t\<lparr>lf_c := pc\<rparr>)) in
      case (lf_c s, inp) of
        (C_IDLE, CI_STEP) \<Rightarrow>
          if as_active x
          then go (C_UI (copy_slot x))
                 (called (if as_accepted_fd x \<ge> 0 then [SN_SHUTDOWN (as_accepted_fd x)] else [])
                   (s\<lparr>lf_slot := x\<lparr>as_stop_requested := True\<rparr>\<rparr>))
          else go C_DONE s
      | (C_UI c, CI_STEP) \<Rightarrow>
          go (if cc_waiting c then C_WAKE c else C_JOIN c)
            (called ((if cc_show_sent c then [SN_STOP_UI (as_receiver x)] else []) @
                     (if cc_screen_started c \<and> cc_screen c \<noteq> NULL then [SN_QUIT (cc_screen c)] else [])) s)
      | (C_WAKE c, CI_WAKE t6 t4) \<Rightarrow>
          let (ok, cs) = wake_listener (cc_data_port c) t6 t4
          in go (if ok then C_JOIN c else C_SHUT c) (called cs s)
      | (C_SHUT c, CI_STEP) \<Rightarrow> go (C_UNSET c) (close_fd (cc_listen_fd c) (called [SN_SHUTDOWN (cc_listen_fd c)] s))
      | (C_UNSET c, CI_STEP) \<Rightarrow>
          go (C_CANCEL c) (if as_listen_fd x = cc_listen_fd c then s\<lparr>lf_slot := x\<lparr>as_listen_fd := -1\<rparr>\<rparr> else s)
      | (C_CANCEL c, CI_STEP) \<Rightarrow> go (C_JOIN c) (s\<lparr>lf_cancelled := True\<rparr>)
      | (C_JOIN c, CI_STEP) \<Rightarrow> if cc_worker_started c \<and> lf_w s \<noteq> W_DONE then None else go (C_DRAIN c 0) s
      | (C_DRAIN c n, CI_STEP) \<Rightarrow> go (if n < 50 \<and> as_inflight x \<noteq> 0 then C_DRAIN c (n + 1) else C_READ c) s
      | (C_READ c, CI_STEP) \<Rightarrow> go (C_SCREEN c (as_screen_started x)) s
      | (C_SCREEN c started, CI_STEP) \<Rightarrow>
          go C_ZERO (if cc_screen c \<noteq> NULL
                     then called ((if started then [SN_STOP (cc_screen c)] else []) @ [SN_UNREGISTER (cc_screen c), SN_DELETE (cc_screen c)]) s else s)
      | (C_ZERO, CI_STEP) \<Rightarrow> go C_DONE (s\<lparr>lf_slot := zero_session\<rparr>)
      | _ \<Rightarrow> None)"

text \<open>
  The other threads open and close descriptors of their own and change the counter of the commands; a
  worker that was cancelled ends in accept, close or usleep.
\<close>

datatype life_act = L_WORKER worker_in | L_CLEAN clean_in | L_OPEN int | L_SHUT int | L_INFLIGHT int | L_SHOW | L_CANCEL

fun life_step :: "bool \<Rightarrow> life_act \<Rightarrow> life \<Rightarrow> life option" where
  "life_step net_closes (L_WORKER inp) s = worker_step net_closes inp s"
| "life_step net_closes (L_CLEAN inp) s = clean_step inp s"
| "life_step net_closes (L_OPEN fd) s =
     (if fd \<ge> 0 \<and> lf_fds s fd = None then Some (s\<lparr>lf_fds := (lf_fds s)(fd := Some OTHERS)\<rparr>) else None)"
| "life_step net_closes (L_SHUT fd) s =
     (if lf_fds s fd = Some OTHERS then Some (s\<lparr>lf_fds := (lf_fds s)(fd := None)\<rparr>) else None)"
| "life_step net_closes (L_INFLIGHT n) s =
     (if lf_c s \<noteq> C_DONE then Some (s\<lparr>lf_slot := (lf_slot s)\<lparr>as_inflight := n\<rparr>\<rparr>) else None)"
| "life_step net_closes L_SHOW s =
     (if lf_c s \<noteq> C_DONE \<and> as_screen_started (lf_slot s) \<and> \<not> as_stop_requested (lf_slot s)
      then Some (s\<lparr>lf_slot := (lf_slot s)\<lparr>as_show_sent := True\<rparr>\<rparr>) else None)"
| "life_step net_closes L_CANCEL s =
     (if lf_cancelled s then
        case lf_w s of
          W_ACCEPT \<Rightarrow> Some (s\<lparr>lf_w := W_DONE\<rparr>) | W_POLL _ _ \<Rightarrow> Some (s\<lparr>lf_w := W_DONE\<rparr>)
        | W_CLOSE _ _ \<Rightarrow> Some (s\<lparr>lf_w := W_DONE\<rparr>) | _ \<Rightarrow> None
      else None)"

fun life_run :: "bool \<Rightarrow> life_act list \<Rightarrow> life \<Rightarrow> life option" where
  "life_run net_closes [] s = Some s"
| "life_run net_closes (a # as) s = Option.bind (life_step net_closes a s) (life_run net_closes as)"

text \<open>The state that prepare_altscreen leaves: the worker thread has been created with the slot.\<close>

definition born :: "altscreen_state \<Rightarrow> (int \<Rightarrow> fd_owner option) \<Rightarrow> session_call list \<Rightarrow> life" where
  "born x fds cs = \<lparr>lf_fds = fds(as_listen_fd x := Some SESSION), lf_slot = x, lf_w = W_ACCEPT, lf_c = C_IDLE,
     lf_cancelled = False, lf_bad = [], lf_calls = cs\<rparr>"

end
