(* ===== verification/Alt_Life.thy ===== *)
theory Alt_Life
  imports Alt_Session Alt_Stub Alt_Table
begin

text \<open>
  What the worker and the cleanup of a private session do to its descriptors and to its screen, in every order of
  their steps.
\<close>

section \<open>The invariant of a session whose wake-up succeeds\<close>

text \<open>The descriptors that the worker has to close, and whether it has the listener.\<close>

fun holds :: "worker_pc \<Rightarrow> int \<Rightarrow> bool" where
  "holds (W_GOT fd) x \<longleftrightarrow> x = fd \<and> fd \<ge> 0"
| "holds (W_FIRST fd) x \<longleftrightarrow> x = fd"
| "holds (W_SYNC fd n) x \<longleftrightarrow> x = fd"
| "holds (W_POLL fd n) x \<longleftrightarrow> x = fd"
| "holds (W_LAST fd) x \<longleftrightarrow> x = fd"
| "holds (W_CHECK fd) x \<longleftrightarrow> x = fd"
| "holds (W_START fd) x \<longleftrightarrow> x = fd"
| "holds (W_RUNNING fd) x \<longleftrightarrow> x = fd"
| "holds (W_NET fd) x \<longleftrightarrow> x = fd"
| "holds (W_PROCESS fd) x \<longleftrightarrow> x = fd"
| "holds (W_FREE fd) x \<longleftrightarrow> x = fd"
| "holds (W_DELNET fd) x \<longleftrightarrow> x = fd"
| "holds (W_CLOSE fd b) x \<longleftrightarrow> x = fd"
| "holds _ x \<longleftrightarrow> False"

fun listening :: "worker_pc \<Rightarrow> bool" where
  "listening W_ACCEPT \<longleftrightarrow> True"
| "listening (W_GOT fd) \<longleftrightarrow> True"
| "listening _ \<longleftrightarrow> False"

text \<open>Between the start and the stop of the screen; and the flag in the slot, which follows a step later.\<close>

fun running :: "worker_pc \<Rightarrow> bool" where
  "running (W_RUNNING fd) \<longleftrightarrow> True"
| "running (W_NET fd) \<longleftrightarrow> True"
| "running (W_PROCESS fd) \<longleftrightarrow> True"
| "running (W_FREE fd) \<longleftrightarrow> True"
| "running (W_DELNET fd) \<longleftrightarrow> True"
| "running W_STOP \<longleftrightarrow> True"
| "running (W_CLOSE fd b) \<longleftrightarrow> b"
| "running (W_CLEAR b) \<longleftrightarrow> b"
| "running _ \<longleftrightarrow> False"

fun flagged :: "worker_pc \<Rightarrow> bool" where
  "flagged W_UNSTART \<longleftrightarrow> True"
| "flagged (W_RUNNING fd) \<longleftrightarrow> False"
| "flagged pc \<longleftrightarrow> running pc"

definition fds_ok :: "life \<Rightarrow> bool" where
  "fds_ok s \<longleftrightarrow> lf_bad s = [] \<and>
     (\<forall>fd. lf_fds s fd = Some SESSION \<longleftrightarrow> (listening (lf_w s) \<and> fd = as_listen_fd (lf_slot s)) \<or> holds (lf_w s) fd) \<and>
     (\<forall>fd. lf_w s = W_GOT fd \<longrightarrow> fd \<noteq> as_listen_fd (lf_slot s)) \<and>
     (lf_c s \<noteq> C_DONE \<longrightarrow> (listening (lf_w s) \<longleftrightarrow> as_listen_fd (lf_slot s) \<ge> 0)) \<and>
     (lf_c s = C_DONE \<longrightarrow> lf_w s = W_DONE)"

lemma close_held:
  "lf_fds s fd = Some SESSION \<Longrightarrow> close_fd fd s = s\<lparr>lf_fds := (lf_fds s)(fd := None)\<rparr>"
  by (simp add: close_fd_def)

lemma worker_fds:
  assumes "worker_step True inp s = Some s'" "fds_ok s"
  shows "fds_ok s'"
proof -
  have nd: "lf_c s \<noteq> C_DONE" using assms by (auto simp: fds_ok_def Let_def)
  show ?thesis
  proof (cases "lf_w s")
    case W_ACCEPT
    then have l: "\<And>y. lf_fds s (as_listen_fd (lf_slot s)) = Some y \<Longrightarrow> y = SESSION"
      using assms(2) unfolding fds_ok_def by (metis listening.simps(1) option.inject)
    from W_ACCEPT assms nd show ?thesis by (cases inp) (auto simp: fds_ok_def Let_def split: if_splits dest: l)
  next
    case (W_GOT fd)
    have l: "as_listen_fd (lf_slot s) \<ge> 0" "lf_fds s (as_listen_fd (lf_slot s)) = Some SESSION"
      using assms(2) nd W_GOT by (auto simp: fds_ok_def)
    with assms nd W_GOT show ?thesis
      by (cases inp) (auto simp: fds_ok_def Let_def close_held split: if_splits)
  next
    case (W_DELNET fd)
    then have "lf_fds s fd = Some SESSION" using assms(2) by (simp add: fds_ok_def)
    with assms nd W_DELNET show ?thesis by (cases inp) (auto simp: fds_ok_def Let_def close_held split: if_splits)
  next
    case (W_CLOSE fd b)
    then have "lf_fds s fd = Some SESSION" using assms(2) by (simp add: fds_ok_def)
    with assms nd W_CLOSE show ?thesis by (cases inp) (auto simp: fds_ok_def Let_def close_held split: if_splits)
  qed (use assms nd in \<open>cases inp; auto simp: fds_ok_def Let_def called_def split: if_splits\<close>)+
qed


text \<open>The screen: started and stopped in turn, deleted at the end. A run in which the listener is woken up has no other close.\<close>

fun joined :: "clean_pc \<Rightarrow> bool" where
  "joined (C_DRAIN c n) \<longleftrightarrow> True"
| "joined (C_READ c) \<longleftrightarrow> True"
| "joined (C_SCREEN c b) \<longleftrightarrow> True"
| "joined C_ZERO \<longleftrightarrow> True"
| "joined C_DONE \<longleftrightarrow> True"
| "joined _ \<longleftrightarrow> False"

fun copy_of :: "clean_pc \<Rightarrow> clean_copy option" where
  "copy_of (C_UI c) = Some c"
| "copy_of (C_WAKE c) = Some c"
| "copy_of (C_SHUT c) = Some c"
| "copy_of (C_UNSET c) = Some c"
| "copy_of (C_CANCEL c) = Some c"
| "copy_of (C_JOIN c) = Some c"
| "copy_of (C_DRAIN c n) = Some c"
| "copy_of (C_READ c) = Some c"
| "copy_of (C_SCREEN c b) = Some c"
| "copy_of _ = None"

text \<open>The way of a wake-up that failed, and a cleanup that stops the screen itself.\<close>

fun gave_up :: "clean_pc \<Rightarrow> bool" where
  "gave_up (C_SHUT c) \<longleftrightarrow> True"
| "gave_up (C_UNSET c) \<longleftrightarrow> True"
| "gave_up (C_CANCEL c) \<longleftrightarrow> True"
| "gave_up _ \<longleftrightarrow> False"

fun stops_again :: "clean_pc \<Rightarrow> bool" where
  "stops_again (C_SCREEN c b) \<longleftrightarrow> b"
| "stops_again _ \<longleftrightarrow> False"

definition closed_up :: "clean_pc \<Rightarrow> bool" where
  "closed_up pc \<longleftrightarrow> pc = C_ZERO \<or> pc = C_DONE"

text \<open>scr is the screen and port the port of the session.\<close>

definition life_ok :: "ptr \<Rightarrow> u16 \<Rightarrow> life \<Rightarrow> bool" where
  "life_ok scr port s \<longleftrightarrow> fds_ok s \<and> \<not> lf_cancelled s \<and> \<not> gave_up (lf_c s) \<and>
     (lf_c s \<noteq> C_DONE \<longrightarrow> as_screen (lf_slot s) = scr \<and> as_data_port (lf_slot s) = port \<and> as_active (lf_slot s) \<and>
        as_worker_started (lf_slot s) \<and> as_screen_started (lf_slot s) = flagged (lf_w s)) \<and>
     (\<forall>c. copy_of (lf_c s) = Some c \<longrightarrow> cc_worker_started c \<and> cc_screen c = scr \<and> cc_data_port c = port) \<and>
     (joined (lf_c s) \<longrightarrow> lf_w s = W_DONE) \<and> \<not> stops_again (lf_c s) \<and>
     count_list (lf_calls s) (SN_START scr) = count_list (lf_calls s) (SN_STOP scr) + of_bool (running (lf_w s)) \<and>
     count_list (lf_calls s) (SN_DELETE scr) = of_bool (closed_up (lf_c s)) \<and>
     (closed_up (lf_c s) \<longrightarrow> lf_calls s \<noteq> [] \<and> last (lf_calls s) = SN_DELETE scr)"


text \<open>What a step of the worker leaves alone, and what it does to the flag of the slot and to the calls.\<close>

lemma worker_frame:
  "worker_step nc inp s = Some s' \<Longrightarrow>
     lf_c s' = lf_c s \<and> lf_cancelled s' = lf_cancelled s \<and> as_screen (lf_slot s') = as_screen (lf_slot s) \<and>
     as_data_port (lf_slot s') = as_data_port (lf_slot s) \<and> as_active (lf_slot s') = as_active (lf_slot s) \<and>
     as_worker_started (lf_slot s') = as_worker_started (lf_slot s) \<and> lf_w s \<noteq> W_DONE"
  by (cases "lf_w s"; cases inp; auto simp: Let_def called_def close_fd_def split: if_splits)

lemma worker_flag:
  assumes "worker_step nc inp s = Some s'" "as_screen_started (lf_slot s) = flagged (lf_w s)"
  shows "as_screen_started (lf_slot s') = flagged (lf_w s')"
  using assms by (cases "lf_w s"; cases inp; auto simp: Let_def called_def close_fd_def split: if_splits)

lemma worker_calls:
  assumes "worker_step nc inp s = Some s'"
  shows "\<exists>cs. lf_calls s' = lf_calls s @ cs \<and> count_list cs (SN_DELETE scr) = 0 \<and>
    (as_screen (lf_slot s) = scr \<longrightarrow>
      count_list cs (SN_START scr) + of_bool (running (lf_w s)) = count_list cs (SN_STOP scr) + of_bool (running (lf_w s')))"
  using assms by (cases "lf_w s"; cases inp; auto simp: Let_def called_def close_fd_def split: if_splits)

lemma worker_life:
  assumes "worker_step True inp s = Some s'" "life_ok scr port s"
  shows "life_ok scr port s'"
proof -
  note ok = assms(2) [unfolded life_ok_def] and fr = worker_frame [OF assms(1)]
  have f: "fds_ok s'" using worker_fds [OF assms(1)] ok by blast
  have nd: "\<not> joined (lf_c s)" using ok fr by blast
  then have c: "\<not> closed_up (lf_c s)" "lf_c s \<noteq> C_DONE" by (auto simp: closed_up_def)
  obtain cs where cs: "lf_calls s' = lf_calls s @ cs" "count_list cs (SN_DELETE scr) = 0"
    "count_list cs (SN_START scr) + of_bool (running (lf_w s)) = count_list cs (SN_STOP scr) + of_bool (running (lf_w s'))"
    using worker_calls [OF assms(1), of scr] ok c(2) by blast
  have fl: "as_screen_started (lf_slot s') = flagged (lf_w s')" using worker_flag [OF assms(1)] ok c(2) by blast
  have b: "\<forall>c. copy_of (lf_c s) = Some c \<longrightarrow> cc_worker_started c \<and> cc_screen c = scr \<and> cc_data_port c = port"
    using ok by blast
  show ?thesis unfolding life_ok_def using f ok nd c cs fl b fr by simp
qed


lemma wake_calls: "wake_listener p t6 t4 = (ok, cs) \<Longrightarrow> count_list cs (SN_START x) = 0 \<and> count_list cs (SN_STOP x) = 0 \<and> count_list cs (SN_DELETE x) = 0"
  by (auto simp: wake_listener_def Let_def split: if_splits)

text \<open>What the cleanup does at each of its points, on a session whose wake-up succeeds.\<close>

text \<open>A step of the cleanup that makes calls and moves on with its copy; done is whether it goes past the join.\<close>

lemma life_move:
  assumes "life_ok scr port s" "copy_of (lf_c s) = Some c" "copy_of pc = Some c" "\<not> closed_up pc"
    "\<not> gave_up pc" "joined pc \<longrightarrow> lf_w s = W_DONE" "\<not> stops_again pc"
    "count_list cs (SN_START scr) = 0" "count_list cs (SN_STOP scr) = 0" "count_list cs (SN_DELETE scr) = 0"
  shows "life_ok scr port ((called cs s)\<lparr>lf_c := pc\<rparr>)"
proof -
  have "\<not> closed_up (lf_c s)" "lf_c s \<noteq> C_DONE" "pc \<noteq> C_DONE" using assms(2,3) by (auto simp: closed_up_def)
  with assms show ?thesis by (simp add: life_ok_def fds_ok_def called_def)
qed

lemma called_Nil: "called [] s = s"
  by (simp add: called_def)

lemma clean_life:
  assumes "clean_step inp s = Some s'" "life_ok scr port s"
    "\<And>t6 t4. inp = CI_WAKE t6 t4 \<Longrightarrow> fst (wake_listener port t6 t4)" "scr \<noteq> NULL"
  shows "life_ok scr port s'"
proof -
  note ok = assms(2) [unfolded life_ok_def fds_ok_def]
  note move = life_move [OF assms(2)]
  show ?thesis
  proof (cases "lf_c s")
    case C_IDLE
    then have "inp = CI_STEP" using assms(1) by (cases inp) auto
    moreover have "as_active (lf_slot s)" using ok C_IDLE by simp
    moreover define cs where "cs = (if as_accepted_fd (lf_slot s) \<ge> 0 then [SN_SHUTDOWN (as_accepted_fd (lf_slot s))] else [])"
    ultimately have cs: "count_list cs (SN_START scr) = 0" "count_list cs (SN_STOP scr) = 0" "count_list cs (SN_DELETE scr) = 0"
      and s': "s' = (called cs (s\<lparr>lf_slot := (lf_slot s)\<lparr>as_stop_requested := True\<rparr>\<rparr>))\<lparr>lf_c := C_UI (copy_slot (lf_slot s))\<rparr>"
      using assms(1) C_IDLE by (simp_all add: Let_def)
    show ?thesis using ok C_IDLE cs unfolding s' by (simp add: life_ok_def fds_ok_def called_def copy_slot_def closed_up_def)
  next
    case (C_UI c)
    then have "inp = CI_STEP" using assms(1) by (cases inp) auto
    let ?cs = "(if cc_show_sent c then [SN_STOP_UI (as_receiver (lf_slot s))] else []) @
      (if cc_screen_started c \<and> cc_screen c \<noteq> NULL then [SN_QUIT (cc_screen c)] else [])"
    have "s' = (called ?cs s)\<lparr>lf_c := (if cc_waiting c then C_WAKE c else C_JOIN c)\<rparr>"
      using assms(1) C_UI \<open>inp = CI_STEP\<close> by (auto simp: Let_def)
    moreover have "life_ok scr port ((called ?cs s)\<lparr>lf_c := (if cc_waiting c then C_WAKE c else C_JOIN c)\<rparr>)"
      by (rule move) (auto simp: C_UI closed_up_def)
    ultimately show ?thesis by simp
  next
    case (C_WAKE c)
    then obtain t6 t4 where i: "inp = CI_WAKE t6 t4" using assms(1) by (cases inp) auto
    obtain w cs where w: "wake_listener port t6 t4 = (w, cs)" by fastforce
    then have "w" using assms(3) [OF i] by simp
    moreover have "cc_data_port c = port" using ok C_WAKE by simp
    ultimately have "s' = (called cs s)\<lparr>lf_c := C_JOIN c\<rparr>" using assms(1) C_WAKE i w by simp
    moreover have "life_ok scr port ((called cs s)\<lparr>lf_c := C_JOIN c\<rparr>)"
      by (rule move) (use wake_calls [OF w] in \<open>auto simp: C_WAKE closed_up_def\<close>)
    ultimately show ?thesis by simp
  next
    case (C_JOIN c)
    then have "inp = CI_STEP" using assms(1) by (cases inp) auto
    moreover have "cc_worker_started c" using ok C_JOIN by simp
    ultimately have "lf_w s = W_DONE" "s' = (called [] s)\<lparr>lf_c := C_DRAIN c 0\<rparr>"
      using assms(1) C_JOIN by (auto simp: called_Nil split: if_splits)
    moreover have "life_ok scr port ((called [] s)\<lparr>lf_c := C_DRAIN c 0\<rparr>)"
      by (rule move) (use calculation in \<open>auto simp: C_JOIN closed_up_def\<close>)
    ultimately show ?thesis by simp
  next
    case (C_DRAIN c n)
    then have "inp = CI_STEP" using assms(1) by (cases inp) auto
    then have "s' = (called [] s)\<lparr>lf_c := (if n < 50 \<and> as_inflight (lf_slot s) \<noteq> 0 then C_DRAIN c (n + 1) else C_READ c)\<rparr>"
      using assms(1) C_DRAIN by (auto simp: called_Nil Let_def)
    moreover have "lf_w s = W_DONE" using ok C_DRAIN by simp
    then have "life_ok scr port ((called [] s)\<lparr>lf_c := (if n < 50 \<and> as_inflight (lf_slot s) \<noteq> 0 then C_DRAIN c (n + 1) else C_READ c)\<rparr>)"
      by (intro move) (auto simp: C_DRAIN closed_up_def)
    ultimately show ?thesis by simp
  next
    case (C_READ c)
    then have "inp = CI_STEP" using assms(1) by (cases inp) auto
    moreover have w: "lf_w s = W_DONE" using ok C_READ by simp
    moreover from this have "\<not> as_screen_started (lf_slot s)" using ok C_READ by simp
    ultimately have "s' = (called [] s)\<lparr>lf_c := C_SCREEN c False\<rparr>" using assms(1) C_READ by (auto simp: called_Nil)
    moreover have "life_ok scr port ((called [] s)\<lparr>lf_c := C_SCREEN c False\<rparr>)"
      by (rule move) (use w in \<open>auto simp: C_READ closed_up_def\<close>)
    ultimately show ?thesis by simp
  next
    case (C_SCREEN c b)
    then have "inp = CI_STEP" using assms(1) by (cases inp) auto
    moreover have "\<not> b" "cc_screen c = scr" using ok C_SCREEN by simp_all
    ultimately have "s' = (called [SN_UNREGISTER scr, SN_DELETE scr] s)\<lparr>lf_c := C_ZERO\<rparr>"
      using assms(1,4) C_SCREEN by auto
    moreover have w: "lf_w s = W_DONE" using ok C_SCREEN by simp
    moreover have "\<forall>fd. lf_fds s fd \<noteq> Some SESSION" "\<not> 0 \<le> as_listen_fd (lf_slot s)" using ok C_SCREEN w by simp_all
    ultimately show ?thesis using C_SCREEN ok by (simp add: life_ok_def fds_ok_def called_def closed_up_def)
  next
    case C_ZERO
    then have "inp = CI_STEP" using assms(1) by (cases inp) auto
    then have s': "s' = s\<lparr>lf_slot := zero_session, lf_c := C_DONE\<rparr>" using assms(1) C_ZERO by simp
    have w: "lf_w s = W_DONE" using ok C_ZERO by simp
    then have "\<forall>fd. lf_fds s fd \<noteq> Some SESSION" using ok by simp
    with w show ?thesis using C_ZERO ok unfolding s' by (simp add: life_ok_def fds_ok_def closed_up_def)
  qed (use assms(1) ok in \<open>cases inp; auto\<close>)+
qed

lemma life_step_ok:
  assumes "life_step True a s = Some s'" "life_ok scr port s" "scr \<noteq> NULL"
    "\<And>t6 t4. a = L_CLEAN (CI_WAKE t6 t4) \<Longrightarrow> fst (wake_listener port t6 t4)"
  shows "life_ok scr port s'"
proof (cases a)
  case (L_WORKER inp)
  with assms worker_life show ?thesis by simp
next
  case (L_CLEAN inp)
  with assms clean_life [of inp s s' scr port] show ?thesis by simp
next
  case L_CANCEL
  have "\<not> lf_cancelled s" using assms(2) by (simp add: life_ok_def)
  with assms(1) L_CANCEL show ?thesis by simp
next
  case (L_OPEN fd)
  then have "s' = s\<lparr>lf_fds := (lf_fds s)(fd := Some OTHERS)\<rparr>" "lf_fds s fd \<noteq> Some SESSION"
    using assms(1) by (auto split: if_splits)
  moreover from this have "\<forall>x. ((lf_fds s)(fd := Some OTHERS)) x = Some SESSION \<longleftrightarrow> lf_fds s x = Some SESSION" by auto
  ultimately show ?thesis using assms(2) by (simp add: life_ok_def fds_ok_def)
next
  case (L_SHUT fd)
  then have "s' = s\<lparr>lf_fds := (lf_fds s)(fd := None)\<rparr>" "lf_fds s fd = Some OTHERS"
    using assms(1) by (auto split: if_splits)
  moreover from this have "\<forall>x. ((lf_fds s)(fd := None)) x = Some SESSION \<longleftrightarrow> lf_fds s x = Some SESSION" by auto
  ultimately show ?thesis using assms(2) by (simp add: life_ok_def fds_ok_def)
next
  case (L_INFLIGHT n)
  then have "s' = s\<lparr>lf_slot := (lf_slot s)\<lparr>as_inflight := n\<rparr>\<rparr>" "lf_c s \<noteq> C_DONE" using assms(1) by (auto split: if_splits)
  with assms(2) show ?thesis by (simp add: life_ok_def fds_ok_def)
next
  case L_SHOW
  then have "s' = s\<lparr>lf_slot := (lf_slot s)\<lparr>as_show_sent := True\<rparr>\<rparr>" "lf_c s \<noteq> C_DONE" using assms(1) by (auto split: if_splits)
  with assms(2) show ?thesis by (simp add: life_ok_def fds_ok_def)
qed

lemma life_run_ok:
  "life_run True as s = Some s' \<Longrightarrow> life_ok scr port s \<Longrightarrow> scr \<noteq> NULL \<Longrightarrow>
   (\<And>t6 t4. L_CLEAN (CI_WAKE t6 t4) \<in> set as \<Longrightarrow> fst (wake_listener port t6 t4)) \<Longrightarrow> life_ok scr port s'"
proof (induction as arbitrary: s)
  case (Cons a as)
  then obtain s1 where s1: "life_step True a s = Some s1" "life_run True as s1 = Some s'" by (auto simp: bind_eq_Some_conv)
  have "life_ok scr port s1" by (rule life_step_ok [OF s1(1) Cons.prems(2,3)]) (use Cons.prems(4) in auto)
  from Cons.IH [OF s1(2) this Cons.prems(3)] Cons.prems(4) show ?case by auto
qed simp

text \<open>What prepare_altscreen hands over.\<close>

definition prepared :: "altscreen_state \<Rightarrow> bool" where
  "prepared x \<longleftrightarrow> as_active x \<and> as_worker_started x \<and> \<not> as_screen_started x \<and> \<not> as_stop_requested x \<and>
     as_listen_fd x \<ge> 0 \<and> as_accepted_fd x < 0 \<and> as_screen x \<noteq> NULL"

definition no_screen_calls :: "session_call list \<Rightarrow> bool" where
  "no_screen_calls cs \<longleftrightarrow> (\<forall>s. SN_START s \<notin> set cs \<and> SN_STOP s \<notin> set cs \<and> SN_DELETE s \<notin> set cs)"

lemma born_ok:
  assumes "prepared x" "\<forall>fd. fds fd \<noteq> Some SESSION" "no_screen_calls cs"
  shows "life_ok (as_screen x) (as_data_port x) (born x fds cs)"
  using assms by (auto simp: life_ok_def fds_ok_def born_def prepared_def closed_up_def no_screen_calls_def)

section \<open>Termination\<close>

text \<open>The steps that the worker still has to make, at most.\<close>

fun worker_left :: "worker_pc \<Rightarrow> nat" where
  "worker_left W_ACCEPT = 620"
| "worker_left (W_GOT fd) = 619"
| "worker_left (W_FIRST fd) = 618"
| "worker_left (W_SYNC fd n) = 2 * (300 - n) + 16"
| "worker_left (W_POLL fd n) = 2 * (300 - n) + 15"
| "worker_left (W_LAST fd) = 14"
| "worker_left (W_CHECK fd) = 13"
| "worker_left (W_START fd) = 12"
| "worker_left (W_RUNNING fd) = 11"
| "worker_left (W_NET fd) = 10"
| "worker_left (W_PROCESS fd) = 9"
| "worker_left (W_FREE fd) = 8"
| "worker_left (W_DELNET fd) = 7"
| "worker_left (W_CLOSE fd b) = 6"
| "worker_left (W_CLEAR b) = 5"
| "worker_left W_STOP = 4"
| "worker_left W_UNSTART = 3"
| "worker_left W_DONE = 0"

fun polling_ok :: "worker_pc \<Rightarrow> bool" where
  "polling_ok (W_SYNC fd n) \<longleftrightarrow> n \<le> 300"
| "polling_ok (W_POLL fd n) \<longleftrightarrow> n < 300"
| "polling_ok _ \<longleftrightarrow> True"

lemma worker_less:
  "worker_step nc inp s = Some s' \<Longrightarrow> polling_ok (lf_w s) \<Longrightarrow> worker_left (lf_w s') < worker_left (lf_w s) \<and> polling_ok (lf_w s')"
  by (cases "lf_w s"; cases inp; auto simp: Let_def called_def close_fd_def split: if_splits)

lemma clean_worker: "clean_step inp s = Some s' \<Longrightarrow> lf_w s' = lf_w s"
  by (cases "lf_c s"; cases inp; auto simp: Let_def called_def close_fd_def split: if_splits prod.splits)

fun is_worker :: "life_act \<Rightarrow> bool" where
  "is_worker (L_WORKER inp) \<longleftrightarrow> True"
| "is_worker _ \<longleftrightarrow> False"

lemma step_left:
  assumes "life_step nc a s = Some s'" "polling_ok (lf_w s)"
  shows "polling_ok (lf_w s') \<and> worker_left (lf_w s') + of_bool (is_worker a) \<le> worker_left (lf_w s)"
proof (cases a)
  case (L_WORKER inp)
  with assms worker_less [of nc inp s s'] show ?thesis by simp
next
  case (L_CLEAN inp)
  with assms clean_worker [of inp s s'] show ?thesis by simp
qed (use assms in \<open>auto split: if_splits worker_pc.splits\<close>)

lemma run_left:
  "life_run nc as s = Some s' \<Longrightarrow> polling_ok (lf_w s) \<Longrightarrow>
     length (filter is_worker as) + worker_left (lf_w s') \<le> worker_left (lf_w s)"
proof (induction as arbitrary: s)
  case (Cons a as)
  then obtain s1 where s1: "life_step nc a s = Some s1" "life_run nc as s1 = Some s'" by (auto simp: bind_eq_Some_conv)
  from step_left [OF s1(1) Cons.prems(2)] Cons.IH [OF s1(2)] show ?case by auto
qed simp

text \<open>The worker never waits for the cleanup: until it is done, some result of its next call lets it go on.\<close>

lemma worker_enabled: "lf_w s \<noteq> W_DONE \<Longrightarrow> \<exists>inp. worker_step nc inp s \<noteq> None"
proof (cases "lf_w s")
  case W_ACCEPT
  then have "worker_step nc (WI_ACCEPT (-1)) s \<noteq> None" by simp
  then show ?thesis by blast
next
  case (W_FIRST fd)
  then have "worker_step nc (WI_READY True) s \<noteq> None" by simp
  then show ?thesis by blast
next
  case (W_SYNC fd n)
  then have "worker_step nc (WI_READY True) s \<noteq> None" by simp
  then show ?thesis by blast
next
  case (W_CHECK fd)
  then have "worker_step nc (WI_READY True) s \<noteq> None" by simp
  then show ?thesis by blast
next
  case (W_START fd)
  then have "worker_step nc (WI_OK True) s \<noteq> None" by (simp add: called_def)
  then show ?thesis by blast
next
  case (W_NET fd)
  then have "worker_step nc (WI_OK True) s \<noteq> None" by simp
  then show ?thesis by blast
qed (auto simp: Let_def intro!: exI [of _ WI_STEP])


section \<open>The whole life\<close>

lemma done_clean:
  assumes "life_ok scr port s" "lf_c s = C_DONE"
  shows "\<forall>fd. lf_fds s fd \<noteq> Some SESSION" "count_list (lf_calls s) (SN_START scr) = count_list (lf_calls s) (SN_STOP scr)"
    "count_list (lf_calls s) (SN_DELETE scr) = 1" "lf_calls s \<noteq> []" "last (lf_calls s) = SN_DELETE scr"
  using assms by (simp_all add: life_ok_def fds_ok_def closed_up_def)

text \<open>A phone that connects while the session is torn down, and the number of the listener given out again.\<close>

definition race :: "altscreen_state \<Rightarrow> int \<Rightarrow> listen_try \<Rightarrow> listen_try \<Rightarrow> life_act list" where
  "race x fd t6 t4 = [L_CLEAN CI_STEP, L_WORKER (WI_ACCEPT fd), L_WORKER WI_STEP, L_OPEN (as_listen_fd x), L_CLEAN CI_STEP,
     L_CLEAN (CI_WAKE t6 t4), L_CLEAN CI_STEP]"

lemma race_run:
  assumes "prepared x" "fds (as_listen_fd x) = None" "fd \<ge> 0" "fd \<noteq> as_listen_fd x" "fds fd = None"
    "\<not> fst (wake_listener (as_data_port x) t6 t4)"
  shows "\<exists>s. life_run nc (race x fd t6 t4) (born x fds cs) = Some s \<and> lf_bad s = [as_listen_fd x] \<and>
    lf_fds s (as_listen_fd x) = None"
  using assms
  by (auto simp: race_def born_def prepared_def called_def close_fd_def copy_slot_def Let_def split: prod.splits)

lemma race_before:
  assumes "prepared x" "fds (as_listen_fd x) = None" "fd \<ge> 0" "fd \<noteq> as_listen_fd x" "fds fd = None"
    "\<not> fst (wake_listener (as_data_port x) t6 t4)"
  shows "\<exists>s. life_run nc (butlast (race x fd t6 t4)) (born x fds cs) = Some s \<and> lf_fds s (as_listen_fd x) = Some OTHERS"
  using assms
  by (auto simp: race_def born_def prepared_def called_def close_fd_def copy_slot_def Let_def split: prod.splits)

section \<open>What a failed preparation leaves behind\<close>

fun opened :: "session_call list \<Rightarrow> int list" where
  "opened [] = []"
| "opened (SN_SOCKET fd # cs) = fd # opened cs"
| "opened (c # cs) = opened cs"

fun closed :: "session_call list \<Rightarrow> int list" where
  "closed [] = []"
| "closed (SN_CLOSE fd # cs) = fd # closed cs"
| "closed (c # cs) = closed cs"

lemma opened_append [simp]: "opened (cs @ ds) = opened cs @ opened ds"
  by (induction cs rule: opened.induct) simp_all

lemma closed_append [simp]: "closed (cs @ ds) = closed cs @ closed ds"
  by (induction cs rule: closed.induct) simp_all

lemma listener_fds:
  "open_listener t6 t4 = (res, cs) \<Longrightarrow>
     (case res of None \<Rightarrow> opened cs = closed cs
      | Some (fd, port) \<Rightarrow> opened cs = closed cs @ [fd] \<and> fd \<ge> 0 \<and> port \<noteq> 0) \<and>
     (\<forall>s. count_list cs (SN_CREATE s) = 0 \<and> count_list cs (SN_DELETE s) = 0)"
  by (auto simp: open_listener_def Let_def split: if_splits)


lemma register_unregister:
  assumes "registry_ok ao" "s \<noteq> NULL" "s \<notin> screens ao" "altscreen_register_session s ao = (True, ao1)"
  shows "registry_ok ao1 \<and> screens ao1 = insert s (screens ao) \<and> screens (altscreen_unregister_session s ao1) = screens ao \<and>
    registry_ok (altscreen_unregister_session s ao1)"
proof -
  have 1: "registry_ok ao1" "screens ao1 = insert s (screens ao)"
    using screen_refines [OF assms(1), of "R_ADD s"] assms(2,4) by (auto split: if_splits)
  from screen_refines [OF this(1), of "R_DEL s"] 1 assms(3) show ?thesis by auto
qed

text \<open>Slots that are not in use are empty.\<close>

definition unused_empty :: "alt_globals \<Rightarrow> bool" where
  "unused_empty g \<longleftrightarrow> length (ag_states g) = 4 \<and> (\<forall>j < 4. \<not> as_active (slot g j) \<longrightarrow> slot g j = zero_session)"

lemma alloc_slot:
  assumes "alloc_state_locked receiver g = (Some i, g')" "unused_empty g"
  shows "i < 4" "slot g i = zero_session" "length (ag_states g') = 4"
    "slot g' j = (if j = i then new_slot receiver (ag_generation_serial g + 1) else slot g j)"
  using assms by (auto simp: alloc_state_locked_def unused_empty_def Let_def dest!: find_upt_SomeD split: if_splits option.splits)

lemma control_thread_slots [simp]:
  "ag_states (ensure_view_worker_started b g) = ag_states g" "slot (ensure_view_worker_started b g) j = slot g j"
  by (simp_all add: ensure_view_worker_started_def)

definition same_slots :: "alt_globals \<Rightarrow> alt_globals \<Rightarrow> bool" where
  "same_slots g g' \<longleftrightarrow> length (ag_states g') = 4 \<and> (\<forall>j < 4. slot g' j = slot g j)"

text \<open>Everything that a preparation has taken is given back when it fails, and is the session's when it succeeds.\<close>

definition prepare_ok :: "ptr \<Rightarrow> (u16 \<times> nat) option \<times> session_call list \<times> alt_globals \<times> alt_output \<Rightarrow> alt_globals \<Rightarrow> alt_output \<Rightarrow> bool" where
  "prepare_ok screen res g ao \<longleftrightarrow> (case res of
     (None, cs, g', ao') \<Rightarrow> same_slots g g' \<and> screens ao' = screens ao \<and> registry_ok ao' \<and> opened cs = closed cs \<and>
       count_list cs (SN_DELETE screen) = count_list cs (SN_CREATE screen)
   | (Some (port, i), cs, g', ao') \<Rightarrow> i < 4 \<and> port \<noteq> 0 \<and> screens ao' = insert screen (screens ao) \<and> registry_ok ao' \<and>
       opened cs = closed cs @ [as_listen_fd (slot g' i)] \<and> count_list cs (SN_DELETE screen) = 0 \<and> no_screen_calls cs \<and>
       prepared (slot g' i) \<and> as_screen (slot g' i) = screen \<and> as_data_port (slot g' i) = port \<and>
       (\<forall>j < 4. j \<noteq> i \<longrightarrow> slot g' j = slot g j))"

lemma prepare_fail_ok:
  assumes "prepare_fail i screen g1 = (ds, g2)" "i < 4" "slot g i = zero_session" "length (ag_states g1) = 4" "length (ag_states g) = 4"
    "\<forall>j < 4. j \<noteq> i \<longrightarrow> slot g1 j = slot g j"
  shows "same_slots g g2" "ds = (if screen \<noteq> NULL then [SN_DELETE screen] else [])"
  using assms by (auto simp: prepare_fail_def same_slots_def clear_session_def)


lemma failed_prepare:
  assumes "i < 4" "slot g i = zero_session" "length (ag_states g1) = 4" "length (ag_states g) = 4"
    "\<forall>j < 4. j \<noteq> i \<longrightarrow> slot g1 j = slot g j"
    "opened cs = closed cs" "count_list cs (SN_DELETE screen) = 0" "count_list cs (SN_CREATE screen) = of_bool (screen \<noteq> NULL)"
    "screens ao1 = screens ao" "registry_ok ao1"
  shows "prepare_ok screen (let (ds, g2) = prepare_fail i screen g1 in (None, cs @ ds, g2, ao1)) g ao"
proof -
  obtain ds g2 where f: "prepare_fail i screen g1 = (ds, g2)" by fastforce
  from prepare_fail_ok [OF f assms(1-5)] assms(6-10) show ?thesis
    by (auto simp: f prepare_ok_def)
qed

lemma prepare_result:
  assumes "unused_empty g" "registry_ok ao" "pe_screen pe \<notin> screens ao"
  shows "prepare_ok (pe_screen pe) (prepare_altscreen pe r receiver g ao) g ao"
proof (cases "pe_connection pe = None \<or> pe_connection pe = Some 0 \<or> \<not> altscreen_aes_ready r ao \<or> fst (alloc_state_locked receiver g) = None")
  case True
  have "same_slots g g" using assms(1) by (simp add: same_slots_def unused_empty_def)
  moreover have "alloc_state_locked receiver g = (None, g)" if "fst (alloc_state_locked receiver g) = None"
    using that by (auto simp: alloc_state_locked_def Let_def split: if_splits option.splits)
  ultimately show ?thesis
    using True assms(2) by (auto simp: prepare_altscreen_def prepare_ok_def split: option.splits prod.splits)
next
  case False
  let ?scr = "pe_screen pe"
  obtain conn where c: "pe_connection pe = Some conn" "conn \<noteq> 0" "altscreen_aes_ready r ao" using False by auto
  obtain i g1 where a: "alloc_state_locked receiver g = (Some i, g1)" using False by (metis option.collapse prod.collapse)
  let ?g = "ensure_view_worker_started (pe_control_thread pe) g1"
  note al = alloc_slot [OF a assms(1)]
  have len: "length (ag_states g) = 4" using assms(1) by (simp add: unused_empty_def)
  have sl: "length (ag_states ?g) = 4" "\<forall>j < 4. j \<noteq> i \<longrightarrow> slot ?g j = slot g j" using al(3,4) by simp_all
  note fail = failed_prepare [OF al(1,2) sl(1) len sl(2), where screen = ?scr]
  note unf = prepare_altscreen_def c(1) option.case Let_def a prod.case
  show ?thesis
  proof (cases "pe_create pe \<noteq> 0 \<or> ?scr = NULL")
    case True
    have "prepare_altscreen pe r receiver g ao =
        (let (ds, g2) = prepare_fail i ?scr ?g in (None, (if ?scr = NULL then [] else [SN_CREATE ?scr]) @ ds, g2, ao))"
      using True c by (simp add: unf)
    then show ?thesis using fail [of "if ?scr = NULL then [] else [SN_CREATE ?scr]" ao ao] assms(2) by simp
  next
    case created: False
    show ?thesis
    proof (cases "pe_setup pe \<noteq> 0 \<or> \<not> fst (altscreen_derive_aes r conn True ao)")
      case True
      have "prepare_altscreen pe r receiver g ao =
          (let (ds, g2) = prepare_fail i ?scr ?g in (None, [SN_CREATE ?scr, SN_SETUP ?scr] @ ds, g2, ao))"
        using True created c by (auto simp: unf)
      then show ?thesis using fail [of "[SN_CREATE ?scr, SN_SETUP ?scr]" ao ao] assms(2) created by simp
    next
      case set_up: False
      let ?sec = "[SN_CREATE ?scr, SN_SETUP ?scr, SN_DERIVE conn, SN_SECURITY ?scr]"
      obtain ok ao1 where reg: "altscreen_register_session ?scr ao = (ok, ao1)" by fastforce
      show ?thesis
      proof (cases "pe_security pe \<noteq> 0 \<or> \<not> ok")
        case True
        have ao1: "ao1 = ao" if "\<not> ok" using reg that by (auto simp: altscreen_register_session_def split: if_splits option.splits)
        have "prepare_altscreen pe r receiver g ao =
            (let (ds, g2) = prepare_fail i ?scr ?g in (None, ?sec @ ds, g2, ao))"
          using True created set_up c reg ao1 by (auto simp: unf)
        then show ?thesis using fail [of ?sec ao ao] assms(2) created by simp
      next
        case secured: False
        have ru: "registry_ok ao1" "screens ao1 = insert ?scr (screens ao)" "screens (altscreen_unregister_session ?scr ao1) = screens ao"
          "registry_ok (altscreen_unregister_session ?scr ao1)"
          using register_unregister [OF assms(2) _ assms(3), of ao1] created secured reg by auto
        obtain res ls where ol: "open_listener (pe_try6 pe) (pe_try4 pe) = (res, ls)" by fastforce
        note lf = listener_fds [OF ol]
        show ?thesis
        proof (cases res)
          case None
          have "prepare_altscreen pe r receiver g ao =
              (let (ds, g2) = prepare_fail i ?scr ?g in (None, (?sec @ ls) @ ds, g2, altscreen_unregister_session ?scr ao1))"
            using created set_up secured c reg ol None by (simp add: unf)
          then show ?thesis using fail [of "?sec @ ls" "altscreen_unregister_session ?scr ao1" ao] ru lf None created by simp
        next
          case (Some fp)
          obtain fd port where fp: "res = Some (fd, port)" using Some by (cases fp) auto
          let ?g2 = "on_slot i (\<lambda>s. s\<lparr>as_screen := ?scr, as_connection_id := conn, as_listen_fd := fd, as_data_port := port\<rparr>) ?g"
          have g2: "length (ag_states ?g2) = 4" "\<forall>j < 4. j \<noteq> i \<longrightarrow> slot ?g2 j = slot g j" using sl al(1) by simp_all
          show ?thesis
          proof (cases "pe_thread pe = 0")
            case False
            let ?g3 = "on_slot i (\<lambda>s. s\<lparr>as_listen_fd := -1\<rparr>) ?g2"
            have g3: "length (ag_states ?g3) = 4" "\<forall>j < 4. j \<noteq> i \<longrightarrow> slot ?g3 j = slot g j" using g2 al(1) by simp_all
            have "prepare_altscreen pe r receiver g ao =
                (let (ds, g2) = prepare_fail i ?scr ?g3
                 in (None, (?sec @ ls @ [SN_THREAD, SN_CLOSE fd]) @ ds, g2, altscreen_unregister_session ?scr ao1))"
              using created set_up secured c reg ol fp False by (simp add: unf)
            then show ?thesis
              using failed_prepare [OF al(1,2) g3(1) len g3(2), where screen = ?scr,
                  of "?sec @ ls @ [SN_THREAD, SN_CLOSE fd]" "altscreen_unregister_session ?scr ao1" ao] ru lf fp created by simp
          next
            case True
            let ?g3 = "on_slot i (\<lambda>s. s\<lparr>as_worker := pe_worker pe, as_worker_started := True\<rparr>) ?g2"
            have "prepare_altscreen pe r receiver g ao = (Some (port, i), ?sec @ ls @ [SN_THREAD], ?g3, ao1)"
              using created set_up secured c reg ol fp True by (simp add: unf)
            moreover have "slot ?g3 i = (new_slot receiver (ag_generation_serial g + 1))\<lparr>as_screen := ?scr, as_connection_id := conn,
                as_listen_fd := fd, as_data_port := port, as_worker := pe_worker pe, as_worker_started := True\<rparr>"
              using al(1,3,4) by simp
            moreover have "no_screen_calls ls"
              using ol by (auto simp: open_listener_def no_screen_calls_def Let_def split: if_splits)
            ultimately show ?thesis
              using ru lf fp al(1) g2 created
              by (auto simp: prepare_ok_def prepared_def new_slot_def zero_session_def no_screen_calls_def)
          qed
        qed
      qed
    qed
  qed
qed


section \<open>Closed runs\<close>

definition demo_session :: altscreen_state where
  "demo_session = (new_slot 7 1)\<lparr>as_screen := 9, as_connection_id := 3, as_listen_fd := 5, as_data_port := 6000,
     as_worker := 2, as_worker_started := True\<rparr>"

definition demo_try :: "int \<Rightarrow> listen_try" where
  "demo_try fd = \<lparr>lt_fd = fd, lt_bound = fd \<ge> 0, lt_port = 6000\<rparr>"

text \<open>A teardown while the worker waits for the phone: the cleanup wakes it up.\<close>

definition demo_teardown :: "life_act list" where
  "demo_teardown = [L_CLEAN CI_STEP, L_CLEAN CI_STEP, L_CLEAN (CI_WAKE (demo_try 8) (demo_try (-1))),
     L_WORKER (WI_ACCEPT 10), L_WORKER WI_STEP, L_WORKER WI_STEP, L_WORKER WI_STEP,
     L_CLEAN CI_STEP, L_CLEAN CI_STEP, L_CLEAN CI_STEP, L_CLEAN CI_STEP, L_CLEAN CI_STEP]"

text \<open>The phone connects, the screen runs, and is torn down.\<close>

definition demo_played :: "life_act list" where
  "demo_played = [L_WORKER (WI_ACCEPT 8), L_WORKER WI_STEP, L_WORKER (WI_READY False), L_WORKER (WI_READY True),
     L_WORKER WI_STEP, L_WORKER (WI_READY True), L_WORKER (WI_OK True), L_WORKER WI_STEP, L_WORKER (WI_OK True), L_SHOW,
     L_CLEAN CI_STEP, L_WORKER WI_STEP, L_WORKER WI_STEP, L_WORKER WI_STEP, L_WORKER WI_STEP, L_WORKER WI_STEP,
     L_CLEAN CI_STEP, L_CLEAN CI_STEP, L_CLEAN CI_STEP, L_CLEAN CI_STEP, L_CLEAN CI_STEP, L_CLEAN CI_STEP]"

lemma demo_prepared: "prepared demo_session"
  by (simp add: prepared_def demo_session_def new_slot_def zero_session_def)

lemma demo_played_run:
  "\<exists>s. life_run True demo_played (born demo_session Map.empty []) = Some s \<and> lf_c s = C_DONE \<and>
     lf_calls s = [SN_START 9, SN_SHUTDOWN 8, SN_PROCESS 9, SN_STOP 9, SN_STOP_UI 7, SN_QUIT 9, SN_UNREGISTER 9, SN_DELETE 9]"
  by (simp add: demo_played_def born_def demo_session_def new_slot_def zero_session_def Let_def called_def close_fd_def copy_slot_def)

lemma demo_teardown_run:
  "\<exists>s. life_run True demo_teardown (born demo_session Map.empty []) = Some s \<and> lf_c s = C_DONE"
  by (simp add: demo_teardown_def born_def demo_session_def new_slot_def zero_session_def Let_def called_def close_fd_def copy_slot_def
      wake_listener_def demo_try_def)

end
