(* ===== verification/Cf_Library.thy ===== *)
theory Cf_Library
  imports Alt_Session "HOL-Library.State_Monad" "HOL-Library.Multiset"
begin

text \<open>
  The interface of the alternative-screen files to the object library of the head unit (CoreFoundation) and
  to the AirPlay library: an argument of the model, whose answers are functions of everything that was called
  before. The functions of the program are programs in the state monad over the list of the calls; here are the
  calls, the ledger of the references they create and release, and the rules to reason about it.
\<close>

section \<open>Calls\<close>

text \<open>
  The calls of the object library; then the command, setup and teardown calls of the AirPlay library, its
  requests for a property (a number says whose) and for the server information, and two functions of
  altscreen_session.c that are modelled in Alt_Session: the preparation and the cleanup of a session.
\<close>

datatype cf_call =
    CF_STRING string | CF_NUMBER int | CF_NEW_DICT | CF_NEW_ARRAY | CF_COPY_DICT ptr | CF_COPY_ARRAY ptr int
  | CF_TYPE ptr | CF_GET ptr ptr | CF_GET_I64 ptr ptr | CF_COUNT ptr | CF_AT ptr nat | CF_EQUAL ptr ptr | CF_KEYS ptr
  | CF_SET ptr ptr ptr | CF_SET_I64 ptr ptr int | CF_APPEND ptr ptr | CF_RELEASE ptr
  | CF_SEND ptr ptr | CF_SETUP bool ptr ptr | CF_TEARDOWN ptr ptr int | CF_PROPERTY nat ptr | CF_INFO
  | CF_PREPARE ptr ptr | CF_CLEANUP ptr

datatype cf_kind = K_DICT | K_ARRAY | K_OTHER

text \<open>A call with the reference it has returned, NULL for calls that return none; the last call comes first.\<close>

type_synonym cf_history = "(cf_call \<times> ptr) list"

type_synonym 'a cf = "(cf_history, 'a) state"

text \<open>
  cl_ref are the references, cl_num the numbers and results, cl_ok the truth values, cl_kind the types, cl_entry the
  entries of a dictionary; cl_memory is whether malloc succeeds, cl_true and cl_false are the two boolean objects. The flags are what resolve_api and resolve_cf
  have found: everything that is needed, the stock setup and teardown, SendCommand, CFNumberCreate, and the
  native copy of a dictionary. The flag of CF_SETUP is whether a response is asked for.
\<close>

record cf_lib =
  cl_ref :: "cf_history \<Rightarrow> cf_call \<Rightarrow> ptr"
  cl_num :: "cf_history \<Rightarrow> cf_call \<Rightarrow> int"
  cl_ok :: "cf_history \<Rightarrow> cf_call \<Rightarrow> bool"
  cl_kind :: "cf_history \<Rightarrow> ptr \<Rightarrow> cf_kind"
  cl_entry :: "cf_history \<Rightarrow> ptr \<Rightarrow> nat \<Rightarrow> ptr \<times> ptr"
  cl_memory :: "cf_history \<Rightarrow> bool"
  cl_true :: ptr
  cl_false :: ptr
  cl_ready :: bool
  cl_setup :: bool
  cl_teardown :: bool
  cl_command :: bool
  cl_number :: bool
  cl_native_copy :: bool

abbreviation ret :: "'a \<Rightarrow> 'a cf" where
  "ret \<equiv> State_Monad.return"

definition ask :: "cf_lib \<Rightarrow> cf_call \<Rightarrow> ptr cf" where
  "ask lib c = State (\<lambda>h. (cl_ref lib h c, (c, cl_ref lib h c) # h))"

definition ask_num :: "cf_lib \<Rightarrow> cf_call \<Rightarrow> int cf" where
  "ask_num lib c = State (\<lambda>h. (cl_num lib h c, (c, NULL) # h))"

definition ask_i64 :: "cf_lib \<Rightarrow> cf_call \<Rightarrow> (int \<times> bool) cf" where
  "ask_i64 lib c = State (\<lambda>h. ((cl_num lib h c, cl_ok lib h c), (c, NULL) # h))"

definition ask_ok :: "cf_lib \<Rightarrow> cf_call \<Rightarrow> bool cf" where
  "ask_ok lib c = State (\<lambda>h. (cl_ok lib h c, (c, NULL) # h))"

text \<open>A call that returns a status and hands out a reference.\<close>

definition ask_status :: "cf_lib \<Rightarrow> cf_call \<Rightarrow> (int \<times> ptr) cf" where
  "ask_status lib c = State (\<lambda>h. ((cl_num lib h c, cl_ref lib h c), (c, cl_ref lib h c) # h))"

definition tell :: "cf_call \<Rightarrow> unit cf" where
  "tell c = State (\<lambda>h. ((), (c, NULL) # h))"

definition memory_left :: "cf_lib \<Rightarrow> bool cf" where
  "memory_left lib = State (\<lambda>h. (cl_memory lib h, h))"

definition has_kind :: "cf_lib \<Rightarrow> cf_kind \<Rightarrow> ptr \<Rightarrow> bool cf" where
  "has_kind lib k p = (if p = NULL then ret False else State (\<lambda>h. (cl_kind lib h p = k, (CF_TYPE p, NULL) # h)))"

text \<open>CFDictionaryGetKeysAndValues for n entries.\<close>

definition entries :: "cf_lib \<Rightarrow> ptr \<Rightarrow> nat \<Rightarrow> (ptr \<times> ptr) list cf" where
  "entries lib p n = State (\<lambda>h. (map (cl_entry lib h p) [0..<n], (CF_KEYS p, NULL) # h))"

definition release_if :: "ptr \<Rightarrow> unit cf" where
  "release_if p = (if p \<noteq> NULL then tell (CF_RELEASE p) else ret ())"

section \<open>The ledger\<close>

text \<open>The calls whose result belongs to the caller.\<close>

fun creates :: "cf_call \<Rightarrow> bool" where
  "creates (CF_STRING s) = True" | "creates (CF_NUMBER n) = True" | "creates CF_NEW_DICT = True"
| "creates CF_NEW_ARRAY = True" | "creates (CF_COPY_DICT p) = True" | "creates (CF_COPY_ARRAY p n) = True"
| "creates (CF_SETUP w r q) = w" | "creates (CF_PROPERTY n q) = True" | "creates CF_INFO = True" | "creates _ = False"

definition own_ref :: "ptr \<Rightarrow> ptr multiset" where
  "own_ref p = (if p = NULL then {#} else {#p#})"

fun released :: "cf_call \<Rightarrow> ptr option" where
  "released (CF_RELEASE p) = Some p" | "released _ = None"

lemma own_simps [simp]: "own_ref NULL = {#}" "p \<noteq> NULL \<Longrightarrow> own_ref p = {#p#}"
  by (simp_all add: own_ref_def)

text \<open>The object that a call changes.\<close>

fun changes :: "cf_call \<Rightarrow> ptr option" where
  "changes (CF_SET d k v) = Some d" | "changes (CF_SET_I64 d k n) = Some d" | "changes (CF_APPEND a v) = Some a" | "changes _ = None"

text \<open>
  The references held after a history. A sound history releases only references that are held; a strict one
  also changes only objects that are held, and so leaves alone everything that it was given.
\<close>

fun held_refs :: "cf_history \<Rightarrow> ptr multiset" where
  "held_refs [] = {#}"
| "held_refs ((c, p) # h) = (case released c of Some q \<Rightarrow> held_refs h - {#q#} | None \<Rightarrow> if creates c then held_refs h + own_ref p else held_refs h)"

fun sound :: "bool \<Rightarrow> cf_history \<Rightarrow> bool" where
  "sound strict [] = True"
| "sound strict ((c, p) # h) = (sound strict h \<and> (case released c of Some q \<Rightarrow> q \<in># held_refs h | None \<Rightarrow> True) \<and>
     (strict \<longrightarrow> set_option (changes c) \<subseteq> set_mset (held_refs h)))"

text \<open>Weakest preconditions over the result and the history.\<close>

definition wp :: "'a cf \<Rightarrow> ('a \<Rightarrow> cf_history \<Rightarrow> bool) \<Rightarrow> cf_history \<Rightarrow> bool" where
  "wp m Q h = (case run_state m h of (x, h') \<Rightarrow> Q x h')"

lemma wp_ret [simp]: "wp (ret x) Q h = Q x h"
  by (simp add: wp_def)

lemma wp_bind [simp]: "wp (m \<bind> f) Q h = wp m (\<lambda>x h'. wp (f x) Q h') h"
  by (simp add: wp_def split: prod.split)

lemma wp_mono: "wp m P h \<Longrightarrow> (\<And>x h'. P x h' \<Longrightarrow> Q x h') \<Longrightarrow> wp m Q h"
  by (simp add: wp_def case_prod_unfold)

lemma wpD: "wp m Q h \<Longrightarrow> run_state m h = (x, h') \<Longrightarrow> Q x h'"
  by (simp add: wp_def)

text \<open>
  A program that gives an amount: it releases only what is held, and afterwards holds this much more. All other
  references it has created are released again. A strict program moreover changes only what is held.
\<close>

definition amounts :: "bool \<Rightarrow> 'a cf \<Rightarrow> ('a \<Rightarrow> ptr multiset) \<Rightarrow> bool" where
  "amounts strict m amount \<longleftrightarrow>
     (\<forall>h. sound strict h \<longrightarrow> wp m (\<lambda>x h'. sound strict h' \<and> held_refs h' = held_refs h + amount x) h)"

abbreviation gives :: "'a cf \<Rightarrow> ('a \<Rightarrow> ptr multiset) \<Rightarrow> bool" where
  "gives \<equiv> amounts False"

abbreviation balanced :: "'a cf \<Rightarrow> bool" where
  "balanced m \<equiv> gives m (\<lambda>_. {#})"

lemma amountsD:
  assumes "amounts b m amount" "sound b h" "\<And>x h'. sound b h' \<Longrightarrow> held_refs h' = held_refs h + amount x \<Longrightarrow> Q x h'"
  shows "wp m Q h"
  by (rule wp_mono [of m "\<lambda>x h'. sound b h' \<and> held_refs h' = held_refs h + amount x"])
    (use assms in \<open>auto simp: amounts_def\<close>)

lemma amountsI:
  "(\<And>h. sound b h \<Longrightarrow> wp m (\<lambda>x h'. sound b h' \<and> held_refs h' = held_refs h + amount x) h) \<Longrightarrow> amounts b m amount"
  by (simp add: amounts_def)

text \<open>
  The rules for wp, in the form in which auto applies them: a sound history, and what holds afterwards. They
  are collected twice, for histories that are sound and for strict ones.
\<close>

named_theorems ledger
named_theorems strict_ledger

lemmas givesI = amountsI [where b = False]
lemmas givesD = amountsD [where b = False]
lemmas strictI = amountsI [where b = True]
lemmas strictD = amountsD [where b = True]

text \<open>What a call that returns p adds to what is held.\<close>

definition added :: "cf_call \<Rightarrow> ptr \<Rightarrow> ptr multiset" where
  "added c p = (if creates c then own_ref p else {#})"

lemma added_simps [simp]:
  "added (CF_STRING s) p = own_ref p" "added (CF_NUMBER i) p = own_ref p" "added CF_NEW_DICT p = own_ref p" "added CF_NEW_ARRAY p = own_ref p"
  "added (CF_COPY_DICT q) p = own_ref p" "added (CF_COPY_ARRAY q i) p = own_ref p" "added (CF_SETUP w q r) p = (if w then own_ref p else {#})"
  "added (CF_PROPERTY n q) p = own_ref p" "added CF_INFO p = own_ref p"
  "added (CF_TYPE q) p = {#}" "added (CF_GET q r) p = {#}" "added (CF_GET_I64 q r) p = {#}" "added (CF_COUNT q) p = {#}"
  "added (CF_AT q n) p = {#}" "added (CF_EQUAL q r) p = {#}" "added (CF_KEYS q) p = {#}" "added (CF_SET q r t) p = {#}"
  "added (CF_SET_I64 q r i) p = {#}" "added (CF_APPEND q r) p = {#}" "added (CF_SEND q r) p = {#}"
  "added (CF_TEARDOWN q r i) p = {#}" "added (CF_PREPARE q r) p = {#}" "added (CF_CLEANUP q) p = {#}"
  by (simp_all add: added_def)

lemma held_call: "released c = None \<Longrightarrow> held_refs ((c, p) # h) = held_refs h + added c p"
  "released c = None \<Longrightarrow> changes c = None \<Longrightarrow> sound b ((c, p) # h) = sound b h"
  by (simp_all add: added_def)

lemma wp_calls:
  "\<lbrakk>sound b h; released c = None; changes c = None; \<And>p h'. sound b h' \<Longrightarrow> held_refs h' = held_refs h + added c p \<Longrightarrow> Q p h'\<rbrakk> \<Longrightarrow>
     wp (ask lib c) Q h"
  "\<lbrakk>sound b h; released c = None; changes c = None; \<And>rc p h'. sound b h' \<Longrightarrow> held_refs h' = held_refs h + added c p \<Longrightarrow> S (rc, p) h'\<rbrakk> \<Longrightarrow>
     wp (ask_status lib c) S h"
  by (simp_all add: wp_def ask_def ask_status_def held_call del: held_refs.simps sound.simps)

lemma wp_questions:
  "\<lbrakk>sound b h; released c = None; \<not> creates c; b \<longrightarrow> set_option (changes c) \<subseteq> set_mset (held_refs h);
    \<And>n h'. sound b h' \<Longrightarrow> held_refs h' = held_refs h \<Longrightarrow> Q n h'\<rbrakk> \<Longrightarrow> wp (ask_num lib c) Q h"
  "\<lbrakk>sound b h; released c = None; \<not> creates c; changes c = None; \<And>n v h'. sound b h' \<Longrightarrow> held_refs h' = held_refs h \<Longrightarrow> R (n, v) h'\<rbrakk> \<Longrightarrow>
     wp (ask_i64 lib c) R h"
  "\<lbrakk>sound b h; released c = None; \<not> creates c; changes c = None; \<And>v h'. sound b h' \<Longrightarrow> held_refs h' = held_refs h \<Longrightarrow> S v h'\<rbrakk> \<Longrightarrow>
     wp (ask_ok lib c) S h"
  by (simp_all add: wp_def ask_num_def ask_i64_def ask_ok_def)

text \<open>What is held after a call without a result.\<close>

lemma wp_tell:
  "\<lbrakk>sound b h; \<not> creates c; set_option (released c) \<subseteq> set_mset (held_refs h); b \<longrightarrow> set_option (changes c) \<subseteq> set_mset (held_refs h);
    \<And>h'. sound b h' \<Longrightarrow> held_refs h' = held_refs h - (case released c of Some p \<Rightarrow> {#p#} | None \<Rightarrow> {#}) \<Longrightarrow> Q () h'\<rbrakk> \<Longrightarrow>
     wp (tell c) Q h"
  by (cases "released c") (simp_all add: wp_def tell_def)

lemma wp_release_if:
  "\<lbrakk>sound b h; own_ref p \<subseteq># held_refs h; \<And>h'. sound b h' \<Longrightarrow> held_refs h' = held_refs h - own_ref p \<Longrightarrow> Q () h'\<rbrakk> \<Longrightarrow>
     wp (release_if p) Q h"
  by (auto simp: release_if_def own_ref_def intro!: wp_tell [where b = b])

lemma wp_has_kind:
  "\<lbrakk>sound b h; \<And>v h'. sound b h' \<Longrightarrow> held_refs h' = held_refs h \<Longrightarrow> (v \<Longrightarrow> p \<noteq> NULL) \<Longrightarrow> Q v h'\<rbrakk> \<Longrightarrow> wp (has_kind lib k p) Q h"
  by (simp add: wp_def has_kind_def held_call added_def del: held_refs.simps sound.simps)

lemma wp_entries:
  "\<lbrakk>sound b h; \<And>es h'. sound b h' \<Longrightarrow> held_refs h' = held_refs h \<Longrightarrow> Q es h'\<rbrakk> \<Longrightarrow> wp (entries lib p n) Q h"
  by (simp add: wp_def entries_def held_call added_def del: held_refs.simps sound.simps)

lemma wp_memory_left [ledger, strict_ledger]: "(\<And>v. Q v h) \<Longrightarrow> wp (memory_left lib) Q h"
  by (simp add: wp_def memory_left_def)

lemmas [ledger] = wp_calls [where b = False] wp_questions [where b = False] wp_tell [where b = False]
  wp_release_if [where b = False] wp_has_kind [where b = False] wp_entries [where b = False]
lemmas [strict_ledger] = wp_calls [where b = True] wp_questions [where b = True] wp_tell [where b = True]
  wp_release_if [where b = True] wp_has_kind [where b = True] wp_entries [where b = True]

section \<open>Helpers of both files\<close>

text \<open>
  altscreen_session.c and altscreen_airplay.c have their own copies of these functions, with the same lines.
\<close>

definition cfs :: "cf_lib \<Rightarrow> string \<Rightarrow> ptr cf" where
  "cfs lib s = ask lib (CF_STRING s)"

definition is_array :: "cf_lib \<Rightarrow> ptr \<Rightarrow> bool cf" where
  "is_array lib obj = has_kind lib K_ARRAY obj"

definition is_dict :: "cf_lib \<Rightarrow> ptr \<Rightarrow> bool cf" where
  "is_dict lib obj = has_kind lib K_DICT obj"

definition new_dict :: "cf_lib \<Rightarrow> ptr cf" where
  "new_dict lib = ask lib CF_NEW_DICT"

definition new_array :: "cf_lib \<Rightarrow> ptr cf" where
  "new_array lib = ask lib CF_NEW_ARRAY"

lemma wp_helpers:
  "\<lbrakk>sound b h; \<And>p h'. sound b h' \<Longrightarrow> held_refs h' = held_refs h + own_ref p \<Longrightarrow> Q p h'\<rbrakk> \<Longrightarrow> wp (cfs lib s) Q h"
  "\<lbrakk>sound b h; \<And>p h'. sound b h' \<Longrightarrow> held_refs h' = held_refs h + own_ref p \<Longrightarrow> Q p h'\<rbrakk> \<Longrightarrow> wp (new_dict lib) Q h"
  "\<lbrakk>sound b h; \<And>p h'. sound b h' \<Longrightarrow> held_refs h' = held_refs h + own_ref p \<Longrightarrow> Q p h'\<rbrakk> \<Longrightarrow> wp (new_array lib) Q h"
  "\<lbrakk>sound b h; \<And>v h'. sound b h' \<Longrightarrow> held_refs h' = held_refs h \<Longrightarrow> (v \<Longrightarrow> obj \<noteq> NULL) \<Longrightarrow> R v h'\<rbrakk> \<Longrightarrow> wp (is_array lib obj) R h"
  "\<lbrakk>sound b h; \<And>v h'. sound b h' \<Longrightarrow> held_refs h' = held_refs h \<Longrightarrow> (v \<Longrightarrow> obj \<noteq> NULL) \<Longrightarrow> R v h'\<rbrakk> \<Longrightarrow> wp (is_dict lib obj) R h"
  by (auto simp: cfs_def new_dict_def new_array_def is_array_def is_dict_def intro!: wp_calls [where b = b] wp_has_kind [where b = b])

lemmas [ledger] = wp_helpers [where b = False]
lemmas [strict_ledger] = wp_helpers [where b = True]

text \<open>
  A copy of the entries one after the other, which both files have as a function (dict_mutable_copy_compat,
  clone_dict_manual); the allocations in it are freed on every path.
\<close>

fun set_entries :: "ptr \<Rightarrow> (ptr \<times> ptr) list \<Rightarrow> unit cf" where
  "set_entries out [] = ret ()"
| "set_entries out ((k, v) # es) = do { tell (CF_SET out k v); set_entries out es }"

definition copy_entries :: "cf_lib \<Rightarrow> (ptr \<Rightarrow> (ptr \<times> ptr) list \<Rightarrow> unit cf) \<Rightarrow> ptr \<Rightarrow> ptr cf" where
  "copy_entries lib put source = do {
     out \<leftarrow> new_dict lib;
     if out = NULL then ret NULL
     else do {
       n \<leftarrow> ask_num lib (CF_COUNT source);
       if n \<le> 0 then ret out
       else do {
         memory \<leftarrow> memory_left lib;
         if \<not> memory then do { tell (CF_RELEASE out); ret NULL }
         else do { es \<leftarrow> entries lib source (nat n); put out es; ret out } } } }"

definition dict_mutable_copy_compat :: "cf_lib \<Rightarrow> ptr \<Rightarrow> ptr cf" where
  "dict_mutable_copy_compat lib source =
     (if source = NULL then ret NULL else copy_entries lib set_entries source)"

text \<open>A program that changes one object besides what it creates, and holds what it held.\<close>

definition edits :: "ptr \<Rightarrow> 'a cf \<Rightarrow> bool" where
  "edits d m \<longleftrightarrow>
     (\<forall>h. sound True h \<longrightarrow> d \<in># held_refs h \<longrightarrow> wp m (\<lambda>x h'. sound True h' \<and> held_refs h' = held_refs h) h)"

lemma editsD:
  assumes "edits d m" "sound True h" "d \<in># held_refs h" "\<And>x h'. sound True h' \<Longrightarrow> held_refs h' = held_refs h \<Longrightarrow> Q x h'"
  shows "wp m Q h"
  by (rule wp_mono [of m "\<lambda>x h'. sound True h' \<and> held_refs h' = held_refs h"]) (use assms in \<open>auto simp: edits_def\<close>)

lemma editsI:
  "(\<And>h. sound True h \<Longrightarrow> d \<in># held_refs h \<Longrightarrow> wp m (\<lambda>x h'. sound True h' \<and> held_refs h' = held_refs h) h) \<Longrightarrow> edits d m"
  by (simp add: edits_def)

lemma set_entries_gives: "balanced (set_entries out es)" "edits out (set_entries out es)"
proof -
  show "balanced (set_entries out es)"
  proof (induction out es rule: set_entries.induct)
    case (2 out k v es)
    show ?case by (auto intro!: givesI ledger givesD [OF 2])
  qed (auto intro!: givesI)
  show "edits out (set_entries out es)"
  proof (induction out es rule: set_entries.induct)
    case (2 out k v es)
    show ?case by (auto intro!: editsI strict_ledger editsD [OF 2])
  qed (auto intro!: editsI)
qed

lemma copy_entries_gives:
  "(\<And>out es. balanced (put out es)) \<Longrightarrow> gives (copy_entries lib put source) own_ref"
  "(\<And>out es. edits out (put' out es)) \<Longrightarrow> amounts True (copy_entries lib put' source) own_ref"
proof -
  assume put: "\<And>out es. balanced (put out es)"
  show "gives (copy_entries lib put source) own_ref"
    by (auto simp: copy_entries_def intro!: givesI ledger givesD [OF put])
next
  assume put: "\<And>out es. edits out (put' out es)"
  show "amounts True (copy_entries lib put' source) own_ref"
    by (auto simp: copy_entries_def intro!: strictI strict_ledger editsD [OF put])
qed

lemmas wp_copy_entries [ledger] = givesD [OF copy_entries_gives(1) [OF set_entries_gives(1)]]

lemma dict_mutable_copy_compat_gives: "gives (dict_mutable_copy_compat lib source) own_ref"
  by (auto simp: dict_mutable_copy_compat_def intro!: givesI ledger)

lemmas wp_dict_mutable_copy_compat [ledger] = givesD [OF dict_mutable_copy_compat_gives]

end
