(* ===== verification/Alt_Requests.thy ===== *)
theory Alt_Requests
  imports Cf_Library
begin

text \<open>
  altscreen/native/altscreen_session.c: the dictionaries. The response to SETUP, the requests that are passed on
  to the stock functions, and the commands to the phone, over the library of Cf_Library.
\<close>

section \<open>Helpers\<close>

text \<open>g_api.dict_mutable_copy is the function of the library, or the replacement when there is none.\<close>

definition dict_mutable_copy :: "cf_lib \<Rightarrow> ptr \<Rightarrow> ptr cf" where
  "dict_mutable_copy lib source =
     (if cl_native_copy lib then ask lib (CF_COPY_DICT source) else dict_mutable_copy_compat lib source)"

definition dict_get :: "cf_lib \<Rightarrow> ptr \<Rightarrow> string \<Rightarrow> ptr cf" where
  "dict_get lib dict name =
     (if dict = NULL then ret NULL
      else do {
        key \<leftarrow> cfs lib name;
        if key = NULL then ret NULL
        else do { v \<leftarrow> ask lib (CF_GET dict key); tell (CF_RELEASE key); ret v } })"

definition dict_get_i64 :: "cf_lib \<Rightarrow> ptr \<Rightarrow> string \<Rightarrow> (int \<times> bool) cf" where
  "dict_get_i64 lib dict name = do {
     key \<leftarrow> cfs lib name;
     if key = NULL then ret (0, False)
     else do { v \<leftarrow> ask_i64 lib (CF_GET_I64 dict key); tell (CF_RELEASE key); ret v } }"

definition dict_set_obj :: "cf_lib \<Rightarrow> ptr \<Rightarrow> string \<Rightarrow> ptr \<Rightarrow> bool cf" where
  "dict_set_obj lib dict name v =
     (if dict = NULL \<or> v = NULL then ret False
      else do {
        key \<leftarrow> cfs lib name;
        if key = NULL then ret False
        else do { tell (CF_SET dict key v); tell (CF_RELEASE key); ret True } })"

definition dict_set_i64 :: "cf_lib \<Rightarrow> ptr \<Rightarrow> string \<Rightarrow> int \<Rightarrow> bool cf" where
  "dict_set_i64 lib dict name v = do {
     key \<leftarrow> cfs lib name;
     if key = NULL then ret False
     else do { rc \<leftarrow> ask_num lib (CF_SET_I64 dict key v); tell (CF_RELEASE key); ret (rc = 0) } }"

definition dict_set_string :: "cf_lib \<Rightarrow> ptr \<Rightarrow> string \<Rightarrow> string \<Rightarrow> bool cf" where
  "dict_set_string lib dict name v = do {
     s \<leftarrow> cfs lib v;
     if s = NULL then ret False
     else do { ok \<leftarrow> dict_set_obj lib dict name s; tell (CF_RELEASE s); ret ok } }"

text \<open>The indices that a loop up to the count of an array runs through.\<close>

definition array_indices :: "cf_lib \<Rightarrow> ptr \<Rightarrow> nat list cf" where
  "array_indices lib a = do { n \<leftarrow> ask_num lib (CF_COUNT a); ret [0..<nat n] }"

fun find_string :: "cf_lib \<Rightarrow> ptr \<Rightarrow> ptr \<Rightarrow> nat list \<Rightarrow> bool cf" where
  "find_string lib a needle [] = ret False"
| "find_string lib a needle (i # is) = do {
     item \<leftarrow> ask lib (CF_AT a i);
     same \<leftarrow> (if item \<noteq> NULL then ask_ok lib (CF_EQUAL item needle) else ret False);
     if same then ret True else find_string lib a needle is }"

definition array_contains_string :: "cf_lib \<Rightarrow> ptr \<Rightarrow> string \<Rightarrow> bool cf" where
  "array_contains_string lib a v = do {
     arr \<leftarrow> is_array lib a;
     if \<not> arr then ret False
     else do {
       needle \<leftarrow> cfs lib v;
       if needle = NULL then ret False
       else do {
         is \<leftarrow> array_indices lib a;
         found \<leftarrow> find_string lib a needle is;
         tell (CF_RELEASE needle);
         ret found } } }"

definition set_reference_enabled_features :: "cf_lib \<Rightarrow> ptr \<Rightarrow> bool cf" where
  "set_reference_enabled_features lib response = do {
     d \<leftarrow> is_dict lib response;
     if \<not> d then ret False
     else do {
       features \<leftarrow> new_array lib;
       alt \<leftarrow> cfs lib ''altScreen'';
       views \<leftarrow> cfs lib ''viewAreas'';
       ok \<leftarrow> (if features = NULL \<or> alt = NULL \<or> views = NULL then ret False
              else do {
                tell (CF_APPEND features alt);
                tell (CF_APPEND features views);
                dict_set_obj lib response ''enabledFeatures'' features });
       release_if views;
       release_if alt;
       release_if features;
       ret ok } }"

definition clone_response_with_reference_features :: "cf_lib \<Rightarrow> ptr \<Rightarrow> ptr cf" where
  "clone_response_with_reference_features lib stock_response = do {
     d \<leftarrow> is_dict lib stock_response;
     if \<not> d then ret NULL
     else do {
       response \<leftarrow> dict_mutable_copy lib stock_response;
       if response = NULL then ret NULL
       else do {
         ok \<leftarrow> set_reference_enabled_features lib response;
         if \<not> ok then do { tell (CF_RELEASE response); ret NULL } else ret response } } }"

section \<open>Streams\<close>

abbreviation AIRPLAY_STREAM_TYPE_ALT_SCREEN :: int where "AIRPLAY_STREAM_TYPE_ALT_SCREEN \<equiv> 111"

text \<open>The type of a stream descriptor; no type is read when it is not a dictionary.\<close>

definition stream_type :: "cf_lib \<Rightarrow> ptr \<Rightarrow> (int \<times> bool) cf" where
  "stream_type lib desc = do {
     d \<leftarrow> is_dict lib desc;
     if d then dict_get_i64 lib desc ''type'' else ret (0, False) }"

fun visit_streams :: "cf_lib \<Rightarrow> ptr \<Rightarrow> nat list \<Rightarrow> unit cf" where
  "visit_streams lib streams [] = ret ()"
| "visit_streams lib streams (i # is) = do {
     desc \<leftarrow> ask lib (CF_AT streams i);
     t \<leftarrow> stream_type lib desc;
     visit_streams lib streams is }"

text \<open>The two functions that log the request and the response make these calls.\<close>

definition log_setup_request :: "cf_lib \<Rightarrow> ptr \<Rightarrow> unit cf" where
  "log_setup_request lib request = do {
     d \<leftarrow> is_dict lib request;
     if \<not> d then ret ()
     else do {
       streams \<leftarrow> dict_get lib request ''streams'';
       a \<leftarrow> is_array lib streams;
       if \<not> a then ret ()
       else do { is \<leftarrow> array_indices lib streams; visit_streams lib streams is } } }"

definition log_setup_response_features :: "cf_lib \<Rightarrow> int \<Rightarrow> ptr \<Rightarrow> unit cf" where
  "log_setup_response_features lib rc response =
     (if rc \<noteq> 0 then ret ()
      else do {
        d \<leftarrow> is_dict lib response;
        if \<not> d then ret ()
        else do {
          features \<leftarrow> dict_get lib response ''enabledFeatures'';
          a \<leftarrow> is_array lib features;
          if \<not> a then ret ()
          else do {
            n \<leftarrow> ask_num lib (CF_COUNT features);
            x \<leftarrow> array_contains_string lib features ''altScreen'';
            y \<leftarrow> array_contains_string lib features ''viewAreas'';
            ret () } } })"

text \<open>Whether stream 111 and the main stream are named, and how many other streams.\<close>

fun classify_streams :: "cf_lib \<Rightarrow> ptr \<Rightarrow> nat list \<Rightarrow> bool \<times> bool \<times> nat \<Rightarrow> (bool \<times> bool \<times> nat) cf" where
  "classify_streams lib streams [] acc = ret acc"
| "classify_streams lib streams (i # is) acc = do {
     desc \<leftarrow> ask lib (CF_AT streams i);
     t \<leftarrow> stream_type lib desc;
     classify_streams lib streams is
       (let (alt, main, other) = acc; (type, ok) = t in
        if ok \<and> type = AIRPLAY_STREAM_TYPE_ALT_SCREEN then (True, main, other)
        else (alt, main \<or> (ok \<and> type = 110), other + 1)) }"

definition classify_teardown_request :: "cf_lib \<Rightarrow> ptr \<Rightarrow> (bool \<times> bool \<times> nat) cf" where
  "classify_teardown_request lib request = do {
     d \<leftarrow> is_dict lib request;
     if \<not> d then ret (False, False, 0)
     else do {
       streams \<leftarrow> dict_get lib request ''streams'';
       a \<leftarrow> is_array lib streams;
       if \<not> a then ret (False, False, 0)
       else do { is \<leftarrow> array_indices lib streams; classify_streams lib streams is (False, False, 0) } } }"

text \<open>The loop of build_stock_only_request: the number of descriptors of stream 111 and the last one of them.\<close>

fun split_streams :: "cf_lib \<Rightarrow> ptr \<Rightarrow> ptr \<Rightarrow> nat list \<Rightarrow> nat \<times> ptr \<Rightarrow> (nat \<times> ptr) cf" where
  "split_streams lib streams stock_streams [] acc = ret acc"
| "split_streams lib streams stock_streams (i # is) acc = do {
     desc \<leftarrow> ask lib (CF_AT streams i);
     t \<leftarrow> stream_type lib desc;
     if snd t \<and> fst t = AIRPLAY_STREAM_TYPE_ALT_SCREEN
     then split_streams lib streams stock_streams is (fst acc + 1, desc)
     else do { tell (CF_APPEND stock_streams desc); split_streams lib streams stock_streams is acc } }"

text \<open>The request without stream 111, and its descriptor; both NULL when there is nothing to split, or on failure.\<close>

definition build_stock_only_request :: "cf_lib \<Rightarrow> ptr \<Rightarrow> (ptr \<times> ptr) cf" where
  "build_stock_only_request lib request = do {
     d \<leftarrow> is_dict lib request;
     if \<not> d then ret (NULL, NULL)
     else do {
       streams \<leftarrow> dict_get lib request ''streams'';
       a \<leftarrow> is_array lib streams;
       if \<not> a then ret (NULL, NULL)
       else do {
         is \<leftarrow> array_indices lib streams;
         stock_request \<leftarrow> dict_mutable_copy lib request;
         stock_streams \<leftarrow> new_array lib;
         if stock_request = NULL \<or> stock_streams = NULL
         then do { release_if stock_streams; release_if stock_request; ret (NULL, NULL) }
         else do {
           split \<leftarrow> split_streams lib streams stock_streams is (0, NULL);
           ok \<leftarrow> (if fst split = 1 then dict_set_obj lib stock_request ''streams'' stock_streams else ret False);
           tell (CF_RELEASE stock_streams);
           if ok then ret (stock_request, snd split)
           else do { tell (CF_RELEASE stock_request); ret (NULL, NULL) } } } } }"

definition merge_altscreen_response :: "cf_lib \<Rightarrow> ptr \<Rightarrow> ptr \<Rightarrow> u16 \<Rightarrow> ptr cf" where
  "merge_altscreen_response lib stock_response requested_alt_desc port = do {
     d \<leftarrow> is_dict lib stock_response;
     response \<leftarrow> (if d then dict_mutable_copy lib stock_response else new_dict lib);
     d2 \<leftarrow> (if response = NULL then ret False else is_dict lib requested_alt_desc);
     enabled \<leftarrow> (if d2 then set_reference_enabled_features lib response else ret False);
     if \<not> enabled then do { release_if response; ret NULL }
     else do {
       streams \<leftarrow> dict_get lib response ''streams'';
       a \<leftarrow> is_array lib streams;
       out_streams \<leftarrow> (if a then do { n \<leftarrow> ask_num lib (CF_COUNT streams); ask lib (CF_COPY_ARRAY streams (n + 1)) }
                      else new_array lib);
       alt_stream \<leftarrow> dict_mutable_copy lib requested_alt_desc;
       ok \<leftarrow> (if out_streams = NULL \<or> alt_stream = NULL then ret False
              else do {
                p \<leftarrow> dict_set_i64 lib alt_stream ''dataPort'' (uint port);
                i \<leftarrow> (if p then dict_set_i64 lib alt_stream ''streamID'' AIRPLAY_STREAM_TYPE_ALT_SCREEN else ret False);
                if \<not> i then ret False
                else do { tell (CF_APPEND out_streams alt_stream); dict_set_obj lib response ''streams'' out_streams } });
       release_if alt_stream;
       release_if out_streams;
       if ok then ret response else do { release_if response; ret NULL } } }"


section \<open>Commands\<close>

definition ALTSCREEN_UUID :: string where
  "ALTSCREEN_UUID = ''E0CB6FB0-0000-0000-0000-0000C0FFEE58''"

definition altscreen_gauge_url_for_view :: "int \<Rightarrow> string" where
  "altscreen_gauge_url_for_view view =
     (if view = 2 \<or> view = 3 then ''maps:/car/instrumentcluster?maneuverLayout=topAligned''
      else ''maps:/car/instrumentcluster?maneuverLayout=leftAligned'')"

definition make_event_request :: "cf_lib \<Rightarrow> string \<Rightarrow> string option \<Rightarrow> ptr cf" where
  "make_event_request lib type url = do {
     request \<leftarrow> new_dict lib;
     params \<leftarrow> new_dict lib;
     ok \<leftarrow> (if request = NULL \<or> params = NULL then ret False
            else do {
              t \<leftarrow> dict_set_string lib request ''type'' type;
              u \<leftarrow> (if t then dict_set_string lib params ''uuid'' ALTSCREEN_UUID else ret False);
              v \<leftarrow> (case url of Some url \<Rightarrow> if u then dict_set_string lib params ''url'' url else ret False | None \<Rightarrow> ret u);
              if v then dict_set_obj lib request ''params'' params else ret False });
     release_if params;
     if ok then ret request else do { release_if request; ret NULL } }"

text \<open>The other views, appended one after the other; the loop fails when a number cannot be created.\<close>

fun append_numbers :: "cf_lib \<Rightarrow> ptr \<Rightarrow> int list \<Rightarrow> bool cf" where
  "append_numbers lib a [] = ret True"
| "append_numbers lib a (v # vs) = do {
     number \<leftarrow> ask lib (CF_NUMBER v);
     if number = NULL then ret False
     else do { tell (CF_APPEND a number); tell (CF_RELEASE number); append_numbers lib a vs } }"

definition make_view_request :: "cf_lib \<Rightarrow> int \<Rightarrow> ptr cf" where
  "make_view_request lib view =
     (if view < 0 \<or> view \<ge> ALTSCREEN_VIEW_COUNT \<or> \<not> cl_number lib then ret NULL
      else do {
        request \<leftarrow> make_event_request lib ''updateViewArea'' None;
        if request = NULL then ret NULL
        else do {
          params \<leftarrow> dict_get lib request ''params'';
          d \<leftarrow> is_dict lib params;
          i \<leftarrow> (if d then dict_set_i64 lib params ''viewAreaIndex'' view else ret False);
          j \<leftarrow> (if i then dict_set_i64 lib params ''animationDurationMillis'' 0 else ret False);
          if \<not> j then do { tell (CF_RELEASE request); ret NULL }
          else do {
            adjacent \<leftarrow> new_array lib;
            ok \<leftarrow> (if adjacent = NULL then ret False
                   else do {
                     all \<leftarrow> append_numbers lib adjacent (filter (\<lambda>i. i \<noteq> view) [0..ALTSCREEN_VIEW_COUNT - 1]);
                     if all then dict_set_obj lib params ''adjacentViewAreas'' adjacent else ret False });
            release_if adjacent;
            if ok then ret request else do { tell (CF_RELEASE request); ret NULL } } } })"

definition send_zoom_event :: "cf_lib \<Rightarrow> ptr \<Rightarrow> int \<Rightarrow> int cf" where
  "send_zoom_event lib receiver direction =
     (if receiver = NULL \<or> \<not> cl_command lib \<or> direction \<noteq> 0 \<and> direction \<noteq> 1 then ret (-1)
      else do {
        request \<leftarrow> new_dict lib;
        params \<leftarrow> new_dict lib;
        ok \<leftarrow> (if request = NULL \<or> params = NULL then ret False
               else do {
                 t \<leftarrow> dict_set_string lib request ''type'' ''changeMapZoomLevel'';
                 u \<leftarrow> (if t then dict_set_string lib params ''uuid'' ALTSCREEN_UUID else ret False);
                 z \<leftarrow> (if u then dict_set_i64 lib params ''zoomDirection'' direction else ret False);
                 if z then dict_set_obj lib request ''params'' params else ret False });
        release_if params;
        if \<not> ok then do { release_if request; ret (-1) }
        else do { rc \<leftarrow> ask_num lib (CF_SEND receiver request); tell (CF_RELEASE request); ret rc } })"

definition send_event :: "cf_lib \<Rightarrow> ptr \<Rightarrow> string \<Rightarrow> string option \<Rightarrow> int cf" where
  "send_event lib receiver type url =
     (if receiver = NULL \<or> \<not> cl_command lib then ret (-1)
      else do {
        request \<leftarrow> make_event_request lib type url;
        if request = NULL then ret (-1)
        else do { rc \<leftarrow> ask_num lib (CF_SEND receiver request); tell (CF_RELEASE request); ret rc } })"

definition altscreen_request_fresh_keyframe :: "cf_lib \<Rightarrow> alt_globals \<Rightarrow> bool cf" where
  "altscreen_request_fresh_keyframe lib g =
     (let receiver = keyframe_receiver g in
      if receiver = NULL then ret False
      else do { rc \<leftarrow> send_event lib receiver ''forceKeyFrame'' None; ret (rc = 0) })"

text \<open>
  v8s_control_send up to the lock; memory is whether calloc succeeds. The result is the one of
  SendCommand, -1 when it is not called.
\<close>

definition control_request :: "cf_lib \<Rightarrow> control_completion_context \<Rightarrow> ptr cf" where
  "control_request lib c =
     (case cx_stage c of
        CONTROL_SHOW \<Rightarrow> make_event_request lib ''showUI'' (Some (altscreen_gauge_url_for_view (cx_view c)))
      | CONTROL_VIEW \<Rightarrow> make_view_request lib (cx_view c)
      | CONTROL_KEYFRAME \<Rightarrow> make_event_request lib ''forceKeyFrame'' None
      | CONTROL_IDLE \<Rightarrow> ret NULL)"

definition v8s_control_send :: "cf_lib \<Rightarrow> bool \<Rightarrow> control_completion_context \<Rightarrow> int cf" where
  "v8s_control_send lib memory c = do {
     request \<leftarrow> control_request lib c;
     rc \<leftarrow> (if request \<noteq> NULL \<and> memory \<and> cl_command lib then ask_num lib (CF_SEND (cx_receiver c) request) else ret (-1));
     release_if request;
     ret rc }"

section \<open>Setup and teardown\<close>

text \<open>
  The preparation of a session is prepare_altscreen of Alt_Session; here it is the read of the connection id from
  the descriptor, and the port, if any, that the rest of it answers.
\<close>

definition prepare_call :: "cf_lib \<Rightarrow> (u64 option \<Rightarrow> u16 option) \<Rightarrow> ptr \<Rightarrow> ptr \<Rightarrow> u16 option cf" where
  "prepare_call lib port receiver alt_desc = do {
     c \<leftarrow> dict_get_i64 lib alt_desc ''streamConnectionID'';
     tell (CF_PREPARE receiver alt_desc);
     ret (port (if snd c then Some (word_of_int (fst c)) else None)) }"

text \<open>The port that prepare_altscreen answers, for everything that it finds besides the connection id.\<close>

definition prepared_port :: "prepare_env \<Rightarrow> real_fns \<Rightarrow> ptr \<Rightarrow> alt_globals \<Rightarrow> alt_output \<Rightarrow> u64 option \<Rightarrow> u16 option" where
  "prepared_port pe r receiver g ao conn =
     map_option fst (fst (prepare_altscreen (pe\<lparr>pe_connection := conn\<rparr>) r receiver g ao))"

text \<open>
  enabled is altscreen_enabled, wanted whether out_response is not NULL. The result is the status and what is
  stored through out_response, None when nothing is.
\<close>

definition AirPlayReceiverSessionSetup ::
    "cf_lib \<Rightarrow> bool \<Rightarrow> bool \<Rightarrow> (u64 option \<Rightarrow> u16 option) \<Rightarrow> ptr \<Rightarrow> ptr \<Rightarrow> (int \<times> ptr option) cf" where
  "AirPlayReceiverSessionSetup lib enabled wanted port receiver request =
     (if \<not> cl_setup lib then ret (-1, None)
      else if \<not> enabled \<or> \<not> cl_ready lib \<or> \<not> wanted then do {
        r \<leftarrow> ask_status lib (CF_SETUP wanted receiver request);
        ret (fst r, if wanted then Some (snd r) else None) }
      else do {
        log_setup_request lib request;
        split \<leftarrow> build_stock_only_request lib request;
        let stock_request = fst split;
        let alt_desc = snd split;
        if stock_request = NULL \<or> alt_desc = NULL then do {
          r \<leftarrow> ask_status lib (CF_SETUP True receiver request);
          let rc = fst r;
          let stock_response = snd r;
          final_response \<leftarrow> (if rc = 0 \<and> stock_response \<noteq> NULL
                             then clone_response_with_reference_features lib stock_response else ret NULL);
          response \<leftarrow> (if final_response \<noteq> NULL then do { tell (CF_RELEASE stock_response); ret final_response }
                      else ret stock_response);
          log_setup_response_features lib rc response;
          ret (rc, Some response) }
        else do {
          r \<leftarrow> ask_status lib (CF_SETUP True receiver stock_request);
          let rc = fst r;
          let stock_response = snd r;
          log_setup_response_features lib rc stock_response;
          tell (CF_RELEASE stock_request);
          if rc \<noteq> 0 then do { release_if stock_response; ret (rc, None) }
          else do {
            prepared \<leftarrow> prepare_call lib port receiver alt_desc;
            case prepared of
              None \<Rightarrow> ret (0, Some stock_response)
            | Some alt_port \<Rightarrow> do {
                final_response \<leftarrow> merge_altscreen_response lib stock_response alt_desc alt_port;
                if final_response = NULL then do { tell (CF_CLEANUP receiver); ret (0, Some stock_response) }
                else do { release_if stock_response; ret (0, Some final_response) } } } } })"

text \<open>The result is whether 0 is stored through out_done; otherwise the stock function stores there, if it is called.\<close>

definition AirPlayReceiverSessionTearDown :: "cf_lib \<Rightarrow> bool \<Rightarrow> ptr \<Rightarrow> ptr \<Rightarrow> int \<Rightarrow> bool cf" where
  "AirPlayReceiverSessionTearDown lib enabled receiver request reason =
     (if \<not> cl_teardown lib then ret False
      else if \<not> enabled \<or> \<not> cl_ready lib then do { tell (CF_TEARDOWN receiver request reason); ret False }
      else do {
        class \<leftarrow> classify_teardown_request lib request;
        let full_session = (request = NULL);
        let has_alt = fst class;
        let other_streams = snd (snd class);
        if \<not> full_session \<and> \<not> has_alt then do { tell (CF_TEARDOWN receiver request reason); ret False }
        else if has_alt then do {
          tell (CF_CLEANUP receiver);
          if other_streams = 0 then ret True
          else do {
            split \<leftarrow> build_stock_only_request lib request;
            let stock_request = fst split;
            if stock_request \<noteq> NULL then do {
              tell (CF_TEARDOWN receiver stock_request reason);
              tell (CF_RELEASE stock_request);
              ret False }
            else do { tell (CF_TEARDOWN receiver request reason); ret False } } }
        else do { tell (CF_CLEANUP receiver); tell (CF_TEARDOWN receiver request reason); ret False } })"

section \<open>The ledger\<close>

text \<open>Every function releases what it creates, on every path, but for the reference that it returns.\<close>

lemma dict_mutable_copy_gives: "gives (dict_mutable_copy lib source) own_ref"
  by (auto simp: dict_mutable_copy_def intro!: givesI ledger)

lemmas wp_dict_mutable_copy [ledger] = givesD [OF dict_mutable_copy_gives]

lemma dict_gives:
  "balanced (dict_get lib d s)" "balanced (dict_get_i64 lib d s)" "balanced (dict_set_obj lib d s v)" "balanced (dict_set_i64 lib d s n)"
  by (auto simp: dict_get_def dict_get_i64_def dict_set_obj_def dict_set_i64_def intro!: givesI ledger)

lemmas wp_dict [ledger] = dict_gives [THEN givesD]

lemma dict_set_string_gives: "balanced (dict_set_string lib d s v)"
  by (auto simp: dict_set_string_def intro!: givesI ledger)

lemmas wp_dict_set_string [ledger] = givesD [OF dict_set_string_gives]

lemma array_indices_gives: "balanced (array_indices lib a)"
  by (auto simp: array_indices_def intro!: givesI ledger)

lemmas wp_array_indices [ledger] = givesD [OF array_indices_gives]

lemma find_string_gives: "balanced (find_string lib a needle is)"
proof (induction "is")
  case (Cons i "is")
  then show ?case by (auto intro!: givesI ledger givesD [OF Cons])
qed (auto intro!: givesI)

lemmas wp_find_string [ledger] = givesD [OF find_string_gives]

lemma array_contains_string_gives: "balanced (array_contains_string lib a v)"
  by (auto simp: array_contains_string_def intro!: givesI ledger)

lemmas wp_array_contains_string [ledger] = givesD [OF array_contains_string_gives]

lemma set_reference_enabled_features_gives: "balanced (set_reference_enabled_features lib r)"
  by (auto simp: set_reference_enabled_features_def own_ref_def intro!: givesI ledger)

lemmas wp_set_reference_enabled_features [ledger] = givesD [OF set_reference_enabled_features_gives]

lemma clone_response_gives: "gives (clone_response_with_reference_features lib r) own_ref"
  by (auto simp: clone_response_with_reference_features_def intro!: givesI ledger)

lemmas wp_clone_response [ledger] = givesD [OF clone_response_gives]

text \<open>A type is only read from a descriptor that is not NULL.\<close>

lemma wp_stream_type [ledger]:
  "\<lbrakk>sound False h; \<And>n b h'. sound False h' \<Longrightarrow> held_refs h' = held_refs h \<Longrightarrow> (b \<Longrightarrow> desc \<noteq> NULL) \<Longrightarrow> Q (n, b) h'\<rbrakk> \<Longrightarrow>
     wp (stream_type lib desc) Q h"
  by (auto simp: stream_type_def intro!: ledger)

lemma visit_streams_gives: "balanced (visit_streams lib a is)"
proof (induction "is")
  case (Cons i "is")
  then show ?case by (auto intro!: givesI ledger givesD [OF Cons])
qed (auto intro!: givesI)

lemma classify_streams_gives: "balanced (classify_streams lib a is acc)"
proof (induction "is" arbitrary: acc)
  case (Cons i "is")
  then show ?case by (auto intro!: givesI ledger givesD [OF Cons])
qed (auto intro!: givesI)

lemma wp_split_streams [ledger]:
  "\<lbrakk>sound False h; fst acc = 0 \<or> snd acc \<noteq> NULL;
    \<And>x h'. sound False h' \<Longrightarrow> held_refs h' = held_refs h \<Longrightarrow> fst x = 0 \<or> snd x \<noteq> NULL \<Longrightarrow> Q x h'\<rbrakk> \<Longrightarrow> wp (split_streams lib a b is acc) Q h"
proof (induction "is" arbitrary: acc h)
  case (Cons i "is")
  show ?case using Cons.prems by (auto intro!: ledger Cons.IH)
qed simp

lemmas wp_streams [ledger] = givesD [OF visit_streams_gives] givesD [OF classify_streams_gives]

lemma log_setup_gives: "balanced (log_setup_request lib r)" "balanced (log_setup_response_features lib rc r)"
  by (auto simp: log_setup_request_def log_setup_response_features_def intro!: givesI ledger)

lemma classify_teardown_request_gives: "balanced (classify_teardown_request lib r)"
  by (auto simp: classify_teardown_request_def intro!: givesI ledger)

text \<open>The request and the descriptor are both there or both missing.\<close>

lemma wp_build_stock_only_request [ledger]:
  assumes "sound False h"
    "\<And>p d h'. sound False h' \<Longrightarrow> held_refs h' = held_refs h + own_ref p \<Longrightarrow> p = NULL \<longleftrightarrow> d = NULL \<Longrightarrow> Q (p, d) h'"
  shows "wp (build_stock_only_request lib r) Q h"
  using assms by (auto simp: build_stock_only_request_def own_ref_def intro!: ledger)

lemma merge_altscreen_response_gives: "gives (merge_altscreen_response lib r d p) own_ref"
  by (auto simp: merge_altscreen_response_def own_ref_def intro!: givesI ledger)

lemma prepare_call_gives: "balanced (prepare_call lib port r d)"
  by (auto simp: prepare_call_def intro!: givesI ledger)

lemmas wp_setup [ledger] = log_setup_gives [THEN givesD] givesD [OF classify_teardown_request_gives]
  givesD [OF merge_altscreen_response_gives] givesD [OF prepare_call_gives]

lemma setup_gives:
  "gives (AirPlayReceiverSessionSetup lib enabled wanted port receiver request)
     (\<lambda>x. case snd x of Some p \<Rightarrow> own_ref p | None \<Rightarrow> {#})"
  by (auto simp: AirPlayReceiverSessionSetup_def Let_def intro!: givesI ledger split: option.split)

lemma teardown_gives: "balanced (AirPlayReceiverSessionTearDown lib enabled receiver request reason)"
  by (auto simp: AirPlayReceiverSessionTearDown_def Let_def intro!: givesI ledger)

lemma make_event_request_gives: "gives (make_event_request lib type url) own_ref"
  by (auto simp: make_event_request_def own_ref_def intro!: givesI ledger split: option.split)

lemmas wp_make_event_request [ledger] = givesD [OF make_event_request_gives]

lemma append_numbers_gives: "balanced (append_numbers lib a vs)"
proof (induction vs)
  case (Cons v vs)
  then show ?case by (auto intro!: givesI ledger givesD [OF Cons])
qed (auto intro!: givesI)

lemmas wp_append_numbers [ledger] = givesD [OF append_numbers_gives]

lemma make_view_request_gives: "gives (make_view_request lib view) own_ref"
  by (auto simp: make_view_request_def own_ref_def intro!: givesI ledger)

lemmas wp_make_view_request [ledger] = givesD [OF make_view_request_gives]

lemma send_gives: "balanced (send_zoom_event lib r d)" "balanced (send_event lib r type url)"
  by (auto simp: send_zoom_event_def send_event_def own_ref_def intro!: givesI ledger)

lemmas wp_send [ledger] = send_gives [THEN givesD]

lemma keyframe_gives: "balanced (altscreen_request_fresh_keyframe lib g)"
  by (auto simp: altscreen_request_fresh_keyframe_def Let_def intro!: givesI ledger)

lemma control_request_gives: "gives (control_request lib c) own_ref"
  by (auto simp: control_request_def intro!: givesI ledger split: control_stage.split)

lemmas wp_control_request [ledger] = givesD [OF control_request_gives]

lemma v8s_control_send_gives: "balanced (v8s_control_send lib memory c)"
  by (auto simp: v8s_control_send_def intro!: givesI ledger)

end
