(* ===== verification/Alt_Stock.thy ===== *)
theory Alt_Stock
  imports Alt_Requests
begin

text \<open>
  What the stock functions are given. The content of the objects is read off the history; the library
  is asked to answer as it documents: references that it creates are not NULL, and a type read twice is the same.
\<close>

section \<open>Objects in a history\<close>

text \<open>
  The text a string was created from, the elements of an array, and the value under a name in a dictionary, since
  the object was created; a copied dictionary starts without a value of the program's own.
\<close>

fun text_of :: "cf_history \<Rightarrow> ptr \<Rightarrow> string option" where
  "text_of [] k = None"
| "text_of ((c, p) # h) k = (case c of CF_STRING s \<Rightarrow> if p = k then Some s else text_of h k | _ \<Rightarrow> text_of h k)"

fun content :: "cf_history \<Rightarrow> ptr \<Rightarrow> ptr list" where
  "content [] a = []"
| "content ((c, p) # h) a =
     (case c of
        CF_NEW_ARRAY \<Rightarrow> if p = a then [] else content h a
      | CF_APPEND b v \<Rightarrow> if b = a then content h a @ [v] else content h a
      | _ \<Rightarrow> content h a)"

fun cf_field :: "cf_history \<Rightarrow> ptr \<Rightarrow> string \<Rightarrow> ptr option" where
  "cf_field [] d s = None"
| "cf_field ((c, p) # h) d s =
     (case c of
        CF_SET e k v \<Rightarrow> if e = d \<and> text_of h k = Some s then Some v else cf_field h d s
      | _ \<Rightarrow> if creates c \<and> p = d then None else cf_field h d s)"

text \<open>
  A library that creates what it is asked for, and for which the type of an object is stream_kind; the
  elements of the array streams are at.
\<close>

definition steady :: "cf_lib \<Rightarrow> (ptr \<Rightarrow> int option) \<Rightarrow> ptr \<Rightarrow> nat \<Rightarrow> (nat \<Rightarrow> ptr) \<Rightarrow> bool" where
  "steady lib stream_kind streams n at \<longleftrightarrow>
     (\<forall>h c. creates c \<longrightarrow> cl_ref lib h c \<noteq> NULL) \<and> cl_native_copy lib \<and>
     (\<forall>h. cl_num lib h (CF_COUNT streams) = int n) \<and>
     (\<forall>h i. cl_ref lib h (CF_AT streams i) = at i) \<and>
     (\<forall>h d k. text_of h k = Some ''type'' \<longrightarrow>
        (if d \<noteq> NULL \<and> cl_kind lib h d = K_DICT \<and> cl_ok lib h (CF_GET_I64 d k)
         then Some (cl_num lib h (CF_GET_I64 d k)) else None) = stream_kind d) \<and>
     (\<forall>h h' d. cl_kind lib h d = cl_kind lib h' d)"

text \<open>The request the phone has sent: a dictionary that has the array under streams.\<close>

definition names_streams :: "cf_lib \<Rightarrow> ptr \<Rightarrow> ptr \<Rightarrow> bool" where
  "names_streams lib request streams \<longleftrightarrow>
     request \<noteq> NULL \<and> cl_kind lib [] request = K_DICT \<and> streams \<noteq> NULL \<and> cl_kind lib [] streams = K_ARRAY \<and>
     (\<forall>h k. text_of h k = Some ''streams'' \<longrightarrow> cl_ref lib h (CF_GET request k) = streams)"

text \<open>
  The calls of the AirPlay library and the two on the private session, the first one first, with the streams of
  the request as the program has set them.
\<close>

definition seen :: "cf_history \<Rightarrow> ptr \<Rightarrow> ptr list option" where
  "seen h q = map_option (content h) (cf_field h q ''streams'')"

fun deeds :: "cf_history \<Rightarrow> (cf_call \<times> ptr list option) list" where
  "deeds [] = []"
| "deeds ((c, p) # h) =
     (case c of
        CF_SETUP w r q \<Rightarrow> deeds h @ [(c, seen h q)]
      | CF_TEARDOWN r q i \<Rightarrow> deeds h @ [(c, seen h q)]
      | CF_PREPARE r d \<Rightarrow> deeds h @ [(c, None)]
      | CF_CLEANUP r \<Rightarrow> deeds h @ [(c, None)]
      | _ \<Rightarrow> deeds h)"

text \<open>Programs that make none of these calls.\<close>

definition silent_prog :: "'a cf \<Rightarrow> bool" where
  "silent_prog m \<longleftrightarrow> (\<forall>h. deeds (snd (run_state m h)) = deeds h)"

named_theorems silent

lemma quiet_bind [silent]: "silent_prog m \<Longrightarrow> (\<And>x. silent_prog (f x)) \<Longrightarrow> silent_prog (m \<bind> f)"
  by (simp add: silent_prog_def case_prod_unfold)

lemma quiet_ret [silent]: "silent_prog (ret x)"
  by (simp add: silent_prog_def)

lemma quiet_if [silent]: "(b \<Longrightarrow> silent_prog m) \<Longrightarrow> (\<not> b \<Longrightarrow> silent_prog m') \<Longrightarrow> silent_prog (if b then m else m')"
  by simp

definition mute :: "cf_call \<Rightarrow> bool" where
  "mute c = (case c of CF_SETUP w r q \<Rightarrow> False | CF_TEARDOWN r q i \<Rightarrow> False | CF_PREPARE r d \<Rightarrow> False | CF_CLEANUP r \<Rightarrow> False
     | _ \<Rightarrow> True)"

lemma mute_deeds: "mute c \<Longrightarrow> deeds ((c, p) # h) = deeds h"
  by (cases c) (simp_all add: mute_def)

lemma quiet_calls [silent]:
  "mute c \<Longrightarrow> silent_prog (ask lib c)" "mute c \<Longrightarrow> silent_prog (ask_num lib c)" "mute c \<Longrightarrow> silent_prog (ask_i64 lib c)" "mute c \<Longrightarrow> silent_prog (ask_ok lib c)"
  "mute c \<Longrightarrow> silent_prog (tell c)" "silent_prog (has_kind lib k q)" "silent_prog (entries lib q n)" "silent_prog (memory_left lib)" "silent_prog (release_if q)"
  by (simp_all add: silent_prog_def ask_def ask_num_def ask_i64_def ask_ok_def tell_def has_kind_def entries_def memory_left_def
      release_if_def mute_deeds del: deeds.simps) (simp_all add: mute_def)

lemma mute_simps [simp]:
  "mute (CF_STRING s)" "mute (CF_NUMBER i)" "mute CF_NEW_DICT" "mute CF_NEW_ARRAY" "mute (CF_COPY_DICT q)" "mute (CF_COPY_ARRAY q i)"
  "mute (CF_TYPE q)" "mute (CF_GET q r)" "mute (CF_GET_I64 q r)" "mute (CF_COUNT q)" "mute (CF_AT q n)" "mute (CF_EQUAL q r)"
  "mute (CF_KEYS q)" "mute (CF_SET q r t)" "mute (CF_SET_I64 q r i)" "mute (CF_APPEND q r)" "mute (CF_RELEASE q)" "mute (CF_SEND q r)"
  by (simp_all add: mute_def)

lemma quiet_helpers [silent]:
  "silent_prog (cfs lib s)" "silent_prog (new_dict lib)" "silent_prog (new_array lib)" "silent_prog (is_array lib q)" "silent_prog (is_dict lib q)"
  by (auto simp: cfs_def new_dict_def new_array_def is_array_def is_dict_def intro!: silent)

lemma quiet_set_entries [silent]: "silent_prog (set_entries q es)"
  by (induction q es rule: set_entries.induct) (auto intro!: silent)

lemma quiet_copy [silent]: "silent_prog (dict_mutable_copy lib q)"
  by (auto simp: dict_mutable_copy_def dict_mutable_copy_compat_def copy_entries_def intro!: silent)

lemma quiet_dict [silent]:
  "silent_prog (dict_get lib d s)" "silent_prog (dict_get_i64 lib d s)" "silent_prog (dict_set_obj lib d s v)" "silent_prog (dict_set_i64 lib d s n)"
  "silent_prog (array_indices lib d)"
  by (auto simp: dict_get_def dict_get_i64_def dict_set_obj_def dict_set_i64_def array_indices_def intro!: silent)

lemma quiet_stream_type [silent]: "silent_prog (stream_type lib d)"
  by (auto simp: stream_type_def intro!: silent)

lemma quiet_loops [silent]:
  "silent_prog (find_string lib a q is)" "silent_prog (visit_streams lib a is)" "silent_prog (classify_streams lib a is acc)" "silent_prog (split_streams lib a b is acc')"
proof -
  show "silent_prog (find_string lib a q is)" by (induction "is") (auto intro!: silent)
  show "silent_prog (visit_streams lib a is)" by (induction "is") (auto intro!: silent)
  show "silent_prog (classify_streams lib a is acc)" by (induction "is" arbitrary: acc) (auto intro!: silent)
  show "silent_prog (split_streams lib a b is acc')" by (induction "is" arbitrary: acc') (auto intro!: silent)
qed

lemma quiet_features [silent]:
  "silent_prog (array_contains_string lib a s)" "silent_prog (set_reference_enabled_features lib r)" "silent_prog (clone_response_with_reference_features lib r)"
  by (auto simp: array_contains_string_def set_reference_enabled_features_def clone_response_with_reference_features_def intro!: silent)

lemma quiet_requests [silent]:
  "silent_prog (log_setup_request lib r)" "silent_prog (log_setup_response_features lib rc r)" "silent_prog (classify_teardown_request lib r)"
  "silent_prog (build_stock_only_request lib r)" "silent_prog (merge_altscreen_response lib r d p)"
  by (auto simp: log_setup_request_def log_setup_response_features_def classify_teardown_request_def build_stock_only_request_def
      merge_altscreen_response_def intro!: silent)

section \<open>The split\<close>

lemma run_stream_type:
  assumes "steady lib kd streams n at" "run_state (stream_type lib d) h = (t, h')"
  shows "snd t \<and> fst t = 111 \<longleftrightarrow> kd d = Some 111" "content h' a = content h a"
proof -
  have new: "cl_ref lib g (CF_STRING s) \<noteq> NULL" for g s using assms(1) by (simp add: steady_def)
  have kind: "(if d \<noteq> NULL \<and> cl_kind lib g d = K_DICT \<and> cl_ok lib g (CF_GET_I64 d k)
         then Some (cl_num lib g (CF_GET_I64 d k)) else None) = kd d" if "text_of g k = Some ''type''" for g k
    using assms(1) that by (simp add: steady_def)
  define K where "K = cl_kind lib []"
  have same: "cl_kind lib g e = K e" for g e using assms(1) unfolding steady_def K_def by blast
  let ?g = "(CF_TYPE d, NULL) # h"
  let ?k = "cl_ref lib ?g (CF_STRING ''type'')"
  have k: "(if d \<noteq> NULL \<and> K d = K_DICT \<and> cl_ok lib ((CF_STRING ''type'', ?k) # ?g) (CF_GET_I64 d ?k)
         then Some (cl_num lib ((CF_STRING ''type'', ?k) # ?g) (CF_GET_I64 d ?k)) else None) = kd d"
    using kind [of "(CF_STRING ''type'', ?k) # ?g" ?k] same by simp
  show "snd t \<and> fst t = 111 \<longleftrightarrow> kd d = Some 111"
    using assms(2) k new [of ?g "''type''"]
    by (auto simp: same stream_type_def is_dict_def has_kind_def dict_get_i64_def cfs_def ask_def ask_i64_def tell_def split: if_splits)
  show "content h' a = content h a"
    using assms(2) new [of ?g "''type''"]
    by (auto simp: same stream_type_def is_dict_def has_kind_def dict_get_i64_def cfs_def ask_def ask_i64_def tell_def split: if_splits)
qed

lemma run_split_streams:
  assumes "steady lib kd streams n at"
  shows "run_state (split_streams lib streams ss is acc) h = (x, h') \<Longrightarrow>
    content h' ss = content h ss @ filter (\<lambda>d. kd d \<noteq> Some 111) (map at is) \<and>
    x = (fst acc + length (filter (\<lambda>d. kd d = Some 111) (map at is)),
         last (snd acc # filter (\<lambda>d. kd d = Some 111) (map at is)))"
proof (induction "is" arbitrary: acc h)
  case (Cons i "is")
  have at: "cl_ref lib h (CF_AT streams i) = at i" using assms by (simp add: steady_def)
  let ?h1 = "(CF_AT streams i, at i) # h"
  obtain t h2 where t: "run_state (stream_type lib (at i)) ?h1 = (t, h2)" by (metis surj_pair)
  have c: "snd t \<and> fst t = 111 \<longleftrightarrow> kd (at i) = Some 111" "content h2 ss = content h ss"
    using run_stream_type [OF assms t] by simp_all
  show ?case
  proof (cases "kd (at i) = Some 111")
    case True
    with Cons.prems c t at have "run_state (split_streams lib streams ss is (fst acc + 1, at i)) h2 = (x, h')"
      by (auto simp: ask_def)
    from Cons.IH [OF this] True c show ?thesis by simp
  next
    case False
    with Cons.prems c t at have "run_state (split_streams lib streams ss is acc) ((CF_APPEND ss (at i), NULL) # h2) = (x, h')"
      by (auto simp: ask_def tell_def)
    from Cons.IH [OF this] False c show ?thesis by simp
  qed
qed auto

text \<open>The descriptors of stream 111 in the request, and all others.\<close>

definition alts :: "(ptr \<Rightarrow> int option) \<Rightarrow> nat \<Rightarrow> (nat \<Rightarrow> ptr) \<Rightarrow> ptr list" where
  "alts kd n at = filter (\<lambda>d. kd d = Some 111) (map at [0..<n])"

definition others :: "(ptr \<Rightarrow> int option) \<Rightarrow> nat \<Rightarrow> (nat \<Rightarrow> ptr) \<Rightarrow> ptr list" where
  "others kd n at = filter (\<lambda>d. kd d \<noteq> Some 111) (map at [0..<n])"

lemma length_one: "length xs = 1 \<Longrightarrow> \<exists>x. xs = [x]"
  by (cases xs) auto

lemma run_classify_streams:
  assumes "steady lib kd streams n at"
  shows "run_state (classify_streams lib streams is acc) h = (x, h') \<Longrightarrow>
    (fst x \<longleftrightarrow> fst acc \<or> filter (\<lambda>d. kd d = Some 111) (map at is) \<noteq> []) \<and>
    snd (snd x) = snd (snd acc) + length (filter (\<lambda>d. kd d \<noteq> Some 111) (map at is))"
proof (induction "is" arbitrary: acc h)
  case (Cons i "is")
  have at: "cl_ref lib h (CF_AT streams i) = at i" using assms by (simp add: steady_def)
  let ?h1 = "(CF_AT streams i, at i) # h"
  obtain t h2 where t: "run_state (stream_type lib (at i)) ?h1 = (t, h2)" by (metis surj_pair)
  have c: "snd t \<and> fst t = 111 \<longleftrightarrow> kd (at i) = Some 111" using run_stream_type [OF assms t] by simp
  define acc' where "acc' = (let (alt, main, other) = acc; (type, ok) = t in
        if ok \<and> type = AIRPLAY_STREAM_TYPE_ALT_SCREEN then (True, main, other)
        else (alt, main \<or> (ok \<and> type = 110), other + 1))"
  have "run_state (classify_streams lib streams is acc') h2 = (x, h')"
    using Cons.prems t at by (simp add: ask_def acc'_def)
  from Cons.IH [OF this] c show ?case by (auto simp: acc'_def Let_def split: prod.splits if_splits)
qed simp

text \<open>Looking up the array of the request.\<close>

lemma run_lookup:
  assumes "steady lib kd streams n at" "names_streams lib request streams"
  shows "\<exists>h'. run_state (is_dict lib request) h = (True, h')"
    "\<exists>h'. run_state (dict_get lib request ''streams'') h = (streams, h')"
    "\<exists>h'. run_state (is_array lib streams) h = (True, h')"
    "\<exists>h'. run_state (array_indices lib streams) h = ([0..<n], h')"
proof -
  define K where "K = cl_kind lib []"
  have same: "cl_kind lib g e = K e" for g e using assms(1) unfolding steady_def K_def by blast
  have k: "K request = K_DICT" "K streams = K_ARRAY" "request \<noteq> NULL" "streams \<noteq> NULL"
    using assms(2) by (simp_all add: names_streams_def K_def)
  show "\<exists>h'. run_state (is_dict lib request) h = (True, h')" "\<exists>h'. run_state (is_array lib streams) h = (True, h')"
    using k by (simp_all add: is_dict_def is_array_def has_kind_def same)
  show "\<exists>h'. run_state (array_indices lib streams) h = ([0..<n], h')"
    using assms(1) by (simp add: array_indices_def ask_num_def steady_def)
  have new: "cl_ref lib g (CF_STRING s) \<noteq> NULL" for g s using assms(1) by (simp add: steady_def)
  have "cl_ref lib ((CF_STRING ''streams'', cl_ref lib h (CF_STRING ''streams'')) # h) (CF_GET request (cl_ref lib h (CF_STRING ''streams''))) =
     streams" using assms(2) by (simp add: names_streams_def)
  with k(3) new [of h "''streams''"] show "\<exists>h'. run_state (dict_get lib request ''streams'') h = (streams, h')"
    by (simp add: dict_get_def cfs_def ask_def tell_def)
qed

lemma run_build:
  assumes "steady lib kd streams n at" "names_streams lib request streams"
    "run_state (build_stock_only_request lib request) h = ((p, d), h')"
  shows "length (alts kd n at) = 1 \<Longrightarrow> p \<noteq> NULL \<and> alts kd n at = [d] \<and> seen h' p = Some (others kd n at)"
    "length (alts kd n at) \<noteq> 1 \<Longrightarrow> p = NULL \<and> d = NULL"
proof -
  obtain h1 where 1: "run_state (is_dict lib request) h = (True, h1)" using run_lookup(1) [OF assms(1,2)] by blast
  obtain h2 where 2: "run_state (dict_get lib request ''streams'') h1 = (streams, h2)" using run_lookup(2) [OF assms(1,2)] by blast
  obtain h3 where 3: "run_state (is_array lib streams) h2 = (True, h3)" using run_lookup(3) [OF assms(1,2)] by blast
  obtain h4 where 4: "run_state (array_indices lib streams) h3 = ([0..<n], h4)" using run_lookup(4) [OF assms(1,2)] by blast
  define q where "q = cl_ref lib h4 (CF_COPY_DICT request)"
  let ?h5 = "(CF_COPY_DICT request, q) # h4"
  define v where "v = cl_ref lib ?h5 CF_NEW_ARRAY"
  let ?h6 = "(CF_NEW_ARRAY, v) # ?h5"
  have new: "q \<noteq> NULL" "v \<noteq> NULL" using assms(1) by (simp_all add: q_def v_def steady_def)
  have key: "cl_ref lib g (CF_STRING s) \<noteq> NULL" for g s using assms(1) by (simp add: steady_def)
  have copy: "run_state (dict_mutable_copy lib request) h4 = (q, ?h5)"
    using assms(1) by (simp add: dict_mutable_copy_def steady_def ask_def q_def)
  have arr: "run_state (new_array lib) ?h5 = (v, ?h6)" by (simp add: new_array_def ask_def v_def)
  obtain x h7 where 7: "run_state (split_streams lib streams v [0..<n] (0, NULL)) ?h6 = (x, h7)" by (metis surj_pair)
  note split = run_split_streams [OF assms(1) 7, folded alts_def others_def]
  let ?k = "cl_ref lib h7 (CF_STRING ''streams'')"
  let ?h8 = "(CF_RELEASE v, NULL) # (CF_RELEASE ?k, NULL) # (CF_SET q ?k v, NULL) # (CF_STRING ''streams'', ?k) # h7"
  have "p \<noteq> NULL \<and> alts kd n at = [d] \<and> seen h' p = Some (others kd n at)" if one: "length (alts kd n at) = 1"
  proof -
    have fx: "fst x = 1" using split one by simp
    have "run_state (build_stock_only_request lib request) h = ((q, snd x), ?h8)"
      using new key [of h7] by (simp add: build_stock_only_request_def 1 2 3 4 copy arr 7 fx dict_set_obj_def cfs_def ask_def tell_def)
    then have r: "p = q" "d = snd x" "h' = ?h8" using assms(3) by simp_all
    obtain e where e: "alts kd n at = [e]" using length_one [OF one] by blast
    have "snd x = last (NULL # alts kd n at)" using split by simp
    then have "snd x = e" unfolding e by simp
    with e have "alts kd n at = [d]" using r(2) by simp
    moreover have "seen h' p = Some (others kd n at)" using split r new by (simp add: seen_def)
    ultimately show ?thesis using r new by simp
  qed
  moreover have "p = NULL \<and> d = NULL" if "length (alts kd n at) \<noteq> 1"
  proof -
    have fx: "fst x \<noteq> 1" using split that by simp
    then show ?thesis using new assms(3) by (simp add: build_stock_only_request_def 1 2 3 4 copy arr 7 ask_def tell_def)
  qed
  ultimately show "length (alts kd n at) = 1 \<Longrightarrow> p \<noteq> NULL \<and> alts kd n at = [d] \<and> seen h' p = Some (others kd n at)"
    "length (alts kd n at) \<noteq> 1 \<Longrightarrow> p = NULL \<and> d = NULL" by blast+
qed

section \<open>Setup and teardown\<close>

named_theorems doings

lemma wp_quiet: "silent_prog m \<Longrightarrow> (\<And>x h'. deeds h' = deeds h \<Longrightarrow> Q x h') \<Longrightarrow> wp m Q h"
  by (simp add: wp_def silent_prog_def case_prod_unfold)

lemmas wp_quiet_calls [doings] = quiet_requests(1,2,5) [THEN wp_quiet] quiet_features(3) [THEN wp_quiet]
  quiet_dict(2) [THEN wp_quiet] quiet_calls(9) [THEN wp_quiet]

lemma wp_doings [doings]:
  "(\<And>rc p h'. deeds h' = deeds h @ [(CF_SETUP w r q, seen h q)] \<Longrightarrow> Q (rc, p) h') \<Longrightarrow> wp (ask_status lib (CF_SETUP w r q)) Q h"
  "(\<And>h'. deeds h' = deeds h @ [(CF_TEARDOWN r q i, seen h q)] \<Longrightarrow> S () h') \<Longrightarrow> wp (tell (CF_TEARDOWN r q i)) S h"
  "(\<And>h'. deeds h' = deeds h @ [(CF_PREPARE r d, None)] \<Longrightarrow> S () h') \<Longrightarrow> wp (tell (CF_PREPARE r d)) S h"
  "(\<And>h'. deeds h' = deeds h @ [(CF_CLEANUP r, None)] \<Longrightarrow> S () h') \<Longrightarrow> wp (tell (CF_CLEANUP r)) S h"
  "(\<And>h'. deeds h' = deeds h \<Longrightarrow> S () h') \<Longrightarrow> wp (tell (CF_RELEASE d)) S h"
  by (simp_all add: wp_def ask_status_def tell_def)

lemma wp_build:
  assumes "steady lib kd streams n at" "names_streams lib request streams"
    "\<And>p d h'. deeds h' = deeds h \<Longrightarrow> length (alts kd n at) = 1 \<longrightarrow> p \<noteq> NULL \<and> d \<noteq> NULL \<and> alts kd n at = [d] \<and> seen h' p = Some (others kd n at)
       \<Longrightarrow> length (alts kd n at) \<noteq> 1 \<longrightarrow> p = NULL \<and> d = NULL \<Longrightarrow> Q (p, d) h'"
  shows "wp (build_stock_only_request lib request) Q h"
proof -
  obtain p d h' where r: "run_state (build_stock_only_request lib request) h = ((p, d), h')" by (metis surj_pair)
  have "deeds h' = deeds h" using quiet_requests(4) [of lib request] r by (metis silent_prog_def snd_conv)
  moreover have "d \<noteq> NULL" if "alts kd n at = [d]"
  proof -
    have "d \<in> set (alts kd n at)" using that by simp
    then have kd: "kd d = Some 111" by (simp add: alts_def)
    define h k where "h = [(CF_STRING ''type'', 1 :: ptr)]" and "k = (1 :: ptr)"
    have "text_of h k = Some ''type''" by (simp add: h_def k_def)
    with assms(1) have "(if d \<noteq> NULL \<and> cl_kind lib h d = K_DICT \<and> cl_ok lib h (CF_GET_I64 d k)
         then Some (cl_num lib h (CF_GET_I64 d k)) else None) = kd d" by (simp add: steady_def)
    with kd show ?thesis by (auto split: if_splits)
  qed
  ultimately have "Q (p, d) h'"
    using run_build [OF assms(1,2) r] by (intro assms(3)) blast+
  with r show ?thesis by (simp add: wp_def)
qed

lemma wp_classify:
  assumes "steady lib kd streams n at" "names_streams lib request streams"
    "\<And>a m k h'. deeds h' = deeds h \<Longrightarrow> a \<longleftrightarrow> alts kd n at \<noteq> [] \<Longrightarrow> k = length (others kd n at) \<Longrightarrow> Q (a, m, k) h'"
  shows "wp (classify_teardown_request lib request) Q h"
proof -
  obtain a m k h' where r: "run_state (classify_teardown_request lib request) h = ((a, m, k), h')" by (metis surj_pair)
  have d: "deeds h' = deeds h" using quiet_requests(3) [of lib request] r by (metis silent_prog_def snd_conv)
  obtain h1 where 1: "run_state (is_dict lib request) h = (True, h1)" using run_lookup(1) [OF assms(1,2)] by blast
  obtain h2 where 2: "run_state (dict_get lib request ''streams'') h1 = (streams, h2)" using run_lookup(2) [OF assms(1,2)] by blast
  obtain h3 where 3: "run_state (is_array lib streams) h2 = (True, h3)" using run_lookup(3) [OF assms(1,2)] by blast
  obtain h4 where 4: "run_state (array_indices lib streams) h3 = ([0..<n], h4)" using run_lookup(4) [OF assms(1,2)] by blast
  have "run_state (classify_streams lib streams [0..<n] (False, False, 0)) h4 = ((a, m, k), h')"
    using r by (simp add: classify_teardown_request_def 1 2 3 4)
  from run_classify_streams [OF assms(1) this, folded alts_def others_def] d r show ?thesis
    by (auto simp: wp_def intro!: assms(3))
qed

definition setup_outcome :: "ptr \<Rightarrow> ptr list \<Rightarrow> ptr list \<Rightarrow> (int \<times> ptr option) \<Rightarrow> (cf_call \<times> ptr list option) list \<Rightarrow> bool" where
  "setup_outcome receiver as os x done_calls \<longleftrightarrow>
     (\<exists>q rest. done_calls = (CF_SETUP True receiver q, Some os) # rest \<and>
        (if fst x \<noteq> 0 then rest = [] \<and> snd x = None
         else rest = [(CF_PREPARE receiver (hd as), None)] \<or>
              rest = [(CF_PREPARE receiver (hd as), None), (CF_CLEANUP receiver, None)]))"

lemma setup_split:
  assumes "steady lib kd streams n at" "names_streams lib request streams" "cl_setup lib" "cl_ready lib"
    "length (alts kd n at) = 1"
  shows "wp (AirPlayReceiverSessionSetup lib True True port receiver request)
    (\<lambda>x h'. \<exists>ds. deeds h' = deeds h @ ds \<and> setup_outcome receiver (alts kd n at) (others kd n at) x ds) h"
  using assms(3,4,5)
  by (auto simp: AirPlayReceiverSessionSetup_def prepare_call_def Let_def setup_outcome_def
      intro!: doings wp_build [OF assms(1,2)] split: option.split)

lemma setup_whole:
  assumes "steady lib kd streams n at" "names_streams lib request streams" "cl_setup lib" "cl_ready lib"
    "length (alts kd n at) \<noteq> 1"
  shows "wp (AirPlayReceiverSessionSetup lib True True port receiver request)
    (\<lambda>x h'. \<exists>s. deeds h' = deeds h @ [(CF_SETUP True receiver request, s)]) h"
  using assms(3,4,5)
  by (auto simp: AirPlayReceiverSessionSetup_def prepare_call_def Let_def
      intro!: doings wp_build [OF assms(1,2)] split: option.split)

definition teardown_outcome :: "ptr \<Rightarrow> ptr \<Rightarrow> int \<Rightarrow> ptr list \<Rightarrow> ptr list \<Rightarrow> bool \<Rightarrow> (cf_call \<times> ptr list option) list \<Rightarrow> bool" where
  "teardown_outcome receiver request reason as os x done_calls \<longleftrightarrow>
     (if as = [] then \<not> x \<and> map fst done_calls = [CF_TEARDOWN receiver request reason]
      else if os = [] then x \<and> done_calls = [(CF_CLEANUP receiver, None)]
      else if length as = 1
      then \<not> x \<and> (\<exists>q. done_calls = [(CF_CLEANUP receiver, None), (CF_TEARDOWN receiver q reason, Some os)])
      else \<not> x \<and> map fst done_calls = [CF_CLEANUP receiver, CF_TEARDOWN receiver request reason])"

lemma teardown_split:
  assumes "steady lib kd streams n at" "names_streams lib request streams" "cl_teardown lib" "cl_ready lib"
  shows "wp (AirPlayReceiverSessionTearDown lib True receiver request reason)
    (\<lambda>x h'. \<exists>ds. deeds h' = deeds h @ ds \<and>
       teardown_outcome receiver request reason (alts kd n at) (others kd n at) x ds) h"
proof -
  have "request \<noteq> NULL" using assms(2) by (simp add: names_streams_def)
  with assms(3,4) show ?thesis
    by (auto simp: AirPlayReceiverSessionTearDown_def Let_def teardown_outcome_def
        intro!: doings wp_classify [OF assms(1,2)] wp_build [OF assms(1,2)])
qed

lemma teardown_whole:
  "cl_teardown lib \<Longrightarrow> cl_ready lib \<Longrightarrow> wp (AirPlayReceiverSessionTearDown lib True receiver NULL reason)
    (\<lambda>x h'. \<exists>s. deeds h' = deeds h @ [(CF_CLEANUP receiver, None), (CF_TEARDOWN receiver NULL reason, s)]) h"
  by (auto simp: AirPlayReceiverSessionTearDown_def classify_teardown_request_def is_dict_def has_kind_def Let_def
      intro!: doings)

section \<open>A library\<close>

text \<open>
  A library with one request (0x10), whose streams (0x11) are a screen (0x20, type 110) and, unless it is told
  otherwise, stream 111 (0x21).
\<close>

definition demo_kind :: "ptr \<Rightarrow> int option" where
  "demo_kind d = (if d = 0x20 then Some 110 else if d = 0x21 then Some 111 else None)"

definition demo_at :: "nat \<Rightarrow> ptr" where
  "demo_at i = (if i = 0 then 0x20 else 0x21)"

definition demo_cf :: cf_lib where
  "demo_cf = \<lparr>
     cl_ref = (\<lambda>h c. case c of
        CF_GET d k \<Rightarrow> if text_of h k = Some ''streams'' then 0x11 else NULL
      | CF_AT a i \<Rightarrow> demo_at i
      | CF_STRING s \<Rightarrow> 0x100 | CF_NEW_ARRAY \<Rightarrow> 0x200 | CF_NEW_DICT \<Rightarrow> 0x300 | CF_COPY_DICT d \<Rightarrow> 0x400
      | _ \<Rightarrow> 0x500),
     cl_num = (\<lambda>h c. case c of CF_COUNT a \<Rightarrow> 2 | CF_GET_I64 d k \<Rightarrow> (if d = 0x21 then 111 else 110) | _ \<Rightarrow> 0),
     cl_ok = (\<lambda>h c. case c of CF_GET_I64 d k \<Rightarrow> d = 0x20 \<or> d = 0x21 | _ \<Rightarrow> True),
     cl_kind = (\<lambda>h p. if p = 0x11 \<or> p = 0x200 then K_ARRAY else K_DICT),
     cl_entry = (\<lambda>h d i. (NULL, NULL)), cl_memory = (\<lambda>h. True), cl_true = 0x600, cl_false = 0x700,
     cl_ready = True, cl_setup = True, cl_teardown = True, cl_command = True, cl_number = True, cl_native_copy = True\<rparr>"

lemma demo_cf_steady: "steady demo_cf demo_kind 0x11 2 demo_at"
proof -
  have "cl_ref demo_cf h c \<noteq> NULL" if "creates c" for h c using that by (cases c) (simp_all add: demo_cf_def)
  then show ?thesis by (auto simp: steady_def demo_cf_def demo_kind_def)
qed

lemma demo_cf_names: "names_streams demo_cf 0x10 0x11"
  by (simp add: names_streams_def demo_cf_def)

lemma demo_cf_flags: "cl_setup demo_cf" "cl_teardown demo_cf" "cl_ready demo_cf"
  by (simp_all add: demo_cf_def)

lemma demo_streams: "alts demo_kind 2 demo_at = [0x21]" "others demo_kind 2 demo_at = [0x20]"
  by (simp_all add: alts_def others_def demo_kind_def demo_at_def upt_rec)

end
