(* ===== verification/Alt_Entry.thy ===== *)
theory Alt_Entry
  imports Alt_Stock Alt_Startup
begin

text \<open>
  altscreen/native/altscreen_session.c: the look-up of the stock functions, and the two replaced functions that
  only observe, the parser of the mode state and the delivery of a frame.
\<close>

section \<open>Look-up of the stock functions\<close>

text \<open>What has to be found in the next object of the process for the session code to be ready; found is whether dlsym finds a name.\<close>

definition api_required :: "string list" where
  "api_required = [
     ''AirPlayReceiverSessionSetup'', ''AirPlayReceiverSessionTearDown'',
     ''AirPlayReceiverSessionScreen_Create'', ''AirPlayReceiverSessionScreen_Delete'',
     ''AirPlayReceiverSessionScreen_Setup'', ''AirPlayReceiverSessionScreen_SetSecurityInfo'',
     ''AirPlayReceiverSessionScreen_ProcessFrames'', ''AirPlayReceiverSessionScreen_StopSession'',
     ''NetSocket_CreateWithNative'', ''NetSocket_Delete'', ''ScreenStreamProcessData'',
     ''AirPlayReceiverSessionSendCommand'',
     ''CFStringCreateWithCString'', ''CFArrayCreateMutableCopy'', ''CFDictionaryCreateMutable'',
     ''CFArrayCreateMutable'', ''CFDictionaryGetValue'', ''CFDictionarySetValue'', ''CFDictionaryGetInt64'',
     ''CFDictionarySetInt64'', ''CFDictionaryGetCount'', ''CFDictionaryGetKeysAndValues'', ''CFArrayGetCount'',
     ''CFArrayGetValueAtIndex'', ''CFArrayAppendValue'', ''CFEqual'', ''CFGetTypeID'', ''CFArrayGetTypeID'',
     ''CFDictionaryGetTypeID'', ''CFRetain'', ''CFRelease'']"

definition api_either :: "(string \<times> string) list" where
  "api_either = [
     (''kCFTypeDictionaryKeyCallBacks'', ''kCFLDictionaryKeyCallBacksCFLTypes''),
     (''kCFTypeArrayCallBacks'', ''kCFLArrayCallBacksCFLTypes'')]"

definition resolve_api :: "(string \<Rightarrow> bool) \<Rightarrow> cf_lib \<Rightarrow> cf_lib" where
  "resolve_api found lib = lib\<lparr>
     cl_setup := found ''AirPlayReceiverSessionSetup'',
     cl_teardown := found ''AirPlayReceiverSessionTearDown'',
     cl_command := found ''AirPlayReceiverSessionSendCommand'',
     cl_number := found ''CFNumberCreate'',
     cl_native_copy := found ''CFDictionaryCreateMutableCopy'',
     cl_ready := list_all found api_required \<and> list_all (\<lambda>(a, b). found a \<or> found b) api_either\<rparr>"

text \<open>When the code is ready, the functions it calls without a test of their own are there.\<close>

lemma ready_found:
  "cl_ready (resolve_api found lib) \<Longrightarrow>
     cl_setup (resolve_api found lib) \<and> cl_teardown (resolve_api found lib) \<and> cl_command (resolve_api found lib)"
  by (simp add: resolve_api_def api_required_def)

section \<open>Functions that observe\<close>

text \<open>
  turns is what the stock parser stores, None when out is NULL; found is whether the stock parser was found,
  marker whether the marker of the active screen is there.
\<close>

definition AirPlayReceiverSessionMakeModeStateFromDictionary ::
    "bool \<Rightarrow> int \<Rightarrow> int option \<Rightarrow> bool \<Rightarrow> ptr \<Rightarrow> u64 \<Rightarrow> alt_globals \<Rightarrow> int \<times> alt_globals" where
  "AirPlayReceiverSessionMakeModeStateFromDictionary found rc turns marker receiver now g =
     (if \<not> found then (-1, g)
      else case turns of
        None \<Rightarrow> (rc, g)
      | Some original_turns \<Rightarrow>
          if rc \<noteq> 0 \<or> \<not> private111_active_for_receiver marker receiver g then (rc, g)
          else let (changed, g) = note_route_state receiver (original_turns = 1) g
          in (rc, if changed then queue_route_view_for_receiver receiver ALTSCREEN_VIEW_REACQUIRE_DELAY_MS now g else g))"

text \<open>rc is the answer of the stock function, self the thread that calls.\<close>

definition ScreenStreamProcessData :: "bool \<Rightarrow> int \<Rightarrow> bool \<Rightarrow> nat \<Rightarrow> u64 \<Rightarrow> alt_globals \<Rightarrow> int \<times> alt_globals" where
  "ScreenStreamProcessData found rc enabled self now g =
     (if \<not> found then (-1, g)
      else if rc \<noteq> 0 \<or> \<not> enabled then (rc, g)
      else case note_first_frame self g of
        (None, g) \<Rightarrow> (rc, g)
      | (Some i, g) \<Rightarrow> (rc, request_cluster i now g))"

text \<open>Both are runs of the actions of Alt_Control, one after the other without another thread between them.\<close>

lemma remove_nth_head [simp]: "remove_nth 0 (x # xs) = xs"
  by (simp add: remove_nth_def)

lemma mode_state_acts:
  assumes "AirPlayReceiverSessionMakeModeStateFromDictionary True 0 (Some turns) marker receiver now (cs_g s) = (rc, g')"
  shows "\<exists>as \<in> {[A_PARSE marker receiver (turns = 1)], [A_PARSE marker receiver (turns = 1), A_NOTE 0],
        [A_PARSE marker receiver (turns = 1), A_NOTE 0, A_QUEUE 0 now]}. perform_all as s = Some (s\<lparr>cs_g := g'\<rparr>)"
proof (cases "private111_active_for_receiver marker receiver (cs_g s)")
  case False
  with assms show ?thesis by (simp add: AirPlayReceiverSessionMakeModeStateFromDictionary_def)
next
  case True
  obtain changed g1 where n: "note_route_state receiver (turns = 1) (cs_g s) = (changed, g1)" by (metis surj_pair)
  with assms True show ?thesis
    by (cases changed) (simp_all add: AirPlayReceiverSessionMakeModeStateFromDictionary_def)
qed

lemma frame_acts:
  assumes "ScreenStreamProcessData True 0 True self now (cs_g s) = (rc, g')"
    "\<And>i g. note_first_frame self (cs_g s) = (Some i, g) \<Longrightarrow> cs_phase s ! i = WORKER_RUNNING"
  shows "\<exists>as \<in> {[A_FRAME self], [A_FRAME self, A_CLUSTER 0 now]}. perform_all as s = Some (s\<lparr>cs_g := g'\<rparr>)"
proof (cases "fst (note_first_frame self (cs_g s))")
  case None
  then show ?thesis using assms(1)
    by (auto simp: ScreenStreamProcessData_def note_first_frame_def split: option.splits prod.splits if_splits)
next
  case (Some i)
  then obtain g where n: "note_first_frame self (cs_g s) = (Some i, g)" by (metis prod.collapse)
  with assms show ?thesis by (simp add: ScreenStreamProcessData_def)
qed

end
