(* ===== verification/Alt_Display.thy ===== *)
theory Alt_Display
  imports Cf_Library Alt_Trace
begin

text \<open>
  altscreen/native/altscreen_airplay.c: the answers of the head unit about itself. The stock answers are
  extended by a second display, its views and its addresses. The geometry comes from two files; the objects
  are those of Cf_Library.
\<close>

section \<open>The profile\<close>

record altscreen_rect =
  rc_x :: int
  rc_y :: int
  rc_w :: int
  rc_h :: int

record altscreen_profile =
  pr_w :: int
  pr_h :: int
  pr_fps :: int
  pr_physical_w :: int
  pr_physical_h :: int
  pr_view_count :: nat
  pr_safe :: "altscreen_rect list"

abbreviation ALTSCREEN_VIEW_COUNT_MAX :: nat where "ALTSCREEN_VIEW_COUNT_MAX \<equiv> 4"

text \<open>wide is the value of a sum that does not fit into an int, as in Alt_Trace.\<close>

definition rect_valid :: "(int \<Rightarrow> int) \<Rightarrow> altscreen_rect \<Rightarrow> int \<Rightarrow> int \<Rightarrow> bool" where
  "rect_valid wide r canvas_w canvas_h \<longleftrightarrow>
     \<not> (rc_x r < 0 \<or> rc_y r < 0 \<or> rc_w r \<le> 0 \<or> rc_h r \<le> 0) \<and>
     \<not> (c_int wide (rc_x r + rc_w r) > canvas_w \<or> c_int wide (rc_y r + rc_h r) > canvas_h)"

definition canvas_rect :: "int \<Rightarrow> int \<Rightarrow> altscreen_rect" where
  "canvas_rect w h = \<lparr>rc_x = 0, rc_y = 0, rc_w = w, rc_h = h\<rparr>"

definition profile_defaults :: altscreen_profile where
  "profile_defaults = \<lparr>pr_w = 800, pr_h = 480, pr_fps = 30, pr_physical_w = 200, pr_physical_h = 75,
     pr_view_count = 4, pr_safe = replicate ALTSCREEN_VIEW_COUNT_MAX (canvas_rect 800 480)\<rparr>"

text \<open>The first file: width, height, rate, features, and a safe area.\<close>

definition profile_numbers :: "(int \<Rightarrow> int) \<Rightarrow> int list \<Rightarrow> altscreen_profile \<Rightarrow> altscreen_profile" where
  "profile_numbers wide ns p =
     (case ns of
        w # h # fps # rest \<Rightarrow>
          if w \<ge> 320 \<and> w \<le> 4096 \<and> h \<ge> 200 \<and> h \<le> 2160 \<and> fps \<ge> 1 \<and> fps \<le> 60 then
            let p = p\<lparr>pr_w := w, pr_h := h, pr_fps := fps, pr_safe := (pr_safe p)[0 := canvas_rect w h, 1 := canvas_rect w h]\<rparr>
            in case rest of
                 [features, sx, sy, sw, sh] \<Rightarrow>
                   let r = \<lparr>rc_x = sx, rc_y = sy, rc_w = sw, rc_h = sh\<rparr>
                   in if rect_valid wide r w h then p\<lparr>pr_safe := (pr_safe p)[0 := r, 1 := r]\<rparr> else p
               | _ \<Rightarrow> p
          else p
      | _ \<Rightarrow> p)"

text \<open>A line of the second file, of which fgets takes at most 191 bytes.\<close>

definition profile_line :: "(int \<Rightarrow> int) \<Rightarrow> bytes \<Rightarrow> altscreen_profile \<Rightarrow> altscreen_profile" where
  "profile_line wide line p =
     (case sscanf wide (map D_LIT (ascii ''physical'') @ [D_INT, D_INT]) line of
        [a, b] \<Rightarrow>
          if a \<ge> 0 \<and> a \<le> 1000 \<and> b \<ge> 0 \<and> b \<le> 1000 then p\<lparr>pr_physical_w := a, pr_physical_h := b\<rparr> else p
      | _ \<Rightarrow>
          case sscanf wide (map D_LIT (ascii ''view'') @ replicate 5 D_INT) line of
            [a, b, c, d, e] \<Rightarrow>
              let r = \<lparr>rc_x = b, rc_y = c, rc_w = d, rc_h = e\<rparr>
              in if a < 0 \<or> a \<ge> int ALTSCREEN_VIEW_COUNT_MAX \<or> \<not> rect_valid wide r (pr_w p) (pr_h p) then p
                 else p\<lparr>pr_safe := (pr_safe p)[nat a := r]\<rparr>
          | _ \<Rightarrow> p)"

definition fgets_length :: "bytes \<Rightarrow> nat" where
  "fgets_length bs = (let n = length (takeWhile (\<lambda>c. c \<noteq> 10) bs) in min 191 (if n < length bs then n + 1 else n))"

lemma fgets_length_pos: "bs \<noteq> [] \<Longrightarrow> 0 < fgets_length bs"
  by (cases bs) (auto simp: fgets_length_def Let_def)

function fgets_lines :: "bytes \<Rightarrow> bytes list" where
  "fgets_lines bs =
     (if bs = [] then []
      else takeWhile (\<lambda>c. c \<noteq> 0) (take (fgets_length bs) bs) # fgets_lines (drop (fgets_length bs) bs))"
  by auto
termination
  by (relation "measure length") (auto simp: fgets_length_pos)

declare fgets_lines.simps [simp del]

text \<open>Both files, None for one that cannot be opened.\<close>

definition load_profile :: "(int \<Rightarrow> int) \<Rightarrow> bytes option \<Rightarrow> bytes option \<Rightarrow> altscreen_profile" where
  "load_profile wide profile views =
     (let p = profile_defaults;
          p = (case profile of None \<Rightarrow> p | Some bs \<Rightarrow> profile_numbers wide (sscanf wide (replicate 8 D_INT) bs) p);
          p = (case views of None \<Rightarrow> p | Some bs \<Rightarrow> foldl (\<lambda>p line. profile_line wide line p) p (fgets_lines bs))
      in p\<lparr>pr_view_count := ALTSCREEN_VIEW_COUNT_MAX\<rparr>)"

section \<open>Look-up of the library\<close>

definition cf_required :: "string list" where
  "cf_required = [
     ''CFStringCreateWithCString'', ''CFGetTypeID'', ''CFArrayGetTypeID'', ''CFDictionaryGetTypeID'',
     ''CFArrayCreateMutableCopy'', ''CFArrayCreateMutable'', ''CFArrayAppendValue'', ''CFArrayGetCount'',
     ''CFArrayGetValueAtIndex'', ''CFDictionaryCreateMutable'', ''CFDictionaryGetValue'', ''CFDictionarySetValue'',
     ''CFDictionaryGetCount'', ''CFDictionaryGetKeysAndValues'', ''CFDictionarySetInt64'', ''CFRetain'', ''CFRelease'',
     ''CFEqual'']"

definition cf_either :: "(string \<times> string) list" where
  "cf_either = [
     (''kCFTypeDictionaryKeyCallBacks'', ''kCFLDictionaryKeyCallBacksCFLTypes''),
     (''kCFTypeArrayCallBacks'', ''kCFLArrayCallBacksCFLTypes'')]"

text \<open>object is what the pointer of that name points to.\<close>

definition cf_boolean :: "(string \<Rightarrow> bool) \<Rightarrow> (string \<Rightarrow> ptr) \<Rightarrow> string \<Rightarrow> string \<Rightarrow> ptr" where
  "cf_boolean found object a b = (if found a then object a else if found b then object b else NULL)"

definition resolve_cf :: "(string \<Rightarrow> bool) \<Rightarrow> (string \<Rightarrow> ptr) \<Rightarrow> cf_lib \<Rightarrow> cf_lib" where
  "resolve_cf found object lib =
     (let t = cf_boolean found object ''kCFBooleanTrue'' ''kCFLBooleanTrue'';
          f = cf_boolean found object ''kCFBooleanFalse'' ''kCFLBooleanFalse''
      in lib\<lparr>cl_true := t, cl_false := f,
             cl_ready := list_all found cf_required \<and> list_all (\<lambda>(a, b). found a \<or> found b) cf_either \<and> t \<noteq> NULL \<and> f \<noteq> NULL\<rparr>)"

definition altscreen_enabled :: "string option \<Rightarrow> bool \<Rightarrow> bool" where
  "altscreen_enabled env marker \<longleftrightarrow> env = Some ''1'' \<or> marker"

section \<open>Objects\<close>

definition name_is :: "cf_lib \<Rightarrow> ptr \<Rightarrow> string \<Rightarrow> bool cf" where
  "name_is lib obj name =
     (if obj = NULL then ret False
      else do {
        key \<leftarrow> cfs lib name;
        if key = NULL then ret False
        else do { same \<leftarrow> ask_ok lib (CF_EQUAL obj key); tell (CF_RELEASE key); ret same } })"

definition property_is :: "cf_lib \<Rightarrow> ptr \<Rightarrow> string \<Rightarrow> bool cf" where
  "property_is lib property name = name_is lib property name"

definition tracked_property_name :: "cf_lib \<Rightarrow> ptr \<Rightarrow> string option cf" where
  "tracked_property_name lib property =
     (if \<not> cl_ready lib then ret None
      else do {
        a \<leftarrow> property_is lib property ''displays'';
        if a then ret (Some ''displays'')
        else do {
          b \<leftarrow> property_is lib property ''altScreenURLs'';
          if b then ret (Some ''altScreenURLs'')
          else do {
            c \<leftarrow> property_is lib property ''altScreenSuggestUIURLs'';
            ret (if c then Some ''altScreenSuggestUIURLs'' else None) } } })"

definition dict_get_obj :: "cf_lib \<Rightarrow> ptr \<Rightarrow> string \<Rightarrow> ptr cf" where
  "dict_get_obj lib dict name = do {
     d \<leftarrow> is_dict lib dict;
     if \<not> d then ret NULL
     else do {
       key \<leftarrow> cfs lib name;
       if key = NULL then ret NULL
       else do { v \<leftarrow> ask lib (CF_GET dict key); tell (CF_RELEASE key); ret v } } }"

definition clone_dict_manual :: "cf_lib \<Rightarrow> ptr \<Rightarrow> ptr cf" where
  "clone_dict_manual lib source = do {
     d \<leftarrow> is_dict lib source;
     if d then copy_entries lib set_entries source else ret NULL }"

definition key_is_name :: "cf_lib \<Rightarrow> ptr \<Rightarrow> string \<Rightarrow> bool cf" where
  "key_is_name lib key name = name_is lib key name"

definition skip_names :: "string list" where
  "skip_names = [''primaryInputDevice'', ''edid'', ''platformLayer'', ''avcc'', ''xOffset'', ''yOffset'',
     ''windowWidth'', ''windowHeight'']"

fun key_in :: "cf_lib \<Rightarrow> ptr \<Rightarrow> string list \<Rightarrow> bool cf" where
  "key_in lib key [] = ret False"
| "key_in lib key (n # ns) = do { same \<leftarrow> key_is_name lib key n; if same then ret True else key_in lib key ns }"

definition alt_clone_skip_key :: "cf_lib \<Rightarrow> ptr \<Rightarrow> bool cf" where
  "alt_clone_skip_key lib key = key_in lib key skip_names"

fun set_unskipped :: "cf_lib \<Rightarrow> ptr \<Rightarrow> (ptr \<times> ptr) list \<Rightarrow> unit cf" where
  "set_unskipped lib out [] = ret ()"
| "set_unskipped lib out ((k, v) # es) = do {
     skip \<leftarrow> alt_clone_skip_key lib k;
     if skip then set_unskipped lib out es
     else do { tell (CF_SET out k v); set_unskipped lib out es } }"

definition clone_alt_display_base :: "cf_lib \<Rightarrow> ptr \<Rightarrow> ptr cf" where
  "clone_alt_display_base lib source = do {
     d \<leftarrow> is_dict lib source;
     if d then copy_entries lib (set_unskipped lib) source else ret NULL }"

text \<open>Strings appended one after the other, until one cannot be created.\<close>

fun append_strings :: "cf_lib \<Rightarrow> ptr \<Rightarrow> string list \<Rightarrow> bool cf" where
  "append_strings lib out [] = ret True"
| "append_strings lib out (s # ss) = do {
     item \<leftarrow> cfs lib s;
     if item = NULL then ret False
     else do { tell (CF_APPEND out item); tell (CF_RELEASE item); append_strings lib out ss } }"

definition make_enabled_features :: "cf_lib \<Rightarrow> ptr cf" where
  "make_enabled_features lib = do {
     out \<leftarrow> new_array lib;
     if out = NULL then ret NULL
     else do {
       ok \<leftarrow> append_strings lib out [''altScreen'', ''viewAreas''];
       if ok then ret out else do { tell (CF_RELEASE out); ret NULL } } }"

definition set_i64 :: "cf_lib \<Rightarrow> ptr \<Rightarrow> string \<Rightarrow> int \<Rightarrow> bool cf" where
  "set_i64 lib dict name v = do {
     key \<leftarrow> cfs lib name;
     if key = NULL then ret False
     else do { rc \<leftarrow> ask_num lib (CF_SET_I64 dict key v); tell (CF_RELEASE key); ret (rc = 0) } }"

definition set_obj :: "cf_lib \<Rightarrow> ptr \<Rightarrow> string \<Rightarrow> ptr \<Rightarrow> bool cf" where
  "set_obj lib dict name v = do {
     key \<leftarrow> cfs lib name;
     if key = NULL \<or> v = NULL then do { release_if key; ret False }
     else do { tell (CF_SET dict key v); tell (CF_RELEASE key); ret True } }"

definition set_string :: "cf_lib \<Rightarrow> ptr \<Rightarrow> string \<Rightarrow> string \<Rightarrow> bool cf" where
  "set_string lib dict name v = do {
     str \<leftarrow> cfs lib v;
     if str = NULL then ret False
     else do { ok \<leftarrow> set_obj lib dict name str; tell (CF_RELEASE str); ret ok } }"

definition set_bool :: "cf_lib \<Rightarrow> ptr \<Rightarrow> string \<Rightarrow> bool \<Rightarrow> bool cf" where
  "set_bool lib dict name v = set_obj lib dict name (if v then cl_true lib else cl_false lib)"

text \<open>A chain of conditions, which ends at the first that fails.\<close>

fun all_set :: "bool cf list \<Rightarrow> bool cf" where
  "all_set [] = ret True"
| "all_set (m # ms) = do { ok \<leftarrow> m; if ok then all_set ms else ret False }"

section \<open>The second display\<close>

definition make_safe_area :: "cf_lib \<Rightarrow> altscreen_rect \<Rightarrow> ptr cf" where
  "make_safe_area lib r = do {
     safe \<leftarrow> new_dict lib;
     if safe = NULL then ret NULL
     else do {
       ok \<leftarrow> all_set [set_i64 lib safe ''originXPixels'' (rc_x r), set_i64 lib safe ''originYPixels'' (rc_y r),
                     set_i64 lib safe ''widthPixels'' (rc_w r), set_i64 lib safe ''heightPixels'' (rc_h r)];
       if ok then ret safe else do { tell (CF_RELEASE safe); ret NULL } } }"

text \<open>The loop over the views; the array is released by the caller when it fails.\<close>

fun fill_view_areas :: "cf_lib \<Rightarrow> altscreen_profile \<Rightarrow> ptr \<Rightarrow> altscreen_rect list \<Rightarrow> bool cf" where
  "fill_view_areas lib p areas [] = ret True"
| "fill_view_areas lib p areas (r # rs) = do {
     area \<leftarrow> new_dict lib;
     safe \<leftarrow> make_safe_area lib r;
     if area = NULL \<or> safe = NULL then do { release_if safe; release_if area; ret False }
     else do {
       ok \<leftarrow> all_set [set_i64 lib area ''originXPixels'' 0, set_i64 lib area ''originYPixels'' 0,
                     set_i64 lib area ''widthPixels'' (pr_w p), set_i64 lib area ''heightPixels'' (pr_h p),
                     set_bool lib area ''drawUIOutsideSafeArea'' False, set_bool lib area ''viewAreaTransitionControl'' False,
                     set_obj lib area ''safeArea'' safe];
       if \<not> ok then do { tell (CF_RELEASE safe); tell (CF_RELEASE area); ret False }
       else do {
         tell (CF_APPEND areas area);
         tell (CF_RELEASE safe);
         tell (CF_RELEASE area);
         fill_view_areas lib p areas rs } } }"

definition make_view_areas :: "cf_lib \<Rightarrow> altscreen_profile \<Rightarrow> ptr cf" where
  "make_view_areas lib p = do {
     areas \<leftarrow> new_array lib;
     if areas = NULL then ret NULL
     else do {
       ok \<leftarrow> fill_view_areas lib p areas (take (pr_view_count p) (pr_safe p));
       if ok then ret areas else do { tell (CF_RELEASE areas); ret NULL } } }"

definition ALTSCREEN_INITIAL_URL :: string where
  "ALTSCREEN_INITIAL_URL = ''maps:/car/instrumentcluster''"

definition make_cluster_urls :: "cf_lib \<Rightarrow> ptr cf" where
  "make_cluster_urls lib = do {
     out \<leftarrow> new_array lib;
     if out = NULL then ret NULL
     else do {
       ok \<leftarrow> append_strings lib out [''maps:/car/instrumentcluster'', ALTSCREEN_INITIAL_URL, ''maps:/car/instrumentcluster/instructioncard''];
       if ok then ret out else do { tell (CF_RELEASE out); ret NULL } } }"

definition make_allowed_cluster_urls :: "cf_lib \<Rightarrow> ptr cf" where
  "make_allowed_cluster_urls lib = do {
     out \<leftarrow> make_cluster_urls lib;
     if out = NULL then ret NULL
     else do {
       ok \<leftarrow> append_strings lib out [''maps:/car/instrumentcluster?maneuverLayout=leftAligned'',
                                   ''maps:/car/instrumentcluster?maneuverLayout=topAligned''];
       if ok then ret out else do { tell (CF_RELEASE out); ret NULL } } }"

definition describe_display :: "cf_lib \<Rightarrow> altscreen_profile \<Rightarrow> ptr \<Rightarrow> ptr \<Rightarrow> ptr \<Rightarrow> bool cf" where
  "describe_display lib p alt view_areas suggest_urls = all_set
     [set_string lib alt ''uuid'' ''E0CB6FB0-0000-0000-0000-0000C0FFEE58'', set_i64 lib alt ''features'' 0,
      set_i64 lib alt ''maxFPS'' (pr_fps p), set_i64 lib alt ''widthPixels'' (pr_w p),
      set_i64 lib alt ''heightPixels'' (pr_h p), set_i64 lib alt ''widthPhysical'' (pr_physical_w p),
      set_i64 lib alt ''heightPhysical'' (pr_physical_h p), set_i64 lib alt ''initialViewArea'' 0,
      set_obj lib alt ''viewAreas'' view_areas, set_obj lib alt ''altScreenSuggestUIURLs'' suggest_urls,
      set_i64 lib alt ''type'' 111, set_bool lib alt ''showsInstruments'' True,
      set_string lib alt ''initialURL'' ALTSCREEN_INITIAL_URL]"

definition make_alt_display :: "cf_lib \<Rightarrow> altscreen_profile \<Rightarrow> ptr \<Rightarrow> ptr cf" where
  "make_alt_display lib p stock_main = do {
     alt \<leftarrow> clone_alt_display_base lib stock_main;
     view_areas \<leftarrow> make_view_areas lib p;
     suggest_urls \<leftarrow> make_cluster_urls lib;
     ok \<leftarrow> (if alt = NULL \<or> view_areas = NULL \<or> suggest_urls = NULL then ret False
            else describe_display lib p alt view_areas suggest_urls);
     release_if suggest_urls;
     release_if view_areas;
     if ok then ret alt else do { release_if alt; ret NULL } }"

definition add_alt_display :: "cf_lib \<Rightarrow> altscreen_profile \<Rightarrow> ptr \<Rightarrow> ptr cf" where
  "add_alt_display lib p stock = do {
     a \<leftarrow> is_array lib stock;
     if \<not> a then ret NULL
     else do {
       count \<leftarrow> ask_num lib (CF_COUNT stock);
       main \<leftarrow> (if count < 1 then ret False else do { first \<leftarrow> ask lib (CF_AT stock 0); is_dict lib first });
       if \<not> main then ret NULL
       else do {
         out \<leftarrow> ask lib (CF_COPY_ARRAY stock (count + 1));
         first \<leftarrow> ask lib (CF_AT stock 0);
         alt \<leftarrow> make_alt_display lib p first;
         if out = NULL \<or> alt = NULL then do { release_if out; release_if alt; ret NULL }
         else do { tell (CF_APPEND out alt); tell (CF_RELEASE alt); ret out } } } }"

section \<open>The replaced functions\<close>

text \<open>enabled is altscreen_enabled, found whether the stock function was found.\<close>

definition patch_property_result :: "cf_lib \<Rightarrow> bool \<Rightarrow> altscreen_profile \<Rightarrow> ptr \<Rightarrow> ptr \<Rightarrow> ptr cf" where
  "patch_property_result lib enabled p stock property =
     (if \<not> enabled \<or> \<not> cl_ready lib then ret stock
      else do {
        name \<leftarrow> tracked_property_name lib property;
        patched \<leftarrow> (if name = Some ''displays'' then add_alt_display lib p stock
                   else if name = Some ''altScreenURLs'' then make_allowed_cluster_urls lib
                   else if name = Some ''altScreenSuggestUIURLs'' then make_cluster_urls lib
                   else ret NULL);
        if patched \<noteq> NULL then do { release_if stock; ret patched } else ret stock })"

definition AirPlayReceiverServerPlatformCopyProperty :: "cf_lib \<Rightarrow> bool \<Rightarrow> bool \<Rightarrow> altscreen_profile \<Rightarrow> ptr \<Rightarrow> ptr cf" where
  "AirPlayReceiverServerPlatformCopyProperty lib found enabled p property =
     (if \<not> found then ret NULL
      else do {
        name \<leftarrow> tracked_property_name lib property;
        stock \<leftarrow> ask lib (CF_PROPERTY 0 property);
        patch_property_result lib enabled p stock property })"

definition AirPlayReceiverSessionPlatformCopyProperty :: "cf_lib \<Rightarrow> bool \<Rightarrow> bool \<Rightarrow> altscreen_profile \<Rightarrow> ptr \<Rightarrow> ptr cf" where
  "AirPlayReceiverSessionPlatformCopyProperty lib found enabled p property =
     (if \<not> found then ret NULL
      else do {
        name \<leftarrow> tracked_property_name lib property;
        stock \<leftarrow> ask lib (CF_PROPERTY 1 property);
        patch_property_result lib enabled p stock property })"

text \<open>The flag of the result is whether -1 is stored through out_err; otherwise the stock function stores there.\<close>

definition AirPlayCopyServerInfo :: "cf_lib \<Rightarrow> bool \<Rightarrow> bool \<Rightarrow> altscreen_profile \<Rightarrow> (ptr \<times> bool) cf" where
  "AirPlayCopyServerInfo lib found enabled p =
     (if \<not> found then ret (NULL, True)
      else do {
        stock \<leftarrow> ask lib CF_INFO;
        d \<leftarrow> (if stock = NULL \<or> \<not> enabled \<or> \<not> cl_ready lib then ret False else is_dict lib stock);
        if \<not> d then ret (stock, False)
        else do {
          out \<leftarrow> clone_dict_manual lib stock;
          if out = NULL then ret (stock, False)
          else do {
            enabled_features \<leftarrow> make_enabled_features lib;
            ok \<leftarrow> (if enabled_features = NULL then ret False else set_obj lib out ''enabledFeatures'' enabled_features);
            if \<not> ok then do { release_if enabled_features; tell (CF_RELEASE out); ret (stock, False) }
            else do {
              tell (CF_RELEASE enabled_features);
              displays \<leftarrow> dict_get_obj lib out ''displays'';
              a \<leftarrow> is_array lib displays;
              display_count \<leftarrow> (if a then ask_num lib (CF_COUNT displays) else ret 0);
              patched \<leftarrow> (if a \<and> display_count = 1 then add_alt_display lib p displays else ret NULL);
              if patched \<noteq> NULL then do {
                set \<leftarrow> set_obj lib out ''displays'' patched;
                n \<leftarrow> (if set then ask_num lib (CF_COUNT patched) else ret display_count);
                tell (CF_RELEASE patched);
                tell (CF_RELEASE stock);
                ret (out, False) }
              else do { tell (CF_RELEASE stock); ret (out, False) } } } } })"

section \<open>The ledger\<close>

text \<open>All of it is strict: the stock objects are read and copied, and what is changed was created here.\<close>

lemma name_is_gives: "amounts True (name_is lib obj name) (\<lambda>_. {#})"
  by (auto simp: name_is_def intro!: strictI strict_ledger)

lemmas wp_name_is [strict_ledger] = strictD [OF name_is_gives]

lemma tracked_property_name_gives: "amounts True (tracked_property_name lib property) (\<lambda>_. {#})"
  by (auto simp: tracked_property_name_def property_is_def intro!: strictI strict_ledger)

lemma dict_get_obj_gives: "amounts True (dict_get_obj lib d name) (\<lambda>_. {#})"
  by (auto simp: dict_get_obj_def intro!: strictI strict_ledger)

lemma key_in_gives: "amounts True (key_in lib key ns) (\<lambda>_. {#})"
proof (induction ns)
  case (Cons n ns)
  show ?case by (auto simp: key_is_name_def intro!: strictI strict_ledger strictD [OF Cons])
qed (auto intro!: strictI)

lemmas wp_names [strict_ledger] = strictD [OF tracked_property_name_gives] strictD [OF dict_get_obj_gives] strictD [OF key_in_gives]

lemma set_unskipped_edits: "edits out (set_unskipped lib out es)"
proof (induction lib out es rule: set_unskipped.induct)
  case (2 lib out k v es)
  show ?case by (auto simp: alt_clone_skip_key_def intro!: editsI strict_ledger editsD [OF 2(1)] editsD [OF 2(2)])
qed (auto intro!: editsI)

lemma clone_gives: "amounts True (clone_dict_manual lib s) own_ref" "amounts True (clone_alt_display_base lib s) own_ref"
  by (auto simp: clone_dict_manual_def clone_alt_display_base_def
      intro!: strictI strict_ledger strictD [OF copy_entries_gives(2) [OF set_entries_gives(2)]]
        strictD [OF copy_entries_gives(2) [OF set_unskipped_edits]])

lemmas wp_clone [strict_ledger] = clone_gives [THEN strictD]

lemma append_strings_edits: "edits out (append_strings lib out ss)"
proof (induction ss)
  case (Cons s ss)
  show ?case by (auto intro!: editsI strict_ledger editsD [OF Cons])
qed (auto intro!: editsI)

lemmas wp_append_strings [strict_ledger] = editsD [OF append_strings_edits]

lemma set_edits: "edits d (set_i64 lib d name n)" "edits d (set_obj lib d name v)"
  by (auto simp: set_i64_def set_obj_def intro!: editsI strict_ledger)

lemmas wp_set [strict_ledger] = set_edits [THEN editsD]

lemma set_more_edits: "edits d (set_string lib d name s)" "edits d (set_bool lib d name v)"
  by (auto simp: set_string_def set_bool_def intro!: editsI strict_ledger)

lemmas wp_set_more [strict_ledger] = set_more_edits [THEN editsD]

lemma all_set_edits: "list_all (edits d) ms \<Longrightarrow> edits d (all_set ms)"
proof (induction ms)
  case (Cons m ms)
  then have "edits d m" "edits d (all_set ms)" by simp_all
  then show ?case by (auto intro!: editsI elim!: editsD)
qed (auto intro!: editsI)

lemma describe_display_edits: "edits alt (describe_display lib p alt view_areas suggest_urls)"
  unfolding describe_display_def by (rule all_set_edits) (simp add: set_edits set_more_edits)

lemmas wp_describe_display [strict_ledger] = editsD [OF describe_display_edits]

lemma make_gives:
  "amounts True (make_enabled_features lib) own_ref" "amounts True (make_cluster_urls lib) own_ref"
  by (auto simp: make_enabled_features_def make_cluster_urls_def intro!: strictI strict_ledger simp del: append_strings.simps)

lemmas wp_make [strict_ledger] = make_gives [THEN strictD]

lemma make_allowed_cluster_urls_gives: "amounts True (make_allowed_cluster_urls lib) own_ref"
  by (auto simp: make_allowed_cluster_urls_def intro!: strictI strict_ledger simp del: append_strings.simps)

lemmas wp_make_allowed [strict_ledger] = strictD [OF make_allowed_cluster_urls_gives]

lemma make_safe_area_gives: "amounts True (make_safe_area lib r) own_ref"
  by (auto simp: make_safe_area_def intro!: strictI strict_ledger)

lemmas wp_make_safe_area [strict_ledger] = strictD [OF make_safe_area_gives]

lemma fill_view_areas_edits: "edits areas (fill_view_areas lib p areas rs)"
proof (induction rs)
  case (Cons r rs)
  show ?case
    by (auto simp: own_ref_def intro!: editsI strict_ledger editsD [OF Cons])
qed (auto intro!: editsI)

lemmas wp_fill_view_areas [strict_ledger] = editsD [OF fill_view_areas_edits]

lemma make_view_areas_gives: "amounts True (make_view_areas lib p) own_ref"
  by (auto simp: make_view_areas_def intro!: strictI strict_ledger)

lemmas wp_make_view_areas [strict_ledger] = strictD [OF make_view_areas_gives]

lemma make_alt_display_gives: "amounts True (make_alt_display lib p main) own_ref"
proof (rule strictI)
  fix h assume h: "sound True h"
  let ?Q = "\<lambda>x h'. sound True h' \<and> held_refs h' = held_refs h + own_ref x"
  have all: "wp (if alt = NULL \<or> va = NULL \<or> su = NULL then ret False else describe_display lib p alt va su)
      (\<lambda>ok h'. sound True h' \<and> held_refs h' = held_refs g \<and> (ok \<longrightarrow> alt \<noteq> NULL)) g"
    if "sound True g" "held_refs g = held_refs h + own_ref alt + own_ref va + own_ref su" for alt va su g
    using that by (auto intro!: wp_describe_display)
  have tail: "wp (do { release_if su; release_if va; if ok then ret alt else do { release_if alt; ret NULL } }) ?Q g"
    if "sound True g" "held_refs g = held_refs h + own_ref alt + own_ref va + own_ref su" for ok alt va su g
    using that by (auto intro!: strict_ledger)
  show "wp (make_alt_display lib p main) ?Q h"
    unfolding make_alt_display_def wp_bind
    apply (rule wp_clone(2) [OF h])
    apply (rule wp_make_view_areas, assumption)
    apply (rule wp_make(2), assumption)
    apply (rule wp_mono)
     apply (rule all)
      apply assumption
     apply (simp only:)
    apply (rule tail [unfolded wp_bind])
     apply simp
    apply simp
    done
qed

lemmas wp_make_alt_display [strict_ledger] = strictD [OF make_alt_display_gives]

lemma add_alt_display_gives: "amounts True (add_alt_display lib p stock) own_ref"
proof (rule strictI)
  fix h assume h: "sound True h"
  let ?Q = "\<lambda>x h'. sound True h' \<and> held_refs h' = held_refs h + own_ref x"
  have tail: "wp (if out = NULL \<or> alt = NULL then do { release_if out; release_if alt; ret NULL }
        else do { tell (CF_APPEND out alt); tell (CF_RELEASE alt); ret out }) ?Q g"
    if "sound True g" "held_refs g = held_refs h + own_ref out + own_ref alt" for out alt g
    using that by (auto intro!: strict_ledger)
  have copy: "wp (do { out \<leftarrow> ask lib (CF_COPY_ARRAY stock (n + 1)); first \<leftarrow> ask lib (CF_AT stock 0);
        alt \<leftarrow> make_alt_display lib p first;
        if out = NULL \<or> alt = NULL then do { release_if out; release_if alt; ret NULL }
        else do { tell (CF_APPEND out alt); tell (CF_RELEASE alt); ret out } }) ?Q g"
    if g: "sound True g" "held_refs g = held_refs h" for n g
    unfolding wp_bind
    apply (rule wp_calls(1) [where b = True, OF g(1)], simp, simp)
    apply (rule wp_calls(1) [where b = True], assumption, simp, simp)
    apply (rule wp_make_alt_display, assumption)
    apply (rule tail [unfolded wp_bind], assumption)
    apply (simp add: g(2))
    done
  have head: "wp (if n < 1 then ret False else do { first \<leftarrow> ask lib (CF_AT stock 0); is_dict lib first })
      (\<lambda>m h'. sound True h' \<and> held_refs h' = held_refs g) g" if "sound True g" for n g
    using that by (auto intro!: strict_ledger)
  show "wp (add_alt_display lib p stock) ?Q h"
    unfolding add_alt_display_def wp_bind
    apply (rule wp_helpers(4) [where b = True, OF h])
    apply (split if_split, intro conjI impI)
     apply simp
    apply (simp only: wp_bind)
    apply (rule wp_questions(1) [where b = True], assumption, simp, simp, simp)
    apply (rule wp_mono, rule head, assumption)
    apply (split if_split, intro conjI impI)
     apply simp
    apply (rule copy, simp, simp)
    done
qed

lemmas wp_add_alt_display [strict_ledger] = strictD [OF add_alt_display_gives]

lemma wp_patch_property_result:
  assumes "sound True h" "own_ref stock \<subseteq># held_refs h"
    "\<And>x h'. sound True h' \<Longrightarrow> held_refs h' = held_refs h - own_ref stock + own_ref x \<Longrightarrow> Q x h'"
  shows "wp (patch_property_result lib enabled p stock property) Q h"
proof -
  have patch: "wp (if name = Some ''displays'' then add_alt_display lib p stock
                   else if name = Some ''altScreenURLs'' then make_allowed_cluster_urls lib
                   else if name = Some ''altScreenSuggestUIURLs'' then make_cluster_urls lib
                   else ret NULL) (\<lambda>x h'. sound True h' \<and> held_refs h' = held_refs g + own_ref x) g"
    if "sound True g" for name g
    using that by (auto intro: wp_add_alt_display wp_make_allowed wp_make(2))
  have tail: "wp (if x \<noteq> NULL then do { release_if stock; ret x } else ret stock) Q g"
    if "sound True g" "held_refs g = held_refs h + own_ref x" for x g
  proof (cases "x = NULL")
    case True
    with that assms(2) show ?thesis by (auto intro!: assms(3))
  next
    case False
    have "own_ref stock \<subseteq># held_refs g" using that(2) assms(2) by (metis mset_subset_eq_add_left subset_mset.order_trans)
    moreover have "add_mset x (held_refs h) - own_ref stock = add_mset x (held_refs h - own_ref stock)"
      using subset_mset.diff_add_assoc2 [OF assms(2), of "{#x#}"] by simp
    ultimately show ?thesis using that False by (auto intro!: wp_release_if [where b = True] assms(3))
  qed
  show ?thesis
  proof (cases "enabled \<and> cl_ready lib")
    case True
    then have "wp (tracked_property_name lib property) (\<lambda>name h'. sound True h' \<and> held_refs h' = held_refs h) h"
      by (auto intro: wp_names(1) [OF assms(1)])
    with True show ?thesis
      unfolding patch_property_result_def
      apply (simp del: release_if_def split del: if_split)
      apply (erule wp_mono)
      apply (rule wp_mono, rule patch, simp)
      subgoal premises prems for name h1 x h2 using tail [of h2 x] prems by simp
      done
  next
    case False
    with assms(1,2) show ?thesis by (auto simp: patch_property_result_def intro!: assms(3))
  qed
qed

lemma copy_property_gives:
  "amounts True (AirPlayReceiverServerPlatformCopyProperty lib found enabled p property) own_ref"
  "amounts True (AirPlayReceiverSessionPlatformCopyProperty lib found enabled p property) own_ref"
  by (auto simp: AirPlayReceiverServerPlatformCopyProperty_def AirPlayReceiverSessionPlatformCopyProperty_def
      intro!: strictI wp_names(1) wp_calls(1) [where b = True] wp_patch_property_result)

lemma server_info_gives: "amounts True (AirPlayCopyServerInfo lib found enabled p) (\<lambda>x. own_ref (fst x))"
proof (rule strictI)
  fix h assume h: "sound True h"
  let ?Q = "\<lambda>x h'. sound True h' \<and> held_refs h' = held_refs h + own_ref (fst x)"
  have finish: "wp (if patched \<noteq> NULL then do {
                set \<leftarrow> set_obj lib out ''displays'' patched;
                n \<leftarrow> (if set then ask_num lib (CF_COUNT patched) else ret c);
                tell (CF_RELEASE patched);
                tell (CF_RELEASE stock);
                ret (out, False) }
              else do { tell (CF_RELEASE stock); ret (out, False) }) ?Q g"
    if "sound True g" "held_refs g = add_mset out (add_mset stock (held_refs h)) + own_ref patched" "out \<noteq> NULL"
    for patched out stock c g using that by (auto intro!: strict_ledger)
  have add: "wp (if a \<and> c = 1 then add_alt_display lib p displays else ret NULL)
      (\<lambda>x h'. sound True h' \<and> held_refs h' = held_refs g + own_ref x) g" if "sound True g" for a c displays g
    using that by (auto intro: wp_add_alt_display)
  have displays: "wp (do {
              displays \<leftarrow> dict_get_obj lib out ''displays'';
              a \<leftarrow> is_array lib displays;
              display_count \<leftarrow> (if a then ask_num lib (CF_COUNT displays) else ret 0);
              patched \<leftarrow> (if a \<and> display_count = 1 then add_alt_display lib p displays else ret NULL);
              if patched \<noteq> NULL then do {
                set \<leftarrow> set_obj lib out ''displays'' patched;
                n \<leftarrow> (if set then ask_num lib (CF_COUNT patched) else ret display_count);
                tell (CF_RELEASE patched);
                tell (CF_RELEASE stock);
                ret (out, False) }
              else do { tell (CF_RELEASE stock); ret (out, False) } }) ?Q g"
    if g: "sound True g" "held_refs g = add_mset out (add_mset stock (held_refs h))" "out \<noteq> NULL" for out stock g
  proof -
    have count: "wp (if a then ask_num lib (CF_COUNT d) else ret 0) (\<lambda>c h'. sound True h' \<and> held_refs h' = held_refs g') g'"
      if "sound True g'" for a d g' using that by (auto intro!: wp_questions(1) [where b = True])
    show ?thesis
      unfolding wp_bind
      apply (rule wp_names(2) [OF g(1)])
      apply (rule wp_helpers(4) [where b = True], assumption)
      apply (rule wp_mono, rule count, assumption)
      apply (rule wp_mono, rule add, simp)
      apply (rule finish [unfolded wp_bind], simp)
       apply (simp add: g(2))
      apply (rule g(3))
      done
  qed
  show "wp (AirPlayCopyServerInfo lib found enabled p) ?Q h"
  proof (cases found)
    case False
    then show ?thesis using h by (simp add: AirPlayCopyServerInfo_def)
  next
    case True
    have dict: "wp (if stock = NULL \<or> \<not> enabled \<or> \<not> cl_ready lib then ret False else is_dict lib stock)
        (\<lambda>d h'. sound True h' \<and> held_refs h' = held_refs g \<and> (d \<longrightarrow> stock \<noteq> NULL)) g" if "sound True g" for stock g
      using that by (auto intro!: wp_helpers(5) [where b = True])
    have features: "wp (if e = NULL then ret False else set_obj lib out ''enabledFeatures'' e)
        (\<lambda>ok h'. sound True h' \<and> held_refs h' = held_refs g \<and> (ok \<longrightarrow> e \<noteq> NULL)) g"
      if "sound True g" "out \<in># held_refs g" for e out g using that by (auto intro!: wp_set(2))
    show ?thesis
      unfolding AirPlayCopyServerInfo_def
      apply (simp only: True not_True_eq_False if_False wp_bind)
      apply (rule wp_calls(1) [where b = True, OF h], simp, simp)
      apply (rule wp_mono, rule dict, assumption)
      apply (split if_split, intro conjI impI)
       apply simp
      apply (simp only: wp_bind)
      apply (rule wp_clone(1), simp)
      apply (split if_split, intro conjI impI)
       apply simp
      apply (simp only: wp_bind)
      apply (rule wp_make(1), simp)
      apply (rule wp_mono, rule features, simp, simp)
      apply (split if_split, intro conjI impI)
       apply (auto intro!: strict_ledger)[1]
      apply (simp only: wp_bind)
      apply (rule wp_tell [where b = True], simp, simp, simp, simp)
      apply (rule displays [unfolded wp_bind], simp, simp, simp)
      done
  qed
qed

section \<open>The geometry\<close>

definition rect_inside :: "altscreen_rect \<Rightarrow> int \<Rightarrow> int \<Rightarrow> bool" where
  "rect_inside r w h \<longleftrightarrow> 0 \<le> rc_x r \<and> 0 \<le> rc_y r \<and> 0 < rc_w r \<and> 0 < rc_h r \<and> rc_x r + rc_w r \<le> w \<and> rc_y r + rc_h r \<le> h"

text \<open>A sum of two large numbers does not come out small.\<close>

definition no_wrap :: "(int \<Rightarrow> int) \<Rightarrow> bool" where
  "no_wrap wide \<longleftrightarrow> (\<forall>n \<ge> 2 ^ 31. wide n > 4096)"

lemma c_int_le: "no_wrap wide \<Longrightarrow> 0 \<le> n \<Longrightarrow> m \<le> 4096 \<Longrightarrow> c_int wide n \<le> m \<Longrightarrow> n \<le> m"
  by (cases "n < 2 ^ 31") (auto simp: c_int_def no_wrap_def not_less intro: ccontr)

lemma rect_valid_inside: "no_wrap wide \<Longrightarrow> w \<le> 4096 \<Longrightarrow> h \<le> 4096 \<Longrightarrow> rect_valid wide r w h \<Longrightarrow> rect_inside r w h"
  using c_int_le [of wide "rc_x r + rc_w r" w] c_int_le [of wide "rc_y r + rc_h r" h]
  by (auto simp: rect_valid_def rect_inside_def)

text \<open>The views 2 and 3 keep the area of the default canvas when no line names them.\<close>

definition profile_ok :: "altscreen_profile \<Rightarrow> bool" where
  "profile_ok p \<longleftrightarrow> 320 \<le> pr_w p \<and> pr_w p \<le> 4096 \<and> 200 \<le> pr_h p \<and> pr_h p \<le> 2160 \<and> 1 \<le> pr_fps p \<and> pr_fps p \<le> 60 \<and>
     0 \<le> pr_physical_w p \<and> pr_physical_w p \<le> 1000 \<and> 0 \<le> pr_physical_h p \<and> pr_physical_h p \<le> 1000 \<and> length (pr_safe p) = 4 \<and>
     (\<forall>i < 4. rect_inside (pr_safe p ! i) (pr_w p) (pr_h p) \<or> i \<ge> 2 \<and> pr_safe p ! i = canvas_rect 800 480)"

lemma canvas_inside [simp]: "rect_inside (canvas_rect w h) w h \<longleftrightarrow> 0 < w \<and> 0 < h"
  by (simp add: rect_inside_def canvas_rect_def)

lemma all_lt_4: "(\<forall>i < 4. P i) \<longleftrightarrow> P 0 \<and> P 1 \<and> P 2 \<and> P (3 :: nat)"
  by (auto simp: eval_nat_numeral less_Suc_eq)

lemma profile_defaults_ok: "profile_ok profile_defaults"
  by (simp add: profile_ok_def profile_defaults_def all_lt_4 nth_Cons' eval_nat_numeral)

lemma profile_numbers_ok:
  assumes "no_wrap wide"
  shows "profile_ok (profile_numbers wide ns profile_defaults)"
proof -
  have keep: "profile_ok profile_defaults" by (rule profile_defaults_ok)
  have two: "profile_ok (profile_defaults\<lparr>pr_w := w, pr_h := h, pr_fps := f, pr_safe := [r, r, canvas_rect 800 480, canvas_rect 800 480]\<rparr>)"
    if "320 \<le> w" "w \<le> 4096" "200 \<le> h" "h \<le> 2160" "1 \<le> f" "f \<le> 60" "rect_inside r w h" for w h f r
    using that by (simp add: profile_ok_def profile_defaults_def all_lt_4)
  have safe: "(pr_safe profile_defaults)[0 := a, Suc 0 := b] = [a, b, canvas_rect 800 480, canvas_rect 800 480]" for a b
    by (simp add: profile_defaults_def eval_nat_numeral)
  show ?thesis
    using rect_valid_inside [OF assms]
    by (auto simp: profile_numbers_def Let_def safe keep split: list.split intro!: two)
qed

lemma profile_line_ok:
  assumes "no_wrap wide" "profile_ok p"
  shows "profile_ok (profile_line wide line p)"
proof -
  have view: "profile_ok (p\<lparr>pr_safe := (pr_safe p)[nat a := r]\<rparr>)" if "0 \<le> a" "a < 4" "rect_valid wide r (pr_w p) (pr_h p)" for a r
    using assms(2) rect_valid_inside [OF assms(1) _ _ that(3)] that(1,2)
    by (auto simp: profile_ok_def nth_list_update)
  show ?thesis
    using assms(2) by (auto simp: profile_line_def Let_def split: list.split intro!: view) (auto simp: profile_ok_def)
qed

lemma load_profile_ok:
  assumes "no_wrap wide"
  shows "profile_ok (load_profile wide profile views)" "pr_view_count (load_profile wide profile views) = 4"
proof -
  have start: "profile_ok (case profile of None \<Rightarrow> profile_defaults
      | Some bs \<Rightarrow> profile_numbers wide (sscanf wide (replicate 8 D_INT) bs) profile_defaults)"
    by (simp add: profile_defaults_ok profile_numbers_ok [OF assms] split: option.split)
  have lines: "profile_ok p \<Longrightarrow> profile_ok (foldl (\<lambda>p line. profile_line wide line p) p ls)" for p ls
    by (induction ls arbitrary: p) (simp_all add: profile_line_ok [OF assms])
  show "profile_ok (load_profile wide profile views)"
    using start lines [OF start] by (cases views) (simp_all add: load_profile_def Let_def profile_ok_def)
  show "pr_view_count (load_profile wide profile views) = 4" by (simp add: load_profile_def Let_def)
qed

end
