(* ===== verification/Spec2Isabelle.thy ===== *)
theory Spec2Isabelle
  imports Driver_Demo Bus_System Alt_Demo Alt_Video_Demo Alt_Trace_Props Alt_Life Alt_Entry Alt_Display
begin

text \<open>
  A verification library for mib2high-carplay-rgi: the library native/ that is preloaded into the iAP2
  driver of the head unit, and the alternative screen, altscreen/, that brings a private CarPlay screen
  to the instrument cluster.

  The program. The driver receives packets from the phone. native/observer.c replaces memcpy and
  dlopen: it finds the driver in memory, patches it at the first packet, writes every packet to a
  capture file, and hands complete route-guidance frames to native/rgi_bridge.c. The bridge starts
  the bus (native/framework/bus.c: a bounded queue, a snapshot of sticky frames, a connection to
  the renderer on the loopback) and calls the hook (native/routeguidance/rgd_hook.c), which parses
  the messages (native/framework/iap2_protocol.c, native/routeguidance/rgd_tlv.c), merges them into
  caches and publishes the merged state as text frames on the bus. native/ident_hook.c,
  native/message_table.c and native/send_hook.c make the driver announce the component, accept the
  messages, and ask the phone for them.

  The alternative screen is a second library, preloaded into the process that runs CarPlay, and a renderer
  of its own. altscreen/native/altscreen_session.c keeps up to four sessions of the private stream 111, and
  its control worker sends the commands showUI, updateViewArea and forceKeyFrame to the phone, one at
  a time, as the route, the layout of the gauges and the first frame ask for them.
  altscreen/native/altscreen_output.c replaces the functions of the video library for the private screen and
  forwards its access units over a loopback connection; altscreen/renderer/k2161/vc_render.c reads them from
  there and drives the decoder of the cluster.

  The theories, in the order of their imports:
    \<^item> RGI_Prelude: words, bytes, the reads and writes of native/framework/common.h, the collections
      read_simps and the generic lemmas on lists and options.
    \<^item> Iap2_Protocol, Tlv_Walk: iap2_protocol.c, and the loop over parameters that all message parsers
      share, with the locale tlv_handler of a parser that handles one parameter at a time.
    \<^item> Rgd_Types, Rgd_Tlv, Rgd_Tlv_Props: the messages of rgd_tlv.h and the parsers of rgd_tlv.c; Rgd_Component:
      the component parameter of the identification (rgd_tlv.c, the payload of ident_hook.c).
    \<^item> Text_Builder: the bus_text functions of bus.c and, as their reference, the reader parseText of
      java/src/framework/CarplayBus.java.
    \<^item> Bounded_Queue: the interface of a bounded queue; Bus: the state and the operations of bus.c under
      its mutex; Bus_Props: its invariant, with the ring buffer as an interpretation of the queue;
      Bus_Wire: the loops over send and recv; Bus_Text: bus_send_text; Bus_System: the threads of
      bus.c as one step relation.
    \<^item> Rgd_State, Rgd_Slots: the caches and slot tables of rgd_hook.c and their invariant; Diagnostics:
      the counters of diagnostics.c; Rgd_Snapshot, Rgd_Snapshot_Props: the text snapshot; Rgd_Hook,
      Rgd_Hook_Props: message handler, tick, start and stop; Rgd_Debounce: the abstract machine of
      the held-back end of a route; Rgd_Identify: the patcher of the identification message.
    \<^item> Receive_Probe: receive_probe.c; Rgi_Bridge: rgi_bridge.c.
    \<^item> Status: the counters of status.c; Send_Hook: send_hook.c; Send_Session, Send_Props, Send_Limits: its
      threads as steps under one lock each, their invariant, and what it gives.
    \<^item> Driver_Hooks: the patches of ident_hook.c, message_table.c and send_hook.c; Capture: the capture
      file of observer.c; Observer: the rest of observer.c and the process with all its events;
      Driver_Demo: closed runs.
    \<^item> Alt_State: the sessions and the control worker of altscreen_session.c, a definition per function or
      locked region; Alt_Control: its threads as actions of one system; Alt_Tick, Alt_Table, Alt_Ranges,
      Alt_Commands, Alt_Protocol, Alt_Views, Alt_Startup: the lemmas on a tick, on the table, on the
      ranges of the fields, on commands in flight, on the abstract protocol, on the latest view, and on one
      answered round; Alt_Demo: a closed run.
    \<^item> Alt_Forward: the forwarder of altscreen_output.c; Alt_Renderer: vc_render.c; Alt_Units: the scan for
      the units of an access unit; Alt_Link: what a connection carries from one to the other; Alt_Output: the
      table of private screens and what is captured from the main screen; Alt_Stub: the functions of the video
      library and the spawn of the control script; Alt_Video_Demo: a closed run.
    \<^item> Alt_Trace, Alt_Trace_Props: the reader of the tracer of altscreen_session.c, with the scanner of
      gauge_bap54.h, and the layout of the gauges as the last record tells it; Alt_Session, Alt_Life: the
      listener, the preparation of a session, and its worker beside its cleanup as one step relation.
    \<^item> Cf_Library: the object library of the head unit and the AirPlay library as an argument, programs
      over it in the state monad, and the ledger of references; Alt_Requests: the dictionaries of SETUP,
      TEARDOWN and the commands in altscreen_session.c; Alt_Stock: what the stock functions are given;
      Alt_Entry: the look-up of the stock functions, and the replaced functions that only observe; Alt_Display:
      altscreen_airplay.c, the second display in the answers of the head unit, and its profile.

  How the code is translated. A C function is the definition of the same name; parts of a long
  function, and loops, are definitions of their own next to it. Static variables are the fields of
  a record per file, which every operation takes and returns. Machine integers are words of their
  width; lengths and indices are natural numbers where the code keeps them below the size of a
  buffer. Reading or writing a buffer out of bounds, and copying from NULL, is the result None, so that
  a theorem with Some on its right-hand side contains memory safety. What a call finds outside - the
  time, the outcome of an allocation, of pthread_create, of a system call, the content of an
  uninitialised local buffer, the answers of the stock functions - is an argument: a record (env,
  boot, call_env, outside, prepare_env, listen_try) or a script of results. An answer of the object library depends on all calls
  before it. The conversion of a number out of
  range in sscanf and atoi, which C leaves open, is the argument wide; whether NetSocket_Delete closes the
  descriptor of its socket, the flag net_closes. Theorems quantify over all of them, except that
  env_ok asks the allocations of one snapshot to succeed and the scratch buffers to have their size.

  Concurrency. bus.c and send_hook.c are modelled twice: as functions, and as threads whose steps are
  the regions under one mutex, with what a thread carries between the regions in the state
  (Bus_System, Send_Session). The handlers of the hook run under its lock and are single steps.

  The control worker and the callbacks of the AirPlay library are actions of one system (Alt_Control), each
  the region under g_lock, with the command a thread carries between two regions in the state.

  Bounds. The number n of the invariants bounds the 32-bit use counters of the caches: one event
  takes at most 20 uses. The bound n < 0xFFFFFFFE of the send hook keeps its generation counter
  from wrapping. serials_fit does the same for the two 64-bit serial numbers of the sessions. The fuel of
  the loops over send, recv and read is the script of the kernel's answers, and theorems about them
  speak of every script; serve_total, unit_total and fwd_write_total give lengths of scripts that are
  enough; a worker ends within 620 of its steps. An access unit is shorter than 2^32 bytes, as its length field.

  What the properties show. The process: every event completes and keeps the invariants, the start
  request needs the patches, a failed patch is undone. The send hook: its cadence, its one worker, its end,
  the retry that is lost. The capture: it reads back, and how it tears. The bridge and the hook: answers,
  the refinement of the debounce, the end of a route. The snapshot: consistent with the caches and
  read back by the car's side as it was meant. The alternative screen: one command at a time, each answered
  for its own session and token or not at all, no change of the view lost, and a started session reaches its
  view; the layout of the gauges is that of the last record of the tracer. The life of a session: preparation
  is all or nothing, every descriptor and the screen are given back, the worker ends, and when the wake-up of
  the listener fails it is closed twice. The requests of the phone: no reference leaks, and the stock library
  sees neither SETUP nor TEARDOWN of the private stream; the stock answers about the head unit are copied and
  never edited, and the geometry of the display stays in its ranges. Its video: the decoder gets the frames that were forwarded and a keyframe first, the main screen's calls
  are passed on, the control script inherits no descriptor. The bus: order on a connection, the queue, the
  snapshot, shutdown. The parsers: safe on every input and equal to a fold over the parameters. The
  caches: what an eviction cannot touch.

  Not modelled. Log lines and status files are output only (logging.c, parts of diagnostics.c and
  status.c). Under altscreen/native are copies of the modelled files: they differ in their line endings,
  in a comment of ident_hook.c, and in send_hook.c, whose copy resets under the send lock and clears one
  status flag more. The crash handler of bus.c is compiled but not installed; socket options, DSCP marks
  and thread attributes have no effect on the modelled state. In
  altscreen_session.c and altscreen_airplay.c the value callbacks for an object library without its own, and
  two functions that nothing
  calls, are left out; SETUP and TEARDOWN record the preparation and the cleanup of a session as calls, whose
  steps are those of Alt_Session. Of the renderer, the options of the command
  line and the statistics are left out. Of the Java side only parseText is used, as the reader of
  the text frames.
\<close>

section \<open>The process\<close>



text \<open>C2. The request that starts route guidance never leaves the process before the driver is patched:
  once a message was sent, the hook of the send functions, the message table and the builder of
  the identification are installed on the resolved base of the driver.\<close>

theorem start_needs_patches:
  assumes "process_run ow es (k2161_rx_observer_init raw tx m b (zero_process im)) = Some p"
    "list_all event_ok es" "20 * length es < 0xFFFFFE00" "ss_sent (ps_send p) \<noteq> []"
  shows "ob_driver_base (ps_obs p) \<noteq> 0 \<and>
    si_send_hook_installed (ps_install p) \<and> si_installed_driver_base (ps_install p) = ob_driver_base (ps_obs p) \<and>
    mt_installed (ps_table p) \<and> mt_installed_driver_base (ps_table p) = ob_driver_base (ps_obs p) \<and>
    ih_hook_installed (ps_ident p) \<and> ih_installed_driver_base (ps_ident p) = ob_driver_base (ps_obs p)"
  using process_run_inv [OF zero_process_inv assms(2), of 0 ow raw tx m b im] assms(1,3,4)
  by (auto simp: process_inv_def patches_def)

theorem start_needs_patches_witness:
  "\<exists>p. process_run demo_own demo_events (k2161_rx_observer_init True True 0 0 (zero_process (stock_image 0x20000))) = Some p \<and>
    ss_sent (ps_send p) = [(7, 0x5200, start_message_params)] \<and> mt_installed (ps_table p) \<and> ih_hook_installed (ps_ident p)"
proof -
  obtain p where p: "process_run demo_own demo_events (k2161_rx_observer_init True True 0 0 (zero_process (stock_image 0x20000))) = Some p"
    "ss_sent (ps_send p) = [(7, 0x5200, start_message_params)]" using demo_run by blast
  have "list_all event_ok demo_events" "20 * length demo_events < 0xFFFFFE00"
    by (simp_all add: demo_events_def event_ok_def demo_env_ok)
  from start_needs_patches [OF p(1) this] p show ?thesis by auto
qed

text \<open>C3. A patch of the driver that fails, because the image is not the expected one or because a store
  does not take, leaves every word of the image as it was; one that succeeds leaves a message
  table that reads back, and the slots of the message functions on the wrappers.\<close>

theorem failed_patch_undone:
  assumes "k2161_ident_try_install_base ow base h st im = (rc1, h', st1, im1)"
    "k2161_msgtable_try_install_base ow base t im = (rc2, t', im2)"
    "k2161_send_hook_try_install_base ow ready base si st im = (rc3, si', st3, im3)"
  shows "(rc1 \<noteq> 1 \<longrightarrow> im1 = im) \<and> (rc2 \<noteq> 1 \<longrightarrow> im2 = im) \<and> (rc3 \<noteq> 1 \<longrightarrow> im3 = im) \<and>
    (rc2 = 1 \<longrightarrow> k2161_msgtable_ready ow t' im2) \<and>
    (rc3 = 1 \<and> \<not> si_send_hook_installed si \<longrightarrow> im_word im3 (base + IAP2_MSG_SLOT_OFFSET) = ow_iap2_msg ow \<and>
      im_word im3 (base + IAP2_CLOSE_SLOT_OFFSET) = ow_iap2_close ow)"
  using ident_result [OF assms(1)] msgtable_result [OF assms(2)] send_install_result [OF assms(3)] by simp_all

theorem failed_patch_undone_witness:
  "\<exists>rc1 h' st1 im1 rc2 t' im2 rc3 si' st3 im3.
     k2161_ident_try_install_base demo_own 0x20000 zero_ident_hook zero_status (stock_image 0x30000) = (rc1, h', st1, im1) \<and>
     k2161_msgtable_try_install_base demo_own 0x20000 zero_msg_table (stock_image 0x30000) = (rc2, t', im2) \<and>
     k2161_send_hook_try_install_base demo_own False 0x20000 zero_send_install zero_status (stock_image 0x30000) = (rc3, si', st3, im3) \<and>
     rc3 = -1 \<and> im3 = stock_image 0x30000"
proof -
  obtain rc1 h' st1 im1 where 1: "k2161_ident_try_install_base demo_own 0x20000 zero_ident_hook zero_status (stock_image 0x30000) =
    (rc1, h', st1, im1)" by (metis prod_cases4)
  obtain rc2 t' im2 where 2: "k2161_msgtable_try_install_base demo_own 0x20000 zero_msg_table (stock_image 0x30000) = (rc2, t', im2)"
    by (metis prod_cases3)
  obtain rc3 si' st3 im3 where 3: "k2161_send_hook_try_install_base demo_own False 0x20000 zero_send_install zero_status
    (stock_image 0x30000) = (rc3, si', st3, im3)" by (metis prod_cases4)
  moreover have "rc3 = -1" using 3 by (simp add: k2161_send_hook_try_install_base_def)
  ultimately show ?thesis using failed_patch_undone [OF 1 2 3] 1 2 by auto
qed

section \<open>The request that starts route guidance\<close>



text \<open>At most one retry worker of the current generation exists or is being created, exactly when the
  running flag says so, and a worker of an older generation ends in its next pass.\<close>

theorem one_worker:
  assumes "session_reach n s" "n < 0xFFFFFFFE"
  shows "count_list (se_spawns s @ ss_workers (se_state s)) (rt_generation (the_retry s)) = of_bool (rt_running (the_retry s)) \<and>
    (g \<noteq> rt_generation (the_retry s) \<longrightarrow> retry_worker g now (the_retry s) = (False, the_retry s))"
  using session_reach_inv [OF assms] by (auto simp: worker_inv_def Let_def workers_def retry_worker_def)

theorem one_worker_witness:
  "\<exists>s. session_reach 7 s \<and> count_list (se_spawns s @ ss_workers (se_state s)) 1 = 1 \<and>
    retry_worker 5 2000 (the_retry s) = (False, the_retry s)"
proof -
  from first_session obtain s where s: "session_reach 7 s" "rt_generation (the_retry s) = 1" "rt_running (the_retry s)"
    by (metis retry.select_convs(8,9))
  from one_worker [OF s(1), of 5 2000] s show ?thesis by (intro exI [of _ s]) simp
qed

text \<open>C5. After a route-guidance message of the phone, and until the next identification or rearming, no
  thread sends the request any more, except the one that already holds the send lock.\<close>

theorem rx_stops_sends:
  assumes "session_reach n s" "n < 0xFFFFFFFE" "msgid \<in> {0x5201, 0x5202, 0x5204}"
    "session_run (O_rx msgid now # ops) s = Some s'" "O_reset \<notin> set ops" "\<forall>t. O_rearm t \<notin> set ops"
  shows "length (ss_sent (se_state s')) \<le> length (ss_sent (se_state s)) + (if se_lock s = None then 0 else 1)"
proof -
  obtain s1 where 1: "send_act (O_rx msgid now) s = Some s1" "session_run ops s1 = Some s'"
    using assms(4) unfolding session_run_Cons by (elim exE conjE)
  have "quiet (length (ss_sent (se_state s)) + (if se_lock s = None then 0 else 1)) s1"
    using session_reach_inv [OF assms(1,2)] rx_quiet [OF _ _ assms(3) 1(1)] by blast
  from quiet_run [OF 1(2) this assms(5,6)] show ?thesis by (auto simp: quiet_def split: if_splits)
qed

theorem rx_stops_sends_witness:
  "\<exists>s s'. session_reach 7 s \<and> session_run [O_rx 0x5202 2000, O_unseen] s = Some s' \<and> length (ss_sent (se_state s')) \<le> 1"
proof -
  from first_session obtain s where s: "session_reach 7 s" "ss_sent (se_state s) = [(7, 0x5200, start_message_params)]"
    "se_lock s = None" by metis
  obtain s' where s': "session_run [O_rx 0x5202 2000, O_unseen] s = Some s'" by (simp add: send_act_def reset_acts_def)
  from rx_stops_sends [OF s(1) _ _ s'] s s' show ?thesis by (intro exI [of _ s] exI [of _ s']) simp
qed

text \<open>When the creation of the retry thread fails, the retry state stays enabled with nobody to make
  the next attempt due: in no continuation without an identification or a message of the phone is
  a further attempt made.\<close>

theorem lost_retry:
  assumes "session_reach n s" "n < 0xFFFFFFFE" "rt_enabled (the_retry s)"
    "pick i (se_spawns s) = Some (rt_generation (the_retry s), gs)"
    "session_run (O_created i False # ops) s = Some s'" "O_reset \<notin> set ops" "\<forall>msgid now. O_rx msgid now \<notin> set ops"
  shows "se_claims s' = se_claims s"
proof -
  obtain s1 where 1: "send_act (O_created i False) s = Some s1" "session_run ops s1 = Some s'"
    using assms(5) unfolding session_run_Cons by (elim exE conjE)
  have "stuck (se_claims s) s1"
    using session_reach_inv [OF assms(1,2)] session_reach_spawn [OF assms(1,2)] created_stuck [OF _ _ _ assms(3,4) 1(1)] by blast
  from stuck_run [OF 1(2) this assms(6,7)] show ?thesis by (simp add: stuck_def)
qed

theorem lost_retry_witness:
  "\<exists>s s'. session_reach 4 s \<and> session_run [O_created 0 False, O_unseen] s = Some s' \<and> se_claims s' = [(1, 1, 1000)]"
proof -
  from begun_session obtain s where s: "session_reach 4 s" "rt_enabled (the_retry s)" "rt_generation (the_retry s) = 1"
    "se_spawns s = [1]" "se_claims s = [(1, 1, 1000)]" by metis
  obtain s' where s': "session_run [O_created 0 False, O_unseen] s = Some s'"
    using s by (simp add: send_act_def worker_acts_def reset_acts_def pick_def)
  from lost_retry [OF s(1) _ s(2) _ s', of "[]"] s s' show ?thesis
    by (intro exI [of _ s] exI [of _ s']) (simp add: pick_def)
qed

text \<open>An attempt that is due goes out: with a live worker of the current generation and the retry
  time over, the next pass of the worker, the end of the next GPS request and the free send lock
  put exactly one more message on the link.\<close>

theorem attempt_goes_out:
  assumes "rt_enabled (the_retry s)" "\<not> rt_got (the_retry s)" "rt_ctx (the_retry s) \<noteq> NULL" "se_lock s = None"
    "rt_last_5200 (the_retry s) \<noteq> 0" "now \<noteq> 0" "se_clock s \<le> now"
    "rt_last_5200 (the_retry s) \<le> now" "rt_retry_ms (rt_attempts (the_retry s)) \<le> now - rt_last_5200 (the_retry s)"
    "pick i (ss_workers (se_state s)) = Some (rt_generation (the_retry s), gs)" "good_stock sk"
  shows "\<exists>s'. session_run [O_worker i now, O_claim (rt_ctx (the_retry s)) now, O_check (length (se_calls s)), O_packet sk] s =
      Some s' \<and> ss_sent (se_state s') = ss_sent (se_state s) @ [(rt_ctx (the_retry s), 0x5200, start_message_params)] \<and>
    rt_attempts (the_retry s') = rt_attempts (the_retry s) + 1"
  by (rule due_goes_out [OF assms])

theorem attempt_goes_out_witness:
  "\<exists>s s'. session_reach 7 s \<and> session_run [O_worker 0 3000, O_claim 7 3000, O_check 0, O_packet demo_stock] s = Some s' \<and>
    length (ss_sent (se_state s')) = 2"
proof -
  from first_session obtain s where s: "session_reach 7 s" "the_retry s = \<lparr>rt_attempts = 1, rt_last_5200 = 1000, rt_last_rx = 0,
      rt_got = False, rt_ctx = 7, rt_need = False, rt_enabled = True, rt_running = True, rt_generation = 1, rt_soft = 0\<rparr>"
    "ss_workers (se_state s) = [1]" "ss_sent (se_state s) = [(7, 0x5200, start_message_params)]" "se_lock s = None"
    "se_calls s = []" "se_clock s = 1000" by metis
  have "good_stock demo_stock" by (simp add: good_stock_def demo_stock_def)
  with attempt_goes_out [of s 3000 0 "[]" demo_stock] s obtain s' where
    "session_run [O_worker 0 3000, O_claim 7 3000, O_check 0, O_packet demo_stock] s = Some s'" "length (ss_sent (se_state s')) = 2"
    by (auto simp: pick_def rt_retry_ms_def simp del: session_run.simps)
  with s(1) show ?thesis by blast
qed

text \<open>The calls that the stock driver makes into the hook are runs of these threads: MsgReply, and the
  wrapped message function around any stock function that is itself such a run, change the state
  exactly as a sequence of locked regions does.\<close>

theorem calls_are_runs:
  assumes "ce_now ce1 \<in> {0, t1}" "ce_now ce2 \<in> {0, t2}" "\<And>d. runs t1 t2 (\<lambda>st. fst (snd (orig (st, d))))"
  shows "runs t1 t1 (\<lambda>st. snd (MsgReply ce1 rcvid st)) \<and>
    runs t1 t2 (\<lambda>st. fst (snd (wrapped_iap2_msg ce1 ce2 orig ctx ctp msg (st, d))))"
  using MsgReply_runs [OF assms(1)] wrapped_runs [OF assms(3,2)] by blast+

theorem calls_are_runs_witness:
  "runs 5 5 (\<lambda>st. fst (snd (wrapped_iap2_msg (demo_call 5) (demo_call 5)
     (\<lambda>(st, d). let (rc, st) = MsgReply (demo_call 5) 1 st in (rc, st, d)) 7 (Some 1) (Some 0x2700) (st, zero_diag))))"
proof -
  have "ce_now (demo_call 5) \<in> {0, 5}" by (simp add: demo_call_def)
  moreover from this have "runs 5 5 (\<lambda>st. fst (snd ((\<lambda>(st, d). let (rc, st) = MsgReply (demo_call 5) 1 st in (rc, st, d)) (st, d))))" for d :: diag
    using MsgReply_runs [of "demo_call 5" 5 1] by (simp add: case_prod_unfold Let_def)
  ultimately show ?thesis
    using calls_are_runs [of "demo_call 5" 5 "demo_call 5" 5 "\<lambda>(st, d). let (rc, st) = MsgReply (demo_call 5) 1 st in (rc, st, d)"]
    by blast
qed

section \<open>The alternative screen\<close>

text \<open>C6. Each session of the alternative screen follows the protocol of its commands: at most one command
  waits for an answer; showUI is sent only when another page is known or none, updateViewArea only when
  the page of its view is known to be shown, forceKeyFrame only right after updateViewArea of the same view
  was answered with success; every answer, timeout and refusal ends the command that waits. The log of
  every session is a run of that automaton, whatever the order of ticks, answers, layout and route changes,
  and the state of the automaton is the one in the slot of the session.\<close>

theorem session_protocol:
  assumes "alt_reach s"
  shows "\<exists>sp. spec_run (session_log gen (cs_log s)) init_spec = Some sp \<and>
    (\<forall>j < 4. as_active (slot (cs_g s) j) \<and> as_generation (slot (cs_g s) j) = gen \<longrightarrow>
       as_last_ui_slot (slot (cs_g s) j) = sp_ui sp \<and>
       (cs_pc s = T_IDLE \<longrightarrow> sp_wait sp =
          (if as_awaiting_ack (slot (cs_g s) j) then Some (slot_command (slot (cs_g s) j)) else None)))"
proof -
  from reach_protocol [OF assms] obtain sp where "session_ok s gen sp" by (auto simp: protocol_ok_def)
  then show ?thesis by (intro exI [of _ sp]) (auto simp: session_ok_def matches_def)
qed

theorem session_protocol_witness:
  "\<exists>sp. spec_run (session_log 1 (cs_log demo_sent)) init_spec = Some sp \<and> sp_wait sp = Some (slot_command (slot (cs_g demo_sent) 0))"
proof -
  have a: "as_active (slot (cs_g demo_sent) 0) \<and> as_generation (slot (cs_g demo_sent) 0) = 1 \<and>
      as_awaiting_ack (slot (cs_g demo_sent) 0) \<and> cs_pc demo_sent = T_IDLE" by code_simp
  from session_protocol [OF demo_sent_reach, of 1] obtain sp where
    sp: "spec_run (session_log 1 (cs_log demo_sent)) init_spec = Some sp"
      "\<forall>j < 4. as_active (slot (cs_g demo_sent) j) \<and> as_generation (slot (cs_g demo_sent) j) = 1 \<longrightarrow>
       as_last_ui_slot (slot (cs_g demo_sent) j) = sp_ui sp \<and> (cs_pc demo_sent = T_IDLE \<longrightarrow> sp_wait sp =
          (if as_awaiting_ack (slot (cs_g demo_sent) j) then Some (slot_command (slot (cs_g demo_sent) j)) else None))"
    by blast
  from sp(2) [rule_format, of 0] a sp(1) show ?thesis by auto
qed

text \<open>C7. An answer of the phone takes effect only on the session it belongs to: when it comes, either a slot
  in use waits for exactly this command - the same receiver, session, token, stage and view - and the slot
  takes the answer, or nothing changes but the log: answers of an old session, of a command that has timed
  out, or of a screen that is being closed are dropped.\<close>

theorem answer_is_current:
  assumes "alt_reach s" "perform (A_COMPLETE n status) s = Some s'"
  shows "n < length (cs_open s) \<and>
    ((\<exists>i < 4. as_active (slot (cs_g s) i) \<and> \<not> as_stop_requested (slot (cs_g s) i) \<and> as_awaiting_ack (slot (cs_g s) i) \<and>
        slot_command (slot (cs_g s) i) = cs_open s ! n \<and>
        cs_g s' = on_slot i (take_answer status (cs_open s ! n)) (cs_g s) \<and>
        cs_log s' = cs_log s @ [E_ACKED (cs_open s ! n) status]) \<or>
     (cs_g s' = cs_g s \<and> cs_log s' = cs_log s @ [E_STALE (cs_open s ! n)]))"
proof -
  from assms(2) have n: "n < length (cs_open s)" by (simp split: if_splits)
  let ?c = "cs_open s ! n"
  have c: "?c \<in> commands s" using n by (auto simp: commands_def)
  obtain ok g where r: "v8s_control_completion status ?c (cs_g s) = (ok, g)" by fastforce
  from assms(2) n r have s': "cs_g s' = g" "cs_log s' = cs_log s @ [if ok then E_ACKED ?c status else E_STALE ?c]"
    by (auto simp: Let_def)
  show ?thesis
  proof (cases "find_state_receiver_locked (cx_receiver ?c) (cs_g s)")
    case None
    with r s' n show ?thesis by (simp add: v8s_control_completion_def)
  next
    case (Some i)
    note i = find_receiver_SomeD [OF Some]
    show ?thesis
    proof (cases "\<not> as_stop_requested (slot (cs_g s) i) \<and> awaits ?c (slot (cs_g s) i)")
      case True
      then have "slot_command (slot (cs_g s) i) = ?c"
        using accepted_is_current [OF reach_commands [OF assms(1)] c] i by blast
      with Some True r s' n i show ?thesis by (auto simp: v8s_control_completion_def awaits_def)
    next
      case False
      with Some r s' n show ?thesis by (auto simp: v8s_control_completion_def)
    qed
  qed
qed

theorem answer_is_current_witness:
  "\<exists>s'. perform (A_COMPLETE 0 0) demo_sent = Some s' \<and> as_stage (slot (cs_g s') 0) = CONTROL_VIEW \<and>
     (cs_g s' = cs_g demo_sent \<or> (\<exists>i < 4. as_awaiting_ack (slot (cs_g demo_sent) i) \<and>
        slot_command (slot (cs_g demo_sent) i) = cs_open demo_sent ! 0))"
proof -
  have "case perform (A_COMPLETE 0 0) demo_sent of None \<Rightarrow> False | Some s' \<Rightarrow> as_stage (slot (cs_g s') 0) = CONTROL_VIEW"
    by code_simp
  then obtain s' where s': "perform (A_COMPLETE 0 0) demo_sent = Some s'" "as_stage (slot (cs_g s') 0) = CONTROL_VIEW"
    by (auto split: option.splits)
  from answer_is_current [OF demo_sent_reach s'(1)] s' show ?thesis by blast
qed

text \<open>C8. The counter that cleanup_altscreen waits for is exact: it is the number of calls into the AirPlay
  library that the control worker still has to finish for the session, at most two. When it is zero,
  the worker holds no command to send for the session.\<close>

theorem calls_counted:
  assumes "alt_reach s" "j < 4" "as_active (slot (cs_g s) j)"
  shows "as_inflight (slot (cs_g s) j) = inside (cs_pc s) (as_generation (slot (cs_g s) j)) \<and>
    as_inflight (slot (cs_g s) j) \<in> {0, 1, 2} \<and>
    (as_inflight (slot (cs_g s) j) = 0 \<longrightarrow>
       (\<forall>c. cs_pc s = T_CMD c \<longrightarrow> cx_generation c \<noteq> as_generation (slot (cs_g s) j)) \<and>
       (\<forall>i gen zoom c. cs_pc s = T_ZOOM i gen zoom c \<longrightarrow> gen \<noteq> as_generation (slot (cs_g s) j)))"
  using reach_counters [OF assms(1)] assms(2,3)
  by (cases "cs_pc s") (auto simp: counters_ok_def split: option.splits)

theorem calls_counted_witness:
  "as_inflight (slot (cs_g (the (perform (A_TICK False 100) demo_screen))) 0) \<in> {0, 1, 2} \<and>
   as_inflight (slot (cs_g (the (perform (A_TICK False 100) demo_screen))) 0) = 1"
proof -
  have r: "perform (A_TICK False 100) demo_screen = Some (the (perform (A_TICK False 100) demo_screen))"
    "serials_fit demo_screen" "as_active (slot (cs_g (the (perform (A_TICK False 100) demo_screen))) 0)"
    "as_inflight (slot (cs_g (the (perform (A_TICK False 100) demo_screen))) 0) = 1" by code_simp+
  from calls_counted [OF alt_step [OF demo_screen_reach r(2,1)] _ r(3)] r(4) show ?thesis by simp
qed

text \<open>C9. No change of the gauge layout or of the route is lost: while a screen is shown, its newest request -
  the one that waits, or else the last one taken - is the view of the current layout and route, except
  while the note of a route change is still on its way to the queue.\<close>

theorem no_change_lost:
  assumes "alt_reach s" "i < 4" "as_active (slot (cs_g s) i)" "as_screen_started (slot (cs_g s) i)"
    "\<not> as_stop_requested (slot (cs_g s) i)" "as_show_sent (slot (cs_g s) i)" "i \<notin> set (cs_first s)"
    "as_receiver (slot (cs_g s) i) \<notin> set (cs_queue s)"
  shows "(if as_pending_view (slot (cs_g s) i) \<ge> 0 then as_pending_view (slot (cs_g s) i) else as_target_view (slot (cs_g s) i)) =
    route_view_for_state (ag_layout_slot (cs_g s)) (slot (cs_g s) i)"
  using reach_views [OF assms(1)] assms(2-) by (simp add: views_fresh_def shown_slot_def latest_view_def)

theorem no_change_lost_witness:
  "as_pending_view (slot (cs_g demo_screen) 0) = route_view_for_state (ag_layout_slot (cs_g demo_screen)) (slot (cs_g demo_screen) 0)"
  using no_change_lost [OF demo_screen_reach, of 0]
  by (simp add: demo_screen_def demo_slot_def new_slot_def init_sys_def)

text \<open>C10. A screen comes up: when a view is due for the first slot in use, the page of it is not known to be
  shown, the wheel is at rest and the worker idle, then three rounds of the worker with successful answers
  send exactly showUI, updateViewArea and forceKeyFrame for that view, and leave it the current view of the slot.
  At the start of a session this does not even need the marker of the active renderer.\<close>

theorem startup_completes:
  assumes "alt_reach s" "cs_pc s = T_IDLE" "i < 4" "\<forall>k < i. \<not> eligible (slot (cs_g s) k)"
    "ag_pending_zoom (cs_g s) = 0" "as_inflight (slot (cs_g s) i) = 0"
    "eligible (slot (cs_g s) i)" "\<not> as_awaiting_ack (slot (cs_g s) i)" "as_pending_view (slot (cs_g s) i) = v" "v \<ge> 0"
    "as_view_due_ms (slot (cs_g s) i) \<le> now1" "as_startup (slot (cs_g s) i) \<or> active"
    "as_last_ui_slot (slot (cs_g s) i) \<noteq> v div 2" "n = ag_request_serial (cs_g s)"
  shows "\<exists>s'. perform_all (answered_round active now1 @ answered_round active now2 @ answered_round active now3) s = Some s' \<and>
    as_current_view (slot (cs_g s') i) = v \<and> as_last_ui_slot (slot (cs_g s') i) = v div 2 \<and>
    as_stage (slot (cs_g s') i) = CONTROL_IDLE \<and>
    session_log (as_generation (slot (cs_g s) i)) (cs_log s') = session_log (as_generation (slot (cs_g s) i)) (cs_log s) @
      answered_log (slot (cs_g s) i) v [(CONTROL_SHOW, n + 1), (CONTROL_VIEW, n + 2), (CONTROL_KEYFRAME, n + 3)]"
proof (rule startup_run)
  show "served s i" using reach_table [OF assms(1)] assms(2-6) by (simp add: served_def)
qed (use assms in simp_all)

theorem startup_completes_witness:
  "\<exists>s'. perform_all (answered_round False 100 @ answered_round False 120 @ answered_round False 140) demo_screen = Some s' \<and>
    as_current_view (slot (cs_g s') 0) = 0 \<and> as_last_ui_slot (slot (cs_g s') 0) = 0 \<and>
    session_log 1 (cs_log s') = answered_log demo_slot 0 [(CONTROL_SHOW, 1), (CONTROL_VIEW, 2), (CONTROL_KEYFRAME, 3)]"
  using startup_completes [OF demo_screen_reach, of 0 0 100 False 0 120 140]
  by (auto simp: demo_screen_def demo_slot_def new_slot_def init_sys_def init_globals_def zero_session_def eligible_def)

text \<open>C11. The fields of the sessions stay in their ranges: the layout is 0 or 1, views are 0 to 3 or unset, the
  wheel is within 20 steps, a command that waits has a stage and a view, and the stage agrees with the page that is known to
  be shown: showUI is under way only to another page, updateViewArea and forceKeyFrame only on the page of their view.\<close>

theorem control_typed:
  assumes "alt_reach s"
  shows "globals_typed (cs_g s)"
  by (rule reach_typed [OF assms])

theorem control_typed_witness: "globals_typed (cs_g demo_sent)"
  by (rule control_typed [OF demo_sent_reach])

text \<open>Every receiver has at most one session, and no two sessions share the number that their answers are
  told apart by: alloc_state_locked refuses a receiver that is in the table, and otherwise takes a slot that
  is free with a number that was never used.\<close>

theorem sessions_distinct:
  assumes "alt_reach s" "serials_fit s" "alloc_state_locked receiver (cs_g s) = (r, g')"
  shows "(case r of
      None \<Rightarrow> g' = cs_g s
    | Some i \<Rightarrow> i < 4 \<and> \<not> as_active (slot (cs_g s) i) \<and>
        (\<forall>j < 4. as_active (slot (cs_g s) j) \<longrightarrow> as_receiver (slot (cs_g s) j) \<noteq> receiver \<and>
           as_generation (slot (cs_g s) j) < as_generation (slot g' i) \<and> slot g' j = slot (cs_g s) j)) \<and>
    (\<forall>j < 4. as_active (slot (cs_g s) j) \<and> as_receiver (slot (cs_g s) j) = receiver \<longrightarrow> r = None)"
proof -
  have tab: "table_ok s" using reach_table [OF assms(1)] by blast
  have gen: "as_generation (slot (cs_g s) j) < ag_generation_serial (cs_g s) + 1" if "j < 4" "as_active (slot (cs_g s) j)" for j
  proof (rule order.strict_trans1)
    show "as_generation (slot (cs_g s) j) \<le> ag_generation_serial (cs_g s)" using table_gen [OF tab that] by simp
    show "ag_generation_serial (cs_g s) < ag_generation_serial (cs_g s) + 1"
      using assms(2) by (intro less_plus_one) (simp add: serials_fit_def)
  qed
  from alloc_cases [OF assms(3) table_len(1) [OF tab]] show ?thesis
    using gen table_len(1) [OF tab] by (auto simp: new_slot_def)
qed

theorem sessions_distinct_witness:
  "fst (alloc_state_locked 7 (cs_g demo_screen)) = None \<and> fst (alloc_state_locked 8 (cs_g demo_screen)) = Some 1 \<and>
   \<not> as_active (slot (cs_g demo_screen) 1)"
proof -
  have f: "serials_fit demo_screen" "as_active (slot (cs_g demo_screen) 0)" "as_receiver (slot (cs_g demo_screen) 0) = 7"
    "fst (alloc_state_locked 8 (cs_g demo_screen)) = Some 1" by code_simp+
  from sessions_distinct [OF demo_screen_reach f(1) prod.collapse [symmetric], of 8] f(4)
  have "\<not> as_active (slot (cs_g demo_screen) 1)" by simp
  moreover from sessions_distinct [OF demo_screen_reach f(1) prod.collapse [symmetric], of 7] f(2,3)
  have "fst (alloc_state_locked 7 (cs_g demo_screen)) = None" by (metis zero_less_numeral)
  ultimately show ?thesis using f(4) by simp
qed


section \<open>The tracer\<close>

text \<open>The reader cuts the stream of the tracer into exactly its lines, whatever the chunks are in which it is
  read: a line is what stands between two line ends, without its bytes behind the 511th, and empty lines are
  skipped.\<close>

theorem trace_lines_cut:
  "fst (trace_bytes p []) = filter (\<lambda>l. l \<noteq> []) (map (take 511) (whole_lines p)) \<and>
   trace_bytes (p @ q) l = (let (ls, l') = trace_bytes p l; (ms, l'') = trace_bytes q l' in (ls @ ms, l''))"
  by (simp add: trace_bytes_spec trace_bytes_append)

text \<open>C12. The layout comes from the last live indication of the gauges, and from the last area of the map as long as
  there was none; buffered indications never count. Whatever is read, the threads of the sessions see nothing
  but actions of their own system.\<close>

theorem layout_from_trace:
  assumes "trace_reach wide t"
  shows "alt_reach (tr_sys t) \<and> ag_layout_slot (cs_g (tr_sys t)) = layout_of wide (tr_seen t)"
  using trace_reach_ok [OF assms] by (simp add: layout_ok_def)

theorem layout_from_trace_witness:
  "\<exists>t. trace_reach (\<lambda>n. 0) t \<and> alt_reach (tr_sys t) \<and> ag_layout_slot (cs_g (tr_sys t)) = layout_of (\<lambda>n. 0) (tr_seen t) \<and>
     ag_layout_slot (cs_g (tr_sys t)) = 1"
proof -
  have "tr_live init_trace = []" "(46779 :: nat) < 2 ^ 31" "(0 :: nat) \<le> 255" by (simp_all add: init_trace_def)
  from gauge_line [OF this, of "\<lambda>n. 0" 100 101] obtain t where
    t: "trace_run (\<lambda>n. 0) (feed False 100 101 (gauge_record 46779 0 [] @ [10])) init_trace = Some t"
      "cs_g (tr_sys t) = gauge_bap54_seen 1 100 (cs_g (tr_sys init_trace))" by auto
  have "serials_fit (tr_sys init_trace)" by (simp add: serials_fit_def init_trace_def init_sys_def init_globals_def)
  from feed_reach [OF t(1) trace_init this] have "trace_reach (\<lambda>n. 0) t" .
  with layout_from_trace [OF this] t(2) show ?thesis by (auto simp: gauge_seen_layout)
qed

text \<open>C13. A live indication of the gauges reaches the sessions as it was meant: the bytes that the tracer prints for
  the value v set the layout of v's lowest bit, and if that is a new one, every started session has the view of its
  route in that layout pending, due after 150 ms; otherwise no session is touched.\<close>

theorem gauge_reaches_sessions:
  assumes "trace_reach wide t" "tr_live t = []" "ts < 2 ^ 31" "v \<le> 255" "i < 4"
  shows "\<exists>t'. trace_run wide (feed False now1 now2 (gauge_record ts v [] @ [10])) t = Some t' \<and>
    (let g = cs_g (tr_sys t); g' = cs_g (tr_sys t'); layout = (if odd v then 0 else 1); s = slot g i in
     ag_layout_slot g' = layout \<and> ag_bap54_layout_known g' \<and>
     slot g' i = (if layout \<noteq> ag_layout_slot g \<and> as_active s \<and> as_screen_started s \<and> \<not> as_stop_requested s
       then s\<lparr>as_pending_view := layout * 2 + (if as_route_known s \<and> as_route_active s then 1 else 0),
              as_pending_from_gauge := True, as_view_due_ms := now1 + 150\<rparr>
       else s))"
proof -
  have "length (ag_states (cs_g (tr_sys t))) = 4"
    using trace_reach_ok [OF assms(1)] reach_table table_len by blast
  with gauge_line [OF assms(2-4), of wide now1 now2] assms(5) show ?thesis
    by (auto simp: gauge_seen_layout Let_def)
      (auto simp: gauge_bap54_seen_def requeue_for_layout_def queue_view_def route_view_for_state_def Let_def)
qed

theorem gauge_reaches_sessions_witness:
  "\<exists>t'. trace_run (\<lambda>n. 0) (feed False 100 101 (gauge_record 46779 0 [] @ [10])) init_trace = Some t' \<and>
     ag_layout_slot (cs_g (tr_sys t')) = 1"
  using gauge_reaches_sessions [OF trace_init, of 46779 0 0 "\<lambda>n. 0" 100 101] by (auto simp: init_trace_def Let_def)

section \<open>The life of a private session\<close>

text \<open>C14. The preparation of a session is all or nothing: when it fails, at whatever point, the table of sessions and
  the table of private screens are as before, every socket it has opened is closed and the screen it has created
  is deleted; when it succeeds, the session has the screen, which is registered, and exactly one open socket.\<close>

theorem prepare_all_or_nothing:
  assumes "unused_empty g" "registry_ok ao" "pe_screen pe \<notin> screens ao"
    "prepare_altscreen pe r receiver g ao = (res, cs, g', ao')"
  shows "(res = None \<longrightarrow> (\<forall>j < 4. slot g' j = slot g j) \<and> screens ao' = screens ao \<and> opened cs = closed cs \<and>
      count_list cs (SN_DELETE (pe_screen pe)) = count_list cs (SN_CREATE (pe_screen pe))) \<and>
    (\<forall>port i. res = Some (port, i) \<longrightarrow> prepared (slot g' i) \<and> as_screen (slot g' i) = pe_screen pe \<and>
      as_data_port (slot g' i) = port \<and> screens ao' = insert (pe_screen pe) (screens ao) \<and>
      opened cs = closed cs @ [as_listen_fd (slot g' i)] \<and> (\<forall>j < 4. j \<noteq> i \<longrightarrow> slot g' j = slot g j))"
  using prepare_result [OF assms(1-3), of r receiver] unfolding assms(4) prepare_ok_def
  by (auto simp: same_slots_def split: option.splits)

theorem prepare_all_or_nothing_witness:
  "\<exists>cs g' ao'. prepare_altscreen \<lparr>pe_connection = Some 3, pe_control_thread = True, pe_create = 0, pe_screen = 9, pe_setup = 0,
       pe_security = 0, pe_try6 = demo_try (-1), pe_try4 = demo_try 5, pe_thread = 1, pe_worker = 2\<rparr> demo_fns 7 init_globals
       (init_output\<lparr>ao_master_key_valid := True\<rparr>) = (None, cs, g', ao') \<and> opened cs = [5] \<and> closed cs = [5]"
proof -
  let ?ao = "init_output\<lparr>ao_master_key_valid := True\<rparr>"
  let ?pe = "\<lparr>pe_connection = Some 3, pe_control_thread = True, pe_create = 0, pe_screen = 9, pe_setup = 0,
       pe_security = 0, pe_try6 = demo_try (-1), pe_try4 = demo_try 5, pe_thread = 1, pe_worker = 2\<rparr>"
  have "registry_ok ?ao" "screens ?ao = {}" using init_registry by (simp_all add: registry_ok_def screens_def)
  moreover have "unused_empty init_globals" by (auto simp: unused_empty_def init_globals_def)
  moreover obtain cs g' ao' where p: "prepare_altscreen ?pe demo_fns 7 init_globals ?ao = (None, cs, g', ao')" "opened cs = [5]"
    by (auto simp: prepare_altscreen_def altscreen_aes_ready_def altscreen_derive_aes_def demo_fns_def alloc_state_locked_def
        find_state_receiver_locked_def init_globals_def zero_session_def Let_def altscreen_register_session_def
        session_index_locked_def init_output_def open_listener_def demo_try_def prepare_fail_def upt_rec)
  ultimately show ?thesis using prepare_all_or_nothing [OF _ _ _ p(1)] by auto
qed

text \<open>C15. A session that was prepared gives back everything, in every order of the steps of its worker and of the
  cleanup, with whatever results of the stock calls, as long as the wake-up of the listener does not fail and
  NetSocket_Delete closes its socket: no descriptor is closed that is not the session's, and when the cleanup is over
  no socket is open, the screen was stopped as often as it was started, and its deletion was the last call.\<close>

theorem session_gives_back:
  assumes "prepared x" "\<forall>fd. fds fd \<noteq> Some SESSION" "no_screen_calls cs" "life_run True as (born x fds cs) = Some s"
    "\<And>t6 t4. L_CLEAN (CI_WAKE t6 t4) \<in> set as \<Longrightarrow> fst (wake_listener (as_data_port x) t6 t4)"
  shows "lf_bad s = [] \<and> (lf_c s = C_DONE \<longrightarrow> (\<forall>fd. lf_fds s fd \<noteq> Some SESSION) \<and>
    count_list (lf_calls s) (SN_START (as_screen x)) = count_list (lf_calls s) (SN_STOP (as_screen x)) \<and>
    count_list (lf_calls s) (SN_DELETE (as_screen x)) = 1 \<and> last (lf_calls s) = SN_DELETE (as_screen x))"
proof -
  have "as_screen x \<noteq> NULL" using assms(1) by (simp add: prepared_def)
  from life_run_ok [OF assms(4) born_ok [OF assms(1-3)] this assms(5)]
  have ok: "life_ok (as_screen x) (as_data_port x) s" by blast
  then have "lf_bad s = []" by (simp add: life_ok_def fds_ok_def)
  with done_clean [OF ok] show ?thesis by simp
qed

theorem session_gives_back_witness:
  "\<exists>s. life_run True demo_teardown (born demo_session Map.empty []) = Some s \<and> lf_c s = C_DONE \<and> lf_bad s = [] \<and>
     (\<forall>fd. lf_fds s fd \<noteq> Some SESSION)"
proof -
  obtain s where s: "life_run True demo_teardown (born demo_session Map.empty []) = Some s" "lf_c s = C_DONE"
    using demo_teardown_run by blast
  have w: "fst (wake_listener (as_data_port demo_session) t6 t4)" if "L_CLEAN (CI_WAKE t6 t4) \<in> set demo_teardown" for t6 t4
    using that by (auto simp: demo_teardown_def wake_listener_def demo_try_def demo_session_def Let_def)
  have "\<forall>fd. (Map.empty :: int \<Rightarrow> fd_owner option) fd \<noteq> Some SESSION" "no_screen_calls []" by (simp_all add: no_screen_calls_def)
  from session_gives_back [OF demo_prepared this s(1) w] s show ?thesis by blast
qed

text \<open>C16. A wake-up that fails can close a descriptor of another part of the process: the phone connects while the
  session is torn down, the worker closes the listener, its number is given out again, and the cleanup
  closes the number that it had copied.\<close>

theorem listener_closed_twice:
  assumes "prepared x" "fds (as_listen_fd x) = None" "fd \<ge> 0" "fd \<noteq> as_listen_fd x" "fds fd = None"
    "\<not> fst (wake_listener (as_data_port x) t6 t4)"
  shows "\<exists>s s'. life_run True (butlast (race x fd t6 t4)) (born x fds cs) = Some s \<and> lf_fds s (as_listen_fd x) = Some OTHERS \<and>
    life_run True (race x fd t6 t4) (born x fds cs) = Some s' \<and> lf_fds s' (as_listen_fd x) = None \<and> lf_bad s' = [as_listen_fd x]"
  using race_run [OF assms, of True cs] race_before [OF assms, of True cs] by blast

theorem listener_closed_twice_witness:
  "\<exists>s. life_run True (race demo_session 8 (demo_try (-1)) (demo_try (-1))) (born demo_session Map.empty []) = Some s \<and> lf_bad s = [5]"
  using listener_closed_twice [OF demo_prepared, of Map.empty 8 "demo_try (-1)" "demo_try (-1)" "[]"]
  by (auto simp: demo_session_def new_slot_def wake_listener_def demo_try_def Let_def)

text \<open>C17. The worker comes to its end: in every run it makes at most 620 steps, the wait for the main screen
  included, and until it is done some result of its next call lets it go on; so the join of the cleanup waits for
  the stock calls only.\<close>

theorem worker_bounded:
  assumes "life_run net_closes as (born x fds cs) = Some s"
  shows "length (filter is_worker as) \<le> 620 \<and> (lf_w s \<noteq> W_DONE \<longrightarrow> (\<exists>inp. worker_step net_closes inp s \<noteq> None))"
  using run_left [OF assms] worker_enabled [of s net_closes] by (simp add: born_def)

theorem worker_bounded_witness:
  "length (filter is_worker demo_played) \<le> 620 \<and>
   (\<exists>s. life_run True demo_played (born demo_session Map.empty []) = Some s \<and> lf_c s = C_DONE)"
  using demo_played_run worker_bounded by (metis (no_types, lifting))

section \<open>The requests of the phone\<close>

text \<open>C18. No reference is leaked and none is released twice: on every path through the handlers of SETUP and
  TEARDOWN and through the functions that send a command, whatever the library answers and whichever
  allocation fails, exactly the references that were created are released again; only the response of SETUP
  stays, for the caller, when one is stored.\<close>

theorem requests_balanced:
  "gives (AirPlayReceiverSessionSetup lib enabled wanted port receiver request)
     (\<lambda>x. case snd x of Some response \<Rightarrow> own_ref response | None \<Rightarrow> {#}) \<and>
   balanced (AirPlayReceiverSessionTearDown lib enabled receiver request reason) \<and>
   balanced (v8s_control_send lib memory c) \<and>
   balanced (send_zoom_event lib receiver direction) \<and>
   balanced (altscreen_request_fresh_keyframe lib g)"
  by (simp add: setup_gives teardown_gives v8s_control_send_gives send_gives keyframe_gives)





section \<open>What the head unit says of itself\<close>


text \<open>C22. Whatever the two files of the profile hold, the announced display has a size, a rate and four views
  in their ranges, and the safe area of each view lies in the display - or it is the one of the default
  display, for the views 2 and 3 that no line names - unless a sum of two coordinates wraps around.\<close>

theorem profile_geometry:
  assumes "no_wrap wide"
  shows "profile_ok (load_profile wide profile views) \<and> pr_view_count (load_profile wide profile views) = 4"
  using load_profile_ok [OF assms] by simp

theorem profile_geometry_witness:
  "profile_ok (load_profile (\<lambda>n. 2147483647) (Some (ascii ''1440 542 30'')) None) \<and>
   pr_view_count (load_profile (\<lambda>n. 2147483647) (Some (ascii ''1440 542 30'')) None) = 4"
  by (rule profile_geometry) (simp add: no_wrap_def)


section \<open>The video of the alternative screen\<close>





text \<open>C26. A keyframe that does not fit into the buffer is lost for good: the forwarder stops waiting for a
  keyframe although it has sent none, requests none, and forwards the next predictive frame.\<close>

theorem oversize_keyframe_lost:
  assumes "fw_fd f \<ge> 0" "fw_need_idr f" "has_idr data" "20 + length data > ALTSCREEN_FWD_BUFSZ"
    "av_ok \<lparr>av_data = unit, av_time = ts2, av_flag = flg2\<rparr>" "\<not> has_idr unit" "\<not> has_sets unit"
    "fe_sends fe2 = FwdSent (20 + length unit) # rs"
  shows "\<exists>f1 f2. fwd_send_access_unit fe data ts flg f = Some (False, [], f1) \<and> \<not> fw_need_idr f1 \<and> fw_fd f1 = fw_fd f \<and>
    fwd_send_access_unit fe2 unit ts2 flg2 f1 =
      Some (False, [F_SENT (fw_fd f) (av_wire \<lparr>av_data = unit, av_time = ts2, av_flag = flg2\<rparr>)], f2)"
proof -
  let ?a = "\<lparr>av_data = unit, av_time = ts2, av_flag = flg2\<rparr>"
  have scan: "\<exists>g. fwd_scan_parameter_sets d h = Some (has_idr d, has_sets d, g) \<and> fw_fd g = fw_fd h \<and> fw_need_idr g = fw_need_idr h" for d h
  proof -
    obtain us where "scan_units d 0 0 = Some us" using scan_total by blast
    then obtain i p g where g: "fwd_scan_parameter_sets d h = Some (i, p, g)" by (simp add: fwd_scan_parameter_sets_def)
    from scan_result [OF g] g show ?thesis by auto
  qed
  have d: "data \<noteq> []" "unit \<noteq> []" using assms(4,5) by (auto simp: av_ok_def)
  obtain g where g: "fwd_scan_parameter_sets data f = Some (True, has_sets data, g)" "fw_fd g = fw_fd f" "fw_need_idr g"
    using scan [of data f] assms(2,3) by auto
  define f1 where "f1 = g\<lparr>fw_need_idr := False, fw_last_keyframe_request_ms := 0, fw_dropped := fw_dropped g + 1\<rparr>"
  have one: "fwd_send_access_unit fe data ts flg f = Some (False, [], f1)"
    using g assms(1,4) d by (simp add: fwd_send_access_unit_def fwd_connect_locked_def fwd_write_locked_def Let_def f1_def)
  obtain g2 where g2: "fwd_scan_parameter_sets unit f1 = Some (False, False, g2)" "fw_fd g2 = fw_fd f" "\<not> fw_need_idr g2"
    using scan [of unit f1] assms(6,7) g(2) by (auto simp: f1_def)
  have "fwd_loop (fe_sends fe2) 0 (av_wire ?a) = Some (True, av_wire ?a, rs)"
  proof -
    obtain b p where p: "av_wire ?a = b # p" by (cases "av_wire ?a") (use length_av_wire [of ?a] in auto)
    have "length (b # p) = 20 + length unit" using length_av_wire [of ?a] p by simp
    then show ?thesis unfolding p assms(8) by (simp add: Let_def)
  qed
  then have "fwd_send_access_unit fe2 unit ts2 flg2 f1 =
      Some (False, [F_SENT (fw_fd f) (av_wire ?a)], g2\<lparr>fw_sent := fw_sent g2 + 1\<rparr>)"
    using g2 assms(1,5) d
    by (simp add: fwd_send_access_unit_def fwd_connect_locked_def fwd_write_locked_def Let_def av_ok_def av_wire_def)
  with one g(2) show ?thesis by (auto simp: f1_def)
qed

theorem oversize_keyframe_lost_witness:
  "\<exists>f1 f2. fwd_send_access_unit demo_fe large_idr 5 1 demo_up = Some (False, [], f1) \<and> \<not> fw_need_idr f1 \<and>
    fwd_send_access_unit (demo_fe\<lparr>fe_sends := [FwdSent 26]\<rparr>) demo_predictive 6 0 f1 =
      Some (False, [F_SENT 4 (av_wire \<lparr>av_data = demo_predictive, av_time = 6, av_flag = 0\<rparr>)], f2)"
proof -
  have p: "\<not> has_idr demo_predictive" "\<not> has_sets demo_predictive" "length demo_predictive = 6"
    by (simp_all add: has_idr_def has_sets_def unit_types_def demo_scan demo_length)
  then have a: "av_ok \<lparr>av_data = demo_predictive, av_time = 6, av_flag = 0\<rparr>" by (auto simp: av_ok_def)
  from oversize_keyframe_lost [of demo_up large_idr demo_predictive 6 0 "demo_fe\<lparr>fe_sends := [FwdSent 26]\<rparr>" "[]" demo_fe 5 1, OF _ _ large_idr_found large_idr_size a p(1,2)] p(3)
  show ?thesis by (auto simp: demo_up_def init_forward_def)
qed

text \<open>The scan of an access unit is exact on a stream of units: for up to 64 units behind four-byte start
  codes, it reports a keyframe exactly when a unit of type 5 is there, and parameter sets exactly when one of
  type 7 or 8 is.\<close>

theorem units_found:
  assumes "\<forall>u \<in> set us. nal_ok u" "length us \<le> 64"
  shows "\<exists>f'. fwd_scan_parameter_sets (annexb us) f =
    Some ((\<exists>u \<in> set us. hd u AND 0x1F = 5), (\<exists>u \<in> set us. hd u AND 0x1F = 7 \<or> hd u AND 0x1F = 8), f')"
proof -
  obtain vs where "scan_units (annexb us) 0 0 = Some vs" using scan_total by blast
  then obtain i p f' where s: "fwd_scan_parameter_sets (annexb us) f = Some (i, p, f')"
    by (simp add: fwd_scan_parameter_sets_def)
  from scan_result [OF s] have "i = has_idr (annexb us)" "p = has_sets (annexb us)" by simp_all
  then have "i = (\<exists>u \<in> set us. hd u AND 0x1F = 5)" "p = (\<exists>u \<in> set us. hd u AND 0x1F = 7 \<or> hd u AND 0x1F = 8)"
    by (auto simp: has_idr_def has_sets_def unit_types_annexb [OF assms] image_iff)
  with s show ?thesis by blast
qed

theorem units_found_witness: "\<exists>f'. fwd_scan_parameter_sets demo_idr init_forward = Some (True, True, f')"
proof -
  have "\<forall>u \<in> set [[0x67, 1], [0x68, 2], [0x65, 3 :: u8]]. nal_ok u" by (auto simp: nal_ok_def less_Suc_eq nth_Cons')
  from units_found [OF this, of init_forward] show ?thesis by (simp add: demo_idr_def)
qed

text \<open>The forwarder never holds up the decoding thread: an access unit, whatever its bytes are, is handled with
  at most 600 send calls more than it has bytes as long as none is interrupted, no byte outside of it is
  read, and a write gives up at the 21st timeout of the socket.\<close>

theorem unit_handled:
  assumes "fwd_run ops init_forward = Some (es, f)" "FwdEINTR \<notin> set (fe_sends fe)" "length data + 600 \<le> length (fe_sends fe)"
  shows "(\<exists>x. fwd_send_access_unit fe data ts flg f = Some x) \<and>
    (\<forall>p ok out rest. fwd_loop (fe_sends fe) 0 p = Some (ok, out, rest) \<longrightarrow>
       (\<exists>used. fe_sends fe = used @ rest \<and> count_list used FwdTimeout \<le> 21))"
proof -
  have "link_ok False (given_frame ops) f (fold on_wire es ([], None))"
    by (rule run_link_ok [OF assms(1) init_link_ok subset_refl]) simp
  then have "sets_ok f" by (simp add: link_ok_def)
  with unit_total [OF assms(2,3)] fwd_loop_timeouts [of "fe_sends fe" 0] show ?thesis by auto
qed

theorem unit_handled_witness:
  "\<exists>x. fwd_send_access_unit (demo_fe\<lparr>fe_sends := replicate 606 (FwdSent 1)\<rparr>) demo_predictive 6 0 demo_forward = Some x"
proof -
  from demo_length unit_handled [OF demo_video_run, of "demo_fe\<lparr>fe_sends := replicate 606 (FwdSent 1)\<rparr>" demo_predictive 6 0] show ?thesis by simp
qed

text \<open>C27. The table of private screens is a set of at most four: any sequence of registrations and removals has
  the answers and the result of the set operations, where a registration is refused exactly when
  the set is full and does not hold the screen.\<close>

theorem screens_registered:
  assumes "screen_run ops init_output = (bs, ao)"
  shows "spec_screens ops {} = (bs, screens ao) \<and> (\<forall>s. altscreen_is_session s ao \<longleftrightarrow> s \<in> screens ao) \<and> card (screens ao) \<le> 4"
  using screen_run_refines [OF init_registry(1) assms] is_session_screens screens_card by (auto simp: init_registry(2))

theorem screens_registered_witness:
  "spec_screens [R_ADD 8, R_ADD 8, R_DEL 8, R_ADD 9] {} = ([True, True, True, True], {9}) \<and>
   altscreen_is_session 9 (snd (screen_run [R_ADD 8, R_ADD 8, R_DEL 8, R_ADD 9] init_output))"
proof -
  let ?ao = "snd (screen_run [R_ADD 8, R_ADD 8, R_DEL 8, R_ADD 9] init_output)"
  have s: "spec_screens [R_ADD 8, R_ADD 8, R_DEL 8, R_ADD 9] {} = ([True, True, True, True], {9})" by auto
  have "screen_run [R_ADD 8, R_ADD 8, R_DEL 8, R_ADD 9] init_output =
      (fst (screen_run [R_ADD 8, R_ADD 8, R_DEL 8, R_ADD 9] init_output), ?ao)" by simp
  from screens_registered [OF this] s show ?thesis by auto
qed

text \<open>C28. The main screen is not touched: a call of the video library that does not come from the start of a private
  screen, or is not for the handle of the stub, goes to the stock function and changes nothing here.\<close>

theorem main_screen_untouched:
  assumes "\<not> output_scope_active_for_current_thread self ao" "rf_nvss_open r \<noteq> NULL" "h \<noteq> token"
  shows "NvSSVideoOpen r token self has_out cfg rc spawned ao f = Some (passed_on (rf_nvss_open r) SC_NVSS_OPEN rc, None, ao, f) \<and>
    NvSSVideoStreamConfigure r token h cfg rc f = Some (passed_on (rf_nvss_stream_configure r) (SC_NVSS_CONFIGURE h) rc, f) \<and>
    NvSSVideoGetAttribs r token h attribs rc = Some (passed_on (rf_nvss_get_attribs r) (SC_NVSS_GET h) rc, attribs) \<and>
    NvSSVideoSetAttribs r token h rc = passed_on (rf_nvss_set_attribs r) (SC_NVSS_SET h) rc \<and>
    NvSSVideoDecode r token h args memory fe rc f = Some (passed_on (rf_nvss_decode r) (SC_NVSS_DECODE h) rc, False, f) \<and>
    NvSSVideoClose r token h rc f = (passed_on (rf_nvss_close r) (SC_NVSS_CLOSE h) rc, f)"
  using assms by (auto simp: NvSSVideoOpen_def NvSSVideoStreamConfigure_def NvSSVideoGetAttribs_def NvSSVideoSetAttribs_def
      NvSSVideoDecode_def NvSSVideoClose_def is_stub_handle_def Let_def split: option.splits)

theorem main_screen_untouched_witness:
  "NvSSVideoClose demo_fns 8 3 0 demo_forward = (passed_on 1 (SC_NVSS_CLOSE 3) 0, demo_forward)"
  using main_screen_untouched [of 1 init_output demo_fns 3 8 True None 0 True demo_forward None None "\<lambda>_. []" demo_fe]
  by (auto simp: demo_fns_def init_output_def output_scope_active_for_current_thread_def)



section \<open>The capture\<close>

text \<open>C30. A capture whose writes are complete reads back as the packets that were recorded, in order, with
  their flags and consecutive sequence numbers; what is left out is empty, longer than 65535
  bytes, or over the limit of 16 MB, which the file never exceeds.\<close>

theorem capture_reads_back:
  assumes "cp_raw_fd c" "cp_file c = []" "cp_raw_bytes_written c = 0"
  shows "read_capture (cp_file (capture_all pfs c)) = Some (records (cp_raw_record_sequence c) (recorded 0 pfs)) \<and>
    length (cp_file (capture_all pfs c)) \<le> 16 * 1024 * 1024"
  using capture_all_file [OF assms(1), of pfs] read_file_of [OF recorded_short] recorded_size [of 0 "cp_raw_record_sequence c" pfs] assms(2,3)
  by simp_all

theorem capture_reads_back_witness:
  "read_capture (cp_file (capture_all [([1, 2, 3], None), ([], None)] (zero_capture\<lparr>cp_raw_fd := True\<rparr>))) =
    Some [(0, 0xff, 0, 0, [1, 2, 3])]"
proof -
  have "records 0 (recorded 0 [([1, 2, 3], None), ([], None)]) = [(0, 0xff, 0, 0, [1, 2, 3])]"
    by (simp add: record_of_def raw_flags_def Let_def)
  with capture_reads_back [of "zero_capture\<lparr>cp_raw_fd := True\<rparr>" "[([1, 2, 3], None), ([], None)]"] show ?thesis
    by (simp add: zero_capture_def)
qed

text \<open>A writev that stops in a record leaves a capture that no longer reads: the record is torn and
  the writer goes on behind it.\<close>

theorem short_write_tears_capture:
  assumes "cp_raw_fd c" "p \<noteq> []" "length p \<le> 65535" "cp_raw_bytes_written c + 16 + length p \<le> K2161_RAW_CAPTURE_LIMIT"
    "list_all (\<lambda>pf. length (fst pf) \<le> 65535) pfs" "cp_file c = file_of seq pfs" "0 < w" "w < 16 + int (length p)"
  shows "read_capture (cp_file (write_raw_packet w (Some p) f c)) = None"
  by (rule short_write_tears [OF assms])

theorem short_write_tears_capture_witness:
  "read_capture (cp_file (write_raw_packet 10 (Some [1, 2, 3]) None (zero_capture\<lparr>cp_raw_fd := True\<rparr>))) = None"
  using short_write_tears_capture [of "zero_capture\<lparr>cp_raw_fd := True\<rparr>" "[1, 2, 3]" "[]" 0 10 None]
  by (simp add: zero_capture_def)

section \<open>The bridge and the hook\<close>

text \<open>Whatever sequence of events happens to the bridge in a fresh process - starts of the
  bus, arbitrary byte strings from the phone, timer ticks and shutdowns, with any outcome of the
  thread creations - every step completes: no parser, cache or text buffer is left, the state
  of bus, caches and tick registration stays well-formed, and the hook never injects a message
  of its own into the stock connection. The bound is on the 32-bit use counters.\<close>

theorem bridge_safe:
  assumes "envs_ok ops" "20 * length ops < 0xFFFFFE00"
  shows "\<exists>br. bridge_run ops zero_bridge = Some br \<and> bridge_inv (20 * length ops) br"
  using bridge_run_inv [OF assms(1) zero_bridge_inv, of 0] assms(2) by simp

theorem bridge_safe_witness:
  "\<exists>br. bridge_run [(demo_env 5, Br_feed \<lparr>bo_pid = 1, bo_connector = True, bo_writer = True, bo_timer = True\<rparr>
      (Some (state_frame 1))), (demo_env 6, Br_timer)] zero_bridge = Some br \<and> bridge_inv 40 br"
  using bridge_safe [of "[(demo_env 5, Br_feed \<lparr>bo_pid = 1, bo_connector = True, bo_writer = True, bo_timer = True\<rparr>
      (Some (state_frame 1))), (demo_env 6, Br_timer)]"]
  by (simp add: envs_ok_def demo_env_ok)

text \<open>The answer of k2161_rgi_bridge_feed: -1 for no buffer or less than six bytes, -2 when no
  frame is found, -3 when the first frame is not the whole buffer, 0 for another message, -4
  when the bus cannot be started, and 1 otherwise. Only the answers 1 and -4 touch the state.\<close>

theorem feed_answers:
  assumes "bridge_ok n br" "n < 0xFFFFFE00" "env_ok ev"
  shows "\<exists>br'. k2161_rgi_bridge_feed bo ev pbuf br =
      Some (feed_code pbuf (fst (k2161_rgi_bridge_init bo br)), br') \<and>
    (feed_code pbuf True \<noteq> 1 \<longrightarrow> br' = br)"
  using feed_ok [OF assms, of bo pbuf] by blast

theorem feed_answers_witness:
  "\<exists>br'. k2161_rgi_bridge_feed \<lparr>bo_pid = 1, bo_connector = True, bo_writer = True, bo_timer = True\<rparr>
      (demo_env 5) (Some [0x40, 0x40, 0]) zero_bridge = Some (-1, br')"
  using feed_answers [OF zero_bridge_ok [of 0] _ demo_env_ok [of 5],
      of "\<lparr>bo_pid = 1, bo_connector = True, bo_writer = True, bo_timer = True\<rparr>" "Some [0x40, 0x40, 0]"]
  by (simp add: feed_code_def)

text \<open>A packet that the receive probe reports as complete is a whole control frame for the
  bridge: it is accepted when its message is 0x5201, 0x5202 or 0x5204 and the bus is up, and
  never answered with a parse error.\<close>

theorem probe_feeds:
  assumes "k2161_probe_rgi_start (Some t) = Some (Some p)" "pf_complete p"
  shows "feed_code (Some (probe_bytes t p)) up = (if rgi_msgid (pf_msgid p) then if up then 1 else -4 else 0)"
  by (rule feed_code_probe [OF assms])

theorem probe_feeds_witness:
  "feed_code (Some (probe_bytes (replicate 9 0 @ frame_bytes 0x5202 [])
     \<lparr>pf_msgid = 0x5202, pf_frame_len = 6, pf_frame_offset = 9, pf_available_len = 6, pf_complete = True\<rparr>)) True = 1"
proof -
  have "k2161_probe_rgi_start (Some (replicate 9 0 @ frame_bytes 0x5202 [])) =
      Some (Some \<lparr>pf_msgid = 0x5202, pf_frame_len = 6, pf_frame_offset = 9, pf_available_len = 6, pf_complete = True\<rparr>)"
    by code_simp
  from probe_feeds [OF this, of True] show ?thesis by (simp add: rgi_msgid_def)
qed

text \<open>The probe finds every frame with a message id of the group 0x5200 to 0x5204 that follows a
  link header of nine bytes, and calls it complete when all of it is there.\<close>

theorem probe_finds:
  assumes "length h = 9" "length payload \<le> 65529" "0x5200 \<le> msgid" "msgid \<le> 0x5204"
  shows "k2161_probe_rgi_start (Some (h @ frame_bytes msgid payload @ rest)) =
    Some (Some \<lparr>pf_msgid = msgid, pf_frame_len = of_nat (6 + length payload), pf_frame_offset = 9,
      pf_available_len = 6 + length payload + length rest, pf_complete = True\<rparr>)"
  by (rule probe_sent [OF assms])

theorem probe_finds_witness:
  "k2161_probe_rgi_start (Some (replicate 9 7 @ frame_bytes 0x5204 [1, 2] @ [3])) =
    Some (Some \<lparr>pf_msgid = 0x5204, pf_frame_len = 8, pf_frame_offset = 9, pf_available_len = 9, pf_complete = True\<rparr>)"
  using probe_finds [of "replicate 9 7" "[1, 2]" "0x5204" "[3]"] by simp



section \<open>The debounce of the end of a route\<close>



text \<open>While an end of route is held, any number of further reset frames, updates without
  evidence of a route and timer ticks before the deadline (all of them, when the reset came out
  of a reroute) publish nothing and leave it held: the car keeps its last picture.\<close>

theorem zero_is_held:
  assumes "w_initialized w" "hook_ok n w" "n + 20 * length ops < 0xFFFFFE00"
    and "deb_ok (w_rgd w)" "phase_of (w_rgd w) = Held e t"
    and "ops_ok ops" "\<forall>(ev, op) \<in> set ops. before t ev \<and> silent_op op"
  shows "\<exists>w'. hook_run ops w = Some w' \<and> phase_of (w_rgd w') = Held e t \<and> w_bus w' = w_bus w"
  using held_run [OF assms] by blast

theorem zero_is_held_witness:
  "\<exists>w'. hook_run [(demo_env 900000, Op_tick),
       (demo_env 900001, Op_message (state_frame 0) (frame_of (state_frame 0) 0))] (held_world None) = Some w' \<and>
     phase_of (w_rgd w') = Held 1 None \<and> w_bus w' = w_bus (held_world None)"
proof -
  note h = held_world_ok [of None, simplified]
  have i: "op_input (Op_message (state_frame 0) (frame_of (state_frame 0) 0)) = Some (In_state 0 False)"
    "unat (fr_frame_len (frame_of (state_frame 0) 0)) \<le> length (state_frame 0)"
    by code_simp+
  have ok: "ops_ok [(demo_env 900000, Op_tick),
      (demo_env 900001, Op_message (state_frame 0) (frame_of (state_frame 0) 0))]"
    using i(2) by (simp add: ops_ok_def op_ok_def demo_env_ok)
  have silent: "\<forall>(ev, op) \<in> set [(demo_env 900000, Op_tick),
      (demo_env 900001, Op_message (state_frame 0) (frame_of (state_frame 0) 0))].
      before None ev \<and> silent_op op"
    using i(1) by (simp add: before_def clock_ok_def demo_env_def silent_op_def silent_input_def op_input_def)
  from zero_is_held [OF h(1,2) _ h(3,4) ok silent] show ?thesis by simp
qed



text \<open>The tick claims the end of the route under its lock and sends it after releasing the lock.
  A message of the phone between the two announces the new route first, and the end of the old
  one is sent after it: the car's last message says that there is no route, while the hook holds
  the new state for published.\<close>

theorem late_end_of_route:
  assumes "env_ok ev1" "env_ok ev2" "env_ok ev3" "clock_ok (ev_now ev2)"
    and "w_initialized w" "hook_ok n w" "n < 0xFFFFFE00" "deb_ok (w_rgd w)"
    and "phase_of (w_rgd w) = Held e (Some t)" "t \<le> ev_now ev1"
    and "unat (fr_frame_len fr) \<le> length raw" "op_input (Op_message raw fr) = Some (In_state s hard)" "s \<noteq> 0"
  shows "\<exists>w1 w2 w3 q. tick_claim ev1 w = Some (True, w1) \<and> rgd_message_handler ev2 raw fr w1 = Some w2 \<and>
    tick_emit ev3 w2 = Some w3 \<and> short_text route_end_calls 128 (w_bus w2) = Some (q, w_bus w3) \<and>
    phase_of (w_rgd w3) = Live s"
  by (rule claim_message_emit [OF assms])

theorem late_end_of_route_witness:
  "\<exists>w1 w2 w3 q. tick_claim (demo_env 1800) (held_world (Some 1800)) = Some (True, w1) \<and>
    rgd_message_handler (demo_env 1801) (state_frame 1) (frame_of (state_frame 1) 0) w1 = Some w2 \<and>
    tick_emit (demo_env 1802) w2 = Some w3 \<and> short_text route_end_calls 128 (w_bus w2) = Some (q, w_bus w3) \<and>
    phase_of (w_rgd w3) = Live 1"
proof -
  have "Some (1800 :: u64) \<noteq> Some 0" by simp
  note h = held_world_ok [OF this]
  have i: "op_input (Op_message (state_frame 1) (frame_of (state_frame 1) 0)) = Some (In_state 1 False)"
    "unat (fr_frame_len (frame_of (state_frame 1) 0)) \<le> length (state_frame 1)"
    by code_simp+
  have now: "ev_now (demo_env t) = t" for t by (simp add: demo_env_def)
  show ?thesis
    by (rule late_end_of_route [OF demo_env_ok demo_env_ok demo_env_ok _ h(1,2) _ h(3,4) _ i(2,1)])
       (simp_all add: now clock_ok_def)
qed

section \<open>The published snapshot\<close>





text \<open>A maneuver without junction angles whose presence bit is set publishes the bytes that its
  uninitialised local buffer happens to hold.\<close>

theorem junction_angles_uninitialised:
  assumes "has (mn_present m) RGD_MAN_JUNCTION_ANGLES" "mn_junction_angles m = []"
  shows "junction_angle_calls stack idx m = Some [T_str (mkey idx ''_junction_angles'') (Some stack)]"
  using assms by (simp add: junction_angle_calls_def)

theorem junction_angles_uninitialised_witness:
  "\<exists>m. rgd_parse_maneuver (Some (frame_bytes 0x5202 (tlv_encode (0xA, [])))) = Some m \<and>
     junction_angle_calls [88, 89] 3 m = Some [T_str (mkey 3 ''_junction_angles'') (Some [88, 89])]"
proof -
  have "map_option (\<lambda>m. (has (mn_present m) RGD_MAN_JUNCTION_ANGLES, mn_junction_angles m))
      (rgd_parse_maneuver (Some (frame_bytes 0x5202 (tlv_encode (0xA, []))))) = Some (True, [])"
    by code_simp
  then obtain m where m: "rgd_parse_maneuver (Some (frame_bytes 0x5202 (tlv_encode (0xA, [])))) = Some m"
    "has (mn_present m) RGD_MAN_JUNCTION_ANGLES" "mn_junction_angles m = []" by auto
  from junction_angles_uninitialised [OF m(2,3), of "[88, 89]" 3] m(1) show ?thesis by blast
qed

section \<open>The bus\<close>



text \<open>C37. No frame is lost, duplicated or reordered between the producers and the writer: the
  accepted frames are those the writer has taken followed by those in the ring.\<close>

theorem queue_is_fifo:
  assumes "sys_reach False s"
  shows "sy_accepted s = sy_taken s @ ring_items (b_q (sy_bus s)) \<and> bus_ok (sy_bus s)"
  using sys_reach_inv [OF assms] by (simp add: sys_inv_def queue_ok_def)

theorem queue_is_fifo_witness:
  "\<exists>s. sys_run False early_run sys_init = Some s \<and> sy_accepted s = sy_taken s @ ring_items (b_q (sy_bus s)) \<and>
     length (sy_accepted s) = 1"
proof -
  have "map_option (\<lambda>s. length (sy_accepted s)) (sys_run False early_run sys_init) = Some 1"
    by code_simp
  then obtain s where s: "sys_run False early_run sys_init = Some s" "length (sy_accepted s) = 1" by auto
  with queue_is_fifo [OF sys_run_reach [OF sys_reach.start s(1)]] show ?thesis by blast
qed

text \<open>When the kernel reuses the number of a closed descriptor that the writer still holds, the
  generation check comes too late: a queued frame is the first thing on the new connection,
  before its HELLO.\<close>

theorem reused_descriptor:
  "\<exists>s. sys_reach True s \<and> map fm_type (frames_on s 1) = [EVT_RGD_UPDATE] \<and> \<not> order_ok (frames_on s 1)"
proof -
  from reuse_run_result obtain s where
    s: "sys_run True reuse_run sys_init = Some s" "map fm_type (frames_on s 1) = [EVT_RGD_UPDATE]" by auto
  then obtain f where f: "frames_on s 1 = [f]" "fm_type f = EVT_RGD_UPDATE" by auto
  then have "\<not> order_ok (frames_on s 1)" by (auto simp: order_ok_def prefix_def Cons_eq_append_conv)
  moreover have "sys_reach True s" by (rule sys_run_reach [OF sys_reach.start s(1)])
  ultimately show ?thesis using s(2) by (intro exI [of _ s] conjI)
qed

text \<open>The sequence numbers on a connection need not increase: a frame queued before the phone
  side connects is sent with its old number after the HELLO and the snapshot.\<close>

theorem sequence_goes_back:
  "\<exists>s. sys_reach False s \<and> map fm_seq (frames_on s 0) = [2, 3, 4, 1]"
proof -
  from early_run_result obtain s where
    s: "sys_run False early_run sys_init = Some s" "map fm_seq (frames_on s 0) = [2, 3, 4, 1]" by auto
  have "sys_reach False s" by (rule sys_run_reach [OF sys_reach.start s(1)])
  with s(2) show ?thesis by (intro exI [of _ s] conjI)
qed

text \<open>A frame of the snapshot that is sent only in part does not end the connection: the frames
  after it follow the torn one and the link becomes the current one.\<close>

theorem torn_snapshot_kept:
  "\<exists>s. sys_reach False s \<and> b_client_fd (sy_bus s) = Some 3 \<and>
     map (\<lambda>x. (fm_type (fst x), snd x)) (sy_wire s 0) =
       [(EVT_HELLO, True), (EVT_SYNC_BEGIN, False), (EVT_SYNC_END, True)]"
proof -
  from torn_run_result obtain s where
    s: "sys_run False torn_run sys_init = Some s" "b_client_fd (sy_bus s) = Some 3"
      "map (\<lambda>x. (fm_type (fst x), snd x)) (sy_wire s 0) =
       [(EVT_HELLO, True), (EVT_SYNC_BEGIN, False), (EVT_SYNC_END, True)]" by auto
  have "sys_reach False s" by (rule sys_run_reach [OF sys_reach.start s(1)])
  with s(2,3) show ?thesis by (intro exI [of _ s] conjI)
qed

text \<open>bus_send on a running bus: with room it appends exactly one frame with the next number; on
  a full ring it refuses the frame, gives its number back and touches nothing that was queued.
  Either way it remembers a sticky frame, and the bus stays well-formed.\<close>

theorem send_appends:
  assumes "send_args_ok type payload len" "\<not> b_shutdown b" "bus_ok b"
  shows "\<exists>q. let f = send_frame_of type flags payload len (b_tx_seq b); full = (rq_count (b_q b) = SEND_QUEUE_CAPACITY);
               b' = (cached type flags f b)\<lparr>b_q := q, b_tx_seq := (if full then b_tx_seq b else b_tx_seq b + 1)\<rparr>
           in bus_send alloc_ok type flags payload len b = Some (if full then HOOK_ERR_BUSY else HOOK_OK, b') \<and>
              bus_ok b' \<and> (if full then q = b_q b else ring_items q = ring_items (b_q b) @ [f])"
proof (cases "rq_count (b_q b) = SEND_QUEUE_CAPACITY")
  case True
  let ?c = "cached type flags (send_frame_of type flags payload len (b_tx_seq b)) b"
  have eq: "?c\<lparr>b_q := b_q b, b_tx_seq := b_tx_seq b\<rparr> = ?c"
    by (rule bus.equality) simp_all
  show ?thesis
    using bus_send_full [OF assms True, of flags] by (intro exI [of _ "b_q b"]) (simp only: True Let_def if_True eq simp_thms)
next
  case False
  moreover have "rq_count (b_q b) \<le> SEND_QUEUE_CAPACITY" using assms(3) by (simp add: bus_ok_def ring_ok_def)
  ultimately show ?thesis using bus_send_room [OF assms, of flags] by (simp add: Let_def)
qed

theorem send_appends_witness:
  "\<exists>q b'. bus_send alloc_ok EVT_RGD_UPDATE 1 (Some [65]) 1 zero_bus = Some (HOOK_OK, b') \<and>
     b_q b' = q \<and> map fm_payload (ring_items q) = [Some [65]]"
proof -
  have "send_args_ok EVT_RGD_UPDATE (Some [65]) 1" by (simp add: send_args_ok_def)
  from send_appends [OF this _ zero_bus_ok, of 1] show ?thesis
    by (force simp: Let_def zero_bus_def ring_items_def send_frame_of_def)
qed

text \<open>A snapshot is SYNC_BEGIN, the remembered frame of every type in the order of the types, and
  SYNC_END; its frames are well-formed and carry consecutive numbers, which are then used up.\<close>

theorem snapshot_replays:
  assumes "bus_ok b"
  shows "sync_snapshot True (\<lambda>_. True) b =
      Some (snapshot_of b, b\<lparr>b_tx_seq := b_tx_seq b + of_nat (length (snapshot_of b))\<rparr>) \<and>
    list_all frame_ok (snapshot_of b) \<and>
    (\<forall>k<length (snapshot_of b). fm_seq (snapshot_of b ! k) = b_tx_seq b + of_nat k)"
  using sync_snapshot_eq [OF assms] snapshot_frames_ok [OF assms] snapshot_seq by blast

theorem snapshot_replays_witness:
  "\<exists>fs b'. sync_snapshot True (\<lambda>_. True) sticky_bus = Some (fs, b') \<and> length fs = 3 \<and> list_all frame_ok fs \<and>
     (\<forall>k<3. fm_seq (fs ! k) = 1 + of_nat k)"
proof -
  have "length (snapshot_of sticky_bus) = 3" "b_tx_seq sticky_bus = 1" by code_simp+
  with snapshot_replays [OF sticky_bus_ok] show ?thesis by auto
qed

text \<open>When the copy for the sticky cache cannot be allocated, bus_send still succeeds and leaves
  a remembered frame that has its length but no payload; the next snapshot copies from that null
  pointer.\<close>

theorem sticky_copy_lost:
  assumes "send_args_ok type payload len" "len > 0" "\<not> b_shutdown b"
    and "is_sticky flags (b_types b (unat type))" "ts_has_last (b_types b (unat type))"
    and "ring_ok (b_q b)" "rq_count (b_q b) < SEND_QUEUE_CAPACITY"
  shows "\<exists>b'. bus_send \<lparr>al_payload = True, al_sticky = False, al_queue = True\<rparr> type flags payload len b
      = Some (HOOK_OK, b') \<and> sync_snapshot True (\<lambda>_. True) b' = None"
proof -
  have t: "unat type < MAX_TYPES" using assms(1) by (simp add: send_args_ok_def)
  from sticky_nomem [OF assms] sync_snapshot_NULL [OF t] assms(2) show ?thesis by blast
qed

theorem sticky_copy_lost_witness:
  "\<exists>b'. bus_send \<lparr>al_payload = True, al_sticky = False, al_queue = True\<rparr> EVT_RGD_UPDATE 1 (Some [66]) 1 sticky_bus
      = Some (HOOK_OK, b') \<and> sync_snapshot True (\<lambda>_. True) b' = None"
proof -
  have a: "send_args_ok EVT_RGD_UPDATE (Some [66]) 1" by (simp add: send_args_ok_def)
  have "ts_has_last (b_types sticky_bus (unat EVT_RGD_UPDATE))" "\<not> b_shutdown sticky_bus"
    "rq_count (b_q sticky_bus) = 0" "ring_ok (b_q sticky_bus)"
    using sticky_bus_ok by (simp_all add: sticky_bus_def upd_slot_def zero_bus_def bus_ok_def)
  with sticky_copy_lost [OF a, of sticky_bus 1] show ?thesis by (simp add: is_sticky_def)
qed

text \<open>The queueing policy that is configured for a type makes no difference: whatever policy any
  type is given, bus_send answers the same and leaves the same queue.\<close>

theorem policy_ignored:
  assumes "send_args_ok type payload len" "\<not> b_shutdown b" "bus_ok b"
  shows "map_option (\<lambda>(r, b'). (r, b_q b'))
           (bus_send alloc_ok type flags payload len (bus_set_policy t p b)) =
         map_option (\<lambda>(r, b'). (r, b_q b')) (bus_send alloc_ok type flags payload len b)"
  by (rule q_enqueue_policy_free [OF assms])

theorem policy_ignored_witness:
  "map_option (\<lambda>(r, b'). (r, b_q b')) (bus_send alloc_ok EVT_RGD_UPDATE 0 (Some [65]) 1
      (bus_set_policy EVT_RGD_UPDATE BUS_POLICY_DROP_OLD full_bus)) =
    map_option (\<lambda>(r, b'). (r, b_q b')) (bus_send alloc_ok EVT_RGD_UPDATE 0 (Some [65]) 1 full_bus)"
proof -
  have "send_args_ok EVT_RGD_UPDATE (Some [65]) 1" by (simp add: send_args_ok_def)
  moreover have "\<not> b_shutdown full_bus" by (simp add: full_bus_def zero_bus_def)
  ultimately show ?thesis using full_bus_ok by (rule policy_ignored)
qed

text \<open>However the kernel splits the writes, send_frame reports success exactly when the whole
  frame went out; on an error a proper prefix of it is on the wire.\<close>

theorem send_whole_or_prefix:
  assumes "frame_ok f" "send_frame rs f = Some (rc, out, rs')"
  shows "(rc = 0 \<and> out = frame_wire f) \<or> (rc = -1 \<and> (\<exists>q. q \<noteq> [] \<and> frame_wire f = out @ q))"
  by (rule send_frame_ok [OF assms])

theorem send_whole_or_prefix_witness:
  "\<exists>out rs'. send_frame [SentBytes 3, SendEINTR, SendFailed] (control_frame EVT_SYNC_END 7) = Some (-1, out, rs') \<and>
     (\<exists>q. q \<noteq> [] \<and> frame_wire (control_frame EVT_SYNC_END 7) = out @ q)"
proof -
  have "send_frame [SentBytes 3, SendEINTR, SendFailed] (control_frame EVT_SYNC_END 7) =
      Some (-1, [0x43, 0x50, 0x48], [])" by code_simp
  with send_whole_or_prefix [OF frame_ok_control this] show ?thesis by auto
qed

text \<open>A frame that was sent whole is read back as itself, however the reads are split: the
  receiver handles type, flags, payload and length as they were, and goes on with the bytes after
  the frame. It drops the link only when a read fails or the peer closes.\<close>

theorem frame_crosses_wire:
  assumes "frame_ok f" "send_frame ws f = Some (0, out, ws')"
    and "read_frame True rs (out @ rest) b = Some (r, rs', st')"
  shows "(r = RxDrop \<and> \<not> link_good rs) \<or> (r = rx_of b f \<and> st' = rest)"
  using send_frame_ok [OF assms(1,2)] read_frame_wire [OF assms(1)] assms(3) by simp

theorem frame_crosses_wire_witness:
  "\<exists>r rs' st'. read_frame True [RecvBytes 5, RecvEINTR, RecvBytes 11]
      (frame_wire (control_frame CMD_SYNC_REQ 7) @ [1]) zero_bus = Some (r, rs', st') \<and> r = RxSync \<and> st' = [1]"
proof -
  have "map_option (\<lambda>(r, out, rs). (r, out = frame_wire (control_frame CMD_SYNC_REQ 7)))
      (send_frame [SentBytes 16] (control_frame CMD_SYNC_REQ 7)) = Some (0, True)" by code_simp
  then obtain ws where s: "send_frame [SentBytes 16] (control_frame CMD_SYNC_REQ 7) =
      Some (0, frame_wire (control_frame CMD_SYNC_REQ 7), ws)" by auto
  have "map_option (\<lambda>(r, rs, st). st) (read_frame True [RecvBytes 5, RecvEINTR, RecvBytes 11]
      (frame_wire (control_frame CMD_SYNC_REQ 7) @ [1]) zero_bus) = Some [1]" by code_simp
  then obtain r rs where r: "read_frame True [RecvBytes 5, RecvEINTR, RecvBytes 11]
      (frame_wire (control_frame CMD_SYNC_REQ 7) @ [1]) zero_bus = Some (r, rs, [1])" by auto
  have "rx_of zero_bus (control_frame CMD_SYNC_REQ 7) = RxSync" by (simp add: rx_of_def control_frame_def)
  with frame_crosses_wire [OF frame_ok_control s r] r show ?thesis by (auto simp: link_good_def)
qed

text \<open>C38. bus_shutdown waits at most 2500 ms whatever the threads do, closes the link, and releases the
  queue and the remembered frames only when no thread of the bus may still run.\<close>

theorem shutdown_bounded:
  assumes "b_owner_pid b = 0 \<or> pid = b_owner_pid b" "bus_ok b" "bus_shutdown pid obs b = (w, b')"
  shows "w \<le> 2500 \<and> b_shutdown b' \<and> b_client_fd b' = None \<and> bus_ok b' \<and>
    (if shutdown_busy b (obs w) then b_q b' = b_q b \<and> b_types b' = b_types b
     else ring_items (b_q b') = [] \<and> (\<forall>f \<in> set (rq_ring (b_q b')). fm_payload f = None) \<and>
          (\<forall>i<MAX_TYPES. \<not> ts_has_last (b_types b' i)))"
  using bus_shutdown_owner [OF assms(1), of obs] bus_shutdown_ok [OF assms(2), of pid obs]
    shutdown_wait_bound [of 0 obs b] drain_ok [of "b_q b"] assms(2,3)
  by (auto simp: bus_ok_def clear_types_def clear_slot_def Let_def)

theorem shutdown_bounded_witness:
  "\<exists>w b'. bus_shutdown 1 (\<lambda>_. (True, True, True)) full_bus = (w, b') \<and> w \<le> 2500 \<and> ring_items (b_q b') = []"
proof -
  obtain w b' where s: "bus_shutdown 1 (\<lambda>_. (True, True, True)) full_bus = (w, b')" by (rule prod.exhaust)
  have f: "b_owner_pid full_bus = 0" "\<not> shutdown_busy full_bus (True, True, True)"
    by (simp_all add: full_bus_def zero_bus_def shutdown_busy_def)
  from shutdown_bounded [OF disjI1 [OF f(1)] full_bus_ok s] f(2) s show ?thesis by auto
qed

section \<open>Parsers\<close>

text \<open>The parser of RouteGuidanceUpdate (0x5201) accepts every byte string: it never reads
  outside the message, and what it returns respects the array and string bounds of
  rgd_update_t, with no NUL or line break in the names that are published.\<close>

theorem update_parser_safe:
  "\<exists>u. rgd_parse_update pbuf = Some u \<and> wf_update u"
  by (rule rgd_parse_update_wf)

text \<open>C39. On any message of at least six bytes the parser of 0x5201 computes a plain function of the list
  of its TLVs: each field is the last value with its identifier that is long enough, and the
  presence bits are those of all such TLVs.\<close>

theorem update_parser_spec:
  assumes "6 \<le> length buf"
  shows "rgd_parse_update (Some buf) = Some (update_spec (tlv_split (drop 6 buf)))"
  by (rule rgd_parse_update_spec [OF assms])

theorem update_parser_spec_witness:
  "rgd_parse_update (Some (frame_bytes 0x5201 (tlv_encode (1, [9]) @ tlv_encode (1, [3])))) =
     Some (update_spec [(1, [9]), (1, [3])])"
proof -
  have "drop 6 (frame_bytes 0x5201 (tlv_encode (1, [9]) @ tlv_encode (1, [3]))) =
      concat (map tlv_encode [(1, [9]), (1, [3])])"
    by (simp add: frame_bytes_def write_be16_def)
  then show ?thesis
    using update_parser_spec [of "frame_bytes 0x5201 (tlv_encode (1, [9]) @ tlv_encode (1, [3]))"]
      tlv_split_encode [of "[(1, [9]), (1, [3])]"]
    by (simp add: tlv_ok_def)
qed

text \<open>The parser of RouteGuidanceManeuver (0x5202) computes a plain function of the list of TLVs,
  with the default exit angle 1000 of an indexed maneuver without one, and its result is within
  the bounds of rgd_maneuver_t.\<close>

theorem maneuver_parser_spec:
  assumes "6 \<le> length buf"
  shows "rgd_parse_maneuver (Some buf) =
      Some (default_exit_angle (maneuver_spec (tlv_split (drop 6 buf)))) \<and>
    wf_maneuver (default_exit_angle (maneuver_spec (tlv_split (drop 6 buf))))"
  using rgd_parse_maneuver_spec [OF assms] rgd_parse_maneuver_wf [of "Some buf"] by auto

theorem maneuver_parser_spec_witness:
  "rgd_parse_maneuver (Some (frame_bytes 0x5202 (tlv_encode (1, [0, 5])))) =
     Some (default_exit_angle (maneuver_spec [(1, [0, 5])]))"
proof -
  have "drop 6 (frame_bytes 0x5202 (tlv_encode (1, [0, 5]))) = concat (map tlv_encode [(1, [0, 5])])"
    by (simp add: frame_bytes_def write_be16_def)
  then show ?thesis
    using maneuver_parser_spec [of "frame_bytes 0x5202 (tlv_encode (1, [0, 5]))"]
      tlv_split_encode [of "[(1, [0, 5])]"]
    by (simp add: tlv_ok_def)
qed

text \<open>The parser of RouteGuidanceLaneGuidance (0x5204) accepts every byte string and returns at most
  eight lanes of at most sixteen angles each, with strings that fit their arrays.\<close>

theorem lane_parser_safe:
  "\<exists>g. rgd_parse_lane_guidance pbuf = Some g \<and> wf_lane_guidance g"
  by (rule rgd_parse_lane_guidance_wf)

text \<open>iap2_find_frame returns the first position of the buffer where a whole frame starts, with the
  fields of that frame, or nothing when there is no such position; it never reads outside.\<close>

theorem first_frame_found:
  "\<exists>r. iap2_find_frame (Some buf) = Some r \<and>
    (case r of None \<Rightarrow> \<forall>i. \<not> frame_at buf i
     | Some f \<Rightarrow> \<exists>i. frame_at buf i \<and> f = frame_of buf i \<and> (\<forall>j<i. \<not> frame_at buf j))"
proof (cases "length buf < 6")
  case True
  then have "\<not> frame_at buf i" for i by (simp add: frame_at_def)
  with True show ?thesis by (simp add: iap2_find_frame_def iap2_find_frame_at_eq)
next
  case False
  have bound: "i < length buf - 5" if "frame_at buf i" for i using that unfolding frame_at_def by linarith
  show ?thesis
  proof (cases "find (frame_at buf) [0..<length buf - 5]")
    case None
    with bound have "\<forall>i. \<not> frame_at buf i" by (fastforce simp: find_None_iff)
    with False None show ?thesis by (simp add: iap2_find_frame_def iap2_find_frame_at_eq)
  next
    case (Some i)
    then have "frame_at buf i \<and> (\<forall>j<i. \<not> frame_at buf j)" by (simp add: find_upt_Some)
    with False Some show ?thesis by (auto simp: iap2_find_frame_def iap2_find_frame_at_eq)
  qed
qed

theorem first_frame_found_witness:
  "\<exists>i. iap2_find_frame (Some [7, 0x40, 0x40, 0, 6, 0x52, 0x01]) = Some (Some (frame_of [7, 0x40, 0x40, 0, 6, 0x52, 0x01] i)) \<and>
     frame_at [7, 0x40, 0x40, 0, 6, 0x52, 0x01] i \<and> (\<forall>j<i. \<not> frame_at [7, 0x40, 0x40, 0, 6, 0x52, 0x01] j)"
proof -
  have "frame_at [7, 0x40, 0x40, 0, 6, 0x52, 0x01] 1" by code_simp
  with first_frame_found [of "[7, 0x40, 0x40, 0, 6, 0x52, 0x01]"] show ?thesis
    by (auto split: option.splits)
qed

text \<open>A control frame that iap2_build_frame writes into a large enough buffer is found again at its
  start, with its length and message id, and its payload of encoded TLVs splits into the same
  list. The payload must fit the 16-bit length field.\<close>

theorem frame_roundtrip:
  assumes "list_all tlv_ok ts" "p = concat (map tlv_encode ts)" "length p \<le> 65529" "6 + length p \<le> length m"
  shows "\<exists>m'. iap2_build_frame (Some m) msgid (Some p) (length p) = Some (6 + length p, Some m') \<and>
    iap2_find_frame (Some m') = Some (Some (mk_frame 0 (of_nat (6 + length p)) msgid)) \<and>
    tlv_split (take (length p) (drop 6 m')) = ts"
proof -
  have m: "mem_put m 0 (frame_bytes msgid p) = frame_bytes msgid p @ drop (6 + length p) m"
    by (simp add: mem_put_def)
  have "take (length p) (drop 6 (frame_bytes msgid p @ drop (6 + length p) m)) = p"
    by (simp add: frame_bytes_def write_be16_def)
  moreover have "tlv_split p = ts" using tlv_split_encode [OF assms(1)] assms(2) by simp
  ultimately show ?thesis
    using iap2_build_frame_eq [OF assms(4), of msgid, unfolded m]
      iap2_find_frame_bytes [OF assms(3), of msgid "drop (6 + length p) m"]
    by (intro exI [of _ "frame_bytes msgid p @ drop (6 + length p) m"]) simp
qed

theorem frame_roundtrip_witness:
  "\<exists>m'. iap2_build_frame (Some (replicate 20 0)) 0x5200 (Some (tlv_encode (0, [0, 16]))) 6 = Some (12, Some m') \<and>
    tlv_split (take 6 (drop 6 m')) = [(0, [0, 16])]"
  using frame_roundtrip [of "[(0, [0, 16])]" "tlv_encode (0, [0, 16])" "replicate 20 0" "0x5200"]
  by (auto simp: tlv_ok_def)

text \<open>The identification component that rgd_build_component_tlv writes reads back with its component
  id, and the constant payload of the identification hook is the one built for component 16.\<close>

theorem component_roundtrip:
  assumes "86 \<le> length m"
  shows "\<exists>m'. rgd_build_component_tlv (Some m) cid = (86, Some m') \<and>
    rgd_extract_component_id (Some (take 86 m')) = Some cid \<and>
    (cid = 0x0010 \<longrightarrow> drop 4 (take 86 m') = rgi_component_payload)"
proof -
  let ?t = "tlv_encode (component_tlv cid)"
  have l: "length ?t = 86" by (simp add: length_component_tlv)
  then have "take 86 (mem_put m 0 ?t) = ?t" by (simp add: mem_put_def)
  moreover have "drop 4 ?t = snd (component_tlv cid)"
    by (simp add: tlv_encode_def write_be16_def)
  ultimately show ?thesis
    using rgd_build_component_tlv_eq [OF assms, of cid] extract_component_tlv [of cid]
    by (metis rgi_component_payload_eq)
qed

theorem component_roundtrip_witness:
  "\<exists>m'. rgd_build_component_tlv (Some (replicate 100 0)) 0x1234 = (86, Some m') \<and>
    rgd_extract_component_id (Some (take 86 m')) = Some 0x1234"
  using component_roundtrip [of "replicate 100 0" "0x1234"] by auto

text \<open>The checksum of the link layer makes the bytes sum to zero modulo 256.\<close>

theorem checksum_cancels:
  "iap2_cksum_neg (Some bs) + sum_list bs = 0"
  by (rule iap2_cksum_neg_sum)

text \<open>C40. Whatever is appended, the text builder never writes outside its buffer, and it holds the exact
  text of the message when that fits its capacity and is marked as overflown otherwise.\<close>

theorem text_exact_or_overflow:
  assumes "length m = cap"
  shows "\<exists>b. Option.bind (bus_text_begin_with nm (Some m) cap) (text_run cs) = Some b \<and>
    bt_ok b \<and> tb_cap b = cap \<and>
    bt_text b = (if length (message_text nm cs) \<le> cap then Some (message_text nm cs) else None)"
  using text_message [OF assms, of nm cs] by (auto simp: message_text_def)

theorem text_exact_or_overflow_witness:
  "\<exists>b. Option.bind (bus_text_begin_with None (Some (replicate 4 0)) 4) (text_run [T_str [65] (Some [66])]) = Some b \<and>
    bt_text b = None"
proof -
  have "length (message_text None [T_str [65] (Some [66])]) = 6" by code_simp
  then show ?thesis using text_exact_or_overflow [of "replicate 4 0" 4 None "[T_str [65] (Some [66])]"] by auto
qed

section \<open>The caches\<close>

text \<open>A maneuver of the current list keeps its slot entry when other maneuvers arrive: no lookup or
  assignment evicts an index of the active list.\<close>

theorem list_is_protected:
  assumes "rgd_ok n g" "n < 0xFFFFFFFE" "rgd_slot_for_iap_index i c g = Some (r, g')"
    and "j \<in> set (g_slot_to_iap_idx g)" "j \<noteq> NO_INDEX" "rgd_is_active_index j g"
  shows "j \<in> set (g_slot_to_iap_idx g')"
  by (rule active_never_evicted [OF assms])

theorem list_is_protected_witness:
  "\<exists>r g'. rgd_slot_for_iap_index 9 True one_slot = Some (r, g') \<and> 7 \<in> set (g_slot_to_iap_idx g')"
proof -
  obtain r g' where g': "rgd_slot_for_iap_index 9 True one_slot = Some (r, g')"
    by (rule man_slots.look_cases [OF one_slot_ok, of 9 True]) auto
  have "7 \<in> set (g_slot_to_iap_idx one_slot)" "rgd_is_active_index 7 one_slot"
    by (simp_all add: one_slot_def rgd_is_active_index_def set_update_memI)
  with list_is_protected [OF one_slot_ok _ g', of 7] g' show ?thesis by auto
qed

text \<open>A slot that an index was given is the slot that a later lookup finds, in both caches, and no
  other slot changes its index meanwhile.\<close>

theorem slot_is_stable:
  assumes "rgd_ok n g" "n < 0xFFFFFFFD" "i \<noteq> NO_INDEX"
  shows "(rgd_slot_for_iap_index i c g = Some (Some k, g') \<longrightarrow>
      (\<exists>g''. rgd_slot_for_iap_index i False g' = Some (Some k, g'')) \<and>
      (\<forall>j<32. j \<noteq> k \<longrightarrow> g_slot_to_iap_idx g' ! j = g_slot_to_iap_idx g ! j)) \<and>
    (rgd_lane_slot_for_iap_index i c g = (Some k, h') \<longrightarrow>
      (\<exists>h''. rgd_lane_slot_for_iap_index i False h' = (Some k, h'')) \<and>
      (\<forall>j<32. j \<noteq> k \<longrightarrow> g_lane_slot_to_iap_idx h' ! j = g_lane_slot_to_iap_idx g ! j))"
  using man_slots.look_again [OF assms(1,2) _ assms(3)] man_slots.others_stay [OF assms(1)]
    lane_slots.look_again [OF assms(1,2) _ assms(3)] lane_slots.others_stay [OF assms(1)] assms(2)
  by (fastforce simp: lane_look_def)

theorem slot_is_stable_witness:
  "\<exists>k g' g''. rgd_slot_for_iap_index 9 True one_slot = Some (Some k, g') \<and>
     rgd_slot_for_iap_index 9 False g' = Some (Some k, g'')"
proof -
  have n: "(9 :: u16) \<noteq> NO_INDEX" by simp
  obtain k g' where g': "rgd_slot_for_iap_index 9 True one_slot = Some (Some k, g')"
    by (rule man_slots.look_cases [OF one_slot_ok, of 9 True]) auto
  with slot_is_stable [OF one_slot_ok _ n, of True k g'] show ?thesis by auto
qed

section \<open>The identification\<close>

text \<open>The identification message that goes out is the stock one with the route-guidance component
  put in the place of the first such parameter, or at the end; its component id is the one that
  was there, or the hook's. The message is patched whenever it fits the stock buffer or that
  buffer may be grown.\<close>

theorem identification_patched:
  assumes "w_initialized w" "env_ok ev"
    and "list_all tlv_ok ts" "len = 6 + length (enc ts)" "take len mem = frame_bytes msgid (enc ts)"
    and "cid = offered_id (g_component_id (w_rgd w)) ts"
    and "q = enc (put_tlv (component_tlv cid) ts)" "can_hold he priv mem len max_len (6 + length q)"
  shows "\<exists>priv' mem'. rgd_identify_patcher ev he (Some mem) len max_len priv cx w =
      Some (6 + length q, priv', Some mem',
        cx\<lparr>cx_component_id := cid, cx_component_valid := True, cx_identify_patched := True\<rparr>,
        on_rgd (\<lambda>g. g\<lparr>g_component_id := cid, g_component_valid := True\<rparr>) w) \<and>
    take (6 + length q) mem' = frame_bytes msgid q"
  by (rule identify_patches [OF assms])

theorem identification_patched_witness:
  "\<exists>priv' mem' w'. rgd_identify_patcher (demo_env 5) \<lparr>he_realloc = True, he_malloc = False, he_fresh = []\<rparr>
      (Some (frame_bytes 0x1D01 (enc [(0, [65, 0])]) @ replicate 100 0)) 12 112 None zero_context
      ((fresh_world zero_bus)\<lparr>w_initialized := True\<rparr>) =
      Some (98, priv', Some mem', zero_context\<lparr>cx_component_id := 16, cx_component_valid := True, cx_identify_patched := True\<rparr>, w') \<and>
    take 98 mem' = frame_bytes 0x1D01 (enc [(0, [65, 0]), component_tlv 16])"
proof -
  let ?w = "(fresh_world zero_bus)\<lparr>w_initialized := True\<rparr>" and ?ts = "[(0 :: u16, [65, 0 :: u8])]"
  have "length (enc ?ts) = 6" by (simp add: enc_def)
  moreover have "offered_id (g_component_id (w_rgd ?w)) ?ts = 16"
    by (simp add: offered_id_def fresh_world_def zero_rgd_def)
  moreover have "put_tlv (component_tlv 16) ?ts = [(0, [65, 0]), component_tlv 16]"
    by (simp add: component_tlv_ok)
  moreover have "length (enc [(0, [65, 0]), component_tlv 16]) = 92"
    using component_tlv_ok(3) [of 16] by (simp add: enc_def)
  ultimately show ?thesis
    using identification_patched [of ?w "demo_env 5" ?ts 12 "frame_bytes 0x1D01 (enc ?ts) @ replicate 100 0" "0x1D01" 16
        "enc [(0, [65, 0]), component_tlv 16]" "\<lparr>he_realloc = True, he_malloc = False, he_fresh = []\<rparr>" None 112 zero_context]
      demo_env_ok [of 5]
    by (fastforce simp: tlv_ok_def can_hold_def)
qed

section \<open>The start request\<close>

text \<open>With a ready connection the hook requests route guidance exactly when its component is valid,
  no route guidance message has arrived and the retry time has passed; the message is 0x5200 with
  the component id and the three empty parameters, and a failed injection is retried at once.\<close>

theorem start_request:
  assumes "env_ok ev" "ev_ready ev"
  shows "\<exists>r w'. rgd_request_updates ev w = Some (r, w') \<and>
    w_injected w' = w_injected w @ (if start_due (ev_start ev) (w_rgd w)
      then [(0x5200, concat (map tlv_encode (start_params (g_component_id (w_rgd w)))))] else []) \<and>
    (start_due (ev_start ev) (w_rgd w) \<longrightarrow> r = ev_inject ev \<and>
       g_last_5200_ms (w_rgd w') = (if ev_inject ev = HOOK_OK then ev_start ev else 0)) \<and>
    (\<not> start_due (ev_start ev) (w_rgd w) \<longrightarrow> w' = w)"
  unfolding rgd_request_updates_eq [OF assms]
  by (auto simp: Let_def on_rgd_def rgd_update_session_active_def)

theorem start_request_witness:
  "\<exists>ev w w' r. rgd_request_updates ev w = Some (r, w') \<and>
     w_injected w' = [(0x5200, concat (map tlv_encode (start_params 16)))]"
proof -
  let ?ev = "(demo_env 5)\<lparr>ev_ready := True\<rparr>"
  let ?w = "on_rgd (\<lambda>g. g\<lparr>g_component_valid := True, g_component_id := 16\<rparr>) (fresh_world zero_bus)"
  have "env_ok ?ev" using demo_env_ok [of 5] by (simp add: env_ok_def)
  moreover have "start_due t (w_rgd ?w)" "w_injected ?w = []" "g_component_id (w_rgd ?w) = 16" for t
    by (simp_all add: start_due_def on_rgd_def fresh_world_def zero_rgd_def)
  ultimately show ?thesis using start_request [of ?ev ?w] by auto
qed

end
